(* ===== verification/Prelude.thy ===== *)
theory Prelude
  imports Main
begin

text \<open>
  The ground layer of the development. Python strings are lists of Unicode code points
  (\<open>pystr\<close>), so that \<open>len\<close>, indexing and slicing count what Python counts. The string
  methods the program uses (\<open>startswith\<close>, \<open>find\<close>, \<open>replace\<close>, \<open>split\<close>, \<open>join\<close>, ...) are
  written here once, next to the option and list facts that several components share.
  The collections \<open>pystr_simps\<close> and \<open>model_defs\<close> gather the facts component proofs hand
  to the simplifier.
\<close>

named_theorems pystr_simps \<open>equations that evaluate the string operations\<close>
named_theorems model_defs \<open>definitions unfolded when a concrete input is evaluated\<close>

type_synonym pychar = nat
type_synonym pystr = "pychar list"

text \<open>An ASCII literal of the source, as code points.\<close>

definition lit :: "string \<Rightarrow> pystr" where
  "lit cs = map of_char cs"

lemma lit_Nil [simp, pystr_simps]: "lit [] = []"
  by (simp add: lit_def)

lemma lit_Cons [pystr_simps]: "lit (c # cs) = of_char c # lit cs"
  by (simp add: lit_def)

abbreviation CRLF :: pystr where "CRLF \<equiv> [13, 10]"

section \<open>Prefixes, suffixes and search\<close>

fun starts_with :: "pystr \<Rightarrow> pystr \<Rightarrow> bool" where
  "starts_with [] s = True"
| "starts_with (p # ps) [] = False"
| "starts_with (p # ps) (c # s) = (p = c \<and> starts_with ps s)"

definition ends_with :: "pystr \<Rightarrow> pystr \<Rightarrow> bool" where
  "ends_with p s = starts_with (rev p) (rev s)"

lemma starts_with_iff: "starts_with p s \<longleftrightarrow> (\<exists>t. s = p @ t)"
  by (induction p s rule: starts_with.induct) auto

lemma starts_with_append [simp]: "starts_with p (p @ t)"
  by (auto simp: starts_with_iff)

lemma starts_with_drop: "starts_with p s \<Longrightarrow> p @ drop (length p) s = s"
  by (auto simp: starts_with_iff)

lemma ends_with_iff: "ends_with p s \<longleftrightarrow> (\<exists>t. s = t @ p)"
proof -
  have "(\<exists>t. rev s = rev p @ t) \<longleftrightarrow> (\<exists>t. s = t @ p)"
    by (metis rev_append rev_rev_ident)
  then show ?thesis by (simp add: ends_with_def starts_with_iff)
qed

text \<open>\<open>s.find(p)\<close>: the offset of the first occurrence.\<close>

fun find_sub :: "pystr \<Rightarrow> pystr \<Rightarrow> nat option" where
  "find_sub p [] = (if p = [] then Some 0 else None)"
| "find_sub p (c # s) =
     (if starts_with p (c # s) then Some 0 else map_option Suc (find_sub p s))"

definition contains :: "pystr \<Rightarrow> pystr \<Rightarrow> bool" where
  "contains p s \<longleftrightarrow> find_sub p s \<noteq> None"

lemma find_sub_Some: "find_sub p s = Some n \<Longrightarrow> \<exists>b. s = take n s @ p @ b \<and> n \<le> length s"
proof (induction p s arbitrary: n rule: find_sub.induct)
  case (1 p)
  then show ?case by (auto split: if_splits)
next
  case (2 p c s)
  show ?case
  proof (cases "starts_with p (c # s)")
    case True
    with "2.prems" show ?thesis by (auto simp: starts_with_iff)
  next
    case False
    with "2.prems" obtain m where m: "find_sub p s = Some m" "n = Suc m" by auto
    from "2.IH"[OF False m(1)] m(2) show ?thesis by auto
  qed
qed

lemma find_sub_None: "find_sub p s = None \<longleftrightarrow> (\<nexists>a b. s = a @ p @ b)"
proof (induction p s rule: find_sub.induct)
  case (1 p)
  then show ?case by auto
next
  case (2 p c s)
  show ?case
  proof (cases "starts_with p (c # s)")
    case True
    then obtain t where "c # s = [] @ p @ t" by (auto simp: starts_with_iff)
    then have "\<exists>a b. c # s = a @ p @ b" by blast
    with True show ?thesis by simp
  next
    case False
    have "(\<exists>a b. c # s = a @ p @ b) \<longleftrightarrow> (\<exists>a b. s = a @ p @ b)"
    proof
      assume "\<exists>a b. c # s = a @ p @ b"
      then obtain a b where ab: "c # s = a @ p @ b" by blast
      with False have "a \<noteq> []" by (auto simp: starts_with_iff)
      with ab show "\<exists>a b. s = a @ p @ b" by (cases a) auto
    next
      assume "\<exists>a b. s = a @ p @ b"
      then obtain a b where "s = a @ p @ b" by blast
      then have "c # s = (c # a) @ p @ b" by simp
      then show "\<exists>a b. c # s = a @ p @ b" by blast
    qed
    with False "2.IH" show ?thesis by simp
  qed
qed

lemma contains_iff: "contains p s \<longleftrightarrow> (\<exists>a b. s = a @ p @ b)"
  by (simp add: contains_def find_sub_None del: not_None_eq)

lemma find_sub_least:
  "find_sub p s = Some n \<Longrightarrow> s = a @ p @ b \<Longrightarrow> n \<le> length a"
proof (induction p s arbitrary: n a rule: find_sub.induct)
  case (1 p)
  then show ?case by (auto split: if_splits)
next
  case (2 p c s)
  show ?case
  proof (cases "starts_with p (c # s)")
    case True
    with "2.prems"(1) show ?thesis by (metis find_sub.simps(2) le0 option.inject)
  next
    case False
    with "2.prems"(1) obtain m where m: "find_sub p s = Some m" "n = Suc m" by auto
    from False "2.prems"(2) obtain a' where a: "a = c # a'" "s = a' @ p @ b"
      by (cases a) (auto simp: starts_with_iff)
    from "2.IH"[OF False m(1) a(2)] a m show ?thesis by simp
  qed
qed

text \<open>\<open>s.replace(p, r, 1)\<close> and \<open>s.replace(p, r)\<close>.\<close>

definition replace_first :: "pystr \<Rightarrow> pystr \<Rightarrow> pystr \<Rightarrow> pystr" where
  "replace_first p r s =
     (case find_sub p s of None \<Rightarrow> s | Some n \<Rightarrow> take n s @ r @ drop (n + length p) s)"

lemma replace_first_at:
  assumes "s = a @ p @ b" and "find_sub p s = Some (length a)"
  shows "replace_first p r s = a @ r @ b"
  using assms by (simp add: replace_first_def)

function replace_all :: "pystr \<Rightarrow> pystr \<Rightarrow> pystr \<Rightarrow> pystr" where
  "replace_all p r s =
     (if p = [] then s
      else case s of
        [] \<Rightarrow> []
      | c # t \<Rightarrow> (if starts_with p s then r @ replace_all p r (drop (length p) s)
                  else c # replace_all p r t))"
  by pat_completeness auto
termination
  by (relation "measure (\<lambda>(p, r, s). length s)") auto

declare replace_all.simps [simp del]

section \<open>Splitting and joining\<close>

text \<open>\<open>s.split(c)\<close> for one character, and \<open>s.split(c, n)\<close>.\<close>

fun split_char :: "pychar \<Rightarrow> pystr \<Rightarrow> pystr list" where
  "split_char d [] = [[]]"
| "split_char d (c # s) =
     (if c = d then [] # split_char d s
      else case split_char d s of [] \<Rightarrow> [[c]] | x # xs \<Rightarrow> (c # x) # xs)"

fun split_char_max :: "pychar \<Rightarrow> nat \<Rightarrow> pystr \<Rightarrow> pystr list" where
  "split_char_max d 0 s = [s]"
| "split_char_max d (Suc n) [] = [[]]"
| "split_char_max d (Suc n) (c # s) =
     (if c = d then [] # split_char_max d n s
      else case split_char_max d (Suc n) s of [] \<Rightarrow> [[c]] | x # xs \<Rightarrow> (c # x) # xs)"

fun join_with :: "pystr \<Rightarrow> pystr list \<Rightarrow> pystr" where
  "join_with d [] = []"
| "join_with d [x] = x"
| "join_with d (x # y # xs) = x @ d @ join_with d (y # xs)"

lemma split_char_max_nonempty [simp]: "split_char_max d n s \<noteq> []"
  by (induction d n s rule: split_char_max.induct) (auto split: list.splits)

lemma split_char_nonempty [simp]: "split_char d s \<noteq> []"
  by (induction d s rule: split_char.induct) (auto split: list.splits)

lemma length_split_char_max: "length (split_char_max d n s) \<le> Suc n"
  by (induction d n s rule: split_char_max.induct) (auto split: list.splits)

lemma join_with_Cons_Cons:
  "xs \<noteq> [] \<Longrightarrow> join_with d (x # xs) = x @ d @ join_with d xs"
  by (cases xs) auto

lemma join_with_grow: "join_with d ((c # x) # xs) = c # join_with d (x # xs)"
  by (cases xs) auto

lemma join_split_char_max: "join_with [d] (split_char_max d n s) = s"
proof (induction d n s rule: split_char_max.induct)
  case (3 d n c s)
  then show ?case
    by (auto simp: join_with_Cons_Cons join_with_grow split: list.splits)
qed auto

lemma join_with_snoc:
  "xs \<noteq> [] \<Longrightarrow> join_with d (xs @ [y]) = join_with d xs @ d @ y"
  by (induction d xs rule: join_with.induct) (auto simp: join_with_Cons_Cons)

lemma split_char_append: "split_char d (a @ d # b) = split_char d a @ split_char d b"
proof (induction a)
  case (Cons c a)
  then show ?case by (cases "split_char d a") auto
qed simp

lemma split_char_line: "d \<notin> set x \<Longrightarrow> split_char d x = [x]"
  by (induction x) auto

lemma split_joined: "xs \<noteq> [] \<Longrightarrow> split_char d (join_with [d] xs) = concat (map (split_char d) xs)"
  by (induction "[d]" xs rule: join_with.induct) (simp_all add: split_char_append)

section \<open>Line boundaries\<close>

text \<open>
  \<open>str.splitlines\<close> breaks at LF, CR, CR LF and the other Unicode line boundaries;
  \<open>splitlines_keep\<close> is \<open>splitlines(keepends=True)\<close>.
\<close>

definition line_break :: "pychar \<Rightarrow> bool" where
  "line_break c \<longleftrightarrow> c \<in> {10, 11, 12, 13, 28, 29, 30, 133, 8232, 8233}"

fun splitlines_keep :: "pystr \<Rightarrow> pystr list" where
  "splitlines_keep [] = []"
| "splitlines_keep [c] = [[c]]"
| "splitlines_keep (c # d # s) =
     (if c = 13 \<and> d = 10 then [13, 10] # splitlines_keep s
      else if line_break c then [c] # splitlines_keep (d # s)
      else case splitlines_keep (d # s) of [] \<Rightarrow> [[c]] | x # xs \<Rightarrow> (c # x) # xs)"

definition chop_eol :: "pystr \<Rightarrow> pystr" where
  "chop_eol x =
     (if ends_with CRLF x then take (length x - 2) x
      else case rev x of [] \<Rightarrow> [] | c # r \<Rightarrow> (if line_break c then rev r else x))"

definition splitlines :: "pystr \<Rightarrow> pystr list" where
  "splitlines s = map chop_eol (splitlines_keep s)"

lemma splitlines_keep_eq_Nil [simp]: "splitlines_keep s = [] \<longleftrightarrow> s = []"
  by (induction s rule: splitlines_keep.induct) (auto split: list.splits)

lemma concat_splitlines_keep: "concat (splitlines_keep s) = s"
proof (induction s rule: splitlines_keep.induct)
  case (3 c d s)
  show ?case
  proof (cases "c = 13 \<and> d = 10")
    case True
    with 3 show ?thesis by simp
  next
    case False
    obtain x xs where x: "splitlines_keep (d # s) = x # xs"
      by (metis list.distinct(1) list.exhaust splitlines_keep_eq_Nil)
    with 3 False show ?thesis by (cases "line_break c") auto
  qed
qed auto

lemma splitlines_keep_nonempty: "x \<in> set (splitlines_keep s) \<Longrightarrow> x \<noteq> []"
  by (induction s rule: splitlines_keep.induct) (auto split: list.splits if_splits)

section \<open>Decimal numbers\<close>

text \<open>\<open>str(n)\<close> of a non-negative integer.\<close>

fun dec :: "nat \<Rightarrow> pystr" where
  "dec n = (if n < 10 then [48 + n] else dec (n div 10) @ [48 + n mod 10])"

declare dec.simps [simp del]

definition ascii_digit :: "pychar \<Rightarrow> bool" where
  "ascii_digit c \<longleftrightarrow> 48 \<le> c \<and> c \<le> 57"

lemma dec_nonempty [simp]: "dec n \<noteq> []"
  by (subst dec.simps) simp

lemma dec_digits: "\<forall>c \<in> set (dec n). ascii_digit c"
proof (induction n rule: dec.induct)
  case (1 n)
  have m: "n mod 10 \<le> 9" by presburger
  show ?case
  proof (cases "n < 10")
    case True
    then show ?thesis by (subst dec.simps) (simp add: ascii_digit_def)
  next
    case False
    with "1.IH" m show ?thesis
      by (subst dec.simps) (auto simp: ascii_digit_def)
  qed
qed

fun dec_value :: "nat \<Rightarrow> pystr \<Rightarrow> nat" where
  "dec_value a [] = a"
| "dec_value a (c # s) = dec_value (10 * a + (c - 48)) s"

lemma dec_value_append: "dec_value a (x @ y) = dec_value (dec_value a x) y"
  by (induction x arbitrary: a) auto

lemma dec_value_dec: "dec_value 0 (dec n) = n"
proof (induction n rule: dec.induct)
  case (1 n)
  then show ?case
    by (cases "n < 10") (subst dec.simps, simp add: dec_value_append)+
qed

lemma dec_inject: "dec m = dec n \<longleftrightarrow> m = n"
  by (metis dec_value_dec)

section \<open>Errors\<close>

text \<open>The Python exceptions the modelled code can raise; a failing call returns \<open>Inl\<close> of one.\<close>

datatype py_error =
    IndexError
  | KeyError
  | ValueError
  | TypeError
  | AttributeError
  | StopIteration
  | RuntimeError
  | IntegrityError
  | MultipleResultsFound
  | NoResultFound

section \<open>Truthiness and options\<close>

text \<open>Python's \<open>x or y\<close> on an optional string: \<open>None\<close> and the empty string are false.\<close>

definition truthy :: "pystr option \<Rightarrow> bool" where
  "truthy x \<longleftrightarrow> (case x of None \<Rightarrow> False | Some s \<Rightarrow> s \<noteq> [])"

definition or_empty :: "pystr option \<Rightarrow> pystr" where
  "or_empty x = (case x of None \<Rightarrow> [] | Some s \<Rightarrow> s)"

lemma truthy_simps [simp]: "truthy None = False" "truthy (Some s) \<longleftrightarrow> s \<noteq> []"
  by (simp_all add: truthy_def)

lemma or_empty_simps [simp]: "or_empty None = []" "or_empty (Some s) = s"
  by (simp_all add: or_empty_def)

section \<open>Lists\<close>

lemma concat_replicate_Nil [simp]: "concat (replicate n []) = []"
  by (induction n) auto

lemma filter_eq_self: "(\<And>x. x \<in> set xs \<Longrightarrow> P x) \<Longrightarrow> filter P xs = xs"
  by (induction xs) auto

text \<open>The position of the first element that satisfies a predicate.\<close>

fun find_index :: "('a \<Rightarrow> bool) \<Rightarrow> 'a list \<Rightarrow> nat option" where
  "find_index P [] = None"
| "find_index P (x # xs) = (if P x then Some 0 else map_option Suc (find_index P xs))"

lemma find_index_None: "find_index P xs = None \<longleftrightarrow> (\<forall>x \<in> set xs. \<not> P x)"
  by (induction xs) auto

lemma find_index_Some:
  "find_index P xs = Some i \<longleftrightarrow> i < length xs \<and> P (xs ! i) \<and> (\<forall>j < i. \<not> P (xs ! j))"
proof (induction xs arbitrary: i)
  case (Cons x xs)
  then show ?case by (cases i) (auto simp: less_Suc_eq_0_disj)
qed simp

text \<open>All positions whose element satisfies a predicate, in order.\<close>

definition indices_where :: "('a \<Rightarrow> bool) \<Rightarrow> 'a list \<Rightarrow> nat list" where
  "indices_where P xs = filter (\<lambda>i. P (xs ! i)) [0..<length xs]"

lemma set_indices_where: "set (indices_where P xs) = {i. i < length xs \<and> P (xs ! i)}"
  by (auto simp: indices_where_def)

lemma sorted_indices_where: "sorted (indices_where P xs)"
  unfolding indices_where_def by (rule sorted_wrt_filter) simp

lemma indices_where_Nil: "indices_where P xs = [] \<longleftrightarrow> (\<forall>x \<in> set xs. \<not> P x)"
proof
  assume "indices_where P xs = []"
  then show "\<forall>x \<in> set xs. \<not> P x"
    by (auto simp: indices_where_def filter_empty_conv in_set_conv_nth)
next
  assume "\<forall>x \<in> set xs. \<not> P x"
  then show "indices_where P xs = []"
    by (simp add: indices_where_def filter_empty_conv)
qed

lemma find_SomeD: "find P xs = Some x \<Longrightarrow> x \<in> set xs \<and> P x"
  by (induction xs) (auto split: if_splits)

lemma find_append: "find P (xs @ ys) = (case find P xs of None \<Rightarrow> find P ys | Some x \<Rightarrow> Some x)"
  by (induction xs) auto

end
