(* ===== verification/Py_Regex.thy ===== *)
theory Py_Regex
  imports Unicode_Tables
begin

text \<open>
  Python's \<open>re\<close> module, as far as the program uses it. \<open>rmatch\<close> is the backtracking matcher:
  it returns every way a pattern can match at a position, in the order \<open>re\<close> tries them, with
  the captured groups; \<open>re.match\<close>, \<open>fullmatch\<close>, \<open>search\<close>, \<open>findall\<close>, \<open>finditer\<close>, \<open>sub\<close>
  and \<open>split\<close> are derived from it. \<open>rxm\<close> is the reference semantics (which words a pattern
  matches between a left and a right context), and \<open>rmatch_iff\<close> says that the matcher finds
  exactly those words.
\<close>

section \<open>Patterns\<close>

text \<open>
  \<open>RAssert\<close> holds the zero-width assertions, which look at the (reversed) text before the
  position and the text after it; \<open>RLazy\<close> is a non-greedy star.
\<close>

datatype rx =
    REps
  | RCls "pychar \<Rightarrow> bool"
  | RSeq rx rx
  | RAlt rx rx
  | RStar rx
  | RLazy rx
  | RGrp nat rx
  | RAssert "pystr \<Rightarrow> pystr \<Rightarrow> bool"

definition rchr :: "pychar \<Rightarrow> rx" where
  "rchr c = RCls (\<lambda>x. x = c)"

definition rstr :: "pystr \<Rightarrow> rx" where
  "rstr s = foldr (\<lambda>c r. RSeq (rchr c) r) s REps"

definition rplus :: "rx \<Rightarrow> rx" where
  "rplus r = RSeq r (RStar r)"

definition ropt :: "rx \<Rightarrow> rx" where
  "ropt r = RAlt r REps"

text \<open>\<open>^\<close>, \<open>$\<close> (at the end, or before one final newline), \<open>^\<close> under \<open>re.MULTILINE\<close>, \<open>\b\<close>.\<close>

definition rbos :: rx where
  "rbos = RAssert (\<lambda>l s. l = [])"

definition reos :: rx where
  "reos = RAssert (\<lambda>l s. s = [] \<or> s = [10])"

definition rbol :: rx where
  "rbol = RAssert (\<lambda>l s. case l of [] \<Rightarrow> True | c # _ \<Rightarrow> c = 10)"

definition rwordb :: rx where
  "rwordb = RAssert (\<lambda>l s.
     (case l of [] \<Rightarrow> False | c # _ \<Rightarrow> is_word c) \<noteq> (case s of [] \<Rightarrow> False | c # _ \<Rightarrow> is_word c))"

definition rnot_ahead :: "pystr \<Rightarrow> rx" where
  "rnot_ahead p = RAssert (\<lambda>l s. \<not> starts_with p s)"

text \<open>
  One literal under \<open>re.IGNORECASE\<close>, given in lower case: the subject's character is
  lowered, and \<open>i\<close> and \<open>s\<close> also match the dotless i and the long s.
\<close>

definition sre_lower :: "pychar \<Rightarrow> pychar" where
  "sre_lower c = (if c = 304 then 105 else lower_char c)"

definition ci_eq :: "pychar \<Rightarrow> pychar \<Rightarrow> bool" where
  "ci_eq p c \<longleftrightarrow> (let d = sre_lower c in
     d = p \<or> (p = 105 \<and> d = 305) \<or> (p = 115 \<and> d = 383))"

definition ristr :: "pystr \<Rightarrow> rx" where
  "ristr s = foldr (\<lambda>c r. RSeq (RCls (ci_eq c)) r) s REps"

lemmas rx_defs = rchr_def rstr_def rplus_def ropt_def rbos_def reos_def rbol_def rwordb_def
  rnot_ahead_def ristr_def

section \<open>The backtracking matcher\<close>

type_synonym caps = "(nat \<times> pystr) list"
type_synonym mres = "pystr \<times> pystr \<times> caps"

text \<open>
  \<open>rmatch r l s g\<close>: \<open>l\<close> is the text before the position, reversed, \<open>s\<close> the text after it,
  \<open>g\<close> the groups captured so far (the latest first). A star iterates only over a body match
  that consumes something.
\<close>

function rmatch :: "rx \<Rightarrow> pystr \<Rightarrow> pystr \<Rightarrow> caps \<Rightarrow> mres list" where
  "rmatch REps l s g = [(l, s, g)]"
| "rmatch (RCls p) l s g =
     (case s of [] \<Rightarrow> [] | c # t \<Rightarrow> (if p c then [(c # l, t, g)] else []))"
| "rmatch (RSeq a b) l s g =
     concat (map (\<lambda>(l', s', g'). rmatch b l' s' g') (rmatch a l s g))"
| "rmatch (RAlt a b) l s g = rmatch a l s g @ rmatch b l s g"
| "rmatch (RStar a) l s g =
     concat (map (\<lambda>(l', s', g'). if length s' < length s then rmatch (RStar a) l' s' g' else [])
       (rmatch a l s g)) @ [(l, s, g)]"
| "rmatch (RLazy a) l s g =
     (l, s, g) # concat (map (\<lambda>(l', s', g').
        if length s' < length s then rmatch (RLazy a) l' s' g' else []) (rmatch a l s g))"
| "rmatch (RGrp n a) l s g =
     map (\<lambda>(l', s', g'). (l', s', (n, take (length s - length s') s) # g')) (rmatch a l s g)"
| "rmatch (RAssert q) l s g = (if q l s then [(l, s, g)] else [])"
  by pat_completeness auto
termination
  by (relation "measures [\<lambda>(r, l, s, g). size r, \<lambda>(r, l, s, g). length s]") auto

text \<open>The star equations unfold on concrete subjects only, when they are named.\<close>

declare rmatch.simps(5) [simp del]
declare rmatch.simps(6) [simp del]

lemma mem_guarded:
  "x \<in> set (concat (map (\<lambda>(l', s', g'). if length s' < n then f l' s' g' else []) ms)) \<longleftrightarrow>
     (\<exists>l' s' g'. (l', s', g') \<in> set ms \<and> length s' < n \<and> x \<in> set (f l' s' g'))"
  by (induction ms) auto

lemma rmatch_star_mem:
  "x \<in> set (rmatch (RStar a) l s g) \<longleftrightarrow>
     x = (l, s, g) \<or>
     (\<exists>l1 s1 g1. (l1, s1, g1) \<in> set (rmatch a l s g) \<and> length s1 < length s \<and>
        x \<in> set (rmatch (RStar a) l1 s1 g1))"
  unfolding mem_guarded [of x _ "\<lambda>l' s' g'. rmatch (RStar a) l' s' g'", symmetric]
  by (subst rmatch.simps(5)) (simp add: disj_commute)

lemma rmatch_lazy_mem:
  "x \<in> set (rmatch (RLazy a) l s g) \<longleftrightarrow>
     x = (l, s, g) \<or>
     (\<exists>l1 s1 g1. (l1, s1, g1) \<in> set (rmatch a l s g) \<and> length s1 < length s \<and>
        x \<in> set (rmatch (RLazy a) l1 s1 g1))"
  unfolding mem_guarded [of x _ "\<lambda>l' s' g'. rmatch (RLazy a) l' s' g'", symmetric]
  by (subst rmatch.simps(6)) (simp add: disj_commute)

definition first_match :: "rx \<Rightarrow> pystr \<Rightarrow> pystr \<Rightarrow> mres option" where
  "first_match r l s = (case rmatch r l s [] of [] \<Rightarrow> None | m # _ \<Rightarrow> Some m)"

text \<open>\<open>re.match\<close> and \<open>re.fullmatch\<close> give the groups; group 0 is the whole match.\<close>

definition group :: "caps \<Rightarrow> nat \<Rightarrow> pystr" where
  "group g n = (case map_of g n of None \<Rightarrow> [] | Some w \<Rightarrow> w)"

definition re_match :: "rx \<Rightarrow> pystr \<Rightarrow> (pystr \<times> caps) option" where
  "re_match r s = map_option (\<lambda>(l', s', g). (rev l', g)) (first_match r [] s)"

definition re_fullmatch :: "rx \<Rightarrow> pystr \<Rightarrow> caps option" where
  "re_fullmatch r s =
     map_option (\<lambda>(l', s', g). g) (find (\<lambda>(l', s', g). s' = []) (rmatch r [] s []))"

text \<open>
  \<open>re.search\<close> tries the positions from left to right. The result is the text before the
  match, the match, the text after it and the groups.
\<close>

fun search_from :: "rx \<Rightarrow> pystr \<Rightarrow> pystr \<Rightarrow> (pystr \<times> pystr \<times> pystr \<times> caps) option" where
  "search_from r l s =
     (case first_match r l s of
        Some (l', s', g) \<Rightarrow> Some (rev l, take (length s - length s') s, s', g)
      | None \<Rightarrow> (case s of [] \<Rightarrow> None | c # t \<Rightarrow> search_from r (c # l) t))"

declare search_from.simps [simp del]

definition re_search :: "rx \<Rightarrow> pystr \<Rightarrow> (pystr \<times> pystr \<times> pystr \<times> caps) option" where
  "re_search r s = search_from r [] s"

definition found :: "rx \<Rightarrow> pystr \<Rightarrow> bool" where
  "found r s \<longleftrightarrow> re_search r s \<noteq> None"

text \<open>
  The non-overlapping matches from left to right, each with the text skipped before it, and
  the text after the last one. All patterns the program hands to \<open>sub\<close>, \<open>split\<close>, \<open>findall\<close>
  and \<open>finditer\<close> consume at least one character; an empty match is passed over.
\<close>

function pieces_from ::
  "rx \<Rightarrow> pystr \<Rightarrow> pystr \<Rightarrow> pystr \<Rightarrow> (pystr \<times> pystr \<times> caps) list \<times> pystr" where
  "pieces_from r l gap s =
     (case s of
        [] \<Rightarrow> ([], rev gap)
      | c # t \<Rightarrow>
         (case first_match r l s of
            Some (l', s', g) \<Rightarrow>
              (if length s' < length s then
                 (let (ps, rest) = pieces_from r l' [] s'
                  in ((rev gap, take (length s - length s') s, g) # ps, rest))
               else pieces_from r (c # l) (c # gap) t)
          | None \<Rightarrow> pieces_from r (c # l) (c # gap) t))"
  by pat_completeness auto
termination by (relation "measure (\<lambda>(r, l, gap, s). length s)") auto

declare pieces_from.simps [simp del]

definition re_pieces :: "rx \<Rightarrow> pystr \<Rightarrow> (pystr \<times> pystr \<times> caps) list \<times> pystr" where
  "re_pieces r s = pieces_from r [] [] s"

definition re_findall :: "rx \<Rightarrow> pystr \<Rightarrow> pystr list" where
  "re_findall r s = map (\<lambda>(gap, m, g). m) (fst (re_pieces r s))"

definition re_finditer :: "rx \<Rightarrow> pystr \<Rightarrow> caps list" where
  "re_finditer r s = map (\<lambda>(gap, m, g). (0, m) # g) (fst (re_pieces r s))"

definition re_sub :: "rx \<Rightarrow> pystr \<Rightarrow> pystr \<Rightarrow> pystr" where
  "re_sub r by s =
     concat (map (\<lambda>(gap, m, g). gap @ by) (fst (re_pieces r s))) @ snd (re_pieces r s)"

text \<open>\<open>split\<close> on a pattern with one outer group: the texts between and the separators.\<close>

definition re_split :: "rx \<Rightarrow> pystr \<Rightarrow> pystr list \<times> pystr list" where
  "re_split r s = (map (\<lambda>(gap, m, g). gap) (fst (re_pieces r s)) @ [snd (re_pieces r s)],
                   map (\<lambda>(gap, m, g). m) (fst (re_pieces r s)))"

section \<open>Reference semantics\<close>

inductive rxm :: "rx \<Rightarrow> pystr \<Rightarrow> pystr \<Rightarrow> pystr \<Rightarrow> bool" where
  eps: "rxm REps l [] t"
| cls: "p c \<Longrightarrow> rxm (RCls p) l [c] t"
| seq: "rxm a l w (v @ t) \<Longrightarrow> rxm b (rev w @ l) v t \<Longrightarrow> rxm (RSeq a b) l (w @ v) t"
| altl: "rxm a l w t \<Longrightarrow> rxm (RAlt a b) l w t"
| altr: "rxm b l w t \<Longrightarrow> rxm (RAlt a b) l w t"
| star0: "rxm (RStar a) l [] t"
| star1: "rxm a l w (v @ t) \<Longrightarrow> w \<noteq> [] \<Longrightarrow> rxm (RStar a) (rev w @ l) v t \<Longrightarrow>
    rxm (RStar a) l (w @ v) t"
| lazy0: "rxm (RLazy a) l [] t"
| lazy1: "rxm a l w (v @ t) \<Longrightarrow> w \<noteq> [] \<Longrightarrow> rxm (RLazy a) (rev w @ l) v t \<Longrightarrow>
    rxm (RLazy a) l (w @ v) t"
| grp: "rxm a l w t \<Longrightarrow> rxm (RGrp n a) l w t"
| asrt: "q l t \<Longrightarrow> rxm (RAssert q) l [] t"

inductive_simps rxm_eps [simp]: "rxm REps l w t"
inductive_simps rxm_cls [simp]: "rxm (RCls p) l w t"
inductive_simps rxm_seq: "rxm (RSeq a b) l w t"
inductive_simps rxm_alt [simp]: "rxm (RAlt a b) l w t"
inductive_simps rxm_star: "rxm (RStar a) l w t"
inductive_simps rxm_grp [simp]: "rxm (RGrp n a) l w t"
inductive_simps rxm_asrt [simp]: "rxm (RAssert q) l w t"

lemma rmatch_sound:
  "(l', s', g') \<in> set (rmatch r l s g) \<Longrightarrow> \<exists>w. s = w @ s' \<and> l' = rev w @ l \<and> rxm r l w s'"
proof (induction r l s g arbitrary: l' s' g' rule: rmatch.induct)
  case (1 l s g)
  then show ?case by simp
next
  case (2 p l s g)
  then show ?case by (cases s) (simp_all split: if_splits)
next
  case (4 a b l s g)
  from "4.prems" consider "(l', s', g') \<in> set (rmatch a l s g)" | "(l', s', g') \<in> set (rmatch b l s g)"
    by auto
  then show ?case
    by cases (use "4.IH" in \<open>meson rxm.altl rxm.altr\<close>)+
next
  case (8 q l s g)
  then show ?case by (simp split: if_splits)
next
  case (3 a b l s g)
  then obtain l1 s1 g1 where m: "(l1, s1, g1) \<in> set (rmatch a l s g)"
    "(l', s', g') \<in> set (rmatch b l1 s1 g1)" by auto
  from "3.IH"(1)[OF m(1)] obtain w where w: "s = w @ s1" "l1 = rev w @ l" "rxm a l w s1" by blast
  from "3.IH"(2)[OF m(1) refl refl m(2)] obtain v where
    v: "s1 = v @ s'" "l' = rev v @ l1" "rxm b l1 v s'" by blast
  from w v have "rxm (RSeq a b) l (w @ v) s'" by (auto intro: rxm.seq)
  with w v show ?case by auto
next
  case (5 a l s g)
  show ?case
  proof (cases "(l', s', g') = (l, s, g)")
    case True
    then show ?thesis by (auto intro: rxm.star0)
  next
    case False
    with "5.prems" obtain l1 s1 g1 where m: "(l1, s1, g1) \<in> set (rmatch a l s g)"
      "length s1 < length s" "(l', s', g') \<in> set (rmatch (RStar a) l1 s1 g1)"
      by (auto simp: rmatch_star_mem [of _ a l s g])
    from "5.IH"(1)[OF m(1)] obtain w where w: "s = w @ s1" "l1 = rev w @ l" "rxm a l w s1" by blast
    from "5.IH"(2)[OF m(1) refl refl m(2,3)] obtain v where
      v: "s1 = v @ s'" "l' = rev v @ l1" "rxm (RStar a) l1 v s'" by blast
    from w m(2) have "w \<noteq> []" by auto
    with w v have "rxm (RStar a) l (w @ v) s'" by (auto intro: rxm.star1)
    with w v show ?thesis by auto
  qed
next
  case (6 a l s g)
  show ?case
  proof (cases "(l', s', g') = (l, s, g)")
    case True
    then show ?thesis by (auto intro: rxm.lazy0)
  next
    case False
    with "6.prems" obtain l1 s1 g1 where m: "(l1, s1, g1) \<in> set (rmatch a l s g)"
      "length s1 < length s" "(l', s', g') \<in> set (rmatch (RLazy a) l1 s1 g1)"
      by (auto simp: rmatch_lazy_mem [of _ a l s g])
    from "6.IH"(1)[OF m(1)] obtain w where w: "s = w @ s1" "l1 = rev w @ l" "rxm a l w s1" by blast
    from "6.IH"(2)[OF m(1) refl refl m(2,3)] obtain v where
      v: "s1 = v @ s'" "l' = rev v @ l1" "rxm (RLazy a) l1 v s'" by blast
    from w m(2) have "w \<noteq> []" by auto
    with w v have "rxm (RLazy a) l (w @ v) s'" by (auto intro: rxm.lazy1)
    with w v show ?thesis by auto
  qed
next
  case (7 n a l s g)
  then obtain g1 where "(l', s', g1) \<in> set (rmatch a l s g)" by auto
  from "7.IH"[OF this] show ?case by (auto intro: rxm.grp)
qed

lemma rmatch_complete:
  "rxm r l w t \<Longrightarrow> \<exists>g'. (rev w @ l, t, g') \<in> set (rmatch r l (w @ t) g)"
proof (induction arbitrary: g rule: rxm.induct)
  case (seq a l w v t b)
  from seq.IH(1) obtain g1 where m: "(rev w @ l, v @ t, g1) \<in> set (rmatch a l (w @ v @ t) g)" by blast
  from seq.IH(2) obtain g2 where "(rev v @ rev w @ l, t, g2) \<in> set (rmatch b (rev w @ l) (v @ t) g1)"
    by blast
  with m show ?case by fastforce
next
  case (star1 a l w v t)
  from star1.IH(1) obtain g1 where m: "(rev w @ l, v @ t, g1) \<in> set (rmatch a l (w @ v @ t) g)" by blast
  from star1.IH(2) obtain g2 where
    "(rev v @ rev w @ l, t, g2) \<in> set (rmatch (RStar a) (rev w @ l) (v @ t) g1)" by blast
  moreover have "length (v @ t) < length (w @ v @ t)" using star1.hyps(2) by simp
  ultimately have "(rev v @ rev w @ l, t, g2) \<in> set (rmatch (RStar a) l (w @ v @ t) g)"
    using m by (subst rmatch_star_mem) blast
  then show ?case by auto
next
  case (lazy1 a l w v t)
  from lazy1.IH(1) obtain g1 where m: "(rev w @ l, v @ t, g1) \<in> set (rmatch a l (w @ v @ t) g)" by blast
  from lazy1.IH(2) obtain g2 where
    "(rev v @ rev w @ l, t, g2) \<in> set (rmatch (RLazy a) (rev w @ l) (v @ t) g1)" by blast
  moreover have "length (v @ t) < length (w @ v @ t)" using lazy1.hyps(2) by simp
  ultimately have "(rev v @ rev w @ l, t, g2) \<in> set (rmatch (RLazy a) l (w @ v @ t) g)"
    using m by (subst rmatch_lazy_mem) blast
  then show ?case by auto
next
  case (grp a l w t n)
  then obtain g1 where m: "(rev w @ l, t, g1) \<in> set (rmatch a l (w @ t) g)" by blast
  then have "(rev w @ l, t, (n, take (length (w @ t) - length t) (w @ t)) # g1)
      \<in> set (rmatch (RGrp n a) l (w @ t) g)"
    unfolding rmatch.simps by force
  then show ?case by blast
next
  case (altl a l w t b)
  then show ?case by (metis UnI1 rmatch.simps(4) set_append)
next
  case (altr b l w t a)
  then show ?case by (metis UnI2 rmatch.simps(4) set_append)
next
  case (star0 a l t)
  then show ?case by (auto simp: rmatch_star_mem [of _ a l t])
next
  case (lazy0 a l t)
  then show ?case by (auto simp: rmatch_lazy_mem [of _ a l t])
qed simp_all


lemma rmatch_iff:
  "(\<exists>g'. (l', t, g') \<in> set (rmatch r l s g)) \<longleftrightarrow> (\<exists>w. s = w @ t \<and> l' = rev w @ l \<and> rxm r l w t)"
  by (metis rmatch_complete rmatch_sound)

text \<open>How the captured groups evolve: only \<open>RGrp\<close> adds one.\<close>

fun nogrp :: "rx \<Rightarrow> bool" where
  "nogrp (RSeq a b) = (nogrp a \<and> nogrp b)"
| "nogrp (RAlt a b) = (nogrp a \<and> nogrp b)"
| "nogrp (RStar a) = nogrp a"
| "nogrp (RLazy a) = nogrp a"
| "nogrp (RGrp n a) = False"
| "nogrp _ = True"

lemma rmatch_nogrp: "nogrp r \<Longrightarrow> (l', s', g') \<in> set (rmatch r l s g) \<Longrightarrow> g' = g"
proof (induction r l s g arbitrary: l' s' g' rule: rmatch.induct)
  case (5 a l s g)
  from 5(4) consider "(l', s', g') = (l, s, g)"
    | l1 s1 g1 where "(l1, s1, g1) \<in> set (rmatch a l s g)" "length s1 < length s"
        "(l', s', g') \<in> set (rmatch (RStar a) l1 s1 g1)"
    by (subst (asm) rmatch_star_mem) blast
  then show ?case
  proof cases
    case 2
    with 5(1)[OF _ 2(1)] 5(2)[OF 2(1) refl refl 2(2) _ 2(3)] 5(3) show ?thesis by simp
  qed simp
next
  case (6 a l s g)
  from 6(4) consider "(l', s', g') = (l, s, g)"
    | l1 s1 g1 where "(l1, s1, g1) \<in> set (rmatch a l s g)" "length s1 < length s"
        "(l', s', g') \<in> set (rmatch (RLazy a) l1 s1 g1)"
    by (subst (asm) rmatch_lazy_mem) blast
  then show ?case
  proof cases
    case 2
    with 6(1)[OF _ 2(1)] 6(2)[OF 2(1) refl refl 2(2) _ 2(3)] 6(3) show ?thesis by simp
  qed simp
qed (fastforce split: list.splits if_splits)+

lemma rmatch_seq_mem:
  "x \<in> set (rmatch (RSeq a b) l s g) \<longleftrightarrow>
     (\<exists>l1 s1 g1. (l1, s1, g1) \<in> set (rmatch a l s g) \<and> x \<in> set (rmatch b l1 s1 g1))"
  by fastforce

lemma rmatch_grp_mem:
  "(l', s', g') \<in> set (rmatch (RGrp n a) l s g) \<longleftrightarrow>
     (\<exists>g1. (l', s', g1) \<in> set (rmatch a l s g) \<and> g' = (n, take (length s - length s') s) # g1)"
  by force

text \<open>One step of a sequence: the word a group-free head matches, or the word a group captures.\<close>

lemma rmatch_seq_head:
  assumes "x \<in> set (rmatch (RSeq a b) l s g)" and "nogrp a"
  obtains w t where "s = w @ t" "rxm a l w t" "x \<in> set (rmatch b (rev w @ l) t g)"
  using assms rmatch_nogrp rmatch_sound unfolding rmatch_seq_mem by metis

lemma rmatch_seq_group:
  assumes "x \<in> set (rmatch (RSeq (RGrp n a) b) l s g)" and "nogrp a"
  obtains w t where "s = w @ t" "rxm a l w t" "x \<in> set (rmatch b (rev w @ l) t ((n, w) # g))"
proof -
  from assms(1) obtain l1 s1 g1 where
    m: "(l1, s1, g1) \<in> set (rmatch (RGrp n a) l s g)" "x \<in> set (rmatch b l1 s1 g1)"
    unfolding rmatch_seq_mem by blast
  from m(1) obtain g2 where
    g: "(l1, s1, g2) \<in> set (rmatch a l s g)" "g1 = (n, take (length s - length s1) s) # g2"
    unfolding rmatch_grp_mem by blast
  from rmatch_sound[OF g(1)] obtain w where w: "s = w @ s1" "l1 = rev w @ l" "rxm a l w s1" by blast
  have "g2 = g" by (rule rmatch_nogrp[OF assms(2) g(1)])
  with g w m that show ?thesis by simp
qed

lemma rmatch_group_end:
  assumes "(l', s', g') \<in> set (rmatch (RGrp n a) l s g)" and "nogrp a"
  obtains w where "s = w @ s'" "rxm a l w s'" "g' = (n, w) # g"
proof -
  from assms(1) obtain g2 where
    g: "(l', s', g2) \<in> set (rmatch a l s g)" "g' = (n, take (length s - length s') s) # g2"
    unfolding rmatch_grp_mem by blast
  from rmatch_sound[OF g(1)] obtain w where w: "s = w @ s'" "rxm a l w s'" by blast
  have "g2 = g" by (rule rmatch_nogrp[OF assms(2) g(1)])
  with g w that show ?thesis by simp
qed

section \<open>Words of the common patterns\<close>

lemma rxm_chr [simp]: "rxm (rchr c) l w t \<longleftrightarrow> w = [c]"
  by (auto simp: rchr_def)

lemma rxm_rstr [simp]: "rxm (rstr p) l w t \<longleftrightarrow> w = p"
  by (induction p arbitrary: l w) (auto simp: rstr_def rxm_seq)

lemma rxm_star_cls [simp]: "rxm (RStar (RCls p)) l w t \<longleftrightarrow> (\<forall>c \<in> set w. p c)"
proof
  assume "rxm (RStar (RCls p)) l w t"
  then show "\<forall>c \<in> set w. p c"
    by (induction "RStar (RCls p)" l w t rule: rxm.induct) auto
next
  assume "\<forall>c \<in> set w. p c"
  then show "rxm (RStar (RCls p)) l w t"
  proof (induction w arbitrary: l)
    case Nil
    show ?case by (rule rxm.star0)
  next
    case (Cons c w)
    then have "rxm (RStar (RCls p)) (rev [c] @ l) w t" by simp
    with Cons.prems have "rxm (RStar (RCls p)) l ([c] @ w) t"
      by (intro rxm.star1) (auto intro: rxm.cls)
    then show ?case by simp
  qed
qed

lemma rxm_plus_cls [simp]:
  "rxm (rplus (RCls p)) l w t \<longleftrightarrow> w \<noteq> [] \<and> (\<forall>c \<in> set w. p c)"
proof (cases w)
  case (Cons c v)
  have "rxm (rplus (RCls p)) l w t" if "p c" "\<forall>x \<in> set v. p x"
    using rxm.seq [of "RCls p" l "[c]" v t "RStar (RCls p)"] that Cons by (simp add: rplus_def)
  moreover have "p c \<and> (\<forall>x \<in> set v. p x)" if "rxm (rplus (RCls p)) l w t"
  proof -
    from that obtain a b where ab: "w = a @ b" "rxm (RCls p) l a (b @ t)"
      "rxm (RStar (RCls p)) (rev a @ l) b t"
      unfolding rplus_def rxm_seq by blast
    then have "\<exists>c. a = [c] \<and> p c" and "\<forall>x \<in> set b. p x" by simp_all
    with ab(1) Cons show ?thesis by auto
  qed
  ultimately have "rxm (rplus (RCls p)) l w t \<longleftrightarrow> p c \<and> (\<forall>x \<in> set v. p x)"
    by blast
  then show ?thesis by (simp add: Cons)
qed (simp add: rplus_def rxm_seq)

lemma rxm_opt [simp]: "rxm (ropt r) l w t \<longleftrightarrow> rxm r l w t \<or> w = []"
  by (auto simp: ropt_def)

section \<open>Facts about searching\<close>

lemma first_match_Some:
  "first_match r l s = Some (l', s', g) \<Longrightarrow>
     \<exists>w. s = w @ s' \<and> l' = rev w @ l \<and> rxm r l w s'"
  by (rule rmatch_sound [where g = "[]" and g' = g])
    (auto simp: first_match_def split: list.splits)

lemma first_match_None: "first_match r l s = None \<longleftrightarrow> (\<nexists>w t. s = w @ t \<and> rxm r l w t)"
proof -
  have "first_match r l s = None \<longleftrightarrow> rmatch r l s [] = []"
    by (simp add: first_match_def split: list.splits)
  also have "\<dots> \<longleftrightarrow> (\<nexists>l' t g'. (l', t, g') \<in> set (rmatch r l s []))"
    by (cases "rmatch r l s []") auto
  also have "\<dots> \<longleftrightarrow> (\<nexists>w t. s = w @ t \<and> rxm r l w t)"
    using rmatch_iff by blast
  finally show ?thesis .
qed

lemma search_from_None:
  "search_from r l s = None \<longleftrightarrow> (\<nexists>a w b. s = a @ w @ b \<and> rxm r (rev a @ l) w b)"
proof (induction s arbitrary: l)
  case Nil
  show ?case
    by (subst search_from.simps) (auto simp: first_match_None split: option.splits dest: first_match_Some)
next
  case (Cons c s)
  show ?case
  proof (cases "first_match r l (c # s)")
    case None
    have "(\<exists>a w b. c # s = a @ w @ b \<and> rxm r (rev a @ l) w b) \<longleftrightarrow>
        (\<exists>a w b. s = a @ w @ b \<and> rxm r (rev a @ c # l) w b)" (is "?L \<longleftrightarrow> ?R")
    proof
      assume ?L
      then obtain a w b where h: "c # s = a @ w @ b" "rxm r (rev a @ l) w b" by blast
      with None have "a \<noteq> []" by (auto simp: first_match_None)
      with h obtain a' where "a = c # a'" "s = a' @ w @ b" by (cases a) auto
      with h show ?R by auto
    next
      assume ?R
      then obtain a w b where "s = a @ w @ b" "rxm r (rev a @ c # l) w b" by blast
      then have "c # s = (c # a) @ w @ b \<and> rxm r (rev (c # a) @ l) w b" by simp
      then show ?L by blast
    qed
    with None Cons.IH show ?thesis by (subst search_from.simps) simp
  next
    case (Some m)
    then obtain l' s' g where m: "first_match r l (c # s) = Some (l', s', g)" by (cases m) auto
    from first_match_Some[OF m] obtain w where "c # s = [] @ w @ s'" "rxm r (rev [] @ l) w s'" by auto
    then have "\<exists>a w b. c # s = a @ w @ b \<and> rxm r (rev a @ l) w b" by blast
    moreover have "search_from r l (c # s) \<noteq> None"
      by (subst search_from.simps) (simp add: m)
    ultimately show ?thesis by blast
  qed
qed

theorem found_iff: "found r s \<longleftrightarrow> (\<exists>a w b. s = a @ w @ b \<and> rxm r (rev a) w b)"
  using search_from_None[of r "[]" s] by (auto simp: found_def re_search_def)

lemma re_fullmatch_mem:
  "re_fullmatch r s = Some g \<Longrightarrow> \<exists>l'. (l', [], g) \<in> set (rmatch r [] s [])"
  by (auto simp: re_fullmatch_def find_Some_iff) (metis nth_mem)

lemma re_fullmatch_Some:
  "re_fullmatch r s = Some g \<Longrightarrow> rxm r [] s []"
  by (auto simp: re_fullmatch_def find_Some_iff dest!: nth_mem rmatch_sound)

section \<open>Facts about the pieces\<close>

definition rejoin :: "(pystr \<times> pystr \<times> caps) list \<times> pystr \<Rightarrow> pystr" where
  "rejoin p = concat (map (\<lambda>(gap, m, g). gap @ m) (fst p)) @ snd p"

lemma rejoin_simps [simp]:
  "rejoin ([], rest) = rest"
  "rejoin ((gap, m, g) # ps, rest) = gap @ m @ rejoin (ps, rest)"
  by (simp_all add: rejoin_def)

lemma pieces_from_skip:
  "first_match r l (c # t) = None \<Longrightarrow> pieces_from r l gap (c # t) = pieces_from r (c # l) (c # gap) t"
  by (subst pieces_from.simps) simp

lemma pieces_from_Nil [simp]: "pieces_from r l gap [] = ([], rev gap)"
  by (subst pieces_from.simps) simp

lemma pieces_from_hit:
  "first_match r l s = Some (l', s', g) \<Longrightarrow> length s' < length s \<Longrightarrow>
     pieces_from r l gap s =
       ((rev gap, take (length s - length s') s, g) # fst (pieces_from r l' [] s'),
        snd (pieces_from r l' [] s'))"
  by (subst pieces_from.simps) (auto split: list.splits prod.splits)

lemma rejoin_pieces_from: "rejoin (pieces_from r l gap s) = rev gap @ s"
proof (induction r l gap s rule: pieces_from.induct)
  case (1 r l gap s)
  show ?case
  proof (cases s)
    case Nil
    then show ?thesis by simp
  next
    case (Cons c t)
    show ?thesis
    proof (cases "first_match r l s")
      case None
      with 1(1)[OF Cons None] Cons show ?thesis by (simp add: pieces_from_skip)
    next
      case (Some m)
      obtain l' s' g where m: "m = (l', s', g)" by (cases m) auto
      from first_match_Some[OF Some[unfolded m]] obtain w where w: "s = w @ s'" by blast
      show ?thesis
      proof (cases "length s' < length s")
        case True
        note hit = pieces_from_hit[OF Some[unfolded m] True, of gap]
        from 1(2)[OF Cons Some[unfolded m] refl refl True] w show ?thesis
          unfolding hit by (simp add: rejoin_def)
      next
        case False
        with 1(3)[OF Cons Some[unfolded m] refl refl False] Some m Cons show ?thesis
          by (subst pieces_from.simps) simp
      qed
    qed
  qed
qed

theorem rejoin_pieces: "rejoin (re_pieces r s) = s"
  by (simp add: re_pieces_def rejoin_pieces_from)

lemma pieces_from_matches:
  "(gap', m, g) \<in> set (fst (pieces_from r l gap s)) \<Longrightarrow>
     m \<noteq> [] \<and> (\<exists>a b. s = a @ m @ b \<and> rxm r (rev a @ l) m b)"
proof (induction r l gap s arbitrary: gap' m g rule: pieces_from.induct)
  case (1 r l gap s)
  show ?case
  proof (cases s)
    case Nil
    with "1.prems" show ?thesis by simp
  next
    case (Cons c t)
    have step: "\<exists>a b. s = a @ m @ b \<and> rxm r (rev a @ l) m b"
      if "\<exists>a b. t = a @ m @ b \<and> rxm r (rev a @ c # l) m b" for m
    proof -
      from that obtain a b where "t = a @ m @ b" "rxm r (rev a @ c # l) m b" by blast
      with Cons have "s = (c # a) @ m @ b \<and> rxm r (rev (c # a) @ l) m b" by simp
      then show ?thesis by blast
    qed
    show ?thesis
    proof (cases "first_match r l s")
      case None
      with "1.prems" Cons 1(1)[OF Cons None] step show ?thesis by (simp add: pieces_from_skip)
    next
      case (Some mr)
      obtain l' s' g' where mr: "mr = (l', s', g')" by (cases mr) auto
      from first_match_Some[OF Some[unfolded mr]] obtain w where
        w: "s = w @ s'" "l' = rev w @ l" "rxm r l w s'" by blast
      show ?thesis
      proof (cases "length s' < length s")
        case True
        note IH = 1(2)[OF Cons Some[unfolded mr] refl refl True]
        from "1.prems" consider "m = w" | "(gap', m, g) \<in> set (fst (pieces_from r l' [] s'))"
          using w(1) unfolding pieces_from_hit[OF Some[unfolded mr] True] by auto
        then show ?thesis
        proof cases
          case 1
          with w True have "s = [] @ m @ s' \<and> rxm r (rev [] @ l) m s'" "m \<noteq> []" by auto
          then show ?thesis by blast
        next
          case 2
          from IH[OF this] obtain a b where "m \<noteq> []" "s' = a @ m @ b" "rxm r (rev a @ l') m b" by blast
          with w have "s = (w @ a) @ m @ b \<and> rxm r (rev (w @ a) @ l) m b" "m \<noteq> []" by auto
          then show ?thesis by blast
        qed
      next
        case False
        with "1.prems" Some mr Cons have "(gap', m, g) \<in> set (fst (pieces_from r (c # l) (c # gap) t))"
          by (subst (asm) pieces_from.simps) simp
        from 1(3)[OF Cons Some[unfolded mr] refl refl False this] step show ?thesis by blast
      qed
    qed
  qed
qed

lemma findall_matches:
  "m \<in> set (re_findall r s) \<Longrightarrow> m \<noteq> [] \<and> (\<exists>a b. s = a @ m @ b \<and> rxm r (rev a) m b)"
proof -
  assume "m \<in> set (re_findall r s)"
  then obtain gap g where "(gap, m, g) \<in> set (fst (pieces_from r [] [] s))"
    by (auto simp: re_findall_def re_pieces_def)
  from pieces_from_matches[OF this] show ?thesis by simp
qed

lemma pieces_from_none:
  "(\<And>a w b. s = a @ w @ b \<Longrightarrow> \<not> rxm r (rev a @ l) w b) \<Longrightarrow>
     pieces_from r l gap s = ([], rev gap @ s)"
proof (induction s arbitrary: l gap)
  case Nil
  show ?case by simp
next
  case (Cons c s)
  from Cons.prems[of "[]"] have "first_match r l (c # s) = None" by (auto simp: first_match_None)
  moreover have "\<not> rxm r (rev a @ c # l) w b" if "s = a @ w @ b" for a w b
    using Cons.prems[of "c # a" w b] that by simp
  ultimately show ?case using Cons.IH[of "c # l" "c # gap"] by (simp add: pieces_from_skip)
qed

lemma pieces_none: "\<not> found r s \<Longrightarrow> re_pieces r s = ([], s)"
  unfolding re_pieces_def by (subst pieces_from_none) (auto simp: found_iff)

lemma re_sub_none: "\<not> found r s \<Longrightarrow> re_sub r by s = s"
  by (simp add: re_sub_def pieces_none)

lemma re_findall_none: "\<not> found r s \<Longrightarrow> re_findall r s = []"
  by (simp add: re_findall_def pieces_none)

text \<open>Splitting: texts and separators interleave to the subject again.\<close>

fun interleave :: "'a list list \<Rightarrow> 'a list list \<Rightarrow> 'a list" where
  "interleave [] seps = []"
| "interleave [x] seps = x"
| "interleave (x # y # xs) [] = x @ interleave (y # xs) []"
| "interleave (x # y # xs) (s # seps) = x @ s @ interleave (y # xs) seps"

lemma interleave_Cons: "xs \<noteq> [] \<Longrightarrow> interleave (x # xs) (s # seps) = x @ s @ interleave xs seps"
  by (cases xs) auto

lemma interleave_pieces:
  "interleave (map (\<lambda>(gap, m, g). gap) ps @ [rest]) (map (\<lambda>(gap, m, g). m) ps) = rejoin (ps, rest)"
  by (induction ps) (auto simp: interleave_Cons)

theorem interleave_split: "interleave (fst (re_split r s)) (snd (re_split r s)) = s"
  using rejoin_pieces[of r s]
  by (simp add: re_split_def interleave_pieces)

lemma length_re_split: "length (fst (re_split r s)) = Suc (length (snd (re_split r s)))"
  by (simp add: re_split_def)

text \<open>What evaluates a match on a concrete subject.\<close>

lemmas rx_eval = rmatch.simps first_match_def search_from.simps pieces_from.simps re_match_def
  re_fullmatch_def re_search_def found_def re_pieces_def re_findall_def re_finditer_def
  re_sub_def re_split_def group_def rx_defs

end
