(* ===== verification/Sub_Model.thy ===== *)
theory Sub_Model
  imports Py_Regex
begin

text \<open>
  The subtitle document of \<open>trezarr/subtitles/model.py\<close> and the envelopes the ASS and VTT
  codecs hang on it. A cue is a \<open>sub_line\<close>; its text is the only field translation may
  change, and a cue with \<open>sl_raw\<close> set is opaque and written back verbatim.
\<close>

record sub_line =
  sl_index :: pystr
  sl_start :: pystr
  sl_end :: pystr
  sl_text :: pystr
  sl_raw :: "pystr option"

text \<open>Segments of an ASS file: opaque text, or the slot of a dialogue cue.\<close>

datatype ass_segment =
    AssOpaqueSegment pystr
  | AssDialogueSlot (slot_prefix: pystr) (slot_ending: pystr) (slot_index: nat)

record ass_doc =
  ass_segments :: "ass_segment list"
  ass_encoding :: pystr
  ass_line_ending :: pystr

text \<open>Blocks of a VTT file, each with the blank lines that follow it.\<close>

datatype vtt_block =
    VttOpaqueBlock pystr pystr
  | VttCueBlock "pystr option" pystr pystr nat pystr

record vtt_doc =
  vtt_blocks :: "vtt_block list"
  vtt_encoding :: pystr
  vtt_line_ending :: pystr

datatype envelope = NoEnvelope | AssEnvelope ass_doc | VttEnvelope vtt_doc

record sub_doc =
  doc_lines :: "sub_line list"
  doc_encoding :: pystr
  doc_line_ending :: pystr
  doc_separators :: "pystr list"
  doc_leading :: pystr
  doc_trailer :: pystr
  doc_envelope :: envelope

definition mk_line :: "pystr \<Rightarrow> pystr \<Rightarrow> pystr \<Rightarrow> pystr \<Rightarrow> pystr option \<Rightarrow> sub_line" where
  "mk_line i s e t r = \<lparr>sl_index = i, sl_start = s, sl_end = e, sl_text = t, sl_raw = r\<rparr>"

lemma mk_line_simps [simp]:
  "sl_index (mk_line i s e t r) = i" "sl_start (mk_line i s e t r) = s"
  "sl_end (mk_line i s e t r) = e" "sl_text (mk_line i s e t r) = t"
  "sl_raw (mk_line i s e t r) = r"
  by (simp_all add: mk_line_def)

text \<open>What the codecs write for a cue's payload: the raw text where there is one.\<close>

definition payload :: "sub_line \<Rightarrow> pystr" where
  "payload sl = (case sl_raw sl of None \<Rightarrow> sl_text sl | Some r \<Rightarrow> r)"

definition is_raw :: "sub_line \<Rightarrow> bool" where
  "is_raw sl \<longleftrightarrow> sl_raw sl \<noteq> None"

lemma payload_mk_line [simp]:
  "payload (mk_line i s e t None) = t" "payload (mk_line i s e t (Some r)) = r"
  by (simp_all add: payload_def)

text \<open>
  \<open>"\r\n" if "\r\n" in text else "\n"\<close>: the line ending the readers detect for a text.
\<close>

definition detect_le :: "pystr \<Rightarrow> pystr" where
  "detect_le t = (if contains CRLF t then CRLF else [10])"

text \<open>
  What every codec promises. \<open>parse\<close> reads a decoded text into a document, \<open>render\<close> gives
  the text that is encoded and written; \<open>faithful\<close> holds of the texts the codec can
  reproduce.
\<close>

locale subtitle_codec =
  fixes parse :: "pystr \<Rightarrow> py_error + sub_doc"
    and render :: "sub_doc \<Rightarrow> py_error + pystr"
    and faithful :: "pystr \<Rightarrow> bool"
  assumes roundtrip: "parse t = Inr d \<Longrightarrow> faithful t \<Longrightarrow> render d = Inr t"
begin

lemma reread_same:
  assumes "parse t = Inr d" and "faithful t" and "render d = Inr u"
  shows "parse u = Inr d"
  using roundtrip[OF assms(1,2)] assms(1,3) by simp

lemma rewrite_stable:
  assumes "parse t = Inr d" and "faithful t" and "render d = Inr u" and "parse u = Inr e"
  shows "render e = Inr t"
  using reread_same[OF assms(1-3)] roundtrip[OF assms(1,2)] assms(4) by simp

end

end
