(* ===== verification/Ass_Codec.thy ===== *)
theory Ass_Codec
  imports Sub_Model
begin

text \<open>
  The ASS/SSA reader and writer of \<open>trezarr/subtitles/ass.py\<close>, on decoded text. The file is
  kept as a list of segments: opaque text, and one slot per dialogue line that points at the
  cue holding its payload. The main result is that every file the reader accepts is written
  back unchanged.
\<close>

definition KARAOKE_RE :: rx where
  "KARAOKE_RE =
     RAlt (RSeq (rstr [123, 92]) (RSeq (RCls (ci_eq 107))
            (RSeq (ropt (RCls (\<lambda>c. ci_eq 102 c \<or> ci_eq 111 c \<or> ci_eq 105 c)))
              (RSeq (rplus (RCls is_digit)) (rchr 125)))))
     (RAlt (RSeq (rstr [123, 92]) (RSeq (RCls (ci_eq 107)) (RSeq (rplus (RCls is_digit)) (rchr 125))))
           (RSeq (rstr [123, 92]) (RSeq (ristr (lit ''kt'')) (RSeq (rplus (RCls is_digit)) (rchr 125)))))"

definition DRAWING_RE :: rx where
  "DRAWING_RE = RSeq (rstr (lit ''{'' @ [92] @ lit ''p'')) (RSeq (RCls (\<lambda>c. 49 \<le> c \<and> c \<le> 57))
     (RSeq (RStar (RCls is_digit)) (rchr 125)))"

definition SECTION_HEADER_RE :: rx where
  "SECTION_HEADER_RE = RSeq rbol (rchr 91)"

section \<open>Reading\<close>

text \<open>The start offsets of the matches, and the slices between them.\<close>

fun starts_of :: "nat \<Rightarrow> (pystr \<times> pystr \<times> caps) list \<Rightarrow> nat list" where
  "starts_of n [] = []"
| "starts_of n ((gap, m, g) # ps) = (n + length gap) # starts_of (n + length gap + length m) ps"

definition slice :: "pystr \<Rightarrow> nat \<Rightarrow> nat \<Rightarrow> pystr" where
  "slice t a b = take (b - a) (drop a t)"

definition section_starts :: "pystr \<Rightarrow> nat list" where
  "section_starts t = starts_of 0 (fst (re_pieces SECTION_HEADER_RE t))"

definition section_texts :: "pystr \<Rightarrow> pystr list" where
  "section_texts t = (let st = section_starts t
     in map (\<lambda>(a, b). slice t a b) (zip st (tl st @ [length t])))"

definition before_sub :: "pystr \<Rightarrow> pystr \<Rightarrow> pystr" where
  "before_sub p s = (case find_sub p s of None \<Rightarrow> s | Some n \<Rightarrow> take n s)"

definition is_events :: "pystr \<Rightarrow> pystr \<Rightarrow> bool" where
  "is_events le s =
     (strip (if contains le s then before_sub le s else before_sub [10] s) = lit ''[Events]'')"

text \<open>The content of a raw line and its own line ending.\<close>

definition split_eol :: "pystr \<Rightarrow> pystr \<times> pystr" where
  "split_eol x =
     (if ends_with CRLF x then (take (length x - 2) x, CRLF)
      else if ends_with [10] x then (take (length x - 1) x, [10])
      else if ends_with [13] x then (take (length x - 1) x, [13])
      else (x, []))"

text \<open>\<open>Format:\<close> sets the number of commas before the text field.\<close>

definition format_comma_idx :: "nat \<Rightarrow> pystr \<Rightarrow> nat" where
  "format_comma_idx old content =
     (let fields = split_char 44 (strip (drop 7 content))
      in if length fields \<ge> 2 then length fields - 1 else old)"

definition parse_dialogue ::
  "pystr \<Rightarrow> pystr \<Rightarrow> nat \<Rightarrow> ass_segment list \<Rightarrow> sub_line list
     \<Rightarrow> py_error + ass_segment list \<times> sub_line list" where
  "parse_dialogue content line_le idx segs lines =
     (let parts = split_char_max 44 idx content in
      if length parts < idx + 1 then
        Inr (segs @ [AssDialogueSlot [] line_le (length lines)],
             lines @ [mk_line [] [] [] content (Some content)])
      else if length parts \<le> 2 then Inl IndexError
      else let txt = parts ! idx;
               prefix = join_with [44] (take idx parts) @ [44];
               raw = (if found KARAOKE_RE txt \<or> found DRAWING_RE txt then Some txt else None)
           in Inr (segs @ [AssDialogueSlot prefix line_le (length lines)],
                   lines @ [mk_line [] (strip (parts ! 1)) (strip (parts ! 2)) txt raw]))"

fun parse_events ::
  "nat \<Rightarrow> pystr list \<Rightarrow> ass_segment list \<Rightarrow> sub_line list
     \<Rightarrow> py_error + ass_segment list \<times> sub_line list" where
  "parse_events idx [] segs lines = Inr (segs, lines)"
| "parse_events idx (raw # rest) segs lines =
     (let (content, line_le) = split_eol raw in
      if starts_with (lit ''Format:'') content then
        parse_events (format_comma_idx idx content) rest (segs @ [AssOpaqueSegment raw]) lines
      else if starts_with (lit ''Comment:'') content then
        parse_events idx rest (segs @ [AssOpaqueSegment raw]) lines
      else if starts_with (lit ''Dialogue:'') content then
        (case parse_dialogue content line_le idx segs lines of
           Inl e \<Rightarrow> Inl e
         | Inr (segs', lines') \<Rightarrow> parse_events idx rest segs' lines')
      else parse_events idx rest (segs @ [AssOpaqueSegment raw]) lines)"

fun parse_sections ::
  "nat option \<Rightarrow> nat \<Rightarrow> pystr list \<Rightarrow> ass_segment list \<Rightarrow> sub_line list
     \<Rightarrow> py_error + ass_segment list \<times> sub_line list" where
  "parse_sections ev i [] segs lines = Inr (segs, lines)"
| "parse_sections ev i (s # rest) segs lines =
     (if ev = Some i then
        (case parse_events 9 (splitlines_keep s) segs lines of
           Inl e \<Rightarrow> Inl e
         | Inr (segs', lines') \<Rightarrow> parse_sections ev (Suc i) rest segs' lines')
      else parse_sections ev (Suc i) rest (segs @ [AssOpaqueSegment s]) lines)"

definition ass_sub_doc :: "pystr \<Rightarrow> pystr \<Rightarrow> ass_segment list \<Rightarrow> sub_line list \<Rightarrow> sub_doc" where
  "ass_sub_doc enc le segs lines =
     \<lparr>doc_lines = lines, doc_encoding = enc, doc_line_ending = le, doc_separators = [],
      doc_leading = [], doc_trailer = [],
      doc_envelope = AssEnvelope \<lparr>ass_segments = segs, ass_encoding = enc, ass_line_ending = le\<rparr>\<rparr>"

definition read_ass :: "pystr \<Rightarrow> pystr \<Rightarrow> py_error + sub_doc" where
  "read_ass enc t =
     (let le = detect_le t; starts = section_starts t in
      case starts of
        [] \<Rightarrow> Inr (ass_sub_doc enc le [AssOpaqueSegment t] [])
      | a # _ \<Rightarrow>
          (let secs = section_texts t;
               segs0 = (if a > 0 then [AssOpaqueSegment (take a t)] else [])
           in case parse_sections (find_index (is_events le) secs) 0 secs segs0 [] of
                Inl e \<Rightarrow> Inl e
              | Inr (segs, lines) \<Rightarrow> Inr (ass_sub_doc enc le segs lines)))"

section \<open>Writing\<close>

definition render_segment :: "sub_line list \<Rightarrow> ass_segment \<Rightarrow> py_error + pystr" where
  "render_segment lines seg = (case seg of
     AssOpaqueSegment r \<Rightarrow> Inr r
   | AssDialogueSlot prefix le i \<Rightarrow>
       (if i < length lines then Inr (prefix @ payload (lines ! i) @ le) else Inl IndexError))"

fun render_segments :: "sub_line list \<Rightarrow> ass_segment list \<Rightarrow> py_error + pystr" where
  "render_segments lines [] = Inr []"
| "render_segments lines (seg # segs) = (case render_segment lines seg of
     Inl e \<Rightarrow> Inl e
   | Inr x \<Rightarrow> (case render_segments lines segs of Inl e \<Rightarrow> Inl e | Inr y \<Rightarrow> Inr (x @ y)))"

definition write_ass :: "sub_doc \<Rightarrow> py_error + pystr" where
  "write_ass d = (case doc_envelope d of
     AssEnvelope a \<Rightarrow> render_segments (doc_lines d) (ass_segments a)
   | _ \<Rightarrow> Inl AttributeError)"

section \<open>Every accepted file is written back\<close>

lemma split_eol_join: "split_eol x = (c, e) \<Longrightarrow> c @ e = x"
  by (auto simp: split_eol_def ends_with_iff split: if_splits)

text \<open>
  \<open>holds segs lines t\<close>: the segments render to \<open>t\<close> over the lines, and still do when more
  lines are appended.
\<close>

definition holds :: "ass_segment list \<Rightarrow> sub_line list \<Rightarrow> pystr \<Rightarrow> bool" where
  "holds segs lines t \<longleftrightarrow> (\<forall>more. render_segments (lines @ more) segs = Inr t)"

lemma render_segments_append:
  "render_segments lines (a @ b) = (case render_segments lines a of
     Inl e \<Rightarrow> Inl e
   | Inr x \<Rightarrow> (case render_segments lines b of Inl e \<Rightarrow> Inl e | Inr y \<Rightarrow> Inr (x @ y)))"
  by (induction a) (auto split: sum.splits)

lemma holds_opaque: "holds segs lines t \<Longrightarrow> holds (segs @ [AssOpaqueSegment r]) lines (t @ r)"
  by (simp add: holds_def render_segments_append render_segment_def)

lemma holds_slot:
  "holds segs lines t \<Longrightarrow>
     holds (segs @ [AssDialogueSlot p e (length lines)]) (lines @ [sl]) (t @ p @ payload sl @ e)"
  by (simp add: holds_def render_segments_append render_segment_def nth_append)

lemma parse_dialogue_holds:
  assumes "parse_dialogue content e idx segs lines = Inr (segs', lines')" and "holds segs lines t"
  shows "holds segs' lines' (t @ content @ e)"
proof -
  let ?p = "split_char_max 44 idx content"
  consider (short) "length ?p < idx + 1"
      "segs' = segs @ [AssDialogueSlot [] e (length lines)]"
      "lines' = lines @ [mk_line [] [] [] content (Some content)]"
    | (full) sl where "length ?p = Suc idx" "length ?p > 2"
      "segs' = segs @ [AssDialogueSlot (join_with [44] (take idx ?p) @ [44]) e (length lines)]"
      "lines' = lines @ [sl]" "payload sl = ?p ! idx"
    using assms(1) length_split_char_max[of 44 idx content]
    by (auto simp: parse_dialogue_def Let_def payload_def split: if_splits)
  then show ?thesis
  proof cases
    case short
    with holds_slot[OF assms(2), of "[]" e "mk_line [] [] [] content (Some content)"] show ?thesis
      by simp
  next
    case full
    have "take idx ?p \<noteq> []" using full(1,2) by auto
    moreover have "?p = take idx ?p @ [?p ! idx]"
      using full(1) by (metis append_eq_conv_conj lessI take_Suc_conv_app_nth take_all_iff order_refl)
    ultimately have c: "(join_with [44] (take idx ?p) @ [44]) @ ?p ! idx = content"
      using join_split_char_max[of 44 idx content] join_with_snoc[of "take idx ?p" "[44]" "?p ! idx"]
      by simp
    have "holds segs' lines' (t @ (join_with [44] (take idx ?p) @ [44]) @ payload sl @ e)"
      unfolding full(3,4) by (rule holds_slot[OF assms(2)])
    moreover have "t @ (join_with [44] (take idx ?p) @ [44]) @ payload sl @ e = t @ content @ e"
      using c unfolding full(5) by (metis append.assoc)
    ultimately show ?thesis by (simp only:)
  qed
qed

lemma parse_events_holds:
  "parse_events idx raws segs lines = Inr (segs', lines') \<Longrightarrow> holds segs lines t \<Longrightarrow>
     holds segs' lines' (t @ concat raws)"
proof (induction idx raws segs lines arbitrary: t segs' lines' rule: parse_events.induct)
  case (2 idx raw rest segs lines)
  obtain content e where ce: "split_eol raw = (content, e)" by fastforce
  then have raw: "content @ e = raw" by (rule split_eol_join)
  note op = holds_opaque[OF 2(6), of raw]
  consider (f) "starts_with (lit ''Format:'') content"
    | (c) "\<not> starts_with (lit ''Format:'') content" "starts_with (lit ''Comment:'') content"
    | (d) "\<not> starts_with (lit ''Format:'') content" "\<not> starts_with (lit ''Comment:'') content"
        "starts_with (lit ''Dialogue:'') content"
    | (o) "\<not> starts_with (lit ''Format:'') content" "\<not> starts_with (lit ''Comment:'') content"
        "\<not> starts_with (lit ''Dialogue:'') content" by blast
  then show ?case
  proof cases
    case f
    with 2(1)[OF ce[symmetric] refl f _ op] 2(5) ce show ?thesis by simp
  next
    case c
    with 2(2)[OF ce[symmetric] refl c _ op] 2(5) ce show ?thesis by simp
  next
    case d
    with 2(5) ce obtain s1 l1 where p: "parse_dialogue content e idx segs lines = Inr (s1, l1)"
      and r: "parse_events idx rest s1 l1 = Inr (segs', lines')"
      by (auto split: sum.splits)
    from 2(3)[OF ce[symmetric] refl d p refl r parse_dialogue_holds[OF p 2(6)]] raw show ?thesis
      by simp
  next
    case o
    with 2(4)[OF ce[symmetric] refl o _ op] 2(5) ce show ?thesis by simp
  qed
qed simp

lemma parse_sections_holds:
  "parse_sections ev i secs segs lines = Inr (segs', lines') \<Longrightarrow> holds segs lines t \<Longrightarrow>
     holds segs' lines' (t @ concat secs)"
proof (induction ev i secs segs lines arbitrary: t segs' lines' rule: parse_sections.induct)
  case (2 ev i s rest segs lines)
  show ?case
  proof (cases "ev = Some i")
    case True
    with "2.prems"(1) obtain s1 l1 where p: "parse_events 9 (splitlines_keep s) segs lines = Inr (s1, l1)"
      and r: "parse_sections ev (Suc i) rest s1 l1 = Inr (segs', lines')"
      by (auto split: sum.splits)
    from parse_events_holds[OF p "2.prems"(2)] have "holds s1 l1 (t @ s)"
      by (simp add: concat_splitlines_keep)
    from "2.IH"(1)[OF True p refl r this] show ?thesis by simp
  next
    case False
    with "2.IH"(2)[OF False _ holds_opaque[OF "2.prems"(2)]] "2.prems"(1) show ?thesis by simp
  qed
qed simp

text \<open>The section slices together are the text from the first section on.\<close>

lemma starts_of_sorted: "sorted (starts_of n ps) \<and> (\<forall>x \<in> set (starts_of n ps). n \<le> x)"
  by (induction n ps rule: starts_of.induct) (auto intro: le_trans)

lemma starts_of_le: "x \<in> set (starts_of n ps) \<Longrightarrow> x \<le> n + length (rejoin (ps, rest))"
  by (induction n ps rule: starts_of.induct) (auto simp: add.assoc)

lemma concat_slices:
  "sorted (a # st) \<Longrightarrow> (\<forall>x \<in> set (a # st). x \<le> length t) \<Longrightarrow>
     concat (map (\<lambda>(x, y). slice t x y) (zip (a # st) (st @ [length t]))) = drop a t"
proof (induction st arbitrary: a)
  case Nil
  then show ?case by (simp add: slice_def)
next
  case (Cons b st)
  then have "a \<le> b" by simp
  then have "slice t a b @ drop b t = drop a t"
    unfolding slice_def by (metis add.commute append_take_drop_id drop_drop le_add_diff_inverse2)
  with Cons show ?case by simp
qed

lemma section_texts_concat:
  assumes "section_starts t = a # st"
  shows "take a t @ concat (section_texts t) = t"
proof -
  let ?ps = "fst (re_pieces SECTION_HEADER_RE t)" and ?r = "snd (re_pieces SECTION_HEADER_RE t)"
  have "rejoin (?ps, ?r) = t" by (simp add: rejoin_pieces)
  then have "\<forall>x \<in> set (a # st). x \<le> length t"
    using assms starts_of_le[of _ 0 ?ps ?r] by (simp add: section_starts_def)
  moreover have "sorted (a # st)"
    using assms starts_of_sorted[of 0 ?ps] by (simp add: section_starts_def)
  ultimately have "concat (section_texts t) = drop a t"
    using concat_slices[of a st t] by (simp add: section_texts_def assms)
  then show ?thesis by simp
qed

lemma write_read_ass:
  assumes "read_ass enc t = Inr d"
  shows "write_ass d = Inr t"
proof (cases "section_starts t")
  case Nil
  with assms show ?thesis
    by (auto simp: read_ass_def ass_sub_doc_def write_ass_def render_segment_def Let_def)
next
  case (Cons a st)
  let ?s0 = "if a > 0 then [AssOpaqueSegment (take a t)] else []"
  from assms Cons obtain ev segs lines where
    p: "parse_sections ev 0 (section_texts t) ?s0 [] = Inr (segs, lines)"
    and d: "d = ass_sub_doc enc (detect_le t) segs lines"
    by (auto simp: read_ass_def Let_def split: sum.splits)
  have "holds ?s0 [] (take a t)" by (simp add: holds_def render_segment_def)
  from parse_sections_holds[OF p this] have "holds segs lines t"
    by (simp add: section_texts_concat[OF Cons])
  then have "render_segments (lines @ []) segs = Inr t" unfolding holds_def by blast
  then show ?thesis by (simp add: d ass_sub_doc_def write_ass_def)
qed

interpretation ass: subtitle_codec "read_ass enc" write_ass "\<lambda>t. True"
  for enc
  by unfold_locales (rule write_read_ass)

section \<open>When reading fails\<close>

lemma parse_dialogue_error:
  "parse_dialogue content e idx segs lines = Inl err \<Longrightarrow> err = IndexError \<and> idx \<le> 1"
  by (auto simp: parse_dialogue_def Let_def split: if_splits)

definition two_field_format :: "pystr \<Rightarrow> bool" where
  "two_field_format raw \<longleftrightarrow> starts_with (lit ''Format:'') (fst (split_eol raw))
     \<and> length (split_char 44 (strip (drop 7 (fst (split_eol raw))))) = 2"

lemma parse_events_IndexError:
  "parse_events idx raws segs lines = Inl err \<Longrightarrow> err = IndexError"
proof (induction idx raws segs lines rule: parse_events.induct)
  case (2 idx raw rest segs lines)
  obtain content e where ce: "split_eol raw = (content, e)" by fastforce
  note IH = 2(1,2,4)[OF ce[symmetric] refl] 2(3)[OF ce[symmetric] refl]
  from 2(5) ce show ?case
    using IH parse_dialogue_error[of content e idx segs lines]
    by (auto split: if_splits sum.splits)
qed simp

lemma parse_events_error:
  "parse_events idx raws segs lines = Inl err \<Longrightarrow> idx > 1 \<Longrightarrow>
     err = IndexError \<and> (\<exists>raw \<in> set raws. two_field_format raw)"
proof (induction idx raws segs lines rule: parse_events.induct)
  case (2 idx raw rest segs lines)
  obtain content e where ce: "split_eol raw = (content, e)" by fastforce
  consider (f) "starts_with (lit ''Format:'') content"
    | (c) "\<not> starts_with (lit ''Format:'') content" "starts_with (lit ''Comment:'') content"
    | (d) "\<not> starts_with (lit ''Format:'') content" "\<not> starts_with (lit ''Comment:'') content"
        "starts_with (lit ''Dialogue:'') content"
    | (o) "\<not> starts_with (lit ''Format:'') content" "\<not> starts_with (lit ''Comment:'') content"
        "\<not> starts_with (lit ''Dialogue:'') content" by blast
  then show ?case
  proof cases
    case f
    show ?thesis
    proof (cases "format_comma_idx idx content > 1")
      case True
      with 2(1)[OF ce[symmetric] refl f] 2(5) ce f show ?thesis by auto
    next
      case False
      with 2(6) have two: "two_field_format raw"
        using f ce by (auto simp: two_field_format_def format_comma_idx_def Let_def split: if_splits)
      from 2(5) ce f have "parse_events (format_comma_idx idx content) rest
          (segs @ [AssOpaqueSegment raw]) lines = Inl err" by simp
      with two show ?thesis using parse_events_IndexError by auto
    qed
  next
    case c
    with 2(2)[OF ce[symmetric] refl c] 2(5,6) ce show ?thesis by auto
  next
    case d
    show ?thesis
    proof (cases "parse_dialogue content e idx segs lines")
      case (Inl x)
      with parse_dialogue_error[OF Inl] 2(6) show ?thesis by simp
    next
      case (Inr y)
      obtain s1 l1 where y: "y = (s1, l1)" by fastforce
      with 2(3)[OF ce[symmetric] refl d Inr[unfolded y] refl] 2(5,6) ce d Inr show ?thesis by auto
    qed
  next
    case o
    with 2(4)[OF ce[symmetric] refl o] 2(5,6) ce show ?thesis by auto
  qed
qed simp

lemma parse_sections_error:
  "parse_sections ev i secs segs lines = Inl err \<Longrightarrow>
     err = IndexError \<and> (\<exists>s \<in> set secs. \<exists>raw \<in> set (splitlines_keep s). two_field_format raw)"
proof (induction ev i secs segs lines rule: parse_sections.induct)
  case (2 ev i s rest segs lines)
  show ?case
  proof (cases "ev = Some i")
    case True
    show ?thesis
    proof (cases "parse_events 9 (splitlines_keep s) segs lines")
      case (Inl x)
      with parse_events_error[OF Inl] True "2.prems" show ?thesis by auto
    next
      case (Inr y)
      obtain s1 l1 where y: "y = (s1, l1)" by fastforce
      with "2.IH"(1)[OF True Inr[unfolded y] refl] "2.prems" True Inr show ?thesis by auto
    qed
  next
    case False
    with "2.IH"(2)[OF False] "2.prems" show ?thesis by auto
  qed
qed simp

section \<open>Properties\<close>

lemmas ass_eval = read_ass_def ass_sub_doc_def section_starts_def section_texts_def is_events_def
  before_sub_def slice_def split_eol_def format_comma_idx_def parse_dialogue_def detect_le_def
  KARAOKE_RE_def DRAWING_RE_def SECTION_HEADER_RE_def rx_eval line_break_def ends_with_def
  contains_def lit_def ascii_eval strip_def lstrip_def rstrip_def ci_eq_def sre_lower_def Let_def

definition sample_ass :: pystr where
  "sample_ass = lit ''[Events]'' @ [10] @ lit ''Format: L,S,E,T'' @ [10]
     @ lit ''Dialogue: 0,1,2,Hi'' @ [10]"

text \<open>The same file with one Windows line ending, as an editor may leave behind.\<close>

definition sample_mixed :: pystr where
  "sample_mixed = lit ''[Events]'' @ [10] @ lit ''Format: L,S,E,T'' @ [10]
     @ lit ''Dialogue: 0,1,2,Hi'' @ [13, 10]"

definition sample_two_fields :: pystr where
  "sample_two_fields = lit ''[Events]'' @ [10] @ lit ''Format: S,T'' @ [10] @ lit ''Dialogue: 0,x'' @ [10]"

lemma sample_ass_read: "read_ass [] sample_ass = Inr (ass_sub_doc [] [10]
   [AssOpaqueSegment (lit ''[Events]'' @ [10]), AssOpaqueSegment (lit ''Format: L,S,E,T'' @ [10]),
    AssDialogueSlot (lit ''Dialogue: 0,1,2,'') [10] 0]
   [mk_line [] (lit ''1'') (lit ''2'') (lit ''Hi'') None])"
  by (simp add: sample_ass_def ass_eval)

lemma sample_two_fields_read: "read_ass [] sample_two_fields = Inl IndexError"
  by (simp add: sample_two_fields_def ass_eval)

text \<open>
  C22: ASS files round-trip unconditionally. Whatever text the ASS reader accepts (any sections,
  malformed dialogue lines, karaoke, mixed line endings), writing the unedited document gives
  exactly that text.
\<close>

theorem ass_roundtrip:
  assumes "read_ass enc t = Inr d"
  shows "write_ass d = Inr t"
  using ass.roundtrip[OF assms TrueI] .

theorem ass_roundtrip_witness:
  "\<exists>d. read_ass [] sample_ass = Inr d \<and> length (doc_lines d) = 1 \<and> write_ass d = Inr sample_ass"
  using ass_roundtrip[OF sample_ass_read] sample_ass_read by (simp add: ass_sub_doc_def)

text \<open>
  The ASS reader raises nothing but an \<open>IndexError\<close>, and only on a file one of whose
  \<open>Format:\<close> lines lists exactly two fields; the guard against short dialogue lines does
  not cover that case.
\<close>

theorem read_ass_errors:
  assumes "read_ass enc t = Inl err"
  shows "err = IndexError \<and>
    (\<exists>s \<in> set (section_texts t). \<exists>raw \<in> set (splitlines_keep s). two_field_format raw)"
proof (cases "section_starts t")
  case Nil
  with assms show ?thesis by (simp add: read_ass_def Let_def)
next
  case (Cons a st)
  with assms obtain ev segs0 where "parse_sections ev 0 (section_texts t) segs0 [] = Inl err"
    by (auto simp: read_ass_def Let_def split: sum.splits)
  then show ?thesis by (rule parse_sections_error)
qed

theorem read_ass_errors_witness:
  "read_ass [] sample_two_fields = Inl IndexError \<and>
   (\<exists>s \<in> set (section_texts sample_two_fields). \<exists>raw \<in> set (splitlines_keep s). two_field_format raw)"
  using read_ass_errors[OF sample_two_fields_read] sample_two_fields_read by blast

text \<open>
  One Windows line ending in a Unix ASS file hides its \<open>[Events]\<close> section: the whole
  file is read as one opaque segment with no cue, so nothing of it would be translated.
\<close>

theorem ass_mixed_endings_hide_events:
  "read_ass [] sample_mixed = Inr (ass_sub_doc [] CRLF [AssOpaqueSegment sample_mixed] [])"
  by (simp add: sample_mixed_def ass_eval)

end
