(* ===== verification/Timecode.thy ===== *)
theory Timecode
  imports Py_Regex
begin

text \<open>
  \<open>trezarr/translate/_timecode.py\<close>: reading the timecodes of the supported formats as
  milliseconds. The four patterns are tried in the source's order; a string none of them
  matches reads as 0.
\<close>

definition rdigit :: rx where
  "rdigit = RCls is_digit"

definition rdigits2 :: rx where
  "rdigits2 = RSeq rdigit rdigit"

definition rdigits3 :: rx where
  "rdigits3 = RSeq rdigit rdigits2"

definition TC_PARSE_RE :: rx where
  "TC_PARSE_RE =
     RSeq (RGrp 1 rdigits2) (RSeq (rchr 58) (RSeq (RGrp 2 rdigits2) (RSeq (rchr 58)
       (RSeq (RGrp 3 rdigits2) (RSeq (RCls (\<lambda>c. c = 44 \<or> c = 46)) (RGrp 4 (rplus rdigit)))))))"

definition ASS_TC_RE :: rx where
  "ASS_TC_RE =
     RSeq (RGrp 1 (rplus rdigit)) (RSeq (rchr 58) (RSeq (RGrp 2 rdigits2) (RSeq (rchr 58)
       (RSeq (RGrp 3 rdigits2) (RSeq (rchr 46) (RSeq (RGrp 4 rdigits2) reos))))))"

definition VTT_HOURS_TC_RE :: rx where
  "VTT_HOURS_TC_RE =
     RSeq (RGrp 1 (rplus rdigit)) (RSeq (rchr 58) (RSeq (RGrp 2 rdigits2) (RSeq (rchr 58)
       (RSeq (RGrp 3 rdigits2) (RSeq (rchr 46) (RSeq (RGrp 4 rdigits3) reos))))))"

definition VTT_HOURLESS_TC_RE :: rx where
  "VTT_HOURLESS_TC_RE =
     RSeq (RGrp 1 (rplus rdigit)) (RSeq (rchr 58) (RSeq (RGrp 2 rdigits2) (RSeq (rchr 46)
       (RSeq (RGrp 3 rdigits3) reos))))"

text \<open>\<open>ms_str.ljust(3, '0')[:3]\<close>\<close>

definition ljust3 :: "pystr \<Rightarrow> pystr" where
  "ljust3 s = take 3 (s @ replicate (3 - length s) 48)"

definition tc_to_ms :: "pystr \<Rightarrow> nat" where
  "tc_to_ms tc0 = (let tc = strip tc0 in
     case re_match TC_PARSE_RE tc of
       Some (_, g) \<Rightarrow>
         int_of_digits (group g 1) * 3600000 + int_of_digits (group g 2) * 60000
           + int_of_digits (group g 3) * 1000 + int_of_digits (ljust3 (group g 4))
     | None \<Rightarrow>
     (case re_match ASS_TC_RE tc of
       Some (_, g) \<Rightarrow>
         int_of_digits (group g 1) * 3600000 + int_of_digits (group g 2) * 60000
           + int_of_digits (group g 3) * 1000 + int_of_digits (group g 4) * 10
     | None \<Rightarrow>
     (case re_match VTT_HOURS_TC_RE tc of
       Some (_, g) \<Rightarrow>
         int_of_digits (group g 1) * 3600000 + int_of_digits (group g 2) * 60000
           + int_of_digits (group g 3) * 1000 + int_of_digits (group g 4)
     | None \<Rightarrow>
     (case re_match VTT_HOURLESS_TC_RE tc of
       Some (_, g) \<Rightarrow>
         int_of_digits (group g 1) * 60000 + int_of_digits (group g 2) * 1000
           + int_of_digits (group g 3)
     | None \<Rightarrow> 0))))"

lemmas tc_eval = tc_to_ms_def TC_PARSE_RE_def ASS_TC_RE_def VTT_HOURS_TC_RE_def
  VTT_HOURLESS_TC_RE_def rdigits2_def rdigits3_def rdigit_def rx_eval

section \<open>The formats\<close>

text \<open>Two and three decimal digits of a number.\<close>

definition d2 :: "nat \<Rightarrow> pystr" where
  "d2 n = [48 + n div 10, 48 + n mod 10]"

definition d3 :: "nat \<Rightarrow> pystr" where
  "d3 n = [48 + n div 100, 48 + n div 10 mod 10, 48 + n mod 10]"

definition srt_tc :: "pychar \<Rightarrow> nat \<Rightarrow> nat \<Rightarrow> nat \<Rightarrow> nat \<Rightarrow> pystr" where
  "srt_tc sep h m s ms = d2 h @ [58] @ d2 m @ [58] @ d2 s @ [sep] @ d3 ms"

definition ass_tc :: "nat \<Rightarrow> nat \<Rightarrow> nat \<Rightarrow> nat \<Rightarrow> pystr" where
  "ass_tc h m s cs = [48 + h, 58] @ d2 m @ [58] @ d2 s @ [46] @ d2 cs"

definition hourless_tc :: "nat \<Rightarrow> nat \<Rightarrow> nat \<Rightarrow> pystr" where
  "hourless_tc m s ms = d2 m @ [58] @ d2 s @ [46] @ d3 ms"

lemma is_digit_ascii [simp]: "n < 10 \<Longrightarrow> is_digit (48 + n)"
  by (rule ascii_digit_is_digit) (simp add: ascii_digit_def)

lemma digit_value_ascii [simp]: "n < 10 \<Longrightarrow> digit_value (48 + n) = n"
  by (simp add: digit_value_def digit_ranges_def)

lemma not_digit_punct [simp]: "\<not> is_digit 58" "\<not> is_digit 44" "\<not> is_digit 46"
  by (simp_all add: is_digit_def digit_ranges_def)

lemma digit_not_space: "is_digit c \<Longrightarrow> \<not> is_space c"
  by (auto simp: is_digit_def is_space_def digit_ranges_def space_ranges_def split: if_splits)

lemma is_space_digit [simp]: "n < 10 \<Longrightarrow> \<not> is_space (48 + n)"
  by (simp add: is_space_def space_ranges_def)

lemma strip_no_space: "\<not> is_space (hd s) \<Longrightarrow> \<not> is_space (last s) \<Longrightarrow> strip s = s"
proof (cases s)
  case (Cons a t)
  assume h: "\<not> is_space (hd s)" "\<not> is_space (last s)"
  then have l: "lstrip s = s" using Cons by (simp add: lstrip_def)
  obtain b where "s = b @ [last s]"
    using Cons by (metis append_butlast_last_id list.distinct(1))
  then have "rev s = last s # rev b" by (metis rev.simps(2) rev_append rev_rev_ident rev_singleton_conv append_Cons append_Nil)
  with h(2) have "dropWhile is_space (rev s) = rev s"
    by (metis dropWhile.simps(2))
  with l show ?thesis by (simp add: strip_def rstrip_def)
qed simp

lemma int_of_digits_d2 [simp]: "n < 100 \<Longrightarrow> int_of_digits (d2 n) = n"
  by (simp add: int_of_digits_def d2_def)

lemma int_of_digits3:
  "a < 10 \<Longrightarrow> b < 10 \<Longrightarrow> c < 10 \<Longrightarrow> int_of_digits [48 + a, 48 + b, 48 + c] = 100 * a + 10 * b + c"
  by (simp add: int_of_digits_def)

lemma int_of_digits_d3 [simp]: "n < 1000 \<Longrightarrow> int_of_digits (d3 n) = n"
proof -
  assume "n < 1000"
  then have d: "n div 100 < 10" "n div 10 mod 10 < 10" "n mod 10 < 10"
    by (simp_all add: less_mult_imp_div_less)
  have "n div 100 = n div 10 div 10" by (simp add: div_mult2_eq [symmetric])
  moreover have "10 * (n div 10 div 10) + n div 10 mod 10 = n div 10" by simp
  moreover have "10 * (n div 10) + n mod 10 = n" by simp
  ultimately have "100 * (n div 100) + 10 * (n div 10 mod 10) + n mod 10 = n" by linarith
  then show ?thesis unfolding d3_def int_of_digits3[OF d] .
qed

lemma ljust3_d3 [simp]: "ljust3 (d3 n) = d3 n"
  by (simp add: ljust3_def d3_def)

lemma d2_digits: "n < 100 \<Longrightarrow> \<exists>a b. d2 n = [a, b] \<and> is_digit a \<and> is_digit b"
  by (auto simp: d2_def)

lemma d3_digits: "n < 1000 \<Longrightarrow> \<exists>a b c. d3 n = [a, b, c] \<and> is_digit a \<and> is_digit b \<and> is_digit c"
proof -
  assume "n < 1000"
  then have "n div 100 < 10" by (simp add: less_mult_imp_div_less)
  then have "is_digit (48 + n div 100)" "is_digit (48 + n div 10 mod 10)" "is_digit (48 + n mod 10)"
    by simp_all
  then show ?thesis unfolding d3_def by blast
qed

lemma digit_not_punct: "is_digit a \<Longrightarrow> a \<noteq> 58 \<and> a \<noteq> 44 \<and> a \<noteq> 46"
  by auto

text \<open>The groups each pattern captures on a well-formed timecode.\<close>

lemma TC_PARSE_RE_match:
  assumes "is_digit a" "is_digit b" "is_digit c" "is_digit d" "is_digit e" "is_digit f"
    "is_digit x" "is_digit y" "is_digit z" "sep = 44 \<or> sep = 46"
  shows "re_match TC_PARSE_RE [a, b, 58, c, d, 58, e, f, sep, x, y, z] =
    Some ([a, b, 58, c, d, 58, e, f, sep, x, y, z],
      [(4, [x, y, z]), (3, [e, f]), (2, [c, d]), (1, [a, b])])"
  using assms by (auto simp: tc_eval)

lemma ASS_TC_RE_match:
  assumes "is_digit b" "is_digit c" "is_digit d" "is_digit e" "is_digit f" "is_digit x" "is_digit y"
  shows "re_match TC_PARSE_RE [b, 58, c, d, 58, e, f, 46, x, y] = None"
    and "re_match ASS_TC_RE [b, 58, c, d, 58, e, f, 46, x, y] =
      Some ([b, 58, c, d, 58, e, f, 46, x, y],
        [(4, [x, y]), (3, [e, f]), (2, [c, d]), (1, [b])])"
  using assms by (auto simp: tc_eval dest: digit_not_punct)

lemma VTT_HOURLESS_TC_RE_match:
  assumes "is_digit c" "is_digit d" "is_digit e" "is_digit f" "is_digit x" "is_digit y" "is_digit z"
  shows "re_match TC_PARSE_RE [c, d, 58, e, f, 46, x, y, z] = None"
    and "re_match ASS_TC_RE [c, d, 58, e, f, 46, x, y, z] = None"
    and "re_match VTT_HOURS_TC_RE [c, d, 58, e, f, 46, x, y, z] = None"
    and "re_match VTT_HOURLESS_TC_RE [c, d, 58, e, f, 46, x, y, z] =
      Some ([c, d, 58, e, f, 46, x, y, z], [(3, [x, y, z]), (2, [e, f]), (1, [c, d])])"
  using assms by (auto simp: tc_eval dest: digit_not_punct)

lemma tc_to_ms_srt:
  assumes "h < 100" "m < 100" "s < 100" "ms < 1000" "sep = 44 \<or> sep = 46"
  shows "tc_to_ms (srt_tc sep h m s ms) = h * 3600000 + m * 60000 + s * 1000 + ms"
proof -
  obtain a b where h: "d2 h = [a, b]" "is_digit a" "is_digit b" using d2_digits assms by blast
  obtain c d where m: "d2 m = [c, d]" "is_digit c" "is_digit d" using d2_digits assms by blast
  obtain e f where s: "d2 s = [e, f]" "is_digit e" "is_digit f" using d2_digits assms by blast
  obtain x y z where ms: "d3 ms = [x, y, z]" "is_digit x" "is_digit y" "is_digit z"
    using d3_digits assms by blast
  let ?t = "[a, b, 58, c, d, 58, e, f, sep, x, y, z]"
  have t: "srt_tc sep h m s ms = ?t" by (simp add: srt_tc_def h m s ms)
  have st: "strip ?t = ?t" using h(2) ms(4) by (intro strip_no_space) (auto simp: digit_not_space)
  have g: "re_match TC_PARSE_RE ?t = Some (?t, [(4, [x, y, z]), (3, [e, f]), (2, [c, d]), (1, [a, b])])"
    by (rule TC_PARSE_RE_match) (use h m s ms assms in auto)
  have "int_of_digits [a, b] = h" "int_of_digits [c, d] = m" "int_of_digits [e, f] = s"
    "int_of_digits [x, y, z] = ms" "ljust3 [x, y, z] = [x, y, z]"
    using int_of_digits_d2[of h] int_of_digits_d2[of m] int_of_digits_d2[of s]
      int_of_digits_d3[of ms] ljust3_d3[of ms] assms h m s ms by simp_all
  then show ?thesis by (simp add: t tc_to_ms_def st g group_def)
qed

lemma tc_to_ms_ass:
  assumes "h < 10" "m < 100" "s < 100" "cs < 100"
  shows "tc_to_ms (ass_tc h m s cs) = h * 3600000 + m * 60000 + s * 1000 + cs * 10"
proof -
  obtain c d where m: "d2 m = [c, d]" "is_digit c" "is_digit d" using d2_digits assms by blast
  obtain e f where s: "d2 s = [e, f]" "is_digit e" "is_digit f" using d2_digits assms by blast
  obtain x y where cs: "d2 cs = [x, y]" "is_digit x" "is_digit y" using d2_digits assms by blast
  let ?t = "[48 + h, 58, c, d, 58, e, f, 46, x, y]"
  have t: "ass_tc h m s cs = ?t" by (simp add: ass_tc_def m s cs)
  have st: "strip ?t = ?t" using cs(3) assms(1)
    by (intro strip_no_space) (auto simp: digit_not_space)
  note g = ASS_TC_RE_match [OF is_digit_ascii[OF assms(1)] m(2,3) s(2,3) cs(2,3)]
  have "int_of_digits [48 + h] = h" using assms(1) by (simp add: int_of_digits_def)
  moreover have "int_of_digits [c, d] = m" "int_of_digits [e, f] = s" "int_of_digits [x, y] = cs"
    using int_of_digits_d2[of m] int_of_digits_d2[of s] int_of_digits_d2[of cs] assms m s cs by simp_all
  ultimately show ?thesis by (simp add: t tc_to_ms_def st g group_def)
qed

lemma tc_to_ms_hourless:
  assumes "m < 100" "s < 100" "ms < 1000"
  shows "tc_to_ms (hourless_tc m s ms) = m * 60000 + s * 1000 + ms"
proof -
  obtain c d where m: "d2 m = [c, d]" "is_digit c" "is_digit d" using d2_digits assms by blast
  obtain e f where s: "d2 s = [e, f]" "is_digit e" "is_digit f" using d2_digits assms by blast
  obtain x y z where ms: "d3 ms = [x, y, z]" "is_digit x" "is_digit y" "is_digit z"
    using d3_digits assms by blast
  let ?t = "[c, d, 58, e, f, 46, x, y, z]"
  have t: "hourless_tc m s ms = ?t" by (simp add: hourless_tc_def m s ms)
  have st: "strip ?t = ?t" using m(2) ms(4) by (intro strip_no_space) (auto simp: digit_not_space)
  note g = VTT_HOURLESS_TC_RE_match [OF m(2,3) s(2,3) ms(2-4)]
  have "int_of_digits [c, d] = m" "int_of_digits [e, f] = s" "int_of_digits [x, y, z] = ms"
    using int_of_digits_d2[of m] int_of_digits_d2[of s] int_of_digits_d3[of ms] assms m s ms by simp_all
  then show ?thesis by (simp add: t tc_to_ms_def st g group_def)
qed

section \<open>Properties\<close>

text \<open>
  \<open>tc_to_ms\<close> reads every supported format as the time it denotes: SRT with a comma or a
  period (which is also VTT with hours), ASS with centiseconds, and VTT without hours.
\<close>

theorem tc_to_ms_formats:
  assumes "h < 100" "m < 100" "s < 100" "ms < 1000" "cs < 100" "a < 10"
  shows "tc_to_ms (srt_tc 44 h m s ms) = h * 3600000 + m * 60000 + s * 1000 + ms \<and>
    tc_to_ms (srt_tc 46 h m s ms) = h * 3600000 + m * 60000 + s * 1000 + ms \<and>
    tc_to_ms (ass_tc a m s cs) = a * 3600000 + m * 60000 + s * 1000 + cs * 10 \<and>
    tc_to_ms (hourless_tc m s ms) = m * 60000 + s * 1000 + ms"
  using assms by (simp_all add: tc_to_ms_srt tc_to_ms_ass tc_to_ms_hourless)

theorem tc_to_ms_formats_witness:
  "tc_to_ms (srt_tc 44 1 23 45 678) = 5025678 \<and> tc_to_ms (ass_tc 0 1 23 45) = 83450 \<and>
   tc_to_ms (hourless_tc 1 23 456) = 83456"
  using tc_to_ms_formats[of 1 23 45 678 0 0] tc_to_ms_formats[of 0 1 23 456 45 0] by simp

end
