(* ===== verification/Srt_Codec.thy ===== *)
theory Srt_Codec
  imports Sub_Model Timecode
begin

text \<open>
  The SRT reader and writer of \<open>trezarr/subtitles/srt.py\<close>, on decoded text: splitting the
  file into leading bytes, cue blocks, separators and trailer, parsing a block, and writing
  the document back. The main results are that the split loses nothing, and that the file is
  reproduced exactly when the headers of its well-formed cues are in canonical form.
\<close>

definition rnl :: rx where
  "rnl = RSeq (ropt (rchr 13)) (rchr 10)"

definition rblank :: rx where
  "rblank = RSeq (RStar (RCls (\<lambda>c. c = 32 \<or> c = 9))) rnl"

definition SEP_RE :: rx where
  "SEP_RE = RSeq rnl (rplus rblank)"

definition LEAD_RE :: rx where
  "LEAD_RE = RSeq rbos (rplus rblank)"

definition TRAIL_RE :: rx where
  "TRAIL_RE = RSeq (rplus rblank) reos"

definition tc_word :: rx where
  "tc_word = RSeq rdigits2 (RSeq (rchr 58) (RSeq rdigits2 (RSeq (rchr 58)
     (RSeq rdigits2 (RSeq (RCls (\<lambda>c. c = 44 \<or> c = 46)) (rplus rdigit))))))"

definition TC_RE :: rx where
  "TC_RE = RSeq (RGrp 1 tc_word) (RSeq (RStar (RCls is_space)) (RSeq (rstr (lit ''-->''))
     (RSeq (RStar (RCls is_space)) (RGrp 2 tc_word))))"

definition INDEX_RE :: rx where
  "INDEX_RE = RSeq rbos (RSeq (rplus rdigit) reos)"

section \<open>Reading\<close>

definition raw_line :: "pystr \<Rightarrow> sub_line" where
  "raw_line b = mk_line [] [] [] b (Some b)"

definition parse_block :: "pystr \<Rightarrow> sub_line" where
  "parse_block block = (let block_lines = splitlines block in
     if length block_lines < 2 then raw_line block
     else let index = block_lines ! 0; tc_line = block_lines ! 1 in
       case re_fullmatch TC_RE (strip tc_line) of
         None \<Rightarrow> raw_line block
       | Some g \<Rightarrow>
           (if re_match INDEX_RE (strip index) = None then raw_line block
            else let le = detect_le block; prefix = index @ le @ tc_line @ le in
              if starts_with prefix block then
                mk_line (strip index) (group g 1) (group g 2) (drop (length prefix) block) None
              else mk_line (strip index) (group g 1) (group g 2) block (Some block)))"

text \<open>Leading blank lines, kept only when something follows them.\<close>

definition take_leading :: "pystr \<Rightarrow> pystr \<times> pystr" where
  "take_leading t = (case re_match LEAD_RE t of
     None \<Rightarrow> ([], t)
   | Some (m, _) \<Rightarrow> (let rest = drop (length m) t in
       if strip rest \<noteq> [] then (m, rest) else ([], t)))"

text \<open>The terminating newlines of the last block become the trailer.\<close>

definition take_trailer :: "pystr list \<Rightarrow> pystr list \<times> pystr" where
  "take_trailer blocks = (case rev blocks of
     [] \<Rightarrow> (blocks, [])
   | b # bs \<Rightarrow> (case re_search TRAIL_RE b of
       None \<Rightarrow> (blocks, [])
     | Some (pre, m, _, _) \<Rightarrow> (rev bs @ [pre], m)))"

text \<open>The loop that drops empty final blocks, on the reversed blocks and separators.\<close>

fun drop_empty_tail :: "pystr list \<Rightarrow> pystr list \<Rightarrow> pystr \<Rightarrow> pystr list \<times> pystr list \<times> pystr" where
  "drop_empty_tail [] seps tr = ([], seps, tr)"
| "drop_empty_tail (b # bs) seps tr =
     (if b = [] then
        (case seps of
           [] \<Rightarrow> drop_empty_tail bs [] tr
         | s # ss \<Rightarrow> drop_empty_tail bs ss (s @ tr))
      else (b # bs, seps, tr))"

text \<open>The structural pieces of a file: leading bytes, blocks, separators, trailer.\<close>

definition srt_pieces :: "pystr \<Rightarrow> pystr \<times> pystr list \<times> pystr list \<times> pystr" where
  "srt_pieces t =
     (let (leading, rest) = take_leading t;
          (blocks0, seps0) = re_split SEP_RE rest;
          (blocks1, trailer0) = take_trailer blocks0;
          (rblocks, rseps, trailer) = drop_empty_tail (rev blocks1) (rev seps0) trailer0;
          blocks = rev rblocks
      in (leading, blocks, take (length blocks - 1) (rev rseps), trailer))"

definition read_srt :: "pystr \<Rightarrow> pystr \<Rightarrow> sub_doc" where
  "read_srt enc t =
     (let (leading, blocks, seps, trailer) = srt_pieces t
      in \<lparr>doc_lines = map parse_block (filter (\<lambda>b. b \<noteq> []) blocks), doc_encoding = enc,
          doc_line_ending = detect_le t, doc_separators = seps, doc_leading = leading,
          doc_trailer = trailer, doc_envelope = NoEnvelope\<rparr>)"

section \<open>Writing\<close>

definition render_block :: "pystr \<Rightarrow> sub_line \<Rightarrow> pystr" where
  "render_block le sl = (case sl_raw sl of
     Some r \<Rightarrow> r
   | None \<Rightarrow> sl_index sl @ le @ sl_start sl @ lit '' --> '' @ sl_end sl @ le @ sl_text sl)"

fun join_blocks :: "pystr \<Rightarrow> pystr list \<Rightarrow> pystr list \<Rightarrow> pystr" where
  "join_blocks le [] seps = []"
| "join_blocks le [b] seps = b"
| "join_blocks le (b # c # bs) (s # seps) = b @ s @ join_blocks le (c # bs) seps"
| "join_blocks le (b # c # bs) [] = b @ (le @ le) @ join_blocks le (c # bs) []"

definition write_srt :: "sub_doc \<Rightarrow> pystr" where
  "write_srt d = doc_leading d
     @ join_blocks (doc_line_ending d) (map (render_block (doc_line_ending d)) (doc_lines d))
         (doc_separators d)
     @ doc_trailer d"

section \<open>The split loses nothing\<close>

lemma take_leading_append: "take_leading t = (a, b) \<Longrightarrow> a @ b = t"
  by (auto simp: take_leading_def re_match_def Let_def dest!: first_match_Some
      split: option.splits if_splits prod.splits)

text \<open>
  The end anchor of \<open>TRAIL_RE\<close> also holds before a final newline; the greedy star in front of
  it has consumed that newline first, so nothing is left over.
\<close>

abbreviation at_eos :: "mres \<Rightarrow> bool" where
  "at_eos \<equiv> \<lambda>(l, s, g). s = [] \<or> s = [10]"

lemma rblank_newline: "\<exists>g'. (10 # l, [], g') \<in> set (rmatch rblank l [10] g)"
proof -
  have "rxm rnl l [10] []"
    using rxm.seq [of "ropt (rchr 13)" l "[]" "[10]" "[]" "rchr 10"] by (simp add: rnl_def)
  then have "rxm rblank l [10] []"
    using rxm.seq [of "RStar (RCls (\<lambda>c. c = 32 \<or> c = 9))" l "[]" "[10]" "[]" rnl]
    by (simp add: rblank_def)
  from rmatch_complete[OF this] show ?thesis by simp
qed

lemma find_concat_map:
  "find P (concat (map f xs)) = None \<longleftrightarrow> (\<forall>x \<in> set xs. find P (f x) = None)"
  by (induction xs) (auto simp: find_None_iff)

lemma find_filter: "find P xs = (case filter P xs of [] \<Rightarrow> None | x # _ \<Rightarrow> Some x)"
  by (induction xs) auto

lemma find_concat_Some:
  "find P (concat (map f xs)) = Some y \<Longrightarrow> \<exists>x \<in> set xs. find P (f x) = Some y"
  by (induction xs) (auto simp: find_append split: option.splits)

lemma star_blank_eos:
  "find at_eos (rmatch (RStar rblank) l s g) = Some (l', s', g') \<Longrightarrow> s' = []"
proof (induction "length s" arbitrary: l s g l' s' g' rule: less_induct)
  case less
  let ?f = "\<lambda>(l', s', g'). if length s' < length s then rmatch (RStar rblank) l' s' g' else []"
  have eq: "rmatch (RStar rblank) l s g = concat (map ?f (rmatch rblank l s g)) @ [(l, s, g)]"
    by (rule rmatch.simps(5))
  show ?case
  proof (cases "find at_eos (concat (map ?f (rmatch rblank l s g)))")
    case (Some y)
    with less.prems have "find at_eos (concat (map ?f (rmatch rblank l s g))) = Some (l', s', g')"
      by (simp add: eq find_append)
    from find_concat_Some[OF this] obtain l1 s1 g1 where
      "find at_eos (?f (l1, s1, g1)) = Some (l', s', g')" by auto
    then have "length s1 < length s" "find at_eos (rmatch (RStar rblank) l1 s1 g1) = Some (l', s', g')"
      by (auto split: if_splits)
    then show ?thesis by (rule less.hyps)
  next
    case None
    with less.prems have s: "s' = s" "s = [] \<or> s = [10]"
      by (auto simp: eq find_append split: if_splits)
    have "s \<noteq> [10]"
    proof
      assume s10: "s = [10]"
      obtain g1 where m: "(10 # l, [], g1) \<in> set (rmatch rblank l s g)"
        using rblank_newline s10 by blast
      have "(10 # l, [], g1) \<in> set (rmatch (RStar rblank) (10 # l) [] g1)"
        by (subst rmatch.simps(5)) simp
      then have "find at_eos (?f (10 # l, [], g1)) \<noteq> None"
        using s10 by (auto simp: find_None_iff)
      moreover have "find at_eos (?f (10 # l, [], g1)) = None"
        using None [unfolded find_concat_map] m by (rule bspec)
      ultimately show False by contradiction
    qed
    with s show ?thesis by simp
  qed
qed

lemma rmatch_seq_asrt:
  "rmatch (RSeq a (RAssert q)) l s g = filter (\<lambda>(l', s', g'). q l' s') (rmatch a l s g)"
proof -
  have "concat (map (\<lambda>(l', s', g'). rmatch (RAssert q) l' s' g') xs) =
      filter (\<lambda>(l', s', g'). q l' s') xs" for xs :: "mres list"
    by (induction xs) auto
  then show ?thesis unfolding rmatch.simps(3) .
qed

lemma first_trail:
  assumes "first_match TRAIL_RE l s = Some (l', s', g)"
  shows "s' = []"
proof -
  have "find at_eos (rmatch (rplus rblank) l s []) = Some (l', s', g)"
    using assms unfolding TRAIL_RE_def reos_def first_match_def rmatch_seq_asrt find_filter
    by (simp split: list.splits)
  moreover have "rmatch (rplus rblank) l s [] =
      concat (map (\<lambda>(l', s', g'). rmatch (RStar rblank) l' s' g') (rmatch rblank l s []))"
    by (simp add: rplus_def)
  ultimately obtain l1 s1 g1 where "find at_eos (rmatch (RStar rblank) l1 s1 g1) = Some (l', s', g)"
    using find_concat_Some by fastforce
  then show ?thesis by (rule star_blank_eos)
qed

lemma search_from_split:
  "search_from r l s = Some (pre, m, post, g) \<Longrightarrow> pre @ m @ post = rev l @ s"
proof (induction s arbitrary: l)
  case Nil
  then show ?case
    by (subst (asm) search_from.simps) (auto split: option.splits dest: first_match_Some)
next
  case (Cons c s)
  show ?case
  proof (cases "first_match r l (c # s)")
    case None
    with Cons.prems have "search_from r (c # l) s = Some (pre, m, post, g)"
      by (subst (asm) search_from.simps) simp
    from Cons.IH[OF this] show ?thesis by simp
  next
    case (Some x)
    then obtain l' s' g' where m: "first_match r l (c # s) = Some (l', s', g')" by (cases x) auto
    from first_match_Some[OF m] obtain w where "c # s = w @ s'" by blast
    then have "take (length (c # s) - length s') (c # s) @ s' = c # s" by simp
    moreover have "search_from r l (c # s) =
        Some (rev l, take (length (c # s) - length s') (c # s), s', g')"
      by (subst search_from.simps) (simp add: m)
    ultimately show ?thesis using Cons.prems by simp
  qed
qed

lemma search_from_first:
  "search_from r l s = Some (pre, m, post, g) \<Longrightarrow> \<exists>l' u l1. first_match r l1 u = Some (l', post, g)"
proof (induction s arbitrary: l)
  case Nil
  then show ?case by (subst (asm) search_from.simps) (auto split: option.splits)
next
  case (Cons c s)
  then show ?case by (subst (asm) search_from.simps) (auto split: option.splits)
qed

lemma take_trailer_interleave:
  assumes "take_trailer blocks = (blocks', tr)" and "length blocks = Suc (length seps)"
  shows "interleave blocks' seps @ tr = interleave blocks seps \<and> length blocks' = length blocks"
proof -
  have snoc: "interleave (bs @ [x @ y]) seps = interleave (bs @ [x]) seps @ y"
    if "length bs = length seps" for bs :: "pystr list" and x y
    using that by (induction bs seps rule: list_induct2) (auto simp: interleave_Cons)
  obtain bs b where b: "blocks = bs @ [b]" using assms(2) by (metis length_0_conv nat.distinct(1) rev_exhaust)
  show ?thesis
  proof (cases "re_search TRAIL_RE b")
    case None
    with assms(1) b show ?thesis by (simp add: take_trailer_def)
  next
    case (Some x)
    obtain pre m post g where x: "re_search TRAIL_RE b = Some (pre, m, post, g)"
      using Some by (cases x) auto
    then have sf: "search_from TRAIL_RE [] b = Some (pre, m, post, g)" by (simp add: re_search_def)
    from search_from_first[OF sf] have "post = []" using first_trail by blast
    with search_from_split[OF sf] have "b = pre @ m" by simp
    moreover have "blocks' = bs @ [pre]" "tr = m" using assms(1) b x by (auto simp: take_trailer_def)
    ultimately show ?thesis using snoc[of bs pre m] b assms(2) by simp
  qed
qed

lemma drop_empty_tail_interleave:
  assumes "drop_empty_tail rb rs tr = (rb', rs', tr')" and "length rb = Suc (length rs)"
  shows "interleave (rev rb') (take (length rb' - 1) (rev rs')) @ tr' = interleave (rev rb) (rev rs) @ tr"
  using assms
proof (induction rb rs tr rule: drop_empty_tail.induct)
  case (2 b bs seps tr)
  show ?case
  proof (cases "b = []")
    case False
    with 2 show ?thesis by auto
  next
    case True
    show ?thesis
    proof (cases seps)
      case Nil
      with 2 True show ?thesis by auto
    next
      case (Cons s ss)
      have snoc: "interleave (xs @ [[]]) (ys @ [s]) = interleave xs ys @ s"
        if "length xs = Suc (length ys)" for xs ys :: "pystr list"
        using that
      proof (induction xs arbitrary: ys)
        case (Cons x xs)
        then show ?case by (cases ys; cases xs) (auto simp: interleave_Cons)
      qed simp
      from 2 True Cons have "interleave (rev rb') (take (length rb' - 1) (rev rs')) @ tr' =
          interleave (rev bs) (rev ss) @ s @ tr" by simp
      with snoc[of "rev bs" "rev ss"] 2(4) True Cons show ?thesis by simp
    qed
  qed
qed auto

theorem srt_pieces_join:
  assumes "srt_pieces t = (leading, blocks, seps, trailer)"
  shows "leading @ interleave blocks seps @ trailer = t"
proof -
  obtain lead rest where l: "take_leading t = (lead, rest)" by fastforce
  obtain b0 s0 where sp: "re_split SEP_RE rest = (b0, s0)" by fastforce
  obtain b1 t0 where tt: "take_trailer b0 = (b1, t0)" by fastforce
  obtain rb rs tr where de: "drop_empty_tail (rev b1) (rev s0) t0 = (rb, rs, tr)"
    by (metis prod_cases3)
  have len: "length b0 = Suc (length s0)" using length_re_split[of SEP_RE rest] sp by simp
  note tr = take_trailer_interleave[OF tt len]
  have "interleave (rev rb) (take (length rb - 1) (rev rs)) @ tr = interleave b1 s0 @ t0"
    using drop_empty_tail_interleave[OF de] tr len by simp
  also have "\<dots> = rest" using tr interleave_split[of SEP_RE rest] sp by simp
  finally show ?thesis
    using assms take_leading_append[OF l] l sp tt de by (auto simp: srt_pieces_def Let_def)
qed

section \<open>Canonical headers\<close>

text \<open>
  The header form the writer produces: the index without surrounding blanks, the two
  timecodes joined by \<open>" --> "\<close>, and the document's line ending. Only blocks the parser
  accepts as well-formed are constrained; every other block is kept verbatim.
\<close>

definition tc_char :: "pychar \<Rightarrow> bool" where
  "tc_char c \<longleftrightarrow> is_digit c \<or> c = 58 \<or> c = 44 \<or> c = 46"

definition canonical_tc_line :: "pystr \<Rightarrow> bool" where
  "canonical_tc_line x \<longleftrightarrow>
     (let st = takeWhile tc_char x; r = dropWhile tc_char x; en = drop 5 r
      in st \<noteq> [] \<and> starts_with (lit '' --> '') r \<and> en \<noteq> [] \<and> list_all tc_char en)"

definition canonical_block :: "pystr \<Rightarrow> pystr \<Rightarrow> bool" where
  "canonical_block le b \<longleftrightarrow> b \<noteq> [] \<and>
     (sl_raw (parse_block b) = None \<longrightarrow>
        detect_le b = le \<and> strip (splitlines b ! 0) = splitlines b ! 0
        \<and> canonical_tc_line (splitlines b ! 1))"

definition srt_canonical :: "pystr \<Rightarrow> bool" where
  "srt_canonical t \<longleftrightarrow>
     (case srt_pieces t of (_, blocks, _, _) \<Rightarrow> list_all (canonical_block (detect_le t)) blocks)"

lemma tc_char_not_space: "tc_char c \<Longrightarrow> \<not> is_space c"
  by (auto simp: tc_char_def digit_not_space) (simp_all add: is_space_def space_ranges_def)

lemma tc_char_punct [simp]: "\<not> tc_char 32" "\<not> tc_char 45"
  by (simp_all add: tc_char_def is_digit_def digit_ranges_def)

lemma is_space_punct [simp]: "is_space 32" "is_space 10" "is_space 9" "is_space 13" "\<not> is_space 45"
  by (simp_all add: is_space_def space_ranges_def)

lemma takeWhile_prefix: "(\<forall>c \<in> set a. P c) \<Longrightarrow> b = [] \<or> \<not> P (hd b) \<Longrightarrow> takeWhile P (a @ b) = a"
  by (cases b) (auto simp: takeWhile_append2)

lemma canonical_tc_lineD:
  "canonical_tc_line x \<Longrightarrow> \<exists>st en. x = st @ lit '' --> '' @ en \<and> st \<noteq> [] \<and> en \<noteq> []
     \<and> (\<forall>c \<in> set st. tc_char c) \<and> (\<forall>c \<in> set en. tc_char c)"
proof -
  assume h: "canonical_tc_line x"
  let ?r = "dropWhile tc_char x"
  have "length (lit '' --> '') = 5" by (simp add: lit_def)
  then have "lit '' --> '' @ drop 5 ?r = ?r"
    using h starts_with_drop[of "lit '' --> ''" ?r] by (simp add: canonical_tc_line_def Let_def)
  then have "x = takeWhile tc_char x @ lit '' --> '' @ drop 5 ?r" by simp
  moreover have "\<forall>c \<in> set (takeWhile tc_char x). tc_char c" by (auto dest: set_takeWhileD)
  ultimately show ?thesis
    using h unfolding canonical_tc_line_def Let_def list_all_iff by blast
qed

lemma tc_word_chars: "rxm tc_word l w t \<Longrightarrow> w \<noteq> [] \<and> (\<forall>c \<in> set w. tc_char c)"
  unfolding tc_word_def rdigits2_def rdigit_def rxm_seq by (auto simp: tc_char_def)

lemma nogrp_tc_word [simp]: "nogrp tc_word"
  by (simp add: tc_word_def rdigits2_def rdigit_def rplus_def rchr_def)

lemma nogrp_rstr [simp]: "nogrp (rstr p)"
  by (induction p) (simp_all add: rstr_def rchr_def)

lemma nogrp_spaces: "nogrp (RStar (RCls p))"
  by simp

text \<open>A full match of the timecode line decomposes it into the captured timecodes.\<close>

lemma TC_RE_groups:
  assumes "re_fullmatch TC_RE s = Some g"
  obtains sp sp' where "s = group g 1 @ sp @ lit ''-->'' @ sp' @ group g 2"
    "\<forall>c \<in> set sp. is_space c" "\<forall>c \<in> set sp'. is_space c"
    "group g 1 \<noteq> []" "group g 2 \<noteq> []"
    "\<forall>c \<in> set (group g 1). tc_char c" "\<forall>c \<in> set (group g 2). tc_char c"
proof -
  from assms obtain l' where "(l', [], g) \<in> set (rmatch TC_RE [] s [])"
    using re_fullmatch_mem by blast
  note m0 = this [unfolded TC_RE_def]
  from m0 obtain w1 t1 where 1: "s = w1 @ t1" "rxm tc_word [] w1 t1"
    and m1: "(l', [], g) \<in> set (rmatch (RSeq (RStar (RCls is_space)) (RSeq (rstr (lit ''-->''))
       (RSeq (RStar (RCls is_space)) (RGrp 2 tc_word)))) (rev w1 @ []) t1 [(1, w1)])"
    by (rule rmatch_seq_group [OF _ nogrp_tc_word])
  from m1 obtain sp t2 where 2: "t1 = sp @ t2" "rxm (RStar (RCls is_space)) (rev w1 @ []) sp t2"
    and m2: "(l', [], g) \<in> set (rmatch (RSeq (rstr (lit ''-->''))
       (RSeq (RStar (RCls is_space)) (RGrp 2 tc_word))) (rev sp @ rev w1 @ []) t2 [(1, w1)])"
    by (rule rmatch_seq_head [OF _ nogrp_spaces])
  from m2 obtain ar t3 where 3: "t2 = ar @ t3"
      "rxm (rstr (lit ''-->'')) (rev sp @ rev w1 @ []) ar t3"
    and m3: "(l', [], g) \<in> set (rmatch (RSeq (RStar (RCls is_space)) (RGrp 2 tc_word))
       (rev ar @ rev sp @ rev w1 @ []) t3 [(1, w1)])"
    by (rule rmatch_seq_head [OF _ nogrp_rstr])
  from m3 obtain sp' t4 where 4: "t3 = sp' @ t4"
      "rxm (RStar (RCls is_space)) (rev ar @ rev sp @ rev w1 @ []) sp' t4"
    and m4: "(l', [], g) \<in> set (rmatch (RGrp 2 tc_word)
       (rev sp' @ rev ar @ rev sp @ rev w1 @ []) t4 [(1, w1)])"
    by (rule rmatch_seq_head [OF _ nogrp_spaces])
  from m4 obtain w2 where 5: "t4 = w2 @ []"
      "rxm tc_word (rev sp' @ rev ar @ rev sp @ rev w1 @ []) w2 []" "g = [(2, w2), (1, w1)]"
    by (rule rmatch_group_end [OF _ nogrp_tc_word])
  from 5(3) have "group g 1 = w1" "group g 2 = w2" by (simp_all add: group_def)
  with that[of sp sp'] 1 2 3 4 5 tc_word_chars[OF 1(2)] tc_word_chars[OF 5(2)] show ?thesis
    by simp
qed

lemma canonical_tc_line_groups:
  assumes "canonical_tc_line x" and "re_fullmatch TC_RE (strip x) = Some g"
  shows "x = group g 1 @ lit '' --> '' @ group g 2"
proof -
  obtain st en where x: "x = st @ lit '' --> '' @ en" "st \<noteq> []" "en \<noteq> []"
    "\<forall>c \<in> set st. tc_char c" "\<forall>c \<in> set en. tc_char c"
    using canonical_tc_lineD[OF assms(1)] by blast
  have "\<not> is_space (hd x)" "\<not> is_space (last x)"
    using x tc_char_not_space by auto
  then have sx: "strip x = x" by (rule strip_no_space)
  obtain sp sp' where g: "x = group g 1 @ sp @ lit ''-->'' @ sp' @ group g 2"
    "\<forall>c \<in> set sp. is_space c" "\<forall>c \<in> set sp'. is_space c" "group g 1 \<noteq> []" "group g 2 \<noteq> []"
    "\<forall>c \<in> set (group g 1). tc_char c" "\<forall>c \<in> set (group g 2). tc_char c"
    using TC_RE_groups[OF assms(2)] sx by metis
  have "takeWhile tc_char x = st"
    unfolding x(1) by (rule takeWhile_prefix) (use x in \<open>auto simp: lit_def\<close>)
  moreover have "takeWhile tc_char x = group g 1"
    using g(2) tc_char_not_space unfolding g(1)
    by (intro takeWhile_prefix[OF g(6)]) (cases sp; auto simp: lit_def)
  ultimately have st: "group g 1 = st" by simp
  with g(1) x(1) have r: "sp @ lit ''-->'' @ sp' @ group g 2 = [32] @ lit ''-->'' @ [32] @ en"
    by (simp add: lit_def)
  have "takeWhile is_space (sp @ lit ''-->'' @ sp' @ group g 2) = sp"
    by (rule takeWhile_prefix) (use g in \<open>auto simp: lit_def\<close>)
  moreover have "takeWhile is_space ([32] @ lit ''-->'' @ [32] @ en) = [32]"
    by (rule takeWhile_prefix) (auto simp: lit_def)
  ultimately have "sp = [32]" using r by simp
  with r have r2: "sp' @ group g 2 = [32] @ en" by (simp add: lit_def)
  have "takeWhile is_space (sp' @ group g 2) = sp'"
    by (rule takeWhile_prefix) (use g tc_char_not_space in auto)
  moreover have "takeWhile is_space ([32] @ en) = [32]"
    by (rule takeWhile_prefix) (use x tc_char_not_space in auto)
  ultimately have "group g 2 = en" using r2 by simp
  with st x(1) show ?thesis by simp
qed

lemma render_parse_block:
  assumes "canonical_block le b"
  shows "render_block le (parse_block b) = b"
proof (cases "sl_raw (parse_block b)")
  case (Some r)
  then have "r = b"
    by (auto simp: parse_block_def raw_line_def Let_def split: if_splits option.splits)
  with Some show ?thesis by (simp add: render_block_def)
next
  case None
  let ?i = "splitlines b ! 0" and ?x = "splitlines b ! 1"
  from assms None have can: "detect_le b = le" "strip ?i = ?i" "canonical_tc_line ?x"
    by (auto simp: canonical_block_def)
  define pre where "pre = ?i @ le @ ?x @ le"
  from None can obtain g where g: "re_fullmatch TC_RE (strip ?x) = Some g"
    and sw: "starts_with pre b"
    and pb: "parse_block b = mk_line ?i (group g 1) (group g 2) (drop (length pre) b) None"
    unfolding pre_def
    by (auto simp: parse_block_def raw_line_def Let_def split: if_splits option.splits)
  have "pre = ?i @ le @ (group g 1 @ lit '' --> '' @ group g 2) @ le"
    unfolding pre_def using canonical_tc_line_groups[OF can(3) g] by simp
  then have "render_block le (parse_block b) = pre @ drop (length pre) b"
    by (simp add: render_block_def pb)
  then show ?thesis by (simp only: starts_with_drop[OF sw])
qed

lemma join_blocks_interleave:
  "length blocks \<le> Suc (length seps) \<Longrightarrow> join_blocks le blocks seps = interleave blocks seps"
  by (induction le blocks seps rule: join_blocks.induct) auto

lemma drop_empty_tail_length:
  "drop_empty_tail rb rs tr = (rb', rs', tr') \<Longrightarrow> length rb = Suc (length rs) \<Longrightarrow>
     length rb' \<le> Suc (length rs')"
proof (induction rb rs tr rule: drop_empty_tail.induct)
  case (2 b bs seps tr)
  show ?case
  proof (cases "b = [] \<and> seps = []")
    case True
    with 2 show ?thesis by auto
  next
    case False
    with 2 show ?thesis by (auto split: if_splits list.splits)
  qed
qed auto

lemma srt_pieces_length:
  assumes "srt_pieces t = (leading, blocks, seps, trailer)"
  shows "length seps = length blocks - 1"
proof -
  obtain lead rest where l: "take_leading t = (lead, rest)" by fastforce
  obtain b0 s0 where sp: "re_split SEP_RE rest = (b0, s0)" by fastforce
  obtain b1 t0 where tt: "take_trailer b0 = (b1, t0)" by fastforce
  obtain rb rs tr where de: "drop_empty_tail (rev b1) (rev s0) t0 = (rb, rs, tr)"
    by (metis prod_cases3)
  have len: "length b0 = Suc (length s0)" using length_re_split[of SEP_RE rest] sp by simp
  have "length rb \<le> Suc (length rs)"
    using drop_empty_tail_length[OF de] take_trailer_interleave[OF tt len] len by simp
  then show ?thesis using assms l sp tt de by (auto simp: srt_pieces_def Let_def)
qed

lemma write_read_srt:
  assumes "srt_canonical t"
  shows "write_srt (read_srt enc t) = t"
proof -
  obtain leading blocks seps trailer where p: "srt_pieces t = (leading, blocks, seps, trailer)"
    by (metis prod_cases4)
  from assms p have can: "\<forall>b \<in> set blocks. canonical_block (detect_le t) b"
    by (simp add: srt_canonical_def list_all_iff)
  then have "filter (\<lambda>b. b \<noteq> []) blocks = blocks"
    by (intro filter_eq_self) (simp add: canonical_block_def)
  moreover have "map (render_block (detect_le t)) (map parse_block blocks) = blocks"
    using can render_parse_block by (simp add: map_idI)
  ultimately have "write_srt (read_srt enc t) =
      leading @ join_blocks (detect_le t) blocks seps @ trailer"
    by (simp add: write_srt_def read_srt_def p)
  also have "\<dots> = t"
    using srt_pieces_join[OF p] srt_pieces_length[OF p]
    by (simp add: join_blocks_interleave)
  finally show ?thesis .
qed

interpretation srt: subtitle_codec "\<lambda>t. Inr (read_srt enc t)" "\<lambda>d. Inr (write_srt d)" srt_canonical
  for enc
  by unfold_locales (auto simp: write_read_srt)

lemmas srt_eval = read_srt_def write_srt_def srt_pieces_def take_leading_def take_trailer_def
  parse_block_def render_block_def raw_line_def detect_le_def SEP_RE_def LEAD_RE_def TRAIL_RE_def
  rblank_def rnl_def TC_RE_def tc_word_def INDEX_RE_def rdigits2_def rdigit_def rx_eval
  splitlines_def chop_eol_def line_break_def ends_with_def contains_def lit_def
  ascii_eval strip_def lstrip_def rstrip_def

lemmas srt_canonical_eval = srt_canonical_def canonical_block_def canonical_tc_line_def tc_char_def

section \<open>Properties\<close>

definition sample_srt :: pystr where
  "sample_srt = lit ''1'' @ [10] @ lit ''00:00:01,000 --> 00:00:02,000'' @ [10] @ lit ''Hi'' @ [10]"

definition sample_tight_srt :: pystr where
  "sample_tight_srt = lit ''1'' @ [10] @ lit ''00:00:01,000-->00:00:02,000'' @ [10] @ lit ''Hi'' @ [10]"

definition sample_block :: pystr where
  "sample_block = lit ''1'' @ [10] @ lit ''00:00:01,000 --> 00:00:02,000'' @ [10] @ lit ''Hi''"

definition sample_tight_block :: pystr where
  "sample_tight_block = lit ''1'' @ [10] @ lit ''00:00:01,000-->00:00:02,000'' @ [10] @ lit ''Hi''"

lemma sample_pieces: "srt_pieces sample_srt = ([], [sample_block], [], [10])"
  by (simp add: sample_srt_def sample_block_def srt_eval Let_def)

lemma sample_tight_pieces: "srt_pieces sample_tight_srt = ([], [sample_tight_block], [], [10])"
  by (simp add: sample_tight_srt_def sample_tight_block_def srt_eval Let_def)

lemma sample_parse:
  "parse_block sample_block =
     mk_line (lit ''1'') (lit ''00:00:01,000'') (lit ''00:00:02,000'') (lit ''Hi'') None"
  by (simp add: sample_block_def srt_eval Let_def)

lemma sample_tight_parse:
  "parse_block sample_tight_block =
     mk_line (lit ''1'') (lit ''00:00:01,000'') (lit ''00:00:02,000'') (lit ''Hi'') None"
  by (simp add: sample_tight_block_def srt_eval Let_def)

lemma sample_le [simp]: "detect_le sample_srt = [10]" "detect_le sample_block = [10]"
    "detect_le sample_tight_srt = [10]"
  by (simp_all add: sample_srt_def sample_block_def sample_tight_srt_def detect_le_def
      contains_def lit_def)

lemma sample_srt_canonical: "srt_canonical sample_srt"
proof -
  have "splitlines sample_block =
      [lit ''1'', lit ''00:00:01,000 --> 00:00:02,000'', lit ''Hi'']"
    by (simp add: sample_block_def srt_eval)
  moreover have "canonical_tc_line (lit ''00:00:01,000 --> 00:00:02,000'')"
    by (simp add: canonical_tc_line_def tc_char_def lit_def is_digit_ascii_range Let_def)
  moreover have "strip (lit ''1'') = lit ''1''" "sample_block \<noteq> []"
    by (simp_all add: strip_def lstrip_def rstrip_def lit_def is_space_ascii sample_block_def)
  ultimately show ?thesis
    by (simp add: srt_canonical_def sample_pieces canonical_block_def sample_parse)
qed

text \<open>
  SRT files round-trip byte for byte. If every well-formed cue of a file has its header
  in canonical form (the file's own line ending, no blanks around the index, one blank on each
  side of the arrow), reading the file and writing the document gives the same text; malformed
  blocks, separators, leading and trailing blank lines are arbitrary.
\<close>

theorem srt_roundtrip:
  assumes "srt_canonical t"
  shows "write_srt (read_srt enc t) = t"
  using srt.roundtrip[OF refl assms] by simp

theorem srt_roundtrip_witness: "write_srt (read_srt (lit ''utf-8'') sample_srt) = sample_srt"
  by (rule srt_roundtrip[OF sample_srt_canonical])

text \<open>
  The byte identity the module documents fails for a well-formed cue whose arrow has no
  blanks around it: the writer puts them in, so the file changes although no cue was edited.
\<close>

theorem srt_tight_arrow_rewritten:
  "write_srt (read_srt enc sample_tight_srt) = sample_srt \<and> sample_tight_srt \<noteq> sample_srt"
proof -
  have "sample_tight_block \<noteq> []" by (simp add: sample_tight_block_def lit_def)
  then have "write_srt (read_srt enc sample_tight_srt) = sample_block @ [10]"
    by (simp add: read_srt_def write_srt_def sample_tight_pieces sample_tight_parse
        render_block_def sample_block_def lit_def)
  then show ?thesis by (simp add: sample_block_def sample_srt_def sample_tight_srt_def lit_def)
qed

end
