(* ===== verification/Vtt_Codec.thy ===== *)
theory Vtt_Codec
  imports Srt_Codec
begin

text \<open>
  The VTT reader and writer of \<open>trezarr/subtitles/vtt.py\<close>, on decoded text. The reader cuts the
  file into blocks and blank lines, keeps the header, notes, styles, regions and malformed blocks
  opaque, and slices the payload out of a cue block; the writer puts the line ending of the
  document after the identifier and the timing line. The main result says exactly which files
  an unedited document reproduces.
\<close>

section \<open>Reading\<close>

definition has_arrow :: "pystr \<Rightarrow> bool" where
  "has_arrow l \<longleftrightarrow> contains (lit ''-->'') l"

definition VTT_TC_SPLIT_RE :: rx where
  "VTT_TC_SPLIT_RE = RSeq rbos (RSeq (RGrp 1 (rplus (RCls (\<lambda>c. \<not> is_space c)))) (RSeq (RStar (RCls is_space))
     (RSeq (rstr (lit ''-->'')) (RSeq (RStar (RCls is_space)) (RGrp 2 (rplus (RCls (\<lambda>c. \<not> is_space c))))))))"

text \<open>Past one line ending: CR LF, CR or LF.\<close>

fun skip_eol :: "pystr \<Rightarrow> pystr" where
  "skip_eol (c # d # s) = (if c = 13 \<and> d = 10 then s else if c = 13 \<or> c = 10 then d # s else c # d # s)"
| "skip_eol [c] = (if c = 13 \<or> c = 10 then [] else [c])"
| "skip_eol [] = []"

text \<open>What follows the first occurrence of a line and its line ending, or all where there is none.\<close>

definition after_line :: "pystr \<Rightarrow> pystr \<Rightarrow> pystr" where
  "after_line l s = (case find_sub l s of None \<Rightarrow> s | Some n \<Rightarrow> skip_eol (drop (n + length l) s))"

definition extract_payload :: "pystr \<Rightarrow> pystr option \<Rightarrow> pystr \<Rightarrow> pystr" where
  "extract_payload block idl timing =
     after_line timing (case idl of None \<Rightarrow> block | Some i \<Rightarrow> after_line i block)"

text \<open>The identifier and the timing line of a block that has one.\<close>

definition cue_lines :: "pystr \<Rightarrow> (pystr option \<times> pystr) option" where
  "cue_lines block =
     (case splitlines block of
        [] \<Rightarrow> None
      | l # ls \<Rightarrow>
          (if starts_with (lit ''NOTE'') l \<or> starts_with (lit ''STYLE'') l \<or> starts_with (lit ''REGION'') l then None
           else if has_arrow l then Some (None, l)
           else case ls of
             [] \<Rightarrow> None
           | m # _ \<Rightarrow> (if has_arrow m then Some (Some l, m) else None)))"

definition parse_vtt_block :: "pystr \<Rightarrow> nat \<Rightarrow> pystr \<Rightarrow> pystr \<Rightarrow> vtt_block \<times> sub_line option" where
  "parse_vtt_block le n block sep =
     (case cue_lines block of
        None \<Rightarrow> (VttOpaqueBlock block sep, None)
      | Some (idl, timing) \<Rightarrow>
          (case re_match VTT_TC_SPLIT_RE (strip timing) of
             None \<Rightarrow> (VttOpaqueBlock block sep, None)
           | Some (m, g) \<Rightarrow>
               (VttCueBlock idl timing le n sep,
                Some (mk_line [] (group g 1) (group g 2) (extract_payload block idl timing) None))))"

text \<open>The blocks after the header; \<open>n\<close> counts the cues found.\<close>

fun vtt_walk :: "pystr \<Rightarrow> nat \<Rightarrow> (pystr \<times> pystr) list \<Rightarrow> vtt_block list \<times> sub_line list" where
  "vtt_walk le n [] = ([], [])"
| "vtt_walk le n ((block, sep) # rest) =
     (case parse_vtt_block le n block sep of
        (blk, None) \<Rightarrow> (let (bs, ls) = vtt_walk le n rest in (blk # bs, ls))
      | (blk, Some l) \<Rightarrow> (let (bs, ls) = vtt_walk le (Suc n) rest in (blk # bs, l # ls)))"

text \<open>The blocks with the blank lines that follow them; the last one has none.\<close>

definition vtt_pieces :: "pystr \<Rightarrow> (pystr \<times> pystr) list" where
  "vtt_pieces t = (let (blocks, seps) = re_split SEP_RE t in zip blocks (seps @ [[]]))"

definition read_vtt :: "pystr \<Rightarrow> pystr \<Rightarrow> sub_doc" where
  "read_vtt enc t =
     (let le = detect_le t in
      case vtt_pieces t of
        [] \<Rightarrow> \<lparr>doc_lines = [], doc_encoding = enc, doc_line_ending = le, doc_separators = [], doc_leading = [], doc_trailer = [],
            doc_envelope = VttEnvelope \<lparr>vtt_blocks = [], vtt_encoding = enc, vtt_line_ending = le\<rparr>\<rparr>
      | (header, sep) # rest \<Rightarrow>
          (let (bs, ls) = vtt_walk le 0 rest
           in \<lparr>doc_lines = ls, doc_encoding = enc, doc_line_ending = le, doc_separators = [], doc_leading = [], doc_trailer = [],
             doc_envelope = VttEnvelope \<lparr>vtt_blocks = VttOpaqueBlock header sep # bs, vtt_encoding = enc, vtt_line_ending = le\<rparr>\<rparr>))"

section \<open>Writing\<close>

definition cue_header :: "pystr \<Rightarrow> pystr option \<Rightarrow> pystr \<Rightarrow> pystr" where
  "cue_header le idl timing = (case idl of None \<Rightarrow> [] | Some i \<Rightarrow> i @ le) @ timing @ le"

definition render_vtt_block :: "pystr \<Rightarrow> sub_line list \<Rightarrow> vtt_block \<Rightarrow> py_error + pystr" where
  "render_vtt_block le lines blk = (case blk of
     VttOpaqueBlock r sep \<Rightarrow> Inr (r @ sep)
   | VttCueBlock idl timing _ i sep \<Rightarrow>
       (if i < length lines then Inr (cue_header le idl timing @ payload (lines ! i) @ sep) else Inl IndexError))"

fun render_vtt_blocks :: "pystr \<Rightarrow> sub_line list \<Rightarrow> vtt_block list \<Rightarrow> py_error + pystr" where
  "render_vtt_blocks le lines [] = Inr []"
| "render_vtt_blocks le lines (blk # blks) = (case render_vtt_block le lines blk of
     Inl e \<Rightarrow> Inl e
   | Inr x \<Rightarrow> (case render_vtt_blocks le lines blks of Inl e \<Rightarrow> Inl e | Inr y \<Rightarrow> Inr (x @ y)))"

definition write_vtt :: "sub_doc \<Rightarrow> py_error + pystr" where
  "write_vtt d = (case doc_envelope d of
     VttEnvelope v \<Rightarrow> render_vtt_blocks (vtt_line_ending v) (doc_lines d) (vtt_blocks v)
   | _ \<Rightarrow> Inl AttributeError)"

section \<open>What a block is rendered as\<close>

text \<open>The text a block of the file becomes, the blank lines left out.\<close>

definition rewritten :: "pystr \<Rightarrow> pystr \<Rightarrow> pystr" where
  "rewritten le block = (case parse_vtt_block le 0 block [] of
     (VttCueBlock idl timing _ _ _, Some l) \<Rightarrow> cue_header le idl timing @ sl_text l
   | _ \<Rightarrow> block)"

lemma parse_cases:
  obtains "\<And>n sep. parse_vtt_block le n block sep = (VttOpaqueBlock block sep, None)" "rewritten le block = block"
  | idl timing s e where "cue_lines block = Some (idl, timing)"
      "\<And>n sep. parse_vtt_block le n block sep = (VttCueBlock idl timing le n sep, Some (mk_line [] s e (extract_payload block idl timing) None))"
      "rewritten le block = cue_header le idl timing @ extract_payload block idl timing"
proof (cases "cue_lines block")
  case None
  then show ?thesis by (intro that(1)) (simp_all add: parse_vtt_block_def rewritten_def)
next
  case (Some c)
  obtain idl timing where c: "c = (idl, timing)" by fastforce
  show ?thesis
  proof (cases "re_match VTT_TC_SPLIT_RE (strip timing)")
    case None
    with Some c show ?thesis by (intro that(1)) (simp_all add: parse_vtt_block_def rewritten_def)
  next
    case (Some mg)
    obtain m g where "mg = (m, g)" by fastforce
    with Some \<open>cue_lines block = Some c\<close> c show ?thesis
      by (intro that(2)[of idl timing "group g 1" "group g 2"]) (simp_all add: parse_vtt_block_def rewritten_def)
  qed
qed

lemma walk_render:
  assumes "vtt_walk le (length pre) ps = (bs, ls)"
  shows "render_vtt_blocks le (pre @ ls @ post) bs = Inr (concat (map (\<lambda>(b, s). rewritten le b @ s) ps))"
  using assms
proof (induction ps arbitrary: pre bs ls)
  case (Cons p ps)
  obtain b s where p: "p = (b, s)" by fastforce
  show ?case
  proof (cases rule: parse_cases[of le b])
    case 1
    obtain bs' ls' where w: "vtt_walk le (length pre) ps = (bs', ls')" by fastforce
    with Cons.prems p 1(1) have "bs = VttOpaqueBlock b s # bs'" "ls = ls'" by auto
    with Cons.IH[OF w] p 1(2) show ?thesis by (simp add: render_vtt_block_def)
  next
    case (2 idl timing x y)
    obtain bs' ls' where w: "vtt_walk le (Suc (length pre)) ps = (bs', ls')" by fastforce
    let ?l = "mk_line [] x y (extract_payload b idl timing) None"
    from w Cons.prems p 2(2) have "bs = VttCueBlock idl timing le (length pre) s # bs'" "ls = ?l # ls'" by auto
    moreover have "vtt_walk le (length (pre @ [?l])) ps = (bs', ls')" using w by simp
    ultimately show ?thesis using Cons.IH[of "pre @ [?l]"] p 2(3) by (simp add: render_vtt_block_def)
  qed
qed simp

lemma pieces_join: "concat (map (\<lambda>(b, s). b @ s) (vtt_pieces t)) = t"
proof -
  obtain blocks seps where sp: "re_split SEP_RE t = (blocks, seps)" by fastforce
  have "length bs = Suc (length ss) \<Longrightarrow> concat (map (\<lambda>(b, s). b @ s) (zip bs (ss @ [[]]))) = interleave bs ss" for bs ss :: "pystr list"
  proof (induction bs arbitrary: ss)
    case (Cons b bs)
    then show ?case by (cases ss; cases bs) (auto simp: interleave_Cons)
  qed simp
  with length_re_split[of SEP_RE t] interleave_split[of SEP_RE t] sp show ?thesis by (simp add: vtt_pieces_def)
qed

lemma pieces_nonempty: "vtt_pieces t \<noteq> []"
  using length_re_split[of SEP_RE t] by (cases "re_split SEP_RE t") (auto simp: vtt_pieces_def)

lemma write_read_vtt:
  assumes "vtt_pieces t = (header, sep) # rest"
  shows "write_vtt (read_vtt enc t) = Inr (header @ sep @ concat (map (\<lambda>(b, s). rewritten (detect_le t) b @ s) rest))"
proof -
  obtain bs ls where w: "vtt_walk (detect_le t) 0 rest = (bs, ls)" by fastforce
  then have "vtt_walk (detect_le t) (length ([] :: sub_line list)) rest = (bs, ls)" by simp
  from walk_render[OF this, of "[]"] w assms show ?thesis
    by (simp add: read_vtt_def write_vtt_def render_vtt_block_def Let_def)
qed


section \<open>Where the payload is\<close>

text \<open>A line ending as \<open>splitlines\<close> sees it, before the rest of the text.\<close>

definition eol_before :: "pystr \<Rightarrow> pystr \<Rightarrow> bool" where
  "eol_before e rest \<longleftrightarrow> e = CRLF \<or> e = [] \<and> rest = []
     \<or> (\<exists>c. e = [c] \<and> line_break c \<and> (c = 13 \<longrightarrow> \<not> starts_with [10] rest))"

lemma chop_line:
  assumes "\<forall>c \<in> set l. \<not> line_break c" and "eol_before e rest"
  shows "chop_eol (l @ e) = l"
proof -
  have last: "\<not> line_break c" if "rev l = c # r" for c r using assms(1) that by (metis list.set_intros(1) set_rev)
  consider "e = CRLF" | "e = []" | c where "e = [c]" "line_break c" using assms(2) by (auto simp: eol_before_def)
  then show ?thesis
  proof cases
    case 2
    have "\<not> ends_with CRLF l" using last[of 10] by (cases "rev l") (auto simp: ends_with_def line_break_def)
    with 2 last show ?thesis by (auto simp: chop_eol_def split: list.splits)
  next
    case (3 c)
    have "\<not> ends_with CRLF (l @ [c])"
      using last[of 13] by (cases "rev l") (auto simp: ends_with_def line_break_def)
    with 3 show ?thesis by (simp add: chop_eol_def)
  qed (simp add: chop_eol_def ends_with_iff)
qed

definition head_line :: "pystr \<Rightarrow> pystr \<Rightarrow> pystr list \<Rightarrow> pystr \<Rightarrow> pystr \<Rightarrow> pystr \<Rightarrow> bool" where
  "head_line s x xs l e rest \<longleftrightarrow> x = l @ e \<and> s = l @ e @ rest \<and> (\<forall>c \<in> set l. \<not> line_break c) \<and> eol_before e rest
     \<and> splitlines_keep rest = xs"

lemma splitlines_keep_head: "splitlines_keep s = x # xs \<Longrightarrow> \<exists>l e rest. head_line s x xs l e rest"
proof (induction s arbitrary: x xs rule: splitlines_keep.induct)
  case (2 c)
  then have "head_line [c] x xs (if line_break c then [] else [c]) (if line_break c then [c] else []) []"
    by (auto simp: head_line_def eol_before_def)
  then show ?case by blast
next
  case (3 c d s)
  show ?case
  proof (cases "c = 13 \<and> d = 10 \<or> line_break c")
    case True
    have "head_line (c # d # s) x xs [] (if c = 13 \<and> d = 10 then CRLF else [c]) (if c = 13 \<and> d = 10 then s else d # s)"
      using True 3(4) by (auto simp: head_line_def eol_before_def split: if_splits)
    then show ?thesis by blast
  next
    case False
    obtain y ys where y: "splitlines_keep (d # s) = y # ys"
      by (metis list.distinct(1) list.exhaust splitlines_keep_eq_Nil)
    have c: "\<not> (c = 13 \<and> d = 10)" "\<not> line_break c" using False by auto
    from "3.IH"(3)[OF c y] obtain l e rest where "head_line (d # s) y ys l e rest" by blast
    with 3(4) c y have "head_line (c # d # s) x xs (c # l) e rest" by (auto simp: head_line_def)
    then show ?thesis by blast
  qed
qed simp

lemma splitlines_head:
  assumes "splitlines s = l # ls"
  obtains e rest where "s = l @ e @ rest" "\<forall>c \<in> set l. \<not> line_break c" "eol_before e rest" "splitlines rest = ls"
proof -
  from assms obtain x xs where x: "splitlines_keep s = x # xs" "chop_eol x = l" "map chop_eol xs = ls"
    by (auto simp: splitlines_def)
  from splitlines_keep_head[OF x(1)] obtain l' e rest where
    h: "x = l' @ e" "s = l' @ e @ rest" "\<forall>c \<in> set l'. \<not> line_break c" "eol_before e rest" "splitlines_keep rest = xs" unfolding head_line_def by blast
  from chop_line[OF h(3,4)] h(1) x(2) have "l' = l" by simp
  with h x(3) that show ?thesis by (simp add: splitlines_def)
qed

text \<open>After a line and its ending, where the ending is one that \<open>skip_eol\<close> knows.\<close>

lemma skip_eol_before:
  assumes "eol_before e rest"
  obtains "skip_eol (e @ rest) = rest" "e \<in> {[], [13], [10], CRLF}" | "skip_eol (e @ rest) = e @ rest" "length e = 1"
proof -
  consider "e = CRLF" | "e = []" "rest = []" | c where "e = [c]" "line_break c" "c = 13 \<longrightarrow> \<not> starts_with [10] rest"
    using assms by (auto simp: eol_before_def)
  then show ?thesis
  proof cases
    case 1
    then show ?thesis using that(1) by simp
  next
    case 2
    then show ?thesis using that(1) by simp
  next
    case (3 c)
    show ?thesis
    proof (cases "c = 13 \<or> c = 10")
      case True
      with 3 that(1) show ?thesis by (cases rest) auto
    next
      case False
      with 3 that(2) show ?thesis by (cases rest) auto
    qed
  qed
qed


lemma find_sub_0: "find_sub l (l @ s) = Some 0"
  by (cases "l @ s") (auto, metis starts_with_append)

lemma after_line_0: "after_line l (l @ s) = skip_eol s"
  by (simp add: after_line_def find_sub_0)

lemma after_line_1:
  assumes "l \<noteq> []" and "hd l \<noteq> c"
  shows "after_line l ([c] @ l @ s) = skip_eol s"
proof -
  have "\<not> starts_with l (c # l @ s)" using assms by (cases l) auto
  then show ?thesis by (simp add: after_line_def find_sub_0)
qed

lemma has_arrow_nonempty: "has_arrow l \<Longrightarrow> l \<noteq> []"
  by (auto simp: has_arrow_def contains_iff lit_def)

text \<open>What \<open>skip_eol\<close> leaves behind a line: the ending it took is the longest it could take.\<close>

definition taken :: "pystr \<Rightarrow> pystr \<Rightarrow> bool" where
  "taken e p \<longleftrightarrow> e = CRLF \<or> e = [10] \<or> e = [13] \<and> \<not> starts_with [10] p \<or> e = [] \<and> (p = [] \<or> hd p \<notin> {10, 13})"

lemma timing_payload:
  assumes "eol_before e rest"
  obtains e1 p where "skip_eol (e @ rest) = p" "e @ rest = e1 @ p" "taken e1 p"
proof (rule skip_eol_before[OF assms])
  assume "skip_eol (e @ rest) = rest" "e \<in> {[], [13], [10], CRLF}"
  with that[of rest e] assms show ?thesis by (auto simp: eol_before_def taken_def)
next
  assume s: "skip_eol (e @ rest) = e @ rest" "length e = 1"
  then obtain c where c: "e = [c]" by (cases e) auto
  with s have "c \<noteq> 10 \<and> c \<noteq> 13" by (cases rest) (auto split: if_splits)
  with that[of "e @ rest" "[]"] s c show ?thesis by (simp add: taken_def)
qed

lemma taken_eq:
  assumes "taken e p" and "e @ p = le @ q" and "le \<in> {[10], CRLF}"
  shows "e = le \<and> p = q"
  using assms by (cases p) (auto simp: taken_def)

lemma cue_payload:
  assumes "cue_lines block = Some (idl, timing)"
  obtains e0 e1 p where "block = (case idl of None \<Rightarrow> [] | Some i \<Rightarrow> i @ e0) @ timing @ e1 @ p"
    "extract_payload block idl timing = p" "taken e1 p" "timing \<noteq> []" "\<forall>c \<in> set timing. \<not> line_break c" "idl \<noteq> None \<Longrightarrow> e0 = CRLF \<or> length e0 = 1"
proof -
  from assms obtain l ls where ls: "splitlines block = l # ls" by (auto simp: cue_lines_def split: list.splits)
  then obtain e rest where h: "block = l @ e @ rest" "\<forall>c \<in> set l. \<not> line_break c" "eol_before e rest" "splitlines rest = ls"
    by (rule splitlines_head)
  show ?thesis
  proof (cases idl)
    case None
    with assms ls have t: "timing = l" "has_arrow l" by (auto simp: cue_lines_def split: if_splits list.splits)
    from timing_payload[OF h(3)] obtain e1 p where e: "skip_eol (e @ rest) = p" "e @ rest = e1 @ p" "taken e1 p" .
    from that[of "[]" e1 p] None t h(1,2) e has_arrow_nonempty[OF t(2)] show ?thesis by (simp add: extract_payload_def after_line_0)
  next
    case (Some i)
    with assms ls obtain ms where m: "i = l" "ls = timing # ms" "has_arrow timing"
      by (auto simp: cue_lines_def split: if_splits list.splits)
    from h(4)[unfolded m(2)] obtain f more where r: "rest = timing @ f @ more" "\<forall>c \<in> set timing. \<not> line_break c" "eol_before f more"
      by (rule splitlines_head)
    from timing_payload[OF r(3)] obtain e1 p where e: "skip_eol (f @ more) = p" "f @ more = e1 @ p" "taken e1 p" .
    have ne: "timing \<noteq> []" using has_arrow_nonempty[OF m(3)] .
    have "rest \<noteq> []" using r(1) ne by simp
    with h(3) have e0: "e = CRLF \<or> length e = 1" by (auto simp: eol_before_def)
    have "after_line timing (skip_eol (e @ rest)) = skip_eol (f @ more)"
    proof (rule skip_eol_before[OF h(3)])
      assume "skip_eol (e @ rest) = rest" "e \<in> {[], [13], [10], CRLF}"
      then show ?thesis by (simp add: r(1) after_line_0)
    next
      assume s: "skip_eol (e @ rest) = e @ rest" "length e = 1"
      then obtain c where c: "e = [c]" by (cases e) auto
      with h(3) have "line_break c" by (auto simp: eol_before_def)
      then have "hd timing \<noteq> c" using r(2) ne by (metis hd_in_set)
      from after_line_1[OF ne this, of "f @ more"] s(1) show ?thesis by (simp add: c r(1))
    qed
    then have "extract_payload block idl timing = p"
      by (simp add: extract_payload_def Some m(1) h(1) after_line_0 e(1))
    from that[OF _ this e(3) ne r(2) e0] Some m(1) h(1) r(1) e(2) show ?thesis by simp
  qed
qed

section \<open>Exactly the canonical files are reproduced\<close>

text \<open>A cue block is canonical when the line ending of the document follows its identifier and its timing line.\<close>

definition canonical_cue :: "pystr \<Rightarrow> pystr \<Rightarrow> bool" where
  "canonical_cue le block \<longleftrightarrow> (case parse_vtt_block le 0 block [] of
     (VttCueBlock idl timing _ _ _, Some l) \<Rightarrow> starts_with (cue_header le idl timing) block
   | _ \<Rightarrow> True)"

lemma rewritten_iff:
  assumes "le = (if contains CRLF block then CRLF else le)" and "le \<in> {[10], CRLF}"
  shows "length block \<le> length (rewritten le block) \<and> (rewritten le block = block \<longleftrightarrow> canonical_cue le block)"
proof (cases rule: parse_cases[of le block])
  case 1
  then show ?thesis by (simp add: canonical_cue_def)
next
  case (2 idl timing s e)
  from cue_payload[OF 2(1)] obtain e0 e1 p where
    b: "block = (case idl of None \<Rightarrow> [] | Some i \<Rightarrow> i @ e0) @ timing @ e1 @ p" "extract_payload block idl timing = p"
      "taken e1 p" "timing \<noteq> []" "\<forall>c \<in> set timing. \<not> line_break c" "idl \<noteq> None \<Longrightarrow> e0 = CRLF \<or> length e0 = 1" by blast
  have r: "rewritten le block = cue_header le idl timing @ p" using 2(3) b(2) by simp
  have c: "canonical_cue le block \<longleftrightarrow> starts_with (cue_header le idl timing) block"
    using 2(2) by (simp add: canonical_cue_def)
  have n1: "length e1 \<le> length le"
  proof (cases "e1 = CRLF")
    case True
    then have "contains CRLF block" unfolding b(1) contains_iff by (metis append.assoc)
    with assms(1) True show ?thesis by simp
  qed (use b(3) assms(2) in \<open>auto simp: taken_def\<close>)
  have n0: "idl \<noteq> None \<Longrightarrow> length e0 \<le> length le"
  proof (cases "e0 = CRLF")
    case True
    assume "idl \<noteq> None"
    then obtain i where "block = i @ CRLF @ timing @ e1 @ p" using b(1) True by auto
    then have "contains CRLF block" unfolding contains_iff by blast
    with assms(1) True show ?thesis by simp
  qed (use b(6) assms(2) in auto)
  have "length block \<le> length (rewritten le block)"
    using n0 n1 by (cases idl) (simp_all add: r cue_header_def, simp_all add: b(1))
  moreover have "rewritten le block = block \<longleftrightarrow> starts_with (cue_header le idl timing) block"
  proof
    assume "rewritten le block = block"
    then show "starts_with (cue_header le idl timing) block" using r by (metis starts_with_append)
  next
    assume "starts_with (cue_header le idl timing) block"
    then obtain q where q: "block = cue_header le idl timing @ q" by (auto simp: starts_with_iff)
    have "q = p"
    proof (cases idl)
      case None
      with q b(1) have "e1 @ p = le @ q" by (simp add: cue_header_def)
      with taken_eq[OF b(3) this assms(2)] show ?thesis by simp
    next
      case (Some i)
      with q b(1) have eq: "e0 @ timing @ e1 @ p = le @ timing @ le @ q" by (simp add: cue_header_def)
      have "e0 = le"
      proof (rule ccontr)
        assume "e0 \<noteq> le"
        with eq b(6) Some assms(2) obtain c where "e0 = [c]" "le = CRLF"
          by (auto simp: length_Suc_conv)
        with eq have "timing @ e1 @ p = 10 # timing @ le @ q" by simp
        with b(4) have "hd timing = 10" by (cases timing) auto
        with b(4,5) show False by (cases timing) (auto simp: line_break_def)
      qed
      with eq have "e1 @ p = le @ q" by simp
      with taken_eq[OF b(3) this assms(2)] show ?thesis by simp
    qed
    then show "rewritten le block = block" using q r by simp
  qed
  ultimately show ?thesis using c by simp
qed


lemma concat_grow:
  assumes "\<forall>x \<in> set xs. length (f x) \<le> length (g x)"
  shows "length (concat (map f xs)) \<le> length (concat (map g xs))
    \<and> (concat (map g xs) = concat (map f xs) \<longleftrightarrow> (\<forall>x \<in> set xs. g x = f x))"
  using assms
proof (induction xs)
  case (Cons x xs)
  then have ih: "length (concat (map f xs)) \<le> length (concat (map g xs))"
    "concat (map g xs) = concat (map f xs) \<longleftrightarrow> (\<forall>x \<in> set xs. g x = f x)" by simp_all
  have x: "length (f x) \<le> length (g x)" using Cons.prems by simp
  have "g x = f x \<and> concat (map g xs) = concat (map f xs)" if "g x @ concat (map g xs) = f x @ concat (map f xs)"
  proof -
    from arg_cong[OF that, of length] x ih(1) have "length (g x) = length (f x)" by simp
    with that show ?thesis by simp
  qed
  then have "(g x @ concat (map g xs) = f x @ concat (map f xs)) = (g x = f x \<and> concat (map g xs) = concat (map f xs))" by auto
  with x ih show ?case by simp
qed simp

lemma pieces_inside:
  assumes "(b, s) \<in> set (vtt_pieces t)" and "contains p b"
  shows "contains p t"
proof -
  from split_list[OF assms(1)] obtain xs ys where "vtt_pieces t = xs @ (b, s) # ys" by blast
  then have "t = concat (map (\<lambda>(b, s). b @ s) xs) @ b @ s @ concat (map (\<lambda>(b, s). b @ s) ys)"
    using pieces_join[of t] by simp
  with assms(2) show ?thesis unfolding contains_iff by (metis append.assoc)
qed

definition vtt_canonical :: "pystr \<Rightarrow> bool" where
  "vtt_canonical t \<longleftrightarrow> (\<forall>(block, sep) \<in> set (tl (vtt_pieces t)). canonical_cue (detect_le t) block)"

lemma vtt_exact: "write_vtt (read_vtt enc t) = Inr t \<longleftrightarrow> vtt_canonical t"
proof -
  obtain header sep rest where v: "vtt_pieces t = (header, sep) # rest"
    using pieces_nonempty[of t] by (metis list.exhaust surj_pair)
  define le where "le = detect_le t"
  let ?f = "\<lambda>(b, s). b @ s" and ?g = "\<lambda>(b, s). rewritten le b @ s"
  have one: "length (?f x) \<le> length (?g x) \<and> (?g x = ?f x \<longleftrightarrow> canonical_cue le (fst x))" if "x \<in> set rest" for x
  proof -
    obtain b s where x: "x = (b, s)" by fastforce
    with that v have "(b, s) \<in> set (vtt_pieces t)" by simp
    then have "le = (if contains CRLF b then CRLF else le)" using pieces_inside[of b s t CRLF] by (auto simp: le_def detect_le_def)
    moreover have "le \<in> {[10], CRLF}" by (simp add: le_def detect_le_def)
    ultimately have "length b \<le> length (rewritten le b) \<and> (rewritten le b = b \<longleftrightarrow> canonical_cue le b)"
      by (rule rewritten_iff)
    with x show ?thesis by simp
  qed
  have t: "t = header @ sep @ concat (map ?f rest)" using pieces_join[of t] v by simp
  have "write_vtt (read_vtt enc t) = Inr t \<longleftrightarrow> header @ sep @ concat (map ?g rest) = t"
    unfolding write_read_vtt[OF v] le_def by simp
  also have "\<dots> \<longleftrightarrow> concat (map ?g rest) = concat (map ?f rest)" by (subst t) simp
  also have "\<dots> \<longleftrightarrow> (\<forall>x \<in> set rest. ?g x = ?f x)" using concat_grow[of rest ?f ?g] one by simp
  also have "\<dots> \<longleftrightarrow> vtt_canonical t" using one v by (auto simp: vtt_canonical_def le_def)
  finally show ?thesis .
qed

interpretation vtt: subtitle_codec "\<lambda>t. Inr (read_vtt enc t)" write_vtt vtt_canonical
  for enc
  by unfold_locales (auto simp: vtt_exact)


section \<open>Properties\<close>

text \<open>
  C23: Reading a VTT file and writing the document back reproduces the file exactly when it is
  canonical: in every cue block the line ending of the document follows the identifier and the
  timing line. Everything else, the header, notes, styles, regions, malformed blocks, payloads
  and blank lines, comes back as it was, whatever it is.
\<close>

theorem vtt_roundtrip: "write_vtt (read_vtt enc t) = Inr t \<longleftrightarrow> vtt_canonical t"
  by (rule vtt_exact)

lemmas vtt_eval = read_vtt_def write_vtt_def vtt_pieces_def parse_vtt_block_def cue_lines_def has_arrow_def contains_def
  extract_payload_def after_line_def cue_header_def render_vtt_block_def VTT_TC_SPLIT_RE_def SEP_RE_def rblank_def rnl_def
  splitlines_def chop_eol_def ends_with_def line_break_def detect_le_def rx_eval

text \<open>
  A cue without payload at the end of a file grows: its timing line gets a line ending that
  the file does not have.
\<close>

theorem vtt_bare_timing_grows:
  "write_vtt (read_vtt enc (lit ''W'' @ [10, 10] @ lit ''0-->1'')) = Inr (lit ''W'' @ [10, 10] @ lit ''0-->1'' @ [10])"
  by (simp add: vtt_eval lit_def ascii_eval strip_def lstrip_def rstrip_def Let_def)

end
