(* ===== verification/Sub_Dispatch.thy ===== *)
theory Sub_Dispatch
  imports Ass_Codec Vtt_Codec
begin

text \<open>
  The choice of a codec by the extension of the file, \<open>trezarr/subtitles/dispatch.py\<close>, and what
  the three codecs promise together: the texts of each format that an unedited document gives back.
\<close>

definition SRT_SUFFIX :: pystr where "SRT_SUFFIX = lit ''.srt''"
definition ASS_SUFFIXES :: "pystr list" where "ASS_SUFFIXES = [lit ''.ass'', lit ''.ssa'']"
definition VTT_SUFFIX :: pystr where "VTT_SUFFIX = lit ''.vtt''"

definition read_subtitle :: "pystr \<Rightarrow> pystr \<Rightarrow> pystr \<Rightarrow> py_error + sub_doc" where
  "read_subtitle suffix enc t =
     (let s = lower suffix in
      if s = SRT_SUFFIX then Inr (read_srt enc t)
      else if s \<in> set ASS_SUFFIXES then read_ass enc t
      else if s = VTT_SUFFIX then Inr (read_vtt enc t)
      else Inl ValueError)"

definition write_subtitle :: "pystr \<Rightarrow> sub_doc \<Rightarrow> py_error + pystr" where
  "write_subtitle suffix d =
     (let s = lower suffix in
      if s = SRT_SUFFIX then Inr (write_srt d)
      else if s \<in> set ASS_SUFFIXES then write_ass d
      else if s = VTT_SUFFIX then write_vtt d
      else Inl ValueError)"

text \<open>The files of a format that its codec gives back.\<close>

definition reproducible :: "pystr \<Rightarrow> pystr \<Rightarrow> bool" where
  "reproducible suffix t \<longleftrightarrow>
     (let s = lower suffix in
      if s = SRT_SUFFIX then srt_canonical t else s = VTT_SUFFIX \<longrightarrow> vtt_canonical t)"

lemma suffixes_distinct: "SRT_SUFFIX \<notin> set ASS_SUFFIXES" "VTT_SUFFIX \<notin> set ASS_SUFFIXES" "SRT_SUFFIX \<noteq> VTT_SUFFIX" "VTT_SUFFIX \<noteq> SRT_SUFFIX"
  by (simp_all add: SRT_SUFFIX_def ASS_SUFFIXES_def VTT_SUFFIX_def lit_def)

interpretation dispatch: subtitle_codec "read_subtitle suffix enc" "write_subtitle suffix" "reproducible suffix"
  for suffix enc
proof
  fix t d
  assume r: "read_subtitle suffix enc t = Inr d" and f: "reproducible suffix t"
  note sub = read_subtitle_def write_subtitle_def reproducible_def Let_def suffixes_distinct
  consider "lower suffix = SRT_SUFFIX" | "lower suffix \<in> set ASS_SUFFIXES" | "lower suffix = VTT_SUFFIX"
    using r by (auto simp: read_subtitle_def Let_def split: if_splits)
  then show "write_subtitle suffix d = Inr t"
  proof cases
    case 1
    with r f srt.roundtrip[of enc t d] show ?thesis by (simp add: sub)
  next
    case 2
    with r f ass.roundtrip[of enc t d] suffixes_distinct show ?thesis by (auto simp: sub)
  next
    case 3
    with r f vtt.roundtrip[of enc t d] suffixes_distinct show ?thesis by (auto simp: sub)
  qed
qed

text \<open>
  C24: Whatever the format, a document that was not edited is written back as the text it was read
  from: always for ASS and SSA, for VTT and SRT when the headers of the cues are canonical.
\<close>

theorem subtitle_roundtrip:
  assumes "read_subtitle suffix enc t = Inr d" and "reproducible suffix t"
  shows "write_subtitle suffix d = Inr t"
  using assms by (rule dispatch.roundtrip)

lemma sample_suffix: "lower (lit ''.SRT'') = SRT_SUFFIX"
  by (simp add: lower_def SRT_SUFFIX_def lit_def ascii_eval)

theorem subtitle_roundtrip_witness:
  "\<exists>d. read_subtitle (lit ''.SRT'') (lit ''utf-8'') sample_srt = Inr d \<and> write_subtitle (lit ''.SRT'') d = Inr sample_srt"
proof -
  have "read_subtitle (lit ''.SRT'') (lit ''utf-8'') sample_srt = Inr (read_srt (lit ''utf-8'') sample_srt)"
    by (simp add: read_subtitle_def sample_suffix)
  moreover have "reproducible (lit ''.SRT'') sample_srt"
    by (simp add: reproducible_def sample_suffix sample_srt_canonical)
  ultimately show ?thesis using subtitle_roundtrip by blast
qed

end
