(* ===== verification/Sentinel.thy ===== *)
theory Sentinel
  imports Py_Regex "HOL-Library.List_Lexorder"
begin

text \<open>
  The inline-tag protection of \<open>trezarr/translate/sentinel.py\<close>: every tag of a cue is replaced
  by a numbered token before the text goes to the model, and the tags are put back in the
  model's answer. The main results are that an echoed text restores the source exactly, and
  that a restored text the code vouches for has no token left in it.
\<close>

definition TAG_RE :: rx where
  "TAG_RE = RGrp 1
     (RAlt (RSeq (rchr 60) (RSeq (rplus (RCls (\<lambda>c. c \<noteq> 62))) (rchr 62)))
     (RAlt (RSeq (rchr 123) (RSeq (rchr 92) (RSeq (rplus (RCls (\<lambda>c. c \<noteq> 125))) (rchr 125))))
           (RSeq (rchr 92) (RCls (\<lambda>c. c = 78 \<or> c = 110 \<or> c = 104)))))"

definition SENTINEL_RE :: rx where
  "SENTINEL_RE = RSeq (rstr (lit ''<<T'')) (RSeq (rplus (RCls is_digit)) (rstr (lit ''>>'')))"

definition sentinel_key :: "nat \<Rightarrow> pystr" where
  "sentinel_key n = lit ''<<T'' @ dec n @ lit ''>>''"

type_synonym sentinel_map = "(pystr \<times> pystr) list"

text \<open>The replacement callback: each match becomes the next key, and is recorded under it.\<close>

fun replace_tags :: "nat \<Rightarrow> (pystr \<times> pystr \<times> caps) list \<Rightarrow> pystr \<Rightarrow> pystr" where
  "replace_tags n [] rest = rest"
| "replace_tags n ((gap, m, g) # ps) rest = gap @ sentinel_key n @ replace_tags (Suc n) ps rest"

fun record_tags :: "nat \<Rightarrow> (pystr \<times> pystr \<times> caps) list \<Rightarrow> sentinel_map" where
  "record_tags n [] = []"
| "record_tags n ((gap, m, g) # ps) = (sentinel_key n, m) # record_tags (Suc n) ps"

definition extract_sentinels :: "pystr \<Rightarrow> pystr \<times> sentinel_map" where
  "extract_sentinels t =
     (let (ps, rest) = re_pieces TAG_RE t in (replace_tags 0 ps rest, record_tags 0 ps))"

text \<open>The tokens of a text that were never extracted, and their removal.\<close>

definition orphan_tokens :: "pystr \<Rightarrow> sentinel_map \<Rightarrow> pystr list" where
  "orphan_tokens t m = sort (remdups (filter (\<lambda>k. k \<notin> fst ` set m) (re_findall SENTINEL_RE t)))"

fun any_of :: "pystr list \<Rightarrow> rx" where
  "any_of [] = REps"
| "any_of [p] = rstr p"
| "any_of (p # q # ps) = RAlt (rstr p) (any_of (q # ps))"

definition strip_orphans :: "pystr \<Rightarrow> sentinel_map \<Rightarrow> pystr" where
  "strip_orphans t m =
     (let os = orphan_tokens t m
      in if os = [] then t
         else strip (re_sub (RSeq (RStar (RCls is_space)) (RSeq (any_of os) (RStar (RCls is_space)))) [32] t))"

fun reinsert_each :: "pystr \<Rightarrow> sentinel_map \<Rightarrow> pystr \<times> bool" where
  "reinsert_each t [] = (t, \<not> found SENTINEL_RE t)"
| "reinsert_each t ((k, v) # m) =
     (if \<not> contains k t then (t, False) else reinsert_each (replace_first k v t) m)"

definition reinsert_sentinels :: "pystr \<Rightarrow> sentinel_map \<Rightarrow> pystr \<times> bool" where
  "reinsert_sentinels t m = reinsert_each (strip_orphans t m) m"

section \<open>Gaps between tags hold no tag\<close>

lemma pieces_from_miss:
  "first_match r l s = Some (l', s', g) \<Longrightarrow> \<not> length s' < length s \<Longrightarrow> s = c # t \<Longrightarrow>
     pieces_from r l gap s = pieces_from r (c # l) (c # gap) t"
  by (subst pieces_from.simps) simp

lemma gaps_clean_from:
  assumes w: "w \<noteq> []"
    and hit: "\<And>l u. \<exists>l' s' g. first_match r l (w @ u) = Some (l', s', g) \<and> length s' < length (w @ u)"
    and inv: "\<And>a b. rev gap @ s = a @ w @ b \<Longrightarrow> length gap \<le> length a"
  shows "(\<forall>(x, m, g) \<in> set (fst (pieces_from r l gap s)). \<not> contains w x)
    \<and> \<not> contains w (snd (pieces_from r l gap s))"
  using hit inv
proof (induction r l gap s rule: pieces_from.induct)
  case (1 r l gap s)
  have clean: "\<not> contains w (rev gap)"
  proof
    assume "contains w (rev gap)"
    then obtain a b where ab: "rev gap = a @ w @ b" by (auto simp: contains_iff)
    then have "length gap \<le> length a" using "1.prems"(2)[of a "b @ s"] by simp
    moreover have "length gap = length a + length w + length b"
      using arg_cong[OF ab, of length] by simp
    ultimately show False using w by simp
  qed
  show ?case
  proof (cases s)
    case Nil
    with clean show ?thesis by simp
  next
    case (Cons c t)
    have skip: "length (c # gap) \<le> length a"
      if nw: "\<And>u. s \<noteq> w @ u" and "rev (c # gap) @ t = a @ w @ b" for a b
    proof (rule ccontr)
      from that(2) Cons have e: "rev gap @ s = a @ w @ b" by simp
      from "1.prems"(2)[OF e] have "length gap \<le> length a" .
      moreover assume "\<not> length (c # gap) \<le> length a"
      ultimately have "length a = length (rev gap)" by simp
      with e have "s = w @ b" by simp
      with nw show False by blast
    qed
    show ?thesis
    proof (cases "first_match r l s")
      case None
      have "s \<noteq> w @ u" for u using "1.prems"(1)[of l u] None by auto
      with 1(1)[OF Cons None "1.prems"(1)] skip show ?thesis using Cons None by (simp add: pieces_from_skip)
    next
      case (Some mr)
      obtain l' s' g where mr: "mr = (l', s', g)" by (cases mr) auto
      show ?thesis
      proof (cases "length s' < length s")
        case True
        have "length ([] :: pystr) \<le> length a" for a :: pystr by simp
        with 1(2)[OF Cons Some[unfolded mr] refl refl True "1.prems"(1)] clean show ?thesis
          unfolding pieces_from_hit[OF Some[unfolded mr] True, of gap] by simp
      next
        case False
        have "s \<noteq> w @ u" for u using "1.prems"(1)[of l u] Some mr False by auto
        with 1(3)[OF Cons Some[unfolded mr] refl refl False "1.prems"(1)] skip show ?thesis
          using Cons Some mr False pieces_from_miss[OF Some[unfolded mr] False Cons] by simp
      qed
    qed
  qed
qed

lemma gaps_clean:
  assumes "w \<noteq> []"
    and "\<And>l u. \<exists>l' s' g. first_match r l (w @ u) = Some (l', s', g) \<and> length s' < length (w @ u)"
  shows "(\<forall>(x, m, g) \<in> set (fst (re_pieces r s)). \<not> contains w x) \<and> \<not> contains w (snd (re_pieces r s))"
  unfolding re_pieces_def by (rule gaps_clean_from[OF assms]) auto

section \<open>Tokens\<close>

definition token :: "pystr \<Rightarrow> pystr" where
  "token ds = lit ''<<T'' @ ds @ lit ''>>''"

definition digits :: "pystr \<Rightarrow> bool" where
  "digits ds \<longleftrightarrow> ds \<noteq> [] \<and> (\<forall>c \<in> set ds. is_digit c)"

lemma token_chars: "token ds = 60 # 60 # 84 # ds @ [62, 62]"
  by (simp add: token_def lit_def)

lemma sentinel_key_token: "sentinel_key n = token (dec n)"
  by (simp add: sentinel_key_def token_def)

lemma digits_dec: "digits (dec n)"
  using dec_digits[of n] by (auto simp: digits_def ascii_digit_is_digit)

lemma digits_free: "digits ds \<Longrightarrow> 60 \<notin> set ds \<and> 62 \<notin> set ds"
  using is_digit_below_colon[of 60] is_digit_below_colon[of 62] by (force simp: digits_def)

lemma sentinel_rxm: "rxm SENTINEL_RE l w t \<longleftrightarrow> (\<exists>ds. digits ds \<and> w = token ds)"
  by (auto simp: SENTINEL_RE_def token_def digits_def rxm_seq)

lemma found_sentinel: "found SENTINEL_RE t \<longleftrightarrow> (\<exists>ds. digits ds \<and> contains (token ds) t)"
  by (auto simp: found_iff sentinel_rxm contains_iff)

lemma token_prefix:
  assumes "digits ds" "digits es" "token ds @ x = token es @ y"
  shows "ds = es"
proof -
  from assms(3) have "ds @ 62 # 62 # x = es @ 62 # 62 # y" by (simp add: token_chars)
  then have "takeWhile (\<lambda>c. c \<noteq> 62) (ds @ 62 # 62 # x) = takeWhile (\<lambda>c. c \<noteq> 62) (es @ 62 # 62 # y)" by simp
  moreover have "takeWhile (\<lambda>c. c \<noteq> 62) (zs @ 62 # u) = zs" if "digits zs" for zs u
    using digits_free[OF that] by (subst takeWhile_append2) auto
  ultimately show ?thesis using assms(1,2) by simp
qed

lemma append_eq_cases [consumes 1, case_names left right]:
  assumes "p @ q = r @ s"
  obtains u where "p = r @ u" and "u @ q = s" | u where "r = p @ u" and "u \<noteq> []" and "q = u @ s"
proof (cases "length r \<le> length p")
  case True
  with assms have "p = r @ drop (length r) p" "drop (length r) p @ q = s"
    by (auto simp: append_eq_append_conv_if split: if_splits)
       (metis append_take_drop_id assms append_eq_append_conv_if)+
  then show ?thesis by (rule that(1))
next
  case False
  with assms have "r = p @ drop (length p) r" "q = drop (length p) r @ s"
    by (auto simp: append_eq_append_conv_if split: if_splits)
       (metis append_take_drop_id)+
  moreover from False have "drop (length p) r \<noteq> []" by simp
  ultimately show ?thesis using that(2) by blast
qed

text \<open>A token cannot overlap another one.\<close>

lemma token_border:
  assumes "digits ds" "token ds = u @ v" "u \<noteq> []" "v \<noteq> []" "v @ x = token es @ y"
  shows False
proof -
  from assms(2-4) obtain u' where u: "u = 60 # u'" "60 # 84 # ds @ [62, 62] = u' @ v"
    by (cases u) (auto simp: token_chars)
  show False
  proof (cases u')
    case Nil
    with u(2) have "v = 60 # 84 # ds @ [62, 62]" by simp
    with assms(5) show False by (simp add: token_chars)
  next
    case (Cons c u'')
    with u(2) have e: "84 # ds @ [62, 62] = u'' @ v" by simp
    from assms(4,5) have "60 \<in> set v" by (cases v) (auto simp: token_chars)
    with e have "60 \<in> set (84 # ds @ [62, 62])" by simp
    with digits_free[OF assms(1)] show False by simp
  qed
qed

lemma token_occurrence:
  assumes ds: "digits ds" and es: "digits es" and e: "x @ token es @ r = a @ token ds @ b"
  shows "(\<exists>b'. x = a @ token ds @ b') \<or> (a = x \<and> ds = es) \<or> (\<exists>a'. r = a' @ token ds @ b)"
proof -
  from e consider (before) u where "x = a @ u" "u \<noteq> []" "u @ token es @ r = token ds @ b"
    | (at) "x = a" "token es @ r = token ds @ b"
    | (after) u where "a = x @ u" "u \<noteq> []" "token es @ r = u @ token ds @ b"
    by (cases rule: append_eq_cases) (metis append_Nil append_Nil2)+
  then show ?thesis
  proof cases
    case before
    from before(3) consider (inside) v where "u = token ds @ v"
      | (straddle) v where "token ds = u @ v" "v \<noteq> []" "v @ b = token es @ r"
      by (cases rule: append_eq_cases) metis+
    then show ?thesis
    proof cases
      case inside
      with before(1) show ?thesis by auto
    next
      case straddle
      from token_border[OF ds straddle(1) before(2) straddle(2,3)] show ?thesis by simp
    qed
  next
    case at
    with token_prefix[OF es ds at(2)] show ?thesis by simp
  next
    case after
    from after(3) consider (outside) v where "u = token es @ v" "r = v @ token ds @ b"
      | (straddle) v where "token es = u @ v" "v \<noteq> []" "v @ r = token ds @ b"
      by (cases rule: append_eq_cases) (metis append_Nil append_Nil2)+
    then show ?thesis
    proof cases
      case outside
      then show ?thesis by blast
    next
      case straddle
      from token_border[OF es straddle(1) after(2) straddle(2,3)] show ?thesis by simp
    qed
  qed
qed


section \<open>What the model sees, and what is restored\<close>

lemma tag_hit:
  assumes "digits ds"
  shows "\<exists>l' s' g. first_match TAG_RE l (token ds @ u) = Some (l', s', g) \<and> length s' < length (token ds @ u)"
proof -
  have "rxm TAG_RE l (60 # 60 # 84 # ds @ [62]) (62 # u)"
    using digits_free[OF assms] by (fastforce simp: TAG_RE_def rxm_seq)
  then have "first_match TAG_RE l (token ds @ u) \<noteq> None"
    by (auto simp: first_match_None token_chars)
      (metis append_Cons append_Nil append_assoc)
  then obtain l' s' g where m: "first_match TAG_RE l (token ds @ u) = Some (l', s', g)" by auto
  from first_match_Some[OF m] obtain w where w: "token ds @ u = w @ s'" "rxm TAG_RE l w s'" by blast
  then have "w \<noteq> []" by (auto simp: TAG_RE_def rxm_seq)
  then have "length s' < length (token ds @ u)" unfolding w(1) by simp
  with m show ?thesis by blast
qed

lemma tag_gaps:
  "digits ds \<Longrightarrow> (\<forall>(x, m, g) \<in> set (fst (re_pieces TAG_RE t)). \<not> contains (token ds) x)
     \<and> \<not> contains (token ds) (snd (re_pieces TAG_RE t))"
  by (rule gaps_clean[OF _ tag_hit]) (simp_all add: token_chars)

lemma replaced_tokens:
  assumes "digits ds" and "\<forall>(x, m, g) \<in> set ps. \<not> contains (token ds) x"
    and "\<not> contains (token ds) rest" and "contains (token ds) (replace_tags n ps rest)"
  shows "token ds \<in> fst ` set (record_tags n ps)"
  using assms(2-4)
proof (induction n ps rest rule: replace_tags.induct)
  case (2 n gap m g ps rest)
  then obtain a b where e: "gap @ token (dec n) @ replace_tags (Suc n) ps rest = a @ token ds @ b"
    by (auto simp: contains_iff sentinel_key_token)
  from token_occurrence[OF assms(1) digits_dec e]
  consider "contains (token ds) gap" | "ds = dec n" | "contains (token ds) (replace_tags (Suc n) ps rest)"
    by (auto simp: contains_iff)
  then show ?case using 2 by cases (auto simp: sentinel_key_token)
qed simp

lemma extracted_no_orphans:
  assumes "extract_sentinels t = (c, m)"
  shows "strip_orphans c m = c"
proof -
  obtain ps rest where p: "re_pieces TAG_RE t = (ps, rest)" by fastforce
  with assms have c: "c = replace_tags 0 ps rest" and m: "m = record_tags 0 ps"
    by (auto simp: extract_sentinels_def)
  have "k \<in> fst ` set m" if k: "k \<in> set (re_findall SENTINEL_RE c)" for k
  proof -
    from findall_matches[OF k] obtain a b ds where "c = a @ k @ b" "digits ds" "k = token ds"
      by (auto simp: sentinel_rxm)
    moreover from this(1,3) c have "contains (token ds) (replace_tags 0 ps rest)"
      by (auto simp: contains_iff)
    ultimately show ?thesis using tag_gaps[of ds t] p replaced_tokens[of ds ps rest 0] m by simp
  qed
  then have "filter (\<lambda>k. k \<notin> fst ` set m) (re_findall SENTINEL_RE c) = []"
    by (simp add: filter_empty_conv)
  then have "orphan_tokens c m = []" unfolding orphan_tokens_def by simp
  then show ?thesis by (simp add: strip_orphans_def)
qed

lemma find_first_token:
  assumes "digits ds" and "\<not> contains (token ds) x"
  shows "find_sub (token ds) (x @ token ds @ r) = Some (length x)"
proof -
  let ?s = "x @ token ds @ r"
  have "contains (token ds) ?s" by (auto simp: contains_iff)
  then obtain n where n: "find_sub (token ds) ?s = Some n" by (auto simp: contains_def)
  from find_sub_least[OF n refl] have le: "n \<le> length x" .
  from find_sub_Some[OF n] obtain p b where b: "?s = p @ token ds @ b" and p: "p = take n ?s" by blast
  from token_occurrence[OF assms(1,1) b] assms(2) consider "p = x"
    | a' where "r = a' @ token ds @ b" unfolding contains_iff by metis
  then have "length x \<le> n"
  proof cases
    case 1
    then show ?thesis unfolding p by (metis length_take min.cobounded2)
  next
    case 2
    with arg_cong[OF b, of length] have "length p = length x + length (token ds) + length a'" by simp
    then show ?thesis unfolding p by simp
  qed
  with le n show ?thesis by simp
qed

lemma contains_prefix: "contains p s \<Longrightarrow> contains p (s @ t)"
  unfolding contains_iff by (metis append.assoc)

lemma reinsert_restores:
  assumes "\<And>ds. digits ds \<Longrightarrow> \<not> contains (token ds) (x @ rejoin (ps, rest))"
  shows "reinsert_each (x @ replace_tags n ps rest) (record_tags n ps) = (x @ rejoin (ps, rest), True)"
  using assms
proof (induction n ps rest arbitrary: x rule: replace_tags.induct)
  case (1 n rest)
  then show ?case by (auto simp: found_sentinel)
next
  case (2 n gap m g ps rest)
  let ?s = "x @ gap @ token (dec n) @ replace_tags (Suc n) ps rest"
  have "\<not> contains (token (dec n)) (x @ gap)"
    using "2.prems"[OF digits_dec[of n]] contains_prefix[of "token (dec n)" "x @ gap" "m @ rejoin (ps, rest)"]
    by auto
  from find_first_token[OF digits_dec this]
  have "find_sub (token (dec n)) ?s = Some (length (x @ gap))" by simp
  then have f: "contains (token (dec n)) ?s"
    and r: "replace_first (token (dec n)) m ?s = (x @ gap @ m) @ replace_tags (Suc n) ps rest"
    using replace_first_at[of ?s "x @ gap" "token (dec n)" "replace_tags (Suc n) ps rest" m]
    by (auto simp: contains_def)
  have "reinsert_each ((x @ gap @ m) @ replace_tags (Suc n) ps rest) (record_tags (Suc n) ps)
      = ((x @ gap @ m) @ rejoin (ps, rest), True)"
    by (rule "2.IH") (use "2.prems" in simp)
  then show ?case using f r by (simp add: sentinel_key_token)
qed

lemma tags_restored:
  assumes "\<not> found SENTINEL_RE t"
  shows "(let (c, m) = extract_sentinels t in reinsert_sentinels c m) = (t, True)"
proof -
  obtain ps rest where p: "re_pieces TAG_RE t = (ps, rest)" by fastforce
  have e: "extract_sentinels t = (replace_tags 0 ps rest, record_tags 0 ps)"
    by (simp add: extract_sentinels_def p)
  have t: "rejoin (ps, rest) = t" using rejoin_pieces[of TAG_RE t] p by simp
  have "reinsert_each ([] @ replace_tags 0 ps rest) (record_tags 0 ps) = ([] @ rejoin (ps, rest), True)"
    by (rule reinsert_restores) (use assms t in \<open>auto simp: found_sentinel\<close>)
  then show ?thesis using extracted_no_orphans[OF e] t by (simp add: e reinsert_sentinels_def)
qed

section \<open>Properties\<close>

text \<open>
  Protecting a cue's tags and putting them back in the unchanged text restores the cue,
  with the integrity flag set, for every source text that does not itself contain something
  shaped like a token.
\<close>

theorem sentinel_roundtrip:
  assumes "\<not> found SENTINEL_RE t"
  shows "(let (c, m) = extract_sentinels t in reinsert_sentinels c m) = (t, True)"
  using assms by (rule tags_restored)

definition sample_tagged :: pystr where
  "sample_tagged = lit ''<i>a</i>'' @ [92, 78] @ lit ''b''"

lemmas sentinel_eval = SENTINEL_RE_def TAG_RE_def rx_eval lit_def ascii_eval dec.simps sentinel_key_def
  extract_sentinels_def Let_def

lemma sample_tagged_plain: "\<not> found SENTINEL_RE sample_tagged"
  by (simp add: sample_tagged_def sentinel_eval)

theorem sentinel_roundtrip_witness:
  "(let (c, m) = extract_sentinels sample_tagged in reinsert_sentinels c m) = (sample_tagged, True)"
  using sentinel_roundtrip[OF sample_tagged_plain] .


lemma reinsert_each_ok: "reinsert_each t m = (out, True) \<Longrightarrow> \<not> found SENTINEL_RE out"
  by (induction t m rule: reinsert_each.induct) (auto split: if_splits)

text \<open>
  A text vouched for after reinsertion carries no token any more, so the document gate's
  sentinel check agrees with it; and it can only be vouched for when the first extracted tag
  came back.
\<close>

theorem reinsert_ok:
  assumes "reinsert_sentinels t m = (out, True)"
  shows "\<not> found SENTINEL_RE out \<and> (m \<noteq> [] \<longrightarrow> contains (fst (hd m)) (strip_orphans t m))"
proof
  from assms show "\<not> found SENTINEL_RE out"
    unfolding reinsert_sentinels_def by (rule reinsert_each_ok)
  from assms show "m \<noteq> [] \<longrightarrow> contains (fst (hd m)) (strip_orphans t m)"
    by (cases m) (auto simp: reinsert_sentinels_def split: if_splits)
qed

definition sample_answer :: pystr where
  "sample_answer = lit ''<<T0>> c <<T7>>''"

lemma sample_answer_restored: "reinsert_sentinels sample_answer [(sentinel_key 0, lit ''<i>'')] = (lit ''<i> c'', True)"
  by (simp add: sample_answer_def reinsert_sentinels_def strip_orphans_def orphan_tokens_def sentinel_eval
      strip_def lstrip_def rstrip_def contains_def replace_first_def)

theorem reinsert_ok_witness:
  "\<not> found SENTINEL_RE (lit ''<i> c'') \<and> contains (sentinel_key 0) (strip_orphans sample_answer [(sentinel_key 0, lit ''<i>'')])"
  using reinsert_ok[OF sample_answer_restored] by simp

end
