(* ===== verification/Gate.thy ===== *)
theory Gate
  imports Sub_Model Timecode Sentinel
begin

text \<open>
  The pre-write gate of \<open>trezarr/translate/validate.py\<close>: twelve checks on a translated
  document against its source. A check that fails stops the gate with its number and the
  failing cue positions; the per-cue leak checks collect every failing cue first. The message
  texts are not modelled. The Vietnamese ratio threshold is a fraction of naturals.
\<close>

section \<open>The patterns\<close>

definition vn_diacritic :: "pychar \<Rightarrow> bool" where
  "vn_diacritic c \<longleftrightarrow> 7680 \<le> c \<and> c \<le> 7935 \<or> c = 416 \<or> c = 417 \<or> c = 431 \<or> c = 432"

definition VN_DIACRITIC_RE :: rx where
  "VN_DIACRITIC_RE = RCls vn_diacritic"

definition ALLOWLIST_RE :: rx where
  "ALLOWLIST_RE = RSeq rbos (RSeq (rplus (RCls (\<lambda>c. \<not> is_word c \<or> is_digit c \<or> is_space c
     \<or> c = 9834 \<or> c = 9835 \<or> c = 8230 \<or> c = 46))) reos)"

definition SENTINEL_ONLY_RE :: rx where
  "SENTINEL_ONLY_RE = RSeq rbos (RSeq (RStar (RGrp 1 (RSeq SENTINEL_RE (RStar (RCls is_space))))) reos)"

definition rspaces :: rx where
  "rspaces = RStar (RCls is_space)"

definition rspaces1 :: rx where
  "rspaces1 = rplus (RCls is_space)"

definition REVIEW_SCAFFOLD_RE :: rx where
  "REVIEW_SCAFFOLD_RE = RSeq (rchr 40) (RSeq rspaces (RSeq (ristr (lit ''source'')) (RSeq rspaces (rchr 58))))"

definition HINT_SCAFFOLD_RE :: rx where
  "HINT_SCAFFOLD_RE = RSeq (rchr 40) (RSeq rspaces (RSeq (ristr (lit ''speaker'')) (RSeq rspaces1
     (RSeq (ristr (lit ''says'')) (RSeq rspaces (rchr 58))))))"

definition VN_HINT_SCAFFOLD_RE :: rx where
  "VN_HINT_SCAFFOLD_RE = RSeq (RCls (\<lambda>c. c = 40 \<or> c = 91)) (RSeq rspaces
     (RSeq (RStar (RCls (\<lambda>c. c \<noteq> 40 \<and> c \<noteq> 41 \<and> c \<noteq> 91 \<and> c \<noteq> 93)))
       (RSeq (ristr [120, 432, 110, 103]) (RSeq rspaces1 (RSeq (ristr [104, 244])
         (RSeq rspaces (RCls (\<lambda>c. c = 58 \<or> c = 65306))))))))"

definition CORRECTION_DIRECTIVE_RE :: rx where
  "CORRECTION_DIRECTIVE_RE = RSeq (rchr 91) (RSeq rspaces (RSeq (ristr (lit ''correction''))
     (RSeq rspaces1 (RSeq (ristr (lit ''required'')) (RSeq rspaces (rchr 93))))))"

definition ATTRIBUTION_META_RE :: rx where
  "ATTRIBUTION_META_RE = RSeq (rchr 40) (RSeq rspaces
     (RAlt (RSeq (ristr (lit ''no'')) (RSeq rspaces1 (ristr (lit ''violation''))))
           (RSeq (ristr (lit ''correct'')) (RSeq rspaces (rchr 59)))))"

definition UNCLOSED_SENTINEL_RE :: rx where
  "UNCLOSED_SENTINEL_RE =
     RAlt (RSeq (rstr (lit ''<<T'')) (RSeq (rplus (RCls is_digit)) (rnot_ahead (lit ''>>''))))
          (RSeq (rstr (lit ''&lt;&lt;T'')) (rplus (RCls is_digit)))"

text \<open>The lower end of the third range is the unified ideograph U+8C48, as in the source.\<close>

definition cjk_char :: "pychar \<Rightarrow> bool" where
  "cjk_char c \<longleftrightarrow> 19968 \<le> c \<and> c \<le> 40959 \<or> 13312 \<le> c \<and> c \<le> 19903 \<or> 35912 \<le> c \<and> c \<le> 64255
     \<or> 65280 \<le> c \<and> c \<le> 65519 \<or> 44032 \<le> c \<and> c \<le> 55203 \<or> 4352 \<le> c \<and> c \<le> 4607
     \<or> 12352 \<le> c \<and> c \<le> 12543"

definition CJK_LEAK_RE :: rx where
  "CJK_LEAK_RE = RCls cjk_char"

definition ascii_letter :: "pychar \<Rightarrow> bool" where
  "ascii_letter c \<longleftrightarrow> 65 \<le> c \<and> c \<le> 90 \<or> 97 \<le> c \<and> c \<le> 122"

definition ASCII_WORD_RE :: rx where
  "ASCII_WORD_RE = RSeq (RCls ascii_letter) (rplus (RCls ascii_letter))"

definition INTERJECTION_TOKENS :: "pystr list" where
  "INTERJECTION_TOKENS = [
    lit ''ha'', lit ''haha'', lit ''hahaha'', lit ''hah'', lit ''heh'', lit ''hehe'',
    lit ''hmm'', lit ''hm'', lit ''mmm'', lit ''mm'', lit ''uh'', lit ''uhh'', lit ''ah'',
    lit ''ahh'', lit ''oh'', lit ''ohh'', lit ''eh'', lit ''ehh'', lit ''oho'', lit ''huh'',
    lit ''hum'', lit ''wow'', lit ''ooh'', lit ''aha'', lit ''hey'', lit ''yay'', lit ''ow'',
    lit ''ugh'', lit ''phew'', lit ''psst'', lit ''shh'', lit ''ho'', lit ''hoho'',
    lit ''hohoho'', lit ''hee'', lit ''heehee'', lit ''haw'', lit ''har'', lit ''tee'',
    lit ''teehee'', lit ''woo'', lit ''yoo'', lit ''boo'', lit ''grr'', lit ''brr'',
    lit ''argh'', lit ''aah'', lit ''hah'']"

definition HONORIFIC_CAPNAME_RE :: rx where
  "HONORIFIC_CAPNAME_RE = RSeq rwordb (RSeq
     (any_of [lit ''Mr'', lit ''Mrs'', lit ''Ms'', lit ''Miss'', lit ''Sir'', lit ''Elder'', lit ''Brother'',
       lit ''Sister'', lit ''Master'', lit ''Lord'', lit ''Lady''])
     (RSeq rwordb (RSeq (ropt (rchr 46)) (RSeq rspaces1
       (RSeq (RCls (\<lambda>c. 65 \<le> c \<and> c \<le> 90)) (rplus (RCls (\<lambda>c. 97 \<le> c \<and> c \<le> 122))))))))"

definition LATIN_DIACRITIC_RE :: rx where
  "LATIN_DIACRITIC_RE = RCls (\<lambda>c. 192 \<le> c \<and> c \<le> 591 \<or> 7680 \<le> c \<and> c \<le> 7935 \<or> 768 \<le> c \<and> c \<le> 879)"

definition no_paren :: "pychar \<Rightarrow> bool" where
  "no_paren c \<longleftrightarrow> c \<noteq> 40 \<and> c \<noteq> 41"

definition GLOSS_PAREN_RE :: rx where
  "GLOSS_PAREN_RE = RSeq (rchr 40) (RSeq (RGrp 1 (RSeq (RStar (RCls no_paren))
     (RSeq (RCls ascii_letter) (RStar (RCls no_paren))))) (rchr 41))"

fun any_ci :: "pystr list \<Rightarrow> rx" where
  "any_ci [] = REps"
| "any_ci [p] = ristr p"
| "any_ci (p # q # ps) = RAlt (ristr p) (any_ci (q # ps))"

definition english_credit :: rx where
  "english_credit = RSeq rwordb (RSeq
     (any_ci [lit ''translated'', lit ''translation'', lit ''subtitled'', lit ''subtitles'', lit ''subbed'',
       lit ''sub'', lit ''synced'', lit ''encoded'', lit ''ripped''])
     (RSeq (ristr (lit '' by'')) rwordb))"

definition vn_credits :: "pystr list" where
  "vn_credits = [
   [100, 7883, 99, 104, 32, 98, 7903, 105],
   [112, 104, 7909, 32, 273, 7873],
   [98, 105, 234, 110, 32, 100, 7883, 99, 104],
   [110, 103, 432, 7901, 105, 32, 100, 7883, 99, 104],
   [104, 105, 7879, 117, 32, 273, 237, 110, 104],
   [118, 105, 101, 116, 115, 117, 98],
   [100, 7883, 99, 104, 32, 116, 104, 117, 7853, 116]]"

definition cjk_credits :: "pystr list" where
  "cjk_credits = [
   [23383, 24149, 32068],
   [23383, 24149, 32452],
   [23383, 24149],
   [32763, 35695],
   [32763, 35793],
   [26657, 23565],
   [26657, 23545],
   [26178, 38291, 36600],
   [26102, 38388, 36724],
   [22739, 21046],
   [21387, 21046],
   [21518, 26399]]"

definition CREDIT_SRC_RE :: rx where
  "CREDIT_SRC_RE = RAlt english_credit (any_ci (vn_credits @ cjk_credits))"

definition CREDIT_TRN_RE :: rx where
  "CREDIT_TRN_RE = RAlt english_credit (any_ci vn_credits)"

definition CJK_CREDIT_EXEMPT_MAX_CJK :: nat where
  "CJK_CREDIT_EXEMPT_MAX_CJK = 8"

definition is_credit_fansub_cue :: "pystr \<Rightarrow> pystr \<Rightarrow> bool" where
  "is_credit_fansub_cue src trn =
     (if \<not> found CREDIT_SRC_RE src \<and> \<not> found CREDIT_TRN_RE trn then False
      else length (re_findall CJK_LEAK_RE trn) \<le> CJK_CREDIT_EXEMPT_MAX_CJK)"

section \<open>The checks\<close>

record gate_failure =
  gf_check :: nat
  gf_indices :: "nat list option"

record gate_settings =
  ratio_num :: nat
  ratio_den :: nat

definition fail_at :: "nat \<Rightarrow> nat option \<Rightarrow> gate_failure option" where
  "fail_at n i = map_option (\<lambda>j. \<lparr>gf_check = n, gf_indices = Some [j]\<rparr>) i"

definition check_count :: "sub_doc \<Rightarrow> sub_doc \<Rightarrow> gate_failure option" where
  "check_count trn src =
     (if length (doc_lines trn) \<noteq> length (doc_lines src) then Some \<lparr>gf_check = 1, gf_indices = None\<rparr> else None)"

definition empty_cue :: "sub_line \<Rightarrow> bool" where
  "empty_cue sl \<longleftrightarrow> \<not> is_raw sl \<and> strip (sl_text sl) = []"

definition check_nonempty :: "sub_doc \<Rightarrow> gate_failure option" where
  "check_nonempty trn = fail_at 2 (find_index empty_cue (doc_lines trn))"

text \<open>Check 3: the translatable cues, and the share of them with a Vietnamese diacritic.\<close>

definition translatable :: "sub_line \<Rightarrow> bool" where
  "translatable sl \<longleftrightarrow> \<not> is_raw sl \<and> (let t = strip (sl_text sl) in
     t \<noteq> [] \<and> re_match ALLOWLIST_RE t = None \<and> re_match SENTINEL_ONLY_RE t = None)"

definition has_vn :: "sub_line \<Rightarrow> bool" where
  "has_vn sl \<longleftrightarrow> found VN_DIACRITIC_RE (strip (sl_text sl))"

definition check_untranslated :: "gate_settings \<Rightarrow> sub_doc \<Rightarrow> sub_doc \<Rightarrow> gate_failure option" where
  "check_untranslated cfg trn src =
     (let lines = map fst (zip (doc_lines trn) (doc_lines src));
          idx = indices_where translatable lines;
          vi_count = length (filter (\<lambda>i. has_vn (lines ! i)) idx)
      in if idx = [] then None
         else if vi_count * ratio_den cfg < ratio_num cfg * length idx then
           Some \<lparr>gf_check = 3, gf_indices = Some (filter (\<lambda>i. \<not> has_vn (doc_lines trn ! i)) idx)\<rparr>
         else None)"

definition header_mutated :: "sub_line \<times> sub_line \<Rightarrow> bool" where
  "header_mutated p \<longleftrightarrow> (let (src, trn) = p in
     sl_index src \<noteq> sl_index trn \<or> sl_start src \<noteq> sl_start trn \<or> sl_end src \<noteq> sl_end trn)"

definition check_headers :: "sub_doc \<Rightarrow> sub_doc \<Rightarrow> gate_failure option" where
  "check_headers trn src = fail_at 4 (find_index header_mutated (zip (doc_lines src) (doc_lines trn)))"

definition timing_altered :: "sub_line \<times> sub_line \<Rightarrow> bool" where
  "timing_altered p \<longleftrightarrow> (let (trn, src) = p in
     tc_to_ms (sl_start trn) \<noteq> tc_to_ms (sl_start src) \<or> tc_to_ms (sl_end trn) \<noteq> tc_to_ms (sl_end src))"

definition check_timing_preserved :: "sub_doc \<Rightarrow> sub_doc \<Rightarrow> gate_failure option" where
  "check_timing_preserved trn src = fail_at 5 (find_index timing_altered (zip (doc_lines trn) (doc_lines src)))"

definition orphan_sentinel :: "pystr \<Rightarrow> bool" where
  "orphan_sentinel t \<longleftrightarrow> found SENTINEL_RE t \<or> found UNCLOSED_SENTINEL_RE t"

definition check_sentinels :: "sub_doc \<Rightarrow> gate_failure option" where
  "check_sentinels trn = fail_at 6 (find_index (\<lambda>sl. orphan_sentinel (sl_text sl)) (doc_lines trn))"

text \<open>Encoding to UTF-8 fails on a surrogate and on nothing else.\<close>

definition utf8_encodable :: "pystr \<Rightarrow> bool" where
  "utf8_encodable t \<longleftrightarrow> (\<forall>c \<in> set t. \<not> (55296 \<le> c \<and> c \<le> 57343))"

definition check_utf8 :: "sub_doc \<Rightarrow> gate_failure option" where
  "check_utf8 trn = fail_at 7 (find_index (\<lambda>sl. \<not> utf8_encodable (sl_text sl)) (doc_lines trn))"

definition scaffold_leak :: "pystr \<Rightarrow> bool" where
  "scaffold_leak t \<longleftrightarrow> found REVIEW_SCAFFOLD_RE t \<or> found HINT_SCAFFOLD_RE t \<or> found VN_HINT_SCAFFOLD_RE t
     \<or> found CORRECTION_DIRECTIVE_RE t \<or> found ATTRIBUTION_META_RE t"

definition check_scaffold :: "sub_doc \<Rightarrow> gate_failure option" where
  "check_scaffold trn = fail_at 8 (find_index (\<lambda>sl. scaffold_leak (sl_text sl)) (doc_lines trn))"

text \<open>One match of a parenthetical, and whether it is an English gloss.\<close>

definition is_gloss :: "caps \<Rightarrow> bool" where
  "is_gloss g \<longleftrightarrow> (let inner = strip (Py_Regex.group g 1) in
     3 \<le> length inner \<and> \<not> found LATIN_DIACRITIC_RE inner
     \<and> (contains [39, 115] inner \<or> contains [8217, 115] inner \<or> found HONORIFIC_CAPNAME_RE inner))"

definition word_in :: "pystr \<Rightarrow> pystr \<Rightarrow> bool" where
  "word_in tok t \<longleftrightarrow> found (RSeq rwordb (RSeq (rstr tok) rwordb)) t"

definition passthrough_leak :: "pystr set \<Rightarrow> pystr \<Rightarrow> pystr \<Rightarrow> bool" where
  "passthrough_leak allowlist src text \<longleftrightarrow>
     \<not> found VN_DIACRITIC_RE text
     \<and> re_match ALLOWLIST_RE text = None \<and> re_match SENTINEL_ONLY_RE text = None
     \<and> (let tokens = re_findall ASCII_WORD_RE text in
          2 \<le> length tokens
          \<and> \<not> (\<forall>t \<in> set (map lower tokens). t \<in> set INTERJECTION_TOKENS)
          \<and> (\<forall>t \<in> set tokens. word_in (lower t) (lower src))
          \<and> \<not> (\<forall>t \<in> set tokens. lower t \<in> allowlist))"

text \<open>The number of the leak check a cue fails, in the order the loop tries them.\<close>

definition cue_leak :: "pystr set \<Rightarrow> sub_line \<times> sub_line \<Rightarrow> nat option" where
  "cue_leak allowlist p =
     (let (src, trn) = p; text = strip (sl_text trn) in
      if is_raw trn then None
      else if text = [] then None
      else if found CJK_LEAK_RE text then
        (if is_credit_fansub_cue (sl_text src) text then None else Some 9)
      else if \<exists>g \<in> set (re_finditer GLOSS_PAREN_RE text). is_gloss g then Some 12
      else if found HONORIFIC_CAPNAME_RE text then Some 11
      else if passthrough_leak allowlist (sl_text src) text then Some 10
      else None)"

definition leaks_of :: "nat \<Rightarrow> pystr set \<Rightarrow> sub_doc \<Rightarrow> sub_doc \<Rightarrow> nat list" where
  "leaks_of n allowlist trn src =
     indices_where (\<lambda>p. cue_leak allowlist p = Some n) (zip (doc_lines src) (doc_lines trn))"

fun first_leak :: "nat list \<Rightarrow> pystr set \<Rightarrow> sub_doc \<Rightarrow> sub_doc \<Rightarrow> gate_failure option" where
  "first_leak [] allowlist trn src = None"
| "first_leak (n # ns) allowlist trn src =
     (let fs = leaks_of n allowlist trn src in
      if fs \<noteq> [] then Some \<lparr>gf_check = n, gf_indices = Some fs\<rparr> else first_leak ns allowlist trn src)"

definition check_leaks :: "pystr set option \<Rightarrow> sub_doc \<Rightarrow> sub_doc \<Rightarrow> gate_failure option" where
  "check_leaks names trn src =
     (let allowlist = lower ` (case names of None \<Rightarrow> {} | Some s \<Rightarrow> s)
      in first_leak [9, 11, 12, 10] allowlist trn src)"

section \<open>The gate\<close>

text \<open>The first check that fails.\<close>

fun first_failure :: "gate_failure option list \<Rightarrow> gate_failure option" where
  "first_failure [] = None"
| "first_failure (None # cs) = first_failure cs"
| "first_failure (Some f # cs) = Some f"

definition structural_checks :: "gate_settings \<Rightarrow> sub_doc \<Rightarrow> sub_doc \<Rightarrow> gate_failure option list" where
  "structural_checks cfg trn src =
     [check_count trn src, check_nonempty trn, check_untranslated cfg trn src, check_headers trn src,
      check_timing_preserved trn src, check_sentinels trn, check_utf8 trn, check_scaffold trn]"

definition validate_subdoc ::
  "gate_settings \<Rightarrow> pystr set option \<Rightarrow> sub_doc \<Rightarrow> sub_doc \<Rightarrow> gate_failure option" where
  "validate_subdoc cfg names trn src =
     first_failure (structural_checks cfg trn src @ [check_leaks names trn src])"

section \<open>When the gate passes\<close>

lemma fail_at_None [simp]: "fail_at n i = None \<longleftrightarrow> i = None"
  by (simp add: fail_at_def)

lemma fail_at_check: "Some f = fail_at n i \<Longrightarrow> gf_check f = n"
  by (cases i) (simp_all add: fail_at_def)

lemma first_failure_None: "first_failure cs = None \<longleftrightarrow> (\<forall>c \<in> set cs. c = None)"
  by (induction cs rule: first_failure.induct) auto

lemma first_failure_append:
  "first_failure (cs @ ds) = (case first_failure cs of None \<Rightarrow> first_failure ds | Some f \<Rightarrow> Some f)"
  by (induction cs rule: first_failure.induct) auto

lemma first_failure_mem: "first_failure cs = Some f \<Longrightarrow> Some f \<in> set cs"
  by (induction cs rule: first_failure.induct) auto

lemma first_leak_None:
  "first_leak ns al trn src = None \<longleftrightarrow> (\<forall>n \<in> set ns. leaks_of n al trn src = [])"
  by (induction ns) (auto simp: Let_def)

lemma leaks_of_Nil:
  "leaks_of n al trn src = [] \<longleftrightarrow> (\<forall>p \<in> set (zip (doc_lines src) (doc_lines trn)). cue_leak al p \<noteq> Some n)"
  by (simp add: leaks_of_def indices_where_Nil)

lemma cue_leak_range: "cue_leak al p = Some n \<Longrightarrow> n \<in> {9, 10, 11, 12}"
  by (auto simp: cue_leak_def Let_def split: prod.splits if_splits)

text \<open>The names handed to the gate, in lower case.\<close>

definition allow_set :: "pystr set option \<Rightarrow> pystr set" where
  "allow_set names = lower ` (case names of None \<Rightarrow> {} | Some s \<Rightarrow> s)"

lemma check_leaks_None:
  "check_leaks names trn src = None \<longleftrightarrow>
     (\<forall>p \<in> set (zip (doc_lines src) (doc_lines trn)). cue_leak (allow_set names) p = None)"
proof -
  have "(\<forall>n \<in> {9, 11, 12, 10}. cue_leak al p \<noteq> Some n) \<longleftrightarrow> cue_leak al p = None" for al p
    using cue_leak_range[of al p] by (cases "cue_leak al p") auto
  then show ?thesis
    by (simp add: check_leaks_def allow_set_def Let_def first_leak_None leaks_of_Nil del: first_leak.simps) blast
qed

text \<open>The declarative reading of the ratio check.\<close>

lemma count_indices: "length (filter (\<lambda>i. Q (xs ! i)) (indices_where P xs)) = length (filter (\<lambda>x. P x \<and> Q x) xs)"
proof -
  have "map (\<lambda>i. xs ! i) (filter (\<lambda>i. P (xs ! i) \<and> Q (xs ! i)) [0..<length xs]) = filter (\<lambda>x. P x \<and> Q x) xs"
    using filter_map[of "\<lambda>x. P x \<and> Q x" "\<lambda>i. xs ! i" "[0..<length xs]"]
    by (simp add: map_nth comp_def)
  from arg_cong[OF this, of length] show ?thesis
    by (simp add: indices_where_def conj_commute)
qed

lemma length_indices_where: "length (indices_where P xs) = length (filter P xs)"
  using count_indices[of "\<lambda>_. True" xs P] by simp

definition vi_share_ok :: "gate_settings \<Rightarrow> sub_line list \<Rightarrow> bool" where
  "vi_share_ok cfg ls \<longleftrightarrow>
     ratio_num cfg * length (filter translatable ls)
       \<le> ratio_den cfg * length (filter (\<lambda>sl. translatable sl \<and> has_vn sl) ls)"

lemma check_untranslated_None:
  assumes "length (doc_lines trn) = length (doc_lines src)"
  shows "check_untranslated cfg trn src = None \<longleftrightarrow> vi_share_ok cfg (doc_lines trn)"
proof -
  have z: "map fst (zip (doc_lines trn) (doc_lines src)) = doc_lines trn" using assms by simp
  have e: "indices_where translatable (doc_lines trn) = [] \<Longrightarrow> filter translatable (doc_lines trn) = []"
    by (simp add: indices_where_Nil filter_empty_conv)
  show ?thesis
    using length_indices_where[of translatable "doc_lines trn"]
      count_indices[of has_vn "doc_lines trn" translatable] e
    by (auto simp: check_untranslated_def z Let_def vi_share_ok_def mult.commute not_less)
qed

lemma all_zip_iff:
  "length xs = length ys \<Longrightarrow> (\<forall>p \<in> set (zip xs ys). P p) \<longleftrightarrow> (\<forall>i < length xs. P (xs ! i, ys ! i))"
  by (force simp: set_zip)

lemma all_set_iff: "(\<forall>x \<in> set xs. P x) \<longleftrightarrow> (\<forall>i < length xs. P (xs ! i))"
  by (force simp: in_set_conv_nth)

lemma check_headers_None:
  assumes "length (doc_lines trn) = length (doc_lines src)"
  shows "check_headers trn src = None \<longleftrightarrow>
    (\<forall>i < length (doc_lines src). sl_index (doc_lines trn ! i) = sl_index (doc_lines src ! i)
       \<and> sl_start (doc_lines trn ! i) = sl_start (doc_lines src ! i)
       \<and> sl_end (doc_lines trn ! i) = sl_end (doc_lines src ! i))"
  using assms[symmetric] by (auto simp: check_headers_def find_index_None all_zip_iff header_mutated_def)

lemma headers_timing:
  "check_headers trn src = None \<Longrightarrow> check_timing_preserved trn src = None"
  unfolding check_headers_def check_timing_preserved_def fail_at_None find_index_None
  by (subst zip_commute) (auto simp: header_mutated_def timing_altered_def)

text \<open>What the gate demands of one translated cue against its source cue.\<close>

definition cue_acceptable :: "pystr set option \<Rightarrow> sub_line \<Rightarrow> sub_line \<Rightarrow> bool" where
  "cue_acceptable names src trn \<longleftrightarrow>
     sl_index trn = sl_index src \<and> sl_start trn = sl_start src \<and> sl_end trn = sl_end src
     \<and> \<not> empty_cue trn \<and> \<not> orphan_sentinel (sl_text trn) \<and> utf8_encodable (sl_text trn)
     \<and> \<not> scaffold_leak (sl_text trn) \<and> cue_leak (allow_set names) (src, trn) = None"

lemma gate_None:
  "validate_subdoc cfg names trn src = None \<longleftrightarrow>
     length (doc_lines trn) = length (doc_lines src) \<and> vi_share_ok cfg (doc_lines trn)
     \<and> (\<forall>i < length (doc_lines src). cue_acceptable names (doc_lines src ! i) (doc_lines trn ! i))"
  (is "?L \<longleftrightarrow> ?R")
proof (cases "length (doc_lines trn) = length (doc_lines src)")
  case False
  then show ?thesis
    by (simp add: validate_subdoc_def structural_checks_def first_failure_None check_count_def)
next
  case True
  have "?L \<longleftrightarrow> check_nonempty trn = None \<and> check_untranslated cfg trn src = None \<and> check_headers trn src = None
      \<and> check_sentinels trn = None \<and> check_utf8 trn = None \<and> check_scaffold trn = None
      \<and> check_leaks names trn src = None"
    using True headers_timing[of trn src]
    by (auto simp: validate_subdoc_def structural_checks_def first_failure_None check_count_def)
  also have "\<dots> \<longleftrightarrow> ?R"
    unfolding check_untranslated_None[OF True] check_headers_None[OF True] check_leaks_None
    using True
    by (auto simp: all_zip_iff check_nonempty_def check_sentinels_def check_utf8_def check_scaffold_def
        find_index_None all_set_iff cue_acceptable_def)
  finally show ?thesis .
qed

section \<open>When it fails\<close>

lemma check_numbers:
  "Some f = check_count trn src \<Longrightarrow> gf_check f = 1"
  "Some f = check_nonempty trn \<Longrightarrow> gf_check f = 2"
  "Some f = check_untranslated cfg trn src \<Longrightarrow> gf_check f = 3"
  "Some f = check_headers trn src \<Longrightarrow> gf_check f = 4"
  "Some f = check_timing_preserved trn src \<Longrightarrow> gf_check f = 5"
  "Some f = check_sentinels trn \<Longrightarrow> gf_check f = 6"
  "Some f = check_utf8 trn \<Longrightarrow> gf_check f = 7"
  "Some f = check_scaffold trn \<Longrightarrow> gf_check f = 8"
  by (simp_all add: check_count_def check_untranslated_def check_nonempty_def check_headers_def
      check_timing_preserved_def check_sentinels_def check_utf8_def check_scaffold_def Let_def fail_at_check
      split: if_splits)

lemma structural_check_range:
  "Some f \<in> set (structural_checks cfg trn src) \<Longrightarrow> gf_check f \<in> {1..8}"
  unfolding structural_checks_def by (auto dest: check_numbers)

lemma early_check:
  "Some f \<in> set [check_count trn src, check_nonempty trn, check_untranslated cfg trn src, check_headers trn src]
     \<Longrightarrow> gf_check f \<le> 4"
  by (auto dest: check_numbers)

lemma first_leak_Some:
  assumes "first_leak ns al trn src = Some f"
  shows "gf_check f \<in> set ns \<and> gf_indices f = Some (leaks_of (gf_check f) al trn src)
    \<and> leaks_of (gf_check f) al trn src \<noteq> []
    \<and> (\<forall>n \<in> set (takeWhile (\<lambda>n. n \<noteq> gf_check f) ns). leaks_of n al trn src = [])"
  using assms by (induction ns) (auto simp: Let_def split: if_splits)

lemma leak_report:
  assumes "validate_subdoc cfg names trn src = Some f" and "9 \<le> gf_check f"
  shows "check_leaks names trn src = Some f"
proof -
  have "first_failure (structural_checks cfg trn src) = None"
  proof (rule ccontr)
    assume "first_failure (structural_checks cfg trn src) \<noteq> None"
    then obtain g where g: "first_failure (structural_checks cfg trn src) = Some g" by blast
    with assms(1) have "g = f" by (simp add: validate_subdoc_def first_failure_append)
    with structural_check_range[OF first_failure_mem[OF g]] assms(2) show False by simp
  qed
  with assms(1) show ?thesis
    by (cases "check_leaks names trn src") (simp_all add: validate_subdoc_def first_failure_append)
qed

lemma late_check:
  assumes "Some f \<in> set [check_sentinels trn, check_utf8 trn, check_scaffold trn, check_leaks names trn src]"
  shows "6 \<le> gf_check f"
proof (cases "Some f = check_leaks names trn src")
  case True
  then have "first_leak [9, 11, 12, 10] (allow_set names) trn src = Some f"
    by (simp add: check_leaks_def allow_set_def Let_def)
  from first_leak_Some[OF this] show ?thesis by auto
next
  case False
  with assms have "Some f = check_sentinels trn \<or> Some f = check_utf8 trn \<or> Some f = check_scaffold trn"
    by simp
  then show ?thesis by (auto dest: check_numbers)
qed

section \<open>Counting CJK characters\<close>

lemma pieces_from_cls:
  "map (\<lambda>(gap, m, g). m) (fst (pieces_from (RCls p) l gap s)) = map (\<lambda>c. [c]) (filter p s)"
proof (induction s arbitrary: l gap)
  case (Cons c s)
  show ?case
  proof (cases "p c")
    case True
    then have "first_match (RCls p) l (c # s) = Some (c # l, s, [])" by (simp add: first_match_def)
    from pieces_from_hit[OF this, of gap] Cons True show ?thesis by simp
  next
    case False
    then have "first_match (RCls p) l (c # s) = None" by (simp add: first_match_def)
    from pieces_from_skip[OF this, of gap] Cons False show ?thesis by simp
  qed
qed simp

lemma findall_cls: "re_findall (RCls p) s = map (\<lambda>c. [c]) (filter p s)"
  by (simp add: re_findall_def re_pieces_def pieces_from_cls)

lemma found_cls: "found (RCls p) s \<longleftrightarrow> (\<exists>c \<in> set s. p c)"
proof -
  have "found (RCls p) s \<longleftrightarrow> (\<exists>a c b. s = a @ [c] @ b \<and> p c)"
    unfolding found_iff rxm_cls by metis
  also have "\<dots> \<longleftrightarrow> (\<exists>c \<in> set s. p c)" by (metis in_set_conv_decomp append_Cons append_Nil)
  finally show ?thesis .
qed

lemma no_cjk_leak:
  assumes "cue_leak al (src, trn) = None" and "\<not> is_raw trn"
  shows "length (filter cjk_char (strip (sl_text trn))) \<le> 8
    \<and> (filter cjk_char (strip (sl_text trn)) \<noteq> [] \<longrightarrow>
        found CREDIT_SRC_RE (sl_text src) \<or> found CREDIT_TRN_RE (strip (sl_text trn)))"
proof (cases "filter cjk_char (strip (sl_text trn)) = []")
  case True
  then show ?thesis by simp
next
  case False
  then have "found CJK_LEAK_RE (strip (sl_text trn))" "strip (sl_text trn) \<noteq> []"
    by (auto simp: CJK_LEAK_RE_def found_cls filter_empty_conv)
  with assms have "is_credit_fansub_cue (sl_text src) (strip (sl_text trn))"
    by (auto simp: cue_leak_def Let_def split: if_splits)
  then show ?thesis
    by (auto simp: is_credit_fansub_cue_def CJK_LEAK_RE_def findall_cls CJK_CREDIT_EXEMPT_MAX_CJK_def
        split: if_splits)
qed

section \<open>Properties\<close>

definition one_cue :: "pystr \<Rightarrow> sub_doc" where
  "one_cue t = \<lparr>doc_lines = [mk_line [49] [] [] t None], doc_encoding = [], doc_line_ending = [10],
     doc_separators = [], doc_leading = [], doc_trailer = [], doc_envelope = NoEnvelope\<rparr>"

definition no_ratio :: gate_settings where
  "no_ratio = \<lparr>ratio_num = 0, ratio_den = 1\<rparr>"

lemmas gate_patterns = SENTINEL_RE_def UNCLOSED_SENTINEL_RE_def REVIEW_SCAFFOLD_RE_def HINT_SCAFFOLD_RE_def
  VN_HINT_SCAFFOLD_RE_def CORRECTION_DIRECTIVE_RE_def ATTRIBUTION_META_RE_def rspaces_def rspaces1_def

lemmas gate_eval = gate_patterns rx_eval lit_def ascii_eval ci_eq_def sre_lower_def Let_def

lemma no_ratio_ok: "vi_share_ok no_ratio ls"
  by (simp add: vi_share_ok_def no_ratio_def)

text \<open>A one-cue translation whose structural checks pass fails exactly on its leak.\<close>

lemma one_cue_leak:
  assumes "\<not> empty_cue (mk_line [49] [] [] t None)" and "\<not> orphan_sentinel t" and "utf8_encodable t"
    and "\<not> scaffold_leak t" and "cue_leak {} (mk_line [49] [] [] u None, mk_line [49] [] [] t None) = Some 9"
  shows "validate_subdoc no_ratio None (one_cue t) (one_cue u) = Some \<lparr>gf_check = 9, gf_indices = Some [0]\<rparr>"
proof -
  have "check_untranslated no_ratio (one_cue t) (one_cue u) = None"
    by (subst check_untranslated_None) (simp_all add: one_cue_def no_ratio_ok)
  then show ?thesis
    using assms by (simp add: validate_subdoc_def structural_checks_def check_count_def one_cue_def
        check_nonempty_def check_headers_def header_mutated_def check_timing_preserved_def timing_altered_def
        check_sentinels_def check_utf8_def check_scaffold_def check_leaks_def leaks_of_def indices_where_def
        fail_at_def Let_def)
qed

text \<open>Two characters of the samples: an ideograph and a private-use icon.\<close>

lemma sample_chars:
  "sre_lower 20320 = 20320" "sre_lower 57344 = 57344" "\<not> is_space 20320" "\<not> is_space 57344"
  "\<not> is_space 7843" "\<not> is_digit 20320" "\<not> is_digit 57344" "sre_lower 7843 = 7843" "\<not> is_digit 7843"
  by (simp_all add: sre_lower_def lower_char_def lower_runs_def is_space_def space_ranges_def
      is_digit_def digit_ranges_def)

lemmas sample_eval = gate_patterns rx_eval lit_def ci_eq_def sample_chars Let_def

lemma sample_no_credit:
  "\<not> found CREDIT_SRC_RE [c]" "\<not> found CREDIT_TRN_RE [c]" if "c \<in> {20320, 57344}"
  using that by (cases "is_word c"; auto simp: CREDIT_SRC_RE_def CREDIT_TRN_RE_def english_credit_def
      vn_credits_def cjk_credits_def sample_eval)+

lemma sample_clean:
  "\<not> orphan_sentinel [20320]" "\<not> orphan_sentinel [57344]" "\<not> scaffold_leak [20320]" "\<not> scaffold_leak [57344]"
  by (simp_all add: orphan_sentinel_def scaffold_leak_def sample_eval)

lemma cjk_leak_9:
  assumes "cjk_char c" and "\<not> is_space c" and "\<not> is_credit_fansub_cue u [c]"
  shows "cue_leak al (mk_line [49] [] [] u None, mk_line [49] [] [] [c] None) = Some 9"
  using assms by (simp add: cue_leak_def is_raw_def Let_def strip_def lstrip_def rstrip_def CJK_LEAK_RE_def found_cls)

lemma leaked_cjk: "validate_subdoc no_ratio None (one_cue [20320]) (one_cue [20320]) =
    Some \<lparr>gf_check = 9, gf_indices = Some [0]\<rparr>"
  by (intro one_cue_leak cjk_leak_9)
    (simp_all add: sample_clean sample_chars empty_cue_def strip_def lstrip_def rstrip_def
      utf8_encodable_def cjk_char_def is_credit_fansub_cue_def sample_no_credit)

lemma leaked_icon: "validate_subdoc no_ratio None (one_cue [57344]) (one_cue [57344]) =
    Some \<lparr>gf_check = 9, gf_indices = Some [0]\<rparr>"
  by (intro one_cue_leak cjk_leak_9)
    (simp_all add: sample_clean sample_chars empty_cue_def strip_def lstrip_def rstrip_def
      utf8_encodable_def cjk_char_def is_credit_fansub_cue_def sample_no_credit)


text \<open>
  When the gate stops at a leak check (9 to 12), it reports every cue with that leak, in order,
  and no cue has a leak of a check that ranks before it (the order is 9, 11, 12, 10).
\<close>

theorem gate_leaks_complete:
  assumes "validate_subdoc cfg names trn src = Some f" and "9 \<le> gf_check f"
  shows "\<exists>is. gf_indices f = Some is \<and> is \<noteq> [] \<and> sorted is
    \<and> set is = {i. i < min (length (doc_lines src)) (length (doc_lines trn))
         \<and> cue_leak (allow_set names) (doc_lines src ! i, doc_lines trn ! i) = Some (gf_check f)}
    \<and> (\<forall>n \<in> set (takeWhile (\<lambda>n. n \<noteq> gf_check f) [9, 11, 12, 10]). leaks_of n (allow_set names) trn src = [])"
proof -
  let ?is = "leaks_of (gf_check f) (allow_set names) trn src"
  from leak_report[OF assms] have "first_leak [9, 11, 12, 10] (allow_set names) trn src = Some f"
    by (simp add: check_leaks_def allow_set_def Let_def)
  from first_leak_Some[OF this] show ?thesis
    by (intro exI[of _ ?is]) (auto simp: leaks_of_def set_indices_where sorted_indices_where)
qed

theorem gate_leaks_complete_witness:
  "\<exists>is. (\<lparr>gf_check = 9, gf_indices = Some [0]\<rparr> :: gate_failure) = \<lparr>gf_check = 9, gf_indices = Some is\<rparr>
     \<and> set is = {i. i < 1 \<and> cue_leak {} (mk_line [49] [] [] [20320] None, mk_line [49] [] [] [20320] None) = Some 9}"
  using gate_leaks_complete[OF leaked_cjk] by (auto simp: one_cue_def allow_set_def cong: conj_cong)

text \<open>
  Check 5 can never be the check that fails: a translation with an altered time has an altered
  timecode string, which check 4 reports first.
\<close>

theorem gate_check5_unreachable: "validate_subdoc cfg names trn src \<noteq> Some \<lparr>gf_check = 5, gf_indices = js\<rparr>"
proof
  assume a: "validate_subdoc cfg names trn src = Some \<lparr>gf_check = 5, gf_indices = js\<rparr>"
  let ?early = "[check_count trn src, check_nonempty trn, check_untranslated cfg trn src, check_headers trn src]"
  let ?late = "[check_timing_preserved trn src, check_sentinels trn, check_utf8 trn, check_scaffold trn,
    check_leaks names trn src]"
  have split: "validate_subdoc cfg names trn src
      = (case first_failure ?early of None \<Rightarrow> first_failure ?late | Some f \<Rightarrow> Some f)"
    unfolding first_failure_append[symmetric] by (simp add: validate_subdoc_def structural_checks_def)
  show False
  proof (cases "first_failure ?early")
    case None
    then have "check_timing_preserved trn src = None"
      by (auto simp: first_failure_None intro: headers_timing)
    with a split None have
      "first_failure [check_sentinels trn, check_utf8 trn, check_scaffold trn, check_leaks names trn src]
         = Some \<lparr>gf_check = 5, gf_indices = js\<rparr>" by simp
    from late_check[OF first_failure_mem[OF this]] show False by simp
  next
    case (Some f)
    with a split early_check[OF first_failure_mem[OF Some]] show False by simp
  qed
qed

text \<open>
  A translation that passes carries at most eight CJK characters in any cue that is not opaque,
  and carries one only in a cue that names a credit.
\<close>

theorem gate_cjk_bound:
  assumes "validate_subdoc cfg names trn src = None" and "i < length (doc_lines src)"
    and "\<not> is_raw (doc_lines trn ! i)"
  shows "length (filter cjk_char (strip (sl_text (doc_lines trn ! i)))) \<le> 8
    \<and> (filter cjk_char (strip (sl_text (doc_lines trn ! i))) \<noteq> [] \<longrightarrow>
        found CREDIT_SRC_RE (sl_text (doc_lines src ! i))
        \<or> found CREDIT_TRN_RE (strip (sl_text (doc_lines trn ! i))))"
  using assms by (intro no_cjk_leak[of "allow_set names"]) (auto simp: gate_None cue_acceptable_def)


definition passing_text :: pystr where
  "passing_text = [7843]"

lemma passing_no_leak: "cue_leak al (mk_line [49] [] [] [7843] None, mk_line [49] [] [] [7843] None) = None"
  by (cases "is_word 7843") (simp_all add: cue_leak_def is_raw_def strip_def lstrip_def rstrip_def
      CJK_LEAK_RE_def found_cls cjk_char_def GLOSS_PAREN_RE_def HONORIFIC_CAPNAME_RE_def
      passthrough_leak_def VN_DIACRITIC_RE_def vn_diacritic_def ascii_letter_def no_paren_def sample_eval)

lemma passing_accepted: "validate_subdoc no_ratio None (one_cue [7843]) (one_cue [7843]) = None"
  unfolding gate_None
  by (simp add: one_cue_def no_ratio_ok cue_acceptable_def passing_no_leak orphan_sentinel_def
      scaffold_leak_def utf8_encodable_def empty_cue_def strip_def lstrip_def rstrip_def sample_eval)


theorem gate_cjk_bound_witness:
  "length (filter cjk_char (strip passing_text)) \<le> 8"
  using gate_cjk_bound[OF passing_accepted, of 0] by (simp add: one_cue_def is_raw_def passing_text_def)

text \<open>
  A private-use icon such as U+E000 is treated as a leaked ideograph: the range meant for the
  compatibility ideographs starts at U+8C48 instead of U+F900, so a translation that keeps the
  source's icon is rejected by check 9.
\<close>

theorem gate_rejects_private_use:
  "validate_subdoc no_ratio None (one_cue [57344]) (one_cue [57344]) = Some \<lparr>gf_check = 9, gf_indices = Some [0]\<rparr>"
  by (rule leaked_icon)

end
