(* ===== verification/Batching.thy ===== *)
theory Batching
  imports Sub_Model Timecode
begin

text \<open>
  The batch packer of \<open>trezarr/translate/batching.py\<close>: the greedy walk that cuts the
  translatable cues of a document into batches at scene gaps, at the character budget and at
  the cue limit, and attaches the context lines. The budget comes from a floating point
  formula over the settings and is an argument here.
\<close>

record batch =
  batch_cues :: "sub_line list"
  batch_before :: "sub_line list"
  batch_after :: "sub_line list"

record batch_cfg =
  budget_chars :: nat
  max_cues :: nat
  scene_gap_ms :: int
  context_k :: nat

definition gap_ms :: "sub_line \<Rightarrow> sub_line \<Rightarrow> int" where
  "gap_ms p c = int (tc_to_ms (sl_start c)) - int (tc_to_ms (sl_end p))"

definition make_batch :: "sub_line list \<Rightarrow> sub_line list \<Rightarrow> nat \<Rightarrow> nat \<Rightarrow> batch" where
  "make_batch cues all_lines next_idx k =
     (let first_idx = next_idx - length cues; before_start = first_idx - k;
          after_end = min (length all_lines) (next_idx + k)
      in \<lparr>batch_cues = cues,
          batch_before = take (first_idx - before_start) (drop before_start all_lines),
          batch_after = take (after_end - next_idx) (drop next_idx all_lines)\<rparr>)"

definition cut_here :: "batch_cfg \<Rightarrow> sub_line list \<Rightarrow> nat \<Rightarrow> sub_line list \<Rightarrow> nat \<Rightarrow> bool" where
  "cut_here cfg all_lines i current chars =
     (let cue = all_lines ! i;
          gap = (if i > 0 then gap_ms (all_lines ! (i - 1)) cue else 0);
          at_scene_gap = gap \<ge> scene_gap_ms cfg;
          would_overflow = chars + length (sl_text cue) > budget_chars cfg \<or> length current \<ge> max_cues cfg
      in current \<noteq> [] \<and> (at_scene_gap \<or> would_overflow))"

text \<open>The loop over the cues: \<open>i\<close> is the position of the next one, \<open>current\<close> the open batch.\<close>

function batch_loop ::
  "batch_cfg \<Rightarrow> sub_line list \<Rightarrow> nat \<Rightarrow> sub_line list \<Rightarrow> nat \<Rightarrow> batch list" where
  "batch_loop cfg all_lines i current chars =
     (if i \<ge> length all_lines then
        (if current = [] then [] else [make_batch current all_lines (length all_lines) (context_k cfg)])
      else let cue = all_lines ! i in
        if is_raw cue then batch_loop cfg all_lines (Suc i) current chars
        else if cut_here cfg all_lines i current chars then
          make_batch current all_lines i (context_k cfg)
            # batch_loop cfg all_lines (Suc i) [cue] (length (sl_text cue))
        else batch_loop cfg all_lines (Suc i) (current @ [cue]) (chars + length (sl_text cue)))"
  by pat_completeness auto
termination by (relation "measure (\<lambda>(cfg, ls, i, c, n). length ls - i)") auto

declare batch_loop.simps [simp del]

definition batch_subdoc :: "batch_cfg \<Rightarrow> sub_doc \<Rightarrow> batch list" where
  "batch_subdoc cfg d = batch_loop cfg (doc_lines d) 0 [] 0"

section \<open>The walk, step by step\<close>

lemma batch_loop_end:
  "batch_loop cfg ls (length ls) cur n =
     (if cur = [] then [] else [make_batch cur ls (length ls) (context_k cfg)])"
  by (subst batch_loop.simps) simp

lemma batch_loop_raw:
  "i < length ls \<Longrightarrow> is_raw (ls ! i) \<Longrightarrow> batch_loop cfg ls i cur n = batch_loop cfg ls (Suc i) cur n"
  by (subst batch_loop.simps) (simp add: Let_def)

lemma batch_loop_cut:
  "i < length ls \<Longrightarrow> \<not> is_raw (ls ! i) \<Longrightarrow> cut_here cfg ls i cur n \<Longrightarrow>
     batch_loop cfg ls i cur n = make_batch cur ls i (context_k cfg)
       # batch_loop cfg ls (Suc i) [ls ! i] (length (sl_text (ls ! i)))"
  by (subst batch_loop.simps) (simp add: Let_def)

lemma batch_loop_add:
  "i < length ls \<Longrightarrow> \<not> is_raw (ls ! i) \<Longrightarrow> \<not> cut_here cfg ls i cur n \<Longrightarrow>
     batch_loop cfg ls i cur n = batch_loop cfg ls (Suc i) (cur @ [ls ! i]) (n + length (sl_text (ls ! i)))"
  by (subst batch_loop.simps) (simp add: Let_def)

text \<open>Induction along the walk: the end, a skipped cue, a cut, an added cue.\<close>

lemma batch_walk_induct [consumes 1, case_names stop raw cut add]:
  assumes "i \<le> length ls"
    and "\<And>cur n. P (length ls) cur n"
    and "\<And>i cur n. i < length ls \<Longrightarrow> is_raw (ls ! i) \<Longrightarrow> P (Suc i) cur n \<Longrightarrow> P i cur n"
    and "\<And>i cur n. i < length ls \<Longrightarrow> \<not> is_raw (ls ! i) \<Longrightarrow> cut_here cfg ls i cur n \<Longrightarrow>
           P (Suc i) [ls ! i] (length (sl_text (ls ! i))) \<Longrightarrow> P i cur n"
    and "\<And>i cur n. i < length ls \<Longrightarrow> \<not> is_raw (ls ! i) \<Longrightarrow> \<not> cut_here cfg ls i cur n \<Longrightarrow>
           P (Suc i) (cur @ [ls ! i]) (n + length (sl_text (ls ! i))) \<Longrightarrow> P i cur n"
  shows "P i cur n"
  using assms(1)
proof (induction "length ls - i" arbitrary: i cur n)
  case 0
  then show ?case using assms(2) by simp
next
  case (Suc d)
  then have "i < length ls" "d = length ls - Suc i" "Suc i \<le> length ls" by auto
  with Suc.hyps(1) assms(3-5) show ?case by metis
qed

lemma make_batch_cues [simp]: "batch_cues (make_batch c ls i k) = c"
  by (simp add: make_batch_def Let_def)

lemma batch_loop_cues:
  assumes "i \<le> length ls"
  shows "concat (map batch_cues (batch_loop cfg ls i cur n))
     = cur @ filter (\<lambda>c. \<not> is_raw c) (drop i ls)"
  using assms
proof (induction i cur n rule: batch_walk_induct[where cfg = cfg])
  case (stop cur n)
  then show ?case by (simp add: batch_loop_end)
next
  case (raw i cur n)
  then show ?case by (simp add: batch_loop_raw Cons_nth_drop_Suc[symmetric])
next
  case (cut i cur n)
  then show ?case by (simp add: batch_loop_cut Cons_nth_drop_Suc[symmetric])
next
  case (add i cur n)
  then show ?case by (simp add: batch_loop_add Cons_nth_drop_Suc[symmetric])
qed

definition text_size :: "sub_line list \<Rightarrow> nat" where
  "text_size cs = sum_list (map (\<lambda>c. length (sl_text c)) cs)"

definition batch_fits :: "batch_cfg \<Rightarrow> sub_line list \<Rightarrow> bool" where
  "batch_fits cfg cs \<longleftrightarrow> cs \<noteq> [] \<and> (length cs = 1 \<or> length cs \<le> max_cues cfg \<and> text_size cs \<le> budget_chars cfg)"

lemma batch_loop_fits:
  assumes "i \<le> length ls" and "cur = [] \<or> batch_fits cfg cur" and "n = text_size cur"
  shows "\<forall>b \<in> set (batch_loop cfg ls i cur n). batch_fits cfg (batch_cues b)"
  using assms
proof (induction i cur n rule: batch_walk_induct[where cfg = cfg])
  case (stop cur n)
  then show ?case by (auto simp: batch_loop_end)
next
  case (raw i cur n)
  from raw.IH[OF raw.prems] raw.hyps show ?case by (simp only: batch_loop_raw)
next
  case (cut i cur n)
  then have "cur \<noteq> []" by (simp add: cut_here_def Let_def)
  with cut.prems(1) have "batch_fits cfg cur" by simp
  moreover have "\<forall>b \<in> set (batch_loop cfg ls (Suc i) [ls ! i] (length (sl_text (ls ! i)))). batch_fits cfg (batch_cues b)"
    by (rule cut.IH) (simp_all add: batch_fits_def text_size_def)
  ultimately show ?case using cut.hyps by (simp add: batch_loop_cut)
next
  case (add i cur n)
  then have "cur @ [ls ! i] = [ls ! i] \<or> batch_fits cfg (cur @ [ls ! i])"
    by (auto simp: batch_fits_def cut_here_def Let_def text_size_def)
  then have "batch_fits cfg (cur @ [ls ! i])" by (auto simp: batch_fits_def)
  moreover from add.prems(2) have "n + length (sl_text (ls ! i)) = text_size (cur @ [ls ! i])"
    by (simp add: text_size_def)
  ultimately show ?case unfolding batch_loop_add[OF add.hyps] by (intro add.IH) simp_all
qed

text \<open>Where a batch sits in a document without opaque cues.\<close>

definition batch_at :: "batch_cfg \<Rightarrow> sub_line list \<Rightarrow> nat \<Rightarrow> batch \<Rightarrow> bool" where
  "batch_at cfg ls i b \<longleftrightarrow>
     (let n = length (batch_cues b); k = context_k cfg in
      i + n \<le> length ls
      \<and> batch_cues b = take n (drop i ls)
      \<and> batch_before b = take (min i k) (drop (i - k) ls)
      \<and> batch_after b = take k (drop (i + n) ls)
      \<and> (\<forall>j. i < j \<and> j < i + n \<longrightarrow> gap_ms (ls ! (j - 1)) (ls ! j) < scene_gap_ms cfg))"

lemma make_batch_at:
  assumes "i \<le> length ls" and "length cur \<le> i" and "cur = take (length cur) (drop (i - length cur) ls)"
    and "\<And>j. i - length cur < j \<Longrightarrow> j < i \<Longrightarrow> gap_ms (ls ! (j - 1)) (ls ! j) < scene_gap_ms cfg"
  shows "batch_at cfg ls (i - length cur) (make_batch cur ls i (context_k cfg))"
proof -
  have "i - length cur - (i - length cur - context_k cfg) = min (i - length cur) (context_k cfg)" by simp
  moreover have "take (min (length ls) (i + k) - i) (drop i ls) = take k (drop i ls)" for k
    by (cases "i + k \<le> length ls") auto
  ultimately show ?thesis using assms by (simp add: batch_at_def make_batch_def Let_def)
qed

lemma batch_loop_at:
  assumes "i \<le> length ls" and "\<forall>c \<in> set ls. \<not> is_raw c" and "length cur \<le> i"
    and "cur = take (length cur) (drop (i - length cur) ls)"
    and "\<forall>j. i - length cur < j \<longrightarrow> j < i \<longrightarrow> gap_ms (ls ! (j - 1)) (ls ! j) < scene_gap_ms cfg"
  shows "\<forall>b \<in> set (batch_loop cfg ls i cur n). \<exists>p. batch_at cfg ls p b"
  using assms
proof (induction i cur n rule: batch_walk_induct[where cfg = cfg])
  case (stop cur n)
  then show ?case using make_batch_at[of "length ls" ls cur cfg] by (auto simp: batch_loop_end)
next
  case (raw i cur n)
  then show ?case by simp
next
  case (cut i cur n)
  from cut make_batch_at[of i ls cur cfg] have "\<exists>p. batch_at cfg ls p (make_batch cur ls i (context_k cfg))" by auto
  moreover have "\<forall>b \<in> set (batch_loop cfg ls (Suc i) [ls ! i] (length (sl_text (ls ! i)))). \<exists>p. batch_at cfg ls p b"
    using cut by (intro cut.IH) (auto simp: take_Suc_conv_app_nth)
  ultimately show ?case using cut by (simp add: batch_loop_cut)
next
  case (add i cur n)
  let ?cur = "cur @ [ls ! i]"
  have s: "Suc i - length ?cur = i - length cur" by simp
  have c: "?cur = take (length ?cur) (drop (Suc i - length ?cur) ls)"
    using add by (simp add: s take_Suc_conv_app_nth)
  have g: "\<forall>j. Suc i - length ?cur < j \<longrightarrow> j < Suc i \<longrightarrow> gap_ms (ls ! (j - 1)) (ls ! j) < scene_gap_ms cfg"
    using add by (auto simp: less_Suc_eq cut_here_def Let_def)
  have "\<forall>b \<in> set (batch_loop cfg ls (Suc i) ?cur (n + length (sl_text (ls ! i)))). \<exists>p. batch_at cfg ls p b"
    using add c g by (intro add.IH) auto
  with add show ?case by (simp add: batch_loop_add)
qed

section \<open>Properties\<close>

definition sample_cue :: "nat \<Rightarrow> sub_line" where
  "sample_cue n = mk_line [48 + n] (srt_tc 44 0 0 n 0) (srt_tc 44 0 0 n 500) (lit ''abc'') None"

definition sample_raw_cue :: "nat \<Rightarrow> sub_line" where
  "sample_raw_cue n = mk_line [] (srt_tc 44 0 0 n 0) (srt_tc 44 0 0 n 500) (lit ''abc'') (Some (lit ''abc''))"

definition sample_doc :: "sub_line list \<Rightarrow> sub_doc" where
  "sample_doc ls = \<lparr>doc_lines = ls, doc_encoding = [], doc_line_ending = [10], doc_separators = [],
     doc_leading = [], doc_trailer = [], doc_envelope = NoEnvelope\<rparr>"

definition sample_cfg :: batch_cfg where
  "sample_cfg = \<lparr>budget_chars = 7, max_cues = 5, scene_gap_ms = 2000, context_k = 1\<rparr>"

lemmas batch_eval = batch_subdoc_def batch_loop.simps sample_doc_def sample_cfg_def sample_cue_def
  sample_raw_cue_def cut_here_def gap_ms_def make_batch_def is_raw_def tc_to_ms_srt lit_def Let_def

lemma sample_batches:
  "batch_subdoc sample_cfg (sample_doc [sample_cue 1, sample_cue 2, sample_cue 3]) =
     [\<lparr>batch_cues = [sample_cue 1, sample_cue 2], batch_before = [], batch_after = [sample_cue 3]\<rparr>,
      \<lparr>batch_cues = [sample_cue 3], batch_before = [sample_cue 2], batch_after = []\<rparr>]"
  by (simp add: batch_eval)

text \<open>
  C36: Batching loses, repeats and reorders nothing: the batches laid end to end are exactly the
  cues of the document that are not opaque, in document order.
\<close>

theorem batch_partition:
  "concat (map batch_cues (batch_subdoc cfg d)) = filter (\<lambda>c. \<not> is_raw c) (doc_lines d)"
  by (simp add: batch_subdoc_def batch_loop_cues)

text \<open>
  Every batch respects the limits: it is not empty, and unless it is a single cue it holds
  at most the maximal number of cues and at most the character budget.
\<close>

theorem batch_limits:
  assumes "b \<in> set (batch_subdoc cfg d)"
  shows "batch_fits cfg (batch_cues b)"
  using assms batch_loop_fits[of 0 "doc_lines d" "[]" cfg 0]
  by (simp add: batch_subdoc_def text_size_def)

theorem batch_limits_witness: "batch_fits sample_cfg [sample_cue 1, sample_cue 2]"
  using batch_limits[of "\<lparr>batch_cues = [sample_cue 1, sample_cue 2], batch_before = [], batch_after = [sample_cue 3]\<rparr>"
      sample_cfg "sample_doc [sample_cue 1, sample_cue 2, sample_cue 3]"]
  unfolding sample_batches by simp

text \<open>
  In a document without opaque cues every batch is a contiguous run of lines that no scene
  gap interrupts, and its context is the run of at most k lines just before it and just after it.
\<close>

theorem batch_context:
  assumes "\<forall>c \<in> set (doc_lines d). \<not> is_raw c" and "b \<in> set (batch_subdoc cfg d)"
  shows "\<exists>i. batch_at cfg (doc_lines d) i b"
  using assms batch_loop_at[of 0 "doc_lines d" "[]" cfg 0] by (simp add: batch_subdoc_def)

theorem batch_context_witness:
  "\<exists>i. batch_at sample_cfg [sample_cue 1, sample_cue 2, sample_cue 3] i
     \<lparr>batch_cues = [sample_cue 3], batch_before = [sample_cue 2], batch_after = []\<rparr>"
  using batch_context[of "sample_doc [sample_cue 1, sample_cue 2, sample_cue 3]"
      "\<lparr>batch_cues = [sample_cue 3], batch_before = [sample_cue 2], batch_after = []\<rparr>" sample_cfg]
  unfolding sample_batches by (simp add: sample_doc_def sample_cue_def is_raw_def)

text \<open>
  An opaque cue inside a batch shifts the batch's context: the first position is computed as
  the next position minus the number of cues, which counts no opaque cue, so the model is shown
  one of the batch's own cues as context before it.
\<close>

theorem batch_context_shifted_by_opaque:
  "batch_subdoc sample_cfg (sample_doc [sample_cue 1, sample_raw_cue 2, sample_cue 3]) =
     [\<lparr>batch_cues = [sample_cue 1, sample_cue 3], batch_before = [sample_cue 1], batch_after = []\<rparr>]"
  by (simp add: batch_eval)

end
