(* ===== verification/Numbered_Response.thy ===== *)
theory Numbered_Response
  imports Gate Batching "HOL-Library.AList"
begin

text \<open>
  The reply parser of \<open>trezarr/translate/engine.py\<close> (\<open>parse_numbered_response\<close> and its patterns)
  and the message-accumulating correction loop of \<open>_make_translate_batch_fn\<close>. The model's
  answers are a function of the call number and the messages sent; the prompt and Python's
  \<open>repr\<close> of a string are arguments.
\<close>

section \<open>Patterns\<close>

definition NUMBERED_LINE_RE :: rx where
  "NUMBERED_LINE_RE = RSeq (rchr 91) (RSeq (RGrp 1 (rplus (RCls is_digit))) (RSeq (rchr 93)
     (RSeq (ropt (RCls (\<lambda>c. c = 46 \<or> c = 41))) (RSeq rspaces (RGrp 2 (RStar (RCls (\<lambda>c. c \<noteq> 10))))))))"

definition BR_RE :: rx where
  "BR_RE = RSeq (rstr (lit ''<<'')) (RSeq rspaces (RSeq (rstr (lit ''BR'')) (RSeq rspaces (rstr (lit ''>>'')))))"

definition rblanks :: rx where
  "rblanks = RStar (RCls (\<lambda>c. c = 32 \<or> c = 9))"

definition LEAKED_HINT_RE :: rx where
  "LEAKED_HINT_RE = RSeq rbos (RSeq rspaces (RSeq (rchr 40) (RSeq rspaces (RSeq (ristr (lit ''speaker''))
     (RSeq rspaces1 (RSeq (ristr (lit ''says'')) (RSeq rspaces (RSeq (rchr 58)
       (RSeq (RStar (RCls (\<lambda>c. c \<noteq> 41))) (RSeq (rchr 41) rspaces))))))))))"

definition LEAKED_DIRECTIVE_RE :: rx where
  "LEAKED_DIRECTIVE_RE = RSeq rbos (RSeq rspaces (RSeq (rchr 91) (RSeq rspaces (RSeq (ristr (lit ''correction''))
     (RSeq rspaces1 (RSeq (ristr (lit ''required'')) (RSeq rspaces (RSeq (rchr 93)
       (RSeq (RStar (RCls (\<lambda>c. c \<noteq> 10))) (ropt (rchr 10)))))))))))"

text \<open>One bracket style of the Vietnamese label, between an opener and its closer.\<close>

definition vn_hint_in :: "pychar \<Rightarrow> pychar \<Rightarrow> rx" where
  "vn_hint_in a b = RSeq (rchr a) (RSeq rspaces (RSeq (RStar (RCls (\<lambda>c. c \<noteq> a \<and> c \<noteq> b)))
     (RSeq (ristr [120, 432, 110, 103]) (RSeq rspaces1 (RSeq (ristr [104, 244]) (RSeq rspaces
       (RSeq (RCls (\<lambda>c. c = 58 \<or> c = 65306)) (RSeq (RStar (RCls (\<lambda>c. c \<noteq> b))) (rchr b)))))))))"

definition LEAKED_VN_HINT_RE :: rx where
  "LEAKED_VN_HINT_RE = RSeq rbos (RSeq rspaces (RSeq (RAlt (vn_hint_in 40 41) (vn_hint_in 91 93)) rspaces))"

section \<open>The reply parser\<close>

datatype batch_error =
    Duplicate nat
  | Unexpected "nat list" nat
  | Missing nat nat
  | EmptyLine nat
  | WrongCount nat nat
  | SentinelLost nat pystr
  | Exhausted
  | DigitLimit

text \<open>
  \<open>DigitLimit\<close> is the \<open>ValueError\<close> of \<open>int\<close> on more than 4300 digits, which nothing here
  catches; the others are \<open>BatchValidationError\<close>.
\<close>

definition is_batch_error :: "batch_error \<Rightarrow> bool" where
  "is_batch_error e \<longleftrightarrow> e \<noteq> DigitLimit"

fun parse_lines ::
  "nat set option \<Rightarrow> pystr list \<Rightarrow> (nat \<times> pystr) list \<Rightarrow> nat option \<Rightarrow> batch_error + (nat \<times> pystr) list" where
  "parse_lines ml [] parsed current = Inr parsed"
| "parse_lines ml (raw # rest) parsed current =
     (let stripped = strip raw in
      case re_match NUMBERED_LINE_RE stripped of
        Some (m, g) \<Rightarrow>
          (if length (Py_Regex.group g 1) > 4300 then Inl DigitLimit
           else let num = int_of_digits (Py_Regex.group g 1) in
             if map_of parsed num \<noteq> None then Inl (Duplicate num)
             else parse_lines ml rest (AList.update num (strip (Py_Regex.group g 2)) parsed) (Some num))
      | None \<Rightarrow>
          (case current of
             None \<Rightarrow> parse_lines ml rest parsed current
           | Some c \<Rightarrow>
               (if stripped \<noteq> [] \<and> (case ml of None \<Rightarrow> True | Some s \<Rightarrow> c \<in> s) then
                  let old = or_empty (map_of parsed c) in
                  parse_lines ml rest (AList.update c (if old \<noteq> [] then old @ [10] @ stripped else stripped) parsed) current
                else parse_lines ml rest parsed current)))"

text \<open>Line breaks restored, the leading echoes of the prompt removed.\<close>

definition restore_breaks :: "pystr \<Rightarrow> pystr" where
  "restore_breaks t =
     re_sub BR_RE [10] (re_sub (RSeq (rchr 10) (RSeq rblanks BR_RE)) [10]
       (re_sub (RSeq BR_RE (RSeq rblanks (rchr 10))) [10] t))"

definition strip_echoes :: "pystr \<Rightarrow> pystr" where
  "strip_echoes t = re_sub LEAKED_DIRECTIVE_RE [] (re_sub LEAKED_VN_HINT_RE [] (re_sub LEAKED_HINT_RE [] t))"

definition finish_text :: "pystr \<Rightarrow> pystr" where
  "finish_text t = strip_echoes (restore_breaks t)"

fun finish_lines :: "nat \<Rightarrow> nat list \<Rightarrow> (nat \<times> pystr) list \<Rightarrow> batch_error + (nat \<times> pystr) list" where
  "finish_lines expected [] parsed = Inr parsed"
| "finish_lines expected (n # ns) parsed =
     (case map_of parsed n of
        None \<Rightarrow> Inl (Missing n expected)
      | Some t \<Rightarrow>
          (let u = finish_text t in
           if strip u = [] then Inl (EmptyLine n)
           else finish_lines expected ns (AList.update n u parsed)))"

definition parse_numbered_response :: "pystr \<Rightarrow> nat \<Rightarrow> nat set option \<Rightarrow> batch_error + pystr list" where
  "parse_numbered_response response expected ml =
     (case parse_lines ml (splitlines response) [] None of
        Inl e \<Rightarrow> Inl e
      | Inr parsed \<Rightarrow>
          (let extra = filter (\<lambda>n. n < 1 \<or> n > expected) (map fst parsed) in
           if extra \<noteq> [] then Inl (Unexpected extra expected)
           else case finish_lines expected [1..<Suc expected] parsed of
             Inl e \<Rightarrow> Inl e
           | Inr done \<Rightarrow>
               (if length done < expected then Inl (WrongCount (length done) expected)
                else Inr (map (\<lambda>n. or_empty (map_of done n)) [1..<Suc expected]))))"

section \<open>Messages\<close>

fun nat_list_repr :: "nat list \<Rightarrow> pystr" where
  "nat_list_repr ns = [91] @ join_with (lit '', '') (map dec ns) @ [93]"

text \<open>\<open>str(exc)\<close>, with \<open>repr\<close> of a string as an argument.\<close>

fun error_text :: "(pystr \<Rightarrow> pystr) \<Rightarrow> batch_error \<Rightarrow> pystr" where
  "error_text rp (Duplicate n) = lit ''Duplicate line number ['' @ dec n @ lit ''] in LLM response''"
| "error_text rp (Unexpected ns n) =
     lit ''LLM response contains unexpected line numbers '' @ nat_list_repr ns @ lit '' (expected 1..'' @ dec n @ lit '')''"
| "error_text rp (Missing k n) =
     lit ''Missing line ['' @ dec k @ lit ''] in LLM response (expected '' @ dec n @ lit '' lines)''"
| "error_text rp (EmptyLine n) = lit ''Empty/whitespace-only text for line ['' @ dec n @ lit ''] in LLM response''"
| "error_text rp (WrongCount k n) = lit ''Parsed '' @ dec k @ lit '' lines but expected '' @ dec n"
| "error_text rp (SentinelLost i t) =
     lit ''Sentinel integrity failure for cue '' @ dec i @ lit '': real sentinel(s) lost from '' @ rp t"
| "error_text rp Exhausted = lit ''Correction loop exhausted without returning''"
| "error_text rp DigitLimit = lit ''Exceeds the limit (4300 digits) for integer string conversion''"

definition STRUCT_CORRECTION_MSG :: "pystr \<Rightarrow> nat \<Rightarrow> pystr" where
  "STRUCT_CORRECTION_MSG defect n =
     lit ''Your response had a structural error: '' @ defect @ lit ''. I need EXACTLY '' @ dec n
     @ lit '' lines, numbered [1] through ['' @ dec n @ lit ''], one per source line, in order. ''
     @ lit ''Do NOT skip any number. Keep every <<T0>>/<<BR>> token exactly as in my first message. ''
     @ lit ''Follow ALL rules, the GLOSSARY, the REGISTER, and all pronoun hints from my FIRST message. ''
     @ lit ''Output ONLY the '' @ dec n @ lit '' numbered lines.''"

datatype role = User | Assistant

type_synonym message = "role \<times> pystr"

section \<open>The correction loop\<close>

text \<open>Restoring the tags of one reply: the loop of step 4b, from cue \<open>i\<close> on.\<close>

fun restore_all :: "nat \<Rightarrow> pystr list \<Rightarrow> sentinel_map list \<Rightarrow> batch_error + pystr list" where
  "restore_all i (t # ts) (m # ms) =
     (let (restored, ok) = reinsert_sentinels t m in
      if \<not> ok then Inl (SentinelLost i restored)
      else case restore_all (Suc i) ts ms of Inl e \<Rightarrow> Inl e | Inr us \<Rightarrow> Inr (restored # us))"
| "restore_all i ts ms = Inr []"

definition read_reply :: "pystr \<Rightarrow> nat \<Rightarrow> nat set \<Rightarrow> sentinel_map list \<Rightarrow> batch_error + pystr list" where
  "read_reply reply n ml maps =
     (case parse_numbered_response reply n (Some ml) of
        Inl e \<Rightarrow> Inl e
      | Inr ts \<Rightarrow> restore_all 0 ts maps)"

datatype 'e batch_outcome = Texts "pystr list" | BatchFailed batch_error | CallFailed 'e

type_synonym 'e llm = "nat \<Rightarrow> message list \<Rightarrow> 'e + pystr"

text \<open>
  \<open>left\<close> calls remain, \<open>k\<close> were made; the result carries the message lists of the calls made.
\<close>

fun correction_loop ::
  "'e llm \<Rightarrow> (pystr \<Rightarrow> pystr) \<Rightarrow> nat \<Rightarrow> nat set \<Rightarrow> sentinel_map list \<Rightarrow> nat \<Rightarrow> nat \<Rightarrow> message list
     \<Rightarrow> 'e batch_outcome \<times> message list list" where
  "correction_loop llm rp n ml maps 0 k messages = (BatchFailed Exhausted, [])"
| "correction_loop llm rp n ml maps (Suc left) k messages =
     (case llm k messages of
        Inl e \<Rightarrow> (CallFailed e, [messages])
      | Inr reply \<Rightarrow>
          (case read_reply reply n ml maps of
             Inr texts \<Rightarrow> (Texts texts, [messages])
           | Inl e \<Rightarrow>
               (if \<not> is_batch_error e \<or> left = 0 then (BatchFailed e, [messages])
                else let (out, calls) = correction_loop llm rp n ml maps left (Suc k)
                       (messages @ [(Assistant, reply), (User, STRUCT_CORRECTION_MSG (error_text rp e) n)])
                     in (out, messages # calls))))"

definition multiline_indices :: "pystr list \<Rightarrow> nat set" where
  "multiline_indices ts = set (map fst (filter (\<lambda>(i, t). 10 \<in> set t) (enumerate 1 ts)))"

definition batch_prompt :: "(pystr list \<Rightarrow> pystr list \<Rightarrow> pystr list \<Rightarrow> pystr) \<Rightarrow> batch \<Rightarrow> pystr" where
  "batch_prompt prompt_of b =
     prompt_of (map (\<lambda>c. fst (extract_sentinels (sl_text c))) (batch_cues b))
       (map sl_text (batch_before b)) (map sl_text (batch_after b))"

text \<open>What one reply is worth for a batch.\<close>

definition batch_reply :: "batch \<Rightarrow> pystr \<Rightarrow> batch_error + pystr list" where
  "batch_reply b reply =
     (let pairs = map (\<lambda>c. extract_sentinels (sl_text c)) (batch_cues b)
      in read_reply reply (length (batch_cues b)) (multiline_indices (map fst pairs)) (map snd pairs))"

text \<open>\<open>_translate_batch\<close>: the prompt is built from the cleaned texts and the context texts.\<close>

definition translate_batch ::
  "'e llm \<Rightarrow> (pystr \<Rightarrow> pystr) \<Rightarrow> (pystr list \<Rightarrow> pystr list \<Rightarrow> pystr list \<Rightarrow> pystr) \<Rightarrow> nat \<Rightarrow> batch
     \<Rightarrow> 'e batch_outcome \<times> message list list" where
  "translate_batch llm rp prompt_of retry_attempts b =
     (let pairs = map (\<lambda>c. extract_sentinels (sl_text c)) (batch_cues b);
          cleaned = map fst pairs
      in correction_loop llm rp (length (batch_cues b)) (multiline_indices cleaned) (map snd pairs)
           (retry_attempts + 1) 0 [(User, batch_prompt prompt_of b)])"

section \<open>The review batch\<close>

definition reject_scaffolded_correction :: "pystr \<Rightarrow> pystr \<Rightarrow> pystr" where
  "reject_scaffolded_correction corrected fallback =
     (if found REVIEW_SCAFFOLD_RE corrected then fallback else corrected)"

text \<open>\<open>_review_batch\<close>: every failure, also of the call, gives \<open>None\<close>.\<close>

definition review_batch ::
  "(message list \<Rightarrow> 'e + pystr) \<Rightarrow> (pystr list \<Rightarrow> pystr list \<Rightarrow> pystr) \<Rightarrow> (pystr \<Rightarrow> pystr option) \<Rightarrow> batch
     \<Rightarrow> pystr list option" where
  "review_batch llm prompt_of source_text b =
     (let pairs = map (\<lambda>c. extract_sentinels (sl_text c)) (batch_cues b);
          cleaned = map fst pairs;
          prompt = prompt_of (map (\<lambda>c. or_empty (source_text (sl_index c))) (batch_cues b)) cleaned
      in case llm [(User, prompt)] of
           Inl e \<Rightarrow> None
         | Inr reply \<Rightarrow>
             (case parse_numbered_response reply (length (batch_cues b)) (Some (multiline_indices cleaned)) of
                Inl e \<Rightarrow> None
              | Inr ts \<Rightarrow>
                  (case restore_all 0 (map2 reject_scaffolded_correction ts cleaned) (map snd pairs) of
                     Inl e \<Rightarrow> None
                   | Inr us \<Rightarrow> Some us)))"


section \<open>What the parser accepts\<close>

text \<open>The number and the text of a marked line.\<close>

definition mark_of :: "pystr \<Rightarrow> (pystr \<times> pystr) option" where
  "mark_of raw = map_option (\<lambda>(m, g). (Py_Regex.group g 1, strip (Py_Regex.group g 2))) (re_match NUMBERED_LINE_RE (strip raw))"

fun marks :: "pystr list \<Rightarrow> (nat \<times> pystr) list" where
  "marks [] = []"
| "marks (raw # rest) = (case mark_of raw of None \<Rightarrow> marks rest | Some (d, t) \<Rightarrow> (int_of_digits d, t) # marks rest)"

definition short_number :: "pystr \<Rightarrow> bool" where
  "short_number raw \<longleftrightarrow> (case mark_of raw of None \<Rightarrow> True | Some (d, t) \<Rightarrow> length d \<le> 4300)"

lemma update_fresh: "k \<notin> fst ` set p \<Longrightarrow> AList.update k v p = p @ [(k, v)]"
  by (induction p) auto

lemma parse_lines_mark:
  "mark_of raw = Some (d, t) \<Longrightarrow> parse_lines ml (raw # rest) p c =
     (if length d > 4300 then Inl DigitLimit
      else if map_of p (int_of_digits d) \<noteq> None then Inl (Duplicate (int_of_digits d))
      else parse_lines ml rest (AList.update (int_of_digits d) t p) (Some (int_of_digits d)))"
  by (auto simp: mark_of_def Let_def)

lemma parse_lines_prose:
  "mark_of raw = None \<Longrightarrow> parse_lines (Some {}) (raw # rest) p c = parse_lines (Some {}) rest p c"
  by (auto simp: mark_of_def Let_def split: option.splits)

declare parse_lines.simps(2) [simp del]

lemma parse_lines_iff:
  "parse_lines (Some {}) ls p c = Inr d \<longleftrightarrow>
     (\<forall>l \<in> set ls. short_number l) \<and> distinct (map fst (marks ls))
     \<and> fst ` set p \<inter> fst ` set (marks ls) = {} \<and> d = p @ marks ls"
proof (induction ls arbitrary: p c)
  case (Cons l ls)
  show ?case
  proof (cases "mark_of l")
    case None
    with Cons show ?thesis by (simp add: parse_lines_prose short_number_def)
  next
    case (Some m)
    then obtain ds t where m: "mark_of l = Some (ds, t)" by (cases m) auto
    let ?n = "int_of_digits ds"
    show ?thesis
    proof (cases "length ds > 4300 \<or> ?n \<in> fst ` set p")
      case True
      with m show ?thesis by (auto simp: parse_lines_mark short_number_def map_of_eq_None_iff)
    next
      case False
      then have f: "?n \<notin> fst ` set p" and k: "map_of p ?n = None" by (auto simp: map_of_eq_None_iff)
      have "parse_lines (Some {}) (l # ls) p c = parse_lines (Some {}) ls (p @ [(?n, t)]) (Some ?n)"
        using m False k update_fresh[OF f] by (simp add: parse_lines_mark)
      with Cons f m False show ?thesis by (auto simp: short_number_def)
    qed
  qed
qed auto

lemma parse_lines_step:
  assumes "parse_lines ml (l # ls) p c = Inr d"
  obtains p' c' where "parse_lines ml ls p' c' = Inr d" "p' = p \<or> (\<exists>k v. p' = AList.update k v p)"
proof (cases "mark_of l")
  case (Some m)
  then obtain ds t where "mark_of l = Some (ds, t)" by (cases m) auto
  with assms that show ?thesis by (auto simp: parse_lines_mark split: if_splits)
next
  case None
  then have "re_match NUMBERED_LINE_RE (strip l) = None" by (simp add: mark_of_def)
  with assms that show ?thesis
    by (subst (asm) parse_lines.simps(2)) (cases c; auto simp: Let_def split: option.splits if_splits)
qed

lemma parse_lines_distinct:
  "parse_lines ml ls p c = Inr d \<Longrightarrow> distinct (map fst p) \<Longrightarrow> distinct (map fst d)"
proof (induction ls arbitrary: p c)
  case (Cons l ls)
  from Cons.prems(1) obtain p' c' where s: "parse_lines ml ls p' c' = Inr d" "p' = p \<or> (\<exists>k v. p' = AList.update k v p)"
    by (rule parse_lines_step)
  from s(2) Cons.prems(2) have "distinct (map fst p')" by (auto simp: distinct_update)
  with s(1) show ?case by (rule Cons.IH)
qed simp

lemma finish_lines_Inl:
  "finish_lines x ns p = Inl e \<Longrightarrow> \<exists>n \<in> set ns. e = Missing n x \<or> e = EmptyLine n"
  by (induction x ns p rule: finish_lines.induct) (auto simp: Let_def split: option.splits if_splits)

lemma finish_lines_Inr:
  "finish_lines x ns p = Inr d \<Longrightarrow> distinct ns \<Longrightarrow>
     map fst d = map fst p \<and>
     (\<forall>n. map_of d n = (if n \<in> set ns then map_option finish_text (map_of p n) else map_of p n)) \<and>
     (\<forall>n \<in> set ns. map_of p n \<noteq> None \<and> strip (finish_text (or_empty (map_of p n))) \<noteq> [])"
proof (induction x ns p rule: finish_lines.induct)
  case (2 x n ns p)
  from 2(2) obtain t where t: "map_of p n = Some t" "strip (finish_text t) \<noteq> []"
    "finish_lines x ns (AList.update n (finish_text t) p) = Inr d"
    by (auto simp: Let_def split: option.splits if_splits)
  from t(1) have k: "n \<in> set (map fst p)" by (force dest: map_of_SomeD)
  from 2(1)[OF t(1) refl t(2) t(3)] 2(3) have IH: "map fst d = map fst (AList.update n (finish_text t) p)"
    "\<forall>k. map_of d k = (if k \<in> set ns then map_option finish_text (map_of (AList.update n (finish_text t) p) k)
       else map_of (AList.update n (finish_text t) p) k)"
    "\<forall>k \<in> set ns. map_of (AList.update n (finish_text t) p) k \<noteq> None
       \<and> strip (finish_text (or_empty (map_of (AList.update n (finish_text t) p) k))) \<noteq> []"
    by simp_all
  have same: "map_of (AList.update n (finish_text t) p) k = map_of p k" if "k \<in> set ns" for k
    using that 2(3) by (auto simp: update_conv')
  from IH(3) same have "\<forall>k \<in> set ns. map_of p k \<noteq> None \<and> strip (finish_text (or_empty (map_of p k))) \<noteq> []" by simp
  moreover from IH(2) same 2(3) t(1) have
    "map_of d m = (if m \<in> set (n # ns) then map_option finish_text (map_of p m) else map_of p m)" for m
    by (cases "m = n") (auto simp: update_conv')
  moreover from IH(1) k have "map fst d = map fst p" by (simp add: update_keys)
  ultimately show ?case using t(1,2) by auto
qed simp

lemma finish_lines_total:
  "distinct ns \<Longrightarrow> (\<And>n. n \<in> set ns \<Longrightarrow> \<exists>t. map_of p n = Some t \<and> strip (finish_text t) \<noteq> []) \<Longrightarrow>
     \<exists>d. finish_lines x ns p = Inr d"
proof (induction x ns p rule: finish_lines.induct)
  case (2 x n ns p)
  from 2(3)[of n] obtain t where t: "map_of p n = Some t" "strip (finish_text t) \<noteq> []" by auto
  have "\<exists>d. finish_lines x ns (AList.update n (finish_text t) p) = Inr d"
  proof (rule 2(1)[OF t(1) refl t(2)])
    show "distinct ns" using 2(2) by simp
    fix k assume "k \<in> set ns"
    with 2(2) 2(3)[of k] show "\<exists>u. map_of (AList.update n (finish_text t) p) k = Some u \<and> strip (finish_text u) \<noteq> []"
      by (auto simp: update_conv')
  qed
  with t show ?case by simp
qed simp


text \<open>Both ways through the parser, split at the point where its lines are read.\<close>

lemma parse_Inr:
  assumes "parse_numbered_response r n ml = Inr ts"
  obtains p d where "parse_lines ml (splitlines r) [] None = Inr p" "fst ` set p \<subseteq> {1..n}"
    "finish_lines n [1..<Suc n] p = Inr d" "ts = map (\<lambda>k. or_empty (map_of d k)) [1..<Suc n]"
proof -
  obtain p where p: "parse_lines ml (splitlines r) [] None = Inr p"
    using assms by (auto simp: parse_numbered_response_def split: sum.splits)
  then have x: "filter (\<lambda>k. k < 1 \<or> k > n) (map fst p) = []"
    using assms by (auto simp: parse_numbered_response_def Let_def split: if_splits)
  obtain d where d: "finish_lines n [1..<Suc n] p = Inr d"
    using assms p x by (auto simp: parse_numbered_response_def Let_def split: sum.splits)
  from x have "fst ` set p \<subseteq> {1..n}" by (auto simp: filter_empty_conv)
  moreover have "ts = map (\<lambda>k. or_empty (map_of d k)) [1..<Suc n]"
    using assms p x d by (auto simp: parse_numbered_response_def Let_def split: if_splits)
  ultimately show ?thesis using p d that by blast
qed

text \<open>When every number is present no line can be missing from the count.\<close>

lemma finished_length:
  assumes "parse_lines ml ls [] None = Inr p" and "fst ` set p \<subseteq> {1..n}" and "finish_lines n [1..<Suc n] p = Inr d"
  shows "length d = n \<and> fst ` set p = {1..n}"
proof -
  from finish_lines_Inr[OF assms(3)] have m: "map fst d = map fst p" and k: "\<forall>k \<in> {1..n}. map_of p k \<noteq> None"
    by (auto simp del: upt_Suc)
  from k have "{1..n} \<subseteq> fst ` set p" by (metis map_of_eq_None_iff subsetI)
  with assms(2) have s: "fst ` set p = {1..n}" by blast
  from parse_lines_distinct[OF assms(1)] have "distinct (map fst p)" by simp
  then have "length (map fst p) = card (fst ` set p)" by (metis distinct_card set_map)
  with s m show ?thesis by (metis card_atLeastAtMost diff_Suc_1 length_map)
qed

lemma parse_lines_Inl: "parse_lines ml ls p c = Inl f \<Longrightarrow> (\<exists>k. f = Duplicate k) \<or> f = DigitLimit"
proof (induction ls arbitrary: ml p c)
  case (Cons l ls)
  from Cons.prems show ?case
    by (auto simp: parse_lines.simps(2) Let_def split: option.splits if_splits dest: Cons.IH)
qed simp

lemma parse_Inl:
  assumes "parse_numbered_response r n ml = Inl e"
  shows "(\<exists>k. e = Duplicate k) \<or> e = DigitLimit \<or> (\<exists>ks. e = Unexpected ks n)
    \<or> (\<exists>k \<in> {1..n}. e = Missing k n \<or> e = EmptyLine k)"
proof (cases "parse_lines ml (splitlines r) [] None")
  case (Inl e')
  from parse_lines_Inl[OF Inl] have "(\<exists>k. e' = Duplicate k) \<or> e' = DigitLimit" .
  moreover have "e = e'" using assms Inl by (simp add: parse_numbered_response_def)
  ultimately show ?thesis by blast
next
  case (Inr p)
  show ?thesis
  proof (cases "filter (\<lambda>k. k < 1 \<or> k > n) (map fst p) = []")
    case False
    with assms Inr show ?thesis by (auto simp: parse_numbered_response_def Let_def)
  next
    case True
    then have sub: "fst ` set p \<subseteq> {1..n}" by (auto simp: filter_empty_conv)
    show ?thesis
    proof (cases "finish_lines n [1..<Suc n] p")
      case (Inl f)
      with assms Inr True have "e = f" by (simp add: parse_numbered_response_def Let_def del: upt_Suc)
      with finish_lines_Inl[OF Inl] show ?thesis by (auto simp del: upt_Suc)
    next
      case (Inr d)
      from finished_length[OF \<open>parse_lines ml (splitlines r) [] None = Inr p\<close> sub Inr] have "length d = n" by simp
      with assms \<open>parse_lines ml (splitlines r) [] None = Inr p\<close> True Inr show ?thesis
        by (simp add: parse_numbered_response_def Let_def del: upt_Suc)
    qed
  qed
qed

lemma parse_texts:
  assumes "parse_numbered_response r n ml = Inr ts"
  shows "length ts = n \<and> (\<forall>t \<in> set ts. strip t \<noteq> [])"
proof -
  obtain p d where d: "finish_lines n [1..<Suc n] p = Inr d" and ts: "ts = map (\<lambda>k. or_empty (map_of d k)) [1..<Suc n]"
    using assms by (rule parse_Inr)
  from finish_lines_Inr[OF d] have "\<forall>k \<in> set [1..<Suc n]. strip (or_empty (map_of d k)) \<noteq> []"
    by (auto simp del: upt_Suc)
  with ts show ?thesis by (auto simp del: upt_Suc)
qed

definition single_line_reply :: "pystr \<Rightarrow> nat \<Rightarrow> pystr list \<Rightarrow> bool" where
  "single_line_reply r n ts \<longleftrightarrow>
     (let ms = marks (splitlines r) in
      (\<forall>l \<in> set (splitlines r). short_number l) \<and> distinct (map fst ms) \<and> fst ` set ms = {1..n}
      \<and> ts = map (\<lambda>k. finish_text (or_empty (map_of ms k))) [1..<Suc n]
      \<and> (\<forall>t \<in> set ts. strip t \<noteq> []))"

lemma parse_single_line: "parse_numbered_response r n (Some {}) = Inr ts \<longleftrightarrow> single_line_reply r n ts"
proof
  assume a: "parse_numbered_response r n (Some {}) = Inr ts"
  from a obtain p d where p: "parse_lines (Some {}) (splitlines r) [] None = Inr p" "fst ` set p \<subseteq> {1..n}"
    and d: "finish_lines n [1..<Suc n] p = Inr d" and ts: "ts = map (\<lambda>k. or_empty (map_of d k)) [1..<Suc n]"
    by (rule parse_Inr)
  from p(1) have m: "p = marks (splitlines r)" "\<forall>l \<in> set (splitlines r). short_number l" "distinct (map fst p)"
    by (auto simp: parse_lines_iff)
  from finish_lines_Inr[OF d] have "\<forall>k \<in> set [1..<Suc n]. or_empty (map_of d k) = finish_text (or_empty (map_of p k))"
    by (auto simp del: upt_Suc)
  with ts have "ts = map (\<lambda>k. finish_text (or_empty (map_of p k))) [1..<Suc n]" by (simp del: upt_Suc)
  with m finished_length[OF p d] parse_texts[OF a] show "single_line_reply r n ts"
    by (simp add: single_line_reply_def Let_def)
next
  assume "single_line_reply r n ts"
  then have m: "\<forall>l \<in> set (splitlines r). short_number l" "distinct (map fst (marks (splitlines r)))"
    "fst ` set (marks (splitlines r)) = {1..n}"
    and ts: "ts = map (\<lambda>k. finish_text (or_empty (map_of (marks (splitlines r)) k))) [1..<Suc n]"
    and ne: "\<forall>t \<in> set ts. strip t \<noteq> []"
    by (simp_all add: single_line_reply_def Let_def)
  let ?p = "marks (splitlines r)"
  have p: "parse_lines (Some {}) (splitlines r) [] None = Inr ?p" using m by (simp add: parse_lines_iff)
  have x: "filter (\<lambda>k. k < 1 \<or> k > n) (map fst ?p) = []" using m(3) by (auto simp: filter_empty_conv)
  have "\<exists>t. map_of ?p k = Some t \<and> strip (finish_text t) \<noteq> []" if k: "k \<in> set [1..<Suc n]" for k
  proof -
    from k m(3) have "k \<in> fst ` set ?p" by auto
    then obtain t where t: "map_of ?p k = Some t" by (metis map_of_eq_None_iff not_Some_eq)
    from k have "finish_text (or_empty (map_of ?p k)) \<in> set ts" unfolding ts set_map by (rule imageI)
    with ne t show ?thesis by simp
  qed
  then obtain d where d: "finish_lines n [1..<Suc n] ?p = Inr d"
    using finish_lines_total[of "[1..<Suc n]" ?p n] by (auto simp del: upt_Suc)
  have "\<forall>k \<in> set [1..<Suc n]. or_empty (map_of d k) = finish_text (or_empty (map_of ?p k))"
    using finish_lines_Inr[OF d] by (auto simp del: upt_Suc)
  with ts have "ts = map (\<lambda>k. or_empty (map_of d k)) [1..<Suc n]" by (simp del: upt_Suc)
  moreover have "length d = n" using finished_length[OF p _ d] m(3) by simp
  ultimately show "parse_numbered_response r n (Some {}) = Inr ts"
    using p x d by (simp add: parse_numbered_response_def Let_def del: upt_Suc)
qed


section \<open>Reading a rendered reply\<close>

text \<open>The result the matcher tries first.\<close>

definition hd_match :: "rx \<Rightarrow> pystr \<Rightarrow> pystr \<Rightarrow> caps \<Rightarrow> mres \<Rightarrow> bool" where
  "hd_match r l s g x \<longleftrightarrow> (\<exists>xs. rmatch r l s g = x # xs)"

lemma hd_match_chr: "hd_match (rchr c) l (c # s) g (c # l, s, g)"
  by (simp add: hd_match_def rchr_def)

lemma hd_match_seq: "hd_match a l s g (l1, s1, g1) \<Longrightarrow> hd_match b l1 s1 g1 x \<Longrightarrow> hd_match (RSeq a b) l s g x"
  by (auto simp: hd_match_def)

lemma hd_match_grp:
  "hd_match a l (w @ s) g (l1, s, g1) \<Longrightarrow> hd_match (RGrp n a) l (w @ s) g (l1, s, (n, w) # g1)"
  by (auto simp: hd_match_def)

lemma hd_match_opt_skip: "rmatch a l s g = [] \<Longrightarrow> hd_match (ropt a) l s g (l, s, g)"
  by (simp add: hd_match_def ropt_def)

lemma hd_match_star_cls:
  "\<forall>c \<in> set w. p c \<Longrightarrow> (u = [] \<or> \<not> p (hd u)) \<Longrightarrow> hd_match (RStar (RCls p)) l (w @ u) g (rev w @ l, u, g)"
proof (induction w arbitrary: l)
  case Nil
  then show ?case
    by (subst hd_match_def, subst rmatch.simps(5)) (auto split: list.splits)
next
  case (Cons c w)
  then have "hd_match (RStar (RCls p)) (c # l) (w @ u) g (rev w @ c # l, u, g)" by simp
  with Cons.prems show ?case
    by (subst hd_match_def, subst rmatch.simps(5)) (auto simp: hd_match_def)
qed

lemma hd_match_plus_cls:
  "w \<noteq> [] \<Longrightarrow> \<forall>c \<in> set w. p c \<Longrightarrow> (u = [] \<or> \<not> p (hd u)) \<Longrightarrow>
     hd_match (rplus (RCls p)) l (w @ u) g (rev w @ l, u, g)"
  using hd_match_star_cls[of "tl w" p u "hd w # l" g] by (cases w) (auto simp: rplus_def hd_match_def)

lemma re_match_hd: "hd_match r [] s [] (l', s', g) \<Longrightarrow> re_match r s = Some (rev l', g)"
  by (auto simp: hd_match_def re_match_def first_match_def)

definition numbered_line :: "nat \<Rightarrow> pystr \<Rightarrow> pystr" where
  "numbered_line k t = [91] @ dec k @ [93, 32] @ t"

text \<open>A trimmed text of one line; a plain one is also untouched by \<open>finish_text\<close>.\<close>

definition line_text :: "pystr \<Rightarrow> bool" where
  "line_text t \<longleftrightarrow> t \<noteq> [] \<and> \<not> is_space (hd t) \<and> \<not> is_space (last t) \<and> (\<forall>c \<in> set t. \<not> line_break c)"

definition plain_text :: "pystr \<Rightarrow> bool" where
  "plain_text t \<longleftrightarrow> t \<noteq> [] \<and> \<not> is_space (hd t) \<and> \<not> is_space (last t) \<and> (\<forall>c \<in> set t. \<not> line_break c)
     \<and> \<not> found BR_RE t \<and> \<not> found LEAKED_HINT_RE t \<and> \<not> found LEAKED_VN_HINT_RE t \<and> \<not> found LEAKED_DIRECTIVE_RE t"

lemma plain_line: "plain_text t \<Longrightarrow> line_text t"
  by (simp add: plain_text_def line_text_def)

lemma is_digit_dec: "c \<in> set (dec k) \<Longrightarrow> is_digit c"
  using dec_digits ascii_digit_is_digit by blast

lemma numbered_line_match:
  assumes "t \<noteq> []" and "\<not> is_space (hd t)" and "10 \<notin> set t"
  shows "re_match NUMBERED_LINE_RE (numbered_line k t) = Some (numbered_line k t, [(2, t), (1, dec k)])"
proof -
  let ?l1 = "rev (dec k) @ [91]" and ?g1 = "[(1, dec k)]"
  have d: "hd_match (RGrp 1 (rplus (RCls is_digit))) [91] (dec k @ 93 # 32 # t) [] (?l1, 93 # 32 # t, ?g1)"
    by (intro hd_match_grp hd_match_plus_cls) (auto simp: is_digit_dec ascii_eval)
  have o: "hd_match (ropt (RCls (\<lambda>c. c = 46 \<or> c = 41))) (93 # ?l1) (32 # t) ?g1 (93 # ?l1, 32 # t, ?g1)"
    by (intro hd_match_opt_skip) simp
  have s: "hd_match rspaces (93 # ?l1) (32 # t) ?g1 (32 # 93 # ?l1, t, ?g1)"
    using hd_match_star_cls[of "[32]" is_space t "93 # ?l1" ?g1] assms(2) by (simp add: rspaces_def ascii_eval)
  have "hd_match (RStar (RCls (\<lambda>c. c \<noteq> 10))) (32 # 93 # ?l1) (t @ []) ?g1 (rev t @ 32 # 93 # ?l1, [], ?g1)"
    by (intro hd_match_star_cls) (use assms(3) in auto)
  from hd_match_grp[OF this, of 2] have x:
    "hd_match (RGrp 2 (RStar (RCls (\<lambda>c. c \<noteq> 10)))) (32 # 93 # ?l1) t ?g1 (rev t @ 32 # 93 # ?l1, [], [(2, t), (1, dec k)])"
    by simp
  have "hd_match NUMBERED_LINE_RE [] (numbered_line k t) [] (rev t @ 32 # 93 # ?l1, [], [(2, t), (1, dec k)])"
    unfolding NUMBERED_LINE_RE_def numbered_line_def using d o s x
    by (auto intro!: hd_match_seq hd_match_chr)
  from re_match_hd[OF this] show ?thesis by (simp add: numbered_line_def)
qed

lemma int_of_digits_snoc: "int_of_digits (s @ [c]) = 10 * int_of_digits s + digit_value c"
  by (simp add: int_of_digits_def)

lemma int_of_digits_dec [simp]: "int_of_digits (dec n) = n"
proof (induction n rule: dec.induct)
  case (1 n)
  show ?case
  proof (cases "n < 10")
    case True
    then show ?thesis by (subst dec.simps) (simp add: int_of_digits_def)
  next
    case False
    with 1 show ?thesis by (subst dec.simps) (simp add: int_of_digits_snoc)
  qed
qed

lemma numbered_line_mark:
  assumes "line_text t"
  shows "mark_of (numbered_line k t) = Some (dec k, t)"
proof -
  from assms have t: "t \<noteq> []" "\<not> is_space (hd t)" "\<not> is_space (last t)" "10 \<notin> set t"
    by (auto simp: line_text_def line_break_def)
  have "strip (numbered_line k t) = numbered_line k t"
    using t by (intro strip_no_space) (auto simp: numbered_line_def ascii_eval)
  moreover have "strip t = t" using t by (intro strip_no_space)
  ultimately show ?thesis
    using numbered_line_match[OF t(1,2,4)] by (simp add: mark_of_def Py_Regex.group_def)
qed

lemma splitlines_keep_line:
  "\<forall>c \<in> set x. \<not> line_break c \<Longrightarrow> splitlines_keep (x @ 10 # s) = (x @ [10]) # splitlines_keep s"
proof (induction x)
  case Nil
  show ?case by (cases s) (auto simp: line_break_def)
next
  case (Cons c x)
  obtain d y where d: "x @ 10 # s = d # y" by (cases x) auto
  have "c \<noteq> 13" using Cons.prems by (auto simp: line_break_def)
  with Cons d show ?case by simp
qed

lemma splitlines_keep_last: "\<forall>c \<in> set x. \<not> line_break c \<Longrightarrow> x \<noteq> [] \<Longrightarrow> splitlines_keep x = [x]"
  by (induction x rule: splitlines_keep.induct) (auto simp: line_break_def)

lemma chop_eol_line: "\<forall>c \<in> set x. \<not> line_break c \<Longrightarrow> chop_eol (x @ [10]) = x"
  by (cases "rev x") (auto simp: chop_eol_def ends_with_def line_break_def)

lemma chop_eol_last: "\<forall>c \<in> set x. \<not> line_break c \<Longrightarrow> chop_eol x = x"
proof -
  assume a: "\<forall>c \<in> set x. \<not> line_break c"
  have "\<not> ends_with CRLF x"
  proof
    assume "ends_with CRLF x"
    then have "10 \<in> set x" by (auto simp: ends_with_iff)
    with a show False by (auto simp: line_break_def)
  qed
  moreover have "\<not> line_break (hd (rev x))" if "x \<noteq> []"
    using a that by (metis hd_in_set rev_is_Nil_conv set_rev)
  ultimately show ?thesis by (auto simp: chop_eol_def split: list.splits)
qed

lemma splitlines_join:
  "xs \<noteq> [] \<Longrightarrow> \<forall>x \<in> set xs. x \<noteq> [] \<and> (\<forall>c \<in> set x. \<not> line_break c) \<Longrightarrow> splitlines (join_with [10] xs) = xs"
proof (induction "[10] :: pystr" xs rule: join_with.induct)
  case (3 x y xs)
  then show ?case by (simp add: splitlines_def splitlines_keep_line chop_eol_line)
qed (auto simp: splitlines_def splitlines_keep_last chop_eol_last)

lemma finish_plain: "plain_text t \<Longrightarrow> finish_text t = t"
proof -
  assume t: "plain_text t"
  then have "10 \<notin> set t" by (auto simp: plain_text_def line_break_def)
  then have "\<not> found (RSeq BR_RE (RSeq rblanks (rchr 10))) t" "\<not> found (RSeq (rchr 10) (RSeq rblanks BR_RE)) t"
    by (auto simp: found_iff rxm_seq)
  with t show ?thesis
    by (simp add: finish_text_def restore_breaks_def strip_echoes_def plain_text_def re_sub_none)
qed

definition numbered_reply :: "pystr list \<Rightarrow> pystr" where
  "numbered_reply ts = join_with [10] (map (\<lambda>(k, t). numbered_line k t) (enumerate 1 ts))"

lemma marks_numbered:
  "\<forall>t \<in> set ts. line_text t \<Longrightarrow> marks (map (\<lambda>(k, t). numbered_line k t) (enumerate k ts)) = enumerate k ts"
  by (induction ts arbitrary: k) (auto simp: numbered_line_mark)


lemma length_dec_mono: "k \<le> n \<Longrightarrow> length (dec k) \<le> length (dec n)"
proof (induction n arbitrary: k rule: dec.induct)
  case (1 n)
  have pos: "1 \<le> length (dec n)" by (metis One_nat_def Suc_leI dec_nonempty length_greater_0_conv)
  show ?case
  proof (cases "k < 10")
    case True
    then have "length (dec k) = 1" by (subst dec.simps) simp
    with pos show ?thesis by simp
  next
    case False
    with "1.prems" have "\<not> n < 10" "k div 10 \<le> n div 10" by (auto simp: div_le_mono)
    with "1.IH" have "length (dec (k div 10)) \<le> length (dec (n div 10))" by blast
    with False \<open>\<not> n < 10\<close> show ?thesis by (subst dec.simps, subst (2) dec.simps) simp
  qed
qed

lemma numbered_lines_mem:
  "x \<in> set (map (\<lambda>(k, t). numbered_line k t) (enumerate 1 ts)) \<longleftrightarrow>
     (\<exists>k < length ts. x = numbered_line (Suc k) (ts ! k))" (is "?l \<longleftrightarrow> ?r")
proof
  assume ?l
  then obtain k t where "(k, t) \<in> set (enumerate 1 ts)" "x = numbered_line k t" by auto
  then have "k - 1 < length ts" "x = numbered_line (Suc (k - 1)) (ts ! (k - 1))"
    by (auto simp: in_set_enumerate_eq)
  then show ?r by blast
next
  assume ?r
  then obtain k where k: "k < length ts" "x = numbered_line (Suc k) (ts ! k)" by blast
  then have "(Suc k, ts ! k) \<in> set (enumerate 1 ts)" by (simp add: in_set_enumerate_eq)
  with k show ?l by force
qed

lemma splitlines_numbered:
  assumes "\<forall>t \<in> set ts. line_text t" and "ts \<noteq> []"
  shows "splitlines (numbered_reply ts) = map (\<lambda>(k, t). numbered_line k t) (enumerate 1 ts)"
  unfolding numbered_reply_def
proof (rule splitlines_join)
  show "map (\<lambda>(k, t). numbered_line k t) (enumerate 1 ts) \<noteq> []" using assms(2) by (cases ts) auto
  show "\<forall>x \<in> set (map (\<lambda>(k, t). numbered_line k t) (enumerate 1 ts)). x \<noteq> [] \<and> (\<forall>c \<in> set x. \<not> line_break c)"
  proof
    fix x assume "x \<in> set (map (\<lambda>(k, t). numbered_line k t) (enumerate 1 ts))"
    then obtain k t where x: "x = numbered_line k t" "t \<in> set ts" unfolding numbered_lines_mem by auto
    have "\<not> line_break c" if "c \<in> set (dec k)" for c
      using dec_digits[of k] that by (auto simp: ascii_digit_def line_break_def)
    with x assms(1) show "x \<noteq> [] \<and> (\<forall>c \<in> set x. \<not> line_break c)"
      by (auto simp: numbered_line_def line_text_def line_break_def)
  qed
qed

lemma numbered_marks:
  assumes "\<forall>t \<in> set ts. line_text t \<and> strip (finish_text t) \<noteq> []" and "length (dec (length ts)) \<le> 4300"
    and "ts \<noteq> []"
  shows "single_line_reply (numbered_reply ts) (length ts) (map finish_text ts)"
proof -
  let ?ls = "map (\<lambda>(k, t). numbered_line k t) (enumerate 1 ts)"
  from assms(1) have l: "\<forall>t \<in> set ts. line_text t" by blast
  have ls: "splitlines (numbered_reply ts) = ?ls" by (rule splitlines_numbered[OF l assms(3)])
  have short: "\<forall>l \<in> set ?ls. short_number l"
  proof
    fix x assume "x \<in> set ?ls"
    then obtain k where k: "k < length ts" "x = numbered_line (Suc k) (ts ! k)"
      unfolding numbered_lines_mem by blast
    with l have "mark_of x = Some (dec (Suc k), ts ! k)" by (simp add: numbered_line_mark)
    moreover have "length (dec (Suc k)) \<le> length (dec (length ts))" using k(1) by (intro length_dec_mono) simp
    ultimately show "short_number x" using assms(2) by (simp add: short_number_def)
  qed
  have keys: "fst ` set (enumerate 1 ts) = {1..length ts}"
    by (metis atLeastLessThanSuc_atLeastAtMost image_set length_enumerate map_fst_enumerate plus_1_eq_Suc set_upt)
  have val: "map (\<lambda>k. finish_text (or_empty (map_of (enumerate 1 ts) k))) [1..<Suc (length ts)] = map finish_text ts"
  proof (rule nth_equalityI)
    fix i assume "i < length (map (\<lambda>k. finish_text (or_empty (map_of (enumerate 1 ts) k))) [1..<Suc (length ts)])"
    then have i: "i < length ts" by (simp del: upt_Suc)
    have "(Suc i, ts ! i) \<in> set (enumerate 1 ts)" using i by (simp add: in_set_enumerate_eq)
    then have "map_of (enumerate 1 ts) (Suc i) = Some (ts ! i)"
      by (intro map_of_is_SomeI) (simp_all del: upt_Suc)
    with i show "map (\<lambda>k. finish_text (or_empty (map_of (enumerate 1 ts) k))) [1..<Suc (length ts)] ! i = map finish_text ts ! i"
      by (simp del: upt_Suc)
  qed (simp del: upt_Suc)
  from assms(1) short val keys show ?thesis
    unfolding single_line_reply_def ls marks_numbered[OF l] Let_def
    by (simp del: upt_Suc)
qed

section \<open>The loop\<close>

text \<open>One round: the call fails, the reply reads, the loop gives up, or it goes on.\<close>

lemma correction_loop_cases [consumes 1, case_names call read stop again]:
  assumes "correction_loop llm rp n ml maps (Suc left) k ms = (out, calls)"
  obtains e where "out = CallFailed e" "calls = [ms]"
  | reply ts where "read_reply reply n ml maps = Inr ts" "out = Texts ts" "calls = [ms]"
  | reply e where "read_reply reply n ml maps = Inl e" "e = DigitLimit \<or> left = 0" "out = BatchFailed e" "calls = [ms]"
  | reply e cs where "read_reply reply n ml maps = Inl e" "left \<noteq> 0"
      "correction_loop llm rp n ml maps left (Suc k)
         (ms @ [(Assistant, reply), (User, STRUCT_CORRECTION_MSG (error_text rp e) n)]) = (out, cs)"
      "calls = ms # cs"
proof (cases "llm k ms")
  case (Inl e)
  with assms have "out = CallFailed e" "calls = [ms]" by simp_all
  then show ?thesis by (rule that(1))
next
  case (Inr reply)
  show ?thesis
  proof (cases "read_reply reply n ml maps")
    case (Inl e)
    with assms \<open>llm k ms = Inr reply\<close> that(3,4) show ?thesis
      by (auto simp: Let_def is_batch_error_def split: if_splits prod.splits)
  next
    case (Inr ts)
    with assms \<open>llm k ms = Inr reply\<close> that(2) show ?thesis by auto
  qed
qed

lemma correction_loop_calls:
  "correction_loop llm rp n ml maps left k ms = (out, calls) \<Longrightarrow>
     length calls \<le> left \<and> (\<forall>i < length calls. take (length ms) (calls ! i) = ms \<and> length (calls ! i) = length ms + 2 * i)"
proof (induction left arbitrary: k ms calls)
  case (Suc left)
  from Suc.prems show ?case
  proof (cases rule: correction_loop_cases)
    case (again reply e cs)
    let ?ms = "ms @ [(Assistant, reply), (User, STRUCT_CORRECTION_MSG (error_text rp e) n)]"
    have l: "length cs \<le> left" using Suc.IH[OF again(3)] by simp
    have c: "take (length ?ms) (cs ! i) = ?ms" "length (cs ! i) = length ms + 2 + 2 * i" if "i < length cs" for i
      using Suc.IH[OF again(3)] that by simp_all
    have "take (length ms) (cs ! i) = ms" if "i < length cs" for i
      using arg_cong[OF c(1)[OF that], of "take (length ms)"] by simp
    with l c(2) again(4) show ?thesis by (auto simp: less_Suc_eq_0_disj)
  qed auto
qed simp

lemma correction_loop_fails:
  "correction_loop llm rp n ml maps (Suc left) k ms = (BatchFailed e, calls) \<Longrightarrow>
     (e = DigitLimit \<or> length calls = Suc left) \<and> (\<exists>reply. read_reply reply n ml maps = Inl e)"
proof (induction left arbitrary: k ms calls)
  case 0
  from 0 show ?case by (cases rule: correction_loop_cases) auto
next
  case (Suc left)
  from Suc.prems show ?case
  proof (cases rule: correction_loop_cases)
    case (again reply e cs)
    from Suc.IH[OF again(3)] again(4) show ?thesis by simp
  qed auto
qed

lemma correction_loop_texts:
  "correction_loop llm rp n ml maps left k ms = (Texts ts, calls) \<Longrightarrow> \<exists>reply. read_reply reply n ml maps = Inr ts"
proof (induction left arbitrary: k ms calls)
  case (Suc left)
  from Suc.prems show ?case
  proof (cases rule: correction_loop_cases)
    case (again reply e cs)
    from Suc.IH[OF again(3)] show ?thesis .
  qed auto
qed simp

text \<open>Every call before the j-th answers, none hits the digit limit, and the j-th answer reads.\<close>

lemma correction_loop_succeeds:
  assumes "j < left"
    and "\<And>i m. i < j \<Longrightarrow> \<exists>reply. llm (k + i) m = Inr reply \<and> read_reply reply n ml maps \<noteq> Inl DigitLimit"
    and "\<And>m. \<exists>reply ts. llm (k + j) m = Inr reply \<and> read_reply reply n ml maps = Inr ts"
  shows "\<exists>us calls. correction_loop llm rp n ml maps left k ms = (Texts us, calls) \<and> length calls \<le> Suc j"
  using assms
proof (induction j arbitrary: left k ms)
  case 0
  then obtain l where l: "left = Suc l" by (cases left) auto
  from 0(3)[of ms] obtain reply ts where "llm k ms = Inr reply" "read_reply reply n ml maps = Inr ts" by auto
  with l show ?case by simp
next
  case (Suc j)
  then obtain l where l: "left = Suc l" "j < l" by (cases left) auto
  from Suc.prems(2)[of 0 ms] obtain reply where r: "llm k ms = Inr reply" "read_reply reply n ml maps \<noteq> Inl DigitLimit" by auto
  show ?case
  proof (cases "read_reply reply n ml maps")
    case (Inr us)
    with r l show ?thesis by simp
  next
    case (Inl e)
    have "\<exists>us calls. correction_loop llm rp n ml maps l (Suc k)
        (ms @ [(Assistant, reply), (User, STRUCT_CORRECTION_MSG (error_text rp e) n)]) = (Texts us, calls) \<and> length calls \<le> Suc j"
    proof (rule Suc.IH[OF l(2)])
      show "\<exists>reply. llm (Suc k + i) m = Inr reply \<and> read_reply reply n ml maps \<noteq> Inl DigitLimit" if "i < j" for i m
        using Suc.prems(2)[of "Suc i" m] that by simp
      show "\<exists>reply ts. llm (Suc k + j) m = Inr reply \<and> read_reply reply n ml maps = Inr ts" for m
        using Suc.prems(3)[of m] by simp
    qed
    with r l Inl show ?thesis by (auto simp: is_batch_error_def)
  qed
qed

lemma restore_all_Inl: "restore_all i ts ms = Inl e \<Longrightarrow> \<exists>j t. e = SentinelLost j t"
  by (induction i ts ms rule: restore_all.induct) (auto simp: Let_def split: prod.splits if_splits sum.splits)

lemma read_reply_Inl:
  assumes "read_reply reply n ml maps = Inl e"
  shows "e \<noteq> Exhausted \<and> (\<nexists>k m. e = WrongCount k m)"
proof (cases "parse_numbered_response reply n (Some ml)")
  case (Inl f)
  from parse_Inl[OF Inl] show ?thesis using Inl assms by (auto simp: read_reply_def)
next
  case (Inr ts)
  with assms have "restore_all 0 ts maps = Inl e" by (simp add: read_reply_def)
  from restore_all_Inl[OF this] show ?thesis by auto
qed

lemma restore_all_ok:
  "restore_all i ts ms = Inr us \<Longrightarrow> length us = min (length ts) (length ms)
     \<and> (\<forall>j < length us. reinsert_sentinels (ts ! j) (ms ! j) = (us ! j, True))"
proof (induction i ts ms arbitrary: us rule: restore_all.induct)
  case (1 i t ts m ms)
  obtain r ok where r: "reinsert_sentinels t m = (r, ok)" by fastforce
  with 1(2) obtain vs where v: "ok" "restore_all (Suc i) ts ms = Inr vs" "us = r # vs"
    by (auto split: if_splits sum.splits)
  from 1(1)[OF r[symmetric] refl _ v(2)] v r show ?case by (auto simp: less_Suc_eq_0_disj)
qed auto

lemma read_reply_ok:
  assumes "read_reply reply n ml maps = Inr us" and "length maps = n"
  shows "length us = n \<and> (\<forall>j < n. \<exists>t. strip t \<noteq> [] \<and> reinsert_sentinels t (maps ! j) = (us ! j, True))"
proof -
  from assms(1) obtain ts where t: "parse_numbered_response reply n (Some ml) = Inr ts" "restore_all 0 ts maps = Inr us"
    by (auto simp: read_reply_def split: sum.splits)
  from parse_texts[OF t(1)] restore_all_ok[OF t(2)] assms(2) show ?thesis by (auto simp: in_set_conv_nth) (metis nth_mem)
qed


declare correction_loop.simps(2) [simp del]

definition batch_maps :: "batch \<Rightarrow> sentinel_map list" where
  "batch_maps b = map (\<lambda>c. snd (extract_sentinels (sl_text c))) (batch_cues b)"

definition batch_ml :: "batch \<Rightarrow> nat set" where
  "batch_ml b = multiline_indices (map (\<lambda>c. fst (extract_sentinels (sl_text c))) (batch_cues b))"

lemma length_batch_maps [simp]: "length (batch_maps b) = length (batch_cues b)"
  by (simp add: batch_maps_def)

lemma translate_batch_eq:
  "translate_batch llm rp prompt_of retries b = correction_loop llm rp (length (batch_cues b)) (batch_ml b) (batch_maps b)
     (Suc retries) 0 [(User, batch_prompt prompt_of b)]"
  by (simp add: translate_batch_def batch_maps_def batch_ml_def Let_def comp_def)

lemma batch_reply_eq: "batch_reply b reply = read_reply reply (length (batch_cues b)) (batch_ml b) (batch_maps b)"
  by (simp add: batch_reply_def batch_maps_def batch_ml_def Let_def comp_def)

text \<open>Without prose between them the lines read the same for every set of multi-line cues.\<close>

lemma parse_lines_marked:
  "\<forall>l \<in> set ls. mark_of l \<noteq> None \<Longrightarrow> parse_lines ml ls p c = parse_lines ml' ls p c"
proof (induction ls arbitrary: p c)
  case (Cons l ls)
  then obtain d t where "mark_of l = Some (d, t)" by (cases "mark_of l") auto
  with Cons show ?case by (simp add: parse_lines_mark)
qed simp

lemma parse_numbered_lines:
  assumes "\<forall>t \<in> set ts. line_text t \<and> strip (finish_text t) \<noteq> []" and "length (dec (length ts)) \<le> 4300"
    and "ts \<noteq> []"
  shows "parse_numbered_response (numbered_reply ts) (length ts) ml = Inr (map finish_text ts)"
proof -
  from assms(1) have l: "\<forall>t \<in> set ts. line_text t" by blast
  have "\<forall>x \<in> set (splitlines (numbered_reply ts)). mark_of x \<noteq> None"
  proof
    fix x assume "x \<in> set (splitlines (numbered_reply ts))"
    then obtain k where "k < length ts" "x = numbered_line (Suc k) (ts ! k)"
      unfolding splitlines_numbered[OF l assms(3)] numbered_lines_mem by blast
    with l show "mark_of x \<noteq> None" by (simp add: numbered_line_mark)
  qed
  from parse_lines_marked[OF this, of ml "[]" None "Some {}"] have
    "parse_numbered_response (numbered_reply ts) (length ts) ml = parse_numbered_response (numbered_reply ts) (length ts) (Some {})"
    unfolding parse_numbered_response_def by simp
  also have "\<dots> = Inr (map finish_text ts)" unfolding parse_single_line by (rule numbered_marks[OF assms])
  finally show ?thesis .
qed

lemma parse_numbered:
  assumes "\<forall>t \<in> set ts. plain_text t" and "length (dec (length ts)) \<le> 4300" and "ts \<noteq> []"
  shows "parse_numbered_response (numbered_reply ts) (length ts) ml = Inr ts"
proof -
  have p: "line_text t \<and> strip (finish_text t) \<noteq> []" "finish_text t = t" if "plain_text t" for t
    using that by (auto simp: plain_line finish_plain plain_text_def strip_no_space)
  have "map finish_text ts = ts" using p(2) assms(1) by (simp add: map_idI)
  with parse_numbered_lines[of ts ml] p(1) assms show ?thesis by simp
qed


text \<open>Characters that rule the patterns out.\<close>

lemma plain_textI:
  assumes "t \<noteq> []" and "\<not> is_space (hd t)" and "\<not> is_space (last t)" and "\<forall>c \<in> set t. \<not> line_break c"
    and "60 \<notin> set t" and "40 \<notin> set t" and "91 \<notin> set t"
  shows "plain_text t"
proof -
  have "\<not> found BR_RE t" using assms(5) by (auto simp: found_iff BR_RE_def rxm_seq lit_def)
  moreover have "\<not> found LEAKED_HINT_RE t" using assms(6) by (auto simp: found_iff LEAKED_HINT_RE_def rxm_seq)
  moreover have "\<not> found LEAKED_DIRECTIVE_RE t" using assms(7) by (auto simp: found_iff LEAKED_DIRECTIVE_RE_def rxm_seq)
  moreover have "\<not> found LEAKED_VN_HINT_RE t"
    using assms(6,7) by (auto simp: found_iff LEAKED_VN_HINT_RE_def vn_hint_in_def rxm_seq)
  ultimately show ?thesis using assms by (simp add: plain_text_def)
qed

lemma extract_untagged: "60 \<notin> set t \<Longrightarrow> 92 \<notin> set t \<Longrightarrow> extract_sentinels t = (t, [])"
proof -
  assume "60 \<notin> set t" "92 \<notin> set t"
  then have "\<not> found TAG_RE t" by (auto simp: found_iff TAG_RE_def rxm_seq)
  then show ?thesis by (simp add: extract_sentinels_def pieces_none)
qed

lemma reinsert_untagged: "60 \<notin> set t \<Longrightarrow> reinsert_sentinels t [] = (t, True)"
proof -
  assume "60 \<notin> set t"
  then have "\<not> found SENTINEL_RE t" by (auto simp: found_iff SENTINEL_RE_def rxm_seq lit_def)
  then show ?thesis
    by (simp add: reinsert_sentinels_def strip_orphans_def orphan_tokens_def re_findall_none)
qed

definition sample_texts :: "pystr list" where
  "sample_texts = [lit ''ab'', lit ''c'']"

lemma sample_texts_plain: "\<forall>t \<in> set sample_texts. plain_text t" "sample_texts \<noteq> []" "length (dec (length sample_texts)) \<le> 4300"
  by (auto intro!: plain_textI simp: sample_texts_def lit_def ascii_eval line_break_def dec.simps)

definition sample_batch :: batch where
  "sample_batch = \<lparr>batch_cues = [sample_cue 1, sample_cue 2], batch_before = [], batch_after = []\<rparr>"

lemma sample_maps: "batch_maps sample_batch = [[], []]"
  by (simp add: batch_maps_def sample_batch_def sample_cue_def extract_untagged lit_def)

lemma sample_reply: "batch_reply sample_batch (numbered_reply sample_texts) = Inr sample_texts"
proof -
  have "parse_numbered_response (numbered_reply sample_texts) 2 ml = Inr sample_texts" for ml
    using parse_numbered[OF sample_texts_plain(1,3,2)] by (simp add: sample_texts_def numeral_2_eq_2)
  then show ?thesis
    unfolding batch_reply_eq sample_maps read_reply_def
    by (simp add: sample_batch_def numeral_2_eq_2) (simp add: sample_texts_def reinsert_untagged lit_def)
qed

lemma sample_translation:
  "translate_batch (\<lambda>k m. Inr (numbered_reply sample_texts)) rp prompt_of 2 sample_batch =
     (Texts sample_texts, [[(User, batch_prompt prompt_of sample_batch)]])"
  using sample_reply unfolding translate_batch_eq batch_reply_eq correction_loop.simps(2) by simp

text \<open>A model that never numbers its lines uses up the budget.\<close>

lemma sample_refusal_mark: "mark_of (lit ''no'') = None"
  by (simp add: mark_of_def NUMBERED_LINE_RE_def strip_no_space ascii_eval lit_def rx_eval)

lemma sample_refusal: "batch_reply sample_batch (lit ''no'') = Inl (Missing 1 2)"
proof -
  have l: "splitlines (lit ''no'') = [lit ''no'']"
    using splitlines_join[of "[lit ''no'']"] by (simp add: lit_def line_break_def)
  have m: "multiline_indices [lit ''abc'', lit ''abc''] = {}"
    by (simp add: multiline_indices_def lit_def)
  have "batch_ml sample_batch = {}"
    using m by (simp add: batch_ml_def sample_batch_def sample_cue_def extract_untagged lit_def)
  then have "batch_reply sample_batch (lit ''no'') = read_reply (lit ''no'') 2 {} [[], []]"
    unfolding batch_reply_eq sample_maps by (simp add: sample_batch_def numeral_2_eq_2)
  also have "\<dots> = Inl (Missing 1 2)"
    unfolding read_reply_def parse_numbered_response_def l
    by (simp add: parse_lines_prose sample_refusal_mark Let_def numeral_2_eq_2)
  finally show ?thesis .
qed

section \<open>Properties\<close>

text \<open>
  C29: When no cue has an inner line break the parser accepts exactly the replies whose marked
  lines carry every number from 1 to n once, in any order and with any prose around them, and
  whose texts are not blank once the breaks are restored and the echoes of the prompt are cut
  off; its result is those texts in the order of their numbers.
\<close>

theorem reply_accepted_iff:
  "parse_numbered_response r n (Some {}) = Inr ts \<longleftrightarrow> single_line_reply r n ts"
  by (rule parse_single_line)

text \<open>
  Rendering texts as numbered lines and parsing the result gives the texts back, whichever
  cues are multi-line: for texts of one line, trimmed, without a break token or an echo of the
  prompt at the start.
\<close>

theorem reply_roundtrip:
  assumes "\<forall>t \<in> set ts. plain_text t" and "length (dec (length ts)) \<le> 4300" and "ts \<noteq> []"
  shows "parse_numbered_response (numbered_reply ts) (length ts) ml = Inr ts"
  using assms by (rule parse_numbered)

theorem reply_roundtrip_witness:
  "parse_numbered_response (numbered_reply sample_texts) (length sample_texts) None = Inr sample_texts"
  by (rule reply_roundtrip[OF sample_texts_plain(1,3,2)])

text \<open>
  A reply is rejected for one of four reasons: a repeated number, numbers outside 1 to n, a
  number of that range missing, or a blank text under one of them (or a number of more than 4300
  digits stops \<open>int\<close>). The count check at the end of the parser never fires.
\<close>

theorem reply_errors:
  assumes "parse_numbered_response r n ml = Inl e"
  shows "(\<exists>k. e = Duplicate k) \<or> e = DigitLimit \<or> (\<exists>ks. e = Unexpected ks n)
    \<or> (\<exists>k \<in> {1..n}. e = Missing k n \<or> e = EmptyLine k)"
  using assms by (rule parse_Inl)

theorem reply_errors_witness: "\<exists>k \<in> {1..1}. Missing 1 1 = Missing k 1 \<or> Missing 1 1 = EmptyLine k"
proof -
  have "parse_numbered_response [] 1 None = Inl (Missing 1 1)"
    by (simp add: parse_numbered_response_def splitlines_def)
  from reply_errors[OF this] show ?thesis by auto
qed



text \<open>
  What the loop returns is safe to splice: one text for each cue of the batch, each the
  restoration of a non-blank text in which no tag of the cue was lost, and without a token.
\<close>

theorem translate_batch_accepts:
  assumes "translate_batch llm rp prompt_of retries b = (Texts ts, calls)"
  shows "length ts = length (batch_cues b) \<and> (\<forall>j < length ts. \<not> found SENTINEL_RE (ts ! j)
    \<and> (\<exists>t. strip t \<noteq> [] \<and> reinsert_sentinels t (snd (extract_sentinels (sl_text (batch_cues b ! j)))) = (ts ! j, True)))"
proof -
  from correction_loop_texts[OF assms[unfolded translate_batch_eq]] obtain reply where
    "read_reply reply (length (batch_cues b)) (batch_ml b) (batch_maps b) = Inr ts" ..
  then have r: "length ts = length (batch_cues b)"
    "\<forall>j < length ts. \<exists>t. strip t \<noteq> [] \<and> reinsert_sentinels t (batch_maps b ! j) = (ts ! j, True)"
    by (auto dest: read_reply_ok)
  have "\<not> found SENTINEL_RE (ts ! j)" if "j < length ts" for j
    using r(2) that by (auto simp: reinsert_sentinels_def dest: reinsert_each_ok)
  with r show ?thesis by (simp add: batch_maps_def)
qed

theorem translate_batch_accepts_witness: "length sample_texts = 2 \<and> \<not> found SENTINEL_RE (lit ''ab'')"
  using translate_batch_accepts[OF sample_translation] by (auto simp: sample_batch_def sample_texts_def)

text \<open>
  The loop recovers: if some call within the budget answers with a reply that reads, however
  the conversation went, and the calls before it answer at all, the batch is translated, with no
  more calls than that.
\<close>

theorem translate_batch_recovers:
  assumes "j \<le> retries"
    and "\<And>i m. i < j \<Longrightarrow> \<exists>reply. llm i m = Inr reply \<and> batch_reply b reply \<noteq> Inl DigitLimit"
    and "\<And>m. \<exists>reply ts. llm j m = Inr reply \<and> batch_reply b reply = Inr ts"
  shows "\<exists>ts calls. translate_batch llm rp prompt_of retries b = (Texts ts, calls) \<and> length calls \<le> j + 1"
proof -
  have "j < Suc retries" using assms(1) by simp
  from correction_loop_succeeds[OF this, of llm 0] assms(2,3) show ?thesis
    by (simp add: translate_batch_eq batch_reply_eq)
qed

text \<open>The first answer is a refusal, the second one reads.\<close>

theorem translate_batch_recovers_witness:
  "\<exists>ts calls. translate_batch (\<lambda>k m. Inr (if k = 0 then lit ''no'' else numbered_reply sample_texts) :: unit + pystr)
     (\<lambda>t. t) (\<lambda>a b c. []) 2 sample_batch = (Texts ts, calls) \<and> length calls \<le> 1 + 1"
  by (rule translate_batch_recovers) (auto simp: sample_refusal sample_reply)

end
