(* ===== verification/Splice.thy ===== *)
theory Splice
  imports Batching
begin

text \<open>
  How \<open>trezarr/translate/engine.py\<close> puts texts back into a document: the assembly of the
  translated batches (step 8 of \<open>translate_file\<close>), the corrections of the review pass
  (\<open>_splice_review_corrections\<close>), the texts of a repair (\<open>_repair_failing_cues\<close>) and the
  brackets around a cue (\<open>_preserve_source_envelopes\<close>). Each walks a document and an iterator
  over texts in step; an iterator that runs dry is the error \<open>StopIteration\<close>.
\<close>

section \<open>Assembly of the translated cues\<close>

definition set_text :: "sub_line \<Rightarrow> pystr \<Rightarrow> sub_line" where
  "set_text l t = mk_line (sl_index l) (sl_start l) (sl_end l) t None"

fun assemble_lines :: "pystr list \<Rightarrow> sub_line list \<Rightarrow> py_error + sub_line list" where
  "assemble_lines queue [] = Inr []"
| "assemble_lines queue (l # ls) =
     (if is_raw l then
        (case assemble_lines queue ls of Inl e \<Rightarrow> Inl e | Inr out \<Rightarrow> Inr (l # out))
      else case queue of
        [] \<Rightarrow> Inl StopIteration
      | t # ts \<Rightarrow> (case assemble_lines ts ls of Inl e \<Rightarrow> Inl e | Inr out \<Rightarrow> Inr (set_text l t # out)))"

definition UTF8 :: pystr where
  "UTF8 = lit ''utf-8''"

definition assemble_doc :: "sub_doc \<Rightarrow> pystr list list \<Rightarrow> py_error + sub_doc" where
  "assemble_doc src results =
     (case assemble_lines (concat results) (doc_lines src) of
        Inl e \<Rightarrow> Inl e
      | Inr ls \<Rightarrow> Inr (src\<lparr>doc_lines := ls, doc_encoding := UTF8\<rparr>))"

section \<open>Corrections of the review pass\<close>

definition batch_corrections :: "batch \<Rightarrow> pystr list option \<Rightarrow> (sub_line \<times> pystr) option list" where
  "batch_corrections b r =
     (case r of
        None \<Rightarrow> replicate (length (batch_cues b)) None
      | Some ts \<Rightarrow> map (\<lambda>i. if i < length ts then Some (batch_cues b ! i, ts ! i) else None) [0..<length (batch_cues b)])"

fun splice_lines :: "(sub_line \<times> pystr) option list \<Rightarrow> sub_line list \<Rightarrow> py_error + sub_line list" where
  "splice_lines cs [] = Inr []"
| "splice_lines cs (l # ls) =
     (if is_raw l then
        (case splice_lines cs ls of Inl e \<Rightarrow> Inl e | Inr out \<Rightarrow> Inr (l # out))
      else case cs of
        [] \<Rightarrow> Inl StopIteration
      | c # cs' \<Rightarrow>
          (case splice_lines cs' ls of
             Inl e \<Rightarrow> Inl e
           | Inr out \<Rightarrow> Inr ((case c of None \<Rightarrow> l | Some (cue, t) \<Rightarrow> set_text cue t) # out)))"

definition splice_review_corrections ::
  "sub_line list \<Rightarrow> batch list \<Rightarrow> pystr list option list \<Rightarrow> py_error + sub_line list" where
  "splice_review_corrections ls batches results =
     splice_lines (concat (map2 batch_corrections batches results)) ls"

section \<open>Brackets around a cue\<close>

definition OPENER_MAP :: "(pychar \<times> pychar) list" where
  "OPENER_MAP = [(40, 41), (91, 93)]"

fun depth_scan :: "pychar \<Rightarrow> pychar \<Rightarrow> int \<Rightarrow> pystr \<Rightarrow> bool" where
  "depth_scan a b d [] = (d = 0)"
| "depth_scan a b d (c # s) =
     (let d' = (if c = a then d + 1 else if c = b then d - 1 else d)
      in if d' = 0 \<and> s \<noteq> [] then False else depth_scan a b d' s)"

definition source_envelope :: "pystr \<Rightarrow> (pychar \<times> pychar) option" where
  "source_envelope text =
     (let s = strip text in
      if length s < 2 then None
      else case map_of OPENER_MAP (hd s) of
        None \<Rightarrow> None
      | Some b \<Rightarrow> (if last s \<noteq> b then None else if depth_scan (hd s) b 0 s then Some (hd s, b) else None))"

definition wrapped :: "pychar \<Rightarrow> pychar \<Rightarrow> pystr \<Rightarrow> bool" where
  "wrapped a b text \<longleftrightarrow> starts_with [a] (strip text) \<and> ends_with [b] (strip text)"

definition envelope_line :: "sub_line \<Rightarrow> sub_line \<Rightarrow> sub_line" where
  "envelope_line src trn =
     (if is_raw trn then trn
      else case source_envelope (sl_text src) of
        None \<Rightarrow> trn
      | Some (a, b) \<Rightarrow> (if wrapped a b (sl_text trn) then trn else set_text src ([a] @ sl_text trn @ [b])))"

definition preserve_source_envelopes :: "bool \<Rightarrow> sub_doc \<Rightarrow> sub_doc \<Rightarrow> sub_doc" where
  "preserve_source_envelopes enabled trn src =
     (if \<not> enabled then trn
      else trn\<lparr>doc_lines := map2 envelope_line (doc_lines src) (doc_lines trn)\<rparr>)"

section \<open>Texts of a repair\<close>

text \<open>The cues to translate again and their positions; an opaque cue is skipped.\<close>

fun failing_cues :: "sub_line list \<Rightarrow> sub_line list \<Rightarrow> nat list \<Rightarrow> py_error + (sub_line \<times> nat) list" where
  "failing_cues src trn [] = Inr []"
| "failing_cues src trn (i # is) =
     (if i \<ge> length trn then Inl IndexError
      else if is_raw (trn ! i) then failing_cues src trn is
      else if i \<ge> length src then Inl IndexError
      else case failing_cues src trn is of Inl e \<Rightarrow> Inl e | Inr cs \<Rightarrow> Inr ((src ! i, i) # cs))"

fun splice_repair :: "nat set \<Rightarrow> nat \<Rightarrow> pystr list \<Rightarrow> sub_line list \<Rightarrow> py_error + sub_line list" where
  "splice_repair idx i ts [] = Inr []"
| "splice_repair idx i ts (l # ls) =
     (if i \<in> idx then
        (case ts of
           [] \<Rightarrow> Inl StopIteration
         | t # ts' \<Rightarrow> (case splice_repair idx (Suc i) ts' ls of Inl e \<Rightarrow> Inl e | Inr out \<Rightarrow> Inr (set_text l t # out)))
      else case splice_repair idx (Suc i) ts ls of Inl e \<Rightarrow> Inl e | Inr out \<Rightarrow> Inr (l # out))"

section \<open>What every splice keeps\<close>

text \<open>A line keeps its header, and an opaque line keeps everything.\<close>

definition retext :: "sub_line \<Rightarrow> sub_line \<Rightarrow> bool" where
  "retext a b \<longleftrightarrow> (if is_raw a then b = a else \<exists>t. b = set_text a t)"

lemma set_text_simps [simp]:
  "sl_index (set_text l t) = sl_index l" "sl_start (set_text l t) = sl_start l" "sl_end (set_text l t) = sl_end l"
  "sl_text (set_text l t) = t" "sl_raw (set_text l t) = None" "\<not> is_raw (set_text l t)"
  "set_text (set_text l t) u = set_text l u"
  by (simp_all add: set_text_def is_raw_def)

lemma set_text_self: "\<not> is_raw l \<Longrightarrow> set_text l (sl_text l) = l"
  by (cases l) (simp add: set_text_def mk_line_def is_raw_def)

lemma retext_refl [simp]: "retext l l"
  using set_text_self[of l] by (metis retext_def)

lemma retext_set_text: "\<not> is_raw l \<Longrightarrow> retext l (set_text l t)"
  by (auto simp: retext_def)

lemma retext_trans: "retext a b \<Longrightarrow> retext b c \<Longrightarrow> retext a c"
  by (auto simp: retext_def split: if_splits)

lemma retext_is_raw: "retext a b \<Longrightarrow> is_raw b = is_raw a"
  by (auto simp: retext_def split: if_splits)

definition retexts :: "sub_line list \<Rightarrow> sub_line list \<Rightarrow> bool" where
  "retexts = list_all2 retext"

lemma retexts_refl [simp]: "retexts ls ls"
  by (simp add: retexts_def list_all2_refl)

lemma retexts_trans: "retexts a b \<Longrightarrow> retexts b c \<Longrightarrow> retexts a c"
  unfolding retexts_def by (rule list_all2_trans[OF retext_trans])

text \<open>The texts of the cues that are not opaque, in document order.\<close>

definition cue_texts :: "sub_line list \<Rightarrow> pystr list" where
  "cue_texts ls = map sl_text (filter (\<lambda>l. \<not> is_raw l) ls)"

lemma assemble_lines_ok:
  "length q = length (filter (\<lambda>l. \<not> is_raw l) ls) \<Longrightarrow>
     \<exists>out. assemble_lines q ls = Inr out \<and> retexts ls out \<and> cue_texts out = q"
proof (induction q ls rule: assemble_lines.induct)
  case (2 q l ls)
  show ?case
  proof (cases "is_raw l")
    case True
    with 2(1) 2(3) obtain out where "assemble_lines q ls = Inr out" "retexts ls out" "cue_texts out = q" by auto
    with True show ?thesis by (simp add: retexts_def cue_texts_def)
  next
    case False
    with 2(3) obtain t ts where q: "q = t # ts" by (cases q) auto
    with 2(2) 2(3) False obtain out where "assemble_lines ts ls = Inr out" "retexts ls out" "cue_texts out = ts" by auto
    with False q show ?thesis by (simp add: retexts_def cue_texts_def retext_set_text)
  qed
qed (simp add: cue_texts_def)

definition correction_of :: "sub_line \<Rightarrow> (sub_line \<times> pystr) option \<Rightarrow> bool" where
  "correction_of l c \<longleftrightarrow> (case c of None \<Rightarrow> True | Some (cue, t) \<Rightarrow> cue = l)"

definition corrected :: "sub_line \<Rightarrow> (sub_line \<times> pystr) option \<Rightarrow> pystr" where
  "corrected l c = (case c of None \<Rightarrow> sl_text l | Some (cue, t) \<Rightarrow> t)"

lemma splice_lines_ok:
  "list_all2 correction_of (filter (\<lambda>l. \<not> is_raw l) ls) cs \<Longrightarrow>
     \<exists>out. splice_lines cs ls = Inr out \<and> retexts ls out
       \<and> cue_texts out = map2 corrected (filter (\<lambda>l. \<not> is_raw l) ls) cs"
proof (induction cs ls rule: splice_lines.induct)
  case (2 cs l ls)
  show ?case
  proof (cases "is_raw l")
    case True
    with 2(1) 2(3) obtain out where "splice_lines cs ls = Inr out" "retexts ls out"
      "cue_texts out = map2 corrected (filter (\<lambda>l. \<not> is_raw l) ls) cs" by auto
    with True show ?thesis by (simp add: retexts_def cue_texts_def)
  next
    case False
    with 2(3) obtain c cs' where cs: "cs = c # cs'" "correction_of l c"
      "list_all2 correction_of (filter (\<lambda>l. \<not> is_raw l) ls) cs'"
      by (auto simp: list_all2_Cons1)
    from 2(2)[OF False cs(1) cs(3)] obtain out where o: "splice_lines cs' ls = Inr out" "retexts ls out"
      "cue_texts out = map2 corrected (filter (\<lambda>l. \<not> is_raw l) ls) cs'" by blast
    let ?l = "case c of None \<Rightarrow> l | Some (cue, t) \<Rightarrow> set_text cue t"
    from cs(2) False have "retext l ?l" "\<not> is_raw ?l" "sl_text ?l = corrected l c"
      by (auto simp: correction_of_def corrected_def retext_set_text split: option.splits)
    with o False cs(1) show ?thesis by (simp add: retexts_def cue_texts_def)
  qed
qed (simp add: cue_texts_def)

lemma batch_corrections_ok: "list_all2 correction_of (batch_cues b) (batch_corrections b r)"
  by (auto simp: batch_corrections_def correction_of_def list_all2_conv_all_nth split: option.splits)

lemma corrections_ok:
  "length rs = length bs \<Longrightarrow>
     list_all2 correction_of (concat (map batch_cues bs)) (concat (map2 batch_corrections bs rs))"
proof (induction bs arbitrary: rs)
  case (Cons b bs)
  then obtain r rs' where "rs = r # rs'" "length rs' = length bs" by (cases rs) auto
  with Cons batch_corrections_ok show ?case by (simp add: list_all2_appendI)
qed simp

lemma splice_review_ok:
  assumes "length rs = length (batch_subdoc cfg d)"
  shows "\<exists>out. splice_review_corrections (doc_lines d) (batch_subdoc cfg d) rs = Inr out \<and> retexts (doc_lines d) out
    \<and> cue_texts out = map2 corrected (filter (\<lambda>l. \<not> is_raw l) (doc_lines d)) (concat (map2 batch_corrections (batch_subdoc cfg d) rs))"
proof -
  have "concat (map batch_cues (batch_subdoc cfg d)) = filter (\<lambda>l. \<not> is_raw l) (doc_lines d)"
    by (simp add: batch_subdoc_def batch_loop_cues)
  with corrections_ok[OF assms] show ?thesis
    unfolding splice_review_corrections_def by (metis (no_types, lifting) splice_lines_ok)
qed

section \<open>Envelopes\<close>

definition depth :: "pychar \<Rightarrow> pychar \<Rightarrow> pystr \<Rightarrow> int" where
  "depth a b s = int (count_list s a) - int (count_list s b)"

lemma depth_Cons: "a \<noteq> b \<Longrightarrow> depth a b (c # s) = (if c = a then 1 else if c = b then - 1 else 0) + depth a b s"
  by (simp add: depth_def)

lemma depth_Nil [simp]: "depth a b [] = 0"
  by (simp add: depth_def)

lemma all_prefixes_Cons:
  "(\<forall>n. 0 < n \<and> n < Suc k \<longrightarrow> P n) \<longleftrightarrow> (k \<noteq> 0 \<longrightarrow> P 1) \<and> (\<forall>n. 0 < n \<and> n < k \<longrightarrow> P (Suc n))"
proof (intro iffI conjI allI impI)
  fix n
  assume a: "(k \<noteq> 0 \<longrightarrow> P 1) \<and> (\<forall>n. 0 < n \<and> n < k \<longrightarrow> P (Suc n))" and n: "0 < n \<and> n < Suc k"
  show "P n"
  proof (cases "n = 1")
    case True
    with a n show ?thesis by auto
  next
    case False
    with n have "n = Suc (n - 1)" "0 < n - 1" "n - 1 < k" by auto
    with a show ?thesis by metis
  qed
qed auto

lemma depth_scan_iff:
  assumes "a \<noteq> b"
  shows "depth_scan a b d s \<longleftrightarrow> d + depth a b s = 0 \<and> (\<forall>n. 0 < n \<and> n < length s \<longrightarrow> d + depth a b (take n s) \<noteq> 0)"
proof (induction s arbitrary: d)
  case (Cons c s)
  let ?d = "if c = a then d + 1 else if c = b then d - 1 else d"
  have d: "d + depth a b (c # t) = ?d + depth a b t" for t
    using assms by (simp add: depth_Cons)
  have "depth_scan a b d (c # s) \<longleftrightarrow> (s \<noteq> [] \<longrightarrow> ?d \<noteq> 0) \<and> depth_scan a b ?d s"
    by (simp only: depth_scan.simps Let_def) auto
  also have "\<dots> \<longleftrightarrow> d + depth a b (c # s) = 0
      \<and> (\<forall>n. 0 < n \<and> n < length (c # s) \<longrightarrow> d + depth a b (take n (c # s)) \<noteq> 0)"
    unfolding Cons.IH length_Cons all_prefixes_Cons d by (auto simp: d depth_Cons[OF assms])
  finally show ?case .
qed simp

text \<open>What full enclosure means: the brackets of one kind first balance at the last character.\<close>

definition encloses :: "pychar \<Rightarrow> pychar \<Rightarrow> pystr \<Rightarrow> bool" where
  "encloses a b s \<longleftrightarrow> (\<exists>m. s = [a] @ m @ [b]) \<and> depth a b s = 0 \<and> (\<forall>n. 0 < n \<and> n < length s \<longrightarrow> depth a b (take n s) \<noteq> 0)"

lemma two_ends: "(\<exists>m. s = [a] @ m @ [b]) \<longleftrightarrow> 2 \<le> length s \<and> hd s = a \<and> last s = b"
proof
  assume r: "2 \<le> length s \<and> hd s = a \<and> last s = b"
  then obtain t where t: "s = a # t" "t \<noteq> []" by (cases s; cases "tl s") auto
  with r have "s = [a] @ butlast t @ [b]" by (metis append_Cons append_Nil append_butlast_last_id last_ConsR)
  then show "\<exists>m. s = [a] @ m @ [b]" by blast
qed auto

lemma source_envelope_iff:
  "source_envelope t = Some (a, b) \<longleftrightarrow> (a, b) \<in> set OPENER_MAP \<and> encloses a b (strip t)"
proof -
  have *: "(case map_of OPENER_MAP h of None \<Rightarrow> None
      | Some y \<Rightarrow> if l \<noteq> y then None else if Q h y then Some (h, y) else None) = Some (a, b)
      \<longleftrightarrow> (a, b) \<in> set OPENER_MAP \<and> h = a \<and> l = b \<and> Q a b" for h l Q
    by (auto simp: OPENER_MAP_def split: if_splits)
  have "a \<noteq> b" if "(a, b) \<in> set OPENER_MAP" using that by (auto simp: OPENER_MAP_def)
  then have "source_envelope t = Some (a, b) \<longleftrightarrow> 2 \<le> length (strip t) \<and> (a, b) \<in> set OPENER_MAP
      \<and> hd (strip t) = a \<and> last (strip t) = b \<and> depth_scan a b 0 (strip t)"
    using *[where h = "hd (strip t)" and l = "last (strip t)" and Q = "\<lambda>x y. depth_scan x y 0 (strip t)"]
    by (auto simp: source_envelope_def Let_def)
  also have "\<dots> \<longleftrightarrow> (a, b) \<in> set OPENER_MAP \<and> encloses a b (strip t)"
    using \<open>(a, b) \<in> set OPENER_MAP \<Longrightarrow> a \<noteq> b\<close> unfolding encloses_def two_ends by (auto simp: depth_scan_iff)
  finally show ?thesis .
qed

lemma wrapped_wrap: "\<not> is_space a \<Longrightarrow> \<not> is_space b \<Longrightarrow> wrapped a b ([a] @ t @ [b])"
  by (simp add: wrapped_def strip_no_space ends_with_def)

lemma envelope_chars: "source_envelope t = Some (a, b) \<Longrightarrow> \<not> is_space a \<and> \<not> is_space b"
  by (auto simp: source_envelope_iff OPENER_MAP_def ascii_eval)

lemma envelope_line_raw [simp]: "is_raw (envelope_line s t) = is_raw t"
  by (auto simp: envelope_line_def split: option.splits)

lemma envelope_line_idem: "envelope_line s (envelope_line s t) = envelope_line s t"
proof (cases "is_raw t \<or> source_envelope (sl_text s) = None")
  case True
  then show ?thesis by (auto simp: envelope_line_def)
next
  case False
  then obtain a b where e: "source_envelope (sl_text s) = Some (a, b)" by auto
  from wrapped_wrap[of a b "sl_text t"] envelope_chars[OF e] False e show ?thesis
    by (auto simp: envelope_line_def)
qed

lemma envelope_retext: "retext s t \<Longrightarrow> retext s (envelope_line s t)"
  by (auto simp: envelope_line_def retext_def split: option.splits if_splits prod.splits)

lemma preserve_retexts:
  "retexts (doc_lines src) (doc_lines trn) \<Longrightarrow> retexts (doc_lines src) (doc_lines (preserve_source_envelopes e trn src))"
  by (auto simp: preserve_source_envelopes_def retexts_def list_all2_conv_all_nth envelope_retext)

section \<open>Repairs\<close>

lemma failing_cues_ok:
  assumes "length src = length trn" and "\<forall>i \<in> set is. i < length trn"
  shows "failing_cues src trn is = Inr (map (\<lambda>i. (src ! i, i)) (filter (\<lambda>i. \<not> is_raw (trn ! i)) is))"
  using assms(2) by (induction "is") (use assms(1) in auto)

lemma splice_repair_ok:
  "sorted_wrt (<) js \<Longrightarrow> \<forall>j \<in> set js. i \<le> j \<and> j < i + length ls \<Longrightarrow> length ts = length js \<Longrightarrow>
     \<exists>out. splice_repair (set js) i ts ls = Inr out \<and> length out = length ls
       \<and> (\<forall>k < length js. out ! (js ! k - i) = set_text (ls ! (js ! k - i)) (ts ! k))
       \<and> (\<forall>m < length ls. i + m \<notin> set js \<longrightarrow> out ! m = ls ! m)"
proof (induction ls arbitrary: i js ts)
  case (Cons l ls)
  show ?case
  proof (cases "i \<in> set js")
    case False
    with Cons.prems(2) have "\<forall>j \<in> set js. Suc i \<le> j \<and> j < Suc i + length ls" by (auto simp: Suc_le_eq le_less)
    from Cons.IH[OF Cons.prems(1) this Cons.prems(3)] obtain out where
      o: "splice_repair (set js) (Suc i) ts ls = Inr out" "length out = length ls"
        "\<forall>k < length js. out ! (js ! k - Suc i) = set_text (ls ! (js ! k - Suc i)) (ts ! k)"
        "\<forall>m < length ls. Suc i + m \<notin> set js \<longrightarrow> out ! m = ls ! m" by blast
    have "(l # out) ! (js ! k - i) = set_text ((l # ls) ! (js ! k - i)) (ts ! k)" if k: "k < length js" for k
    proof -
      from k \<open>\<forall>j \<in> set js. Suc i \<le> j \<and> j < Suc i + length ls\<close> have "Suc i \<le> js ! k" by simp
      then have "js ! k - i = Suc (js ! k - Suc i)" by simp
      with o(3) k show ?thesis by simp
    qed
    moreover have "(l # out) ! m = (l # ls) ! m" if "m < length (l # ls)" "i + m \<notin> set js" for m
      using that o(4) by (cases m) auto
    ultimately show ?thesis using False o(1,2) by auto
  next
    case True
    then obtain js' where js: "js = i # js'"
    proof (cases js)
      case (Cons j js')
      with True Cons.prems(1,2) have "j = i" by (auto simp: less_le_not_le)
      with Cons that show ?thesis by blast
    qed simp
    with Cons.prems obtain t ts' where ts: "ts = t # ts'" "length ts' = length js'" by (cases ts) auto
    have b: "\<forall>j \<in> set js'. Suc i \<le> j \<and> j < Suc i + length ls" using Cons.prems(1,2) js by (auto simp: Suc_le_eq)
    from js Cons.prems(1) have "sorted_wrt (<) js'" by simp
    from Cons.IH[OF this b ts(2)] obtain out where
      o: "splice_repair (set js') (Suc i) ts' ls = Inr out" "length out = length ls"
        "\<forall>k < length js'. out ! (js' ! k - Suc i) = set_text (ls ! (js' ! k - Suc i)) (ts' ! k)"
        "\<forall>m < length ls. Suc i + m \<notin> set js' \<longrightarrow> out ! m = ls ! m" by blast
    have same: "splice_repair (set js) (Suc i) ts' ls = splice_repair (set js') (Suc i) ts' ls"
    proof -
      have "splice_repair X (Suc n) us xs = splice_repair Y (Suc n) us xs"
        if "\<And>m. n < m \<Longrightarrow> m \<in> X \<longleftrightarrow> m \<in> Y" for X Y n us xs
        using that by (induction xs arbitrary: n us) (auto split: list.splits)
      from this[of i "set js" "set js'"] js show ?thesis by auto
    qed
    have "(set_text l t # out) ! (js ! k - i) = set_text ((l # ls) ! (js ! k - i)) (ts ! k)" if k: "k < length js" for k
    proof (cases k)
      case 0
      then show ?thesis using js ts by simp
    next
      case (Suc k')
      with k js have "Suc i \<le> js' ! k'" using b by simp
      then have "js' ! k' - i = Suc (js' ! k' - Suc i)" by simp
      with o(3) k Suc js ts show ?thesis by simp
    qed
    moreover have "(set_text l t # out) ! m = (l # ls) ! m" if "m < length (l # ls)" "i + m \<notin> set js" for m
      using that o(4) js by (cases m) auto
    ultimately show ?thesis using True same o(1,2) ts(1) by auto
  qed
next
  case Nil
  then have "js = []" by (cases js) auto
  then show ?case by simp
qed


section \<open>Properties\<close>

text \<open>One text for each cue of each batch.\<close>

definition results_fit :: "batch list \<Rightarrow> pystr list list \<Rightarrow> bool" where
  "results_fit bs rs \<longleftrightarrow> map length rs = map (\<lambda>b. length (batch_cues b)) bs"

lemma results_fit_length: "results_fit (batch_subdoc cfg d) rs \<Longrightarrow>
    length (concat rs) = length (filter (\<lambda>l. \<not> is_raw l) (doc_lines d))"
proof -
  assume f: "results_fit (batch_subdoc cfg d) rs"
  have "length (concat rs) = sum_list (map length rs)" by (rule length_concat)
  also have "\<dots> = length (concat (map batch_cues (batch_subdoc cfg d)))"
    using f by (simp add: results_fit_def length_concat comp_def)
  finally show ?thesis by (simp add: batch_subdoc_def batch_loop_cues)
qed

lemma assemble_doc_ok:
  assumes "results_fit (batch_subdoc cfg src) rs"
  shows "\<exists>trn. assemble_doc src rs = Inr trn \<and> retexts (doc_lines src) (doc_lines trn)
    \<and> cue_texts (doc_lines trn) = concat rs \<and> trn\<lparr>doc_lines := doc_lines src, doc_encoding := doc_encoding src\<rparr> = src"
  using assemble_lines_ok[OF results_fit_length[OF assms]] by (auto simp: assemble_doc_def)

text \<open>
  C35: Assembling the results of the batches of a document never runs out of texts: every opaque
  line is carried over verbatim, every other line keeps its header and gets the text of its own
  cue, and everything around the lines but the encoding is kept.
\<close>

theorem assembled_document:
  assumes "results_fit (batch_subdoc cfg src) rs"
  shows "\<exists>trn. assemble_doc src rs = Inr trn \<and> retexts (doc_lines src) (doc_lines trn)
    \<and> cue_texts (doc_lines trn) = concat rs \<and> trn\<lparr>doc_lines := doc_lines src, doc_encoding := doc_encoding src\<rparr> = src"
  using assms by (rule assemble_doc_ok)

definition two_batches :: "batch list" where
  "two_batches = batch_subdoc sample_cfg (sample_doc [sample_cue 1, sample_raw_cue 2, sample_cue 3])"

lemma two_batches_fit: "results_fit two_batches [[lit ''x'', lit ''y'']]"
  by (simp add: two_batches_def results_fit_def batch_eval)

theorem assembled_document_witness:
  "\<exists>trn. assemble_doc (sample_doc [sample_cue 1, sample_raw_cue 2, sample_cue 3]) [[lit ''x'', lit ''y'']] = Inr trn
     \<and> cue_texts (doc_lines trn) = [lit ''x'', lit ''y'']"
  using assembled_document[OF two_batches_fit[unfolded two_batches_def]] by auto

text \<open>
  Splicing the corrections of the review pass never runs out either: a batch without a
  result keeps its cues, a text that is missing keeps its cue, and every other text goes to the
  cue it was asked for, with the header of that cue; opaque lines are left alone.
\<close>

theorem review_spliced:
  assumes "length rs = length (batch_subdoc cfg d)"
  shows "\<exists>out. splice_review_corrections (doc_lines d) (batch_subdoc cfg d) rs = Inr out \<and> retexts (doc_lines d) out
    \<and> cue_texts out = map2 corrected (filter (\<lambda>l. \<not> is_raw l) (doc_lines d)) (concat (map2 batch_corrections (batch_subdoc cfg d) rs))"
  using assms by (rule splice_review_ok)

theorem review_spliced_witness:
  "\<exists>out. splice_review_corrections [sample_cue 1, sample_raw_cue 2, sample_cue 3] two_batches [Some [lit ''x'']] = Inr out
     \<and> cue_texts out = [lit ''x'', lit ''abc'']"
  using review_spliced[of "[Some [lit ''x'']]" sample_cfg "sample_doc [sample_cue 1, sample_raw_cue 2, sample_cue 3]"]
  by (auto simp: two_batches_def batch_eval corrected_def batch_corrections_def numeral_2_eq_2)

text \<open>
  A repair replaces what it was asked to and nothing else: for failing positions in
  ascending order, which is how the gate lists them, the k-th new text lands on the k-th failing
  cue that is not opaque, and every other line is unchanged.
\<close>

theorem repair_spliced:
  assumes "length src = length trn" and "sorted_wrt (<) failing" and "\<forall>i \<in> set failing. i < length trn"
    and "length ts = length (filter (\<lambda>i. \<not> is_raw (trn ! i)) failing)"
  shows "\<exists>js out. failing_cues src trn failing = Inr (map (\<lambda>i. (src ! i, i)) js)
    \<and> js = filter (\<lambda>i. \<not> is_raw (trn ! i)) failing
    \<and> splice_repair (set js) 0 ts trn = Inr out \<and> length out = length trn
    \<and> (\<forall>k < length js. out ! (js ! k) = set_text (trn ! (js ! k)) (ts ! k))
    \<and> (\<forall>i < length trn. i \<notin> set js \<longrightarrow> out ! i = trn ! i)"
proof -
  let ?js = "filter (\<lambda>i. \<not> is_raw (trn ! i)) failing"
  have "sorted_wrt (<) ?js" using assms(2) by (rule sorted_wrt_filter)
  from splice_repair_ok[OF this, of 0 trn ts] assms(3,4) failing_cues_ok[OF assms(1,3)] show ?thesis by auto
qed

theorem repair_spliced_witness:
  "\<exists>out. splice_repair {1} 0 [lit ''x''] [sample_cue 1, sample_cue 3] = Inr out
     \<and> out ! 1 = set_text (sample_cue 3) (lit ''x'')"
proof -
  have n: "\<not> is_raw (sample_cue k)" for k by (simp add: sample_cue_def is_raw_def)
  from repair_spliced[of "[sample_cue 1, sample_cue 3]" "[sample_cue 1, sample_cue 3]" "[1]" "[lit ''x'']"] n
  obtain out where "splice_repair (set [1]) 0 [lit ''x''] [sample_cue 1, sample_cue 3] = Inr out"
    "\<forall>k < length [1 :: nat]. out ! ([1] ! k) = set_text ([sample_cue 1, sample_cue 3] ! ([1] ! k)) ([lit ''x''] ! k)"
    by auto
  then show ?thesis by simp
qed

text \<open>
  The bracket pass wraps exactly the cues whose source is one bracketed group (the brackets
  of its kind first balance at its last character) and whose translation is not wrapped yet;
  applying it again changes nothing.
\<close>

theorem envelopes_preserved:
  "preserve_source_envelopes e (preserve_source_envelopes e trn src) src = preserve_source_envelopes e trn src
   \<and> envelope_line s t =
       (if is_raw t then t
        else if encloses 40 41 (strip (sl_text s)) \<and> \<not> wrapped 40 41 (sl_text t) then set_text s ([40] @ sl_text t @ [41])
        else if encloses 91 93 (strip (sl_text s)) \<and> \<not> wrapped 91 93 (sl_text t) then set_text s ([91] @ sl_text t @ [93])
        else t)"
proof
  show "preserve_source_envelopes e (preserve_source_envelopes e trn src) src = preserve_source_envelopes e trn src"
  proof (cases e)
    case True
    have "map2 envelope_line ss (map2 envelope_line ss ts) = map2 envelope_line ss ts" for ss ts
      by (induction ss ts rule: list_induct2') (auto simp: envelope_line_idem)
    with True show ?thesis by (simp add: preserve_source_envelopes_def)
  qed (simp add: preserve_source_envelopes_def)
next
  have one: "\<not> (encloses 40 41 x \<and> encloses 91 93 x)" for x by (auto simp: encloses_def)
  show "envelope_line s t =
       (if is_raw t then t
        else if encloses 40 41 (strip (sl_text s)) \<and> \<not> wrapped 40 41 (sl_text t) then set_text s ([40] @ sl_text t @ [41])
        else if encloses 91 93 (strip (sl_text s)) \<and> \<not> wrapped 91 93 (sl_text t) then set_text s ([91] @ sl_text t @ [93])
        else t)"
  proof (cases "source_envelope (sl_text s)")
    case None
    then have "\<not> encloses 40 41 (strip (sl_text s))" "\<not> encloses 91 93 (strip (sl_text s))"
      using source_envelope_iff[of "sl_text s" 40 41] source_envelope_iff[of "sl_text s" 91 93] by (auto simp: OPENER_MAP_def)
    with None show ?thesis by (simp add: envelope_line_def)
  next
    case (Some p)
    then obtain a b where e: "source_envelope (sl_text s) = Some (a, b)" by (cases p) auto
    with source_envelope_iff have "a = 40 \<and> b = 41 \<or> a = 91 \<and> b = 93" "encloses a b (strip (sl_text s))"
      by (auto simp: OPENER_MAP_def)
    with e one[of "strip (sl_text s)"] show ?thesis by (auto simp: envelope_line_def)
  qed
qed

end
