(* ===== verification/Bible_Model.thy ===== *)
theory Bible_Model
  imports Prelude
begin

text \<open>
  The tables of the Series Bible (\<open>trezarr/bible/models.py\<close>), the merge policy of
  \<open>trezarr/bible/merge.py\<close> and the audit log. A table is a list of rows in the order of
  insertion. What the four mergeable tables have in common, reading and writing a field by its
  name, is the locale \<open>mergeable\<close>, interpreted on each table; the merge lemmas are proved once
  in it.
\<close>

section \<open>Rows\<close>

text \<open>A JSON value of the audit log: a nullable string, or the pair of overrides of a series.\<close>

datatype bval = BStr "pystr option" | BOverrides "pystr list option" "pystr option"

datatype entity = ESeries | ECharacter | ETerm | EPair

record series_row =
  sr_id :: nat
  sr_kind :: pystr
  sr_instance :: pystr
  sr_arr_id :: int
  sr_tvdb :: "int option"
  sr_tmdb :: "int option"
  sr_register :: "pystr option"
  sr_metadata :: "(pystr \<times> pystr) list"
  sr_locked :: "pystr list"
  sr_langs :: "pystr list option"
  sr_model :: "pystr option"

record character_row =
  cr_id :: nat
  cr_series :: nat
  cr_name :: pystr
  cr_gender :: "pystr option"
  cr_age :: "pystr option"
  cr_role :: "pystr option"
  cr_locked :: "pystr list"

record term_row =
  tr_id :: nat
  tr_series :: nat
  tr_source :: pystr
  tr_rendering :: "pystr option"
  tr_category :: "pystr option"
  tr_locked :: "pystr list"

record pair_row =
  pr_id :: nat
  pr_series :: nat
  pr_speaker :: nat
  pr_addressee :: nat
  pr_self :: "pystr option"
  pr_address :: "pystr option"
  pr_from :: "pystr option"
  pr_locked :: "pystr list"

record relation_row =
  rr_id :: nat
  rr_series :: nat
  rr_a :: nat
  rr_b :: nat
  rr_marker :: pystr
  rr_description :: "pystr option"

record bible_event =
  ev_series :: nat
  ev_episode :: "pystr option"
  ev_entity :: entity
  ev_id :: nat
  ev_field :: pystr
  ev_old :: bval
  ev_new :: bval
  ev_source :: pystr

record bible_db =
  db_fk :: bool
  db_series :: "series_row list"
  db_characters :: "character_row list"
  db_terms :: "term_row list"
  db_pairs :: "pair_row list"
  db_relations :: "relation_row list"
  db_events :: "bible_event list"

section \<open>Field access by name\<close>

definition F_GENDER :: pystr where "F_GENDER = lit ''gender''"
definition F_AGE :: pystr where "F_AGE = lit ''rough_age''"
definition F_ROLE :: pystr where "F_ROLE = lit ''role''"
definition F_RENDERING :: pystr where "F_RENDERING = lit ''vietnamese_rendering''"
definition F_CATEGORY :: pystr where "F_CATEGORY = lit ''category''"
definition F_REGISTER :: pystr where "F_REGISTER = lit ''register''"
definition F_SELF :: pystr where "F_SELF = lit ''self_term''"
definition F_ADDRESS :: pystr where "F_ADDRESS = lit ''address_term''"
definition F_FROM :: pystr where "F_FROM = lit ''valid_from_episode''"

lemmas field_defs = F_GENDER_def F_AGE_def F_ROLE_def F_RENDERING_def F_CATEGORY_def F_REGISTER_def
  F_SELF_def F_ADDRESS_def F_FROM_def lit_def

text \<open>The mergeable fields of each table; no other field may be merged or edited.\<close>

fun MERGEABLE_FIELDS :: "entity \<Rightarrow> pystr list" where
  "MERGEABLE_FIELDS ECharacter = [F_GENDER, F_AGE, F_ROLE]"
| "MERGEABLE_FIELDS ETerm = [F_RENDERING, F_CATEGORY]"
| "MERGEABLE_FIELDS ESeries = [F_REGISTER]"
| "MERGEABLE_FIELDS EPair = [F_SELF, F_ADDRESS, F_FROM]"

definition VALID_SOURCES :: "pystr list" where
  "VALID_SOURCES = [lit ''inference'', lit ''lock'', lit ''import'', lit ''system'']"

text \<open>What the generic code reads and writes of a row with \<open>getattr\<close> and \<open>setattr\<close>.\<close>

record 'r table =
  t_id :: "'r \<Rightarrow> nat"
  t_series :: "'r \<Rightarrow> nat"
  t_locked :: "'r \<Rightarrow> pystr list"
  t_set_locked :: "pystr list \<Rightarrow> 'r \<Rightarrow> 'r"
  t_get :: "pystr \<Rightarrow> 'r \<Rightarrow> pystr option"
  t_set :: "pystr \<Rightarrow> pystr option \<Rightarrow> 'r \<Rightarrow> 'r"
  t_entity :: entity

definition character_table :: "character_row table" where
  "character_table = \<lparr>t_id = cr_id, t_series = cr_series, t_locked = cr_locked,
     t_set_locked = (\<lambda>l r. r\<lparr>cr_locked := l\<rparr>),
     t_get = (\<lambda>f r. if f = F_GENDER then cr_gender r else if f = F_AGE then cr_age r
                    else if f = F_ROLE then cr_role r else None),
     t_set = (\<lambda>f v r. if f = F_GENDER then r\<lparr>cr_gender := v\<rparr> else if f = F_AGE then r\<lparr>cr_age := v\<rparr>
                      else if f = F_ROLE then r\<lparr>cr_role := v\<rparr> else r),
     t_entity = ECharacter\<rparr>"

definition term_table :: "term_row table" where
  "term_table = \<lparr>t_id = tr_id, t_series = tr_series, t_locked = tr_locked,
     t_set_locked = (\<lambda>l r. r\<lparr>tr_locked := l\<rparr>),
     t_get = (\<lambda>f r. if f = F_RENDERING then tr_rendering r else if f = F_CATEGORY then tr_category r else None),
     t_set = (\<lambda>f v r. if f = F_RENDERING then r\<lparr>tr_rendering := v\<rparr>
                      else if f = F_CATEGORY then r\<lparr>tr_category := v\<rparr> else r),
     t_entity = ETerm\<rparr>"

definition series_table :: "series_row table" where
  "series_table = \<lparr>t_id = sr_id, t_series = sr_id, t_locked = sr_locked,
     t_set_locked = (\<lambda>l r. r\<lparr>sr_locked := l\<rparr>),
     t_get = (\<lambda>f r. if f = F_REGISTER then sr_register r else None),
     t_set = (\<lambda>f v r. if f = F_REGISTER then r\<lparr>sr_register := v\<rparr> else r),
     t_entity = ESeries\<rparr>"

definition pair_table :: "pair_row table" where
  "pair_table = \<lparr>t_id = pr_id, t_series = pr_series, t_locked = pr_locked,
     t_set_locked = (\<lambda>l r. r\<lparr>pr_locked := l\<rparr>),
     t_get = (\<lambda>f r. if f = F_SELF then pr_self r else if f = F_ADDRESS then pr_address r
                    else if f = F_FROM then pr_from r else None),
     t_set = (\<lambda>f v r. if f = F_SELF then r\<lparr>pr_self := v\<rparr> else if f = F_ADDRESS then r\<lparr>pr_address := v\<rparr>
                      else if f = F_FROM then r\<lparr>pr_from := v\<rparr> else r),
     t_entity = EPair\<rparr>"

section \<open>The merge policy\<close>

text \<open>A dictionary is the list of its items; its keys are distinct.\<close>

type_synonym inferred = "(pystr \<times> pystr option) list"

definition compute_field_changes ::
  "(pystr \<Rightarrow> pystr option) \<Rightarrow> inferred \<Rightarrow> pystr list \<Rightarrow> (pystr \<times> pystr option \<times> pystr option) list" where
  "compute_field_changes getf inferred locked =
     concat (map (\<lambda>(field, new). if field \<in> set locked then [] else if getf field = new then []
                   else [(field, getf field, new)]) inferred)"

definition validate_mergeable :: "entity \<Rightarrow> inferred \<Rightarrow> bool" where
  "validate_mergeable e inferred \<longleftrightarrow> (\<forall>(f, v) \<in> set inferred. f \<in> set (MERGEABLE_FIELDS e))"

definition change_event ::
  "'r table \<Rightarrow> pystr option \<Rightarrow> pystr \<Rightarrow> 'r \<Rightarrow> pystr \<times> pystr option \<times> pystr option \<Rightarrow> bible_event" where
  "change_event t ep src row c = (case c of (field, old, new) \<Rightarrow>
     \<lparr>ev_series = t_series t row, ev_episode = ep, ev_entity = t_entity t, ev_id = t_id t row,
      ev_field = field, ev_old = BStr old, ev_new = BStr new, ev_source = src\<rparr>)"

definition apply_changes ::
  "'r table \<Rightarrow> (pystr \<times> pystr option \<times> pystr option) list \<Rightarrow> 'r \<Rightarrow> 'r" where
  "apply_changes t cs row = fold (\<lambda>(field, old, new). t_set t field new) cs row"

definition merge_row ::
  "'r table \<Rightarrow> inferred \<Rightarrow> pystr option \<Rightarrow> pystr \<Rightarrow> 'r \<Rightarrow> py_error + ('r \<times> bible_event list)" where
  "merge_row t inferred ep src row =
     (if \<not> validate_mergeable (t_entity t) inferred then Inl ValueError
      else let cs = compute_field_changes (\<lambda>f. t_get t f row) inferred (t_locked t row)
           in Inr (apply_changes t cs row, map (change_event t ep src row) cs))"

text \<open>The table with one row replaced.\<close>

definition put_row :: "'r table \<Rightarrow> 'r \<Rightarrow> 'r list \<Rightarrow> 'r list" where
  "put_row t r rs = map (\<lambda>x. if t_id t x = t_id t r then r else x) rs"

definition row_by_id :: "'r table \<Rightarrow> nat \<Rightarrow> 'r list \<Rightarrow> 'r option" where
  "row_by_id t i rs = find (\<lambda>r. t_id t r = i) rs"

definition next_id :: "'r table \<Rightarrow> 'r list \<Rightarrow> nat" where
  "next_id t rs = Suc (foldr max (map (t_id t) rs) 0)"

section \<open>A field and its lock\<close>

text \<open>The part the four edit functions share: the value, then the lock of the field.\<close>

definition edit_lock :: "bool \<Rightarrow> pystr \<Rightarrow> pystr list \<Rightarrow> pystr list" where
  "edit_lock lock field locked =
     (if lock \<and> field \<notin> set locked then locked @ [field]
      else if \<not> lock \<and> field \<in> set locked then remove1 field locked
      else locked)"

definition edit_row :: "'r table \<Rightarrow> pystr \<Rightarrow> pystr option \<Rightarrow> bool \<Rightarrow> 'r \<Rightarrow> 'r" where
  "edit_row t field v lock row = (let r = t_set t field v row in t_set_locked t (edit_lock lock field (t_locked t r)) r)"

definition edit_source :: "bool \<Rightarrow> pystr" where
  "edit_source lock = (if lock then lit ''lock'' else lit ''import'')"

section \<open>What changes\<close>

lemma changes_simps [simp]:
  "compute_field_changes g [] locked = []"
  "compute_field_changes g ((k, v) # ds) locked =
     (if k \<in> set locked \<or> g k = v then [] else [(k, g k, v)]) @ compute_field_changes g ds locked"
  by (simp_all add: compute_field_changes_def)

lemma changes_sub: "c \<in> set (compute_field_changes g ds locked) \<Longrightarrow> fst c \<in> fst ` set ds \<and> fst c \<notin> set locked"
  by (induction ds) (auto split: if_splits)

lemma changes_distinct: "distinct (map fst ds) \<Longrightarrow> distinct (map fst (compute_field_changes g ds locked))"
  by (induction ds) (auto dest: changes_sub)

text \<open>The value of every field after a merge.\<close>

lemma changes_lookup:
  "distinct (map fst ds) \<Longrightarrow> map_of (compute_field_changes g ds locked) f =
     (case map_of ds f of None \<Rightarrow> None
      | Some new \<Rightarrow> if f \<in> set locked \<or> g f = new then None else Some (g f, new))"
proof (induction ds)
  case (Cons x xs)
  obtain k v where x: "x = (k, v)" by (cases x)
  with Cons.prems have "map_of xs k = None" by (auto simp: map_of_eq_None_iff)
  with Cons x show ?case by (auto split: option.splits)
qed simp

section \<open>The interface\<close>

locale mergeable =
  fixes t :: "'r table"
  assumes get_set: "f \<in> set (MERGEABLE_FIELDS (t_entity t)) \<Longrightarrow> t_get t g (t_set t f v r) = (if g = f then v else t_get t g r)"
    and get_outside: "f \<notin> set (MERGEABLE_FIELDS (t_entity t)) \<Longrightarrow> t_get t f r = None"
    and get_set_locked: "t_get t g (t_set_locked t l r) = t_get t g r"
    and locked_set: "t_locked t (t_set t f v r) = t_locked t r"
    and locked_set_locked: "t_locked t (t_set_locked t l r) = l"
    and id_set: "t_id t (t_set t f v r) = t_id t r"
    and id_set_locked: "t_id t (t_set_locked t l r) = t_id t r"
    and series_set: "t_series t (t_set t f v r) = t_series t r"

context mergeable
begin

lemmas table_laws = get_set get_set_locked locked_set locked_set_locked id_set id_set_locked series_set

lemma apply_frame: "t_locked t (apply_changes t cs r) = t_locked t r" "t_id t (apply_changes t cs r) = t_id t r"
    "t_series t (apply_changes t cs r) = t_series t r"
  unfolding apply_changes_def by (induction cs arbitrary: r) (auto simp: table_laws split: prod.splits)

lemma apply_get:
  "\<forall>(f, old, new) \<in> set cs. f \<in> set (MERGEABLE_FIELDS (t_entity t)) \<Longrightarrow> distinct (map fst cs) \<Longrightarrow>
   t_get t g (apply_changes t cs r) = (case map_of cs g of None \<Rightarrow> t_get t g r | Some (old, new) \<Rightarrow> new)"
proof (induction cs arbitrary: r)
  case (Cons c cs)
  obtain f old new where c: "c = (f, old, new)" by (cases c) auto
  from Cons.prems c have "f \<in> set (MERGEABLE_FIELDS (t_entity t))" by auto
  moreover have "map_of cs f = None" using Cons.prems(2) c by (auto simp: map_of_eq_None_iff)
  ultimately show ?case
    using Cons.IH[of "t_set t f new r"] Cons.prems c
    by (auto simp: apply_changes_def get_set split: option.splits)
qed (simp add: apply_changes_def)

lemma merge_get:
  assumes "merge_row t ds ep src r = Inr (r', es)" and "distinct (map fst ds)"
  shows "t_get t f r' = (case map_of ds f of None \<Rightarrow> t_get t f r
           | Some new \<Rightarrow> if f \<in> set (t_locked t r) then t_get t f r else new)"
proof -
  let ?cs = "compute_field_changes (\<lambda>f. t_get t f r) ds (t_locked t r)"
  from assms(1) have v: "validate_mergeable (t_entity t) ds" and r': "r' = apply_changes t ?cs r"
    by (auto simp: merge_row_def Let_def split: if_splits)
  from v have "\<forall>(f, old, new) \<in> set ?cs. f \<in> set (MERGEABLE_FIELDS (t_entity t))"
    unfolding validate_mergeable_def by (auto dest!: changes_sub)
  from apply_get[OF this changes_distinct[OF assms(2)], of f r] show ?thesis
    by (auto simp: r' changes_lookup[OF assms(2)] split: option.splits)
qed

lemma merge_frame:
  assumes "merge_row t ds ep src r = Inr (r', es)"
  shows "t_id t r' = t_id t r" "t_series t r' = t_series t r" "t_locked t r' = t_locked t r"
  using assms by (auto simp: merge_row_def Let_def apply_frame split: if_splits)

lemma merge_locked:
  assumes "merge_row t ds ep src r = Inr (r', es)" and "distinct (map fst ds)" and "f \<in> set (t_locked t r)"
  shows "t_get t f r' = t_get t f r"
  using merge_get[OF assms(1,2), of f] assms(3) by (auto split: option.splits)

lemma edit_frame:
  "t_id t (edit_row t f v lock r) = t_id t r"
  by (simp add: edit_row_def Let_def table_laws)

lemma edit_get:
  "f \<in> set (MERGEABLE_FIELDS (t_entity t)) \<Longrightarrow> t_get t g (edit_row t f v lock r) = (if g = f then v else t_get t g r)"
  by (simp add: edit_row_def Let_def table_laws)

lemma edit_locked:
  "t_locked t (edit_row t f v lock r) = edit_lock lock f (t_locked t r)"
  by (simp add: edit_row_def Let_def table_laws)

lemma put_ids: "map (t_id t) (put_row t r rs) = map (t_id t) rs"
  by (simp add: put_row_def)

lemma put_lookup:
  assumes "row_by_id t i rs = Some r" and "t_id t r' = t_id t r"
  shows "row_by_id t j (put_row t r' rs) = (if j = i then Some r' else row_by_id t j rs)"
proof -
  have i: "t_id t r' = i" using assms by (auto simp: row_by_id_def dest: find_SomeD)
  have "row_by_id t j (put_row t r' rs) =
      (if j = i then (case row_by_id t i rs of None \<Rightarrow> None | Some _ \<Rightarrow> Some r') else row_by_id t j rs)"
    unfolding row_by_id_def put_row_def i by (induction rs) (auto simp: i)
  with assms(1) show ?thesis by simp
qed

end

interpretation chars: mergeable character_table
  by unfold_locales (auto simp: character_table_def field_defs)

interpretation terms: mergeable term_table
  by unfold_locales (auto simp: term_table_def field_defs)

interpretation heads: mergeable series_table
  by unfold_locales (auto simp: series_table_def field_defs)

interpretation pairs: mergeable pair_table
  by unfold_locales (auto simp: pair_table_def field_defs)

end
