(* ===== verification/Bible_Store.thy ===== *)
theory Bible_Store
  imports Bible_Model Unicode_Tables
begin

text \<open>
  The store of the Series Bible, \<open>trezarr/bible/store.py\<close>: each public function is one
  transaction on the database, a function from the database to an exception or to the new
  database and its result. A failing transaction is rolled back, so an exception carries no
  database. The lower-casing of the database is an argument \<open>db_lower\<close>, since SQLite and Python
  differ there, and so is the size of the JSON text of a metadata snapshot.
\<close>

section \<open>Transactions\<close>

text \<open>What the schema enforces when a transaction is flushed.\<close>

definition fk_ok :: "bible_db \<Rightarrow> bool" where
  "fk_ok db \<longleftrightarrow>
     (let sids = sr_id ` set (db_series db); cids = cr_id ` set (db_characters db) in
      cr_series ` set (db_characters db) \<subseteq> sids \<and> tr_series ` set (db_terms db) \<subseteq> sids
      \<and> pr_series ` set (db_pairs db) \<subseteq> sids \<and> pr_speaker ` set (db_pairs db) \<subseteq> cids
      \<and> pr_addressee ` set (db_pairs db) \<subseteq> cids \<and> rr_series ` set (db_relations db) \<subseteq> sids
      \<and> rr_a ` set (db_relations db) \<subseteq> cids \<and> rr_b ` set (db_relations db) \<subseteq> cids
      \<and> ev_series ` set (db_events db) \<subseteq> sids)"

definition series_identity :: "series_row \<Rightarrow> pystr \<times> pystr \<times> int" where
  "series_identity r = (sr_kind r, sr_instance r, sr_arr_id r)"

definition constraints_ok :: "bible_db \<Rightarrow> bool" where
  "constraints_ok db \<longleftrightarrow>
     distinct (map series_identity (db_series db))
     \<and> (\<forall>r \<in> set (db_series db). sr_kind r \<in> {lit ''sonarr'', lit ''radarr''})
     \<and> (\<forall>r \<in> set (db_terms db). tr_rendering r \<noteq> None)
     \<and> (\<forall>e \<in> set (db_events db). ev_source e \<in> set VALID_SOURCES)
     \<and> (db_fk db \<longrightarrow> fk_ok db)"

definition commit :: "bible_db \<Rightarrow> 'a \<Rightarrow> py_error + (bible_db \<times> 'a)" where
  "commit db x = (if constraints_ok db then Inr (db, x) else Inl IntegrityError)"

fun scalar_one_or_none :: "'a list \<Rightarrow> py_error + 'a option" where
  "scalar_one_or_none [] = Inr None"
| "scalar_one_or_none [r] = Inr (Some r)"
| "scalar_one_or_none (r # r' # rs) = Inl MultipleResultsFound"

section \<open>Series\<close>

definition MAX_ARR_METADATA_BYTES :: nat where
  "MAX_ARR_METADATA_BYTES = 32 * 1024"

definition get_or_create_series ::
  "((pystr \<times> pystr) list \<Rightarrow> nat) \<Rightarrow> pystr \<Rightarrow> pystr \<Rightarrow> int \<Rightarrow> (pystr \<times> pystr) list \<Rightarrow> int option \<Rightarrow> int option \<Rightarrow>
   bible_db \<Rightarrow> py_error + (bible_db \<times> series_row)" where
  "get_or_create_series json_bytes kind inst aid meta tvdb tmdb db =
     (if json_bytes meta > MAX_ARR_METADATA_BYTES then Inl ValueError
      else case scalar_one_or_none (filter (\<lambda>r. series_identity r = (kind, inst, aid)) (db_series db)) of
        Inl e \<Rightarrow> Inl e
      | Inr (Some r) \<Rightarrow> Inr (db, r)
      | Inr None \<Rightarrow>
          (let r = \<lparr>sr_id = next_id series_table (db_series db), sr_kind = kind, sr_instance = inst, sr_arr_id = aid,
                    sr_tvdb = tvdb, sr_tmdb = tmdb, sr_register = None, sr_metadata = meta, sr_locked = [],
                    sr_langs = None, sr_model = None\<rparr>
           in commit (db\<lparr>db_series := db_series db @ [r]\<rparr>) r))"

definition get_series_by_arr_id :: "pystr \<Rightarrow> int \<Rightarrow> pystr \<Rightarrow> bible_db \<Rightarrow> series_row option" where
  "get_series_by_arr_id kind aid inst db = find (\<lambda>r. series_identity r = (kind, inst, aid)) (db_series db)"

definition load_all_series :: "bible_db \<Rightarrow> series_row list" where
  "load_all_series db = sort_key sr_id (db_series db)"

text \<open>The aggregate a translation reads.\<close>

record series_bible =
  sb_series :: series_row
  sb_characters :: "character_row list"
  sb_terms :: "term_row list"
  sb_pairs :: "pair_row list"
  sb_relations :: "relation_row list"
  sb_langs :: "pystr list option"
  sb_model :: "pystr option"

definition load_series_bible :: "nat \<Rightarrow> bible_db \<Rightarrow> py_error + series_bible" where
  "load_series_bible sid db = (case row_by_id series_table sid (db_series db) of
     None \<Rightarrow> Inl NoResultFound
   | Some r \<Rightarrow> Inr \<lparr>sb_series = r,
       sb_characters = filter (\<lambda>c. cr_series c = sid) (db_characters db),
       sb_terms = filter (\<lambda>t. tr_series t = sid) (db_terms db),
       sb_pairs = filter (\<lambda>p. pr_series p = sid) (db_pairs db),
       sb_relations = filter (\<lambda>x. rr_series x = sid) (db_relations db),
       sb_langs = None, sb_model = None\<rparr>)"

definition load_address_map :: "nat \<Rightarrow> bible_db \<Rightarrow> pair_row list" where
  "load_address_map sid db = filter (\<lambda>p. pr_series p = sid) (db_pairs db)"

section \<open>Characters\<close>

text \<open>The fields a caller provided, and the events of a first insert.\<close>

definition provided :: "inferred \<Rightarrow> inferred" where
  "provided fs = filter (\<lambda>(f, v). v \<noteq> None) fs"

definition insert_events :: "'r table \<Rightarrow> pystr option \<Rightarrow> pystr \<Rightarrow> 'r \<Rightarrow> inferred \<Rightarrow> bible_event list" where
  "insert_events t ep src r fs = map (\<lambda>(f, v). change_event t ep src r (f, None, v)) (provided fs)"

definition characters_named :: "(pystr \<Rightarrow> pystr) \<Rightarrow> nat \<Rightarrow> pystr \<Rightarrow> bible_db \<Rightarrow> character_row list" where
  "characters_named db_lower sid name db =
     filter (\<lambda>c. cr_series c = sid \<and> db_lower (cr_name c) = lower (strip name)) (db_characters db)"

definition get_character :: "(pystr \<Rightarrow> pystr) \<Rightarrow> nat \<Rightarrow> pystr \<Rightarrow> bible_db \<Rightarrow> py_error + character_row option" where
  "get_character db_lower sid name db = scalar_one_or_none (characters_named db_lower sid name db)"

definition upsert_character ::
  "(pystr \<Rightarrow> pystr) \<Rightarrow> nat \<Rightarrow> pystr \<Rightarrow> pystr option \<Rightarrow> pystr option \<Rightarrow> pystr option \<Rightarrow> pystr option \<Rightarrow> pystr \<Rightarrow>
   bible_db \<Rightarrow> py_error + (bible_db \<times> character_row \<times> bible_event list)" where
  "upsert_character db_lower sid name gender age role ep src db =
     (let fs = [(F_GENDER, gender), (F_AGE, age), (F_ROLE, role)] in
      case scalar_one_or_none (characters_named db_lower sid name db) of
        Inl e \<Rightarrow> Inl e
      | Inr None \<Rightarrow>
          (let r = \<lparr>cr_id = next_id character_table (db_characters db), cr_series = sid, cr_name = name,
                    cr_gender = gender, cr_age = age, cr_role = role, cr_locked = []\<rparr>;
               es = insert_events character_table ep src r fs
           in commit (db\<lparr>db_characters := db_characters db @ [r], db_events := db_events db @ es\<rparr>) (r, es))
      | Inr (Some r) \<Rightarrow>
          (if provided fs = [] then Inr (db, r, [])
           else case merge_row character_table (provided fs) ep src r of
             Inl e \<Rightarrow> Inl e
           | Inr (r', es) \<Rightarrow>
               commit (db\<lparr>db_characters := put_row character_table r' (db_characters db),
                          db_events := db_events db @ es\<rparr>) (r', es)))"

section \<open>Terms\<close>

definition get_term :: "nat \<Rightarrow> pystr \<Rightarrow> bible_db \<Rightarrow> py_error + term_row option" where
  "get_term sid source db =
     scalar_one_or_none (filter (\<lambda>t. tr_series t = sid \<and> tr_source t = source) (db_terms db))"

text \<open>The oldest row whose lowered source is the lowered, stripped argument.\<close>

definition term_named :: "(pystr \<Rightarrow> pystr) \<Rightarrow> nat \<Rightarrow> pystr \<Rightarrow> bible_db \<Rightarrow> term_row option" where
  "term_named db_lower sid source db =
     (case sort_key tr_id (filter (\<lambda>t. tr_series t = sid \<and> db_lower (tr_source t) = lower (strip source)) (db_terms db)) of
        [] \<Rightarrow> None | t # _ \<Rightarrow> Some t)"

text \<open>
  The carry-forward guard: an inferred rendering of a term that has one, unlocked, is not merged;
  when it differs it is recorded in the audit log.
\<close>

definition carry_forward :: "term_row \<Rightarrow> pystr option \<Rightarrow> pystr \<Rightarrow> bool" where
  "carry_forward r rendering src \<longleftrightarrow>
     rendering \<noteq> None \<and> src = lit ''inference'' \<and> strip (or_empty (tr_rendering r)) \<noteq> []
     \<and> F_RENDERING \<notin> set (tr_locked r)"

definition suppressed_events ::
  "nat \<Rightarrow> pystr option \<Rightarrow> pystr \<Rightarrow> term_row \<Rightarrow> pystr option \<Rightarrow> bible_event list" where
  "suppressed_events sid ep src r rendering =
     (if carry_forward r rendering src \<and> rendering \<noteq> Some (or_empty (tr_rendering r))
      then [\<lparr>ev_series = sid, ev_episode = ep, ev_entity = ETerm, ev_id = tr_id r, ev_field = F_RENDERING,
             ev_old = BStr (Some (or_empty (tr_rendering r))), ev_new = BStr rendering, ev_source = src\<rparr>]
      else [])"

definition upsert_term ::
  "(pystr \<Rightarrow> pystr) \<Rightarrow> nat \<Rightarrow> pystr \<Rightarrow> pystr option \<Rightarrow> pystr option \<Rightarrow> pystr option \<Rightarrow> pystr \<Rightarrow>
   bible_db \<Rightarrow> py_error + (bible_db \<times> term_row \<times> bible_event list)" where
  "upsert_term db_lower sid source rendering category ep src db =
     (case term_named db_lower sid source db of
        None \<Rightarrow>
          (let r = \<lparr>tr_id = next_id term_table (db_terms db), tr_series = sid, tr_source = source,
                    tr_rendering = Some (or_empty rendering), tr_category = category, tr_locked = []\<rparr>;
               es = insert_events term_table ep src r [(F_RENDERING, rendering), (F_CATEGORY, category)]
           in commit (db\<lparr>db_terms := db_terms db @ [r], db_events := db_events db @ es\<rparr>) (r, es))
      | Some r \<Rightarrow>
          (let xs = suppressed_events sid ep src r rendering;
               fs = provided [(F_RENDERING, if carry_forward r rendering src then None else rendering),
                              (F_CATEGORY, category)]
           in if fs = [] then commit (db\<lparr>db_events := db_events db @ xs\<rparr>) (r, xs)
              else case merge_row term_table fs ep src r of
                Inl e \<Rightarrow> Inl e
              | Inr (r', es) \<Rightarrow>
                  commit (db\<lparr>db_terms := put_row term_table r' (db_terms db),
                             db_events := db_events db @ xs @ es\<rparr>) (r', xs @ es)))"

section \<open>Address pairs\<close>

text \<open>The update of an existing pair, field by field; it does not go through the merge engine.\<close>

fun pair_update ::
  "pystr list \<Rightarrow> nat \<Rightarrow> pystr option \<Rightarrow> pystr \<Rightarrow> inferred \<Rightarrow> pair_row \<Rightarrow> bible_event list \<Rightarrow> pair_row \<times> bible_event list" where
  "pair_update locked sid ep src [] r es = (r, es)"
| "pair_update locked sid ep src ((f, v) # fs) r es =
     (if v = None \<or> f \<in> set locked \<or> t_get pair_table f r = v then pair_update locked sid ep src fs r es
      else pair_update locked sid ep src fs (t_set pair_table f v r)
             (es @ [\<lparr>ev_series = sid, ev_episode = ep, ev_entity = EPair, ev_id = pr_id r, ev_field = f,
                     ev_old = BStr (t_get pair_table f r), ev_new = BStr v, ev_source = src\<rparr>]))"

definition upsert_address_pair ::
  "nat \<Rightarrow> nat \<Rightarrow> nat \<Rightarrow> pystr option \<Rightarrow> pystr option \<Rightarrow> pystr option \<Rightarrow> pystr option \<Rightarrow> pystr \<Rightarrow>
   bible_db \<Rightarrow> py_error + (bible_db \<times> pair_row \<times> bible_event list)" where
  "upsert_address_pair sid spk adr self address since ep src db =
     (let fs = [(F_SELF, self), (F_ADDRESS, address), (F_FROM, since)] in
      case scalar_one_or_none (filter (\<lambda>p. pr_series p = sid \<and> pr_speaker p = spk \<and> pr_addressee p = adr) (db_pairs db)) of
        Inl e \<Rightarrow> Inl e
      | Inr None \<Rightarrow>
          (let r = \<lparr>pr_id = next_id pair_table (db_pairs db), pr_series = sid, pr_speaker = spk, pr_addressee = adr,
                    pr_self = self, pr_address = address, pr_from = since, pr_locked = []\<rparr>;
               es = insert_events pair_table ep src r fs
           in commit (db\<lparr>db_pairs := db_pairs db @ [r], db_events := db_events db @ es\<rparr>) (r, es))
      | Inr (Some r) \<Rightarrow>
          (case pair_update (pr_locked r) sid ep src fs r [] of
             (r', es) \<Rightarrow> commit (db\<lparr>db_pairs := put_row pair_table r' (db_pairs db),
                                    db_events := db_events db @ es\<rparr>) (r', es)))"

section \<open>Merging by hand, relationship events, overrides\<close>

definition merge_inferred ::
  "entity \<Rightarrow> nat \<Rightarrow> inferred \<Rightarrow> pystr option \<Rightarrow> pystr \<Rightarrow> bible_db \<Rightarrow> py_error + (bible_db \<times> bible_event list)" where
  "merge_inferred e i fs ep src db =
     (if src \<notin> set VALID_SOURCES then Inl ValueError
      else if e = EPair then Inl TypeError
      else if \<not> validate_mergeable e fs then Inl ValueError
      else case e of
        ECharacter \<Rightarrow>
          (case row_by_id character_table i (db_characters db) of
             None \<Rightarrow> Inl ValueError
           | Some r \<Rightarrow> (case merge_row character_table fs ep src r of
               Inl err \<Rightarrow> Inl err
             | Inr (r', es) \<Rightarrow> commit (db\<lparr>db_characters := put_row character_table r' (db_characters db),
                                         db_events := db_events db @ es\<rparr>) es))
      | ETerm \<Rightarrow>
          (case row_by_id term_table i (db_terms db) of
             None \<Rightarrow> Inl ValueError
           | Some r \<Rightarrow> (case merge_row term_table fs ep src r of
               Inl err \<Rightarrow> Inl err
             | Inr (r', es) \<Rightarrow> commit (db\<lparr>db_terms := put_row term_table r' (db_terms db),
                                         db_events := db_events db @ es\<rparr>) es))
      | _ \<Rightarrow>
          (case row_by_id series_table i (db_series db) of
             None \<Rightarrow> Inl ValueError
           | Some r \<Rightarrow> (case merge_row series_table fs ep src r of
               Inl err \<Rightarrow> Inl err
             | Inr (r', es) \<Rightarrow> commit (db\<lparr>db_series := put_row series_table r' (db_series db),
                                         db_events := db_events db @ es\<rparr>) es)))"

definition record_relationship_event ::
  "nat \<Rightarrow> nat \<Rightarrow> nat \<Rightarrow> pystr \<Rightarrow> pystr option \<Rightarrow> bible_db \<Rightarrow> py_error + (bible_db \<times> relation_row)" where
  "record_relationship_event sid a b marker description db =
     (case scalar_one_or_none (filter (\<lambda>x. rr_series x = sid \<and> rr_a x = a \<and> rr_b x = b \<and> rr_marker x = marker)
             (db_relations db)) of
        Inl e \<Rightarrow> Inl e
      | Inr (Some r) \<Rightarrow> Inr (db, r)
      | Inr None \<Rightarrow>
          (let r = \<lparr>rr_id = Suc (foldr max (map rr_id (db_relations db)) 0), rr_series = sid, rr_a = a, rr_b = b,
                    rr_marker = marker, rr_description = description\<rparr>
           in commit (db\<lparr>db_relations := db_relations db @ [r]\<rparr>) r))"

definition set_series_overrides ::
  "nat \<Rightarrow> pystr list option \<Rightarrow> pystr option \<Rightarrow> bible_db \<Rightarrow> py_error + (bible_db \<times> series_row)" where
  "set_series_overrides sid langs model db =
     (case row_by_id series_table sid (db_series db) of
        None \<Rightarrow> Inl ValueError
      | Some r \<Rightarrow>
          (let langs' = (if langs = Some [] then None else langs);
               model' = (if truthy model then model else None);
               r' = r\<lparr>sr_langs := langs', sr_model := model'\<rparr>;
               e = \<lparr>ev_series = sid, ev_episode = None, ev_entity = ESeries, ev_id = sid, ev_field = lit ''overrides'',
                    ev_old = BOverrides (sr_langs r) (sr_model r), ev_new = BOverrides langs' model',
                    ev_source = lit ''import''\<rparr>
           in commit (db\<lparr>db_series := put_row series_table r' (db_series db), db_events := db_events db @ [e]\<rparr>) r'))"

end
