(* ===== verification/Attribution.thy ===== *)
theory Attribution
  imports Batching Bible_Store
begin

text \<open>
  Who speaks to whom: the attribution pass (\<open>trezarr/translate/attribute.py\<close>), the resolution of
  a name to a character (\<open>_normalize_name\<close> and \<open>_resolve_char_id\<close> of
  \<open>trezarr/translate/engine.py\<close>), and what else the engine derives from names: the episode key
  and the glossary. The model's answer and the JSON validation are arguments.
\<close>

section \<open>Names\<close>

definition HONORIFIC_PREFIXES :: "pystr list" where
  "HONORIFIC_PREFIXES =
     [lit ''mr'', lit ''mrs'', lit ''ms'', lit ''miss'', lit ''sir'', lit ''madam'', lit ''master'',
      lit ''elder'', lit ''senior'', lit ''brother'', lit ''sister'', lit ''lord'', lit ''lady'', lit ''young'']"

definition is_honorific :: "pystr \<Rightarrow> bool" where
  "is_honorific t \<longleftrightarrow> rstrip_char 46 t \<in> set HONORIFIC_PREFIXES"

text \<open>The loop peels leading honorifics but never the last token.\<close>

fun peel_honorifics :: "pystr list \<Rightarrow> pystr list" where
  "peel_honorifics (t # u # ts) = (if is_honorific t then peel_honorifics (u # ts) else t # u # ts)"
| "peel_honorifics ts = ts"

definition exact_key :: "pystr \<Rightarrow> pystr" where
  "exact_key name = lower (strip name)"

definition normalize_name :: "pystr \<Rightarrow> pystr" where
  "normalize_name name =
     (let base = exact_key name in
      if base = [] then base
      else let stripped = strip (join_with [32] (peel_honorifics (split_ws base)))
        in if stripped \<noteq> [] then stripped else base)"

text \<open>The index of the characters of a Bible by name; a later character overwrites an earlier one.\<close>

type_synonym name_index = "(pystr \<times> nat) list"

definition name_index :: "character_row list \<Rightarrow> name_index" where
  "name_index cs = map (\<lambda>c. (exact_key (cr_name c), cr_id c)) cs"

definition index_get :: "name_index \<Rightarrow> pystr \<Rightarrow> nat option" where
  "index_get idx k = map_of (rev idx) k"

definition resolve_char_id :: "name_index \<Rightarrow> pystr option \<Rightarrow> nat option" where
  "resolve_char_id idx name =
     (case name of
        None \<Rightarrow> None
      | Some n \<Rightarrow>
          (if n = [] then None
           else case index_get idx (exact_key n) of
             Some i \<Rightarrow> (if i \<noteq> 0 then Some i else index_get idx (normalize_name n))
           | None \<Rightarrow> index_get idx (normalize_name n)))"

section \<open>The attribution pass\<close>

datatype confidence = Low | Medium | High

record line_attribution =
  la_index :: int
  la_speaker :: "pystr option"
  la_addressee :: "pystr option"
  la_confidence :: confidence

definition low_unknown :: "int \<Rightarrow> line_attribution" where
  "low_unknown i = \<lparr>la_index = i, la_speaker = None, la_addressee = None, la_confidence = Low\<rparr>"

definition all_low_unknown :: "batch \<Rightarrow> line_attribution list" where
  "all_low_unknown b = map (\<lambda>i. low_unknown (int i)) [1..<Suc (length (batch_cues b))]"

definition known_names :: "character_row list \<Rightarrow> pystr set" where
  "known_names cs = set (map (\<lambda>c. exact_key (cr_name c)) cs)"

definition unknown_name :: "pystr set \<Rightarrow> pystr option \<Rightarrow> bool" where
  "unknown_name known n \<longleftrightarrow> (case n of None \<Rightarrow> False | Some s \<Rightarrow> exact_key s \<notin> known)"

definition match_names :: "pystr set \<Rightarrow> line_attribution \<Rightarrow> line_attribution" where
  "match_names known a =
     \<lparr>la_index = la_index a,
      la_speaker = (if unknown_name known (la_speaker a) then None else la_speaker a),
      la_addressee = (if unknown_name known (la_addressee a) then None else la_addressee a),
      la_confidence = (if unknown_name known (la_speaker a) \<or> unknown_name known (la_addressee a) then Low
                       else la_confidence a)\<rparr>"

definition apply_name_matching :: "line_attribution list \<Rightarrow> character_row list \<Rightarrow> line_attribution list" where
  "apply_name_matching as cs = map (match_names (known_names cs)) as"

definition fill_missing_indices :: "line_attribution list \<Rightarrow> nat \<Rightarrow> line_attribution list" where
  "fill_missing_indices as n =
     (let by_index = rev (map (\<lambda>a. (la_index a, a)) as)
      in map (\<lambda>i. case map_of by_index (int i) of Some a \<Rightarrow> a | None \<Rightarrow> low_unknown (int i)) [1..<Suc n])"

text \<open>What the client returns: a validated object, a text, or something else.\<close>

datatype attr_reply = ParsedReply "line_attribution list" | TextReply pystr | OtherReply

definition attribute_batch ::
  "bool \<Rightarrow> bool \<Rightarrow> 'e + attr_reply \<Rightarrow> (pystr \<Rightarrow> line_attribution list option) \<Rightarrow> character_row list \<Rightarrow> batch
     \<Rightarrow> 'e + line_attribution list" where
  "attribute_batch enabled text_mode reply parse_json cs b =
     (if \<not> enabled then Inr (all_low_unknown b)
      else if text_mode then Inr (all_low_unknown b)
      else case reply of
        Inl e \<Rightarrow> Inl e
      | Inr r \<Rightarrow>
          (case (case r of ParsedReply as \<Rightarrow> Some as | TextReply t \<Rightarrow> parse_json t | OtherReply \<Rightarrow> None) of
             None \<Rightarrow> Inr (all_low_unknown b)
           | Some as \<Rightarrow> Inr (fill_missing_indices (apply_name_matching as cs) (length (batch_cues b)))))"

section \<open>Episode keys\<close>

definition rdig :: rx where
  "rdig = RCls is_digit"

definition SXXEXX_RE :: rx where
  "SXXEXX_RE = RSeq (ristr (lit ''s'')) (RSeq (RGrp 1 (RSeq rdig (rplus rdig)))
     (RSeq (ristr (lit ''e'')) (RGrp 2 (RSeq rdig (rplus rdig)))))"

definition NXNN_RE :: rx where
  "NXNN_RE = RSeq (RAssert (\<lambda>l s. case l of [] \<Rightarrow> True | c # _ \<Rightarrow> \<not> is_digit c))
     (RSeq (RGrp 1 (RSeq rdig (ropt rdig))) (RSeq (RCls (\<lambda>c. c = 120 \<or> c = 88))
       (RSeq (RGrp 2 (RSeq rdig (ropt (RSeq rdig (ropt rdig)))))
         (RAssert (\<lambda>l s. case s of [] \<Rightarrow> True | c # _ \<Rightarrow> \<not> is_digit c)))))"

text \<open>\<open>f"{n:02d}"\<close>\<close>

definition pad2 :: "nat \<Rightarrow> pystr" where
  "pad2 n = (if n < 10 then 48 # dec n else dec n)"

definition episode_label :: "pystr \<Rightarrow> pystr \<Rightarrow> pystr" where
  "episode_label s e = [83] @ s @ [69] @ e"

definition slug_char :: "pychar \<Rightarrow> bool" where
  "slug_char c \<longleftrightarrow> 97 \<le> c \<and> c \<le> 122 \<or> 48 \<le> c \<and> c \<le> 57 \<or> c = 45"

text \<open>\<open>stem\<close> is the stem of the subtitle's file name, where there is a path.\<close>

definition derive_episode_key :: "pystr \<Rightarrow> nat option \<Rightarrow> pystr option \<Rightarrow> pystr option \<Rightarrow> pystr" where
  "derive_episode_key source_type season title stem =
     (if source_type = lit ''episode'' then
        let fallback = episode_label (pad2 (case season of None \<Rightarrow> 0 | Some n \<Rightarrow> n)) (lit ''00'') in
        (case stem of
           None \<Rightarrow> fallback
         | Some st \<Rightarrow>
             (case re_search SXXEXX_RE st of
                Some (a, m, z, g) \<Rightarrow> episode_label (Py_Regex.group g 1) (Py_Regex.group g 2)
              | None \<Rightarrow>
                  (case re_search NXNN_RE st of
                     Some (a, m, z, g) \<Rightarrow>
                       episode_label (pad2 (int_of_digits (Py_Regex.group g 1))) (pad2 (int_of_digits (Py_Regex.group g 2)))
                   | None \<Rightarrow> fallback)))
      else
        let name = (if truthy title then or_empty title else lit ''movie'');
            slug = replace_all [32] [45] (take 20 (lower name))
        in lit ''movie-'' @ filter slug_char slug)"

section \<open>Glossary and proper nouns\<close>

definition ARROW :: pystr where
  "ARROW = [32, 8594, 32]"

text \<open>The lines of the terms, then of the characters no term names; \<open>seen\<close> grows with both.\<close>

fun term_lines :: "term_row list \<Rightarrow> pystr set \<Rightarrow> pystr list \<times> pystr set" where
  "term_lines [] seen = ([], seen)"
| "term_lines (t # ts) seen =
     (let src = strip (tr_source t); ren = strip (or_empty (tr_rendering t)) in
      if src \<noteq> [] \<and> ren \<noteq> [] then
        (let (ls, seen') = term_lines ts (insert (lower src) seen) in ((src @ ARROW @ ren) # ls, seen'))
      else term_lines ts seen)"

fun character_lines :: "character_row list \<Rightarrow> pystr set \<Rightarrow> pystr list" where
  "character_lines [] seen = []"
| "character_lines (c # cs) seen =
     (let name = strip (cr_name c) in
      if name \<noteq> [] \<and> lower name \<notin> seen then (name @ ARROW @ name) # character_lines cs (insert (lower name) seen)
      else character_lines cs seen)"

definition build_glossary_lines :: "term_row list \<Rightarrow> character_row list \<Rightarrow> pystr list" where
  "build_glossary_lines ts cs = (let (ls, seen) = term_lines ts {} in ls @ character_lines cs seen)"

definition WORD_TOKEN_RE :: rx where
  "WORD_TOKEN_RE = rplus (RCls (\<lambda>c. is_word c \<and> \<not> is_digit c \<and> c \<noteq> 95))"

definition name_tokens :: "pystr \<Rightarrow> pystr list" where
  "name_tokens s = re_findall WORD_TOKEN_RE (lower s)"

text \<open>\<open>g.split(" -> ", 1)[-1]\<close>\<close>

definition rendering_side :: "pystr \<Rightarrow> pystr" where
  "rendering_side g = (case find_sub ARROW g of None \<Rightarrow> g | Some n \<Rightarrow> drop (n + length ARROW) g)"

definition proper_noun_allowlist :: "pystr list \<Rightarrow> character_row list \<Rightarrow> term_row list \<Rightarrow> pystr set" where
  "proper_noun_allowlist glossary cs ts =
     set (concat (map (\<lambda>g. name_tokens (rendering_side g)) glossary
       @ map (\<lambda>c. name_tokens (cr_name c)) cs
       @ map (\<lambda>t. name_tokens (or_empty (tr_rendering t)) @ name_tokens (tr_source t)) ts))"


section \<open>Attributions line up with the cues\<close>

lemma match_names_known:
  "\<not> unknown_name k (la_speaker (match_names k a)) \<and> \<not> unknown_name k (la_addressee (match_names k a))"
  by (simp add: match_names_def unknown_name_def)

lemma low_unknown_simps [simp]: "la_index (low_unknown i) = i" "la_speaker (low_unknown i) = None" "la_addressee (low_unknown i) = None"
  by (simp_all add: low_unknown_def)

lemma fill_index: "map la_index (fill_missing_indices as n) = map int [1..<Suc n]"
  by (auto simp: fill_missing_indices_def Let_def dest!: map_of_SomeD split: option.splits)

lemma fill_mem: "a \<in> set (fill_missing_indices as n) \<Longrightarrow> a \<in> set as \<or> (\<exists>i. a = low_unknown i)"
  by (auto simp: fill_missing_indices_def Let_def dest!: map_of_SomeD split: option.splits)

lemma all_low_index: "map la_index (all_low_unknown b) = map int [1..<Suc (length (batch_cues b))]"
  by (simp add: all_low_unknown_def comp_def del: upt_Suc)

lemma attribute_cases:
  assumes "attribute_batch en tm reply pj cs b = Inr out"
  obtains "out = all_low_unknown b" | as where "out = fill_missing_indices (apply_name_matching as cs) (length (batch_cues b))"
  using assms by (auto simp: attribute_batch_def split: if_splits sum.splits option.splits attr_reply.splits)

lemma attributed_known:
  assumes "attribute_batch en tm reply pj cs b = Inr out" and "a \<in> set out"
  shows "\<not> unknown_name (known_names cs) (la_speaker a) \<and> \<not> unknown_name (known_names cs) (la_addressee a)"
  using assms(1)
proof (cases rule: attribute_cases)
  case 1
  with assms(2) have "la_speaker a = None" "la_addressee a = None" by (auto simp: all_low_unknown_def)
  then show ?thesis by (simp add: unknown_name_def)
next
  case (2 as)
  with assms(2) fill_mem consider "a \<in> set (apply_name_matching as cs)" | i where "a = low_unknown i" by blast
  then show ?thesis
  proof cases
    case 1
    then show ?thesis by (auto simp: apply_name_matching_def match_names_known)
  next
    case 2
    then show ?thesis by (simp add: unknown_name_def)
  qed
qed

lemma index_get_Some: "index_get idx k = Some i \<Longrightarrow> (k, i) \<in> set idx"
  by (auto simp: index_get_def dest: map_of_SomeD)

lemma index_get_known: "index_get (name_index cs) k \<noteq> None \<longleftrightarrow> k \<in> known_names cs"
  by (auto simp: index_get_def known_names_def name_index_def map_of_eq_None_iff image_image)

lemma index_get_unique:
  assumes "distinct (map (\<lambda>c. exact_key (cr_name c)) cs)" and "c \<in> set cs"
  shows "index_get (name_index cs) (exact_key (cr_name c)) = Some (cr_id c)"
  unfolding index_get_def
proof (rule map_of_is_SomeI)
  show "distinct (map fst (rev (name_index cs)))"
    using assms(1) by (simp add: name_index_def rev_map[symmetric] comp_def)
  show "(exact_key (cr_name c), cr_id c) \<in> set (rev (name_index cs))"
    using assms(2) by (auto simp: name_index_def)
qed

section \<open>Glossary\<close>

definition rendered :: "term_row \<Rightarrow> bool" where
  "rendered t \<longleftrightarrow> strip (tr_source t) \<noteq> [] \<and> strip (or_empty (tr_rendering t)) \<noteq> []"

lemma term_lines_Cons:
  "fst (term_lines (t # ts) seen) =
     (if rendered t then (strip (tr_source t) @ ARROW @ strip (or_empty (tr_rendering t)))
        # fst (term_lines ts (insert (lower (strip (tr_source t))) seen))
      else fst (term_lines ts seen))"
  "snd (term_lines (t # ts) seen) =
     (if rendered t then snd (term_lines ts (insert (lower (strip (tr_source t))) seen)) else snd (term_lines ts seen))"
  by (simp_all add: rendered_def Let_def case_prod_unfold)

lemma term_lines_seen:
  "snd (term_lines ts seen) = seen \<union> (\<lambda>t. lower (strip (tr_source t))) ` set (filter rendered ts)"
proof (induction ts arbitrary: seen)
  case (Cons t ts)
  show ?case unfolding term_lines_Cons Cons.IH by auto
qed simp

lemma term_lines_mem:
  "t \<in> set ts \<Longrightarrow> rendered t \<Longrightarrow>
     strip (tr_source t) @ ARROW @ strip (or_empty (tr_rendering t)) \<in> set (fst (term_lines ts seen))"
proof (induction ts arbitrary: seen)
  case (Cons u ts)
  show ?case unfolding term_lines_Cons using Cons by (cases "t = u") simp_all
qed simp

lemma character_lines_mem:
  "c \<in> set cs \<Longrightarrow> strip (cr_name c) \<noteq> [] \<Longrightarrow> lower (strip (cr_name c)) \<notin> seen \<Longrightarrow>
     \<exists>d \<in> set cs. lower (strip (cr_name d)) = lower (strip (cr_name c))
       \<and> strip (cr_name d) @ ARROW @ strip (cr_name d) \<in> set (character_lines cs seen)"
proof (induction cs arbitrary: seen)
  case (Cons d cs)
  show ?case
  proof (cases "strip (cr_name d) \<noteq> [] \<and> lower (strip (cr_name d)) \<notin> seen")
    case False
    with Cons.prems have "c \<in> set cs" by auto
    from Cons.IH[OF this Cons.prems(2,3)] False show ?thesis by (auto simp: Let_def)
  next
    case True
    show ?thesis
    proof (cases "lower (strip (cr_name d)) = lower (strip (cr_name c))")
      case True
      with \<open>strip (cr_name d) \<noteq> [] \<and> lower (strip (cr_name d)) \<notin> seen\<close> show ?thesis by (auto simp: Let_def)
    next
      case False
      with Cons.prems have "c \<in> set cs" by auto
      from Cons.IH[OF this Cons.prems(2), of "insert (lower (strip (cr_name d))) seen"] Cons.prems(3) False True
      show ?thesis by (auto simp: Let_def)
    qed
  qed
qed simp

section \<open>Properties\<close>

text \<open>
  Whatever the model answers, an attribution that does not fail has one entry for each cue
  of the batch, numbered from 1, and names no one outside the characters of the Bible.
\<close>

theorem attribution_aligned:
  assumes "attribute_batch en tm reply pj cs b = Inr out"
  shows "map la_index out = map int [1..<Suc (length (batch_cues b))]
    \<and> (\<forall>a \<in> set out. \<not> unknown_name (known_names cs) (la_speaker a) \<and> \<not> unknown_name (known_names cs) (la_addressee a))"
proof
  from assms show "map la_index out = map int [1..<Suc (length (batch_cues b))]"
    by (cases rule: attribute_cases) (simp_all only: all_low_index fill_index)
  from attributed_known[OF assms]
  show "\<forall>a \<in> set out. \<not> unknown_name (known_names cs) (la_speaker a) \<and> \<not> unknown_name (known_names cs) (la_addressee a)"
    by blast
qed

definition zhou :: character_row where
  "zhou = \<lparr>cr_id = 7, cr_series = 1, cr_name = lit ''Zhou'', cr_gender = None, cr_age = None, cr_role = None, cr_locked = []\<rparr>"

definition elder_reply :: "line_attribution list" where
  "elder_reply = [\<lparr>la_index = 1, la_speaker = Some (lit ''Elder Zhou''), la_addressee = Some (lit ''zhou''), la_confidence = High\<rparr>]"

definition first_cue :: batch where
  "first_cue = \<lparr>batch_cues = [sample_cue 1], batch_before = [], batch_after = []\<rparr>"

lemmas name_eval = exact_key_def strip_no_space lower_def ascii_eval lit_def

lemma elder_attributed:
  "attribute_batch True False (Inr (ParsedReply elder_reply) :: unit + attr_reply) (\<lambda>t. None) [zhou] first_cue =
     Inr [\<lparr>la_index = 1, la_speaker = None, la_addressee = Some (lit ''zhou''), la_confidence = Low\<rparr>]"
  by (simp add: attribute_batch_def elder_reply_def apply_name_matching_def match_names_def unknown_name_def
      known_names_def zhou_def name_eval fill_missing_indices_def first_cue_def)

theorem attribution_aligned_witness:
  "map la_index [\<lparr>la_index = 1, la_speaker = None, la_addressee = Some (lit ''zhou''), la_confidence = Low\<rparr>] = map int [1..<Suc 1]"
  using attribution_aligned[OF elder_attributed] by (simp add: first_cue_def)

text \<open>
  A name of the Bible resolves to its own character, whatever honorific variants exist beside
  it: the exact name is tried before the stripped one.
\<close>

theorem exact_name_resolves:
  assumes "distinct (map (\<lambda>c. exact_key (cr_name c)) cs)" and "c \<in> set cs" and "cr_id c \<noteq> 0" and "cr_name c \<noteq> []"
  shows "resolve_char_id (name_index cs) (Some (cr_name c)) = Some (cr_id c)"
  using index_get_unique[OF assms(1,2)] assms(3,4) by (simp add: resolve_char_id_def)

theorem exact_name_resolves_witness: "resolve_char_id (name_index [zhou]) (Some (lit ''Zhou'')) = Some 7"
  using exact_name_resolves[of "[zhou]" zhou] by (simp add: zhou_def lit_def)

text \<open>
  The honorific fallback is never taken for a name that came through the attribution pass:
  that pass has already dropped every name that is not in the Bible as it stands, so looking the
  name up exactly gives the same answer, and an honorific form of a known name loses its speaker.
\<close>

theorem honorific_fallback_unused:
  assumes "attribute_batch en tm reply pj cs b = Inr out" and "a \<in> set out" and "la_speaker a = Some n" and "n \<noteq> []"
    and "\<forall>c \<in> set cs. cr_id c \<noteq> 0"
  shows "resolve_char_id (name_index cs) (la_speaker a) = index_get (name_index cs) (exact_key n)
    \<and> index_get (name_index cs) (exact_key n) \<noteq> None"
proof -
  from attributed_known[OF assms(1,2)] assms(3) have "exact_key n \<in> known_names cs"
    by (simp add: unknown_name_def)
  with index_get_known obtain i where i: "index_get (name_index cs) (exact_key n) = Some i" by blast
  with assms(5) have "i \<noteq> 0" by (auto dest!: index_get_Some simp: name_index_def)
  with i assms(3,4) show ?thesis by (simp add: resolve_char_id_def)
qed

definition zhou_reply :: "line_attribution list" where
  "zhou_reply = [\<lparr>la_index = 1, la_speaker = Some (lit ''ZHOU''), la_addressee = None, la_confidence = High\<rparr>]"

theorem honorific_fallback_unused_witness:
  "resolve_char_id (name_index [zhou]) (Some (lit ''ZHOU'')) = index_get (name_index [zhou]) (exact_key (lit ''ZHOU''))"
proof -
  have "attribute_batch True False (Inr (ParsedReply zhou_reply) :: unit + attr_reply) (\<lambda>t. None) [zhou] first_cue = Inr zhou_reply"
    by (simp add: attribute_batch_def zhou_reply_def apply_name_matching_def match_names_def unknown_name_def
        known_names_def zhou_def name_eval fill_missing_indices_def first_cue_def)
  from honorific_fallback_unused[OF this, of "hd zhou_reply" "lit ''ZHOU''"] show ?thesis
    by (simp add: zhou_reply_def zhou_def lit_def)
qed

text \<open>With the fallback the honorific form would have resolved.\<close>

lemma elder_resolves: "resolve_char_id (name_index [zhou]) (Some (lit ''Elder Zhou'')) = Some 7"
  by (simp add: resolve_char_id_def index_get_def name_index_def zhou_def normalize_name_def name_eval split_ws.simps
      is_honorific_def HONORIFIC_PREFIXES_def rstrip_char_def)

text \<open>
  The glossary leaves no proper noun open: every term with a rendering has its line, and
  every named character has a line for its name unless a term of that name has one.
\<close>

theorem glossary_covers:
  "(\<forall>t \<in> set ts. strip (tr_source t) = [] \<or> strip (or_empty (tr_rendering t)) = []
      \<or> strip (tr_source t) @ ARROW @ strip (or_empty (tr_rendering t)) \<in> set (build_glossary_lines ts cs))
   \<and> (\<forall>c \<in> set cs. strip (cr_name c) = []
      \<or> (\<exists>t \<in> set ts. lower (strip (tr_source t)) = lower (strip (cr_name c)) \<and> strip (or_empty (tr_rendering t)) \<noteq> [])
      \<or> (\<exists>d \<in> set cs. lower (strip (cr_name d)) = lower (strip (cr_name c))
          \<and> strip (cr_name d) @ ARROW @ strip (cr_name d) \<in> set (build_glossary_lines ts cs)))"
proof (intro conjI ballI)
  have g: "set (build_glossary_lines ts cs) = set (fst (term_lines ts {})) \<union> set (character_lines cs (snd (term_lines ts {})))"
    by (simp add: build_glossary_lines_def case_prod_unfold Let_def)
  show "strip (tr_source t) = [] \<or> strip (or_empty (tr_rendering t)) = []
      \<or> strip (tr_source t) @ ARROW @ strip (or_empty (tr_rendering t)) \<in> set (build_glossary_lines ts cs)" if "t \<in> set ts" for t
    using term_lines_mem[OF that, of "{}"] g unfolding rendered_def by blast
  show "strip (cr_name c) = []
      \<or> (\<exists>t \<in> set ts. lower (strip (tr_source t)) = lower (strip (cr_name c)) \<and> strip (or_empty (tr_rendering t)) \<noteq> [])
      \<or> (\<exists>d \<in> set cs. lower (strip (cr_name d)) = lower (strip (cr_name c))
          \<and> strip (cr_name d) @ ARROW @ strip (cr_name d) \<in> set (build_glossary_lines ts cs))" if "c \<in> set cs" for c
  proof (cases "lower (strip (cr_name c)) \<in> snd (term_lines ts {})")
    case True
    then show ?thesis by (auto simp: term_lines_seen rendered_def)
  next
    case False
    show ?thesis
    proof (cases "strip (cr_name c) = []")
      case no: False
      from character_lines_mem[OF that no False] show ?thesis unfolding g by blast
    qed simp
  qed
qed

theorem glossary_covers_witness: "lit ''Zhou'' @ ARROW @ lit ''Zhou'' \<in> set (build_glossary_lines [] [zhou])"
  using glossary_covers[of "[]" "[zhou]"] by (simp add: zhou_def strip_no_space ascii_eval lit_def)

end
