(* ===== verification/Bible_Edits.thy ===== *)
theory Bible_Edits
  imports Bible_Store
begin

text \<open>
  The operations of the Bible editor in \<open>trezarr/bible/store.py\<close>: editing and locking a field of a
  character, a term, a series or an address pair, deleting, and the repair of competing name terms.
\<close>

section \<open>Edits of one field\<close>

definition apply_human_edit_character ::
  "nat \<Rightarrow> nat \<Rightarrow> pystr \<Rightarrow> pystr option \<Rightarrow> bool \<Rightarrow> bible_db \<Rightarrow> py_error + (bible_db \<times> character_row \<times> bible_event)" where
  "apply_human_edit_character cid sid field v lock db =
     (if field \<notin> set (MERGEABLE_FIELDS ECharacter) then Inl ValueError
      else case row_by_id character_table cid (db_characters db) of
        None \<Rightarrow> Inl ValueError
      | Some r \<Rightarrow>
          (if cr_series r \<noteq> sid then Inl ValueError
           else let r' = edit_row character_table field v lock r;
                    e = change_event character_table None (edit_source lock) r (field, t_get character_table field r, v)
                in commit (db\<lparr>db_characters := put_row character_table r' (db_characters db),
                              db_events := db_events db @ [e]\<rparr>) (r', e)))"

definition apply_human_edit_series ::
  "nat \<Rightarrow> pystr \<Rightarrow> pystr option \<Rightarrow> bool \<Rightarrow> bible_db \<Rightarrow> py_error + (bible_db \<times> series_row \<times> bible_event)" where
  "apply_human_edit_series sid field v lock db =
     (if field \<notin> set (MERGEABLE_FIELDS ESeries) then Inl ValueError
      else case row_by_id series_table sid (db_series db) of
        None \<Rightarrow> Inl ValueError
      | Some r \<Rightarrow>
          (let r' = edit_row series_table field v lock r;
               e = change_event series_table None (edit_source lock) r (field, t_get series_table field r, v)
           in commit (db\<lparr>db_series := put_row series_table r' (db_series db), db_events := db_events db @ [e]\<rparr>) (r', e)))"

text \<open>\<open>str(new_value)\<close>.\<close>

definition py_str :: "pystr option \<Rightarrow> pystr" where
  "py_str v = (case v of None \<Rightarrow> lit ''None'' | Some s \<Rightarrow> s)"

text \<open>The row an edit of a term starts from: by its id, or by its exact source, or not there.\<close>

definition locate_term :: "nat \<Rightarrow> pystr option \<Rightarrow> nat option \<Rightarrow> bible_db \<Rightarrow> py_error + term_row option" where
  "locate_term sid source tid db = (case tid of
     Some i \<Rightarrow> (case row_by_id term_table i (db_terms db) of
         None \<Rightarrow> Inl ValueError
       | Some r \<Rightarrow> if tr_series r \<noteq> sid then Inl ValueError else Inr (Some r))
   | None \<Rightarrow> get_term sid (or_empty source) db)"

definition apply_human_edit_term ::
  "nat \<Rightarrow> pystr option \<Rightarrow> nat option \<Rightarrow> pystr \<Rightarrow> pystr option \<Rightarrow> bool \<Rightarrow> bible_db \<Rightarrow>
   py_error + (bible_db \<times> term_row \<times> bible_event)" where
  "apply_human_edit_term sid source tid field v lock db =
     (if tid = None \<and> source = None then Inl ValueError
      else if field \<notin> set (MERGEABLE_FIELDS ETerm) then Inl ValueError
      else case locate_term sid source tid db of
        Inl e \<Rightarrow> Inl e
      | Inr None \<Rightarrow>
          (if field \<noteq> F_RENDERING then Inl ValueError
           else let r = \<lparr>tr_id = next_id term_table (db_terms db), tr_series = sid, tr_source = or_empty source,
                         tr_rendering = Some (py_str v), tr_category = None, tr_locked = edit_lock lock field []\<rparr>;
                    e = change_event term_table None (edit_source lock) r (field, None, Some (py_str v))
                in commit (db\<lparr>db_terms := db_terms db @ [r], db_events := db_events db @ [e]\<rparr>) (r, e))
      | Inr (Some r) \<Rightarrow>
          (let r' = edit_row term_table field v lock r;
               e = change_event term_table None (edit_source lock) r (field, t_get term_table field r, v)
           in commit (db\<lparr>db_terms := put_row term_table r' (db_terms db), db_events := db_events db @ [e]\<rparr>) (r', e)))"

section \<open>Edits of an address pair\<close>

definition blank :: "pystr option \<Rightarrow> bool" where
  "blank x \<longleftrightarrow> strip (or_empty x) = []"

text \<open>One term of the pair: written, with its event, when it is given and differs.\<close>

definition edit_pair_field ::
  "pystr \<Rightarrow> pystr option \<Rightarrow> bool \<Rightarrow> nat \<Rightarrow> pair_row \<times> bible_event list \<Rightarrow> pair_row \<times> bible_event list" where
  "edit_pair_field field v lock sid acc = (case acc of (r, es) \<Rightarrow>
     (case v of
        None \<Rightarrow> (r, es)
      | Some s \<Rightarrow>
          (if t_get pair_table field r = Some (strip s) then (r, es)
           else (t_set pair_table field (Some (strip s)) r,
                 es @ [\<lparr>ev_series = sid, ev_episode = None, ev_entity = EPair, ev_id = pr_id r, ev_field = field,
                        ev_old = BStr (t_get pair_table field r), ev_new = BStr (Some (strip s)),
                        ev_source = edit_source lock\<rparr>]))))"

definition apply_human_edit_address_pair ::
  "nat \<Rightarrow> nat \<Rightarrow> pystr option \<Rightarrow> pystr option \<Rightarrow> bool \<Rightarrow> bible_db \<Rightarrow>
   py_error + (bible_db \<times> pair_row \<times> bible_event list)" where
  "apply_human_edit_address_pair pid sid self address lock db =
     (if lock \<and> (blank self \<or> blank address) then Inl ValueError
      else case row_by_id pair_table pid (db_pairs db) of
        None \<Rightarrow> Inl ValueError
      | Some r \<Rightarrow>
          (if pr_series r \<noteq> sid then Inl ValueError
           else case edit_pair_field F_ADDRESS address lock sid (edit_pair_field F_SELF self lock sid (r, [])) of
             (r1, es) \<Rightarrow>
               (let r' = r1\<lparr>pr_locked := edit_lock lock F_ADDRESS (edit_lock lock F_SELF (pr_locked r1))\<rparr>
                in commit (db\<lparr>db_pairs := put_row pair_table r' (db_pairs db), db_events := db_events db @ es\<rparr>) (r', es))))"

section \<open>Deletes\<close>

text \<open>
  The session is an \<open>AsyncSession\<close>, whose \<open>delete\<close> is a coroutine function: calling it makes a
  coroutine, and a coroutine that is not awaited runs nothing of its body.
\<close>

definition call_without_await :: "('s \<Rightarrow> 's) \<Rightarrow> 's \<Rightarrow> 's" where
  "call_without_await body s = s"

definition session_delete_pair :: "nat \<Rightarrow> bible_db \<Rightarrow> bible_db" where
  "session_delete_pair pid db = db\<lparr>db_pairs := filter (\<lambda>p. pr_id p \<noteq> pid) (db_pairs db)\<rparr>"

definition session_delete_term :: "nat \<Rightarrow> bible_db \<Rightarrow> bible_db" where
  "session_delete_term tid db = db\<lparr>db_terms := filter (\<lambda>t. tr_id t \<noteq> tid) (db_terms db)\<rparr>"

definition delete_address_pair :: "nat \<Rightarrow> nat \<Rightarrow> bible_db \<Rightarrow> py_error + (bible_db \<times> nat)" where
  "delete_address_pair pid sid db = (case row_by_id pair_table pid (db_pairs db) of
     None \<Rightarrow> Inl ValueError
   | Some r \<Rightarrow> if pr_series r \<noteq> sid then Inl ValueError
               else commit (call_without_await (session_delete_pair pid) db) pid)"

definition delete_term :: "nat \<Rightarrow> nat \<Rightarrow> bible_db \<Rightarrow> py_error + (bible_db \<times> nat)" where
  "delete_term tid sid db = (case row_by_id term_table tid (db_terms db) of
     None \<Rightarrow> Inl ValueError
   | Some r \<Rightarrow> if tr_series r \<noteq> sid then Inl ValueError
               else commit (call_without_await (session_delete_term tid) db) tid)"

section \<open>The repair of competing name terms\<close>

definition is_latin_only :: "pystr \<Rightarrow> bool" where
  "is_latin_only s \<longleftrightarrow> \<not> (\<exists>c \<in> set s. 12352 \<le> c \<and> c \<le> 40959 \<or> 13312 \<le> c \<and> c \<le> 19903)"

text \<open>Every branch returns no events, and no branch writes.\<close>

definition dedup_canonical_name_terms :: "nat \<Rightarrow> bible_db \<Rightarrow> bible_event list" where
  "dedup_canonical_name_terms sid db =
     (let locked = filter (\<lambda>t. tr_series t = sid \<and> F_RENDERING \<in> set (tr_locked t)) (db_terms db) in
      if locked = [] then []
      else let latin = filter (\<lambda>t. is_latin_only (tr_source t)) locked;
               script = filter (\<lambda>t. \<not> is_latin_only (tr_source t)) locked
           in if latin = [] \<or> script = [] then [] else [])"

end
