(* ===== verification/Bible_Audit.thy ===== *)
theory Bible_Audit
  imports Bible_Edits
begin

text \<open>
  What every operation of the Bible store promises: an abstract step of one table, \<open>table_step\<close>,
  which says how rows and audit events may change together, and the proof that each operation of
  the store refines it. From the abstract step follow the lock policy (no inference changes a
  locked field) and the audit property (replaying the log gives the current values).
\<close>

section \<open>The abstract step of a table\<close>

text \<open>Events that say nothing about the fields of a table that the log can replay.\<close>

definition noise :: "'r table \<Rightarrow> bible_event \<Rightarrow> bool" where
  "noise t e \<longleftrightarrow> ev_entity e \<noteq> t_entity t \<or> ev_field e = F_RENDERING \<or> (\<exists>a b. ev_new e = BOverrides a b)"

definition new_value :: "(pystr \<times> pystr option \<times> pystr option) list \<Rightarrow> pystr \<Rightarrow> pystr option \<Rightarrow> pystr option" where
  "new_value cs f v = (case map_of cs f of None \<Rightarrow> v | Some (old, new) \<Rightarrow> new)"

inductive table_step :: "'r table \<Rightarrow> bool \<Rightarrow> 'r list \<Rightarrow> bible_event list \<Rightarrow> 'r list \<Rightarrow> bool" for t human where
  keep: "\<forall>e \<in> set es. noise t e \<Longrightarrow> table_step t human rs es rs"
| insert: "t_id t r = next_id t rs \<Longrightarrow> distinct (map fst cs) \<Longrightarrow>
    \<forall>f. f \<noteq> F_RENDERING \<longrightarrow> t_get t f r = new_value cs f None \<Longrightarrow>
    table_step t human rs (map (change_event t ep src r) cs) (rs @ [r])"
| update: "r \<in> set rs \<Longrightarrow> t_id t r' = t_id t r \<Longrightarrow> distinct (map fst cs) \<Longrightarrow>
    \<forall>f. t_get t f r' = new_value cs f (t_get t f r) \<Longrightarrow>
    \<not> human \<longrightarrow> t_locked t r' = t_locked t r \<and> fst ` set cs \<inter> set (t_locked t r) = {} \<Longrightarrow>
    \<forall>e \<in> set xs. noise t e \<Longrightarrow>
    table_step t human rs (xs @ map (change_event t ep src r) cs) (put_row t r' rs)"

lemma fresh_id: "next_id t rs \<notin> t_id t ` set rs"
proof -
  have "r \<in> set rs \<Longrightarrow> t_id t r \<le> foldr max (map (t_id t) rs) 0" for r by (induction rs) auto
  then show ?thesis by (fastforce simp: next_id_def)
qed

lemma put_row_ids: "map (t_id t) (put_row t r rs) = map (t_id t) rs"
  by (simp add: put_row_def)

lemma table_step_ids: "table_step t human rs es rs' \<Longrightarrow> distinct (map (t_id t) rs) \<Longrightarrow> distinct (map (t_id t) rs')"
  by (induction rule: table_step.induct) (auto simp: put_row_ids fresh_id simp del: map_map)

lemma row_by_id_Some: "row_by_id t i rs = Some r \<Longrightarrow> r \<in> set rs \<and> t_id t r = i"
  by (auto simp: row_by_id_def dest: find_SomeD)

lemma row_by_id_mem:
  assumes "distinct (map (t_id t) rs)" and "r \<in> set rs"
  shows "row_by_id t (t_id t r) rs = Some r"
  using assms by (induction rs) (auto simp: row_by_id_def)

lemma row_by_id_append:
  "row_by_id t i (rs @ [r]) = (case row_by_id t i rs of None \<Rightarrow> if t_id t r = i then Some r else None | Some x \<Rightarrow> Some x)"
  by (simp add: row_by_id_def find_append split: option.splits)

lemma row_by_id_put:
  assumes "r \<in> set rs" and "t_id t r' = t_id t r"
  shows "row_by_id t i (put_row t r' rs) = (if i = t_id t r then Some r' else row_by_id t i rs)"
proof -
  have other: "row_by_id t i (put_row t r' rs) = row_by_id t i rs" if "i \<noteq> t_id t r"
    using that assms(2) unfolding row_by_id_def put_row_def by (induction rs) auto
  have "row_by_id t (t_id t r) (put_row t r' rs) = Some r'"
    using assms unfolding row_by_id_def put_row_def by (induction rs) auto
  with other show ?thesis by simp
qed

section \<open>Locks\<close>

definition field_of :: "'r table \<Rightarrow> 'r list \<Rightarrow> nat \<Rightarrow> pystr \<Rightarrow> pystr option" where
  "field_of t rs i f = (case row_by_id t i rs of None \<Rightarrow> None | Some r \<Rightarrow> t_get t f r)"

definition locks_of :: "'r table \<Rightarrow> 'r list \<Rightarrow> nat \<Rightarrow> pystr list" where
  "locks_of t rs i = (case row_by_id t i rs of None \<Rightarrow> [] | Some r \<Rightarrow> t_locked t r)"

lemma table_step_locked:
  assumes "table_step t False rs es rs'" and "distinct (map (t_id t) rs)" and "f \<in> set (locks_of t rs i)"
  shows "locks_of t rs' i = locks_of t rs i \<and> field_of t rs' i f = field_of t rs i f"
  using assms
proof (induction rule: table_step.induct)
  case (keep es rs)
  then show ?case by simp
next
  case (insert r rs cs ep src)
  then show ?case by (auto simp: locks_of_def field_of_def row_by_id_append split: option.splits)
next
  case (update r rs r' cs xs ep src)
  note p = row_by_id_put[OF update.hyps(1,2), of i] row_by_id_mem[OF update.prems(1) update.hyps(1)]
  show ?case
  proof (cases "i = t_id t r")
    case True
    with update.prems(2) p update.hyps(5) have "f \<notin> fst ` set cs" by (auto simp: locks_of_def)
    then have "map_of cs f = None" by (simp add: map_of_eq_None_iff)
    with True p update.hyps(4,5) show ?thesis by (simp add: locks_of_def field_of_def new_value_def)
  next
    case False
    with p show ?thesis by (simp add: locks_of_def field_of_def)
  qed
qed

section \<open>Replaying the log\<close>

definition replay_event :: "entity \<Rightarrow> bible_event \<Rightarrow> (nat \<Rightarrow> pystr \<Rightarrow> pystr option) \<Rightarrow> nat \<Rightarrow> pystr \<Rightarrow> pystr option" where
  "replay_event en e m i f =
     (if ev_entity e = en \<and> ev_id e = i \<and> ev_field e = f
      then (case ev_new e of BStr v \<Rightarrow> v | BOverrides a b \<Rightarrow> m i f) else m i f)"

definition replay :: "entity \<Rightarrow> bible_event list \<Rightarrow> nat \<Rightarrow> pystr \<Rightarrow> pystr option" where
  "replay en es = fold (replay_event en) es (\<lambda>i f. None)"

lemma replay_noise:
  "\<forall>e \<in> set es. noise t e \<Longrightarrow> f \<noteq> F_RENDERING \<Longrightarrow> fold (replay_event (t_entity t)) es m i f = m i f"
  by (induction es arbitrary: m) (auto simp: replay_event_def noise_def split: bval.splits)

lemma replay_changes:
  "distinct (map fst cs) \<Longrightarrow> fold (replay_event (t_entity t)) (map (change_event t ep src r) cs) m i f =
     (if i = t_id t r then new_value cs f (m i f) else m i f)"
proof (induction cs arbitrary: m)
  case (Cons c cs)
  obtain k old new where c: "c = (k, old, new)" by (cases c) auto
  with Cons.prems have "map_of cs k = None" by (auto simp: map_of_eq_None_iff)
  with Cons c show ?case by (auto simp: replay_event_def change_event_def new_value_def split: option.splits)
qed (simp add: new_value_def)

lemma table_step_replay:
  assumes "table_step t human rs es rs'" and "distinct (map (t_id t) rs)"
    and "\<And>i f. f \<noteq> F_RENDERING \<Longrightarrow> field_of t rs i f = m i f" and "f \<noteq> F_RENDERING"
  shows "field_of t rs' i f = fold (replay_event (t_entity t)) es m i f"
  using assms
proof (induction rule: table_step.induct)
  case (keep es rs)
  then show ?case by (simp add: replay_noise)
next
  case (insert r rs cs ep src)
  have "row_by_id t (t_id t r) rs = None"
    using fresh_id[of t rs] insert.hyps(1) by (force simp: row_by_id_def find_None_iff)
  then have m: "m (t_id t r) f = None" using insert.prems(2)[OF insert.prems(3), of "t_id t r"] by (simp add: field_of_def)
  show ?case
  proof (cases "i = t_id t r")
    case True
    with \<open>row_by_id t (t_id t r) rs = None\<close> insert.hyps(2,3) insert.prems(3) m show ?thesis
      by (simp add: field_of_def row_by_id_append replay_changes)
  next
    case False
    with insert.prems(2)[OF insert.prems(3), of i] insert.hyps(2) show ?thesis
      by (simp add: field_of_def row_by_id_append replay_changes split: option.splits)
  qed
next
  case (update r rs r' cs xs ep src)
  note p = row_by_id_put[OF update.hyps(1,2), of i] row_by_id_mem[OF update.prems(1) update.hyps(1)]
  from p update.hyps(3,4,6) update.prems(2)[OF update.prems(3), of i] update.prems(3) show ?case
    by (auto simp: field_of_def replay_changes replay_noise)
qed

section \<open>How the store's updates refine the abstract step\<close>

lemma change_event_noise: "t_entity t' \<noteq> t_entity t \<Longrightarrow> noise t (change_event t' ep src r c)"
  by (cases c) (simp add: change_event_def noise_def)

context mergeable
begin

lemma merge_step:
  assumes "merge_row t fs ep src r = Inr (r', es)" and "distinct (map fst fs)" and "r \<in> set rs"
    and "\<forall>e \<in> set xs. noise t e"
  shows "table_step t human rs (xs @ es) (put_row t r' rs)"
proof -
  let ?cs = "compute_field_changes (\<lambda>f. t_get t f r) fs (t_locked t r)"
  from assms(1) have es: "es = map (change_event t ep src r) ?cs"
    by (auto simp: merge_row_def Let_def split: if_splits)
  have "t_get t f r' = new_value ?cs f (t_get t f r)" for f
    by (simp add: merge_get[OF assms(1,2)] new_value_def changes_lookup[OF assms(2)] split: option.splits)
  moreover have "fst ` set ?cs \<inter> set (t_locked t r) = {}" by (auto dest: changes_sub)
  ultimately show ?thesis
    unfolding es by (intro table_step.update) (simp_all add: assms merge_frame[OF assms(1)] changes_distinct)
qed

lemma edit_step:
  assumes "f \<in> set (MERGEABLE_FIELDS (t_entity t))" and "r \<in> set rs"
  shows "table_step t True rs [change_event t ep src r (f, old, v)] (put_row t (edit_row t f v lock r) rs)"
proof -
  have "table_step t True rs ([] @ map (change_event t ep src r) [(f, old, v)]) (put_row t (edit_row t f v lock r) rs)"
    using assms by (intro table_step.update) (auto simp: edit_frame edit_get new_value_def)
  then show ?thesis by simp
qed

lemma insert_step:
  assumes "t_id t r = next_id t rs" and "distinct (map fst fs)"
    and "\<And>f. f \<noteq> F_RENDERING \<Longrightarrow> t_get t f r = (case map_of fs f of None \<Rightarrow> None | Some v \<Rightarrow> v)"
  shows "table_step t human rs (insert_events t ep src r fs) (rs @ [r])"
proof -
  let ?cs = "map (\<lambda>(f, v). (f, None, v)) (provided fs)"
  have e: "insert_events t ep src r fs = map (change_event t ep src r) ?cs"
    by (simp add: insert_events_def case_prod_unfold)
  have fst: "map fst ?cs = map fst (provided fs)" by (simp add: case_prod_unfold)
  have d: "distinct (map fst ?cs)" unfolding fst using assms(2) by (simp add: provided_def distinct_map_filter)
  have k: "map_of ?cs f = (case map_of fs f of Some (Some v) \<Rightarrow> Some (None, Some v) | _ \<Rightarrow> None)" for f
    using assms(2)
  proof (induction fs)
    case (Cons x xs)
    obtain k v where x: "x = (k, v)" by (cases x)
    have n: "map_of xs k = None" using Cons.prems x by (simp add: map_of_eq_None_iff)
    moreover have "fst ` set (provided xs) \<subseteq> fst ` set xs" by (auto simp: provided_def)
    ultimately have "map_of (map (\<lambda>(f, v). (f, None, v)) (provided xs)) k = None"
      unfolding map_of_eq_None_iff by force
    with Cons x n show ?case by (cases v) (simp_all add: provided_def)
  qed (simp add: provided_def)
  have "t_get t f r = new_value ?cs f None" if "f \<noteq> F_RENDERING" for f
    unfolding assms(3)[OF that] new_value_def k by (simp split: option.splits)
  then show ?thesis unfolding e by (intro table_step.insert assms(1) d) blast
qed

end

section \<open>The step of the whole database\<close>

definition db_step :: "bool \<Rightarrow> bible_db \<Rightarrow> bible_db \<Rightarrow> bool" where
  "db_step human db db' \<longleftrightarrow> (\<exists>es. db_events db' = db_events db @ es
     \<and> table_step series_table human (db_series db) es (db_series db')
     \<and> table_step character_table human (db_characters db) es (db_characters db')
     \<and> table_step term_table human (db_terms db) es (db_terms db')
     \<and> table_step pair_table human (db_pairs db) es (db_pairs db'))"

lemma entities [simp]: "t_entity series_table = ESeries" "t_entity character_table = ECharacter"
    "t_entity term_table = ETerm" "t_entity pair_table = EPair"
  by (simp_all add: series_table_def character_table_def term_table_def pair_table_def)

lemma commit_Inr: "commit db x = Inr (db', y) \<longleftrightarrow> db' = db \<and> y = x \<and> constraints_ok db"
  by (auto simp: commit_def)

lemma noise_entity: "ev_entity e \<noteq> t_entity t \<Longrightarrow> noise t e"
  by (simp add: noise_def)

definition events_of :: "entity \<Rightarrow> bible_event list \<Rightarrow> bool" where
  "events_of en es \<longleftrightarrow> (\<forall>e \<in> set es. ev_entity e = en)"

lemma keep_other: "events_of en es \<Longrightarrow> en \<noteq> t_entity t \<Longrightarrow> table_step t human rs es rs"
  by (rule table_step.keep) (auto simp: events_of_def noise_def)

lemma events_of_simps [simp]:
  "events_of en []" "events_of en (es @ es') \<longleftrightarrow> events_of en es \<and> events_of en es'"
  "events_of en (e # es) \<longleftrightarrow> ev_entity e = en \<and> events_of en es"
  by (auto simp: events_of_def)

lemma change_entity [simp]: "ev_entity (change_event t ep src r c) = t_entity t"
  by (cases c) (simp add: change_event_def)

lemma insert_events_of: "events_of (t_entity t) (insert_events t ep src r fs)"
  by (auto simp: events_of_def insert_events_def)

lemma merge_events_of: "merge_row t fs ep src r = Inr (r', es) \<Longrightarrow> events_of (t_entity t) es"
  by (auto simp: merge_row_def Let_def events_of_def split: if_splits)

lemma character_only_step:
  assumes "table_step character_table human (db_characters db) es rs" and "events_of ECharacter es"
  shows "db_step human db (db\<lparr>db_characters := rs, db_events := db_events db @ es\<rparr>)"
  using assms unfolding db_step_def by (intro exI[of _ es]) (simp add: keep_other[where en = ECharacter])

lemma term_only_step:
  assumes "table_step term_table human (db_terms db) es rs" and "events_of ETerm es"
  shows "db_step human db (db\<lparr>db_terms := rs, db_events := db_events db @ es\<rparr>)"
  using assms unfolding db_step_def by (intro exI[of _ es]) (simp add: keep_other[where en = ETerm])

lemma series_only_step:
  assumes "table_step series_table human (db_series db) es rs" and "events_of ESeries es"
  shows "db_step human db (db\<lparr>db_series := rs, db_events := db_events db @ es\<rparr>)"
  using assms unfolding db_step_def by (intro exI[of _ es]) (simp add: keep_other[where en = ESeries])

lemma pair_only_step:
  assumes "table_step pair_table human (db_pairs db) es rs" and "events_of EPair es"
  shows "db_step human db (db\<lparr>db_pairs := rs, db_events := db_events db @ es\<rparr>)"
  using assms unfolding db_step_def by (intro exI[of _ es]) (simp add: keep_other[where en = EPair])

lemma db_step_refl: "db_step human db db"
  unfolding db_step_def by (intro exI[of _ "[]"]) (auto intro: table_step.keep)

lemma scalar_Some: "scalar_one_or_none xs = Inr (Some r) \<longleftrightarrow> xs = [r]"
  by (cases xs rule: scalar_one_or_none.cases) auto

lemma scalar_None: "scalar_one_or_none xs = Inr None \<longleftrightarrow> xs = []"
  by (cases xs rule: scalar_one_or_none.cases) auto

lemma field_names_distinct [simp]:
  "F_GENDER \<noteq> F_AGE" "F_GENDER \<noteq> F_ROLE" "F_AGE \<noteq> F_ROLE" "F_RENDERING \<noteq> F_CATEGORY"
  "F_SELF \<noteq> F_ADDRESS" "F_SELF \<noteq> F_FROM" "F_ADDRESS \<noteq> F_FROM"
  "F_AGE \<noteq> F_GENDER" "F_ROLE \<noteq> F_GENDER" "F_ROLE \<noteq> F_AGE" "F_CATEGORY \<noteq> F_RENDERING"
  "F_ADDRESS \<noteq> F_SELF" "F_FROM \<noteq> F_SELF" "F_FROM \<noteq> F_ADDRESS"
  "F_GENDER \<noteq> F_RENDERING" "F_AGE \<noteq> F_RENDERING" "F_ROLE \<noteq> F_RENDERING"
  "F_SELF \<noteq> F_RENDERING" "F_ADDRESS \<noteq> F_RENDERING" "F_FROM \<noteq> F_RENDERING" "F_REGISTER \<noteq> F_RENDERING"
  by (simp_all add: field_defs)

lemma provided_distinct: "distinct (map fst fs) \<Longrightarrow> distinct (map fst (provided fs))"
  by (simp add: provided_def distinct_map_filter)

lemma upsert_character_step:
  assumes "upsert_character db_lower sid name gender age role ep src db = Inr (db', r, es)"
  shows "db_step False db db'"
proof -
  let ?fs = "[(F_GENDER, gender), (F_AGE, age), (F_ROLE, role)]"
  have d: "distinct (map fst ?fs)" by simp
  show ?thesis
  proof (cases "scalar_one_or_none (characters_named db_lower sid name db)")
    case (Inr found)
    show ?thesis
    proof (cases found)
      case None
      let ?r = "\<lparr>cr_id = next_id character_table (db_characters db), cr_series = sid, cr_name = name,
                    cr_gender = gender, cr_age = age, cr_role = role, cr_locked = []\<rparr>"
      have "table_step character_table False (db_characters db) (insert_events character_table ep src ?r ?fs)
          (db_characters db @ [?r])"
        by (rule chars.insert_step[OF _ d]) (auto simp: character_table_def)
      from character_only_step[OF this] insert_events_of[of character_table] assms Inr None show ?thesis
        by (simp add: upsert_character_def commit_Inr Let_def)
    next
      case (Some q)
      with Inr have q: "q \<in> set (db_characters db)"
        by (auto simp: scalar_Some characters_named_def dest!: arg_cong[where f = set])
      show ?thesis
      proof (cases "provided ?fs = []")
        case True
        with assms Inr Some show ?thesis by (simp add: upsert_character_def db_step_refl)
      next
        case False
        with assms Inr Some obtain r' es' where m: "merge_row character_table (provided ?fs) ep src q = Inr (r', es')"
          and db': "db' = db\<lparr>db_characters := put_row character_table r' (db_characters db), db_events := db_events db @ es'\<rparr>"
          by (auto simp: upsert_character_def commit_Inr Let_def split: sum.splits)
        from chars.merge_step[OF m provided_distinct[OF d] q, of "[]"] merge_events_of[OF m]
        show ?thesis unfolding db' by (intro character_only_step) simp_all
      qed
    qed
  qed (use assms in \<open>simp add: upsert_character_def\<close>)
qed

lemma suppressed_noise: "\<forall>e \<in> set (suppressed_events sid ep src r v). noise term_table e"
  by (simp add: suppressed_events_def noise_def)

lemma suppressed_events_of: "events_of ETerm (suppressed_events sid ep src r v)"
  by (simp add: suppressed_events_def)

lemma term_named_Some:
  assumes "term_named db_lower sid source db = Some r"
  shows "r \<in> set (db_terms db) \<and> tr_series r = sid"
proof -
  let ?ts = "filter (\<lambda>t. tr_series t = sid \<and> db_lower (tr_source t) = lower (strip source)) (db_terms db)"
  from assms obtain ys where "sort_key tr_id ?ts = r # ys"
    unfolding term_named_def by (cases "sort_key tr_id ?ts") auto
  then have "r \<in> set (sort_key tr_id ?ts)" by (simp only: list.set_intros)
  then show ?thesis by simp
qed

lemma upsert_term_step:
  assumes "upsert_term db_lower sid source rendering category ep src db = Inr (db', r, es)"
  shows "db_step False db db'"
proof (cases "term_named db_lower sid source db")
  case None
  let ?fs = "[(F_RENDERING, rendering), (F_CATEGORY, category)]"
  let ?r = "\<lparr>tr_id = next_id term_table (db_terms db), tr_series = sid, tr_source = source,
                tr_rendering = Some (or_empty rendering), tr_category = category, tr_locked = []\<rparr>"
  have "table_step term_table False (db_terms db) (insert_events term_table ep src ?r ?fs) (db_terms db @ [?r])"
    by (rule terms.insert_step) (auto simp: term_table_def)
  from term_only_step[OF this] insert_events_of[of term_table] assms None show ?thesis
    by (simp add: upsert_term_def commit_Inr Let_def)
next
  case (Some q)
  let ?xs = "suppressed_events sid ep src q rendering"
  let ?fs = "provided [(F_RENDERING, if carry_forward q rendering src then None else rendering), (F_CATEGORY, category)]"
  have d: "distinct (map fst ?fs)" by (rule provided_distinct) simp
  show ?thesis
  proof (cases "?fs = []")
    case True
    have "table_step term_table False (db_terms db) ?xs (db_terms db)"
      by (rule table_step.keep[OF suppressed_noise])
    from term_only_step[OF this suppressed_events_of] assms Some True show ?thesis
      by (simp add: upsert_term_def commit_Inr Let_def)
  next
    case False
    with assms Some obtain r' es' where m: "merge_row term_table ?fs ep src q = Inr (r', es')"
      and db': "db' = db\<lparr>db_terms := put_row term_table r' (db_terms db), db_events := db_events db @ ?xs @ es'\<rparr>"
      by (auto simp: upsert_term_def commit_Inr Let_def split: sum.splits)
    from terms.merge_step[OF m d _ suppressed_noise] term_named_Some[OF Some] merge_events_of[OF m]
    show ?thesis unfolding db' by (intro term_only_step) (simp_all add: suppressed_events_of)
  qed
qed

text \<open>The pair's own update loop does what the merge engine does with the provided fields.\<close>

lemma changes_cong: "(\<And>k. k \<in> fst ` set ds \<Longrightarrow> g k = h k) \<Longrightarrow> compute_field_changes g ds l = compute_field_changes h ds l"
  by (induction ds) auto

lemma pair_event: "change_event pair_table ep src r (f, old, v) =
    \<lparr>ev_series = pr_series r, ev_episode = ep, ev_entity = EPair, ev_id = pr_id r, ev_field = f,
     ev_old = BStr old, ev_new = BStr v, ev_source = src\<rparr>"
  by (simp add: change_event_def pair_table_def)

lemma pair_update_changes:
  assumes "distinct (map fst fs)" and "fst ` set fs \<subseteq> set (MERGEABLE_FIELDS EPair)"
  shows "pair_update locked (pr_series r) ep src fs r es =
    (let cs = compute_field_changes (\<lambda>f. t_get pair_table f r) (provided fs) locked
     in (apply_changes pair_table cs r, es @ map (change_event pair_table ep src r) cs))"
  using assms
proof (induction fs arbitrary: r es)
  case (Cons x fs)
  obtain f v where x: "x = (f, v)" by (cases x)
  let ?keep = "v = None \<or> f \<in> set locked \<or> t_get pair_table f r = v"
  show ?case
  proof (cases ?keep)
    case True
    with Cons x show ?thesis by (auto simp: provided_def Let_def)
  next
    case False
    let ?r = "t_set pair_table f v r"
    have fr: "pr_series ?r = pr_series r" "pr_id ?r = pr_id r" by (simp_all add: pair_table_def)
    have f: "f \<in> set (MERGEABLE_FIELDS (t_entity pair_table))" using Cons.prems x by simp
    have "f \<notin> fst ` set (provided fs)" using Cons.prems x by (auto simp: provided_def)
    then have c: "compute_field_changes (\<lambda>k. t_get pair_table k ?r) (provided fs) locked =
        compute_field_changes (\<lambda>k. t_get pair_table k r) (provided fs) locked"
      by (intro changes_cong) (auto simp: pairs.get_set[OF f])
    have e: "change_event pair_table ep src ?r = change_event pair_table ep src r"
      by (rule ext) (simp add: change_event_def pair_table_def)
    have p: "provided (x # fs) = (f, v) # provided fs" using False x by (simp add: provided_def)
    have "pair_update locked (pr_series r) ep src (x # fs) r es =
        pair_update locked (pr_series ?r) ep src fs ?r (es @ [change_event pair_table ep src r (f, t_get pair_table f r, v)])"
      using False x fr by (auto simp: pair_event)
    then show ?thesis
      using False c e Cons.IH[of ?r] Cons.prems unfolding p by (simp add: Let_def apply_changes_def)
  qed
qed (simp add: provided_def apply_changes_def)

lemma pair_update_merge:
  assumes "distinct (map fst fs)" and "fst ` set fs \<subseteq> set (MERGEABLE_FIELDS EPair)"
  shows "merge_row pair_table (provided fs) ep src r = Inr (pair_update (pr_locked r) (pr_series r) ep src fs r [])"
proof -
  have "fst ` set (provided fs) \<subseteq> set (MERGEABLE_FIELDS EPair)" using assms(2) by (auto simp: provided_def)
  then have "validate_mergeable EPair (provided fs)" unfolding validate_mergeable_def by fastforce
  then show ?thesis
    by (simp add: merge_row_def pair_update_changes[OF assms] Let_def pair_table_def)
qed

lemma upsert_address_pair_step:
  assumes "upsert_address_pair sid spk adr self address since ep src db = Inr (db', r, es)"
  shows "db_step False db db'"
proof -
  let ?fs = "[(F_SELF, self), (F_ADDRESS, address), (F_FROM, since)]"
  have d: "distinct (map fst ?fs)" by simp
  let ?found = "scalar_one_or_none (filter (\<lambda>p. pr_series p = sid \<and> pr_speaker p = spk \<and> pr_addressee p = adr) (db_pairs db))"
  show ?thesis
  proof (cases ?found)
    case (Inr found)
    show ?thesis
    proof (cases found)
      case None
      let ?r = "\<lparr>pr_id = next_id pair_table (db_pairs db), pr_series = sid, pr_speaker = spk, pr_addressee = adr,
                    pr_self = self, pr_address = address, pr_from = since, pr_locked = []\<rparr>"
      have "table_step pair_table False (db_pairs db) (insert_events pair_table ep src ?r ?fs) (db_pairs db @ [?r])"
        by (rule pairs.insert_step[OF _ d]) (auto simp: pair_table_def)
      from pair_only_step[OF this] insert_events_of[of pair_table] assms Inr None show ?thesis
        by (simp add: upsert_address_pair_def commit_Inr Let_def)
    next
      case (Some q)
      with Inr have "q \<in> set (filter (\<lambda>p. pr_series p = sid \<and> pr_speaker p = spk \<and> pr_addressee p = adr) (db_pairs db))"
        by (auto simp: scalar_Some)
      then have q: "q \<in> set (db_pairs db)" "pr_series q = sid" by auto
      obtain r' es' where u: "pair_update (pr_locked q) (pr_series q) ep src ?fs q [] = (r', es')" by fastforce
      with pair_update_merge[OF d, of ep src q] have m: "merge_row pair_table (provided ?fs) ep src q = Inr (r', es')" by simp
      from assms Inr Some u q(2) have db': "db' = db\<lparr>db_pairs := put_row pair_table r' (db_pairs db), db_events := db_events db @ es'\<rparr>"
        by (auto simp: upsert_address_pair_def commit_Inr Let_def)
      from pairs.merge_step[OF m provided_distinct[OF d] q(1), of "[]"] merge_events_of[OF m]
      show ?thesis unfolding db' by (intro pair_only_step) simp_all
    qed
  qed (use assms in \<open>simp add: upsert_address_pair_def\<close>)
qed

lemma merge_inferred_step:
  assumes "merge_inferred e i fs ep src db = Inr (db', es)" and "distinct (map fst fs)"
  shows "db_step False db db'"
proof (cases e)
  case ECharacter
  with assms(1) obtain r r' where r: "row_by_id character_table i (db_characters db) = Some r"
    and m: "merge_row character_table fs ep src r = Inr (r', es)"
    and db': "db' = db\<lparr>db_characters := put_row character_table r' (db_characters db), db_events := db_events db @ es\<rparr>"
    by (auto simp: merge_inferred_def commit_Inr split: if_splits option.splits sum.splits)
  from chars.merge_step[OF m assms(2), of _ "[]"] row_by_id_Some[OF r] merge_events_of[OF m]
  show ?thesis unfolding db' by (intro character_only_step) simp_all
next
  case ETerm
  with assms(1) obtain r r' where r: "row_by_id term_table i (db_terms db) = Some r"
    and m: "merge_row term_table fs ep src r = Inr (r', es)"
    and db': "db' = db\<lparr>db_terms := put_row term_table r' (db_terms db), db_events := db_events db @ es\<rparr>"
    by (auto simp: merge_inferred_def commit_Inr split: if_splits option.splits sum.splits)
  from terms.merge_step[OF m assms(2), of _ "[]"] row_by_id_Some[OF r] merge_events_of[OF m]
  show ?thesis unfolding db' by (intro term_only_step) simp_all
next
  case ESeries
  with assms(1) obtain r r' where r: "row_by_id series_table i (db_series db) = Some r"
    and m: "merge_row series_table fs ep src r = Inr (r', es)"
    and db': "db' = db\<lparr>db_series := put_row series_table r' (db_series db), db_events := db_events db @ es\<rparr>"
    by (auto simp: merge_inferred_def commit_Inr split: if_splits option.splits sum.splits)
  from heads.merge_step[OF m assms(2), of _ "[]"] row_by_id_Some[OF r] merge_events_of[OF m]
  show ?thesis unfolding db' by (intro series_only_step) simp_all
qed (use assms(1) in \<open>simp add: merge_inferred_def split: if_splits\<close>)

end
