(* ===== verification/Bible_Laws.thy ===== *)
theory Bible_Laws
  imports Bible_Audit
begin

text \<open>
  The operations of the Bible store as a step relation, and the properties of the databases it
  reaches: locks survive inference, the audit log replays to the current values, upserts are
  idempotent; and the places where the code does less than it says.
\<close>

section \<open>Edits refine the abstract step\<close>

lemma edit_events_of: "events_of (t_entity t) [change_event t ep src r c]"
  by simp

lemma edit_character_step:
  assumes "apply_human_edit_character cid sid field v lock db = Inr (db', r, e)"
  shows "db_step True db db'"
proof -
  from assms obtain q where f: "field \<in> set (MERGEABLE_FIELDS (t_entity character_table))"
    and q: "row_by_id character_table cid (db_characters db) = Some q"
    and db': "db' = db\<lparr>db_characters := put_row character_table (edit_row character_table field v lock q) (db_characters db),
      db_events := db_events db @ [change_event character_table None (edit_source lock) q (field, t_get character_table field q, v)]\<rparr>"
    by (auto simp: apply_human_edit_character_def commit_Inr Let_def split: if_splits option.splits)
  show ?thesis unfolding db'
    by (rule character_only_step[OF chars.edit_step[OF f conjunct1[OF row_by_id_Some[OF q]]]]) simp
qed

lemma edit_series_step:
  assumes "apply_human_edit_series sid field v lock db = Inr (db', r, e)"
  shows "db_step True db db'"
proof -
  from assms obtain q where f: "field \<in> set (MERGEABLE_FIELDS (t_entity series_table))"
    and q: "row_by_id series_table sid (db_series db) = Some q"
    and db': "db' = db\<lparr>db_series := put_row series_table (edit_row series_table field v lock q) (db_series db),
      db_events := db_events db @ [change_event series_table None (edit_source lock) q (field, t_get series_table field q, v)]\<rparr>"
    by (auto simp: apply_human_edit_series_def commit_Inr Let_def split: if_splits option.splits)
  show ?thesis unfolding db'
    by (rule series_only_step[OF heads.edit_step[OF f conjunct1[OF row_by_id_Some[OF q]]]]) simp
qed

lemma locate_term_mem: "locate_term sid source tid db = Inr (Some r) \<Longrightarrow> r \<in> set (db_terms db)"
  by (auto simp: locate_term_def get_term_def scalar_Some dest!: row_by_id_Some arg_cong[where f = set]
      split: option.splits if_splits)

lemma edit_term_step:
  assumes "apply_human_edit_term sid source tid field v lock db = Inr (db', r, e)"
  shows "db_step True db db'"
proof -
  from assms have f: "field \<in> set (MERGEABLE_FIELDS (t_entity term_table))"
    by (auto simp: apply_human_edit_term_def split: if_splits)
  show ?thesis
  proof (cases "locate_term sid source tid db")
    case (Inr found)
    show ?thesis
    proof (cases found)
      case None
      let ?r = "\<lparr>tr_id = next_id term_table (db_terms db), tr_series = sid, tr_source = or_empty source,
         tr_rendering = Some (py_str v), tr_category = None, tr_locked = edit_lock lock field []\<rparr>"
      let ?e = "change_event term_table None (edit_source lock) ?r (F_RENDERING, None, Some (py_str v))"
      have "table_step term_table True (db_terms db) (insert_events term_table None (edit_source lock) ?r [(F_RENDERING, Some (py_str v))])
          (db_terms db @ [?r])"
        by (rule terms.insert_step) (auto simp: term_table_def)
      then have "table_step term_table True (db_terms db) [?e] (db_terms db @ [?r])"
        by (simp add: insert_events_def provided_def)
      from term_only_step[OF this] assms Inr None f show ?thesis
        by (auto simp: apply_human_edit_term_def commit_Inr Let_def split: if_splits)
    next
      case (Some q)
      with assms Inr have db': "db' = db\<lparr>db_terms := put_row term_table (edit_row term_table field v lock q) (db_terms db),
        db_events := db_events db @ [change_event term_table None (edit_source lock) q (field, t_get term_table field q, v)]\<rparr>"
        by (auto simp: apply_human_edit_term_def commit_Inr Let_def split: if_splits)
      from Inr Some locate_term_mem[of sid source tid db q] have q: "q \<in> set (db_terms db)" by simp
      show ?thesis unfolding db' by (rule term_only_step[OF terms.edit_step[OF f q]]) simp
    qed
  qed (use assms in \<open>simp add: apply_human_edit_term_def split: if_splits\<close>)
qed

text \<open>The two written terms of a pair as a list of changes.\<close>

lemma edit_pair_fields:
  assumes "edit_pair_field F_ADDRESS address lock (pr_series r) (edit_pair_field F_SELF self lock (pr_series r) (r, [])) = (r1, es)"
  shows "\<exists>cs. es = map (change_event pair_table None (edit_source lock) r) cs \<and> distinct (map fst cs)
    \<and> pr_id r1 = pr_id r \<and> (\<forall>f. t_get pair_table f r1 = new_value cs f (t_get pair_table f r))"
proof -
  let ?c = "\<lambda>f v. case v of None \<Rightarrow> [] | Some s \<Rightarrow> if t_get pair_table f r = Some (strip s) then []
     else [(f, t_get pair_table f r, Some (strip s))]"
  let ?cs = "?c F_SELF self @ ?c F_ADDRESS address"
  have "es = map (change_event pair_table None (edit_source lock) r) ?cs"
    using assms by (auto simp: edit_pair_field_def change_event_def pair_table_def split: option.splits if_splits)
  moreover have "distinct (map fst ?cs)" by (cases self; cases address) auto
  moreover have "pr_id r1 = pr_id r"
    using assms by (auto simp: edit_pair_field_def pair_table_def split: option.splits if_splits)
  moreover have "\<forall>f. t_get pair_table f r1 = new_value ?cs f (t_get pair_table f r)"
    using assms by (auto simp: edit_pair_field_def pair_table_def new_value_def split: option.splits if_splits)
  ultimately show ?thesis by blast
qed

lemma edit_pair_step:
  assumes "apply_human_edit_address_pair pid sid self address lock db = Inr (db', r, es)"
  shows "db_step True db db'"
proof -
  from assms obtain q where q: "row_by_id pair_table pid (db_pairs db) = Some q" and sid: "pr_series q = sid"
    by (auto simp: apply_human_edit_address_pair_def split: if_splits option.splits)
  obtain r1 es1 where f: "edit_pair_field F_ADDRESS address lock (pr_series q) (edit_pair_field F_SELF self lock (pr_series q) (q, [])) = (r1, es1)"
    by fastforce
  let ?r = "r1\<lparr>pr_locked := edit_lock lock F_ADDRESS (edit_lock lock F_SELF (pr_locked r1))\<rparr>"
  from assms q sid f have db': "db' = db\<lparr>db_pairs := put_row pair_table ?r (db_pairs db), db_events := db_events db @ es1\<rparr>"
    by (auto simp: apply_human_edit_address_pair_def commit_Inr Let_def split: if_splits)
  from edit_pair_fields[OF f] obtain cs where cs: "es1 = map (change_event pair_table None (edit_source lock) q) cs"
    "distinct (map fst cs)" "pr_id r1 = pr_id q" "\<forall>f. t_get pair_table f r1 = new_value cs f (t_get pair_table f q)"
    by blast
  have g: "t_get pair_table f ?r = t_get pair_table f r1" for f by (simp add: pair_table_def)
  have "table_step pair_table True (db_pairs db) ([] @ map (change_event pair_table None (edit_source lock) q) cs)
      (put_row pair_table ?r (db_pairs db))"
    using cs row_by_id_Some[OF q] g by (intro table_step.update) (auto simp: pair_table_def[THEN arg_cong[where f = t_id]])
  from pair_only_step[OF this[simplified], folded cs(1)] show ?thesis
    unfolding db' by (simp add: cs(1) events_of_def)
qed

lemma overrides_step:
  assumes "set_series_overrides sid langs model db = Inr (db', r)"
  shows "db_step True db db'"
proof -
  from assms obtain q where q: "row_by_id series_table sid (db_series db) = Some q"
    by (auto simp: set_series_overrides_def split: option.splits)
  let ?langs = "if langs = Some [] then None else langs" and ?model = "if truthy model then model else None"
  let ?r = "q\<lparr>sr_langs := ?langs, sr_model := ?model\<rparr>"
  let ?e = "\<lparr>ev_series = sid, ev_episode = None, ev_entity = ESeries, ev_id = sid, ev_field = lit ''overrides'',
    ev_old = BOverrides (sr_langs q) (sr_model q), ev_new = BOverrides ?langs ?model, ev_source = lit ''import''\<rparr>"
  from assms q have db': "db' = db\<lparr>db_series := put_row series_table ?r (db_series db), db_events := db_events db @ [?e]\<rparr>"
    by (simp add: set_series_overrides_def commit_Inr Let_def)
  have "table_step series_table True (db_series db) ([?e] @ map (change_event series_table None [] q) [])
      (put_row series_table ?r (db_series db))"
    using row_by_id_Some[OF q] by (intro table_step.update) (auto simp: series_table_def new_value_def noise_def)
  from series_only_step[OF this[simplified]] show ?thesis unfolding db' by simp
qed

lemma new_series_step:
  assumes "get_or_create_series json_bytes kind inst aid meta tvdb tmdb db = Inr (db', r)"
  shows "db_step False db db'"
proof (cases "scalar_one_or_none (filter (\<lambda>r. series_identity r = (kind, inst, aid)) (db_series db))")
  case (Inr found)
  show ?thesis
  proof (cases found)
    case None
    let ?r = "\<lparr>sr_id = next_id series_table (db_series db), sr_kind = kind, sr_instance = inst, sr_arr_id = aid,
      sr_tvdb = tvdb, sr_tmdb = tmdb, sr_register = None, sr_metadata = meta, sr_locked = [], sr_langs = None, sr_model = None\<rparr>"
    have "table_step series_table False (db_series db) (map (change_event series_table None [] ?r) []) (db_series db @ [?r])"
      by (rule table_step.insert) (auto simp: series_table_def new_value_def)
    from series_only_step[OF this[simplified]] have "db_step False db (db\<lparr>db_series := db_series db @ [?r]\<rparr>)" by simp
    with assms Inr None show ?thesis
      by (auto simp: get_or_create_series_def commit_Inr Let_def split: if_splits)
  next
    case (Some q)
    with assms Inr show ?thesis by (auto simp: get_or_create_series_def db_step_refl split: if_splits)
  qed
qed (use assms in \<open>simp add: get_or_create_series_def split: if_splits\<close>)

lemma same_tables_step:
  "db_series db' = db_series db \<Longrightarrow> db_characters db' = db_characters db \<Longrightarrow> db_terms db' = db_terms db \<Longrightarrow>
   db_pairs db' = db_pairs db \<Longrightarrow> db_events db' = db_events db \<Longrightarrow> db_step human db db'"
  unfolding db_step_def by (intro exI[of _ "[]"]) (auto intro: table_step.keep)

section \<open>The reachable databases\<close>

text \<open>The flag says whether the operation is the editor's or the pipeline's.\<close>

inductive bible_op :: "(pystr \<Rightarrow> pystr) \<Rightarrow> bool \<Rightarrow> bible_db \<Rightarrow> bible_db \<Rightarrow> bool" for db_lower where
  series: "get_or_create_series json_bytes kind inst aid meta tvdb tmdb db = Inr (db', s) \<Longrightarrow> bible_op db_lower False db db'"
| character: "upsert_character db_lower sid name gender age role ep src db = Inr (db', c, es) \<Longrightarrow> bible_op db_lower False db db'"
| term_entry: "upsert_term db_lower sid source rendering category ep src db = Inr (db', t, es) \<Longrightarrow> bible_op db_lower False db db'"
| pair: "upsert_address_pair sid spk adr self address since ep src db = Inr (db', p, es) \<Longrightarrow> bible_op db_lower False db db'"
| merge: "merge_inferred e i fs ep src db = Inr (db', es) \<Longrightarrow> distinct (map fst fs) \<Longrightarrow> bible_op db_lower False db db'"
| relation: "record_relationship_event sid a b marker description db = Inr (db', x) \<Longrightarrow> bible_op db_lower False db db'"
| edit_character: "apply_human_edit_character cid sid field v lock db = Inr (db', c, ev) \<Longrightarrow> bible_op db_lower True db db'"
| edit_series: "apply_human_edit_series sid field v lock db = Inr (db', s, ev) \<Longrightarrow> bible_op db_lower True db db'"
| edit_term: "apply_human_edit_term sid src tid field v lock db = Inr (db', t, ev) \<Longrightarrow> bible_op db_lower True db db'"
| edit_pair: "apply_human_edit_address_pair pid sid self address lock db = Inr (db', p, es) \<Longrightarrow> bible_op db_lower True db db'"
| overrides: "set_series_overrides sid langs model db = Inr (db', s) \<Longrightarrow> bible_op db_lower True db db'"
| delete_pair: "delete_address_pair pid sid db = Inr (db', n) \<Longrightarrow> bible_op db_lower True db db'"
| delete_term: "delete_term tid sid db = Inr (db', n) \<Longrightarrow> bible_op db_lower True db db'"

lemma delete_term_keeps: "delete_term tid sid db = Inr (db', n) \<Longrightarrow> db' = db"
  by (auto simp: delete_term_def call_without_await_def commit_Inr split: option.splits if_splits)

lemma delete_pair_keeps: "delete_address_pair pid sid db = Inr (db', n) \<Longrightarrow> db' = db"
  by (auto simp: delete_address_pair_def call_without_await_def commit_Inr split: option.splits if_splits)

lemma relation_step:
  assumes "record_relationship_event sid a b marker description db = Inr (db', x)"
  shows "db_step human db db'"
proof (rule same_tables_step)
  have "\<exists>rels. db' = db\<lparr>db_relations := rels\<rparr>"
    using assms by (auto simp: record_relationship_event_def commit_Inr Let_def intro: exI[of _ "db_relations db"]
        split: sum.splits option.splits)
  then obtain rels where "db' = db\<lparr>db_relations := rels\<rparr>" by blast
  then show "db_series db' = db_series db" "db_characters db' = db_characters db" "db_terms db' = db_terms db"
    "db_pairs db' = db_pairs db" "db_events db' = db_events db" by simp_all
qed

lemma bible_op_step: "bible_op db_lower human db db' \<Longrightarrow> db_step human db db'"
proof (induction rule: bible_op.induct)
  case (delete_pair pid sid db db' n)
  then have "db' = db" by (rule delete_pair_keeps)
  then show ?case by (simp add: db_step_refl)
next
  case (delete_term tid sid db db' n)
  then have "db' = db" by (rule delete_term_keeps)
  then show ?case by (simp add: db_step_refl)
qed (erule new_series_step upsert_character_step upsert_term_step upsert_address_pair_step relation_step
    edit_character_step edit_series_step edit_term_step edit_pair_step overrides_step
  | erule (1) merge_inferred_step)+

definition empty_bible :: "bool \<Rightarrow> bible_db" where
  "empty_bible fk = \<lparr>db_fk = fk, db_series = [], db_characters = [], db_terms = [], db_pairs = [],
     db_relations = [], db_events = []\<rparr>"

inductive bible_reach :: "(pystr \<Rightarrow> pystr) \<Rightarrow> bible_db \<Rightarrow> bool" for db_lower where
  init: "bible_reach db_lower (empty_bible fk)"
| step: "bible_reach db_lower db \<Longrightarrow> bible_op db_lower human db db' \<Longrightarrow> bible_reach db_lower db'"

text \<open>The current value of a field and the locked fields of a row, in any of the four tables.\<close>

fun bible_value :: "entity \<Rightarrow> bible_db \<Rightarrow> nat \<Rightarrow> pystr \<Rightarrow> pystr option" where
  "bible_value ESeries db = field_of series_table (db_series db)"
| "bible_value ECharacter db = field_of character_table (db_characters db)"
| "bible_value ETerm db = field_of term_table (db_terms db)"
| "bible_value EPair db = field_of pair_table (db_pairs db)"

fun bible_locks :: "entity \<Rightarrow> bible_db \<Rightarrow> nat \<Rightarrow> pystr list" where
  "bible_locks ESeries db = locks_of series_table (db_series db)"
| "bible_locks ECharacter db = locks_of character_table (db_characters db)"
| "bible_locks ETerm db = locks_of term_table (db_terms db)"
| "bible_locks EPair db = locks_of pair_table (db_pairs db)"

definition ids_distinct :: "bible_db \<Rightarrow> bool" where
  "ids_distinct db \<longleftrightarrow> distinct (map (t_id series_table) (db_series db))
     \<and> distinct (map (t_id character_table) (db_characters db))
     \<and> distinct (map (t_id term_table) (db_terms db)) \<and> distinct (map (t_id pair_table) (db_pairs db))"

lemma db_step_ids: "db_step human db db' \<Longrightarrow> ids_distinct db \<Longrightarrow> ids_distinct db'"
  unfolding db_step_def ids_distinct_def
  by (elim exE conjE) (intro conjI; rule table_step_ids; assumption)

lemma reach_ids: "bible_reach db_lower db \<Longrightarrow> ids_distinct db"
proof (induction rule: bible_reach.induct)
  case (init fk)
  show ?case by (simp add: ids_distinct_def empty_bible_def)
qed (rule db_step_ids[OF bible_op_step])

lemma db_step_locked:
  assumes "db_step False db db'" and "ids_distinct db" and "f \<in> set (bible_locks e db i)"
  shows "bible_locks e db' i = bible_locks e db i \<and> bible_value e db' i f = bible_value e db i f"
  using assms unfolding db_step_def ids_distinct_def by (cases e) (auto dest!: table_step_locked)

lemma db_step_replay:
  assumes "db_step human db db'" and "ids_distinct db"
    and "\<And>e i f. f \<noteq> F_RENDERING \<Longrightarrow> bible_value e db i f = replay e (db_events db) i f" and "f \<noteq> F_RENDERING"
  shows "bible_value e db' i f = replay e (db_events db') i f"
proof -
  from assms(1) obtain es where es: "db_events db' = db_events db @ es"
      "table_step series_table human (db_series db) es (db_series db')"
      "table_step character_table human (db_characters db) es (db_characters db')"
      "table_step term_table human (db_terms db) es (db_terms db')"
      "table_step pair_table human (db_pairs db) es (db_pairs db')"
    unfolding db_step_def by blast
  have r: "replay e (db_events db') = fold (replay_event e) es (replay e (db_events db))" by (simp add: replay_def es(1))
  note v = assms(3)[where e = ESeries] assms(3)[where e = ECharacter] assms(3)[where e = ETerm] assms(3)[where e = EPair]
  show ?thesis
  proof (cases e)
    case ESeries
    with table_step_replay[OF es(2) _ _ assms(4), of "replay ESeries (db_events db)"] assms(2) v r show ?thesis
      by (simp add: ids_distinct_def)
  next
    case ECharacter
    with table_step_replay[OF es(3) _ _ assms(4), of "replay ECharacter (db_events db)"] assms(2) v r show ?thesis
      by (simp add: ids_distinct_def)
  next
    case ETerm
    with table_step_replay[OF es(4) _ _ assms(4), of "replay ETerm (db_events db)"] assms(2) v r show ?thesis
      by (simp add: ids_distinct_def)
  next
    case EPair
    with table_step_replay[OF es(5) _ _ assms(4), of "replay EPair (db_events db)"] assms(2) v r show ?thesis
      by (simp add: ids_distinct_def)
  qed
qed

lemma reach_replay: "bible_reach db_lower db \<Longrightarrow> f \<noteq> F_RENDERING \<Longrightarrow> bible_value e db i f = replay e (db_events db) i f"
proof (induction arbitrary: e i f rule: bible_reach.induct)
  case (init fk)
  show ?case by (cases e) (simp_all add: empty_bible_def field_of_def row_by_id_def replay_def)
next
  case (step db human db')
  show ?case
    by (rule db_step_replay[OF bible_op_step[OF step.hyps(2)] reach_ids[OF step.hyps(1)] step.IH step.prems])
qed

text \<open>A run of the pipeline: any number of its operations.\<close>

inductive pipeline_run :: "(pystr \<Rightarrow> pystr) \<Rightarrow> bible_db \<Rightarrow> bible_db \<Rightarrow> bool" for db_lower where
  stop: "pipeline_run db_lower db db"
| more: "pipeline_run db_lower db db' \<Longrightarrow> bible_op db_lower False db' db'' \<Longrightarrow> pipeline_run db_lower db db''"

lemma run_reach: "pipeline_run db_lower db db' \<Longrightarrow> bible_reach db_lower db \<Longrightarrow> bible_reach db_lower db'"
  by (induction rule: pipeline_run.induct) (auto intro: bible_reach.step)

lemma run_locked:
  "pipeline_run db_lower db db' \<Longrightarrow> bible_reach db_lower db \<Longrightarrow> f \<in> set (bible_locks e db i) \<Longrightarrow>
   bible_locks e db' i = bible_locks e db i \<and> bible_value e db' i f = bible_value e db i f"
proof (induction rule: pipeline_run.induct)
  case (more db db' db'')
  then have "bible_locks e db' i = bible_locks e db i \<and> bible_value e db' i f = bible_value e db i f" by blast
  with db_step_locked[OF bible_op_step[OF more.hyps(2)] reach_ids[OF run_reach[OF more.hyps(1) more.prems(1)]], of f e i] more.prems(2)
  show ?case by simp
qed simp

end
