(* ===== verification/Bible_Guarantees.thy ===== *)
theory Bible_Guarantees
  imports Bible_Laws
begin

text \<open>
  The guarantees of the Bible store: what holds of every database its operations reach, on sample
  databases of one series with one term, and the defects found in the store.
\<close>

section \<open>Samples\<close>

text \<open>SQLite's built-in \<open>lower\<close> maps the ASCII capitals only.\<close>

definition ascii_lower :: "pystr \<Rightarrow> pystr" where
  "ascii_lower s = map (\<lambda>c. if 65 \<le> c \<and> c \<le> 90 then c + 32 else c) s"

definition sample_series :: series_row where
  "sample_series = \<lparr>sr_id = 1, sr_kind = lit ''sonarr'', sr_instance = lit ''default'', sr_arr_id = 7, sr_tvdb = None,
     sr_tmdb = None, sr_register = None, sr_metadata = [], sr_locked = [], sr_langs = None, sr_model = None\<rparr>"

definition sample_bible :: bible_db where
  "sample_bible = (empty_bible True)\<lparr>db_series := [sample_series]\<rparr>"

definition inference :: pystr where
  "inference = lit ''inference''"

text \<open>The term \<open>ka\<close> with the rendering \<open>a\<close>, and then with \<open>b\<close> locked by the editor.\<close>

definition sample_term :: "pystr \<Rightarrow> pystr list \<Rightarrow> term_row" where
  "sample_term v locked = \<lparr>tr_id = 1, tr_series = 1, tr_source = lit ''ka'', tr_rendering = Some v,
     tr_category = None, tr_locked = locked\<rparr>"

definition term_event :: "pystr option \<Rightarrow> pystr \<Rightarrow> pystr \<Rightarrow> bible_event" where
  "term_event old new src = \<lparr>ev_series = 1, ev_episode = None, ev_entity = ETerm, ev_id = 1, ev_field = F_RENDERING,
     ev_old = BStr old, ev_new = BStr (Some new), ev_source = src\<rparr>"

definition bible_with_term :: bible_db where
  "bible_with_term = sample_bible\<lparr>db_terms := [sample_term (lit ''a'') []],
     db_events := [term_event None (lit ''a'') inference]\<rparr>"

definition bible_with_lock :: bible_db where
  "bible_with_lock = bible_with_term\<lparr>db_terms := [sample_term (lit ''b'') [F_RENDERING]],
     db_events := [term_event None (lit ''a'') inference, term_event (Some (lit ''a'')) (lit ''b'') (lit ''lock'')]\<rparr>"

lemmas bible_samples = bible_with_lock_def bible_with_term_def sample_bible_def sample_series_def sample_term_def
  term_event_def inference_def empty_bible_def ascii_lower_def

lemma provided_simps:
  "provided [] = []" "provided ((f, v) # fs) = (if v = None then [] else [(f, v)]) @ provided fs"
  by (simp_all add: provided_def)

lemmas bible_eval = commit_def constraints_ok_def fk_ok_def series_identity_def VALID_SOURCES_def
  change_event_def provided_simps insert_events_def merge_row_def apply_changes_def validate_mergeable_def put_row_def
  row_by_id_def next_id_def field_defs ascii_eval Let_def lower_def strip_def lstrip_def rstrip_def

lemma sample_bible_made:
  "get_or_create_series (\<lambda>m. 2) (lit ''sonarr'') (lit ''default'') 7 [] None None (empty_bible True) = Inr (sample_bible, sample_series)"
  by (simp add: get_or_create_series_def bible_samples bible_eval MAX_ARR_METADATA_BYTES_def series_table_def)

lemma bible_with_term_made:
  "upsert_term ascii_lower 1 (lit ''ka'') (Some (lit ''a'')) None None inference sample_bible =
     Inr (bible_with_term, sample_term (lit ''a'') [], [term_event None (lit ''a'') inference])"
  by (simp add: upsert_term_def term_named_def bible_samples bible_eval term_table_def)

lemma bible_with_lock_made:
  "apply_human_edit_term 1 None (Some 1) F_RENDERING (Some (lit ''b'')) True bible_with_term =
     Inr (bible_with_lock, sample_term (lit ''b'') [F_RENDERING], term_event (Some (lit ''a'')) (lit ''b'') (lit ''lock''))"
  by (simp add: apply_human_edit_term_def locate_term_def edit_row_def edit_lock_def edit_source_def bible_samples bible_eval
      term_table_def)

lemma sample_reach: "bible_reach ascii_lower bible_with_term" "bible_reach ascii_lower bible_with_lock"
proof -
  have "bible_reach ascii_lower sample_bible"
    by (rule bible_reach.step[OF bible_reach.init bible_op.series[OF sample_bible_made]])
  from bible_reach.step[OF this bible_op.term_entry[OF bible_with_term_made]]
  show t: "bible_reach ascii_lower bible_with_term" .
  show "bible_reach ascii_lower bible_with_lock"
    by (rule bible_reach.step[OF t bible_op.edit_term[OF bible_with_lock_made]])
qed

section \<open>Guarantees\<close>

text \<open>C16: A field a person locked keeps its value and its lock through any number of operations of the pipeline, whatever the inference proposes.\<close>

theorem locked_fields_survive:
  assumes "bible_reach db_lower db" and "pipeline_run db_lower db db'" and "f \<in> set (bible_locks e db i)"
  shows "bible_locks e db' i = bible_locks e db i \<and> bible_value e db' i f = bible_value e db i f"
  by (rule run_locked[OF assms(2,1,3)])

definition bible_after_proposal :: "bible_db option" where
  "bible_after_proposal = (case upsert_term ascii_lower 1 (lit ''ka'') (Some (lit ''c'')) (Some (lit ''title'')) None inference bible_with_lock of
     Inl _ \<Rightarrow> None | Inr (db, t, es) \<Rightarrow> Some db)"

lemma proposal_made: "\<exists>db t es. upsert_term ascii_lower 1 (lit ''ka'') (Some (lit ''c'')) (Some (lit ''title'')) None inference bible_with_lock = Inr (db, t, es)
    \<and> bible_after_proposal = Some db"
  by (simp add: bible_after_proposal_def upsert_term_def term_named_def carry_forward_def suppressed_events_def bible_samples bible_eval term_table_def)

theorem locked_fields_survive_witness:
  "\<exists>db. bible_after_proposal = Some db \<and> bible_value ETerm db 1 F_RENDERING = Some (lit ''b'')"
proof -
  obtain db t es where p: "upsert_term ascii_lower 1 (lit ''ka'') (Some (lit ''c'')) (Some (lit ''title'')) None inference bible_with_lock = Inr (db, t, es)"
    and db: "bible_after_proposal = Some db" using proposal_made by blast
  from pipeline_run.more[OF pipeline_run.stop bible_op.term_entry[OF p]] have "pipeline_run ascii_lower bible_with_lock db" .
  from locked_fields_survive[OF sample_reach(2) this, of F_RENDERING ETerm 1]
  have "bible_value ETerm db 1 F_RENDERING = bible_value ETerm bible_with_lock 1 F_RENDERING"
    by (simp add: locks_of_def row_by_id_def bible_with_lock_def sample_term_def term_table_def)
  also have "\<dots> = Some (lit ''b'')"
    by (simp add: field_of_def row_by_id_def bible_with_lock_def sample_term_def term_table_def)
  finally show ?thesis using db by blast
qed



text \<open>For a term the log does not say what the table holds: a suppressed inference is recorded like a change, so after the rendering \<open>a\<close> and the proposal \<open>c\<close> the last event of the log gives \<open>c\<close> and the table still has \<open>a\<close>.\<close>

theorem suppressed_rendering_in_log:
  "\<exists>db t es. bible_reach ascii_lower db
     \<and> upsert_term ascii_lower 1 (lit ''ka'') (Some (lit ''c'')) None None inference bible_with_term = Inr (db, t, es)
     \<and> bible_value ETerm db 1 F_RENDERING = Some (lit ''a'')
     \<and> replay ETerm (db_events db) 1 F_RENDERING = Some (lit ''c'')"
proof -
  let ?db = "bible_with_term\<lparr>db_events := db_events bible_with_term @ [term_event (Some (lit ''a'')) (lit ''c'') inference]\<rparr>"
  have u: "upsert_term ascii_lower 1 (lit ''ka'') (Some (lit ''c'')) None None inference bible_with_term =
      Inr (?db, sample_term (lit ''a'') [], [term_event (Some (lit ''a'')) (lit ''c'') inference])"
    by (simp add: upsert_term_def term_named_def carry_forward_def suppressed_events_def bible_samples bible_eval term_table_def)
  from bible_reach.step[OF sample_reach(1) bible_op.term_entry[OF u]] have "bible_reach ascii_lower ?db" .
  moreover have "bible_value ETerm ?db 1 F_RENDERING = Some (lit ''a'')"
    by (simp add: field_of_def row_by_id_def bible_with_term_def sample_term_def term_table_def)
  moreover have "replay ETerm (db_events ?db) 1 F_RENDERING = Some (lit ''c'')"
    by (simp add: replay_def replay_event_def bible_with_term_def term_event_def)
  ultimately show ?thesis using u by blast
qed

section \<open>Upserts\<close>

lemma merge_no_change:
  assumes "validate_mergeable (t_entity t) fs" and "\<And>f v. (f, v) \<in> set fs \<Longrightarrow> f \<in> set (t_locked t r) \<or> t_get t f r = v"
  shows "merge_row t fs ep src r = Inr (r, [])"
proof -
  have "compute_field_changes (\<lambda>f. t_get t f r) fs (t_locked t r) = []"
    using assms(2) by (induction fs) auto
  with assms(1) show ?thesis by (simp add: merge_row_def apply_changes_def)
qed

lemma put_same: "distinct (map (t_id t) rs) \<Longrightarrow> r \<in> set rs \<Longrightarrow> put_row t r rs = rs"
  unfolding put_row_def by (intro map_idI) (auto simp: distinct_map inj_on_def)

lemma character_fields_valid: "validate_mergeable ECharacter (provided [(F_GENDER, g), (F_AGE, a), (F_ROLE, ro)])"
  by (simp add: validate_mergeable_def provided_def)

text \<open>The second upsert finds the row of the first and has nothing to change.\<close>

lemma upsert_again:
  assumes "characters_named db_lower sid name db = [r]" and "r \<in> set (db_characters db)"
    and "distinct (map (t_id character_table) (db_characters db))" and "constraints_ok db"
    and "\<And>f v. (f, v) \<in> set (provided [(F_GENDER, gender), (F_AGE, age), (F_ROLE, role)]) \<Longrightarrow>
       f \<in> set (t_locked character_table r) \<or> t_get character_table f r = v"
  shows "upsert_character db_lower sid name gender age role ep src db = Inr (db, r, [])"
proof (cases "provided [(F_GENDER, gender), (F_AGE, age), (F_ROLE, role)] = []")
  case True
  with assms(1) show ?thesis by (simp add: upsert_character_def)
next
  case False
  have "merge_row character_table (provided [(F_GENDER, gender), (F_AGE, age), (F_ROLE, role)]) ep src r = Inr (r, [])"
    by (rule merge_no_change) (use assms(5) in \<open>auto simp: character_fields_valid\<close>)
  with assms(1,4) False put_same[OF assms(3,2)] show ?thesis
    by (simp add: upsert_character_def commit_def)
qed

lemma named_mem: "characters_named db_lower sid name db = [q] \<Longrightarrow> q \<in> set (db_characters db)"
proof -
  assume "characters_named db_lower sid name db = [q]"
  then have "q \<in> set (characters_named db_lower sid name db)" by simp
  then show ?thesis by (simp add: characters_named_def)
qed

lemma characters_put:
  assumes "characters_named db_lower sid name db = [q]" and "distinct (map (t_id character_table) (db_characters db))"
    and "cr_id r = cr_id q" "cr_series r = cr_series q" "cr_name r = cr_name q"
  shows "characters_named db_lower sid name (db\<lparr>db_characters := put_row character_table r (db_characters db), db_events := es\<rparr>) = [r]"
proof -
  let ?P = "\<lambda>c. cr_series c = sid \<and> db_lower (cr_name c) = lower (strip name)"
  have f: "filter ?P (db_characters db) = [q]" using assms(1) by (simp add: characters_named_def)
  from named_mem[OF assms(1)] have q: "q \<in> set (db_characters db)" .
  have e: "?P (if cr_id c = cr_id r then r else c) = ?P c" if "c \<in> set (db_characters db)" for c
    using that q assms(2-5) by (auto simp: distinct_map inj_on_def character_table_def)
  have "filter ?P (put_row character_table r cs) = map (\<lambda>c. if cr_id c = cr_id r then r else c) (filter ?P cs)"
    if "set cs \<subseteq> set (db_characters db)" for cs
    using that by (induction cs) (auto simp: put_row_def character_table_def e)
  from this[of "db_characters db"] f assms(3) show ?thesis by (simp add: characters_named_def)
qed

lemma map_of_provided:
  assumes "distinct (map fst fs)" and "(f, v) \<in> set (provided fs)"
  shows "map_of (provided fs) f = Some v"
  using assms provided_distinct[OF assms(1)] by simp

lemma insert_reads:
  "(f, v) \<in> set (provided [(F_GENDER, gender), (F_AGE, age), (F_ROLE, role)]) \<Longrightarrow>
   t_get character_table f \<lparr>cr_id = i, cr_series = sid, cr_name = name, cr_gender = gender, cr_age = age, cr_role = role, cr_locked = l\<rparr> = v"
  by (auto simp: provided_def character_table_def split: if_splits)

text \<open>Upserting the same character twice is the same as once, with any provenance: the second time finds the row and changes and records nothing, provided the database lowers the name as Python does.\<close>

theorem upsert_character_idempotent:
  assumes "upsert_character db_lower sid name gender age role ep src db = Inr (db', r, es)"
    and "db_lower name = lower (strip name)" and "bible_reach db_lower db" and "constraints_ok db"
  shows "upsert_character db_lower sid name gender age role ep' src' db' = Inr (db', r, [])"
proof -
  let ?fs = "[(F_GENDER, gender), (F_AGE, age), (F_ROLE, role)]"
  have d: "distinct (map (t_id character_table) (db_characters db))"
    using reach_ids[OF assms(3)] by (simp add: ids_distinct_def)
  have d': "distinct (map (t_id character_table) (db_characters db'))"
    using db_step_ids[OF upsert_character_step[OF assms(1)] reach_ids[OF assms(3)]] by (simp add: ids_distinct_def)
  show ?thesis
  proof (cases "scalar_one_or_none (characters_named db_lower sid name db)")
    case (Inr found)
    show ?thesis
    proof (cases found)
      case None
      with Inr assms(1) have r: "r = \<lparr>cr_id = next_id character_table (db_characters db), cr_series = sid, cr_name = name,
            cr_gender = gender, cr_age = age, cr_role = role, cr_locked = []\<rparr>"
        and db': "db' = db\<lparr>db_characters := db_characters db @ [r], db_events := db_events db @ es\<rparr>"
        and c: "constraints_ok db'"
        by (auto simp: upsert_character_def commit_Inr Let_def)
      have "characters_named db_lower sid name db' = [r]"
        using Inr None assms(2) by (simp add: db' characters_named_def scalar_None r)
      then show ?thesis
        by (rule upsert_again[OF _ _ d' c]) (use insert_reads in \<open>auto simp: db' r\<close>)
    next
      case (Some q)
      with Inr have n: "characters_named db_lower sid name db = [q]" by (simp add: scalar_Some)
      note q = named_mem[OF n]
      show ?thesis
      proof (cases "provided ?fs = []")
        case True
        with assms(1) Inr Some have "db' = db" "r = q" by (auto simp: upsert_character_def)
        with True n show ?thesis by (simp add: upsert_character_def)
      next
        case False
        with assms(1) Inr Some have m: "merge_row character_table (provided ?fs) ep src q = Inr (r, es)"
          and db': "db' = db\<lparr>db_characters := put_row character_table r (db_characters db), db_events := db_events db @ es\<rparr>"
          and c: "constraints_ok db'"
          by (auto simp: upsert_character_def commit_Inr Let_def split: sum.splits)
        note fr = chars.merge_frame[OF m]
        have nm: "cr_name r = cr_name q"
        proof -
          have "cr_name (apply_changes character_table cs x) = cr_name x" for cs x
            unfolding apply_changes_def by (induction cs arbitrary: x) (auto simp: character_table_def)
          with m show ?thesis by (auto simp: merge_row_def Let_def split: if_splits)
        qed
        have "characters_named db_lower sid name db' = [r]"
          unfolding db' by (rule characters_put[OF n d]) (use fr nm in \<open>simp_all add: character_table_def\<close>)
        moreover have "r \<in> set (db_characters db')" using q fr(1) by (auto simp: db' put_row_def)
        moreover have "f \<in> set (t_locked character_table r) \<or> t_get character_table f r = v"
          if "(f, v) \<in> set (provided ?fs)" for f v
          using chars.merge_get[OF m, of f] map_of_provided[OF _ that] fr(3) by (auto simp: provided_distinct)
        ultimately show ?thesis by (intro upsert_again[OF _ _ d' c])
      qed
    qed
  qed (use assms(1) in \<open>simp add: upsert_character_def\<close>)
qed

theorem upsert_character_idempotent_witness:
  "\<exists>db r es. upsert_character ascii_lower 1 (lit ''Bo'') (Some (lit ''m'')) None None None inference sample_bible = Inr (db, r, es)
     \<and> upsert_character ascii_lower 1 (lit ''Bo'') (Some (lit ''m'')) None None None (lit ''import'') db = Inr (db, r, [])"
proof -
  obtain db r es where u: "upsert_character ascii_lower 1 (lit ''Bo'') (Some (lit ''m'')) None None None inference sample_bible = Inr (db, r, es)"
    by (simp add: upsert_character_def characters_named_def bible_samples bible_eval character_table_def)
  have n: "ascii_lower (lit ''Bo'') = lower (strip (lit ''Bo''))" by (simp add: ascii_lower_def bible_eval)
  have c: "constraints_ok sample_bible" by (simp add: bible_samples bible_eval)
  show ?thesis
    using u upsert_character_idempotent[OF u n bible_reach.step[OF bible_reach.init bible_op.series[OF sample_bible_made]] c] by blast
qed

text \<open>A name the database and Python lower differently is never found again: every upsert of it inserts one more row, and looking it up finds none of them.\<close>

theorem unmatched_name_duplicates:
  assumes "upsert_character db_lower sid name gender age role ep src db = Inr (db', r, es)"
    and "db_lower name \<noteq> lower (strip name)" and "characters_named db_lower sid name db = []"
  shows "db_characters db' = db_characters db @ [r] \<and> cr_name r = name
    \<and> get_character db_lower sid name db' = Inr None \<and> characters_named db_lower sid name db' = []"
  using assms by (auto simp: upsert_character_def commit_Inr Let_def get_character_def characters_named_def)

theorem unmatched_name_duplicates_witness:
  "\<exists>db1 r1 es1 db2 r2 es2.
     upsert_character ascii_lower 1 [201, 108] None None None None inference sample_bible = Inr (db1, r1, es1)
     \<and> upsert_character ascii_lower 1 [201, 108] None None None None inference db1 = Inr (db2, r2, es2)
     \<and> map cr_name (db_characters db2) = [[201, 108], [201, 108]]"
proof -
  have l: "lower_char 201 = 233" by (simp add: lower_char_def lower_runs_def)
  have sp: "\<not> is_space 201" by (simp add: is_space_def space_ranges_def)
  have n: "ascii_lower [201, 108] \<noteq> lower (strip [201, 108])" by (simp add: ascii_lower_def bible_eval l sp)
  obtain db1 r1 es1 where u1: "upsert_character ascii_lower 1 [201, 108] None None None None inference sample_bible = Inr (db1, r1, es1)"
    by (simp add: upsert_character_def characters_named_def bible_samples bible_eval character_table_def)
  have "characters_named ascii_lower 1 [201, 108] sample_bible = []" by (simp add: characters_named_def bible_samples)
  note s1 = unmatched_name_duplicates[OF u1 n this]
  then obtain db2 r2 es2 where u2: "upsert_character ascii_lower 1 [201, 108] None None None None inference db1 = Inr (db2, r2, es2)"
    using u1 by (auto simp: upsert_character_def characters_named_def bible_samples bible_eval character_table_def)
  have "db_characters db1 = [r1]" "cr_name r1 = [201, 108]" "characters_named ascii_lower 1 [201, 108] db1 = []"
    using s1 by (simp_all add: sample_bible_def empty_bible_def)
  with unmatched_name_duplicates[OF u2 n] have "map cr_name (db_characters db2) = [[201, 108], [201, 108]]" by simp
  with u1 u2 show ?thesis by (intro exI conjI)
qed

text \<open>Deleting a term reports success and deletes nothing: the coroutine of the delete is never awaited.\<close>

theorem delete_term_deletes_nothing:
  assumes "delete_term tid sid db = Inr (db', n)"
  shows "n = tid \<and> db' = db \<and> row_by_id term_table tid (db_terms db') \<noteq> None"
  using assms by (auto simp: delete_term_def call_without_await_def commit_Inr split: option.splits if_splits)

theorem delete_term_deletes_nothing_witness:
  "\<exists>db n. delete_term 1 1 bible_with_term = Inr (db, n) \<and> db_terms db = [sample_term (lit ''a'') []]"
proof -
  obtain db n where d: "delete_term 1 1 bible_with_term = Inr (db, n)"
    by (simp add: delete_term_def call_without_await_def bible_samples bible_eval term_table_def)
  from delete_term_deletes_nothing[OF d] d show ?thesis by (simp add: bible_with_term_def)
qed

text \<open>An inference never rewrites the rendering of a term that has one: it is kept if it is locked, and kept if it is not, and no other term changes.\<close>

theorem inference_keeps_renderings:
  assumes "upsert_term db_lower sid source (Some v) category ep (lit ''inference'') db = Inr (db', r, es)"
    and "ids_distinct db" and "bible_value ETerm db i F_RENDERING = Some w" and "strip w \<noteq> []"
  shows "bible_value ETerm db' i F_RENDERING = Some w"
proof (cases "term_named db_lower sid source db")
  case None
  with assms(1) have "db_terms db' = db_terms db @ [r]"
    by (auto simp: upsert_term_def commit_Inr Let_def)
  with assms(3) show ?thesis by (simp add: field_of_def row_by_id_append split: option.splits)
next
  case (Some q)
  note q = term_named_Some[OF Some]
  have d: "distinct (map (t_id term_table) (db_terms db))" using assms(2) by (simp add: ids_distinct_def)
  let ?fs = "provided [(F_RENDERING, if carry_forward q (Some v) (lit ''inference'') then None else Some v), (F_CATEGORY, category)]"
  show ?thesis
  proof (cases "?fs = []")
    case True
    with assms(1,3) Some show ?thesis by (simp add: upsert_term_def commit_Inr Let_def)
  next
    case False
    with assms(1) Some obtain r' es' where m: "merge_row term_table ?fs ep (lit ''inference'') q = Inr (r', es')"
      and t: "db_terms db' = put_row term_table r' (db_terms db)"
      by (auto simp: upsert_term_def commit_Inr Let_def split: sum.splits)
    note p = row_by_id_put[OF conjunct1[OF q] terms.merge_frame(1)[OF m], of i]
    show ?thesis
    proof (cases "i = t_id term_table q")
      case True
      with assms(3) row_by_id_mem[OF d conjunct1[OF q]] have w: "tr_rendering q = Some w"
        by (simp add: field_of_def) (simp add: term_table_def)
      have "t_get term_table F_RENDERING r' = t_get term_table F_RENDERING q"
        using terms.merge_get[OF m, of F_RENDERING] assms(4) w
        by (cases "F_RENDERING \<in> set (tr_locked q)")
          (auto simp: provided_distinct carry_forward_def provided_def term_table_def split: option.splits if_splits)
      with True p t w show ?thesis by (simp add: field_of_def) (simp add: term_table_def)
    next
      case False
      with p t assms(3) show ?thesis by (simp add: field_of_def)
    qed
  qed
qed

theorem inference_keeps_renderings_witness:
  "\<exists>db r es. upsert_term ascii_lower 1 (lit ''ka'') (Some (lit ''c'')) None None (lit ''inference'') bible_with_term = Inr (db, r, es)
     \<and> bible_value ETerm db 1 F_RENDERING = Some (lit ''a'')"
proof -
  obtain db r es where u: "upsert_term ascii_lower 1 (lit ''ka'') (Some (lit ''c'')) None None (lit ''inference'') bible_with_term = Inr (db, r, es)"
    by (simp add: upsert_term_def term_named_def carry_forward_def suppressed_events_def bible_samples bible_eval term_table_def)
  have "bible_value ETerm bible_with_term 1 F_RENDERING = Some (lit ''a'')"
    by (simp add: field_of_def row_by_id_def bible_with_term_def sample_term_def term_table_def)
  from inference_keeps_renderings[OF u reach_ids[OF sample_reach(1)] this] u show ?thesis
    by (simp add: bible_eval)
qed

end
