(* ===== verification/Analysis.thy ===== *)
theory Analysis
  imports Attribution Bible_Guarantees
begin

text \<open>
  The first pass, \<open>trezarr/bible/analyze.py\<close>: the file is cut into chunks, the model's analysis of
  each chunk is merged into one, and the merged analysis is written to the Bible, row by row, an
  error of the store costing only its row. What the model answers for a chunk is an argument; an
  answer that fails validation is \<open>None\<close>.
\<close>

section \<open>Inferences\<close>

record character_inference =
  ci_name :: pystr
  ci_gender :: "pystr option"
  ci_age :: "pystr option"
  ci_role :: "pystr option"
  ci_script :: "pystr option"
  ci_rendering :: "pystr option"

record term_inference =
  ti_source :: pystr
  ti_rendering :: pystr
  ti_category :: "pystr option"

record address_inference =
  ai_speaker :: pystr
  ai_addressee :: pystr
  ai_self :: pystr
  ai_address :: pystr

record event_inference =
  ei_a :: pystr
  ei_b :: pystr
  ei_marker :: pystr
  ei_description :: pystr
  ei_self :: "pystr option"
  ei_address :: "pystr option"

record bible_analysis =
  ba_register :: "pystr option"
  ba_characters :: "character_inference list"
  ba_terms :: "term_inference list"
  ba_pairs :: "address_inference list"
  ba_events :: "event_inference list"

definition no_analysis :: bible_analysis where
  "no_analysis = \<lparr>ba_register = None, ba_characters = [], ba_terms = [], ba_pairs = [], ba_events = []\<rparr>"

section \<open>Merging the chunks\<close>

text \<open>A later chunk fills the fields the kept character left empty.\<close>

definition fill :: "pystr option \<Rightarrow> pystr option \<Rightarrow> pystr option" where
  "fill kept new = (if \<not> truthy kept \<and> truthy new then new else kept)"

definition fill_character :: "character_inference \<Rightarrow> character_inference \<Rightarrow> character_inference" where
  "fill_character kept c = kept
     \<lparr>ci_rendering := fill (ci_rendering kept) (ci_rendering c), ci_gender := fill (ci_gender kept) (ci_gender c),
      ci_age := fill (ci_age kept) (ci_age c), ci_role := fill (ci_role kept) (ci_role c),
      ci_script := fill (ci_script kept) (ci_script c)\<rparr>"

definition add_character :: "character_inference list \<Rightarrow> character_inference \<Rightarrow> character_inference list" where
  "add_character cs c =
     (let key = exact_key (ci_name c) in
      if key = [] then cs
      else if key \<notin> (\<lambda>d. exact_key (ci_name d)) ` set cs then cs @ [c]
      else map (\<lambda>d. if exact_key (ci_name d) = key then fill_character d c else d) cs)"

text \<open>First-wins by a key; \<open>blank\<close> says whether an entry with an empty key is dropped.\<close>

definition add_first :: "('a \<Rightarrow> 'k) \<Rightarrow> ('a \<Rightarrow> bool) \<Rightarrow> 'a list \<Rightarrow> 'a \<Rightarrow> 'a list" where
  "add_first key ok xs x = (if ok x \<and> key x \<notin> key ` set xs then xs @ [x] else xs)"

definition term_key :: "term_inference \<Rightarrow> pystr" where
  "term_key t = exact_key (ti_source t)"

definition pair_key :: "address_inference \<Rightarrow> pystr \<times> pystr" where
  "pair_key p = (exact_key (ai_speaker p), exact_key (ai_addressee p))"

definition event_key :: "event_inference \<Rightarrow> pystr \<times> pystr \<times> pystr" where
  "event_key e = (exact_key (ei_a e), exact_key (ei_b e), exact_key (ei_description e))"

definition merge_part :: "bible_analysis \<Rightarrow> bible_analysis \<Rightarrow> bible_analysis" where
  "merge_part merged part =
     \<lparr>ba_register = (if strip (or_empty (ba_register merged)) = [] \<and> strip (or_empty (ba_register part)) \<noteq> []
        then ba_register part else ba_register merged),
      ba_characters = foldl add_character (ba_characters merged) (ba_characters part),
      ba_terms = foldl (add_first term_key (\<lambda>t. term_key t \<noteq> [])) (ba_terms merged) (ba_terms part),
      ba_pairs = foldl (add_first pair_key (\<lambda>p. True)) (ba_pairs merged) (ba_pairs part),
      ba_events = foldl (add_first event_key (\<lambda>e. True)) (ba_events merged) (ba_events part)\<rparr>"

text \<open>The chunks of the cue texts that are not blank.\<close>

function chunks_of :: "nat \<Rightarrow> 'a list \<Rightarrow> 'a list list" where
  "chunks_of n xs = (if n = 0 \<or> xs = [] then [] else take n xs # chunks_of n (drop n xs))"
  by pat_completeness auto
termination by (relation "measure (\<lambda>(n, xs). length xs)") auto

declare chunks_of.simps [simp del]

definition analysis_chunks :: "int \<Rightarrow> pystr list \<Rightarrow> pystr list list" where
  "analysis_chunks limit texts =
     (if limit > 0 then (let cs = chunks_of (nat limit) texts in if cs = [] then [[]] else cs) else [texts])"

text \<open>The loop over the chunks: what is merged and how many failed to parse; a call may raise.\<close>

fun analyze_chunks ::
  "(nat \<Rightarrow> pystr list \<Rightarrow> 'e + bible_analysis option) \<Rightarrow> nat \<Rightarrow> pystr list list \<Rightarrow> bible_analysis \<Rightarrow> nat
     \<Rightarrow> 'e + bible_analysis \<times> nat" where
  "analyze_chunks reply k [] merged fails = Inr (merged, fails)"
| "analyze_chunks reply k (c # cs) merged fails =
     (if c = [] then analyze_chunks reply (Suc k) cs merged fails
      else case reply k c of
        Inl e \<Rightarrow> Inl e
      | Inr None \<Rightarrow> analyze_chunks reply (Suc k) cs merged (Suc fails)
      | Inr (Some part) \<Rightarrow> analyze_chunks reply (Suc k) cs (merge_part merged part) fails)"

datatype 'e analyzed = Analyzed bible_analysis | AnalysisError pystr | AnalysisRaise 'e

definition parse_failed_text :: "(pystr \<Rightarrow> pystr) \<Rightarrow> nat \<Rightarrow> pystr \<Rightarrow> pystr" where
  "parse_failed_text rp n ep = lit ''BibleAnalysis parse failed for ALL '' @ dec n @ lit '' chunk(s) of episode '' @ rp ep
     @ [32, 8212, 32] @ lit ''logic failure (quarantine).''"

definition analyze_file ::
  "bool \<Rightarrow> bool \<Rightarrow> int \<Rightarrow> (pystr \<Rightarrow> pystr) \<Rightarrow> (nat \<Rightarrow> pystr list \<Rightarrow> 'e + bible_analysis option) \<Rightarrow> pystr \<Rightarrow> sub_doc \<Rightarrow> 'e analyzed" where
  "analyze_file enabled text_mode limit rp reply ep src =
     (if \<not> enabled then Analyzed no_analysis
      else if text_mode then Analyzed no_analysis
      else let texts = filter (\<lambda>t. strip t \<noteq> []) (map sl_text (doc_lines src));
               chunks = analysis_chunks limit texts
        in case analyze_chunks reply 0 chunks no_analysis 0 of
             Inl e \<Rightarrow> AnalysisRaise e
           | Inr (merged, fails) \<Rightarrow>
               (let n = length (filter (\<lambda>c. c \<noteq> []) chunks)
                in if n > 0 \<and> fails = n then AnalysisError (parse_failed_text rp fails ep) else Analyzed merged))"

section \<open>Name terms\<close>

record name_term =
  nt_source :: pystr
  nt_rendering :: pystr

definition stripped :: "pystr option \<Rightarrow> pystr" where
  "stripped x = strip (or_empty x)"

text \<open>What the existing terms say: their sources, the last rendering of each, the locked ones.\<close>

definition existing_sources :: "term_row list \<Rightarrow> pystr set" where
  "existing_sources ts = (\<lambda>t. exact_key (tr_source t)) ` set (filter (\<lambda>t. strip (tr_source t) \<noteq> []) ts)"

definition rendering_by_latin :: "term_row list \<Rightarrow> pystr \<Rightarrow> pystr option" where
  "rendering_by_latin ts k =
     map_of (rev (map (\<lambda>t. (exact_key (tr_source t), stripped (tr_rendering t)))
       (filter (\<lambda>t. strip (tr_source t) \<noteq> [] \<and> stripped (tr_rendering t) \<noteq> []) ts))) k"

definition locked_rendering :: "term_row \<Rightarrow> bool" where
  "locked_rendering t \<longleftrightarrow> F_RENDERING \<in> set (tr_locked t)"

definition locked_sources :: "term_row list \<Rightarrow> pystr set" where
  "locked_sources ts = existing_sources (filter locked_rendering ts)"

definition has_script_char :: "pystr \<Rightarrow> bool" where
  "has_script_char s \<longleftrightarrow> (\<exists>c \<in> set s. 12352 \<le> c \<and> c \<le> 40959 \<or> 13312 \<le> c \<and> c \<le> 19903)"

definition locked_cjk_renderings :: "term_row list \<Rightarrow> pystr set" where
  "locked_cjk_renderings ts =
     (\<lambda>t. lower (stripped (tr_rendering t))) `
       set (filter (\<lambda>t. locked_rendering t \<and> exact_key (tr_source t) \<in> locked_sources ts
         \<and> has_script_char (strip (tr_source t)) \<and> stripped (tr_rendering t) \<noteq> []) ts)"

text \<open>The Latin names of characters whose script form or rendering is locked join the locked sources, in order.\<close>

fun extend_locked :: "pystr set \<Rightarrow> pystr set \<Rightarrow> character_inference list \<Rightarrow> pystr set" where
  "extend_locked cjk locked [] = locked"
| "extend_locked cjk locked (c # cs) =
     (let latin = strip (ci_name c); script = stripped (ci_script c); hv = stripped (ci_rendering c) in
      if latin = [] then extend_locked cjk locked cs
      else if script \<noteq> [] \<and> lower script \<in> locked \<or> hv \<noteq> [] \<and> lower hv \<in> cjk
        then extend_locked cjk (insert (lower latin) locked) cs
      else extend_locked cjk locked cs)"

fun plan_specs ::
  "(pystr \<Rightarrow> pystr option) \<Rightarrow> pystr set \<Rightarrow> pystr set \<Rightarrow> pystr set \<Rightarrow> character_inference list \<Rightarrow> name_term list" where
  "plan_specs by_latin existing locked seen [] = []"
| "plan_specs by_latin existing locked seen (c # cs) =
     (let latin = strip (ci_name c); script = stripped (ci_script c); hv = stripped (ci_rendering c) in
      if latin = [] \<or> lower latin \<in> locked then plan_specs by_latin existing locked seen cs
      else let canonical = (case by_latin (lower latin) of Some r \<Rightarrow> r | None \<Rightarrow> if hv \<noteq> [] then hv else latin);
               source = (if script \<noteq> [] then script else latin)
        in if lower source \<in> existing \<or> lower source \<in> seen then plan_specs by_latin existing locked seen cs
           else \<lparr>nt_source = source, nt_rendering = canonical\<rparr>
                # plan_specs by_latin existing (insert (lower latin) locked) (insert (lower source) seen) cs)"

definition plan_character_name_terms :: "character_inference list \<Rightarrow> term_row list \<Rightarrow> name_term list" where
  "plan_character_name_terms cs ts =
     plan_specs (rendering_by_latin ts) (existing_sources ts)
       (extend_locked (locked_cjk_renderings ts) (locked_sources ts) cs) {} cs"


section \<open>Writing the analysis to the Bible\<close>

definition lookup_name :: "name_index \<Rightarrow> pystr \<Rightarrow> nat option" where
  "lookup_name idx n = (case index_get idx (exact_key n) of
     Some i \<Rightarrow> (if i \<noteq> 0 then Some i else index_get idx (normalize_name n))
   | None \<Rightarrow> index_get idx (normalize_name n))"

definition INFERENCE :: pystr where
  "INFERENCE = lit ''inference''"

text \<open>Step 1: the register of the series; an error is logged.\<close>

definition put_register :: "pystr option \<Rightarrow> pystr \<Rightarrow> nat \<Rightarrow> bible_db \<Rightarrow> bible_db" where
  "put_register register ep sid db =
     (let reg = strip (or_empty register) in
      if reg = [] then db
      else case merge_inferred ESeries sid [(F_REGISTER, Some reg)] (Some ep) INFERENCE db of
        Inl e \<Rightarrow> db
      | Inr (db', es) \<Rightarrow> db')"

text \<open>Step 2: the characters, their names and script names, and the number of rows that failed.\<close>

fun put_characters ::
  "(pystr \<Rightarrow> pystr) \<Rightarrow> nat \<Rightarrow> pystr \<Rightarrow> character_inference list \<Rightarrow> name_index \<Rightarrow> bible_db \<Rightarrow> bible_db \<times> name_index \<times> nat" where
  "put_characters db_lower sid ep [] idx db = (db, idx, 0)"
| "put_characters db_lower sid ep (c # cs) idx db =
     (case upsert_character db_lower sid (ci_name c) (ci_gender c) (ci_age c) (ci_role c) (Some ep) INFERENCE db of
        Inl e \<Rightarrow> (let (db', idx', n) = put_characters db_lower sid ep cs idx db in (db', idx', Suc n))
      | Inr (db1, r, es) \<Rightarrow>
          put_characters db_lower sid ep cs
            (idx @ [(exact_key (ci_name c), cr_id r)]
               @ (if stripped (ci_script c) \<noteq> [] then [(lower (stripped (ci_script c)), cr_id r)] else [])) db1)"

text \<open>Step 3: the terms.\<close>

fun put_terms :: "(pystr \<Rightarrow> pystr) \<Rightarrow> nat \<Rightarrow> pystr \<Rightarrow> term_inference list \<Rightarrow> bible_db \<Rightarrow> bible_db \<times> nat" where
  "put_terms db_lower sid ep [] db = (db, 0)"
| "put_terms db_lower sid ep (t # ts) db =
     (case upsert_term db_lower sid (ti_source t) (Some (ti_rendering t)) (ti_category t) (Some ep) INFERENCE db of
        Inl e \<Rightarrow> (let (db', n) = put_terms db_lower sid ep ts db in (db', Suc n))
      | Inr (db1, r, es) \<Rightarrow> put_terms db_lower sid ep ts db1)"

text \<open>Step 3.5: a locked term for every name that has none.\<close>

fun put_name_terms :: "nat \<Rightarrow> name_term list \<Rightarrow> bible_db \<Rightarrow> bible_db" where
  "put_name_terms sid [] db = db"
| "put_name_terms sid (n # ns) db =
     (case apply_human_edit_term sid (Some (nt_source n)) None F_RENDERING (Some (nt_rendering n)) True db of
        Inl e \<Rightarrow> put_name_terms sid ns db
      | Inr (db1, r, ev) \<Rightarrow> put_name_terms sid ns db1)"

definition lock_names :: "nat \<Rightarrow> character_inference list \<Rightarrow> bible_db \<Rightarrow> bible_db" where
  "lock_names sid cs db =
     (let ts = (case load_series_bible sid db of Inl e \<Rightarrow> [] | Inr b \<Rightarrow> sb_terms b)
      in put_name_terms sid (plan_character_name_terms cs ts) db)"

text \<open>Step 4: the address pairs; one that was there is only affirmed. The counts are the attempts and the failures.\<close>

fun put_pairs ::
  "nat \<Rightarrow> pystr \<Rightarrow> (nat \<times> nat) set \<Rightarrow> name_index \<Rightarrow> address_inference list \<Rightarrow> bible_db \<Rightarrow> bible_db \<times> nat \<times> nat" where
  "put_pairs sid ep known idx [] db = (db, 0, 0)"
| "put_pairs sid ep known idx (p # ps) db =
     (case (lookup_name idx (ai_speaker p), lookup_name idx (ai_addressee p)) of
        (Some i, Some j) \<Rightarrow>
          (let given = (\<lambda>v. if (i, j) \<in> known then None else Some v) in
           case upsert_address_pair sid i j (given (ai_self p)) (given (ai_address p)) (given ep) (Some ep) INFERENCE db of
             Inl e \<Rightarrow> (let (db', a, f) = put_pairs sid ep known idx ps db in (db', Suc a, Suc f))
           | Inr (db1, r, es) \<Rightarrow> (let (db', a, f) = put_pairs sid ep known idx ps db1 in (db', Suc a, f)))
      | _ \<Rightarrow> put_pairs sid ep known idx ps db)"

text \<open>Step 5: the relationship events.\<close>

fun put_events :: "nat \<Rightarrow> pystr \<Rightarrow> name_index \<Rightarrow> event_inference list \<Rightarrow> bible_db \<Rightarrow> bible_db" where
  "put_events sid ep idx [] db = db"
| "put_events sid ep idx (e # es) db =
     (case (lookup_name idx (ei_a e), lookup_name idx (ei_b e)) of
        (Some i, Some j) \<Rightarrow>
          (case record_relationship_event sid i j ep (Some (ei_description e)) db of
             Inl err \<Rightarrow> put_events sid ep idx es db
           | Inr (db1, r) \<Rightarrow> put_events sid ep idx es db1)
      | _ \<Rightarrow> put_events sid ep idx es db)"

definition all_failed_text :: "(pystr \<Rightarrow> pystr) \<Rightarrow> nat \<Rightarrow> pystr \<Rightarrow> nat \<Rightarrow> pystr \<Rightarrow> pystr" where
  "all_failed_text rp n kind sid ep =
     lit ''Pass 1 merge: ALL '' @ dec n @ [32] @ kind @ lit '' upserts failed for series '' @ dec sid @ lit '' episode '' @ rp ep
     @ [32, 8212, 32] @ lit ''likely a systemic DB failure (WR-06)''"

text \<open>The first result is the message of the \<open>BibleAnalysisError\<close>, if there is one.\<close>

definition merge_bible_analysis ::
  "(pystr \<Rightarrow> pystr) \<Rightarrow> (pystr \<Rightarrow> pystr) \<Rightarrow> bool \<Rightarrow> nat \<Rightarrow> pystr \<Rightarrow> bible_analysis \<Rightarrow> bible_db \<Rightarrow> pystr option \<times> bible_db" where
  "merge_bible_analysis db_lower rp events_enabled sid ep a db =
     (let db1 = put_register (ba_register a) ep sid db;
          (idx0, known) = (case load_series_bible sid db1 of
             Inl e \<Rightarrow> ([], {})
           | Inr b \<Rightarrow> (name_index (sb_characters b), set (map (\<lambda>p. (pr_speaker p, pr_addressee p)) (sb_pairs b))));
          (db2, idx, cfails) = put_characters db_lower sid ep (ba_characters a) idx0 db1
      in if ba_characters a \<noteq> [] \<and> cfails = length (ba_characters a)
         then (Some (all_failed_text rp cfails (lit ''character'') sid ep), db2)
         else let (db3, tfails) = put_terms db_lower sid ep (ba_terms a) db2
           in if ba_terms a \<noteq> [] \<and> tfails = length (ba_terms a)
              then (Some (all_failed_text rp tfails (lit ''term'') sid ep), db3)
              else let db4 = lock_names sid (ba_characters a) db3;
                       (db5, attempts, pfails) = put_pairs sid ep known idx (ba_pairs a) db4
                in if attempts > 0 \<and> pfails = attempts
                   then (Some (all_failed_text rp pfails (lit ''address-pair'') sid ep), db5)
                   else (None, if events_enabled then put_events sid ep idx (ba_events a) db5 else db5))"

end
