(* ===== verification/Reconcile.thy ===== *)
theory Reconcile
  imports Attribution Bible_Guarantees
begin

text \<open>
  The reconciliation of pronouns (\<open>trezarr/translate/reconcile.py\<close>): one pair of self and
  address terms for each ordered pair of characters of an episode. The decision for a pair reads
  only the attributions and the Bible as loaded; the upserts it asks for are those of
  \<open>Bible_Store\<close>. The order in which Python visits a set of pairs is an argument.
\<close>

section \<open>Vocabulary\<close>

definition W_anh :: pystr where "W_anh = [97, 110, 104]"
definition W_em :: pystr where "W_em = [101, 109]"
definition W_chi :: pystr where "W_chi = [99, 104, 7883]"
definition W_ong :: pystr where "W_ong = [244, 110, 103]"
definition W_chau :: pystr where "W_chau = [99, 104, 225, 117]"
definition W_ba :: pystr where "W_ba = [98, 224]"
definition W_con :: pystr where "W_con = [99, 111, 110]"
definition W_bo :: pystr where "W_bo = [98, 7889]"
definition W_me :: pystr where "W_me = [109, 7865]"
definition W_cha :: pystr where "W_cha = [99, 104, 97]"
definition W_toi :: pystr where "W_toi = [116, 244, 105]"
definition W_ban :: pystr where "W_ban = [98, 7841, 110]"
definition W_bac :: pystr where "W_bac = [98, 225, 99]"
definition W_chu :: pystr where "W_chu = [99, 104, 250]"
definition W_co :: pystr where "W_co = [99, 244]"
definition W_thay :: pystr where "W_thay = [116, 104, 7847, 121]"
definition W_tao :: pystr where "W_tao = [116, 97, 111]"
definition W_may :: pystr where "W_may = [109, 224, 121]"
definition W_tai_ha :: pystr where "W_tai_ha = [116, 7841, 105, 32, 104, 7841]"
definition W_cac_ha :: pystr where "W_cac_ha = [99, 225, 99, 32, 104, 7841]"
definition W_co_nuong :: pystr where "W_co_nuong = [99, 244, 32, 110, 432, 417, 110, 103]"

lemmas word_defs = W_anh_def W_em_def W_chi_def W_ong_def W_chau_def W_ba_def W_con_def W_bo_def W_me_def W_cha_def W_toi_def W_ban_def W_bac_def W_chu_def W_co_def W_thay_def W_tao_def W_may_def W_tai_ha_def W_cac_ha_def W_co_nuong_def

definition KINSHIP_RECIPROCAL :: "((pystr \<times> pystr) \<times> (pystr \<times> pystr)) list" where
  "KINSHIP_RECIPROCAL = [
    ((W_anh, W_em), (W_em, W_anh)),
    ((W_em, W_anh), (W_anh, W_em)),
    ((W_chi, W_em), (W_em, W_chi)),
    ((W_em, W_chi), (W_chi, W_em)),
    ((W_anh, W_anh), (W_anh, W_anh)),
    ((W_chi, W_chi), (W_chi, W_chi)),
    ((W_ong, W_chau), (W_chau, W_ong)),
    ((W_ba, W_chau), (W_chau, W_ba)),
    ((W_ong, W_con), (W_con, W_ong)),
    ((W_ba, W_con), (W_con, W_ba)),
    ((W_bo, W_con), (W_con, W_bo)),
    ((W_me, W_con), (W_con, W_me)),
    ((W_cha, W_con), (W_con, W_cha)),
    ((W_toi, W_ban), (W_ban, W_toi)),
    ((W_toi, W_anh), (W_anh, W_toi)),
    ((W_toi, W_chi), (W_chi, W_toi)),
    ((W_toi, W_ong), (W_ong, W_toi)),
    ((W_toi, W_ba), (W_ba, W_toi)),
    ((W_bac, W_chau), (W_chau, W_bac)),
    ((W_chau, W_bac), (W_bac, W_chau)),
    ((W_chu, W_chau), (W_chau, W_chu)),
    ((W_chau, W_chu), (W_chu, W_chau)),
    ((W_co, W_chau), (W_chau, W_co)),
    ((W_chau, W_co), (W_co, W_chau)),
    ((W_thay, W_em), (W_em, W_thay)),
    ((W_em, W_thay), (W_thay, W_em)),
    ((W_tao, W_may), (W_may, W_tao)),
    ((W_may, W_tao), (W_tao, W_may))]"

definition CLASSICAL_REGISTER_TOKENS :: "pystr list" where
  "CLASSICAL_REGISTER_TOKENS = [
    lit ''classical'',
    lit ''historical'',
    lit ''wuxia'',
    lit ''xianxia'',
    lit ''cultivation'',
    lit ''period'',
    lit ''ancient'',
    lit ''martial'',
    lit ''imperial'',
    lit ''dynasty'',
    [99, 7893, 32, 116, 114, 97, 110, 103],
    lit ''co trang'',
    [116, 105, 234, 110, 32, 104, 105, 7879, 112],
    [107, 105, 7871, 109, 32, 104, 105, 7879, 112],
    [116, 117, 32, 116, 105, 234, 110],
    [118, 245, 32, 104, 105, 7879, 112]]"

section \<open>Safe defaults\<close>

record pronoun_settings =
  ps_threshold :: pystr
  ps_safe_default :: "(pystr \<times> pystr) option"
  ps_relationship_events :: bool

definition is_classical_register :: "pystr option \<Rightarrow> bool" where
  "is_classical_register register \<longleftrightarrow>
     truthy register \<and> (\<exists>tok \<in> set CLASSICAL_REGISTER_TOKENS. contains tok (lower (or_empty register)))"

definition threshold_value :: "pystr \<Rightarrow> nat" where
  "threshold_value t =
     (let l = lower t in if l = lit ''high'' then 3 else if l = lit ''medium'' then 2
      else if l = lit ''low'' then 1 else 2)"

fun confidence_value :: "confidence \<Rightarrow> nat" where
  "confidence_value High = 3"
| "confidence_value Medium = 2"
| "confidence_value Low = 1"

definition get_safe_default :: "pystr option \<Rightarrow> pronoun_settings \<Rightarrow> pystr option \<Rightarrow> pystr \<times> pystr" where
  "get_safe_default gender s register =
     (case ps_safe_default s of
        Some p \<Rightarrow> p
      | None \<Rightarrow>
          (if is_classical_register register then
             (W_tai_ha, if or_empty gender = lit ''male'' then W_cac_ha
                        else if or_empty gender = lit ''female'' then W_co_nuong else W_cac_ha)
           else
             (W_toi, if or_empty gender = lit ''male'' then W_anh
                     else if or_empty gender = lit ''female'' then W_chi else W_ban)))"

section \<open>The decision for one pair\<close>

text \<open>A relationship event as the Bible carries it, with the terms a model may have suggested.\<close>

record relation_event =
  re_row :: relation_row
  re_self :: "pystr option"
  re_address :: "pystr option"

definition find_transition_for_pair :: "relation_event list \<Rightarrow> nat \<Rightarrow> nat \<Rightarrow> pystr \<Rightarrow> relation_event option" where
  "find_transition_for_pair es spk adr ep =
     find (\<lambda>e. rr_marker (re_row e) = ep
       \<and> (rr_a (re_row e) = spk \<and> rr_b (re_row e) = adr \<or> rr_a (re_row e) = adr \<and> rr_b (re_row e) = spk)) es"

definition has_terms :: "pair_row option \<Rightarrow> bool" where
  "has_terms p \<longleftrightarrow> (case p of None \<Rightarrow> False | Some r \<Rightarrow> truthy (pr_self r) \<and> truthy (pr_address r))"

definition terms_of :: "pair_row option \<Rightarrow> pystr \<times> pystr" where
  "terms_of p = (case p of None \<Rightarrow> ([], []) | Some r \<Rightarrow> (or_empty (pr_self r), or_empty (pr_address r)))"

definition terms_set :: "pair_row option \<Rightarrow> bool" where
  "terms_set p \<longleftrightarrow> (case p of None \<Rightarrow> False | Some r \<Rightarrow> pr_self r \<noteq> None \<and> pr_address r \<noteq> None)"

definition derive_transition_terms ::
  "relation_event \<Rightarrow> line_attribution list \<Rightarrow> pair_row option \<Rightarrow> pystr option \<Rightarrow> pronoun_settings \<Rightarrow> pystr option
     \<Rightarrow> pystr \<times> pystr" where
  "derive_transition_terms e survivors existing gender s register =
     (if truthy (re_self e) \<and> truthy (re_address e) then (or_empty (re_self e), or_empty (re_address e))
      else if survivors \<noteq> [] \<and> has_terms existing then terms_of existing
      else if has_terms existing then terms_of existing
      else get_safe_default gender s register)"

definition locked_terms :: "pair_row option \<Rightarrow> bool" where
  "locked_terms p \<longleftrightarrow> (case p of None \<Rightarrow> False
     | Some r \<Rightarrow> (F_SELF \<in> set (pr_locked r) \<or> F_ADDRESS \<in> set (pr_locked r)) \<and> terms_set (Some r))"

definition COLD_KEY :: pystr where
  "COLD_KEY = lit ''S00E00''"

text \<open>The terms of the pair, and the upsert asked for: whether there is one, and its \<open>valid_from\<close>.\<close>

record decision =
  dc_terms :: "pystr \<times> pystr"
  dc_upsert :: bool
  dc_since :: "pystr option"

definition genuine_evolution :: "pair_row option \<Rightarrow> pystr \<times> pystr \<Rightarrow> bool" where
  "genuine_evolution existing ts \<longleftrightarrow>
     \<not> (case existing of None \<Rightarrow> False | Some r \<Rightarrow> pr_self r = Some (fst ts) \<and> pr_address r = Some (snd ts))"

definition resolve_pair ::
  "pronoun_settings \<Rightarrow> pystr option \<Rightarrow> relation_event list \<Rightarrow> pystr \<Rightarrow> nat \<Rightarrow> nat \<Rightarrow> pystr option
     \<Rightarrow> line_attribution list \<Rightarrow> pair_row option \<Rightarrow> decision" where
  "resolve_pair s register events ep spk adr gender attributions existing =
     (if locked_terms existing then \<lparr>dc_terms = terms_of existing, dc_upsert = False, dc_since = None\<rparr>
      else
        let survivors = filter (\<lambda>a. threshold_value (ps_threshold s) \<le> confidence_value (la_confidence a)) attributions;
            transition = (if ps_relationship_events s \<and> ep \<noteq> COLD_KEY then find_transition_for_pair events spk adr ep else None)
        in case transition of
          Some e \<Rightarrow>
            (let ts = derive_transition_terms e survivors existing gender s register
             in \<lparr>dc_terms = ts, dc_upsert = True, dc_since = (if genuine_evolution existing ts then Some ep else None)\<rparr>)
        | None \<Rightarrow>
            (if survivors \<noteq> [] then
               \<lparr>dc_terms = (if terms_set existing then terms_of existing else get_safe_default gender s register),
                dc_upsert = True, dc_since = None\<rparr>
             else if terms_set existing then \<lparr>dc_terms = terms_of existing, dc_upsert = False, dc_since = None\<rparr>
             else \<lparr>dc_terms = get_safe_default gender s register, dc_upsert = False, dc_since = None\<rparr>))"

section \<open>The reconciliation of an episode\<close>

record bible_view =
  bv_characters :: "character_row list"
  bv_pairs :: "pair_row list"
  bv_events :: "relation_event list"
  bv_register :: "pystr option"

type_synonym char_pair = "nat \<times> nat"
type_synonym pronoun_map = "(char_pair \<times> (pystr \<times> pystr)) list"

definition pair_of :: "name_index \<Rightarrow> line_attribution \<Rightarrow> char_pair option" where
  "pair_of idx a =
     (if la_speaker a = None \<or> la_addressee a = None then None
      else case (resolve_char_id idx (la_speaker a), resolve_char_id idx (la_addressee a)) of
        (Some i, Some j) \<Rightarrow> Some (i, j)
      | _ \<Rightarrow> None)"

definition attributions_of :: "name_index \<Rightarrow> line_attribution list \<Rightarrow> char_pair \<Rightarrow> line_attribution list" where
  "attributions_of idx as p = filter (\<lambda>a. pair_of idx a = Some p) as"

definition existing_pair :: "pair_row list \<Rightarrow> char_pair \<Rightarrow> pair_row option" where
  "existing_pair ps p = map_of (rev (map (\<lambda>r. ((pr_speaker r, pr_addressee r), r)) ps)) p"

definition gender_of :: "character_row list \<Rightarrow> nat \<Rightarrow> pystr option" where
  "gender_of cs i = (case map_of (rev (map (\<lambda>c. (cr_id c, cr_gender c)) cs)) i of None \<Rightarrow> None | Some g \<Rightarrow> g)"

definition all_pairs :: "bible_view \<Rightarrow> line_attribution list \<Rightarrow> char_pair list" where
  "all_pairs b as =
     remdups (List.map_filter (pair_of (name_index (bv_characters b))) as
       @ map (\<lambda>r. (pr_speaker r, pr_addressee r)) (bv_pairs b))"

definition decide :: "pronoun_settings \<Rightarrow> bible_view \<Rightarrow> pystr \<Rightarrow> line_attribution list \<Rightarrow> char_pair \<Rightarrow> decision" where
  "decide s b ep as p =
     resolve_pair s (bv_register b) (bv_events b) ep (fst p) (snd p) (gender_of (bv_characters b) (snd p))
       (attributions_of (name_index (bv_characters b)) as p) (existing_pair (bv_pairs b) p)"

definition SRC_INFERENCE :: pystr where
  "SRC_INFERENCE = lit ''inference''"

text \<open>The two loops, each upsert a transaction of its own: an error carries the database of the upserts before it.\<close>

fun resolve_all ::
  "nat \<Rightarrow> pystr \<Rightarrow> (char_pair \<Rightarrow> decision) \<Rightarrow> char_pair list \<Rightarrow> bible_db \<Rightarrow> py_error \<times> bible_db + bible_db \<times> pronoun_map" where
  "resolve_all sid ep dcn [] db = Inr (db, [])"
| "resolve_all sid ep dcn (p # ps) db =
     (let d = dcn p in
      case (if dc_upsert d then
              (case upsert_address_pair sid (fst p) (snd p) (Some (fst (dc_terms d))) (Some (snd (dc_terms d))) (dc_since d)
                      (Some ep) SRC_INFERENCE db of
                 Inl e \<Rightarrow> Inl e | Inr (db', x) \<Rightarrow> Inr db')
            else Inr db) of
        Inl e \<Rightarrow> Inl (e, db)
      | Inr db' \<Rightarrow> (case resolve_all sid ep dcn ps db' of Inl e \<Rightarrow> Inl e | Inr (db'', m) \<Rightarrow> Inr (db'', (p, dc_terms d) # m)))"

definition reciprocal_additions :: "pronoun_map \<Rightarrow> pronoun_map" where
  "reciprocal_additions m =
     List.map_filter (\<lambda>((i, j), ts). case map_of KINSHIP_RECIPROCAL ts of
         None \<Rightarrow> None
       | Some r \<Rightarrow> (if map_of m (j, i) = None then Some ((j, i), r) else None)) m"

fun add_reciprocals :: "nat \<Rightarrow> pystr \<Rightarrow> pronoun_map \<Rightarrow> bible_db \<Rightarrow> py_error \<times> bible_db + bible_db" where
  "add_reciprocals sid ep [] db = Inr db"
| "add_reciprocals sid ep ((p, ts) # rs) db =
     (case upsert_address_pair sid (fst p) (snd p) (Some (fst ts)) (Some (snd ts)) None (Some ep) SRC_INFERENCE db of
        Inl e \<Rightarrow> Inl (e, db)
      | Inr (db', x) \<Rightarrow> add_reciprocals sid ep rs db')"

definition reconcile_attributions ::
  "(char_pair list \<Rightarrow> char_pair list) \<Rightarrow> pronoun_settings \<Rightarrow> bible_view \<Rightarrow> nat \<Rightarrow> pystr \<Rightarrow> line_attribution list \<Rightarrow> bible_db
     \<Rightarrow> py_error \<times> bible_db + bible_db \<times> pronoun_map" where
  "reconcile_attributions arrange s b sid ep as db =
     (case resolve_all sid ep (decide s b ep as) (arrange (all_pairs b as)) db of
        Inl e \<Rightarrow> Inl e
      | Inr (db1, m) \<Rightarrow>
          (let rs = reciprocal_additions m in
           case add_reciprocals sid ep rs db1 of Inl e \<Rightarrow> Inl e | Inr db2 \<Rightarrow> Inr (db2, m @ rs)))"

text \<open>What a loaded Bible shows: the rows carry no suggested terms.\<close>

definition view_of :: "series_bible \<Rightarrow> bible_view" where
  "view_of sb = \<lparr>bv_characters = sb_characters sb, bv_pairs = sb_pairs sb,
     bv_events = map (\<lambda>r. \<lparr>re_row = r, re_self = None, re_address = None\<rparr>) (sb_relations sb),
     bv_register = sr_register (sb_series sb)\<rparr>"


section \<open>What the loops compute\<close>

lemma resolve_all_map:
  "resolve_all sid ep dcn ps db = Inr (db', m) \<Longrightarrow> m = map (\<lambda>p. (p, dc_terms (dcn p))) ps"
proof (induction ps arbitrary: db m)
  case (Cons p ps)
  from Cons.prems obtain db1 m1 where "resolve_all sid ep dcn ps db1 = Inr (db', m1)" "m = (p, dc_terms (dcn p)) # m1"
    by (auto simp: Let_def split: sum.splits if_splits prod.splits)
  with Cons.IH show ?case by auto
qed simp

lemma map_of_keys: "map_of (map (\<lambda>p. (p, f p)) ps) p = (if p \<in> set ps then Some (f p) else None)"
  by (induction ps) auto

lemma pipeline_run_trans:
  "pipeline_run db_lower db1 db2 \<Longrightarrow> pipeline_run db_lower db db1 \<Longrightarrow> pipeline_run db_lower db db2"
  by (induction rule: pipeline_run.induct) (auto intro: pipeline_run.intros)

lemma pipeline_run_step: "bible_op db_lower False db db' \<Longrightarrow> pipeline_run db_lower db db'"
  by (rule pipeline_run.more[OF pipeline_run.stop])

lemma resolve_all_run: "resolve_all sid ep dcn ps db = Inr (db', m) \<Longrightarrow> pipeline_run db_lower db db'"
proof (induction ps arbitrary: db m)
  case (Cons p ps)
  let ?up = "if dc_upsert (dcn p) then
              (case upsert_address_pair sid (fst p) (snd p) (Some (fst (dc_terms (dcn p)))) (Some (snd (dc_terms (dcn p)))) (dc_since (dcn p))
                      (Some ep) SRC_INFERENCE db of
                 Inl e \<Rightarrow> Inl e | Inr (db', x) \<Rightarrow> Inr db')
            else Inr db"
  from Cons.prems obtain db1 m1 where u: "?up = Inr db1" and r: "resolve_all sid ep dcn ps db1 = Inr (db', m1)"
    by (auto simp: Let_def split: sum.splits prod.splits)
  have "pipeline_run db_lower db db1"
  proof (cases "dc_upsert (dcn p)")
    case True
    with u obtain x es where "upsert_address_pair sid (fst p) (snd p) (Some (fst (dc_terms (dcn p)))) (Some (snd (dc_terms (dcn p))))
        (dc_since (dcn p)) (Some ep) SRC_INFERENCE db = Inr (db1, x, es)"
      by (auto split: sum.splits)
    then show ?thesis by (intro pipeline_run_step bible_op.pair)
  next
    case False
    with u show ?thesis by (simp add: pipeline_run.stop)
  qed
  with Cons.IH[OF r] show ?case by (rule pipeline_run_trans)
qed (auto intro: pipeline_run.stop)

lemma add_reciprocals_run: "add_reciprocals sid ep rs db = Inr db' \<Longrightarrow> pipeline_run db_lower db db'"
proof (induction sid ep rs db rule: add_reciprocals.induct)
  case (2 sid ep p ts rs db)
  then obtain db1 x es where u: "upsert_address_pair sid (fst p) (snd p) (Some (fst ts)) (Some (snd ts)) None (Some ep) SRC_INFERENCE db
      = Inr (db1, x, es)" and r: "add_reciprocals sid ep rs db1 = Inr db'"
    by (auto split: sum.splits)
  from 2(1)[OF u refl r] pipeline_run_step[OF bible_op.pair[OF u]] show ?case by (rule pipeline_run_trans)
qed (auto intro: pipeline_run.stop)

definition swap_pair :: "char_pair \<Rightarrow> char_pair" where
  "swap_pair p = (snd p, fst p)"

lemma swap_swap [simp]: "swap_pair (swap_pair p) = p"
  by (simp add: swap_pair_def)

text \<open>The pair a reciprocal is added for is determined by it.\<close>

lemma reciprocal_lookup:
  assumes "distinct (map fst m)" and "map_of m p = None"
  shows "map_of (reciprocal_additions m) p =
    (case map_of m (swap_pair p) of None \<Rightarrow> None | Some ts \<Rightarrow> map_of KINSHIP_RECIPROCAL ts)"
proof -
  let ?f = "\<lambda>m ((i, j), ts). case map_of KINSHIP_RECIPROCAL ts of
         None \<Rightarrow> None
       | Some r \<Rightarrow> (if map_of m (j, i) = None then Some ((j, i), r) else None)"
  have "map_of (List.map_filter (?f m) xs) p =
      (case map_of xs (swap_pair p) of None \<Rightarrow> None | Some ts \<Rightarrow> map_of KINSHIP_RECIPROCAL ts)"
    if "distinct (map fst xs)" for xs
    using that
  proof (induction xs)
    case Nil
    then show ?case by (simp add: List.map_filter_def)
  next
    case (Cons x xs)
    obtain i j ts where x: "x = ((i, j), ts)" by (metis surj_pair)
    show ?case
    proof (cases "p = (j, i)")
      case True
      with x Cons assms(2) have n: "map_of xs (i, j) = None" by (auto simp: map_of_eq_None_iff)
      with Cons True have "map_of (List.map_filter (?f m) xs) p = None" by (simp add: swap_pair_def)
      with x True assms(2) show ?thesis
        by (auto simp: List.map_filter_simps swap_pair_def split: option.splits)
    next
      case False
      then have "swap_pair p \<noteq> (i, j)" by (auto simp: swap_pair_def)
      with Cons x False show ?thesis by (auto simp: List.map_filter_simps split: option.splits)
    qed
  qed
  from this[OF assms(1)] show ?thesis by (simp add: reciprocal_additions_def)
qed

section \<open>The specification of the result\<close>

definition reconciled :: "pronoun_settings \<Rightarrow> bible_view \<Rightarrow> pystr \<Rightarrow> line_attribution list \<Rightarrow> char_pair \<Rightarrow> (pystr \<times> pystr) option" where
  "reconciled s b ep as p =
     (if p \<in> set (all_pairs b as) then Some (dc_terms (decide s b ep as p))
      else if swap_pair p \<in> set (all_pairs b as) then map_of KINSHIP_RECIPROCAL (dc_terms (decide s b ep as (swap_pair p)))
      else None)"

definition rearranges :: "('a list \<Rightarrow> 'a list) \<Rightarrow> bool" where
  "rearranges f \<longleftrightarrow> (\<forall>xs. distinct xs \<longrightarrow> distinct (f xs) \<and> set (f xs) = set xs)"

lemma reconcile_lookup:
  assumes "reconcile_attributions arrange s b sid ep as db = Inr (db', m)" and "rearranges arrange"
  shows "map_of m p = reconciled s b ep as p"
proof -
  let ?ps = "arrange (all_pairs b as)"
  from assms(1) obtain db1 m1 where m1: "resolve_all sid ep (decide s b ep as) ?ps db = Inr (db1, m1)"
    and m: "m = m1 @ reciprocal_additions m1"
    by (auto simp: reconcile_attributions_def Let_def split: sum.splits)
  have "distinct (all_pairs b as)" by (simp add: all_pairs_def)
  with assms(2) have ps: "distinct ?ps" "set ?ps = set (all_pairs b as)" by (auto simp: rearranges_def)
  from resolve_all_map[OF m1] have m1': "m1 = map (\<lambda>p. (p, dc_terms (decide s b ep as p))) ?ps" .
  then have d: "distinct (map fst m1)" using ps(1) by (simp add: comp_def)
  have l: "map_of m1 q = (if q \<in> set (all_pairs b as) then Some (dc_terms (decide s b ep as q)) else None)" for q
    unfolding m1' map_of_keys ps(2) ..
  show ?thesis
  proof (cases "p \<in> set (all_pairs b as)")
    case True
    with l m show ?thesis by (simp add: reconciled_def map_add_Some_iff map_of_append)
  next
    case False
    with l have n: "map_of m1 p = None" by simp
    with m have "map_of m p = map_of (reciprocal_additions m1) p" by (simp add: map_add_def split: option.splits)
    with reciprocal_lookup[OF d n] l False show ?thesis by (simp add: reconciled_def)
  qed
qed

lemma reconcile_run:
  assumes "reconcile_attributions arrange s b sid ep as db = Inr (db', m)"
  shows "pipeline_run db_lower db db'"
proof -
  from assms obtain db1 m1 where "resolve_all sid ep (decide s b ep as) (arrange (all_pairs b as)) db = Inr (db1, m1)"
    "add_reciprocals sid ep (reciprocal_additions m1) db1 = Inr db'"
    by (auto simp: reconcile_attributions_def Let_def split: sum.splits)
  from pipeline_run_trans[OF add_reciprocals_run[OF this(2)] resolve_all_run[OF this(1)]] show ?thesis .
qed

lemma existing_in_all: "existing_pair (bv_pairs b) p = Some r \<Longrightarrow> p \<in> set (all_pairs b as)"
  by (auto simp: existing_pair_def all_pairs_def dest!: map_of_SomeD)

definition no_suggestions :: "bible_view \<Rightarrow> bool" where
  "no_suggestions b \<longleftrightarrow> (\<forall>e \<in> set (bv_events b). \<not> (truthy (re_self e) \<and> truthy (re_address e)))"

lemma view_no_suggestions [simp]: "no_suggestions (view_of sb)"
  by (auto simp: no_suggestions_def view_of_def)

lemma has_terms_set: "has_terms p \<Longrightarrow> terms_set p"
  by (auto simp: has_terms_def terms_set_def truthy_def split: option.splits)

lemma established_decision:
  assumes "no_suggestions b" and "has_terms (existing_pair (bv_pairs b) p)"
  shows "dc_terms (decide s b ep as p) = terms_of (existing_pair (bv_pairs b) p)"
proof -
  have t: "\<not> (truthy (re_self e) \<and> truthy (re_address e))"
    if "find_transition_for_pair (bv_events b) i j ep = Some e" for i j e
    using assms(1) that by (auto simp: no_suggestions_def find_transition_for_pair_def dest!: find_SomeD)
  show ?thesis
    using assms(2) has_terms_set[OF assms(2)] t
    by (auto simp: decide_def resolve_pair_def derive_transition_terms_def Let_def split: option.splits)
qed

lemma new_decision:
  assumes "no_suggestions b" and "\<not> terms_set (existing_pair (bv_pairs b) p)"
  shows "dc_terms (decide s b ep as p) = get_safe_default (gender_of (bv_characters b) (snd p)) s (bv_register b)"
proof -
  have t: "\<not> (truthy (re_self e) \<and> truthy (re_address e))"
    if "find_transition_for_pair (bv_events b) i j ep = Some e" for i j e
    using assms(1) that by (auto simp: no_suggestions_def find_transition_for_pair_def dest!: find_SomeD)
  have "\<not> locked_terms (existing_pair (bv_pairs b) p)" "\<not> has_terms (existing_pair (bv_pairs b) p)"
    using assms(2) has_terms_set by (auto simp: locked_terms_def split: option.splits)
  with assms(2) t show ?thesis
    by (auto simp: decide_def resolve_pair_def derive_transition_terms_def Let_def split: option.splits)
qed

lemma safe_default_words:
  assumes "ps_safe_default s = None"
  shows "fst (get_safe_default g s r) \<in> {W_toi, W_tai_ha} \<and> snd (get_safe_default g s r) \<in> {W_anh, W_chi, W_ban, W_cac_ha, W_co_nuong}"
  using assms by (auto simp: get_safe_default_def)


section \<open>A small Bible\<close>

definition mei :: character_row where
  "mei = \<lparr>cr_id = 8, cr_series = 1, cr_name = lit ''Mei'', cr_gender = Some (lit ''female''), cr_age = None, cr_role = None, cr_locked = []\<rparr>"

definition pair_78 :: pair_row where
  "pair_78 = \<lparr>pr_id = 1, pr_series = 1, pr_speaker = 7, pr_addressee = 8, pr_self = Some (lit ''aa''), pr_address = Some (lit ''bb''),
     pr_from = None, pr_locked = []\<rparr>"

definition confession :: relation_row where
  "confession = \<lparr>rr_id = 1, rr_series = 1, rr_a = 8, rr_b = 7, rr_marker = lit ''S01E02'', rr_description = None\<rparr>"

definition zhou_mei_db :: bible_db where
  "zhou_mei_db = (empty_bible False)\<lparr>db_series := [sample_series], db_characters := [zhou, mei], db_pairs := [pair_78], db_relations := [confession]\<rparr>"

definition zhou_mei_bible :: series_bible where
  "zhou_mei_bible = \<lparr>sb_series = sample_series, sb_characters = [zhou, mei], sb_terms = [], sb_pairs = [pair_78],
     sb_relations = [confession], sb_langs = None, sb_model = None\<rparr>"

definition modern :: pronoun_settings where
  "modern = \<lparr>ps_threshold = lit ''medium'', ps_safe_default = None, ps_relationship_events = True\<rparr>"

definition zhou_to_mei :: "line_attribution list" where
  "zhou_to_mei = [\<lparr>la_index = 1, la_speaker = Some (lit ''Zhou''), la_addressee = Some (lit ''Mei''), la_confidence = High\<rparr>]"

lemmas reconcile_samples = mei_def zhou_def pair_78_def confession_def modern_def zhou_to_mei_def sample_series_def
  zhou_mei_bible_def zhou_mei_db_def

lemma zhou_mei_index: "resolve_char_id (name_index [zhou, mei]) (Some (lit ''Zhou'')) = Some 7"
  "resolve_char_id (name_index [zhou, mei]) (Some (lit ''Mei'')) = Some 8"
  by (simp_all add: resolve_char_id_def index_get_def name_index_def zhou_def mei_def name_eval)

lemma zhou_mei_pairs: "all_pairs (view_of zhou_mei_bible) zhou_to_mei = [(7, 8)]"
  by (simp add: all_pairs_def view_of_def zhou_mei_bible_def zhou_to_mei_def pair_of_def zhou_mei_index pair_78_def List.map_filter_simps)

lemma zhou_mei_existing: "existing_pair (bv_pairs (view_of zhou_mei_bible)) (7, 8) = Some pair_78"
  by (simp add: existing_pair_def view_of_def zhou_mei_bible_def pair_78_def)

lemma zhou_mei_decision: "decide modern (view_of zhou_mei_bible) (lit ''S01E02'') zhou_to_mei (7, 8) =
    \<lparr>dc_terms = (lit ''aa'', lit ''bb''), dc_upsert = True, dc_since = None\<rparr>"
  unfolding decide_def zhou_mei_existing
  by (simp add: resolve_pair_def view_of_def zhou_mei_bible_def locked_terms_def pair_78_def COLD_KEY_def find_transition_for_pair_def
      confession_def modern_def derive_transition_terms_def has_terms_def terms_of_def genuine_evolution_def Let_def lit_def)

lemma zhou_mei_upsert: "upsert_address_pair 1 7 8 (Some (lit ''aa'')) (Some (lit ''bb'')) None (Some (lit ''S01E02'')) SRC_INFERENCE zhou_mei_db
    = Inr (zhou_mei_db, pair_78, [])"
  by (simp add: upsert_address_pair_def zhou_mei_db_def pair_78_def bible_eval pair_table_def empty_bible_def zhou_def mei_def sample_series_def)

lemma zhou_mei_reconciled:
  "reconcile_attributions (\<lambda>xs. xs) modern (view_of zhou_mei_bible) 1 (lit ''S01E02'') zhou_to_mei zhou_mei_db =
     Inr (zhou_mei_db, [((7, 8), (lit ''aa'', lit ''bb''))])"
proof -
  have "map_of KINSHIP_RECIPROCAL (lit ''aa'', lit ''bb'') = None"
    by (simp add: KINSHIP_RECIPROCAL_def word_defs lit_def)
  then have "reciprocal_additions [((7, 8), (lit ''aa'', lit ''bb''))] = []"
    by (simp add: reciprocal_additions_def List.map_filter_simps)
  then show ?thesis
    using zhou_mei_upsert[unfolded One_nat_def]
    by (simp add: reconcile_attributions_def zhou_mei_pairs zhou_mei_decision)
qed

lemma rearranges_id: "rearranges (\<lambda>xs. xs)"
  by (simp add: rearranges_def)

section \<open>Properties\<close>



text \<open>
  A pair of terms a person locked is the one the translation uses, whatever was attributed and
  whatever events the Bible holds.
\<close>

theorem locked_pair_wins:
  assumes "reconcile_attributions arrange s b sid ep as db = Inr (db', m)" and "rearranges arrange"
    and "locked_terms (existing_pair (bv_pairs b) p)"
  shows "map_of m p = Some (terms_of (existing_pair (bv_pairs b) p))"
proof -
  from assms(3) obtain r where "existing_pair (bv_pairs b) p = Some r" by (auto simp: locked_terms_def split: option.splits)
  with existing_in_all reconcile_lookup[OF assms(1,2), of p] assms(3) show ?thesis
    by (simp add: reconciled_def decide_def resolve_pair_def)
qed

definition locked_bible :: series_bible where
  "locked_bible = zhou_mei_bible\<lparr>sb_pairs := [pair_78\<lparr>pr_locked := [F_SELF]\<rparr>]\<rparr>"

theorem locked_pair_wins_witness:
  "\<exists>m. reconcile_attributions (\<lambda>xs. xs) modern (view_of locked_bible) 1 (lit ''S01E02'') [] zhou_mei_db = Inr (zhou_mei_db, m)
     \<and> map_of m (7, 8) = Some (lit ''aa'', lit ''bb'')"
proof -
  have e: "existing_pair (bv_pairs (view_of locked_bible)) (7, 8) = Some (pair_78\<lparr>pr_locked := [F_SELF]\<rparr>)"
    by (simp add: existing_pair_def view_of_def locked_bible_def zhou_mei_bible_def pair_78_def)
  then have l: "locked_terms (existing_pair (bv_pairs (view_of locked_bible)) (7, 8))"
    by (simp add: locked_terms_def terms_set_def pair_78_def)
  have a: "all_pairs (view_of locked_bible) [] = [(7, 8)]"
    by (simp add: all_pairs_def view_of_def locked_bible_def pair_78_def List.map_filter_simps)
  have k: "map_of KINSHIP_RECIPROCAL (lit ''aa'', lit ''bb'') = None"
    by (simp add: KINSHIP_RECIPROCAL_def word_defs lit_def)
  have d: "decide modern (view_of locked_bible) (lit ''S01E02'') [] (7, 8) =
      \<lparr>dc_terms = (lit ''aa'', lit ''bb''), dc_upsert = False, dc_since = None\<rparr>"
    using l unfolding decide_def resolve_pair_def e by (simp add: terms_of_def pair_78_def)
  have "reconcile_attributions (\<lambda>xs. xs) modern (view_of locked_bible) 1 (lit ''S01E02'') [] zhou_mei_db =
      Inr (zhou_mei_db, [((7, 8), (lit ''aa'', lit ''bb''))])"
    using k by (simp add: reconcile_attributions_def a d reciprocal_additions_def List.map_filter_simps)
  from locked_pair_wins[OF this rearranges_id l] this show ?thesis
    by (auto simp: e terms_of_def pair_78_def)
qed

text \<open>
  A pair with terms keeps them: for a Bible loaded from the store no attribution and no
  relationship event ever changes the terms of an established pair, since the terms a model
  suggested with an event are not stored and are gone when the Bible is loaded again.
\<close>

theorem established_pair_never_changes:
  assumes "reconcile_attributions arrange s (view_of sb) sid ep as db = Inr (db', m)" and "rearranges arrange"
    and "existing_pair (sb_pairs sb) p = Some r" and "pr_self r = Some t" and "pr_address r = Some u" and "t \<noteq> []" and "u \<noteq> []"
  shows "map_of m p = Some (t, u)"
proof -
  have e: "existing_pair (bv_pairs (view_of sb)) p = Some r" using assms(3) by (simp add: view_of_def)
  with assms(4-7) have "has_terms (existing_pair (bv_pairs (view_of sb)) p)" by (simp add: has_terms_def)
  from established_decision[OF view_no_suggestions this] e existing_in_all[OF e] assms(4,5) reconcile_lookup[OF assms(1,2), of p]
  show ?thesis by (simp add: reconciled_def terms_of_def)
qed

theorem established_pair_never_changes_witness:
  "find_transition_for_pair (bv_events (view_of zhou_mei_bible)) 7 8 (lit ''S01E02'') \<noteq> None
   \<and> map_of [((7 :: nat, 8 :: nat), (lit ''aa'', lit ''bb''))] (7, 8) = Some (lit ''aa'', lit ''bb'')"
proof
  show "find_transition_for_pair (bv_events (view_of zhou_mei_bible)) 7 8 (lit ''S01E02'') \<noteq> None"
    by (simp add: find_transition_for_pair_def view_of_def zhou_mei_bible_def confession_def)
  show "map_of [((7 :: nat, 8 :: nat), (lit ''aa'', lit ''bb''))] (7, 8) = Some (lit ''aa'', lit ''bb'')"
    by (rule established_pair_never_changes[OF zhou_mei_reconciled rearranges_id, of "(7, 8)" pair_78])
      (simp_all add: existing_pair_def zhou_mei_bible_def pair_78_def lit_def)
qed

text \<open>
  A new pair gets the safe default for the gender of the addressee and the register of the
  series: never an intimate or a superior term, unless the operator configured one.
\<close>

theorem new_pair_gets_safe_default:
  assumes "reconcile_attributions arrange s (view_of sb) sid ep as db = Inr (db', m)" and "rearranges arrange"
    and "p \<in> set (all_pairs (view_of sb) as)" and "existing_pair (sb_pairs sb) p = None" and "ps_safe_default s = None"
  shows "map_of m p = Some (get_safe_default (gender_of (sb_characters sb) (snd p)) s (sr_register (sb_series sb)))
    \<and> (\<exists>t u. map_of m p = Some (t, u) \<and> t \<in> {W_toi, W_tai_ha} \<and> u \<in> {W_anh, W_chi, W_ban, W_cac_ha, W_co_nuong})"
proof -
  have "\<not> terms_set (existing_pair (bv_pairs (view_of sb)) p)" using assms(4) by (simp add: view_of_def terms_set_def)
  from new_decision[OF view_no_suggestions this] reconcile_lookup[OF assms(1,2), of p] assms(3)
  have "map_of m p = Some (get_safe_default (gender_of (sb_characters sb) (snd p)) s (sr_register (sb_series sb)))"
    by (simp add: reconciled_def view_of_def)
  with safe_default_words[OF assms(5), of "gender_of (sb_characters sb) (snd p)" "sr_register (sb_series sb)"] show ?thesis
    by (metis prod.collapse)
qed

text \<open>A speaker the series has never heard of addressing Mei, under a classical register.\<close>

definition new_bible :: series_bible where
  "new_bible = zhou_mei_bible\<lparr>sb_series := sample_series\<lparr>sr_register := Some (lit ''xianxia'')\<rparr>, sb_pairs := []\<rparr>"

definition zhou_mumbles :: "line_attribution list" where
  "zhou_mumbles = [\<lparr>la_index = 1, la_speaker = Some (lit ''Zhou''), la_addressee = Some (lit ''Mei''), la_confidence = Low\<rparr>]"

lemma xianxia_classical: "is_classical_register (Some (lit ''xianxia''))"
proof -
  have "contains (lit ''xianxia'') (lower (lit ''xianxia''))"
    by (simp add: contains_def lower_def ascii_eval lit_def)
  then show ?thesis by (auto simp: is_classical_register_def CLASSICAL_REGISTER_TOKENS_def lit_def)
qed

lemma new_pair_default:
  "get_safe_default (gender_of (sb_characters new_bible) 8) modern (sr_register (sb_series new_bible)) = (W_tai_ha, W_co_nuong)"
  using xianxia_classical
  by (simp add: get_safe_default_def modern_def new_bible_def zhou_mei_bible_def gender_of_def zhou_def mei_def lit_def)

lemma new_pair_reconciled:
  "reconcile_attributions (\<lambda>xs. xs) modern (view_of new_bible) 3 (lit ''S00E00'') zhou_mumbles db = Inr (db, [((7, 8), (W_tai_ha, W_co_nuong))])"
proof -
  have a: "all_pairs (view_of new_bible) zhou_mumbles = [(7, 8)]"
    by (simp add: all_pairs_def view_of_def new_bible_def zhou_mei_bible_def zhou_mumbles_def pair_of_def zhou_mei_index List.map_filter_simps)
  have d: "decide modern (view_of new_bible) (lit ''S00E00'') zhou_mumbles (7, 8) =
      \<lparr>dc_terms = (W_tai_ha, W_co_nuong), dc_upsert = False, dc_since = None\<rparr>"
  proof -
    have n: "existing_pair (bv_pairs (view_of new_bible)) (7, 8) = None"
      by (simp add: existing_pair_def view_of_def new_bible_def)
    have v: "bv_characters (view_of new_bible) = sb_characters new_bible" "bv_register (view_of new_bible) = sr_register (sb_series new_bible)"
      by (simp_all add: view_of_def)
    have t: "attributions_of (name_index (sb_characters new_bible)) zhou_mumbles (7, 8) = zhou_mumbles"
      by (simp add: attributions_of_def zhou_mumbles_def pair_of_def new_bible_def zhou_mei_bible_def zhou_mei_index)
    have th: "threshold_value (ps_threshold modern) = 2"
      by (simp add: threshold_value_def modern_def lower_def ascii_eval lit_def)
    show ?thesis
      unfolding decide_def n v t fst_conv snd_conv using new_pair_default th
      by (simp add: resolve_pair_def locked_terms_def terms_set_def COLD_KEY_def zhou_mumbles_def)
  qed
  have "map_of KINSHIP_RECIPROCAL (W_tai_ha, W_co_nuong) = None"
    by (simp add: KINSHIP_RECIPROCAL_def word_defs)
  then show ?thesis
    by (simp add: reconcile_attributions_def a d reciprocal_additions_def List.map_filter_simps)
qed

theorem new_pair_gets_safe_default_witness: "\<exists>t u. (W_tai_ha, W_co_nuong) = (t, u) \<and> t \<in> {W_toi, W_tai_ha}"
proof -
  have "(7, 8) \<in> set (all_pairs (view_of new_bible) zhou_mumbles)"
    by (simp add: all_pairs_def view_of_def new_bible_def zhou_mei_bible_def zhou_mumbles_def pair_of_def zhou_mei_index List.map_filter_simps)
  moreover have "existing_pair (sb_pairs new_bible) (7, 8) = None" by (simp add: existing_pair_def new_bible_def)
  moreover have "ps_safe_default modern = None" by (simp add: modern_def)
  ultimately have "\<exists>t u. map_of [((7 :: nat, 8 :: nat), (W_tai_ha, W_co_nuong))] (7, 8) = Some (t, u) \<and> t \<in> {W_toi, W_tai_ha}"
    using new_pair_gets_safe_default[OF new_pair_reconciled[of zhou_mei_db] rearranges_id] by blast
  then show ?thesis by simp
qed

text \<open>
  Reconciliation writes to the Bible only through upserts of the pipeline, so a field a person
  locked keeps its value and its lock.
\<close>

lemma reconcile_respects_locks:
  assumes "bible_reach db_lower db" and "reconcile_attributions arrange s b sid ep as db = Inr (db', m)"
    and "f \<in> set (bible_locks e db i)"
  shows "bible_locks e db' i = bible_locks e db i \<and> bible_value e db' i f = bible_value e db i f"
  by (rule run_locked[OF reconcile_run[OF assms(2)] assms(1,3)])

end
