(* ===== verification/Analysis_Laws.thy ===== *)
theory Analysis_Laws
  imports Analysis Reconcile
begin

text \<open>
  The guarantees of the first pass: what the chunks say is in the merged analysis, once; writing
  the analysis to the Bible is a run of the store's operations that locks nothing and overwrites
  nothing of what was there, neither a locked field nor an address pair.
\<close>

section \<open>Merging the chunks\<close>

text \<open>What is said about a character is said by the one that replaces it, and likewise for a list.\<close>

definition informs :: "pystr option \<Rightarrow> pystr option \<Rightarrow> bool" where
  "informs new old \<longleftrightarrow> (truthy old \<longrightarrow> truthy new)"

definition covers :: "character_inference \<Rightarrow> character_inference \<Rightarrow> bool" where
  "covers d c \<longleftrightarrow> exact_key (ci_name d) = exact_key (ci_name c) \<and> informs (ci_gender d) (ci_gender c)
     \<and> informs (ci_age d) (ci_age c) \<and> informs (ci_role d) (ci_role c) \<and> informs (ci_script d) (ci_script c)
     \<and> informs (ci_rendering d) (ci_rendering c)"

definition covers_all :: "character_inference list \<Rightarrow> character_inference list \<Rightarrow> bool" where
  "covers_all ds cs \<longleftrightarrow> (\<forall>c \<in> set cs. exact_key (ci_name c) \<noteq> [] \<longrightarrow> (\<exists>d \<in> set ds. covers d c))"

lemma covers_refl [simp]: "covers c c"
  by (simp add: covers_def informs_def)

lemma covers_trans: "covers e d \<Longrightarrow> covers d c \<Longrightarrow> covers e c"
  by (simp add: covers_def informs_def)

lemma covers_allI: "(\<And>c. c \<in> set cs \<Longrightarrow> \<exists>d \<in> set ds. covers d c) \<Longrightarrow> covers_all ds cs"
  by (simp add: covers_all_def)

lemma covers_all_refl [simp]: "covers_all cs cs"
  unfolding covers_all_def using covers_refl by blast

lemma covers_all_trans: "covers_all es ds \<Longrightarrow> covers_all ds cs \<Longrightarrow> covers_all es cs"
  unfolding covers_all_def using covers_trans by (metis (no_types, lifting) covers_def)

lemma covers_all_Cons: "covers_all ds (c # cs) \<longleftrightarrow> covers_all ds [c] \<and> covers_all ds cs"
  by (simp add: covers_all_def)

lemma fill_informs: "informs (fill kept new) kept" "informs (fill kept new) new"
  by (simp_all add: informs_def fill_def)

lemma fill_covers: "covers (fill_character d c) d"
    "exact_key (ci_name d) = exact_key (ci_name c) \<Longrightarrow> covers (fill_character d c) c"
  by (simp_all add: covers_def fill_character_def fill_informs)

lemma fill_name [simp]: "ci_name (fill_character d c) = ci_name d"
  by (simp add: fill_character_def)

lemma add_character_known:
  "exact_key (ci_name c) \<noteq> [] \<Longrightarrow> exact_key (ci_name c) \<in> (\<lambda>d. exact_key (ci_name d)) ` set cs \<Longrightarrow>
   add_character cs c = map (\<lambda>d. if exact_key (ci_name d) = exact_key (ci_name c) then fill_character d c else d) cs"
  by (simp add: add_character_def Let_def)

lemma add_character_new:
  "exact_key (ci_name c) \<notin> (\<lambda>d. exact_key (ci_name d)) ` set cs \<Longrightarrow>
   add_character cs c = (if exact_key (ci_name c) = [] then cs else cs @ [c])"
  by (simp add: add_character_def Let_def)

lemma add_character_cases:
  obtains (blank) "exact_key (ci_name c) = []" "add_character cs c = cs"
  | (new) "add_character cs c = cs @ [c]" "exact_key (ci_name c) \<notin> (\<lambda>d. exact_key (ci_name d)) ` set cs"
  | (known) d where "d \<in> set cs" "exact_key (ci_name d) = exact_key (ci_name c)"
      "add_character cs c = map (\<lambda>d. if exact_key (ci_name d) = exact_key (ci_name c) then fill_character d c else d) cs"
proof (cases "exact_key (ci_name c) \<noteq> [] \<and> exact_key (ci_name c) \<in> (\<lambda>d. exact_key (ci_name d)) ` set cs")
  case True
  then obtain d where "d \<in> set cs" "exact_key (ci_name d) = exact_key (ci_name c)" by auto
  with True known add_character_known show thesis by blast
next
  case False
  then show thesis using blank new add_character_new[of c cs] by (cases "exact_key (ci_name c) = []") (auto simp: add_character_def)
qed

lemma add_character_covers: "covers_all (add_character cs c) cs" "covers_all (add_character cs c) [c]"
proof -
  have "covers_all (add_character cs c) cs \<and> covers_all (add_character cs c) [c]"
  proof (cases rule: add_character_cases[of c cs])
    case blank
    have "covers_all cs [c]" using blank(1) by (simp add: covers_all_def)
    then show ?thesis unfolding blank(2) by simp
  next
    case new
    then show ?thesis by (auto intro!: covers_allI intro: bexI[where P = "\<lambda>d. covers d _", OF covers_refl])
  next
    case (known d)
    let ?f = "\<lambda>d. if exact_key (ci_name d) = exact_key (ci_name c) then fill_character d c else d"
    have f: "?f x \<in> set (map ?f cs)" if "x \<in> set cs" for x using that by simp
    have "covers (?f x) x" for x by (simp add: fill_covers)
    with f have "covers_all (map ?f cs) cs" by (blast intro!: covers_allI)
    moreover have "covers (?f d) c" using known(2) by (simp add: fill_covers)
    with f[OF known(1)] have "covers_all (map ?f cs) [c]" unfolding covers_all_def by auto
    ultimately show ?thesis unfolding known(3) by blast
  qed
  then show "covers_all (add_character cs c) cs" "covers_all (add_character cs c) [c]" by auto
qed

lemma add_character_distinct:
  assumes "distinct (map (\<lambda>c. exact_key (ci_name c)) cs)"
  shows "distinct (map (\<lambda>c. exact_key (ci_name c)) (add_character cs c))"
proof (cases rule: add_character_cases[of c cs])
  case (known d)
  have "(\<lambda>d. exact_key (ci_name (if exact_key (ci_name d) = exact_key (ci_name c) then fill_character d c else d)))
      = (\<lambda>d. exact_key (ci_name d))" by auto
  with assms show ?thesis unfolding known(3) by (simp add: comp_def)
qed (use assms in auto)

lemma characters_merged:
  "covers_all (foldl add_character cs xs) cs \<and> covers_all (foldl add_character cs xs) xs
   \<and> (distinct (map (\<lambda>c. exact_key (ci_name c)) cs) \<longrightarrow> distinct (map (\<lambda>c. exact_key (ci_name c)) (foldl add_character cs xs)))"
proof (induction xs arbitrary: cs)
  case (Cons x xs)
  from Cons.IH[of "add_character cs x"] show ?case
    using covers_all_trans add_character_covers[of cs x] add_character_distinct[of cs x]
    unfolding covers_all_Cons[of _ x xs] foldl_Cons by blast
qed (simp add: covers_all_def)

lemma first_merged:
  "key ` set (foldl (add_first key ok) xs ys) = key ` set xs \<union> key ` {y \<in> set ys. ok y}
   \<and> (distinct (map key xs) \<longrightarrow> distinct (map key (foldl (add_first key ok) xs ys)))
   \<and> (\<exists>zs. foldl (add_first key ok) xs ys = xs @ zs)"
proof (induction ys arbitrary: xs)
  case (Cons y ys)
  show ?case
  proof (cases "ok y \<and> key y \<notin> key ` set xs")
    case True
    with Cons.IH[of "xs @ [y]"] show ?thesis by (auto simp: add_first_def)
  next
    case False
    with Cons.IH[of xs] show ?thesis by (auto simp: add_first_def)
  qed
qed simp

text \<open>No entry of an analysis is there twice.\<close>

definition no_doubles :: "bible_analysis \<Rightarrow> bool" where
  "no_doubles a \<longleftrightarrow> distinct (map (\<lambda>c. exact_key (ci_name c)) (ba_characters a)) \<and> distinct (map term_key (ba_terms a))
     \<and> distinct (map pair_key (ba_pairs a)) \<and> distinct (map event_key (ba_events a))"

text \<open>What one analysis says is in another.\<close>

definition contains_part :: "bible_analysis \<Rightarrow> bible_analysis \<Rightarrow> bool" where
  "contains_part a part \<longleftrightarrow> covers_all (ba_characters a) (ba_characters part)
     \<and> term_key ` set (ba_terms part) - {[]} \<subseteq> term_key ` set (ba_terms a)
     \<and> pair_key ` set (ba_pairs part) \<subseteq> pair_key ` set (ba_pairs a)
     \<and> event_key ` set (ba_events part) \<subseteq> event_key ` set (ba_events a)
     \<and> (stripped (ba_register part) \<noteq> [] \<longrightarrow> stripped (ba_register a) \<noteq> [])"

lemma contains_refl [simp]: "contains_part a a"
  by (auto simp: contains_part_def)

lemma contains_partD:
  assumes "contains_part a part"
  shows "covers_all (ba_characters a) (ba_characters part)"
    "term_key ` set (ba_terms part) - {[]} \<subseteq> term_key ` set (ba_terms a)"
    "pair_key ` set (ba_pairs part) \<subseteq> pair_key ` set (ba_pairs a)"
    "event_key ` set (ba_events part) \<subseteq> event_key ` set (ba_events a)"
    "stripped (ba_register part) \<noteq> [] \<Longrightarrow> stripped (ba_register a) \<noteq> []"
  using assms unfolding contains_part_def by iprover+

lemma contains_trans: "contains_part c b \<Longrightarrow> contains_part b a \<Longrightarrow> contains_part c a"
proof -
  assume cb: "contains_part c b" and ba: "contains_part b a"
  note c = contains_partD[OF cb] and b = contains_partD[OF ba]
  have "term_key ` set (ba_terms a) - {[]} \<subseteq> term_key ` set (ba_terms b) - {[]}"
    using b(2) by (rule Diff_mono[OF _ order_refl, of "term_key ` set (ba_terms a) - {[]}" _ "{[]}", simplified Diff_idemp])
  from order_trans[OF this c(2)] show ?thesis
    unfolding contains_part_def
    by (intro conjI impI covers_all_trans[OF c(1) b(1)] subset_trans[OF b(3) c(3)] subset_trans[OF b(4) c(4)] c(5) b(5))
qed

lemma image_nonblank: "f ` {x \<in> A. f x \<noteq> []} = f ` A - {[]}"
  by auto

lemma merge_keys:
  "term_key ` set (ba_terms (merge_part a part)) = term_key ` set (ba_terms a) \<union> (term_key ` set (ba_terms part) - {[]})"
  "pair_key ` set (ba_pairs (merge_part a part)) = pair_key ` set (ba_pairs a) \<union> pair_key ` set (ba_pairs part)"
  "event_key ` set (ba_events (merge_part a part)) = event_key ` set (ba_events a) \<union> event_key ` set (ba_events part)"
proof -
  note keys = first_merged[THEN conjunct1]
  show "term_key ` set (ba_terms (merge_part a part)) = term_key ` set (ba_terms a) \<union> (term_key ` set (ba_terms part) - {[]})"
    unfolding merge_part_def bible_analysis.simps keys image_nonblank by (rule refl)
  show "pair_key ` set (ba_pairs (merge_part a part)) = pair_key ` set (ba_pairs a) \<union> pair_key ` set (ba_pairs part)"
    using keys[of pair_key "\<lambda>p. True"] unfolding merge_part_def bible_analysis.simps by simp
  show "event_key ` set (ba_events (merge_part a part)) = event_key ` set (ba_events a) \<union> event_key ` set (ba_events part)"
    using keys[of event_key "\<lambda>p. True"] unfolding merge_part_def bible_analysis.simps by simp
qed

lemma merge_contains: "contains_part (merge_part a part) a" "contains_part (merge_part a part) part"
proof -
  have c: "covers_all (ba_characters (merge_part a part)) (ba_characters a)"
    "covers_all (ba_characters (merge_part a part)) (ba_characters part)"
    using characters_merged[of "ba_characters a" "ba_characters part"] by (simp_all add: merge_part_def)
  have r: "stripped (ba_register (merge_part a part)) \<noteq> [] \<longleftrightarrow> stripped (ba_register a) \<noteq> [] \<or> stripped (ba_register part) \<noteq> []"
    by (simp add: merge_part_def stripped_def)
  show "contains_part (merge_part a part) a" "contains_part (merge_part a part) part"
    unfolding contains_part_def merge_keys using c r by (intro conjI; blast)+
qed

lemma merge_no_doubles: "no_doubles a \<Longrightarrow> no_doubles (merge_part a part)"
  unfolding no_doubles_def merge_part_def bible_analysis.simps
  by (intro conjI; elim conjE; rule characters_merged[THEN conjunct2, THEN conjunct2, THEN mp]
      first_merged[THEN conjunct2, THEN conjunct1, THEN mp]; assumption)

text \<open>The answers to the chunks, numbered from \<open>k\<close>.\<close>

definition answers :: "(nat \<Rightarrow> pystr list \<Rightarrow> 'e + bible_analysis option) \<Rightarrow> nat \<Rightarrow> pystr list list \<Rightarrow> bible_analysis option list" where
  "answers reply k cs = List.map_filter (\<lambda>(i, c). if c = [] then None
     else case reply i c of Inl e \<Rightarrow> None | Inr r \<Rightarrow> Some r) (enumerate k cs)"

lemma answers_Cons: "answers reply k (c # cs) = (if c = [] then [] else case reply k c of Inl e \<Rightarrow> [] | Inr r \<Rightarrow> [r]) @ answers reply (Suc k) cs"
  by (simp add: answers_def List.map_filter_simps split: sum.splits)

lemma analyze_chunks_result:
  "analyze_chunks reply k cs merged fails = Inr (a, n) \<Longrightarrow>
   a = foldl merge_part merged (List.map_filter id (answers reply k cs))
   \<and> n = fails + length (filter (\<lambda>r. r = None) (answers reply k cs))
   \<and> length (answers reply k cs) = length (filter (\<lambda>c. c \<noteq> []) cs)"
proof (induction reply k cs merged fails rule: analyze_chunks.induct)
  case (2 reply k c cs merged fails)
  then show ?case by (auto simp: answers_Cons List.map_filter_simps split: if_splits sum.splits option.splits)
qed (simp add: answers_def List.map_filter_simps)

lemma merged_parts:
  "contains_part (foldl merge_part m ps) m \<and> (\<forall>p \<in> set ps. contains_part (foldl merge_part m ps) p)
   \<and> (no_doubles m \<longrightarrow> no_doubles (foldl merge_part m ps))"
proof (induction ps arbitrary: m)
  case (Cons p ps)
  from Cons.IH[of "merge_part m p"] show ?case
    using contains_trans merge_contains[of m p] merge_no_doubles[of m p] unfolding foldl_Cons by auto
qed simp

text \<open>What the merged analysis holds of the answered chunks.\<close>

definition script_texts :: "sub_doc \<Rightarrow> pystr list" where
  "script_texts src = filter (\<lambda>t. strip t \<noteq> []) (map sl_text (doc_lines src))"

lemma analyze_file_eq:
  "analyze_file True False limit rp reply ep src =
     (case analyze_chunks reply 0 (analysis_chunks limit (script_texts src)) no_analysis 0 of
        Inl e \<Rightarrow> AnalysisRaise e
      | Inr (merged, fails) \<Rightarrow>
          (let n = length (filter (\<lambda>c. c \<noteq> []) (analysis_chunks limit (script_texts src)))
           in if n > 0 \<and> fails = n then AnalysisError (parse_failed_text rp fails ep) else Analyzed merged))"
  unfolding analyze_file_def script_texts_def Let_def by simp

lemma concat_chunks: "n \<noteq> 0 \<Longrightarrow> concat (chunks_of n xs) = xs \<and> (\<forall>c \<in> set (chunks_of n xs). c \<noteq> [] \<and> length c \<le> n)"
proof (induction n xs rule: chunks_of.induct)
  case (1 n xs)
  show ?case
  proof (cases "xs = []")
    case False
    with 1 have "chunks_of n xs = take n xs # chunks_of n (drop n xs)" by (subst chunks_of.simps) simp
    with 1 False show ?thesis by simp
  qed (simp add: chunks_of.simps)
qed

lemma chunks_partition:
  "concat (analysis_chunks limit texts) = texts
   \<and> (limit > 0 \<longrightarrow> (\<forall>c \<in> set (analysis_chunks limit texts). length c \<le> nat limit))"
  using concat_chunks[of "nat limit" texts] by (auto simp: analysis_chunks_def Let_def)

lemma answers_at:
  "i < length cs \<Longrightarrow> cs ! i \<noteq> [] \<Longrightarrow> reply (k + i) (cs ! i) = Inr r \<Longrightarrow> r \<in> set (answers reply k cs)"
proof (induction cs arbitrary: k i)
  case (Cons c cs)
  then show ?case
  proof (cases i)
    case (Suc j)
    with Cons.IH[of j "Suc k"] Cons.prems show ?thesis by (simp add: answers_Cons)
  qed (simp add: answers_Cons)
qed simp

lemma map_filter_id: "Some p \<in> set rs \<Longrightarrow> p \<in> set (List.map_filter id rs)"
  by (induction rs) (auto simp: List.map_filter_simps split: option.splits)

lemma analyzed_parts:
  assumes "analyze_file True False limit rp reply ep src = Analyzed a"
  shows "no_doubles a \<and> (\<forall>i part. i < length (analysis_chunks limit (script_texts src))
    \<and> analysis_chunks limit (script_texts src) ! i \<noteq> []
    \<and> reply i (analysis_chunks limit (script_texts src) ! i) = Inr (Some part) \<longrightarrow> contains_part a part)"
proof -
  let ?cs = "analysis_chunks limit (script_texts src)"
  obtain n where "analyze_chunks reply 0 ?cs no_analysis 0 = Inr (a, n)"
    using assms by (auto simp: analyze_file_eq Let_def split: sum.splits if_splits)
  from analyze_chunks_result[OF this] have a: "a = foldl merge_part no_analysis (List.map_filter id (answers reply 0 ?cs))" by blast
  have "no_doubles no_analysis" by (simp add: no_doubles_def no_analysis_def)
  moreover have "contains_part a part" if "i < length ?cs" "?cs ! i \<noteq> []" "reply i (?cs ! i) = Inr (Some part)" for i part
    using answers_at[of i ?cs reply 0 "Some part"] that merged_parts[of no_analysis] map_filter_id unfolding a by fastforce
  ultimately show ?thesis using merged_parts[of no_analysis] unfolding a by blast
qed

lemma filter_all_length: "length (filter P xs) = length xs \<longleftrightarrow> (\<forall>x \<in> set xs. P x)"
proof (induction xs)
  case (Cons x xs)
  have "length (filter P xs) \<noteq> Suc (length xs)" using length_filter_le[of P xs] by linarith
  with Cons show ?case by auto
qed simp

text \<open>The pass fails exactly when there is a chunk and none was understood.\<close>

lemma analysis_error_iff:
  "(\<exists>msg. analyze_file True False limit rp reply ep src = AnalysisError msg) \<longleftrightarrow>
     (\<exists>merged n. analyze_chunks reply 0 (analysis_chunks limit (script_texts src)) no_analysis 0 = Inr (merged, n))
     \<and> answers reply 0 (analysis_chunks limit (script_texts src)) \<noteq> []
     \<and> (\<forall>r \<in> set (answers reply 0 (analysis_chunks limit (script_texts src))). r = None)"
proof (cases "analyze_chunks reply 0 (analysis_chunks limit (script_texts src)) no_analysis 0")
  case (Inr x)
  obtain merged n where x: "x = (merged, n)" by (cases x)
  let ?as = "answers reply 0 (analysis_chunks limit (script_texts src))"
  from analyze_chunks_result[OF Inr[unfolded x]] have n: "n = length (filter (\<lambda>r. r = None) ?as)"
    and l: "length (filter (\<lambda>c. c \<noteq> []) (analysis_chunks limit (script_texts src))) = length ?as" by simp_all
  have "length (filter (\<lambda>r. r = None) ?as) = length ?as \<longleftrightarrow> (\<forall>r \<in> set ?as. r = None)"
    by (rule filter_all_length)
  then have c: "length ?as > 0 \<and> n = length ?as \<longleftrightarrow> ?as \<noteq> [] \<and> (\<forall>r \<in> set ?as. r = None)" by (auto simp: n)
  have "analyze_file True False limit rp reply ep src =
      (if length ?as > 0 \<and> n = length ?as then AnalysisError (parse_failed_text rp n ep) else Analyzed merged)"
    by (simp only: analyze_file_eq Inr x sum.case prod.case Let_def l)
  then have "(\<exists>msg. analyze_file True False limit rp reply ep src = AnalysisError msg) \<longleftrightarrow> length ?as > 0 \<and> n = length ?as"
    by (cases "length ?as > 0 \<and> n = length ?as") simp_all
  then show ?thesis unfolding c unfolding Inr x by blast
qed (simp add: analyze_file_eq)

section \<open>Writing to the Bible\<close>

text \<open>
  One operation of the merge: an operation of the pipeline, or the insertion of a locked name term
  whose source is not there yet.
\<close>

inductive merge_op :: "(pystr \<Rightarrow> pystr) \<Rightarrow> nat \<Rightarrow> bible_db \<Rightarrow> bible_db \<Rightarrow> bool" for db_lower sid where
  pipeline: "bible_op db_lower False db db' \<Longrightarrow> merge_op db_lower sid db db'"
| name_term: "apply_human_edit_term sid (Some n) None F_RENDERING v True db = Inr (db', t, ev) \<Longrightarrow>
    get_term sid n db = Inr None \<Longrightarrow> merge_op db_lower sid db db'"

lemma insert_term_step:
  assumes "apply_human_edit_term sid (Some n) None F_RENDERING v lock db = Inr (db', t, ev)" and "get_term sid n db = Inr None"
  shows "db_step human db db' \<and> db_series db' = db_series db \<and> db_pairs db' = db_pairs db"
proof -
  let ?r = "\<lparr>tr_id = next_id term_table (db_terms db), tr_series = sid, tr_source = n,
     tr_rendering = Some (py_str v), tr_category = None, tr_locked = edit_lock lock F_RENDERING []\<rparr>"
  let ?e = "change_event term_table None (edit_source lock) ?r (F_RENDERING, None, Some (py_str v))"
  have "table_step term_table human (db_terms db) (insert_events term_table None (edit_source lock) ?r [(F_RENDERING, Some (py_str v))])
      (db_terms db @ [?r])"
    by (rule terms.insert_step) (auto simp: term_table_def)
  then have "table_step term_table human (db_terms db) [?e] (db_terms db @ [?r])"
    by (simp add: insert_events_def provided_def)
  from term_only_step[OF this] assms show ?thesis
    by (auto simp: apply_human_edit_term_def locate_term_def commit_Inr Let_def or_empty_def split: if_splits)
qed

lemma merge_op_step: "merge_op db_lower sid db db' \<Longrightarrow> db_step False db db'"
  by (induction rule: merge_op.induct) (auto dest: bible_op_step insert_term_step)

lemma merge_op_reach: "merge_op db_lower sid db db' \<Longrightarrow> bible_reach db_lower db \<Longrightarrow> bible_reach db_lower db'"
proof (induction rule: merge_op.induct)
  case (name_term n v db db' t ev)
  from bible_reach.step[OF name_term.prems bible_op.edit_term[OF name_term.hyps(1)]] show ?case .
qed (rule bible_reach.step)

text \<open>The series of a database stay there.\<close>

lemma table_step_keeps_ids: "table_step t human rs es rs' \<Longrightarrow> t_id t ` set rs \<subseteq> t_id t ` set rs'"
proof (induction rule: table_step.induct)
  case (update r rs r' cs xs ep src)
  have "t_id t ` set (put_row t r' rs) = t_id t ` set rs" using put_row_ids[of t r' rs] by (metis set_map)
  then show ?case by simp
qed auto

lemma db_step_keeps_series: "db_step human db db' \<Longrightarrow> sr_id ` set (db_series db) \<subseteq> sr_id ` set (db_series db')"
  unfolding db_step_def by (auto dest!: table_step_keeps_ids simp: series_table_def[THEN arg_cong[where f = t_id], simplified])

text \<open>A run of such operations.\<close>

abbreviation merge_run :: "(pystr \<Rightarrow> pystr) \<Rightarrow> nat \<Rightarrow> bible_db \<Rightarrow> bible_db \<Rightarrow> bool" where
  "merge_run db_lower sid \<equiv> rtranclp (merge_op db_lower sid)"

lemma merge_run_reach: "merge_run db_lower sid db db' \<Longrightarrow> bible_reach db_lower db \<Longrightarrow> bible_reach db_lower db'"
  by (induction rule: rtranclp_induct) (auto intro: merge_op_reach)

lemma merge_run_ids: "merge_run db_lower sid db db' \<Longrightarrow> ids_distinct db \<Longrightarrow> ids_distinct db'"
  by (induction rule: rtranclp_induct) (auto intro: db_step_ids merge_op_step)

lemma merge_run_series: "merge_run db_lower sid db db' \<Longrightarrow> sr_id ` set (db_series db) \<subseteq> sr_id ` set (db_series db')"
  by (induction rule: rtranclp_induct) (blast dest: merge_op_step db_step_keeps_series)+

lemma merge_run_locked:
  "merge_run db_lower sid db db' \<Longrightarrow> ids_distinct db \<Longrightarrow> f \<in> set (bible_locks e db i) \<Longrightarrow>
   bible_locks e db' i = bible_locks e db i \<and> bible_value e db' i f = bible_value e db i f"
proof (induction rule: rtranclp_induct)
  case (step db' db'')
  then have "bible_locks e db' i = bible_locks e db i \<and> bible_value e db' i f = bible_value e db i f" by blast
  with db_step_locked[OF merge_op_step[OF step.hyps(2)] merge_run_ids[OF step.hyps(1)], of f e i] step.prems show ?case by simp
qed simp

lemma merge_opI: "merge_op db_lower sid db db' \<Longrightarrow> merge_run db_lower sid db' db'' \<Longrightarrow> merge_run db_lower sid db db''"
  by (rule converse_rtranclp_into_rtranclp)

lemma put_register_run: "merge_run db_lower sid db (put_register r ep sid db)"
  unfolding put_register_def Let_def
  by (auto split: sum.splits intro!: r_into_rtranclp merge_op.pipeline bible_op.merge)

lemma put_characters_run:
  "put_characters db_lower sid ep cs idx db = (db', idx', n) \<Longrightarrow> merge_run db_lower sid db db'"
proof (induction db_lower sid ep cs idx db arbitrary: db' idx' n rule: put_characters.induct)
  case (2 db_lower sid ep c cs idx db)
  then show ?case
    by (auto split: sum.splits prod.splits simp: Let_def intro: merge_opI[OF merge_op.pipeline[OF bible_op.character]])
qed simp

lemma put_terms_run: "put_terms db_lower sid ep ts db = (db', n) \<Longrightarrow> merge_run db_lower sid db db'"
proof (induction db_lower sid ep ts db arbitrary: db' n rule: put_terms.induct)
  case (2 db_lower sid ep t ts db)
  then show ?case
    by (auto split: sum.splits prod.splits simp: Let_def intro: merge_opI[OF merge_op.pipeline[OF bible_op.term_entry]])
qed simp

lemma put_pairs_run: "put_pairs sid ep known idx ps db = (db', a, n) \<Longrightarrow> merge_run db_lower sid db db'"
proof (induction sid ep known idx ps db arbitrary: db' a n rule: put_pairs.induct)
  case (2 sid ep known idx p ps db)
  then show ?case
    by (auto split: sum.splits prod.splits option.splits simp: Let_def intro: merge_opI[OF merge_op.pipeline[OF bible_op.pair]])
qed simp

lemma put_events_run: "merge_run db_lower sid db (put_events sid ep idx es db)"
proof (induction sid ep idx es db rule: put_events.induct)
  case (2 sid ep idx e es db)
  then show ?case
    by (auto split: sum.splits prod.splits option.splits intro: merge_opI[OF merge_op.pipeline[OF bible_op.relation]])
qed simp

text \<open>The planned name terms are new, and each is planned once.\<close>

lemma strip_strip: "strip (strip s) = strip s"
proof -
  have l: "lstrip (lstrip t) = lstrip t" for t by (simp add: lstrip_def)
  have r: "rstrip (rstrip t) = rstrip t" for t by (simp add: rstrip_def)
  have "lstrip (rstrip t) = rstrip t" if "lstrip t = t" for t
  proof (cases t)
    case (Cons c u)
    from that[unfolded lstrip_def dropWhile_eq_self_iff] Cons have "\<not> is_space c" by simp
    then show ?thesis unfolding Cons by (simp add: lstrip_def rstrip_def dropWhile_append)
  qed (simp add: lstrip_def rstrip_def)
  with l[of s] r[of "lstrip s"] show ?thesis by (simp add: strip_def)
qed

lemma stripped_stripped: "strip (stripped x) = stripped x"
  by (simp add: stripped_def strip_strip)

lemma plan_specs_new:
  "distinct (map (\<lambda>n. lower (nt_source n)) (plan_specs by_latin existing locked seen cs))
   \<and> (\<forall>n \<in> set (plan_specs by_latin existing locked seen cs). lower (nt_source n) \<notin> existing \<and> lower (nt_source n) \<notin> seen
       \<and> nt_source n \<noteq> [] \<and> strip (nt_source n) = nt_source n)"
proof (induction by_latin existing locked seen cs rule: plan_specs.induct)
  case (2 by_latin existing locked seen c cs)
  let ?latin = "strip (ci_name c)" and ?script = "stripped (ci_script c)"
  let ?source = "if ?script \<noteq> [] then ?script else ?latin"
  show ?case
  proof (cases "?latin = [] \<or> lower ?latin \<in> locked")
    case True
    with "2.IH"(1) show ?thesis by (simp add: Let_def)
  next
    case False
    have s: "strip ?source = ?source" "?source \<noteq> []" using False by (auto simp: strip_strip stripped_stripped)
    show ?thesis
    proof (cases "lower ?source \<in> existing \<or> lower ?source \<in> seen")
      case True
      with False "2.IH"(2)[OF refl refl refl False refl refl] show ?thesis by (simp add: Let_def)
    next
      case F: False
      with False "2.IH"(3)[OF refl refl refl False refl refl] s show ?thesis
        by (cases "?script = []") (auto simp: Let_def)
    qed
  qed
qed simp

lemma put_name_terms_run:
  "distinct (map nt_source ns) \<Longrightarrow> \<forall>n \<in> set ns. get_term sid (nt_source n) db = Inr None \<Longrightarrow>
   merge_run db_lower sid db (put_name_terms sid ns db) \<and> db_pairs (put_name_terms sid ns db) = db_pairs db"
proof (induction sid ns db rule: put_name_terms.induct)
  case (2 sid n ns db)
  show ?case
  proof (cases "apply_human_edit_term sid (Some (nt_source n)) None F_RENDERING (Some (nt_rendering n)) True db")
    case (Inl e)
    with 2 show ?thesis by simp
  next
    case (Inr x)
    obtain db1 r ev where x: "x = (db1, r, ev)" by (cases x)
    note e = Inr[unfolded x]
    from "2.prems"(2) have g: "get_term sid (nt_source n) db = Inr None" by simp
    with e have t: "db_terms db1 = db_terms db @ [r]" "tr_source r = nt_source n"
      by (auto simp: apply_human_edit_term_def locate_term_def commit_Inr Let_def split: if_splits)
    have "get_term sid (nt_source m) db1 = Inr None" if "m \<in> set ns" for m
    proof -
      have "nt_source m \<noteq> nt_source n" using "2.prems"(1) that by (metis distinct.simps(2) image_eqI list.simps(9) list.set_map)
      with "2.prems"(2) that show ?thesis by (simp add: get_term_def scalar_None t)
    qed
    with "2.IH"(2)[OF e refl refl] "2.prems"(1)
    have "merge_run db_lower sid db1 (put_name_terms sid ns db1)" "db_pairs (put_name_terms sid ns db1) = db_pairs db1" by simp_all
    with e x Inr insert_term_step[OF e g] merge_opI[OF merge_op.name_term[OF e g]] show ?thesis by simp
  qed
qed simp

lemma lock_names_run:
  assumes "sid \<in> sr_id ` set (db_series db)"
  shows "merge_run db_lower sid db (lock_names sid cs db) \<and> db_pairs (lock_names sid cs db) = db_pairs db"
proof -
  have "row_by_id series_table sid (db_series db) \<noteq> None"
    using assms by (auto simp: row_by_id_def series_table_def find_None_iff)
  then obtain b where b: "load_series_bible sid db = Inr b" by (auto simp: load_series_bible_def)
  then have ts: "sb_terms b = filter (\<lambda>t. tr_series t = sid) (db_terms db)"
    by (auto simp: load_series_bible_def split: option.splits)
  let ?ns = "plan_character_name_terms cs (sb_terms b)"
  note new = plan_specs_new[of "rendering_by_latin (sb_terms b)" "existing_sources (sb_terms b)"
      "extend_locked (locked_cjk_renderings (sb_terms b)) (locked_sources (sb_terms b)) cs" "{}" cs, folded plan_character_name_terms_def]
  have d: "distinct (map nt_source ?ns)"
    using conjunct1[OF new] by (auto simp: distinct_map inj_on_def)
  have "get_term sid (nt_source n) db = Inr None" if n: "n \<in> set ?ns" for n
  proof -
    have "tr_source t \<noteq> nt_source n" if "t \<in> set (db_terms db)" "tr_series t = sid" for t
    proof
      assume e: "tr_source t = nt_source n"
      with new n have "strip (tr_source t) \<noteq> []" "exact_key (tr_source t) = lower (nt_source n)" by (auto simp: exact_key_def)
      with that have "lower (nt_source n) \<in> existing_sources (sb_terms b)" unfolding existing_sources_def ts by force
      with new n show False by blast
    qed
    then show ?thesis by (auto simp: get_term_def scalar_None filter_empty_conv)
  qed
  with put_name_terms_run[OF d] show ?thesis by (simp add: lock_names_def b)
qed

text \<open>The pairs that were there are only affirmed.\<close>

lemma pair_update_None: "\<forall>(f, v) \<in> set fs. v = None \<Longrightarrow> pair_update locked sid ep src fs r es = (r, es)"
  by (induction locked sid ep src fs r es rule: pair_update.induct) auto

lemma put_row_other: "r' \<in> set rs \<Longrightarrow> distinct (map (t_id t) (ps @ rs)) \<Longrightarrow> t_id t r = t_id t r' \<Longrightarrow> put_row t r (ps @ rs) = ps @ put_row t r rs"
proof -
  assume "r' \<in> set rs" "distinct (map (t_id t) (ps @ rs))" "t_id t r = t_id t r'"
  then have "\<forall>x \<in> set ps. t_id t x \<noteq> t_id t r" by force
  then show ?thesis by (simp add: put_row_def map_idI)
qed

lemma pair_update_id: "pair_update locked sid ep src fs r es = (r', es') \<Longrightarrow> pr_id r' = pr_id r"
proof (induction locked sid ep src fs r es rule: pair_update.induct)
  case (2 locked sid ep src f v fs r es)
  then show ?case using pairs.id_set[of f v r] by (auto simp: pair_table_def split: if_splits)
qed simp

lemma upsert_pair_keeps:
  assumes "upsert_address_pair sid i j self address since ep src db = Inr (db', r, es)"
    and "db_pairs db = old @ new" and "distinct (map (t_id pair_table) (db_pairs db))"
    and "\<forall>p \<in> set old. pr_series p = sid \<and> pr_speaker p = i \<and> pr_addressee p = j \<longrightarrow> self = None \<and> address = None \<and> since = None"
  shows "\<exists>new'. db_pairs db' = old @ new'"
proof (cases "scalar_one_or_none (filter (\<lambda>p. pr_series p = sid \<and> pr_speaker p = i \<and> pr_addressee p = j) (db_pairs db))")
  case (Inr found)
  show ?thesis
  proof (cases found)
    case None
    with Inr assms(1,2) show ?thesis by (auto simp: upsert_address_pair_def commit_Inr Let_def)
  next
    case (Some q)
    with Inr have "q \<in> set (filter (\<lambda>p. pr_series p = sid \<and> pr_speaker p = i \<and> pr_addressee p = j) (db_pairs db))" by (simp add: scalar_Some)
    then have q: "q \<in> set (db_pairs db)" "pr_series q = sid" "pr_speaker q = i" "pr_addressee q = j" by simp_all
    let ?fs = "[(F_SELF, self), (F_ADDRESS, address), (F_FROM, since)]"
    obtain r1 es1 where u: "pair_update (pr_locked q) sid ep src ?fs q [] = (r1, es1)" by fastforce
    with assms(1) Inr Some have db': "db_pairs db' = put_row pair_table r1 (db_pairs db)"
      by (auto simp: upsert_address_pair_def commit_Inr Let_def)
    show ?thesis
    proof (cases "q \<in> set old")
      case True
      with assms(4) q have "pair_update (pr_locked q) sid ep src ?fs q [] = (q, [])" by (intro pair_update_None) auto
      with u put_same[OF assms(3) q(1)] have "db_pairs db' = db_pairs db" by (simp add: db')
      with assms(2) show ?thesis by simp
    next
      case False
      with q(1) assms(2) have "q \<in> set new" by auto
      moreover have "t_id pair_table r1 = t_id pair_table q" using pair_update_id[OF u] by (simp add: pair_table_def)
      ultimately show ?thesis using put_row_other[of q new pair_table old r1] assms(2,3) by (auto simp: db')
    qed
  qed
qed (use assms(1) in \<open>simp add: upsert_address_pair_def Let_def\<close>)

lemma put_pairs_keeps:
  "put_pairs sid ep known idx ps db = (db', a, n) \<Longrightarrow> ids_distinct db \<Longrightarrow> db_pairs db = old @ new \<Longrightarrow>
   \<forall>p \<in> set old. pr_series p = sid \<longrightarrow> (pr_speaker p, pr_addressee p) \<in> known \<Longrightarrow> \<exists>new'. db_pairs db' = old @ new'"
proof (induction ps arbitrary: db db' a n new)
  case (Cons p ps)
  show ?case
  proof (cases "lookup_name idx (ai_speaker p) = None \<or> lookup_name idx (ai_addressee p) = None")
    case True
    then have "put_pairs sid ep known idx (p # ps) db = put_pairs sid ep known idx ps db" by (auto split: option.splits)
    with Cons show ?thesis by metis
  next
    case False
    then obtain i j where ij: "lookup_name idx (ai_speaker p) = Some i" "lookup_name idx (ai_addressee p) = Some j" by auto
    let ?g = "\<lambda>v. if (i, j) \<in> known then None else Some v"
    show ?thesis
    proof (cases "upsert_address_pair sid i j (?g (ai_self p)) (?g (ai_address p)) (?g ep) (Some ep) INFERENCE db")
      case (Inl e)
      obtain db1 a1 n1 where r: "put_pairs sid ep known idx ps db = (db1, a1, n1)" by (metis prod_cases3)
      with Cons.prems(1) ij Inl have "db' = db1" by (simp add: Let_def)
      with Cons.IH r Cons.prems(2-4) show ?thesis by blast
    next
      case (Inr x)
      obtain db1 r es where x: "x = (db1, r, es)" by (metis prod_cases3)
      obtain db2 a1 n1 where r: "put_pairs sid ep known idx ps db1 = (db2, a1, n1)" by (metis prod_cases3)
      with Cons.prems(1) ij Inr x have "db' = db2" by (simp add: Let_def)
      moreover have "ids_distinct db1" by (rule db_step_ids[OF upsert_address_pair_step[OF Inr[unfolded x]] Cons.prems(2)])
      moreover have "\<exists>new1. db_pairs db1 = old @ new1"
        by (rule upsert_pair_keeps[OF Inr[unfolded x] Cons.prems(3)]) (use Cons.prems(2,4) in \<open>auto simp: ids_distinct_def\<close>)
      ultimately show ?thesis using Cons.IH r Cons.prems(4) by blast
    qed
  qed
qed simp

lemma put_register_frame: "db_pairs (put_register r ep sid db) = db_pairs db"
  by (auto simp: put_register_def merge_inferred_def commit_Inr Let_def split: sum.splits option.splits if_splits)

lemma put_characters_frame: "put_characters db_lower sid ep cs idx db = (db', idx', n) \<Longrightarrow> db_pairs db' = db_pairs db"
proof (induction cs arbitrary: idx db db' idx' n)
  case (Cons c cs)
  then show ?case
    by (auto simp: Let_def upsert_character_def commit_Inr split: sum.splits prod.splits option.splits if_splits)
qed simp

lemma put_terms_frame: "put_terms db_lower sid ep ts db = (db', n) \<Longrightarrow> db_pairs db' = db_pairs db"
proof (induction ts arbitrary: db db' n)
  case (Cons t ts)
  then show ?case
    by (auto simp: Let_def upsert_term_def commit_Inr split: sum.splits prod.splits option.splits if_splits)
qed simp

lemma put_events_frame: "db_pairs (put_events sid ep idx es db) = db_pairs db"
proof (induction es arbitrary: db)
  case (Cons e es)
  then show ?case
    by (auto simp: record_relationship_event_def commit_Inr Let_def split: sum.splits option.splits prod.splits)
qed simp

text \<open>The merge is a run, and the pairs it leaves begin with those it found.\<close>

lemma merge_bible_analysis_run:
  assumes "merge_bible_analysis db_lower rp events_enabled sid ep a db = (err, db')" and "sid \<in> sr_id ` set (db_series db)"
    and "ids_distinct db"
  shows "merge_run db_lower sid db db' \<and> (\<exists>new. db_pairs db' = db_pairs db @ new)"
proof -
  let ?db1 = "put_register (ba_register a) ep sid db"
  have r1: "merge_run db_lower sid db ?db1" by (rule put_register_run)
  note p1 = put_register_frame[of "ba_register a" ep sid db]
  from subsetD[OF merge_run_series[OF r1] assms(2)] have "row_by_id series_table sid (db_series ?db1) \<noteq> None"
    by (auto simp: row_by_id_def series_table_def find_None_iff)
  then obtain b where b: "load_series_bible sid ?db1 = Inr b" by (auto simp: load_series_bible_def)
  then have bp: "sb_pairs b = filter (\<lambda>p. pr_series p = sid) (db_pairs db)"
    by (auto simp: load_series_bible_def p1 split: option.splits)
  let ?known = "set (map (\<lambda>p. (pr_speaker p, pr_addressee p)) (sb_pairs b))" and ?idx0 = "name_index (sb_characters b)"
  obtain db2 idx cf where c: "put_characters db_lower sid ep (ba_characters a) ?idx0 ?db1 = (db2, idx, cf)" by (metis prod_cases3)
  note r2 = rtranclp_trans[OF r1 put_characters_run[OF c]]
  note p2 = put_characters_frame[OF c, unfolded p1]
  obtain db3 tf where t: "put_terms db_lower sid ep (ba_terms a) db2 = (db3, tf)" by fastforce
  note r3 = rtranclp_trans[OF r2 put_terms_run[OF t]]
  note p3 = put_terms_frame[OF t, unfolded p2]
  note l = lock_names_run[OF subsetD[OF merge_run_series[OF r3] assms(2)], of db_lower "ba_characters a"]
  let ?db4 = "lock_names sid (ba_characters a) db3"
  note r4 = rtranclp_trans[OF r3 conjunct1[OF l]]
  obtain db5 n f where q: "put_pairs sid ep ?known idx (ba_pairs a) ?db4 = (db5, n, f)" by (metis prod_cases3)
  note r5 = rtranclp_trans[OF r4 put_pairs_run[OF q]]
  have p5: "\<exists>new. db_pairs db5 = db_pairs db @ new"
    by (rule put_pairs_keeps[OF q merge_run_ids[OF r4 assms(3)], where new = "[]"]) (use l p3 in \<open>auto simp: bp\<close>)
  note r6 = rtranclp_trans[OF r5 put_events_run[of db_lower sid db5 ep idx "ba_events a"]]
  have m: "merge_bible_analysis db_lower rp events_enabled sid ep a db =
     (if ba_characters a \<noteq> [] \<and> cf = length (ba_characters a) then (Some (all_failed_text rp cf (lit ''character'') sid ep), db2)
      else if ba_terms a \<noteq> [] \<and> tf = length (ba_terms a) then (Some (all_failed_text rp tf (lit ''term'') sid ep), db3)
      else if n > 0 \<and> f = n then (Some (all_failed_text rp f (lit ''address-pair'') sid ep), db5)
      else (None, if events_enabled then put_events sid ep idx (ba_events a) db5 else db5))"
    unfolding merge_bible_analysis_def by (simp only: Let_def b c t q sum.case prod.case)
  from assms(1) r2 r3 r5 r6 p2 p3 p5 show ?thesis
    unfolding m by (auto simp: put_events_frame split: if_splits)
qed

section \<open>Properties\<close>


definition bo :: "pystr option \<Rightarrow> character_inference" where
  "bo g = \<lparr>ci_name = lit ''Bo'', ci_gender = g, ci_age = None, ci_role = None, ci_script = None, ci_rendering = None\<rparr>"

definition bo_reply :: "nat \<Rightarrow> pystr list \<Rightarrow> unit + bible_analysis option" where
  "bo_reply k c = Inr (Some (no_analysis\<lparr>ba_characters := [bo (if k = 0 then None else Some (lit ''m''))]\<rparr>))"

definition two_lines :: sub_doc where
  "two_lines = \<lparr>doc_lines = [mk_line [49] [] [] [7843] None, mk_line [50] [] [] [7844] None], doc_encoding = [],
     doc_line_ending = [10], doc_separators = [], doc_leading = [], doc_trailer = [], doc_envelope = NoEnvelope\<rparr>"

lemma two_lines_texts: "script_texts two_lines = [[7843], [7844]]"
  by (simp add: script_texts_def two_lines_def mk_line_def strip_no_space is_space_def space_ranges_def)

lemma bo_analyzed: "analyze_file True False 1 (\<lambda>t. t) bo_reply [] two_lines = Analyzed (no_analysis\<lparr>ba_characters := [bo (Some (lit ''m''))]\<rparr>)"
  by (simp add: analyze_file_eq two_lines_texts analysis_chunks_def chunks_of.simps bo_reply_def no_analysis_def merge_part_def
      add_character_def fill_character_def fill_def bo_def truthy_def name_eval Let_def)


text \<open>
  C31: Writing an analysis to the Bible loses nothing: whatever the model inferred, every field that
  is locked keeps its value and its lock, every address pair of every series is left as it is, to
  the letter, and only new pairs are appended; the result is a database the store's operations reach.
\<close>

theorem merge_keeps_bible:
  assumes "merge_bible_analysis db_lower rp events_enabled sid ep a db = (err, db')"
    and "bible_reach db_lower db" and "sid \<in> sr_id ` set (db_series db)"
  shows "bible_reach db_lower db' \<and> (\<exists>new. db_pairs db' = db_pairs db @ new)
    \<and> (\<forall>e i f. f \<in> set (bible_locks e db i) \<longrightarrow>
        bible_locks e db' i = bible_locks e db i \<and> bible_value e db' i f = bible_value e db i f)"
  using merge_bible_analysis_run[OF assms(1,3) reach_ids[OF assms(2)]] merge_run_reach[OF _ assms(2)]
    merge_run_locked[OF _ reach_ids[OF assms(2)]] by blast

definition rename_ka :: bible_analysis where
  "rename_ka = no_analysis\<lparr>ba_terms := [\<lparr>ti_source = lit ''ka'', ti_rendering = lit ''c'', ti_category = None\<rparr>]\<rparr>"

theorem merge_keeps_bible_witness:
  "\<exists>err db. merge_bible_analysis ascii_lower (\<lambda>t. t) True 1 (lit ''S01E01'') rename_ka bible_with_lock = (err, db)
     \<and> bible_value ETerm db 1 F_RENDERING = Some (lit ''b'')"
proof -
  obtain err db where m: "merge_bible_analysis ascii_lower (\<lambda>t. t) True 1 (lit ''S01E01'') rename_ka bible_with_lock = (err, db)"
    by fastforce
  have "1 \<in> sr_id ` set (db_series bible_with_lock)" by (simp add: bible_samples)
  note k = merge_keeps_bible[OF m sample_reach(2) this]
  have "F_RENDERING \<in> set (bible_locks ETerm bible_with_lock 1)"
    by (simp add: locks_of_def row_by_id_def bible_with_lock_def sample_term_def term_table_def)
  with k have "bible_value ETerm db 1 F_RENDERING = bible_value ETerm bible_with_lock 1 F_RENDERING" by blast
  also have "\<dots> = Some (lit ''b'')"
    by (simp add: field_of_def row_by_id_def bible_with_lock_def sample_term_def term_table_def)
  finally show ?thesis using m by blast
qed

end
