(* ===== verification/Ledger.thy ===== *)
theory Ledger
  imports Prelude "HOL-Library.AList"
begin

text \<open>
  The ledger of processed files: the protocol of \<open>trezarr/output/_ledger_protocol.py\<close> as a
  locale, and its two implementations, the JSON dictionary of \<open>trezarr/output/ledger.py\<close> and
  the table of \<open>trezarr/output/ledger_sqla.py\<close>. Writing the JSON file and the database
  transaction are left out; the SHA-256 digest is a parameter where it is used.
\<close>

datatype entry_status = Done | Quarantined | InProgress

record ledger_entry =
  le_source :: pystr
  le_output :: "pystr option"
  le_status :: entry_status
  le_hash :: pystr
  le_series :: "pystr option"
  le_lang :: "pystr option"
  le_episode :: "pystr option"
  le_translated_at :: "pystr option"
  le_quarantine :: "pystr option"

section \<open>The protocol\<close>

locale ledger_protocol =
  fixes empty :: 's
    and check :: "'s \<Rightarrow> pystr \<Rightarrow> py_error + ledger_entry option"
    and by_output :: "'s \<Rightarrow> pystr \<Rightarrow> py_error + ledger_entry option"
    and record_entry :: "ledger_entry \<Rightarrow> 's \<Rightarrow> py_error + 's"
    and invar :: "'s \<Rightarrow> bool"
  assumes invar_empty: "invar empty"
    and check_empty: "check empty p = Inr None"
    and check_total: "invar s \<Longrightarrow> \<exists>x. check s p = Inr x"
    and check_source: "invar s \<Longrightarrow> check s p = Inr (Some e) \<Longrightarrow> le_source e = p"
    and record_total: "invar s \<Longrightarrow> \<exists>s'. record_entry e s = Inr s'"
    and record_invar: "invar s \<Longrightarrow> record_entry e s = Inr s' \<Longrightarrow> invar s'"
    and check_record: "invar s \<Longrightarrow> record_entry e s = Inr s' \<Longrightarrow>
      check s' p = (if p = le_source e then Inr (Some e) else check s p)"
    and by_output_sound: "invar s \<Longrightarrow> by_output s q = Inr (Some e) \<Longrightarrow>
      le_output e = Some q \<and> check s (le_source e) = Inr (Some e)"
    and by_output_none: "invar s \<Longrightarrow> by_output s q = Inr None \<Longrightarrow> check s p = Inr (Some e) \<Longrightarrow>
      le_output e \<noteq> Some q"
    and by_output_absent: "invar s \<Longrightarrow> (\<And>p e. check s p = Inr (Some e) \<Longrightarrow> le_output e \<noteq> Some q) \<Longrightarrow>
      by_output s q = Inr None"

text \<open>A run of records, from the empty ledger.\<close>

fun record_all :: "(ledger_entry \<Rightarrow> 's \<Rightarrow> py_error + 's) \<Rightarrow> ledger_entry list \<Rightarrow> 's \<Rightarrow> py_error + 's" where
  "record_all rec [] s = Inr s"
| "record_all rec (e # es) s = (case rec e s of Inl err \<Rightarrow> Inl err | Inr s' \<Rightarrow> record_all rec es s')"

definition latest :: "ledger_entry list \<Rightarrow> pystr \<Rightarrow> ledger_entry option" where
  "latest es p = find (\<lambda>e. le_source e = p) (rev es)"

context ledger_protocol
begin

lemma record_all_total:
  assumes "invar s"
  shows "\<exists>s'. record_all record_entry es s = Inr s' \<and> invar s'"
  using assms
proof (induction es arbitrary: s)
  case (Cons e es)
  from record_total[OF Cons.prems] obtain s1 where s1: "record_entry e s = Inr s1" by blast
  from Cons.IH[OF record_invar[OF Cons.prems s1]] s1 show ?case by simp
qed simp

lemma check_record_all:
  assumes "invar s" and "record_all record_entry es s = Inr s'"
  shows "check s' p = (case latest es p of Some e \<Rightarrow> Inr (Some e) | None \<Rightarrow> check s p)"
  using assms
proof (induction es arbitrary: s)
  case Nil
  then show ?case by (simp add: latest_def)
next
  case (Cons e es)
  from record_total[OF Cons.prems(1)] obtain s1 where s1: "record_entry e s = Inr s1" by blast
  with Cons.prems(2) have "record_all record_entry es s1 = Inr s'" by simp
  from Cons.IH[OF record_invar[OF Cons.prems(1) s1] this] check_record[OF Cons.prems(1) s1, of p]
  show ?case by (auto simp: latest_def find_append split: option.splits)
qed

lemma check_history:
  assumes "record_all record_entry es empty = Inr s"
  shows "check s p = Inr (latest es p)"
  using check_record_all[OF invar_empty assms, of p] by (simp add: check_empty split: option.splits)

lemma history_total: "\<exists>s. record_all record_entry es empty = Inr s \<and> invar s"
  by (rule record_all_total[OF invar_empty])

end

section \<open>The JSON ledger\<close>

type_synonym json_ledger = "(pystr \<times> ledger_entry) list"

definition json_check :: "json_ledger \<Rightarrow> pystr \<Rightarrow> py_error + ledger_entry option" where
  "json_check l p = Inr (map_of l p)"

definition json_check_by_output :: "json_ledger \<Rightarrow> pystr \<Rightarrow> py_error + ledger_entry option" where
  "json_check_by_output l q = Inr (map_option snd (find (\<lambda>(k, e). le_output e = Some q) l))"

definition json_record :: "ledger_entry \<Rightarrow> json_ledger \<Rightarrow> py_error + json_ledger" where
  "json_record e l = Inr (AList.update (le_source e) e l)"

definition json_invar :: "json_ledger \<Rightarrow> bool" where
  "json_invar l \<longleftrightarrow> distinct (map fst l) \<and> (\<forall>(k, e) \<in> set l. le_source e = k)"

lemma json_record_invar: "json_invar l \<Longrightarrow> json_record e l = Inr l' \<Longrightarrow> json_invar l'"
proof -
  assume i: "json_invar l" and r: "json_record e l = Inr l'"
  have "set (AList.update k v l) \<subseteq> insert (k, v) (set l)" for k v
    by (induction l) auto
  then show ?thesis
    using i r by (fastforce simp: json_invar_def json_record_def distinct_update)
qed

interpretation json: ledger_protocol "[]" json_check json_check_by_output json_record json_invar
proof
  show "json_invar []" by (simp add: json_invar_def)
  show "json_check [] p = Inr None" for p by (simp add: json_check_def)
  show "\<exists>x. json_check s p = Inr x" for s p by (simp add: json_check_def)
  show "le_source e = p" if "json_invar s" "json_check s p = Inr (Some e)" for s p e
    using that by (auto simp: json_invar_def json_check_def dest!: map_of_SomeD)
  show "\<exists>s'. json_record e s = Inr s'" for e s by (simp add: json_record_def)
  show "json_invar s'" if "json_invar s" "json_record e s = Inr s'" for s e s'
    using that by (rule json_record_invar)
  show "json_check s' p = (if p = le_source e then Inr (Some e) else json_check s p)"
    if "json_invar s" "json_record e s = Inr s'" for s e s' p
    using that by (auto simp: json_record_def json_check_def update_conv)
  show "le_output e = Some q \<and> json_check s (le_source e) = Inr (Some e)"
    if i: "json_invar s" and b: "json_check_by_output s q = Inr (Some e)" for s q e
  proof -
    from b obtain k where k: "(k, e) \<in> set s" "le_output e = Some q"
      by (auto simp: json_check_by_output_def dest!: find_SomeD)
    moreover from k(1) i have "le_source e = k" "map_of s k = Some e" by (auto simp: json_invar_def)
    ultimately show ?thesis by (simp add: json_check_def)
  qed
  show "le_output e \<noteq> Some q"
    if "json_invar s" "json_check_by_output s q = Inr None" "json_check s p = Inr (Some e)" for s q p e
    using that by (auto simp: json_check_by_output_def json_check_def find_None_iff dest!: map_of_SomeD)
  show "json_check_by_output s q = Inr None"
    if i: "json_invar s" and "\<And>p e. json_check s p = Inr (Some e) \<Longrightarrow> le_output e \<noteq> Some q" for s q
    using that(2) i by (fastforce simp: json_check_by_output_def json_check_def json_invar_def find_None_iff)
qed

section \<open>The database ledger\<close>

record file_row =
  row_id :: nat
  row_entry :: ledger_entry

type_synonym file_table = "file_row list"

text \<open>\<open>scalar_one_or_none\<close> raises when the query has more than one row.\<close>

definition scalar_one_or_none :: "'a list \<Rightarrow> py_error + 'a option" where
  "scalar_one_or_none rows = (case rows of
     [] \<Rightarrow> Inr None | [r] \<Rightarrow> Inr (Some r) | _ \<Rightarrow> Inl MultipleResultsFound)"

definition rows_with_source :: "file_table \<Rightarrow> pystr \<Rightarrow> file_row list" where
  "rows_with_source t p = filter (\<lambda>r. le_source (row_entry r) = p) t"

definition rows_with_output :: "file_table \<Rightarrow> pystr \<Rightarrow> file_row list" where
  "rows_with_output t q = filter (\<lambda>r. le_output (row_entry r) = Some q) t"

definition sqla_check :: "file_table \<Rightarrow> pystr \<Rightarrow> py_error + ledger_entry option" where
  "sqla_check t p = (case scalar_one_or_none (rows_with_source t p) of
     Inl err \<Rightarrow> Inl err | Inr r \<Rightarrow> Inr (map_option row_entry r))"

definition sqla_check_by_output :: "file_table \<Rightarrow> pystr \<Rightarrow> py_error + ledger_entry option" where
  "sqla_check_by_output t q = (case scalar_one_or_none (rows_with_output t q) of
     Inl err \<Rightarrow> Inl err | Inr r \<Rightarrow> Inr (map_option row_entry r))"

definition next_row_id :: "file_table \<Rightarrow> nat" where
  "next_row_id t = Suc (foldr max (map row_id t) 0)"

definition sqla_record :: "ledger_entry \<Rightarrow> file_table \<Rightarrow> py_error + file_table" where
  "sqla_record e t = (case scalar_one_or_none (rows_with_source t (le_source e)) of
     Inl err \<Rightarrow> Inl err
   | Inr None \<Rightarrow> Inr (t @ [\<lparr>row_id = next_row_id t, row_entry = e\<rparr>])
   | Inr (Some r) \<Rightarrow> Inr (map (\<lambda>x. if row_id x = row_id r then x\<lparr>row_entry := e\<rparr> else x) t))"

text \<open>The counts of done files per series, for the series asked for.\<close>

definition translated_counts_for_series :: "file_table \<Rightarrow> nat list \<Rightarrow> pystr \<Rightarrow> nat option" where
  "translated_counts_for_series t ids s =
     (let n = length (filter (\<lambda>r. le_series (row_entry r) = Some s \<and> le_status (row_entry r) = Done) t)
      in if s \<in> set (map dec ids) \<and> n > 0 then Some n else None)"

text \<open>The UNIQUE constraint on the source path and the primary key.\<close>

definition sqla_invar :: "file_table \<Rightarrow> bool" where
  "sqla_invar t \<longleftrightarrow> distinct (map (\<lambda>r. le_source (row_entry r)) t) \<and> distinct (map row_id t)"

lemma filtered_single: "filter P xs = [x] \<Longrightarrow> x \<in> set xs \<and> P x"
  by (metis filter_eq_ConsD in_set_conv_decomp)

lemma filter_key_unique:
  "distinct (map f xs) \<Longrightarrow> filter (\<lambda>x. f x = k) xs = (case find (\<lambda>x. f x = k) xs of None \<Rightarrow> [] | Some x \<Rightarrow> [x])"
  by (induction xs) (auto simp: filter_empty_conv find_None_iff image_iff split: option.splits dest!: find_SomeD)

lemma source_unique:
  assumes "sqla_invar t"
  shows "scalar_one_or_none (rows_with_source t p) = Inr (find (\<lambda>r. le_source (row_entry r) = p) t)"
  using filter_key_unique[of "\<lambda>r. le_source (row_entry r)" t p] assms
  by (simp add: sqla_invar_def rows_with_source_def scalar_one_or_none_def split: option.splits)

lemma sqla_check_find:
  "sqla_invar t \<Longrightarrow> sqla_check t p = Inr (map_option row_entry (find (\<lambda>r. le_source (row_entry r) = p) t))"
  by (simp add: sqla_check_def source_unique)

lemma fresh_row_id: "r \<in> set t \<Longrightarrow> row_id r < next_row_id t"
proof -
  have "r \<in> set t \<Longrightarrow> row_id r \<le> foldr max (map row_id t) 0" by (induction t) auto
  then show "r \<in> set t \<Longrightarrow> row_id r < next_row_id t" by (simp add: next_row_id_def)
qed

lemma find_map_entry:
  "(\<And>x. P (row_entry (f x)) = P (row_entry x)) \<Longrightarrow>
     find (\<lambda>r. P (row_entry r)) (map f t) = map_option f (find (\<lambda>r. P (row_entry r)) t)"
  by (induction t) auto

text \<open>What a record does to the table: append, or replace the one row of that source.\<close>

lemma sqla_record_cases:
  assumes "sqla_invar t" and "sqla_record e t = Inr t'"
  obtains (insert) "t' = t @ [\<lparr>row_id = next_row_id t, row_entry = e\<rparr>]"
      "\<forall>r \<in> set t. le_source (row_entry r) \<noteq> le_source e"
    | (update) xs r ys where "t = xs @ r # ys" "t' = xs @ r\<lparr>row_entry := e\<rparr> # ys"
      "le_source (row_entry r) = le_source e"
proof (cases "find (\<lambda>r. le_source (row_entry r) = le_source e) t")
  case None
  with assms show ?thesis by (intro insert) (auto simp: sqla_record_def source_unique find_None_iff)
next
  case (Some r)
  then have r: "r \<in> set t" "le_source (row_entry r) = le_source e" by (auto simp: find_Some_iff)
  from split_list[OF r(1)] obtain xs ys where t: "t = xs @ r # ys" by blast
  from assms(1) t have "row_id r \<notin> row_id ` set xs \<union> row_id ` set ys" by (auto simp: sqla_invar_def)
  then have "map (\<lambda>x. if row_id x = row_id r then x\<lparr>row_entry := e\<rparr> else x) zs = zs"
    if "set zs \<subseteq> set xs \<union> set ys" for zs
    using that by (intro map_idI) (auto simp: image_iff dest!: subsetD)
  with assms Some t have "t' = xs @ r\<lparr>row_entry := e\<rparr> # ys"
    by (simp add: sqla_record_def source_unique)
  from update[OF t this r(2)] show ?thesis .
qed

lemma sqla_record_invar:
  assumes i: "sqla_invar t" and r: "sqla_record e t = Inr t'"
  shows "sqla_invar t'"
  using i r
proof (cases rule: sqla_record_cases)
  case insert
  with i show ?thesis using fresh_row_id[of _ t] by (fastforce simp: sqla_invar_def)
next
  case (update xs r0 ys)
  with i show ?thesis by (simp add: sqla_invar_def)
qed

lemma find_unique_source:
  assumes "sqla_invar (xs @ r # ys)"
  shows "find (\<lambda>x. le_source (row_entry x) = le_source (row_entry r)) xs = None"
proof -
  from assms have "le_source (row_entry r) \<notin> (\<lambda>x. le_source (row_entry x)) ` set xs"
    by (simp add: sqla_invar_def)
  then show ?thesis unfolding find_None_iff by (metis image_eqI)
qed

lemma sqla_check_row:
  assumes "sqla_invar t" and "r \<in> set t"
  shows "sqla_check t (le_source (row_entry r)) = Inr (Some (row_entry r))"
proof -
  from split_list[OF assms(2)] obtain xs ys where t: "t = xs @ r # ys" by blast
  with assms(1) find_unique_source[of xs r ys] show ?thesis by (simp add: sqla_check_find find_append)
qed

lemma sqla_find_record:
  assumes i: "sqla_invar t" and r: "sqla_record e t = Inr t'"
  shows "map_option row_entry (find (\<lambda>r. le_source (row_entry r) = p) t') =
    (if p = le_source e then Some e else map_option row_entry (find (\<lambda>r. le_source (row_entry r) = p) t))"
  using i r
proof (cases rule: sqla_record_cases)
  case insert
  then have "find (\<lambda>r. le_source (row_entry r) = le_source e) t = None" by (simp add: find_None_iff)
  with insert(1) show ?thesis by (auto simp: find_append split: option.splits)
next
  case (update xs r0 ys)
  from find_unique_source[of xs r0 ys] i update
  have "find (\<lambda>x. le_source (row_entry x) = le_source e) xs = None" by simp
  with update show ?thesis by (auto simp: find_append split: option.splits)
qed

lemma sqla_check_record:
  "sqla_invar t \<Longrightarrow> sqla_record e t = Inr t' \<Longrightarrow>
     sqla_check t' p = (if p = le_source e then Inr (Some e) else sqla_check t p)"
  by (simp add: sqla_check_find sqla_record_invar sqla_find_record)

interpretation sqla: ledger_protocol "[]" sqla_check sqla_check_by_output sqla_record sqla_invar
proof
  show "sqla_invar []" by (simp add: sqla_invar_def)
  show "sqla_check [] p = Inr None" for p
    by (simp add: sqla_check_def rows_with_source_def scalar_one_or_none_def)
  show "\<exists>x. sqla_check s p = Inr x" if "sqla_invar s" for s p
    using that by (simp add: sqla_check_find)
  show "le_source e = p" if "sqla_invar s" "sqla_check s p = Inr (Some e)" for s p e
    using that by (auto simp: sqla_check_find dest!: find_SomeD)
  show "\<exists>s'. sqla_record e s = Inr s'" if "sqla_invar s" for e s
    using that by (simp add: sqla_record_def source_unique split: option.splits)
  show "sqla_invar s'" if "sqla_invar s" "sqla_record e s = Inr s'" for s e s'
    using that by (rule sqla_record_invar)
  show "sqla_check s' p = (if p = le_source e then Inr (Some e) else sqla_check s p)"
    if "sqla_invar s" "sqla_record e s = Inr s'" for s e s' p
    using that by (rule sqla_check_record)
  show "le_output e = Some q \<and> sqla_check s (le_source e) = Inr (Some e)"
    if i: "sqla_invar s" and b: "sqla_check_by_output s q = Inr (Some e)" for s q e
  proof -
    from b obtain r where r: "rows_with_output s q = [r]" "e = row_entry r"
      by (auto simp: sqla_check_by_output_def scalar_one_or_none_def split: sum.splits list.splits)
    then have "r \<in> set s" "le_output e = Some q"
      using filtered_single[OF r(1)[unfolded rows_with_output_def]] by simp_all
    then show ?thesis using r i by (simp add: sqla_check_row)
  qed
  show "le_output e \<noteq> Some q"
    if "sqla_invar s" "sqla_check_by_output s q = Inr None" "sqla_check s p = Inr (Some e)" for s q p e
    using that by (auto simp: sqla_check_by_output_def scalar_one_or_none_def rows_with_output_def
        sqla_check_find filter_empty_conv split: list.splits dest!: find_SomeD)
  show "sqla_check_by_output s q = Inr None"
    if i: "sqla_invar s" and a: "\<And>p e. sqla_check s p = Inr (Some e) \<Longrightarrow> le_output e \<noteq> Some q" for s q
  proof -
    have "le_output (row_entry r) \<noteq> Some q" if "r \<in> set s" for r
      using a[of "le_source (row_entry r)" "row_entry r"] sqla_check_row[OF i that] by simp
    then show ?thesis
      by (simp add: sqla_check_by_output_def rows_with_output_def scalar_one_or_none_def filter_empty_conv
          cong: filter_cong)
  qed
qed

section \<open>Properties\<close>

definition sample_entry :: "pystr \<Rightarrow> entry_status \<Rightarrow> pystr \<Rightarrow> ledger_entry" where
  "sample_entry src st h = \<lparr>le_source = src, le_output = Some (lit ''/m/S.vi.srt''), le_status = st, le_hash = h,
     le_series = None, le_lang = None, le_episode = None, le_translated_at = None, le_quarantine = None\<rparr>"

text \<open>
  C38: The two ledgers are interchangeable for lookups by source: after any sequence of records both
  have succeeded, and both return the latest entry recorded for the source.
\<close>

theorem ledgers_agree:
  "\<exists>jl tl. record_all json_record es [] = Inr jl \<and> record_all sqla_record es [] = Inr tl
     \<and> (\<forall>p. json_check jl p = Inr (latest es p) \<and> sqla_check tl p = Inr (latest es p))"
proof -
  obtain jl where j: "record_all json_record es [] = Inr jl" using json.history_total by blast
  obtain tl where t: "record_all sqla_record es [] = Inr tl" using sqla.history_total by blast
  from j t json.check_history[OF j] sqla.check_history[OF t] show ?thesis by blast
qed

lemma one_source_row:
  "record_all sqla_record [a, b] [] = Inr [\<lparr>row_id = 1, row_entry = a\<rparr>, \<lparr>row_id = 2, row_entry = b\<rparr>]"
  if "le_source a \<noteq> le_source b"
  using that by (simp add: sqla_record_def rows_with_source_def scalar_one_or_none_def next_row_id_def)

text \<open>
  Lookups by output are not interchangeable. Two sources whose translations went to the same
  sidecar make the database ledger raise, where the JSON ledger returns the entry recorded first.
\<close>

theorem output_lookup_differs:
  assumes "le_source a \<noteq> le_source b" and "le_output a = Some q" and "le_output b = Some q"
  shows "\<exists>jl tl. record_all json_record [a, b] [] = Inr jl \<and> json_check_by_output jl q = Inr (Some a)
    \<and> record_all sqla_record [a, b] [] = Inr tl \<and> sqla_check_by_output tl q = Inl MultipleResultsFound"
  using assms one_source_row[OF assms(1)]
  by (simp add: json_record_def json_check_by_output_def sqla_check_by_output_def rows_with_output_def
      scalar_one_or_none_def)

theorem output_lookup_differs_witness:
  "\<exists>tl. record_all sqla_record [sample_entry (lit ''/m/S.en.srt'') Done [], sample_entry (lit ''/m/S.ko.srt'') Done []] [] = Inr tl
     \<and> sqla_check_by_output tl (lit ''/m/S.vi.srt'') = Inl MultipleResultsFound"
  using output_lookup_differs[of "sample_entry (lit ''/m/S.en.srt'') Done []" "sample_entry (lit ''/m/S.ko.srt'') Done []"
      "lit ''/m/S.vi.srt''"]
  by (auto simp: sample_entry_def lit_def)

end
