(* ===== verification/Translate_File.thy ===== *)
theory Translate_File
  imports Numbered_Response Splice Analysis_Laws Ledger
begin

text \<open>
  The translation of one file, \<open>translate_file\<close> of \<open>trezarr/translate/engine.py\<close>, composed from
  the components: the checks of the ledger, the Bible passes (analysis, attribution,
  reconciliation), the batches, the review, the brackets, the gate with its repair loop, the
  sidecar and the ledger again. The world is the ledger, the destination file, the quarantine
  artifact and the Bible; the model's answers, the prompts and the scheduler's
  choice of which failures of a task group are seen are arguments.
\<close>

section \<open>The world and the arguments\<close>

datatype dest_file = NoFile | ForeignFile | Sidecar sub_doc

record 's world =
  w_ledger :: 's
  w_dest :: dest_file
  w_artifact :: "(pystr \<times> nat list) option"
  w_bible :: bible_db

record 's ledger_ops =
  lo_check :: "'s \<Rightarrow> pystr \<Rightarrow> py_error + ledger_entry option"
  lo_by_output :: "'s \<Rightarrow> pystr \<Rightarrow> py_error + ledger_entry option"
  lo_record :: "ledger_entry \<Rightarrow> 's \<Rightarrow> py_error + 's"

text \<open>Exceptions on their way out: of a batch, of Python, or of the model's client.\<close>

datatype 'e failure = Validation batch_error | Python py_error | External 'e

datatype 'e file_result =
    FileDone pystr
  | FileSkipped
  | FileQuarantined pystr
  | FileRaised "'e failure list"

type_synonym hints = "(nat \<times> (pystr \<times> pystr)) list"

record media_info =
  md_kind :: pystr
  md_series_id :: int
  md_tvdb :: "int option"
  md_tmdb :: "int option"
  md_metadata :: "(pystr \<times> pystr) list"
  md_source_type :: pystr
  md_season :: "nat option"
  md_title :: "pystr option"

datatype 'e analysis = AnalysisOk bible_db | AnalysisFailed pystr bible_db | AnalysisRaised "'e failure" bible_db

record file_settings =
  fs_batch :: batch_cfg
  fs_attr_batch :: batch_cfg
  fs_review_batch :: batch_cfg
  fs_retries :: nat
  fs_attribution :: bool
  fs_self_review :: bool
  fs_envelopes :: bool
  fs_gate_repair :: bool
  fs_repair_max :: nat
  fs_gate :: gate_settings
  fs_pronouns :: pronoun_settings
  fs_pass1 :: bool
  fs_pass1_limit :: int

record 'e surroundings =
  su_repr :: "pystr \<Rightarrow> pystr"
  su_json_bytes :: "(pystr \<times> pystr) list \<Rightarrow> nat"
  su_parse_json :: "pystr \<Rightarrow> line_attribution list option"
  su_text_mode :: bool
  su_db_lower :: "pystr \<Rightarrow> pystr"
  su_chunk_reply :: "series_bible \<Rightarrow> pystr \<Rightarrow> nat \<Rightarrow> pystr list \<Rightarrow> 'e + bible_analysis option"
  su_attr_reply :: "nat \<Rightarrow> 'e + attr_reply"
  su_arrange :: "char_pair list \<Rightarrow> char_pair list"
  su_batch_llm :: "nat \<Rightarrow> 'e llm"
  su_review_llm :: "nat \<Rightarrow> message list \<Rightarrow> 'e + pystr"
  su_repair_llm :: "nat \<Rightarrow> 'e llm"
  su_prompt :: "hints option \<Rightarrow> pystr list option \<Rightarrow> pystr option \<Rightarrow> nat option \<Rightarrow> pystr list \<Rightarrow> pystr list \<Rightarrow> pystr list \<Rightarrow> pystr"
  su_review_prompt :: "pronoun_map \<Rightarrow> series_bible \<Rightarrow> char_pair option \<Rightarrow> pystr list \<Rightarrow> pystr list \<Rightarrow> pystr"
  su_gate_detail :: "gate_failure \<Rightarrow> pystr"
  su_seen :: "'e failure list \<Rightarrow> 'e failure list"

section \<open>Task groups\<close>

definition failure_of :: "'e batch_outcome \<Rightarrow> 'e failure option" where
  "failure_of r = (case r of
     Texts ts \<Rightarrow> None
   | BatchFailed e \<Rightarrow> Some (if is_batch_error e then Validation e else Python ValueError)
   | CallFailed e \<Rightarrow> Some (External e))"

definition texts_of :: "'e batch_outcome \<Rightarrow> pystr list" where
  "texts_of r = (case r of Texts ts \<Rightarrow> ts | _ \<Rightarrow> [])"

definition is_validation :: "'e failure \<Rightarrow> bool" where
  "is_validation f \<longleftrightarrow> (case f of Validation e \<Rightarrow> True | _ \<Rightarrow> False)"

text \<open>
  The group waits for all tasks; its error holds the failures seen before the others were
  cancelled. A batch error among them quarantines the file, and what is left is raised.
\<close>

datatype 'e batch_phase = AllTexts "pystr list list" | BatchQuarantine pystr "'e failure list" | BatchRaised "'e failure list"

definition failure_text :: "(pystr \<Rightarrow> pystr) \<Rightarrow> 'e failure \<Rightarrow> pystr" where
  "failure_text rp f = (case f of Validation e \<Rightarrow> error_text rp e | _ \<Rightarrow> [])"

definition gather_batches :: "(pystr \<Rightarrow> pystr) \<Rightarrow> ('e failure list \<Rightarrow> 'e failure list) \<Rightarrow> 'e batch_outcome list \<Rightarrow> 'e batch_phase" where
  "gather_batches rp seen outs =
     (let errs = List.map_filter failure_of outs in
      if errs = [] then AllTexts (map texts_of outs)
      else let es = seen errs; bad = filter is_validation es; rest = filter (\<lambda>f. \<not> is_validation f) es
        in if bad = [] then BatchRaised rest else BatchQuarantine (failure_text rp (hd bad)) rest)"

section \<open>The Bible passes\<close>

datatype 'e bible_phase =
    NoBible
  | BibleFailed pystr
  | BibleReady series_bible "line_attribution list" pronoun_map
  | BibleRaised "'e failure list"

definition lift_raise :: "py_error \<Rightarrow> bible_db \<Rightarrow> 'e bible_phase \<times> bible_db" where
  "lift_raise e db = (BibleRaised [Python e], db)"

fun attributes_of :: "('e + line_attribution list) list \<Rightarrow> 'e failure list \<times> line_attribution list" where
  "attributes_of [] = ([], [])"
| "attributes_of (Inl e # rs) = (let (es, as) = attributes_of rs in (External e # es, as))"
| "attributes_of (Inr a # rs) = (let (es, as) = attributes_of rs in (es, a @ as))"

definition attribution_pass ::
  "file_settings \<Rightarrow> 'e surroundings \<Rightarrow> sub_doc \<Rightarrow> series_bible \<Rightarrow> 'e failure list \<times> line_attribution list" where
  "attribution_pass fs su src bible =
     (if \<not> fs_attribution fs then ([], [])
      else attributes_of (map (\<lambda>(i, b). attribute_batch True (su_text_mode su) (su_attr_reply su i) (su_parse_json su) (sb_characters bible) b)
        (enumerate 0 (batch_subdoc (fs_attr_batch fs) src))))"

text \<open>Pass 1: the analysis of the file and its merge, whose error quarantines the file.\<close>

definition analysis_pass ::
  "file_settings \<Rightarrow> 'e surroundings \<Rightarrow> sub_doc \<Rightarrow> nat \<Rightarrow> series_bible \<Rightarrow> pystr \<Rightarrow> bible_db \<Rightarrow> 'e analysis" where
  "analysis_pass fs su src sid bible ep db =
     (case analyze_file (fs_pass1 fs) (su_text_mode su) (fs_pass1_limit fs) (su_repr su) (su_chunk_reply su bible ep) ep src of
        AnalysisRaise e \<Rightarrow> AnalysisRaised (External e) db
      | AnalysisError msg \<Rightarrow> AnalysisFailed msg db
      | Analyzed a \<Rightarrow>
          (case merge_bible_analysis (su_db_lower su) (su_repr su) (ps_relationship_events (fs_pronouns fs)) sid ep a db of
             (None, db') \<Rightarrow> AnalysisOk db'
           | (Some msg, db') \<Rightarrow> AnalysisFailed msg db'))"

definition bible_passes ::
  "file_settings \<Rightarrow> 'e surroundings \<Rightarrow> media_info option \<Rightarrow> pystr \<Rightarrow> sub_doc \<Rightarrow> bible_db \<Rightarrow> 'e bible_phase \<times> bible_db" where
  "bible_passes fs su media stem src db0 =
     (case media of
        None \<Rightarrow> (NoBible, db0)
      | Some md \<Rightarrow>
          (let kind = (if md_kind md = [] then lit ''sonarr'' else md_kind md);
               ep = derive_episode_key (md_source_type md) (md_season md) (md_title md) (Some stem) in
           case get_or_create_series (su_json_bytes su) kind (lit ''default'') (md_series_id md) (md_metadata md) (md_tvdb md) (md_tmdb md) db0 of
             Inl e \<Rightarrow> lift_raise e db0
           | Inr (db1, series) \<Rightarrow>
               (case load_series_bible (sr_id series) db1 of
                  Inl e \<Rightarrow> lift_raise e db1
                | Inr bible0 \<Rightarrow>
                    (case analysis_pass fs su src (sr_id series) bible0 ep db1 of
                       AnalysisRaised f db2 \<Rightarrow> (BibleRaised [f], db2)
                     | AnalysisFailed reason db2 \<Rightarrow> (BibleFailed (lit ''pass1 analysis failure: '' @ reason), db2)
                     | AnalysisOk db2 \<Rightarrow>
                         (case load_series_bible (sr_id series) db2 of
                            Inl e \<Rightarrow> lift_raise e db2
                          | Inr bible \<Rightarrow>
                              (let (errs, flat) = attribution_pass fs su src bible in
                               if errs \<noteq> [] then (BibleRaised (su_seen su errs), db2)
                               else case reconcile_attributions (su_arrange su) (fs_pronouns fs) (view_of bible) (sr_id series) ep flat db2 of
                                 Inl (e, db3) \<Rightarrow> lift_raise e db3
                               | Inr (db3, m) \<Rightarrow> (BibleReady bible flat m, db3)))))))"

section \<open>Hints\<close>

definition hint_of :: "pronoun_map \<Rightarrow> name_index \<Rightarrow> line_attribution \<Rightarrow> (pystr \<times> pystr) option" where
  "hint_of m idx a =
     (case (resolve_char_id idx (la_speaker a), resolve_char_id idx (la_addressee a)) of
        (Some i, Some j) \<Rightarrow> map_of m (i, j)
      | _ \<Rightarrow> None)"

definition local_hints :: "pronoun_map \<Rightarrow> name_index \<Rightarrow> line_attribution list \<Rightarrow> hints option" where
  "local_hints m idx as =
     (let hs = List.map_filter (\<lambda>(i, a). map_option (\<lambda>h. (i, h)) (hint_of m idx a)) (enumerate 1 as)
      in if hs = [] then None else Some hs)"

fun batch_hints :: "pronoun_map \<Rightarrow> name_index \<Rightarrow> line_attribution list \<Rightarrow> batch list \<Rightarrow> hints option list" where
  "batch_hints m idx flat [] = []"
| "batch_hints m idx flat (b # bs) =
     (let n = length (batch_cues b) in local_hints m idx (take n flat) # batch_hints m idx (drop n flat) bs)"

definition per_batch_hints :: "pronoun_map \<Rightarrow> series_bible option \<Rightarrow> line_attribution list \<Rightarrow> batch list \<Rightarrow> hints option list" where
  "per_batch_hints m bible flat bs =
     (case bible of
        Some b \<Rightarrow> (if m = [] then replicate (length bs) None else batch_hints m (name_index (sb_characters b)) flat bs)
      | None \<Rightarrow> replicate (length bs) None)"

text \<open>The hints of a repair are looked up by the position of the cue in the document.\<close>

definition repair_hints :: "pronoun_map \<Rightarrow> series_bible option \<Rightarrow> line_attribution list \<Rightarrow> nat list \<Rightarrow> hints option" where
  "repair_hints m bible flat js =
     (case bible of
        None \<Rightarrow> None
      | Some b \<Rightarrow>
          (if flat = [] \<or> sb_characters b = [] \<or> m = [] then None
           else let idx = name_index (sb_characters b);
                    hs = List.map_filter (\<lambda>(k, i). if i \<ge> length flat then None else map_option (\<lambda>h. (k, h)) (hint_of m idx (flat ! i)))
                      (enumerate 1 js)
             in if hs = [] then None else Some hs))"

text \<open>The most frequent resolved pair of a review batch, the first one counted where several are.\<close>

fun count_pair :: "char_pair \<Rightarrow> (char_pair \<times> nat) list \<Rightarrow> (char_pair \<times> nat) list" where
  "count_pair p [] = [(p, 1)]"
| "count_pair p ((q, n) # cs) = (if p = q then (q, Suc n) # cs else (q, n) # count_pair p cs)"

fun first_max :: "(char_pair \<times> nat) list \<Rightarrow> char_pair option" where
  "first_max [] = None"
| "first_max ((p, n) # cs) = (if \<forall>(q, k) \<in> set cs. k \<le> n then Some p else first_max cs)"

definition resolved_pair :: "pronoun_map \<Rightarrow> name_index \<Rightarrow> line_attribution \<Rightarrow> char_pair option" where
  "resolved_pair m idx a =
     (case (resolve_char_id idx (la_speaker a), resolve_char_id idx (la_addressee a)) of
        (Some i, Some j) \<Rightarrow> (if map_of m (i, j) \<noteq> None then Some (i, j) else None)
      | _ \<Rightarrow> None)"

fun dominant_pairs :: "pronoun_map \<Rightarrow> name_index \<Rightarrow> line_attribution list \<Rightarrow> batch list \<Rightarrow> char_pair option list" where
  "dominant_pairs m idx flat [] = []"
| "dominant_pairs m idx flat (b # bs) =
     (let n = length (batch_cues b)
      in first_max (foldl (\<lambda>cs p. count_pair p cs) [] (List.map_filter (resolved_pair m idx) (take n flat)))
         # dominant_pairs m idx (drop n flat) bs)"


section \<open>Translation of the document\<close>

definition glossary_of :: "series_bible option \<Rightarrow> pystr list option" where
  "glossary_of bible = map_option (\<lambda>b. build_glossary_lines (sb_terms b) (sb_characters b)) bible"

definition register_of :: "series_bible option \<Rightarrow> pystr option" where
  "register_of bible = (case bible of None \<Rightarrow> None | Some b \<Rightarrow> sr_register (sb_series b))"

definition allowlist_of :: "series_bible option \<Rightarrow> pystr set option" where
  "allowlist_of bible =
     map_option (\<lambda>b. proper_noun_allowlist (build_glossary_lines (sb_terms b) (sb_characters b)) (sb_characters b) (sb_terms b)) bible"

text \<open>Pass 3, and the document assembled from its texts.\<close>

definition translate_pass ::
  "file_settings \<Rightarrow> 'e surroundings \<Rightarrow> series_bible option \<Rightarrow> line_attribution list \<Rightarrow> pronoun_map \<Rightarrow> sub_doc \<Rightarrow> 'e batch_phase" where
  "translate_pass fs su bible flat m src =
     (let bs = batch_subdoc (fs_batch fs) src
      in gather_batches (su_repr su) (su_seen su)
           (map (\<lambda>(i, b, h). fst (translate_batch (su_batch_llm su i) (su_repr su)
                (su_prompt su h (glossary_of bible) (register_of bible) None) (fs_retries fs) b))
             (enumerate 0 (zip bs (per_batch_hints m bible flat bs)))))"

text \<open>Pass 4, in which every failure leaves the batch as it is.\<close>

definition review_pass ::
  "file_settings \<Rightarrow> 'e surroundings \<Rightarrow> series_bible option \<Rightarrow> line_attribution list \<Rightarrow> pronoun_map \<Rightarrow> sub_doc \<Rightarrow> sub_doc
     \<Rightarrow> py_error + sub_doc" where
  "review_pass fs su bible flat m src trn =
     (case bible of
        None \<Rightarrow> Inr trn
      | Some b \<Rightarrow>
          (if \<not> fs_self_review fs then Inr trn
           else let bs = batch_subdoc (fs_review_batch fs) trn;
                    doms = (if flat = [] then replicate (length bs) None else dominant_pairs m (name_index (sb_characters b)) flat bs);
                    source = map_of (rev (map (\<lambda>l. (sl_index l, sl_text l)) (doc_lines src)));
                    results = map (\<lambda>(i, rb, dom). review_batch (su_review_llm su i) (su_review_prompt su m b dom) source rb)
                      (enumerate 0 (zip bs doms))
             in case splice_review_corrections (doc_lines trn) bs results of
                  Inl e \<Rightarrow> Inl e
                | Inr ls \<Rightarrow> Inr (trn\<lparr>doc_lines := ls\<rparr>)))"

section \<open>The gate and its repair loop\<close>

definition REPAIRABLE_CHECKS :: "nat list" where
  "REPAIRABLE_CHECKS = [3, 9, 10, 11, 12]"

text \<open>The directive in the prompt of a repair is chosen by the number of the check; there is one for
  each repairable check.\<close>

definition repair_directive :: "nat \<Rightarrow> nat option" where
  "repair_directive check = (if check \<in> set REPAIRABLE_CHECKS then Some check else None)"

datatype 'e repair = Repaired "sub_line list" | RepairMiss | RepairRaised "'e failure"

definition repair_failing_cues ::
  "file_settings \<Rightarrow> 'e surroundings \<Rightarrow> series_bible option \<Rightarrow> line_attribution list \<Rightarrow> pronoun_map \<Rightarrow> nat \<Rightarrow> nat
     \<Rightarrow> nat list \<Rightarrow> sub_doc \<Rightarrow> sub_doc \<Rightarrow> 'e repair" where
  "repair_failing_cues fs su bible flat m attempt check failing src trn =
     (case failing_cues (doc_lines src) (doc_lines trn) failing of
        Inl e \<Rightarrow> RepairRaised (Python e)
      | Inr [] \<Rightarrow> RepairMiss
      | Inr cs \<Rightarrow>
          (let b = \<lparr>batch_cues = map fst cs, batch_before = [], batch_after = []\<rparr>; js = map snd cs in
           case fst (translate_batch (su_repair_llm su attempt) (su_repr su)
               (su_prompt su (repair_hints m bible flat js) (glossary_of bible) (register_of bible) (repair_directive check))
               (fs_retries fs) b) of
             CallFailed e \<Rightarrow> RepairRaised (External e)
           | BatchFailed e \<Rightarrow> (if is_batch_error e then RepairMiss else RepairRaised (Python ValueError))
           | Texts ts \<Rightarrow>
               (case splice_repair (set js) 0 ts (doc_lines trn) of
                  Inl e \<Rightarrow> RepairRaised (Python e)
                | Inr ls \<Rightarrow> Repaired ls)))"

datatype 'e gate_phase = GatePassed sub_doc | GateQuarantine gate_failure | GateRaised "'e failure"

definition failing_of :: "gate_failure \<Rightarrow> nat list" where
  "failing_of f = (case gf_indices f of None \<Rightarrow> [] | Some is \<Rightarrow> is)"

definition repairable :: "file_settings \<Rightarrow> gate_failure \<Rightarrow> bool" where
  "repairable fs f \<longleftrightarrow> fs_gate_repair fs \<and> gf_check f \<in> set REPAIRABLE_CHECKS \<and> failing_of f \<noteq> []"

text \<open>The loop with the budget left; the second result counts the repairs made.\<close>

fun gate_loop ::
  "file_settings \<Rightarrow> 'e surroundings \<Rightarrow> series_bible option \<Rightarrow> line_attribution list \<Rightarrow> pronoun_map \<Rightarrow> sub_doc
     \<Rightarrow> nat \<Rightarrow> nat \<Rightarrow> sub_doc \<Rightarrow> 'e gate_phase \<times> nat" where
  "gate_loop fs su bible flat m src 0 k trn =
     (case validate_subdoc (fs_gate fs) (allowlist_of bible) trn src of
        None \<Rightarrow> (GatePassed trn, k)
      | Some f \<Rightarrow> (GateQuarantine f, k))"
| "gate_loop fs su bible flat m src (Suc budget) k trn =
     (case validate_subdoc (fs_gate fs) (allowlist_of bible) trn src of
        None \<Rightarrow> (GatePassed trn, k)
      | Some f \<Rightarrow>
          (if \<not> repairable fs f then (GateQuarantine f, k)
           else case repair_failing_cues fs su bible flat m k (gf_check f) (failing_of f) src trn of
             RepairRaised e \<Rightarrow> (GateRaised e, Suc k)
           | RepairMiss \<Rightarrow> (GateQuarantine f, Suc k)
           | Repaired ls \<Rightarrow>
               gate_loop fs su bible flat m src budget (Suc k)
                 (preserve_source_envelopes (fs_envelopes fs) (trn\<lparr>doc_lines := ls\<rparr>) src)))"

text \<open>The first words of the message of each check; the rest is an argument.\<close>

definition gate_prefix :: "nat \<Rightarrow> pystr" where
  "gate_prefix check =
     (if check = 1 then lit ''Cue count mismatch: '' else if check = 2 then lit ''Empty translated cue at index ''
      else if check = 3 then lit ''Vietnamese diacritic ratio '' else if check = 4 then lit ''Timecode/index mutation at cue ''
      else if check = 5 then lit ''Cue '' else if check = 6 then lit ''Orphan sentinel token found in cue ''
      else if check = 7 then lit ''UTF-8 encode error at cue '' else if check = 8 then lit ''Prompt scaffolding leaked into cue ''
      else if check = 9 then lit ''CJK/Hangul/Kana script leaked into '' else if check = 10 then lit ''Source-language passthrough leak in ''
      else if check = 11 then lit ''English honorific + name leaked into '' else lit ''Gloss/parenthetical leaked into '')"

definition gate_reason :: "'e surroundings \<Rightarrow> gate_failure \<Rightarrow> pystr" where
  "gate_reason su f = gate_prefix (gf_check f) @ su_gate_detail su f"

section \<open>The pipeline of a document\<close>

datatype 'e doc_result =
    DocTranslated sub_doc
  | DocQuarantined pystr "nat list" "'e failure list"
  | DocRaised "'e failure list"

text \<open>\<open>next\<close> on an exhausted iterator inside a coroutine surfaces as \<open>RuntimeError\<close>.\<close>

definition after_assembly ::
  "file_settings \<Rightarrow> 'e surroundings \<Rightarrow> series_bible option \<Rightarrow> line_attribution list \<Rightarrow> pronoun_map \<Rightarrow> sub_doc \<Rightarrow> sub_doc
     \<Rightarrow> 'e doc_result" where
  "after_assembly fs su bible flat m src trn =
     (case review_pass fs su bible flat m src trn of
        Inl e \<Rightarrow> DocRaised [Python RuntimeError]
      | Inr reviewed \<Rightarrow>
          (case fst (gate_loop fs su bible flat m src (fs_repair_max fs) 0
               (preserve_source_envelopes (fs_envelopes fs) reviewed src)) of
             GatePassed doc \<Rightarrow> DocTranslated doc
           | GateQuarantine f \<Rightarrow> DocQuarantined (gate_reason su f) (failing_of f) []
           | GateRaised e \<Rightarrow> DocRaised [e]))"

definition translate_doc ::
  "file_settings \<Rightarrow> 'e surroundings \<Rightarrow> series_bible option \<Rightarrow> line_attribution list \<Rightarrow> pronoun_map \<Rightarrow> sub_doc \<Rightarrow> 'e doc_result" where
  "translate_doc fs su bible flat m src =
     (case translate_pass fs su bible flat m src of
        BatchQuarantine reason rest \<Rightarrow> DocQuarantined reason [] rest
      | BatchRaised es \<Rightarrow> DocRaised es
      | AllTexts results \<Rightarrow>
          (case assemble_doc src results of
             Inl e \<Rightarrow> DocRaised [Python RuntimeError]
           | Inr trn \<Rightarrow> after_assembly fs su bible flat m src trn))"

section \<open>The file\<close>

record file_job =
  fj_path :: pystr
  fj_dest :: pystr
  fj_stem :: pystr
  fj_hash :: pystr
  fj_now :: pystr
  fj_artifact :: pystr
  fj_media :: "media_info option"

definition entry_of :: "file_job \<Rightarrow> pystr option \<Rightarrow> entry_status \<Rightarrow> ledger_entry" where
  "entry_of j output status =
     \<lparr>le_source = fj_path j, le_output = output, le_status = status, le_hash = fj_hash j, le_series = None, le_lang = None,
      le_episode = None, le_translated_at = None, le_quarantine = None\<rparr>"

definition in_progress_entry :: "file_job \<Rightarrow> ledger_entry" where
  "in_progress_entry j = entry_of j (Some (fj_dest j)) InProgress"

definition quarantine_entry :: "file_job \<Rightarrow> ledger_entry" where
  "quarantine_entry j = (entry_of j None Quarantined)\<lparr>le_quarantine := Some (fj_artifact j)\<rparr>"

text \<open>\<open>str(arr_series_id)\<close> where there is an item and its id is not zero.\<close>

definition ledger_series_id :: "media_info option \<Rightarrow> pystr option" where
  "ledger_series_id media = (case media of
     None \<Rightarrow> None
   | Some md \<Rightarrow> (if md_series_id md = 0 then None
       else Some (if md_series_id md < 0 then 45 # dec (nat (- md_series_id md)) else dec (nat (md_series_id md)))))"

definition done_entry :: "file_job \<Rightarrow> ledger_entry" where
  "done_entry j = (entry_of j (Some (fj_dest j)) Done)
     \<lparr>le_series := ledger_series_id (fj_media j), le_translated_at := Some (fj_now j)\<rparr>"

definition put_record :: "'s ledger_ops \<Rightarrow> ledger_entry \<Rightarrow> 'e file_result \<Rightarrow> 's world \<Rightarrow> 'e file_result \<times> 's world" where
  "put_record lo e r w = (case lo_record lo e (w_ledger w) of
     Inl err \<Rightarrow> (FileRaised [Python err], w)
   | Inr l \<Rightarrow> (r, w\<lparr>w_ledger := l\<rparr>))"

text \<open>The artifact, the record, and then what the task group has left to raise.\<close>

definition quarantine_file ::
  "'s ledger_ops \<Rightarrow> file_job \<Rightarrow> pystr \<Rightarrow> nat list \<Rightarrow> 'e failure list \<Rightarrow> 's world \<Rightarrow> 'e file_result \<times> 's world" where
  "quarantine_file lo j reason failing rest w =
     put_record lo (quarantine_entry j) (if rest = [] then FileQuarantined reason else FileRaised rest)
       (w\<lparr>w_artifact := Some (reason, failing)\<rparr>)"

text \<open>What stands before the translation: a foreign sidecar or an unchanged source is skipped.\<close>

definition preflight :: "'s ledger_ops \<Rightarrow> file_job \<Rightarrow> 's world \<Rightarrow> py_error + bool" where
  "preflight lo j w =
     (case lo_check lo (w_ledger w) (fj_path j) of
        Inl e \<Rightarrow> Inl e
      | Inr None \<Rightarrow>
          (if w_dest w = NoFile then Inr True
           else case lo_by_output lo (w_ledger w) (fj_dest j) of
             Inl e \<Rightarrow> Inl e
           | Inr None \<Rightarrow> Inr False
           | Inr (Some prior) \<Rightarrow> Inr True)
      | Inr (Some e) \<Rightarrow> Inr (\<not> (le_status e = Done \<and> w_dest w \<noteq> NoFile \<and> le_hash e = fj_hash j)))"

definition run_file ::
  "file_settings \<Rightarrow> 'e surroundings \<Rightarrow> 's ledger_ops \<Rightarrow> file_job \<Rightarrow> pystr + sub_doc \<Rightarrow> 'e option \<Rightarrow> 's world \<Rightarrow> 'e file_result \<times> 's world" where
  "run_file fs su lo j read_result write_error w =
     (case read_result of
        Inl exc \<Rightarrow> quarantine_file lo j (lit ''read/batch failure: '' @ exc) [] [] w
      | Inr src \<Rightarrow>
          (let (phase, db) = bible_passes fs su (fj_media j) (fj_stem j) src (w_bible w); w1 = w\<lparr>w_bible := db\<rparr> in
           case (case phase of
                   BibleFailed reason \<Rightarrow> DocQuarantined reason [] []
                 | BibleRaised es \<Rightarrow> DocRaised es
                 | NoBible \<Rightarrow> translate_doc fs su None [] [] src
                 | BibleReady b flat m \<Rightarrow> translate_doc fs su (Some b) flat m src) of
             DocQuarantined reason failing rest \<Rightarrow> quarantine_file lo j reason failing rest w1
           | DocRaised es \<Rightarrow> (FileRaised es, w1)
           | DocTranslated doc \<Rightarrow>
               (case write_error of
                  Some e \<Rightarrow> (FileRaised [External e], w1)
                | None \<Rightarrow> put_record lo (done_entry j) (FileDone (fj_dest j)) (w1\<lparr>w_dest := Sidecar doc\<rparr>))))"

definition translate_file ::
  "file_settings \<Rightarrow> 'e surroundings \<Rightarrow> 's ledger_ops \<Rightarrow> file_job \<Rightarrow> pystr + sub_doc \<Rightarrow> 'e option \<Rightarrow> 's world \<Rightarrow> 'e file_result \<times> 's world" where
  "translate_file fs su lo j read_result write_error w =
     (case preflight lo j w of
        Inl e \<Rightarrow> (FileRaised [Python e], w)
      | Inr False \<Rightarrow> (FileSkipped, w)
      | Inr True \<Rightarrow>
          (case lo_record lo (in_progress_entry j) (w_ledger w) of
             Inl e \<Rightarrow> (FileRaised [Python e], w)
           | Inr l \<Rightarrow> run_file fs su lo j read_result write_error (w\<lparr>w_ledger := l\<rparr>)))"


section \<open>The batches fit the document\<close>

lemma translate_batch_length:
  "translate_batch llm rp prompt_of retries b = (Texts ts, calls) \<Longrightarrow> length ts = length (batch_cues b)"
  unfolding translate_batch_eq by (auto dest!: correction_loop_texts read_reply_ok)

lemma length_batch_hints [simp]: "length (batch_hints m idx flat bs) = length bs"
  by (induction m idx flat bs rule: batch_hints.induct) (auto simp: Let_def)

lemma length_per_batch_hints [simp]: "length (per_batch_hints m bible flat bs) = length bs"
  by (simp add: per_batch_hints_def split: option.splits)

lemma length_dominant_pairs [simp]: "length (dominant_pairs m idx flat bs) = length bs"
  by (induction m idx flat bs rule: dominant_pairs.induct) (auto simp: Let_def)

lemma map_filter_Nil: "List.map_filter f xs = [] \<longleftrightarrow> (\<forall>x \<in> set xs. f x = None)"
  by (induction xs) (auto simp: List.map_filter_simps split: option.splits)

lemma set_map_filter: "set (List.map_filter f xs) = {y. \<exists>x \<in> set xs. f x = Some y}"
  by (induction xs) (auto simp: List.map_filter_simps split: option.splits)

lemma failure_of_None: "failure_of r = None \<longleftrightarrow> (\<exists>ts. r = Texts ts)"
  by (cases r) (auto simp: failure_of_def)

text \<open>The scheduler shows some failure where there is one, and invents none.\<close>

definition honest :: "('a list \<Rightarrow> 'a list) \<Rightarrow> bool" where
  "honest seen \<longleftrightarrow> (\<forall>es. es \<noteq> [] \<longrightarrow> seen es \<noteq> [] \<and> set (seen es) \<subseteq> set es)"

lemma gather_all: "gather_batches rp seen outs = AllTexts rs \<Longrightarrow> rs = map texts_of outs \<and> (\<forall>r \<in> set outs. \<exists>ts. r = Texts ts)"
  by (auto simp: gather_batches_def Let_def map_filter_Nil failure_of_None split: if_splits)

lemma translate_pass_fit:
  assumes "translate_pass fs su bible flat m src = AllTexts rs"
  shows "results_fit (batch_subdoc (fs_batch fs) src) rs"
proof -
  let ?bs = "batch_subdoc (fs_batch fs) src" and ?hs = "per_batch_hints m bible flat (batch_subdoc (fs_batch fs) src)"
  let ?tr = "\<lambda>(i, b, h). fst (translate_batch (su_batch_llm su i) (su_repr su)
                (su_prompt su h (glossary_of bible) (register_of bible) None) (fs_retries fs) b)"
  from assms have g: "rs = map texts_of (map ?tr (enumerate 0 (zip ?bs ?hs)))"
    "\<forall>r \<in> set (map ?tr (enumerate 0 (zip ?bs ?hs))). \<exists>ts. r = Texts ts"
    by (auto simp: translate_pass_def Let_def dest!: gather_all)
  have one: "length (texts_of (?tr x)) = length (batch_cues (fst (snd x)))" if "x \<in> set (enumerate 0 (zip ?bs ?hs))" for x
  proof -
    from g(2) that obtain ts where t: "?tr x = Texts ts" by auto
    obtain i b h where x: "x = (i, b, h)" by (metis surj_pair)
    let ?tb = "translate_batch (su_batch_llm su i) (su_repr su)
        (su_prompt su h (glossary_of bible) (register_of bible) None) (fs_retries fs) b"
    from t x have "fst ?tb = Texts ts" by simp
    then have "?tb = (Texts ts, snd ?tb)" by (simp add: prod_eq_iff)
    from translate_batch_length[OF this] t x show ?thesis by (simp add: texts_of_def)
  qed
  have "map length rs = map (\<lambda>x. length (batch_cues (fst (snd x)))) (enumerate 0 (zip ?bs ?hs))"
    unfolding g(1) map_map using one by (intro map_cong) auto
  also have "\<dots> = map (\<lambda>b. length (batch_cues b)) ?bs"
    by (rule nth_equalityI) (simp_all add: nth_enumerate_eq)
  finally show ?thesis by (simp add: results_fit_def)
qed

lemma review_pass_ok: "\<exists>out. review_pass fs su bible flat m src trn = Inr out \<and> retexts (doc_lines trn) (doc_lines out)"
proof (cases bible)
  case (Some b)
  show ?thesis
  proof (cases "fs_self_review fs")
    case True
    let ?bs = "batch_subdoc (fs_review_batch fs) trn"
    let ?doms = "if flat = [] then replicate (length ?bs) None else dominant_pairs m (name_index (sb_characters b)) flat ?bs"
    let ?source = "map_of (rev (map (\<lambda>l. (sl_index l, sl_text l)) (doc_lines src)))"
    let ?rs = "map (\<lambda>(i, rb, dom). review_batch (su_review_llm su i) (su_review_prompt su m b dom) ?source rb) (enumerate 0 (zip ?bs ?doms))"
    have "length ?rs = length ?bs" by simp
    from splice_review_ok[OF this] obtain out where
      "splice_review_corrections (doc_lines trn) ?bs ?rs = Inr out" "retexts (doc_lines trn) out" by blast
    then show ?thesis using Some True by (auto simp: review_pass_def Let_def)
  qed (use Some in \<open>auto simp: review_pass_def\<close>)
qed (auto simp: review_pass_def)

section \<open>The gate sees the headers of the source\<close>

lemma retexts_nth: "retexts a b \<longleftrightarrow> length a = length b \<and> (\<forall>i < length a. retext (a ! i) (b ! i))"
  by (simp add: retexts_def list_all2_conv_all_nth)

lemma retext_header: "retext a b \<Longrightarrow> sl_index b = sl_index a \<and> sl_start b = sl_start a \<and> sl_end b = sl_end a"
  by (auto simp: retext_def split: if_splits)

lemma retexts_structural:
  assumes "retexts (doc_lines src) (doc_lines trn)"
  shows "check_count trn src = None" "check_headers trn src = None" "check_timing_preserved trn src = None"
proof -
  have l: "length (doc_lines src) = length (doc_lines trn)" using assms by (simp add: retexts_nth)
  have h: "\<forall>(a, b) \<in> set (zip (doc_lines src) (doc_lines trn)). retext a b"
    using assms by (auto simp: retexts_def list_all2_iff)
  then have "\<forall>p \<in> set (zip (doc_lines src) (doc_lines trn)). \<not> header_mutated p"
    using retext_header by (fastforce simp: header_mutated_def)
  then have 4: "find_index header_mutated (zip (doc_lines src) (doc_lines trn)) = None" by (simp add: find_index_None)
  have "\<forall>p \<in> set (zip (doc_lines trn) (doc_lines src)). \<not> timing_altered p"
  proof
    fix p assume "p \<in> set (zip (doc_lines trn) (doc_lines src))"
    then have "(snd p, fst p) \<in> set (zip (doc_lines src) (doc_lines trn))" by (auto simp: set_zip)
    with h have "retext (snd p) (fst p)" by blast
    then show "\<not> timing_altered p" using retext_header[of "snd p" "fst p"] by (simp add: timing_altered_def case_prod_unfold)
  qed
  then have 5: "find_index timing_altered (zip (doc_lines trn) (doc_lines src)) = None" by (simp add: find_index_None)
  from l 4 5 show "check_count trn src = None" "check_headers trn src = None" "check_timing_preserved trn src = None"
    by (simp_all add: check_count_def check_headers_def check_timing_preserved_def)
qed

lemma leak_check_number: "check_leaks al trn src = Some f \<Longrightarrow> gf_check f \<in> {9, 10, 11, 12}"
  by (auto simp: check_leaks_def Let_def split: if_splits)

lemma gate_failure_number:
  assumes "validate_subdoc gs al trn src = Some f" and "retexts (doc_lines src) (doc_lines trn)"
  shows "gf_check f \<in> {2, 3, 6, 7, 8, 9, 10, 11, 12}"
proof -
  from assms(1) have "Some f \<in> set (structural_checks gs trn src @ [check_leaks al trn src])"
    unfolding validate_subdoc_def by (rule first_failure_mem)
  with retexts_structural[OF assms(2)] consider "check_nonempty trn = Some f" | "check_untranslated gs trn src = Some f"
    | "check_sentinels trn = Some f" | "check_utf8 trn = Some f" | "check_scaffold trn = Some f" | "check_leaks al trn src = Some f"
    by (auto simp: structural_checks_def)
  then show ?thesis
  proof cases
    case 2
    then show ?thesis by (auto simp: check_untranslated_def Let_def split: if_splits)
  next
    case 6
    then show ?thesis using leak_check_number by blast
  qed (auto simp: check_nonempty_def check_sentinels_def check_utf8_def check_scaffold_def dest!: fail_at_check[OF sym])
qed

lemma failing_cues_mem: "failing_cues src trn is = Inr cs \<Longrightarrow> (c, i) \<in> set cs \<Longrightarrow> i < length trn \<and> \<not> is_raw (trn ! i)"
  by (induction src trn "is" arbitrary: cs rule: failing_cues.induct) (auto split: if_splits sum.splits)

lemma splice_repair_retexts:
  "splice_repair idx i ts ls = Inr out \<Longrightarrow> (\<And>n. n < length ls \<Longrightarrow> i + n \<in> idx \<Longrightarrow> \<not> is_raw (ls ! n)) \<Longrightarrow> retexts ls out"
proof (induction idx i ts ls arbitrary: out rule: splice_repair.induct)
  case (2 idx i ts l ls)
  have rest: "\<not> is_raw (ls ! n)" if "n < length ls" "Suc i + n \<in> idx" for n
    using "2.prems"(2)[of "Suc n"] that by simp
  show ?case
  proof (cases "i \<in> idx")
    case True
    with "2.prems"(1) obtain t ts' o1 where o1: "ts = t # ts'" "splice_repair idx (Suc i) ts' ls = Inr o1" "out = set_text l t # o1"
      by (auto split: list.splits sum.splits)
    have "\<not> is_raw l" using "2.prems"(2)[of 0] True by simp
    with "2.IH"(1)[OF True o1(1,2) rest] o1(3) show ?thesis by (simp add: retexts_def retext_set_text)
  next
    case False
    with "2.prems"(1) obtain o1 where o1: "splice_repair idx (Suc i) ts ls = Inr o1" "out = l # o1"
      by (auto split: sum.splits)
    with "2.IH"(2)[OF False o1(1) rest] show ?thesis by (simp add: retexts_def)
  qed
qed simp

lemma repair_retexts:
  assumes "repair_failing_cues fs su bible flat m k check failing src trn = Repaired ls"
  shows "retexts (doc_lines trn) ls"
proof -
  from assms obtain cs where cs: "failing_cues (doc_lines src) (doc_lines trn) failing = Inr cs" "cs \<noteq> []"
    by (auto simp: repair_failing_cues_def split: sum.splits list.splits)
  then obtain c cs' where "cs = c # cs'" by (cases cs) auto
  with assms cs obtain ts where "splice_repair (set (map snd cs)) 0 ts (doc_lines trn) = Inr ls"
    by (auto simp: repair_failing_cues_def Let_def split: sum.splits list.splits batch_outcome.splits if_splits)
  then show ?thesis
    by (rule splice_repair_retexts) (use failing_cues_mem[OF cs(1)] in force)
qed

text \<open>What the loop returns: a document that passes, or the failure of one that has the source's headers.\<close>

lemma gate_loop_result:
  assumes "retexts (doc_lines src) (doc_lines trn)"
  shows "snd (gate_loop fs su bible flat m src budget k trn) \<le> k + budget \<and>
    (case fst (gate_loop fs su bible flat m src budget k trn) of
       GatePassed doc \<Rightarrow> validate_subdoc (fs_gate fs) (allowlist_of bible) doc src = None \<and> retexts (doc_lines src) (doc_lines doc)
     | GateQuarantine f \<Rightarrow> gf_check f \<in> {2, 3, 6, 7, 8, 9, 10, 11, 12}
     | GateRaised e \<Rightarrow> True)"
  using assms
proof (induction budget arbitrary: k trn)
  case 0
  then show ?case by (auto dest: gate_failure_number split: option.splits)
next
  case (Suc budget)
  show ?case
  proof (cases "validate_subdoc (fs_gate fs) (allowlist_of bible) trn src")
    case None
    with Suc.prems show ?thesis by simp
  next
    case (Some f)
    from gate_failure_number[OF Some Suc.prems] have n: "gf_check f \<in> {2, 3, 6, 7, 8, 9, 10, 11, 12}" .
    show ?thesis
    proof (cases "repairable fs f")
      case False
      with Some n show ?thesis by simp
    next
      case True
      show ?thesis
      proof (cases "repair_failing_cues fs su bible flat m k (gf_check f) (failing_of f) src trn")
        case (Repaired ls)
        let ?trn = "preserve_source_envelopes (fs_envelopes fs) (trn\<lparr>doc_lines := ls\<rparr>) src"
        have "retexts (doc_lines src) ls" using retexts_trans[OF Suc.prems repair_retexts[OF Repaired]] .
        then have "retexts (doc_lines src) (doc_lines ?trn)" by (intro preserve_retexts) simp
        from Suc.IH[OF this, of "Suc k"] Some True Repaired show ?thesis by simp
      qed (use Some True n in simp_all)
    qed
  qed
qed


section \<open>Repairs do not fail inside\<close>

lemma sorted_wrt_indices_where: "sorted_wrt (<) (indices_where P xs)"
  unfolding indices_where_def by (rule sorted_wrt_filter) simp

lemma first_leak_positions:
  "first_leak ns al trn src = Some f \<Longrightarrow> \<exists>n. failing_of f = leaks_of n al trn src"
  by (induction ns) (auto simp: Let_def failing_of_def split: if_splits)

lemma gate_failing_positions:
  assumes "validate_subdoc gs al trn src = Some f" and "gf_check f \<in> set REPAIRABLE_CHECKS"
    and "retexts (doc_lines src) (doc_lines trn)"
  shows "sorted_wrt (<) (failing_of f) \<and> (\<forall>i \<in> set (failing_of f). i < length (doc_lines trn))"
proof -
  have len: "length (doc_lines src) = length (doc_lines trn)" using assms(3) by (simp add: retexts_nth)
  from assms(1) have "Some f \<in> set (structural_checks gs trn src @ [check_leaks al trn src])"
    unfolding validate_subdoc_def by (rule first_failure_mem)
  then consider "check_untranslated gs trn src = Some f" | "check_leaks al trn src = Some f"
    | n i where "fail_at n i = Some f" "n \<in> {2, 4, 5, 6, 7, 8}" | "check_count trn src = Some f"
    by (fastforce simp: structural_checks_def check_nonempty_def check_headers_def check_timing_preserved_def
        check_sentinels_def check_utf8_def check_scaffold_def)
  then show ?thesis
  proof cases
    case 1
    let ?ls = "map fst (zip (doc_lines trn) (doc_lines src))"
    from 1 have f: "failing_of f = filter (\<lambda>i. \<not> has_vn (doc_lines trn ! i)) (indices_where translatable ?ls)"
      by (auto simp: check_untranslated_def Let_def failing_of_def split: if_splits)
    show ?thesis unfolding f using len
      by (auto simp: sorted_wrt_filter sorted_wrt_indices_where set_indices_where)
  next
    case 2
    then obtain n where f: "failing_of f = leaks_of n (lower ` (case al of None \<Rightarrow> {} | Some s \<Rightarrow> s)) trn src"
      by (auto simp: check_leaks_def Let_def simp del: first_leak.simps dest!: first_leak_positions)
    show ?thesis unfolding f leaks_of_def using len by (auto simp: sorted_wrt_indices_where set_indices_where)
  next
    case (3 n i)
    with assms(2) show ?thesis by (auto simp: REPAIRABLE_CHECKS_def dest: fail_at_check[OF sym])
  next
    case 4
    with assms(2) show ?thesis by (auto simp: check_count_def REPAIRABLE_CHECKS_def split: if_splits)
  qed
qed

definition outside :: "'e failure \<Rightarrow> bool" where
  "outside f \<longleftrightarrow> (\<exists>e. f = External e) \<or> f = Python ValueError"

lemma repair_failing_cues_cs:
  assumes "failing_cues (doc_lines src) (doc_lines trn) failing = Inr cs" and "cs \<noteq> []"
  shows "repair_failing_cues fs su bible flat m k check failing src trn =
    (case fst (translate_batch (su_repair_llm su k) (su_repr su)
        (su_prompt su (repair_hints m bible flat (map snd cs)) (glossary_of bible) (register_of bible) (repair_directive check))
        (fs_retries fs) \<lparr>batch_cues = map fst cs, batch_before = [], batch_after = []\<rparr>) of
       CallFailed e \<Rightarrow> RepairRaised (External e)
     | BatchFailed e \<Rightarrow> (if is_batch_error e then RepairMiss else RepairRaised (Python ValueError))
     | Texts ts \<Rightarrow>
         (case splice_repair (set (map snd cs)) 0 ts (doc_lines trn) of
            Inl e \<Rightarrow> RepairRaised (Python e)
          | Inr ls \<Rightarrow> Repaired ls))"
proof -
  from assms(2) obtain c cs' where cs: "cs = c # cs'" by (cases cs) auto
  show ?thesis unfolding repair_failing_cues_def assms(1) cs Let_def sum.case list.case ..
qed

lemma repair_raises_outside:
  assumes "repair_failing_cues fs su bible flat m k check failing src trn = RepairRaised e"
    and "length (doc_lines src) = length (doc_lines trn)" and "sorted_wrt (<) failing"
    and "\<forall>i \<in> set failing. i < length (doc_lines trn)"
  shows "outside e"
proof -
  let ?js = "filter (\<lambda>i. \<not> is_raw (doc_lines trn ! i)) failing"
  let ?cs = "map (\<lambda>i. (doc_lines src ! i, i)) ?js"
  have f: "failing_cues (doc_lines src) (doc_lines trn) failing = Inr ?cs" by (rule failing_cues_ok[OF assms(2,4)])
  have js: "map snd ?cs = ?js" by (simp add: comp_def)
  have ok: "\<exists>out. splice_repair (set (map snd ?cs)) 0 ts (doc_lines trn) = Inr out" if "length ts = length ?cs" for ts
  proof -
    have "sorted_wrt (<) ?js" using assms(3) by (rule sorted_wrt_filter)
    from splice_repair_ok[OF this, of 0 "doc_lines trn" ts] assms(4) that show ?thesis unfolding js by auto
  qed
  show ?thesis
  proof (cases ?cs)
    case Nil
    with assms(1) f show ?thesis by (simp add: repair_failing_cues_def)
  next
    case (Cons c cs')
    let ?tb = "translate_batch (su_repair_llm su k) (su_repr su)
        (su_prompt su (repair_hints m bible flat (map snd ?cs)) (glossary_of bible) (register_of bible) (repair_directive check))
        (fs_retries fs) \<lparr>batch_cues = map fst ?cs, batch_before = [], batch_after = []\<rparr>"
    from Cons have ne: "?cs \<noteq> []" by simp
    note r = repair_failing_cues_cs[OF f ne, of fs su bible flat m k check]
    show ?thesis
    proof (cases "fst ?tb")
      case (Texts ts)
      then have "?tb = (Texts ts, snd ?tb)" by (simp add: prod_eq_iff)
      from translate_batch_length[OF this] have "length ts = length ?cs" by simp
      with ok obtain out where "splice_repair (set (map snd ?cs)) 0 ts (doc_lines trn) = Inr out" by blast
      with r Texts assms(1) show ?thesis by simp
    qed (use r assms(1) in \<open>auto simp: outside_def split: if_splits\<close>)
  qed
qed

lemma gate_loop_raises:
  assumes "fst (gate_loop fs su bible flat m src budget k trn) = GateRaised e" and "retexts (doc_lines src) (doc_lines trn)"
  shows "outside e"
  using assms
proof (induction budget arbitrary: k trn)
  case 0
  then show ?case by (auto split: option.splits)
next
  case (Suc budget)
  show ?case
  proof (cases "validate_subdoc (fs_gate fs) (allowlist_of bible) trn src")
    case None
    with Suc.prems show ?thesis by simp
  next
    case (Some f)
    show ?thesis
    proof (cases "repairable fs f")
      case False
      with Some Suc.prems(1) show ?thesis by simp
    next
      case True
      then have "gf_check f \<in> set REPAIRABLE_CHECKS" by (simp add: repairable_def)
      note pos = gate_failing_positions[OF Some this Suc.prems(2)]
      have len: "length (doc_lines src) = length (doc_lines trn)" using Suc.prems(2) by (simp add: retexts_nth)
      show ?thesis
      proof (cases "repair_failing_cues fs su bible flat m k (gf_check f) (failing_of f) src trn")
        case (Repaired ls)
        let ?trn = "preserve_source_envelopes (fs_envelopes fs) (trn\<lparr>doc_lines := ls\<rparr>) src"
        have "retexts (doc_lines src) ls" using retexts_trans[OF Suc.prems(2) repair_retexts[OF Repaired]] .
        then have "retexts (doc_lines src) (doc_lines ?trn)" by (intro preserve_retexts) simp
        with Suc.IH[of "Suc k" ?trn] Suc.prems(1) Some True Repaired show ?thesis by simp
      next
        case (RepairRaised e')
        from repair_raises_outside[OF RepairRaised len conjunct1[OF pos] conjunct2[OF pos]]
        show ?thesis using Suc.prems(1) Some True RepairRaised by simp
      qed (use Some True Suc.prems(1) in simp)
    qed
  qed
qed

section \<open>What a document ends as\<close>

lemma gather_failures:
  assumes "honest seen"
  shows "case gather_batches rp seen outs of
     AllTexts rs \<Rightarrow> True
   | BatchRaised es \<Rightarrow> es \<noteq> [] \<and> (\<forall>f \<in> set es. \<not> is_validation f \<and> f \<in> set (List.map_filter failure_of outs))
   | BatchQuarantine reason rest \<Rightarrow> (\<exists>e. Validation e \<in> set (List.map_filter failure_of outs) \<and> reason = error_text rp e)
       \<and> (\<forall>f \<in> set rest. \<not> is_validation f \<and> f \<in> set (List.map_filter failure_of outs))"
proof -
  let ?errs = "List.map_filter failure_of outs"
  let ?bad = "filter is_validation (seen ?errs)"
  have sub: "seen ?errs \<noteq> [] \<and> set (seen ?errs) \<subseteq> set ?errs" if "?errs \<noteq> []" using assms that by (simp add: honest_def)
  show ?thesis
  proof (cases "?errs = [] \<or> ?bad = []")
    case True
    with sub show ?thesis by (auto simp: gather_batches_def Let_def filter_empty_conv)
  next
    case False
    then have "hd ?bad \<in> set ?bad" by (intro hd_in_set) simp
    then have "hd ?bad \<in> set (seen ?errs)" "is_validation (hd ?bad)" by (simp_all only: set_filter mem_Collect_eq)
    with sub False obtain e where "hd ?bad = Validation e" "Validation e \<in> set ?errs" by (auto simp: is_validation_def split: failure.splits)
    with False sub show ?thesis by (auto simp: gather_batches_def Let_def failure_text_def)
  qed
qed

end
