(* ===== verification/Job_Queue.thy ===== *)
theory Job_Queue
  imports Prelude
begin

text \<open>
  The job queue of \<open>trezarr/web/worker.py\<close>, \<open>trezarr/jobs/models.py\<close> and
  \<open>trezarr/web/routes/jobs.py\<close>: the job table, the in-process queue of job ids, the
  executions under way with their per-series locks, and the scheduled retries. Every handler is
  a function on this state; the steps of the running daemon are an inductive relation. A
  database transaction is one step. The invariant says that no active job is ever lost or
  scheduled twice, and that two executions never hold the same series lock.
\<close>

datatype job_status = Queued | Running | JobDone | Failed | JobQuarantined

datatype trigger = Poll | Webhook | Manual | ManualRetry | StartupReconcile | AutoRetry

type_synonym snapshot = "(pystr \<times> pystr) list"

record job =
  job_id :: nat
  job_source :: pystr
  job_series :: "nat option"
  job_status :: job_status
  job_trigger :: trigger
  job_error :: "pystr option"
  job_attempts :: nat
  job_media :: "snapshot option"
  job_started :: "nat option"
  job_finished :: "nat option"

datatype exec_phase = Dispatched | Waiting | Holding

record exec =
  ex_job :: nat
  ex_key :: int
  ex_phase :: exec_phase

record retry_plan =
  rp_source :: pystr
  rp_series :: "nat option"
  rp_media :: "snapshot option"
  rp_cap :: nat

record qstate =
  q_jobs :: "job list"
  q_work :: "nat list"
  q_execs :: "exec list"
  q_retries :: "retry_plan list"

section \<open>The table\<close>

definition active_status :: "job_status \<Rightarrow> bool" where
  "active_status st \<longleftrightarrow> st = Queued \<or> st = Running"

definition terminal_status :: "job_status \<Rightarrow> bool" where
  "terminal_status st \<longleftrightarrow> st = Failed \<or> st = JobQuarantined"

definition auto_trigger :: "trigger \<Rightarrow> bool" where
  "auto_trigger t \<longleftrightarrow> t = Poll \<or> t = Webhook \<or> t = AutoRetry"

definition get_job :: "nat \<Rightarrow> qstate \<Rightarrow> job option" where
  "get_job i s = find (\<lambda>j. job_id j = i) (q_jobs s)"

definition update_job :: "nat \<Rightarrow> (job \<Rightarrow> job) \<Rightarrow> job list \<Rightarrow> job list" where
  "update_job i f js = map (\<lambda>j. if job_id j = i then f j else j) js"

definition next_job_id :: "job list \<Rightarrow> nat" where
  "next_job_id js = Suc (foldr max (map job_id js) 0)"

definition active_for :: "pystr \<Rightarrow> job list \<Rightarrow> job list" where
  "active_for p js = filter (\<lambda>j. job_source j = p \<and> active_status (job_status j)) js"

definition terminal_count :: "pystr \<Rightarrow> job list \<Rightarrow> nat" where
  "terminal_count p js = length (filter (\<lambda>j. job_source j = p \<and> terminal_status (job_status j)) js)"

section \<open>Enqueueing\<close>

definition MEDIA_ITEM_SNAPSHOT_FIELDS :: "pystr list" where
  "MEDIA_ITEM_SNAPSHOT_FIELDS = [lit ''arr_kind'', lit ''series_id'', lit ''tvdb_id'', lit ''tmdb_id'',
     lit ''title'', lit ''season_number'', lit ''source_type'']"

text \<open>A media item is the list of its attributes that are not \<open>None\<close>.\<close>

definition media_snapshot :: "snapshot option \<Rightarrow> snapshot option" where
  "media_snapshot m = (case m of
     None \<Rightarrow> None
   | Some attrs \<Rightarrow>
       (let snap = concat (map (\<lambda>f. case map_of attrs f of None \<Rightarrow> [] | Some v \<Rightarrow> [(f, v)])
                    (MEDIA_ITEM_SNAPSHOT_FIELDS @ [lit ''arr_metadata'']))
        in if snap = [] then None else Some snap))"

definition new_job :: "job list \<Rightarrow> pystr \<Rightarrow> nat option \<Rightarrow> trigger \<Rightarrow> snapshot option \<Rightarrow> job" where
  "new_job js p sid trig media =
     \<lparr>job_id = next_job_id js, job_source = p, job_series = sid, job_status = Queued, job_trigger = trig,
      job_error = None, job_attempts = 0, job_media = media_snapshot media, job_started = None, job_finished = None\<rparr>"

definition enqueue_job ::
  "nat option \<Rightarrow> pystr \<Rightarrow> nat option \<Rightarrow> trigger \<Rightarrow> snapshot option \<Rightarrow> qstate \<Rightarrow> qstate \<times> bool" where
  "enqueue_job cap p sid trig media s =
     (if active_for p (q_jobs s) \<noteq> [] then (s, False)
      else if (case cap of None \<Rightarrow> False | Some m \<Rightarrow> auto_trigger trig \<and> terminal_count p (q_jobs s) \<ge> m)
        then (s, False)
      else let js = q_jobs s @ [new_job (q_jobs s) p sid trig media] in
        (case find (\<lambda>j. job_source j = p \<and> job_status j = Queued \<and> job_trigger j = trig) js of
           None \<Rightarrow> (s\<lparr>q_jobs := js\<rparr>, True)
         | Some j \<Rightarrow> (s\<lparr>q_jobs := js, q_work := q_work s @ [job_id j]\<rparr>, True)))"

section \<open>Retry by hand, and recovery at startup\<close>

datatype http_error = Http404 | Http409

definition retry_job :: "nat \<Rightarrow> qstate \<Rightarrow> http_error + qstate" where
  "retry_job i s = (case get_job i s of
     None \<Rightarrow> Inl Http404
   | Some j \<Rightarrow>
       (if \<not> terminal_status (job_status j) then Inl Http409
        else Inr (s\<lparr>q_jobs := update_job i (\<lambda>j. j\<lparr>job_status := Queued, job_error := None, job_attempts := 0,
                       job_trigger := ManualRetry, job_started := None, job_finished := None\<rparr>) (q_jobs s),
                   q_work := q_work s @ [i]\<rparr>)))"

text \<open>A restart: what lived in the process is gone, then the first recovery arm runs.\<close>

definition crash :: "qstate \<Rightarrow> qstate" where
  "crash s = s\<lparr>q_work := [], q_execs := [], q_retries := []\<rparr>"

definition reconcile_in_progress :: "qstate \<Rightarrow> qstate" where
  "reconcile_in_progress s =
     (let stale = filter (\<lambda>j. active_status (job_status j)) (q_jobs s)
      in s\<lparr>q_jobs := map (\<lambda>j. if active_status (job_status j) then j\<lparr>job_status := Queued\<rparr> else j) (q_jobs s),
           q_work := q_work s @ map job_id stale\<rparr>)"

text \<open>The second arm: in-progress ledger rows, with their series, that have no job at all.\<close>

fun reconcile_from_ledger :: "(pystr \<times> nat option) list \<Rightarrow> qstate \<Rightarrow> qstate" where
  "reconcile_from_ledger [] s = s"
| "reconcile_from_ledger ((p, sid) # fs) s =
     reconcile_from_ledger fs
       (if \<exists>j \<in> set (q_jobs s). job_source j = p then s
        else fst (enqueue_job None p sid StartupReconcile None s))"

section \<open>Executing a job\<close>

definition series_key :: "job \<Rightarrow> int" where
  "series_key j = (case job_series j of None \<Rightarrow> -1 | Some n \<Rightarrow> int n)"

definition dispatch :: "qstate \<Rightarrow> qstate" where
  "dispatch s = (case q_work s of
     [] \<Rightarrow> s
   | i # w \<Rightarrow> s\<lparr>q_work := w, q_execs := q_execs s @ [\<lparr>ex_job = i, ex_key = 0, ex_phase = Dispatched\<rparr>]\<rparr>)"

definition drop_exec :: "nat \<Rightarrow> exec list \<Rightarrow> exec list" where
  "drop_exec i es = filter (\<lambda>e. ex_job e \<noteq> i) es"

definition set_phase :: "nat \<Rightarrow> int \<Rightarrow> exec_phase \<Rightarrow> exec list \<Rightarrow> exec list" where
  "set_phase i k ph es = map (\<lambda>e. if ex_job e = i then \<lparr>ex_job = i, ex_key = k, ex_phase = ph\<rparr> else e) es"

text \<open>The first transaction of an execution: the row is marked running, or the execution ends.\<close>

definition start_job :: "nat \<Rightarrow> nat \<Rightarrow> qstate \<Rightarrow> qstate" where
  "start_job now i s = (case get_job i s of
     None \<Rightarrow> s\<lparr>q_execs := drop_exec i (q_execs s)\<rparr>
   | Some j \<Rightarrow> s\<lparr>q_jobs := update_job i (\<lambda>j. j\<lparr>job_status := Running, job_started := Some now,
                     job_attempts := job_attempts j + 1\<rparr>) (q_jobs s),
                 q_execs := set_phase i (series_key j) Waiting (q_execs s)\<rparr>)"

definition acquire_lock :: "nat \<Rightarrow> int \<Rightarrow> qstate \<Rightarrow> qstate" where
  "acquire_lock i k s = s\<lparr>q_execs := set_phase i k Holding (q_execs s)\<rparr>"

datatype item_status = ItemDone | ItemQuarantined | ItemSkipped | ItemError

record item_result =
  ir_status :: item_status
  ir_reason :: "pystr option"
  ir_error :: "pystr option"

definition or_default :: "pystr option \<Rightarrow> pystr \<Rightarrow> pystr" where
  "or_default x d = (case x of Some r \<Rightarrow> (if r = [] then d else r) | None \<Rightarrow> d)"

definition apply_result :: "nat \<Rightarrow> item_result \<Rightarrow> job \<Rightarrow> job" where
  "apply_result now r j0 = (let j = j0\<lparr>job_finished := Some now\<rparr> in
     case ir_status r of
       ItemDone \<Rightarrow> j\<lparr>job_status := JobDone\<rparr>
     | ItemQuarantined \<Rightarrow> j\<lparr>job_status := JobQuarantined,
         job_error := Some (or_default (ir_reason r) (lit ''quarantined by translation pipeline''))\<rparr>
     | ItemSkipped \<Rightarrow> j\<lparr>job_status := JobDone\<rparr>
     | ItemError \<Rightarrow> j\<lparr>job_status := Failed,
         job_error := Some (case ir_error r of Some e \<Rightarrow> e | None \<Rightarrow> lit ''unknown error'')\<rparr>)"

definition TRANSIENT_QUARANTINE_PREFIXES :: "pystr list" where
  "TRANSIENT_QUARANTINE_PREFIXES =
     [lit ''Empty/whitespace-only text for line ['', lit ''Missing line ['', lit ''Parsed '']"

definition is_transient_quarantine :: "pystr option \<Rightarrow> bool" where
  "is_transient_quarantine reason \<longleftrightarrow>
     truthy reason \<and> (\<exists>p \<in> set TRANSIENT_QUARANTINE_PREFIXES. starts_with p (or_empty reason))"

definition plan_retry :: "nat \<Rightarrow> item_result \<Rightarrow> job \<Rightarrow> retry_plan list" where
  "plan_retry retry_max r j =
     (if ir_status r = ItemQuarantined \<and> is_transient_quarantine (ir_reason r) \<and> retry_max > 0
         \<and> job_attempts j < retry_max
      then [\<lparr>rp_source = job_source j, rp_series = job_series j, rp_media = job_media j, rp_cap = retry_max\<rparr>]
      else [])"

definition finish_job :: "nat \<Rightarrow> nat \<Rightarrow> item_result \<Rightarrow> nat \<Rightarrow> qstate \<Rightarrow> qstate" where
  "finish_job retry_max now r i s = (case get_job i s of
     None \<Rightarrow> s\<lparr>q_execs := drop_exec i (q_execs s)\<rparr>
   | Some j \<Rightarrow> s\<lparr>q_jobs := update_job i (apply_result now r) (q_jobs s),
                 q_execs := drop_exec i (q_execs s),
                 q_retries := q_retries s @ plan_retry retry_max r j\<rparr>)"

text \<open>An exception anywhere in the execution: the job fails, the worker goes on.\<close>

definition fail_job :: "nat \<Rightarrow> nat \<Rightarrow> qstate \<Rightarrow> qstate" where
  "fail_job now i s = s\<lparr>q_jobs := update_job i (\<lambda>j. j\<lparr>job_status := Failed, job_finished := Some now,
       job_error := Some (lit ''unhandled exception in worker'')\<rparr>) (q_jobs s),
     q_execs := drop_exec i (q_execs s)\<rparr>"

definition fire_retry :: "retry_plan \<Rightarrow> qstate \<Rightarrow> qstate" where
  "fire_retry rp s = fst (enqueue_job (Some (rp_cap rp)) (rp_source rp) (rp_series rp) AutoRetry (rp_media rp) s)"

section \<open>The daemon\<close>

text \<open>The argument \<open>ok\<close> says with which cap and trigger the callers outside the worker enqueue.\<close>

inductive qstep :: "(nat option \<Rightarrow> trigger \<Rightarrow> bool) \<Rightarrow> nat \<Rightarrow> qstate \<Rightarrow> qstate \<Rightarrow> bool" for ok retry_max where
  enqueue: "ok cap trig \<Longrightarrow> qstep ok retry_max s (fst (enqueue_job cap p sid trig media s))"
| retry: "retry_job i s = Inr s' \<Longrightarrow> qstep ok retry_max s s'"
| dispatch: "q_work s \<noteq> [] \<Longrightarrow> qstep ok retry_max s (dispatch s)"
| start: "e \<in> set (q_execs s) \<Longrightarrow> ex_phase e = Dispatched \<Longrightarrow> qstep ok retry_max s (start_job now (ex_job e) s)"
| acquire: "e \<in> set (q_execs s) \<Longrightarrow> ex_phase e = Waiting \<Longrightarrow>
    \<forall>e' \<in> set (q_execs s). ex_phase e' = Holding \<longrightarrow> ex_key e' \<noteq> ex_key e \<Longrightarrow>
    qstep ok retry_max s (acquire_lock (ex_job e) (ex_key e) s)"
| finish: "e \<in> set (q_execs s) \<Longrightarrow> ex_phase e = Holding \<Longrightarrow>
    qstep ok retry_max s (finish_job retry_max now r (ex_job e) s)"
| fail: "e \<in> set (q_execs s) \<Longrightarrow> qstep ok retry_max s (fail_job now (ex_job e) s)"
| fire: "q_retries s = rs @ rp # rs' \<Longrightarrow>
    qstep ok retry_max s (fire_retry rp (s\<lparr>q_retries := rs @ rs'\<rparr>))"
| restart: "qstep ok retry_max s (reconcile_from_ledger fs (reconcile_in_progress (crash s)))"

inductive_cases qstep_elim: "qstep ok retry_max s s'"

definition empty_queue :: qstate where
  "empty_queue = \<lparr>q_jobs = [], q_work = [], q_execs = [], q_retries = []\<rparr>"

inductive reachable :: "(nat option \<Rightarrow> trigger \<Rightarrow> bool) \<Rightarrow> nat \<Rightarrow> qstate \<Rightarrow> bool" for ok retry_max where
  init: "reachable ok retry_max empty_queue"
| step: "reachable ok retry_max s \<Longrightarrow> qstep ok retry_max s s' \<Longrightarrow> reachable ok retry_max s'"

section \<open>The invariant\<close>

definition ids_with :: "job_status \<Rightarrow> job list \<Rightarrow> nat set" where
  "ids_with st js = {job_id j |j. j \<in> set js \<and> job_status j = st}"

definition dispatched_ids :: "exec list \<Rightarrow> nat set" where
  "dispatched_ids es = {ex_job e |e. e \<in> set es \<and> ex_phase e = Dispatched}"

definition started_ids :: "exec list \<Rightarrow> nat set" where
  "started_ids es = {ex_job e |e. e \<in> set es \<and> ex_phase e \<noteq> Dispatched}"

definition exclusive :: "exec list \<Rightarrow> bool" where
  "exclusive es \<longleftrightarrow> (\<forall>a \<in> set es. \<forall>b \<in> set es.
     ex_phase a = Holding \<longrightarrow> ex_phase b = Holding \<longrightarrow> ex_key a = ex_key b \<longrightarrow> a = b)"

definition queue_inv :: "qstate \<Rightarrow> bool" where
  "queue_inv s \<longleftrightarrow>
     distinct (map job_id (q_jobs s))
     \<and> distinct (q_work s @ map ex_job (q_execs s))
     \<and> ids_with Queued (q_jobs s) = set (q_work s) \<union> dispatched_ids (q_execs s)
     \<and> ids_with Running (q_jobs s) = started_ids (q_execs s)
     \<and> exclusive (q_execs s)"

section \<open>Each step keeps it\<close>

lemma ids_with_simps [simp]:
  "ids_with st [] = {}" "ids_with st (j # js) = (if job_status j = st then {job_id j} else {}) \<union> ids_with st js"
  by (auto simp: ids_with_def)

lemma dispatched_ids_simps [simp]:
  "dispatched_ids [] = {}"
  "dispatched_ids (e # es) = (if ex_phase e = Dispatched then {ex_job e} else {}) \<union> dispatched_ids es"
  "dispatched_ids (es @ es') = dispatched_ids es \<union> dispatched_ids es'"
  by (auto simp: dispatched_ids_def)

lemma started_ids_simps [simp]:
  "started_ids [] = {}"
  "started_ids (e # es) = (if ex_phase e \<noteq> Dispatched then {ex_job e} else {}) \<union> started_ids es"
  "started_ids (es @ es') = started_ids es \<union> started_ids es'"
  by (auto simp: started_ids_def)

lemma get_job_Some: "get_job i s = Some j \<Longrightarrow> j \<in> set (q_jobs s) \<and> job_id j = i"
  by (auto simp: get_job_def dest!: find_SomeD)

lemma get_job_None: "get_job i s = None \<longleftrightarrow> i \<notin> job_id ` set (q_jobs s)"
  by (auto simp: get_job_def find_None_iff)

lemma fresh_job_id: "next_job_id js \<notin> job_id ` set js"
proof -
  have "j \<in> set js \<Longrightarrow> job_id j \<le> foldr max (map job_id js) 0" for j by (induction js) auto
  then show ?thesis by (fastforce simp: next_job_id_def)
qed

lemma job_ids_update [simp]: "(\<And>j. job_id (f j) = job_id j) \<Longrightarrow> map job_id (update_job i f js) = map job_id js"
  by (simp add: update_job_def)

lemma distinct_same_id:
  "distinct (map job_id js) \<Longrightarrow> a \<in> set js \<Longrightarrow> b \<in> set js \<Longrightarrow> job_id a = job_id b \<Longrightarrow> a = b"
  by (simp add: distinct_map inj_on_def)

lemma ids_with_append: "ids_with st (js @ ks) = ids_with st js \<union> ids_with st ks"
  by (auto simp: ids_with_def)

lemma ids_with_mem: "i \<in> ids_with st js \<Longrightarrow> i \<in> job_id ` set js"
  by (auto simp: ids_with_def)

lemma ids_with_job:
  "distinct (map job_id js) \<Longrightarrow> j \<in> set js \<Longrightarrow> job_id j \<in> ids_with st js \<longleftrightarrow> job_status j = st"
  by (auto simp: ids_with_def dest: distinct_same_id)

lemma update_job_absent: "i \<notin> job_id ` set js \<Longrightarrow> update_job i f js = js"
  by (induction js) (auto simp: update_job_def)

lemma update_job_Cons [simp]:
  "update_job i f [] = []" "update_job i f (j # js) = (if job_id j = i then f j else j) # update_job i f js"
  by (simp_all add: update_job_def)

lemma ids_with_update:
  assumes "distinct (map job_id js)" and "j \<in> set js" and "\<And>j. job_id (f j) = job_id j"
  shows "ids_with st (update_job (job_id j) f js) =
    (ids_with st js - {job_id j}) \<union> (if job_status (f j) = st then {job_id j} else {})"
  using assms(1,2)
proof (induction js)
  case (Cons k js)
  show ?case
  proof (cases "k = j")
    case True
    with Cons.prems(1) have n: "job_id j \<notin> job_id ` set js" by simp
    then have "job_id j \<notin> ids_with st js" by (auto dest: ids_with_mem)
    with True show ?thesis by (simp add: update_job_absent[OF n] assms(3))
  next
    case False
    with Cons.prems have "j \<in> set js" "job_id k \<noteq> job_id j" by auto
    with Cons.IH Cons.prems(1) show ?thesis by auto
  qed
qed simp

lemma ids_with_update_id:
  assumes "distinct (map job_id js)" and "j \<in> set js" and "job_id j = i" and "\<And>j. job_id (f j) = job_id j"
  shows "ids_with st (update_job i f js) = (ids_with st js - {i}) \<union> (if job_status (f j) = st then {i} else {})"
  using ids_with_update[OF assms(1,2,4)] assms(3) by simp

lemma exec_ids: "ex_job ` set es = dispatched_ids es \<union> started_ids es"
  by (auto simp: dispatched_ids_def started_ids_def)

lemma inv_exec_status:
  assumes "queue_inv s" and "distinct (map ex_job (q_execs s))" and "e \<in> set (q_execs s)"
  shows "ex_job e \<in> job_id ` set (q_jobs s)"
proof -
  from assms(3) have "ex_job e \<in> dispatched_ids (q_execs s) \<union> started_ids (q_execs s)"
    using exec_ids[of "q_execs s"] by blast
  with assms(1) have "ex_job e \<in> ids_with Queued (q_jobs s) \<union> ids_with Running (q_jobs s)"
    by (auto simp: queue_inv_def)
  then show ?thesis by (auto dest: ids_with_mem)
qed

lemma same_exec:
  "distinct (map ex_job es) \<Longrightarrow> a \<in> set es \<Longrightarrow> b \<in> set es \<Longrightarrow> ex_job a = ex_job b \<longleftrightarrow> a = b"
  by (auto simp: distinct_map inj_on_def)

lemma dispatched_ids_drop: "dispatched_ids (drop_exec i es) = dispatched_ids es - {i}"
  by (auto simp: dispatched_ids_def drop_exec_def)

lemma started_ids_drop: "started_ids (drop_exec i es) = started_ids es - {i}"
  by (auto simp: started_ids_def drop_exec_def)

lemma map_ex_job_phase [simp]: "map ex_job (set_phase i k ph es) = map ex_job es"
  by (simp add: set_phase_def)

lemma set_phase_Cons [simp]:
  "set_phase i k ph [] = []"
  "set_phase i k ph (e # es) = (if ex_job e = i then \<lparr>ex_job = i, ex_key = k, ex_phase = ph\<rparr> else e) # set_phase i k ph es"
  by (simp_all add: set_phase_def)

lemma dispatched_ids_phase:
  "ph \<noteq> Dispatched \<Longrightarrow> dispatched_ids (set_phase i k ph es) = dispatched_ids es - {i}"
  by (induction es) auto

lemma started_ids_phase_gen:
  "ph \<noteq> Dispatched \<Longrightarrow> started_ids (set_phase i k ph es) =
    (if i \<in> ex_job ` set es then insert i (started_ids es) else started_ids es)"
proof (induction es)
  case (Cons e es)
  then show ?case by (cases "ex_job e = i"; cases "i \<in> ex_job ` set es") auto
qed simp

lemma started_ids_phase:
  "ph \<noteq> Dispatched \<Longrightarrow> e \<in> set es \<Longrightarrow> started_ids (set_phase (ex_job e) k ph es) = insert (ex_job e) (started_ids es)"
  by (simp add: started_ids_phase_gen)

lemma queue_inv_exclusive: "queue_inv s \<Longrightarrow> exclusive (q_execs s)"
  by (simp add: queue_inv_def)

lemma exclusive_Cons:
  "exclusive (e # es) \<longleftrightarrow> exclusive es \<and>
    (ex_phase e = Holding \<longrightarrow> (\<forall>a \<in> set es. ex_phase a = Holding \<longrightarrow> ex_key a = ex_key e \<longrightarrow> a = e))"
  unfolding exclusive_def by auto

lemma exclusive_phase:
  assumes "exclusive es" and "ph \<noteq> Holding"
  shows "exclusive (set_phase i k ph es)"
  unfolding exclusive_def
proof (intro ballI impI)
  fix a b
  assume h: "a \<in> set (set_phase i k ph es)" "b \<in> set (set_phase i k ph es)"
    "ex_phase a = Holding" "ex_phase b = Holding" "ex_key a = ex_key b"
  from h(1,3) assms(2) have "a \<in> set es" by (auto simp: set_phase_def split: if_splits)
  moreover from h(2,4) assms(2) have "b \<in> set es" by (auto simp: set_phase_def split: if_splits)
  ultimately show "a = b" using assms(1) h(3-5) unfolding exclusive_def by blast
qed

lemma exclusive_hold:
  assumes "exclusive es" and "\<forall>a \<in> set es. ex_phase a = Holding \<longrightarrow> ex_key a \<noteq> k"
  shows "exclusive (set_phase i k Holding es)"
  unfolding exclusive_def
proof (intro ballI impI)
  fix a b
  assume h: "a \<in> set (set_phase i k Holding es)" "b \<in> set (set_phase i k Holding es)"
    "ex_phase a = Holding" "ex_phase b = Holding" "ex_key a = ex_key b"
  have c: "x = \<lparr>ex_job = i, ex_key = k, ex_phase = Holding\<rparr> \<or> x \<in> set es \<and> ex_key x \<noteq> k"
    if "x \<in> set (set_phase i k Holding es)" "ex_phase x = Holding" for x
  proof -
    from that(1) obtain y where y: "y \<in> set es" "x = (if ex_job y = i then \<lparr>ex_job = i, ex_key = k, ex_phase = Holding\<rparr> else y)"
      by (auto simp: set_phase_def)
    show ?thesis
    proof (cases "ex_job y = i")
      case True
      with y(2) show ?thesis by simp
    next
      case False
      with y have "x = y" by simp
      with y(1) that(2) assms(2) show ?thesis by blast
    qed
  qed
  have k: "ex_key x = k" if "x = \<lparr>ex_job = i, ex_key = k, ex_phase = Holding\<rparr>" for x using that by simp
  from c[OF h(1,3)] show "a = b"
  proof
    assume a: "a = \<lparr>ex_job = i, ex_key = k, ex_phase = Holding\<rparr>"
    from c[OF h(2,4)] k[OF a] h(5) a show ?thesis by metis
  next
    assume a: "a \<in> set es \<and> ex_key a \<noteq> k"
    with c[OF h(2,4)] k[of b] h(5) have "b \<in> set es" by metis
    with a h(3-5) assms(1) show ?thesis unfolding exclusive_def by blast
  qed
qed

lemma exclusive_sub: "exclusive es \<Longrightarrow> set es' \<subseteq> set es \<Longrightarrow> exclusive es'"
  unfolding exclusive_def by blast

lemma distinct_drop: "distinct (w @ map ex_job es) \<Longrightarrow> distinct (w @ map ex_job (drop_exec i es))"
  by (auto simp: drop_exec_def distinct_map_filter)

lemma enqueue_cases:
  assumes "enqueue_job cap p sid trig media s = (s', b)"
  obtains (no) "s' = s" "\<not> b"
    | (yes) "b" "active_for p (q_jobs s) = []"
      "case cap of None \<Rightarrow> True | Some m \<Rightarrow> auto_trigger trig \<longrightarrow> terminal_count p (q_jobs s) < m"
      "s' = s\<lparr>q_jobs := q_jobs s @ [new_job (q_jobs s) p sid trig media],
              q_work := q_work s @ [next_job_id (q_jobs s)]\<rparr>"
proof (cases b)
  case False
  with assms show ?thesis by (intro no) (auto simp: enqueue_job_def Let_def split: if_splits option.splits)
next
  case True
  with assms have a: "active_for p (q_jobs s) = []"
    by (auto simp: enqueue_job_def split: if_splits)
  then have "find (\<lambda>j. job_source j = p \<and> job_status j = Queued \<and> job_trigger j = trig) (q_jobs s) = None"
    by (auto simp: find_None_iff active_for_def filter_empty_conv active_status_def)
  with assms True a show ?thesis
    by (intro yes) (auto simp: enqueue_job_def Let_def find_append new_job_def split: if_splits option.splits)
qed

lemma enqueue_result:
  assumes "P s"
    and "active_for p (q_jobs s) = [] \<Longrightarrow>
      (case cap of None \<Rightarrow> True | Some m \<Rightarrow> auto_trigger trig \<longrightarrow> terminal_count p (q_jobs s) < m) \<Longrightarrow>
      P (s\<lparr>q_jobs := q_jobs s @ [new_job (q_jobs s) p sid trig media], q_work := q_work s @ [next_job_id (q_jobs s)]\<rparr>)"
  shows "P (fst (enqueue_job cap p sid trig media s))"
proof -
  obtain s' b where e: "enqueue_job cap p sid trig media s = (s', b)" by fastforce
  from e have "P s'" by (cases rule: enqueue_cases) (use assms in auto)
  with e show ?thesis by simp
qed

lemma enqueue_inv:
  assumes inv: "queue_inv s"
  shows "queue_inv (fst (enqueue_job cap p sid trig media s))"
proof -
  obtain s' b where e: "enqueue_job cap p sid trig media s = (s', b)" by fastforce
  from e have "queue_inv s'"
  proof (cases rule: enqueue_cases)
    case no
    with inv show ?thesis by simp
  next
    case yes
    let ?i = "next_job_id (q_jobs s)"
    have f: "?i \<notin> job_id ` set (q_jobs s)" by (rule fresh_job_id)
    from inv have "set (q_work s) \<union> ex_job ` set (q_execs s) \<subseteq> job_id ` set (q_jobs s)"
      using ids_with_mem[of _ Queued "q_jobs s"] ids_with_mem[of _ Running "q_jobs s"]
      unfolding exec_ids queue_inv_def by blast
    with f have "?i \<notin> set (q_work s)" "?i \<notin> ex_job ` set (q_execs s)" by auto
    moreover have "ids_with Queued [new_job (q_jobs s) p sid trig media] = {?i}"
      "ids_with Running [new_job (q_jobs s) p sid trig media] = {}"
      by (auto simp: ids_with_def new_job_def)
    ultimately show ?thesis
      using inv f yes by (auto simp: queue_inv_def ids_with_append new_job_def)
  qed
  with e show ?thesis by simp
qed

lemma retry_inv:
  assumes inv: "queue_inv s" and r: "retry_job i s = Inr s'"
  shows "queue_inv s'"
proof -
  let ?f = "\<lambda>j. j\<lparr>job_status := Queued, job_error := None, job_attempts := 0,
    job_trigger := ManualRetry, job_started := None, job_finished := None\<rparr>"
  from r obtain j where j: "get_job i s = Some j" "terminal_status (job_status j)"
    and s': "s' = s\<lparr>q_jobs := update_job i ?f (q_jobs s), q_work := q_work s @ [i]\<rparr>"
    by (auto simp: retry_job_def split: option.splits if_splits)
  from get_job_Some[OF j(1)] have m: "j \<in> set (q_jobs s)" "job_id j = i" by auto
  from inv have d: "distinct (map job_id (q_jobs s))" by (simp add: queue_inv_def)
  from j(2) ids_with_job[OF d m(1)] m(2)
  have n: "i \<notin> ids_with Queued (q_jobs s)" "i \<notin> ids_with Running (q_jobs s)"
    by (auto simp: terminal_status_def)
  with inv have "i \<notin> set (q_work s)" "i \<notin> ex_job ` set (q_execs s)"
    unfolding exec_ids by (auto simp: queue_inv_def)
  with inv n s' ids_with_update[OF d m(1), of ?f] m(2) show ?thesis
    by (auto simp: queue_inv_def)
qed

lemma dispatch_inv:
  assumes inv: "queue_inv s" and "q_work s \<noteq> []"
  shows "queue_inv (dispatch s)"
proof -
  from assms(2) obtain i w where w: "q_work s = i # w" by (cases "q_work s") auto
  with inv w show ?thesis by (auto simp: queue_inv_def dispatch_def exclusive_def)
qed

lemma start_inv:
  assumes inv: "queue_inv s" and e: "e \<in> set (q_execs s)" "ex_phase e = Dispatched"
  shows "queue_inv (start_job now (ex_job e) s)"
proof -
  let ?f = "\<lambda>j. j\<lparr>job_status := Running, job_started := Some now, job_attempts := job_attempts j + 1\<rparr>"
  from inv have d: "distinct (map job_id (q_jobs s))" "distinct (q_work s @ map ex_job (q_execs s))"
    by (simp_all add: queue_inv_def)
  from inv_exec_status[OF inv _ e(1)] d(2) obtain j where j: "get_job (ex_job e) s = Some j"
    using get_job_None[of "ex_job e" s] by fastforce
  note m = get_job_Some[OF j]
  have w: "ex_job e \<notin> set (q_work s)" using d(2) e(1) by auto
  have x: "exclusive (set_phase (ex_job e) k Waiting (q_execs s))" for k
    using inv by (simp add: queue_inv_exclusive exclusive_phase)
  have "ids_with Queued (update_job (ex_job e) ?f (q_jobs s)) = ids_with Queued (q_jobs s) - {ex_job e}"
    "ids_with Running (update_job (ex_job e) ?f (q_jobs s)) = insert (ex_job e) (ids_with Running (q_jobs s))"
    by (simp_all add: ids_with_update_id[OF d(1) conjunct1[OF m] conjunct2[OF m]])
  moreover have "set (q_work s) \<union> dispatched_ids (q_execs s) - {ex_job e} =
      set (q_work s) \<union> (dispatched_ids (q_execs s) - {ex_job e})" using w by blast
  moreover have "ids_with Queued (q_jobs s) = set (q_work s) \<union> dispatched_ids (q_execs s)"
    "ids_with Running (q_jobs s) = started_ids (q_execs s)"
    using inv unfolding queue_inv_def by blast+
  ultimately have
    "ids_with Queued (update_job (ex_job e) ?f (q_jobs s)) = set (q_work s) \<union> (dispatched_ids (q_execs s) - {ex_job e})"
    "ids_with Running (update_job (ex_job e) ?f (q_jobs s)) = insert (ex_job e) (started_ids (q_execs s))"
    by (simp_all only:)
  then show ?thesis
    unfolding queue_inv_def start_job_def j
    using d x by (simp add: dispatched_ids_phase started_ids_phase[OF _ e(1)])
qed

lemma acquire_inv:
  assumes inv: "queue_inv s" and e: "e \<in> set (q_execs s)" "ex_phase e = Waiting"
    and free: "\<forall>e' \<in> set (q_execs s). ex_phase e' = Holding \<longrightarrow> ex_key e' \<noteq> ex_key e"
  shows "queue_inv (acquire_lock (ex_job e) (ex_key e) s)"
proof -
  from inv have d: "distinct (map ex_job (q_execs s))" by (simp add: queue_inv_def)
  have "ex_job e \<in> started_ids (q_execs s)" using e by (auto simp: started_ids_def)
  moreover have "ex_job e \<notin> dispatched_ids (q_execs s)"
  proof
    assume "ex_job e \<in> dispatched_ids (q_execs s)"
    then obtain a where "a \<in> set (q_execs s)" "ex_job a = ex_job e" "ex_phase a = Dispatched"
      by (auto simp: dispatched_ids_def)
    with same_exec[OF d _ e(1)] e(2) show False by auto
  qed
  moreover have "exclusive (set_phase (ex_job e) (ex_key e) Holding (q_execs s))"
    using inv free by (intro exclusive_hold) (auto dest: queue_inv_exclusive)
  ultimately show ?thesis using inv e(1)
    by (auto simp: queue_inv_def acquire_lock_def dispatched_ids_phase started_ids_phase)
qed

text \<open>The two ways an execution ends: the job gets a status that is not active.\<close>

lemma end_inv:
  assumes inv: "queue_inv s" and e: "e \<in> set (q_execs s)"
    and f: "\<And>j. job_id (f j) = job_id j" "\<And>j. \<not> active_status (job_status (f j))"
  shows "queue_inv (s\<lparr>q_jobs := update_job (ex_job e) f (q_jobs s),
    q_execs := drop_exec (ex_job e) (q_execs s), q_retries := rs\<rparr>)"
proof -
  from inv have d: "distinct (map job_id (q_jobs s))" "distinct (q_work s @ map ex_job (q_execs s))"
    by (simp_all add: queue_inv_def)
  from inv_exec_status[OF inv _ e] d(2) obtain j where j: "j \<in> set (q_jobs s)" "job_id j = ex_job e" by fastforce
  have "ids_with st (update_job (ex_job e) f (q_jobs s)) = ids_with st (q_jobs s) - {ex_job e}"
    if "active_status st" for st
    using f(2)[of j] that by (subst ids_with_update_id[OF d(1) j f(1)]) auto
  moreover have w: "ex_job e \<notin> set (q_work s)" using d(2) e by auto
  moreover have "exclusive (drop_exec (ex_job e) (q_execs s))"
    by (rule exclusive_sub[OF queue_inv_exclusive[OF inv]]) (auto simp: drop_exec_def)
  moreover have "set (q_work s) \<union> dispatched_ids (q_execs s) - {ex_job e} =
      set (q_work s) \<union> (dispatched_ids (q_execs s) - {ex_job e})" using w by blast
  moreover have "ids_with Queued (q_jobs s) = set (q_work s) \<union> dispatched_ids (q_execs s)"
    "ids_with Running (q_jobs s) = started_ids (q_execs s)"
    using inv unfolding queue_inv_def by blast+
  ultimately have
    "ids_with Queued (update_job (ex_job e) f (q_jobs s)) = set (q_work s) \<union> (dispatched_ids (q_execs s) - {ex_job e})"
    "ids_with Running (update_job (ex_job e) f (q_jobs s)) = started_ids (q_execs s) - {ex_job e}"
    "exclusive (drop_exec (ex_job e) (q_execs s))"
    by (simp_all add: active_status_def)
  then show ?thesis
    unfolding queue_inv_def
    using d(1) distinct_drop[OF d(2), of "ex_job e"] f(1)
    by (simp add: dispatched_ids_drop started_ids_drop)
qed

lemma result_inactive: "\<not> active_status (job_status (apply_result now r j))"
  by (simp add: apply_result_def active_status_def Let_def split: item_status.splits)

lemma result_id: "job_id (apply_result now r j) = job_id j"
  by (simp add: apply_result_def Let_def split: item_status.splits)

lemma finish_inv:
  assumes "queue_inv s" and "e \<in> set (q_execs s)"
  shows "queue_inv (finish_job retry_max now r (ex_job e) s)"
proof (cases "get_job (ex_job e) s")
  case None
  from assms(1) have "distinct (map ex_job (q_execs s))" by (simp add: queue_inv_def)
  with inv_exec_status[OF assms(1) _ assms(2)] None show ?thesis by (simp add: get_job_None)
next
  case (Some j)
  then show ?thesis
    unfolding finish_job_def by (simp only: option.case) (rule end_inv[OF assms result_id result_inactive])
qed

lemma fail_inv:
  assumes "queue_inv s" and "e \<in> set (q_execs s)"
  shows "queue_inv (fail_job now (ex_job e) s)"
proof -
  have "queue_inv (s\<lparr>q_jobs := js, q_execs := es\<rparr>)"
    if "queue_inv (s\<lparr>q_jobs := js, q_execs := es, q_retries := q_retries s\<rparr>)" for js es
    using that by simp
  then show ?thesis unfolding fail_job_def
    by this (rule end_inv[OF assms]; simp add: active_status_def)
qed

lemma requeue_ids:
  "ids_with Queued (map (\<lambda>j. if active_status (job_status j) then j\<lparr>job_status := Queued\<rparr> else j) js) =
    job_id ` set (filter (\<lambda>j. active_status (job_status j)) js)"
  by (induction js) (auto simp: active_status_def)

lemma reconcile_inv:
  assumes "distinct (map job_id (q_jobs s))"
  shows "queue_inv (reconcile_in_progress (crash s))"
proof -
  let ?js = "map (\<lambda>j. if active_status (job_status j) then j\<lparr>job_status := Queued\<rparr> else j) (q_jobs s)"
  have "map job_id ?js = map job_id (q_jobs s)" by (simp add: comp_def)
  with assms have "distinct (map job_id ?js)" by (simp only:)
  moreover have "ids_with Running ?js = {}" by (auto simp: ids_with_def active_status_def)
  moreover have "ids_with Queued ?js = job_id ` set (filter (\<lambda>j. active_status (job_status j)) (q_jobs s))"
    by (rule requeue_ids)
  ultimately show ?thesis
    using distinct_map_filter[OF assms]
    by (simp del: map_map add: queue_inv_def reconcile_in_progress_def crash_def Let_def exclusive_def
        dispatched_ids_def started_ids_def)
qed

lemma ledger_arm_inv: "queue_inv s \<Longrightarrow> queue_inv (reconcile_from_ledger fs s)"
  by (induction fs s rule: reconcile_from_ledger.induct) (simp_all add: enqueue_inv)

lemma retries_inv: "queue_inv (s\<lparr>q_retries := rs\<rparr>) = queue_inv s"
  by (simp add: queue_inv_def)

lemma qstep_inv: "qstep ok retry_max s s' \<Longrightarrow> queue_inv s \<Longrightarrow> queue_inv s'"
proof (induction rule: qstep.induct)
  case (fire s rs rp rs')
  then show ?case unfolding fire_retry_def by (intro enqueue_inv) (simp add: retries_inv)
next
  case (restart s fs)
  then show ?case by (intro ledger_arm_inv reconcile_inv) (simp add: queue_inv_def)
qed (simp_all add: enqueue_inv retry_inv dispatch_inv start_inv acquire_inv finish_inv fail_inv)

lemma empty_inv: "queue_inv empty_queue"
  by (simp add: queue_inv_def empty_queue_def ids_with_def dispatched_ids_def started_ids_def exclusive_def)

lemma reachable_inv: "reachable ok retry_max s \<Longrightarrow> queue_inv s"
  by (induction rule: reachable.induct) (auto simp: empty_inv dest: qstep_inv)


section \<open>The series of a lock holder\<close>

definition keys_ok :: "qstate \<Rightarrow> bool" where
  "keys_ok s \<longleftrightarrow> (\<forall>e \<in> set (q_execs s). ex_phase e \<noteq> Dispatched \<longrightarrow>
     (\<exists>j \<in> set (q_jobs s). job_id j = ex_job e \<and> series_key j = ex_key e))"

definition same_series :: "job list \<Rightarrow> job list \<Rightarrow> bool" where
  "same_series js js' \<longleftrightarrow> (\<forall>j \<in> set js. \<exists>j' \<in> set js'. job_id j' = job_id j \<and> series_key j' = series_key j)"

lemma same_series_refl [simp]: "same_series js js"
  by (auto simp: same_series_def)

lemma same_series_append [simp]: "same_series js (js @ ks)"
  by (auto simp: same_series_def)

lemma same_series_map: "(\<And>j. job_id (f j) = job_id j \<and> job_series (f j) = job_series j) \<Longrightarrow> same_series js (map f js)"
  by (fastforce simp: same_series_def series_key_def)

lemma same_series_update:
  "(\<And>j. job_id (f j) = job_id j \<and> job_series (f j) = job_series j) \<Longrightarrow> same_series js (update_job i f js)"
  unfolding update_job_def by (rule same_series_map) auto

lemma keys_ok_mono:
  assumes "keys_ok s" and "same_series (q_jobs s) (q_jobs s')"
    and "\<And>e. e \<in> set (q_execs s') \<Longrightarrow> ex_phase e \<noteq> Dispatched \<Longrightarrow> e \<in> set (q_execs s)"
  shows "keys_ok s'"
  unfolding keys_ok_def
proof (intro ballI impI)
  fix e
  assume e: "e \<in> set (q_execs s')" "ex_phase e \<noteq> Dispatched"
  with assms(1,3) obtain j where "j \<in> set (q_jobs s)" "job_id j = ex_job e" "series_key j = ex_key e"
    unfolding keys_ok_def by blast
  with assms(2) show "\<exists>j \<in> set (q_jobs s'). job_id j = ex_job e \<and> series_key j = ex_key e"
    unfolding same_series_def by metis
qed

lemma keys_ok_phase:
  assumes "keys_ok s" and "j \<in> set (q_jobs s)" and "job_id j = i" and "series_key j = k"
    and "same_series (q_jobs s) (q_jobs s')" and "q_execs s' = set_phase i k ph (q_execs s)"
  shows "keys_ok s'"
  unfolding keys_ok_def
proof (intro ballI impI)
  fix e
  assume e: "e \<in> set (q_execs s')" "ex_phase e \<noteq> Dispatched"
  with assms(6) obtain y where y: "y \<in> set (q_execs s)"
      "e = (if ex_job y = i then \<lparr>ex_job = i, ex_key = k, ex_phase = ph\<rparr> else y)"
    by (auto simp: set_phase_def)
  have "\<exists>j \<in> set (q_jobs s). job_id j = ex_job e \<and> series_key j = ex_key e"
  proof (cases "ex_job y = i")
    case True
    with y(2) assms(2-4) show ?thesis by auto
  next
    case False
    with y(2) have "e = y" by simp
    with y(1) e(2) assms(1) show ?thesis unfolding keys_ok_def by blast
  qed
  with assms(5) show "\<exists>j \<in> set (q_jobs s'). job_id j = ex_job e \<and> series_key j = ex_key e"
    unfolding same_series_def by metis
qed

lemma enqueue_keys: "keys_ok s \<Longrightarrow> keys_ok (fst (enqueue_job cap p sid trig media s))"
  by (rule enqueue_result) (auto intro: keys_ok_mono)

lemma ledger_keys: "keys_ok s \<Longrightarrow> keys_ok (reconcile_from_ledger fs s)"
  by (induction fs s rule: reconcile_from_ledger.induct) (simp_all add: enqueue_keys)

lemma result_series: "job_series (apply_result now r j) = job_series j"
  by (simp add: apply_result_def Let_def split: item_status.splits)

lemma dispatch_keys: "keys_ok s \<Longrightarrow> keys_ok (dispatch s)"
  by (erule keys_ok_mono) (auto simp: dispatch_def split: list.splits)

lemma end_keys:
  assumes "keys_ok s" and "\<And>j. job_id (f j) = job_id j \<and> job_series (f j) = job_series j"
  shows "keys_ok (s\<lparr>q_jobs := update_job i f (q_jobs s), q_execs := drop_exec i (q_execs s), q_retries := rs\<rparr>)"
  by (rule keys_ok_mono[OF assms(1)]) (simp_all add: same_series_update[OF assms(2)] drop_exec_def)

lemma start_keys:
  assumes "keys_ok s" shows "keys_ok (start_job now i s)"
proof (cases "get_job i s")
  case None
  with assms show ?thesis
    by (auto simp: start_job_def drop_exec_def intro: keys_ok_mono)
next
  case (Some j)
  let ?f = "\<lambda>j. j\<lparr>job_status := Running, job_started := Some now, job_attempts := job_attempts j + 1\<rparr>"
  have "keys_ok (s\<lparr>q_jobs := update_job i ?f (q_jobs s), q_execs := set_phase i (series_key j) Waiting (q_execs s)\<rparr>)"
    by (rule keys_ok_phase[OF assms, of j i "series_key j" _ Waiting])
      (use get_job_Some[OF Some] in \<open>simp_all add: same_series_update\<close>)
  with Some show ?thesis by (simp add: start_job_def)
qed

lemma acquire_keys:
  assumes "keys_ok s" and "e \<in> set (q_execs s)" and "ex_phase e = Waiting"
  shows "keys_ok (acquire_lock (ex_job e) (ex_key e) s)"
proof -
  from assms obtain j where "j \<in> set (q_jobs s)" "job_id j = ex_job e" "series_key j = ex_key e"
    unfolding keys_ok_def by fastforce
  then show ?thesis
    by (intro keys_ok_phase[OF assms(1), of j "ex_job e" "ex_key e" _ Holding]) (simp_all add: acquire_lock_def)
qed

lemma finish_keys: "keys_ok s \<Longrightarrow> keys_ok (finish_job retry_max now r i s)"
proof (cases "get_job i s")
  case None
  then show "keys_ok s \<Longrightarrow> ?thesis" by (auto simp: finish_job_def drop_exec_def intro: keys_ok_mono)
next
  case (Some j)
  then show "keys_ok s \<Longrightarrow> ?thesis"
    unfolding finish_job_def by (simp only: option.case) (rule end_keys, simp_all add: result_id result_series)
qed

lemma fail_keys: "keys_ok s \<Longrightarrow> keys_ok (fail_job now i s)"
  unfolding fail_job_def by (erule keys_ok_mono) (auto simp: drop_exec_def intro: same_series_update)

lemma retry_keys: "keys_ok s \<Longrightarrow> retry_job i s = Inr s' \<Longrightarrow> keys_ok s'"
  by (erule keys_ok_mono) (auto simp: retry_job_def intro!: same_series_update split: option.splits if_splits)

lemma qstep_keys: "qstep ok retry_max s s' \<Longrightarrow> keys_ok s \<Longrightarrow> keys_ok s'"
proof (induction rule: qstep.induct)
  case (fire s rs rp rs')
  then show ?case unfolding fire_retry_def by (intro enqueue_keys) (simp add: keys_ok_def)
next
  case (restart s fs)
  show ?case by (rule ledger_keys) (simp add: keys_ok_def reconcile_in_progress_def crash_def Let_def)
qed (simp_all add: enqueue_keys retry_keys dispatch_keys start_keys acquire_keys finish_keys fail_keys)

lemma reachable_keys: "reachable ok retry_max s \<Longrightarrow> keys_ok s"
  by (induction rule: reachable.induct) (auto simp: empty_queue_def keys_ok_def dest: qstep_keys)

section \<open>How many jobs a file can have\<close>

definition open_count :: "pystr \<Rightarrow> job list \<Rightarrow> nat" where
  "open_count p js = length (filter (\<lambda>j. job_source j = p \<and> job_status j \<noteq> JobDone) js)"

lemma open_split: "open_count p js = terminal_count p js + length (active_for p js)"
  by (induction js) (auto simp: open_count_def terminal_count_def active_for_def terminal_status_def active_status_def,
      (metis job_status.exhaust)+)

lemma open_append: "open_count p (js @ ks) = open_count p js + open_count p ks"
  by (simp add: open_count_def)

lemma open_update:
  assumes "\<And>j. job_source (f j) = job_source j" and "\<And>j. j \<in> set js \<Longrightarrow> job_id j = i \<Longrightarrow> job_status j \<noteq> JobDone"
  shows "open_count p (update_job i f js) \<le> open_count p js"
  using assms(2) by (induction js) (auto simp: open_count_def assms(1) le_SucI)

lemma executing_active:
  assumes "queue_inv s" and "e \<in> set (q_execs s)" and "j \<in> set (q_jobs s)" and "job_id j = ex_job e"
  shows "active_status (job_status j)"
proof -
  from assms(2) have "ex_job e \<in> dispatched_ids (q_execs s) \<union> started_ids (q_execs s)"
    unfolding exec_ids[symmetric] by blast
  with assms(1) have i: "ex_job e \<in> ids_with Queued (q_jobs s) \<union> ids_with Running (q_jobs s)"
    unfolding queue_inv_def by blast
  from assms(1) have d: "distinct (map job_id (q_jobs s))" unfolding queue_inv_def by blast
  from i show ?thesis
    unfolding assms(4)[symmetric] Un_iff ids_with_job[OF d assms(3)] active_status_def .
qed

text \<open>Callers without an operator: automatic triggers, with the configured cap.\<close>

definition unattended :: "nat \<Rightarrow> nat option \<Rightarrow> trigger \<Rightarrow> bool" where
  "unattended m cap trig \<longleftrightarrow> auto_trigger trig \<and> cap = Some m"

definition open_bound :: "nat \<Rightarrow> nat \<Rightarrow> qstate \<Rightarrow> bool" where
  "open_bound M retry_max s \<longleftrightarrow> (\<forall>p. open_count p (q_jobs s) \<le> M) \<and> (\<forall>rp \<in> set (q_retries s). rp_cap rp = retry_max)"

lemma enqueue_bound:
  assumes "open_bound M r s" and "auto_trigger trig" and "m \<le> M"
  shows "open_bound M r (fst (enqueue_job (Some m) p sid trig media s))"
proof (rule enqueue_result[where P = "open_bound M r", OF assms(1)])
  assume "active_for p (q_jobs s) = []"
    and "case Some m of None \<Rightarrow> True | Some m \<Rightarrow> auto_trigger trig \<longrightarrow> terminal_count p (q_jobs s) < m"
  with assms(2,3) have "open_count p (q_jobs s) < M" by (simp add: open_split)
  with assms(1) show "open_bound M r (s\<lparr>q_jobs := q_jobs s @ [new_job (q_jobs s) p sid trig media],
      q_work := q_work s @ [next_job_id (q_jobs s)]\<rparr>)"
    by (auto simp: open_bound_def open_append) (auto simp: open_count_def new_job_def Suc_leI)
qed

lemma ledger_bound: "open_bound M r s \<Longrightarrow> 1 \<le> M \<Longrightarrow> open_bound M r (reconcile_from_ledger fs s)"
proof (induction fs s rule: reconcile_from_ledger.induct)
  case (2 p sid fs s)
  have "open_bound M r (fst (enqueue_job None p sid StartupReconcile None s))"
    if n: "\<not> (\<exists>j \<in> set (q_jobs s). job_source j = p)"
  proof (rule enqueue_result[where P = "open_bound M r", OF "2.prems"(1)])
    from n have "open_count p (q_jobs s) = 0" by (auto simp: open_count_def filter_empty_conv)
    with "2.prems" show "open_bound M r (s\<lparr>q_jobs := q_jobs s @ [new_job (q_jobs s) p sid StartupReconcile None],
        q_work := q_work s @ [next_job_id (q_jobs s)]\<rparr>)"
      by (auto simp: open_bound_def open_append) (auto simp: open_count_def new_job_def)
  qed
  with "2.IH" "2.prems" show ?case by simp
qed simp

lemma update_bound:
  assumes "open_bound M r s" and "\<And>j. job_source (f j) = job_source j"
    and "\<And>j. j \<in> set (q_jobs s) \<Longrightarrow> job_id j = i \<Longrightarrow> job_status j \<noteq> JobDone"
    and "q_jobs s' = update_job i f (q_jobs s)" and "\<And>rp. rp \<in> set (q_retries s') \<Longrightarrow> rp_cap rp = r"
  shows "open_bound M r s'"
  using assms(1,4,5) open_update[OF assms(2,3)] unfolding open_bound_def by (metis order_trans)

lemma executing_not_done:
  "queue_inv s \<Longrightarrow> e \<in> set (q_execs s) \<Longrightarrow> j \<in> set (q_jobs s) \<Longrightarrow> job_id j = ex_job e \<Longrightarrow> job_status j \<noteq> JobDone"
  using executing_active[of s e j] by (auto simp: active_status_def)

lemma result_source: "job_source (apply_result now r j) = job_source j"
  by (simp add: apply_result_def Let_def split: item_status.splits)

lemma plan_cap: "rp \<in> set (plan_retry retry_max r j) \<Longrightarrow> rp_cap rp = retry_max"
  by (auto simp: plan_retry_def split: if_splits)

lemma open_bound_retries: "open_bound M r s \<Longrightarrow> rp \<in> set (q_retries s) \<Longrightarrow> rp_cap rp = r"
  by (simp add: open_bound_def)

lemma open_bound_cong: "open_bound M r s \<Longrightarrow> q_jobs s' = q_jobs s \<Longrightarrow> set (q_retries s') \<subseteq> set (q_retries s) \<Longrightarrow> open_bound M r s'"
  by (auto simp: open_bound_def)

lemma finish_bound:
  assumes "open_bound M retry_max s" and "queue_inv s" and "e \<in> set (q_execs s)"
  shows "open_bound M retry_max (finish_job retry_max now r (ex_job e) s)"
proof (cases "get_job (ex_job e) s")
  case None
  with assms(1) show ?thesis by (auto simp: finish_job_def intro: open_bound_cong)
next
  case (Some j)
  show ?thesis
    by (rule update_bound[OF assms(1) result_source executing_not_done[OF assms(2,3)]])
      (use Some in \<open>auto simp: finish_job_def dest: plan_cap open_bound_retries[OF assms(1)]\<close>)
qed

lemma start_bound:
  assumes "open_bound M r s" and "queue_inv s" and "e \<in> set (q_execs s)"
  shows "open_bound M r (start_job now (ex_job e) s)"
proof (cases "get_job (ex_job e) s")
  case None
  with assms(1) show ?thesis by (auto simp: start_job_def intro: open_bound_cong)
next
  case (Some j)
  show ?thesis
    by (rule update_bound[OF assms(1) _ executing_not_done[OF assms(2,3)],
          of "\<lambda>j. j\<lparr>job_status := Running, job_started := Some now, job_attempts := job_attempts j + 1\<rparr>"])
      (use Some in \<open>auto simp: start_job_def dest: open_bound_retries[OF assms(1)]\<close>)
qed

lemma fail_bound:
  assumes "open_bound M r s" and "queue_inv s" and "e \<in> set (q_execs s)"
  shows "open_bound M r (fail_job now (ex_job e) s)"
  by (rule update_bound[OF assms(1) _ executing_not_done[OF assms(2,3)],
        of "\<lambda>j. j\<lparr>job_status := Failed, job_finished := Some now,
          job_error := Some (lit ''unhandled exception in worker'')\<rparr>"])
    (auto simp: fail_job_def dest: open_bound_retries[OF assms(1)])

lemma retry_bound:
  assumes "open_bound M r s" and "queue_inv s" and "retry_job i s = Inr s'"
  shows "open_bound M r s'"
proof -
  let ?f = "\<lambda>j. j\<lparr>job_status := Queued, job_error := None, job_attempts := 0,
    job_trigger := ManualRetry, job_started := None, job_finished := None\<rparr>"
  from assms(3) obtain j where j: "get_job i s = Some j" "terminal_status (job_status j)"
    and s': "q_jobs s' = update_job i ?f (q_jobs s)" "q_retries s' = q_retries s"
    by (auto simp: retry_job_def split: option.splits if_splits)
  from assms(2) have "distinct (map job_id (q_jobs s))" by (simp add: queue_inv_def)
  with get_job_Some[OF j(1)] j(2) have "k \<in> set (q_jobs s) \<Longrightarrow> job_id k = i \<Longrightarrow> job_status k \<noteq> JobDone" for k
    using distinct_same_id[of "q_jobs s" k j] by (auto simp: terminal_status_def)
  then show ?thesis
    by (intro update_bound[OF assms(1) _ _ s'(1)]) (auto simp: s'(2) dest: open_bound_retries[OF assms(1)])
qed

lemma requeue_bound: "open_bound M r s \<Longrightarrow> open_bound M r (reconcile_in_progress (crash s))"
proof -
  have "open_count p (map (\<lambda>j. if active_status (job_status j) then j\<lparr>job_status := Queued\<rparr> else j) js) = open_count p js"
    for p js by (induction js) (auto simp: open_count_def active_status_def)
  then show "open_bound M r s \<Longrightarrow> ?thesis"
    by (simp add: open_bound_def reconcile_in_progress_def crash_def Let_def)
qed

lemma qstep_bound:
  "qstep (unattended m) r s s' \<Longrightarrow> open_bound M r s \<Longrightarrow> queue_inv s \<Longrightarrow> m \<le> M \<Longrightarrow> r \<le> M \<Longrightarrow> 1 \<le> M \<Longrightarrow> open_bound M r s'"
proof (induction rule: qstep.induct)
  case (fire s rs rp rs')
  then have c: "rp_cap rp = r" by (simp add: open_bound_def)
  from fire have "open_bound M r (s\<lparr>q_retries := rs @ rs'\<rparr>)" by (auto intro: open_bound_cong)
  with fire c show ?case unfolding fire_retry_def by (auto intro: enqueue_bound simp: auto_trigger_def)
next
  case (restart s fs)
  then show ?case by (intro ledger_bound requeue_bound)
next
  case (enqueue cap trig s p sid media)
  then show ?case by (auto simp: unattended_def intro: enqueue_bound)
next
  case (dispatch s)
  then show ?case by (auto simp: dispatch_def split: list.splits intro: open_bound_cong)
next
  case (acquire e s)
  then show ?case by (auto simp: acquire_lock_def intro: open_bound_cong)
qed (simp_all add: retry_bound start_bound finish_bound fail_bound)

lemma reachable_bound: "reachable (unattended m) r s \<Longrightarrow> open_bound (max 1 (max m r)) r s"
proof (induction rule: reachable.induct)
  case init
  show ?case by (simp add: open_bound_def empty_queue_def open_count_def)
next
  case (step s s')
  then show ?case by (auto intro!: qstep_bound[of m r s s'] reachable_inv)
qed

section \<open>Properties\<close>

definition demo_file :: pystr where
  "demo_file = lit ''/tv/S01E01.en.srt''"

definition demo_queued :: qstate where
  "demo_queued = fst (enqueue_job (Some 2) demo_file (Some 7) Poll None empty_queue)"

definition demo_waiting :: qstate where
  "demo_waiting = start_job 10 1 (dispatch demo_queued)"

definition demo_failed :: qstate where
  "demo_failed = fail_job 20 1 demo_waiting"

lemmas queue_eval = demo_file_def demo_queued_def demo_waiting_def demo_failed_def empty_queue_def enqueue_job_def
  new_job_def next_job_id_def media_snapshot_def active_for_def terminal_count_def active_status_def
  terminal_status_def auto_trigger_def dispatch_def start_job_def get_job_def update_job_def series_key_def
  set_phase_def drop_exec_def fail_job_def retry_job_def Let_def

lemma demo_queued_value: "demo_queued = \<lparr>q_jobs = [\<lparr>job_id = 1, job_source = demo_file, job_series = Some 7,
    job_status = Queued, job_trigger = Poll, job_error = None, job_attempts = 0, job_media = None, job_started = None,
    job_finished = None\<rparr>], q_work = [1], q_execs = [], q_retries = []\<rparr>"
  by (simp add: queue_eval)

lemma demo_waiting_value: "demo_waiting = \<lparr>q_jobs = [\<lparr>job_id = 1, job_source = demo_file, job_series = Some 7,
    job_status = Running, job_trigger = Poll, job_error = None, job_attempts = 1, job_media = None, job_started = Some 10,
    job_finished = None\<rparr>], q_work = [], q_execs = [\<lparr>ex_job = 1, ex_key = 7, ex_phase = Waiting\<rparr>], q_retries = []\<rparr>"
  unfolding demo_waiting_def demo_queued_value by (simp add: queue_eval)

lemma demo_reachable: "reachable (unattended 2) r demo_failed" "reachable (unattended 2) r demo_waiting"
proof -
  have q: "reachable (unattended 2) r demo_queued"
    unfolding demo_queued_def by (intro reachable.step[OF reachable.init] qstep.enqueue) (simp add: unattended_def auto_trigger_def)
  have d: "reachable (unattended 2) r (dispatch demo_queued)"
    by (intro reachable.step[OF q] qstep.dispatch) (simp add: demo_queued_value)
  have "qstep (unattended 2) r (dispatch demo_queued) (start_job 10 (ex_job \<lparr>ex_job = 1, ex_key = 0, ex_phase = Dispatched\<rparr>) (dispatch demo_queued))"
    by (rule qstep.start) (simp_all add: demo_queued_value dispatch_def)
  with d show w: "reachable (unattended 2) r demo_waiting"
    unfolding demo_waiting_def by (auto intro: reachable.step)
  have "qstep (unattended 2) r demo_waiting (fail_job 20 (ex_job \<lparr>ex_job = 1, ex_key = 7, ex_phase = Waiting\<rparr>) demo_waiting)"
    by (rule qstep.fail) (simp add: demo_waiting_value)
  with w show "reachable (unattended 2) r demo_failed"
    unfolding demo_failed_def by (auto intro: reachable.step)
qed

lemma scheduled_active:
  assumes "queue_inv s"
  shows "set (q_work s @ map ex_job (q_execs s)) = job_id ` set (filter (\<lambda>j. active_status (job_status j)) (q_jobs s))"
proof -
  have "job_id ` set (filter (\<lambda>j. active_status (job_status j)) js) = ids_with Queued js \<union> ids_with Running js" for js
    by (induction js) (auto simp: active_status_def)
  with assms show ?thesis unfolding queue_inv_def set_append set_map exec_ids by blast
qed



text \<open>C20: two executions that hold a lock belong to jobs of different series, so that the episodes of one series are never translated at the same time; an execution holds the lock of the series its job has in the table.\<close>

theorem series_translated_one_at_a_time:
  assumes "reachable ok retry_max s" and "a \<in> set (q_execs s)" and "ex_phase a = Holding"
  shows "(\<exists>j. get_job (ex_job a) s = Some j \<and> series_key j = ex_key a)
    \<and> (\<forall>b \<in> set (q_execs s). ex_phase b = Holding \<longrightarrow> ex_key b = ex_key a \<longrightarrow> b = a)"
proof
  from reachable_keys[OF assms(1)] assms(2,3)
  obtain j where j: "j \<in> set (q_jobs s)" "job_id j = ex_job a" "series_key j = ex_key a"
    unfolding keys_ok_def by fastforce
  from j(1,2) have "ex_job a \<in> job_id ` set (q_jobs s)" by (metis imageI)
  then obtain k where k: "get_job (ex_job a) s = Some k" using get_job_None[of "ex_job a" s] by (cases "get_job (ex_job a) s") auto
  have "distinct (map job_id (q_jobs s))" using reachable_inv[OF assms(1)] by (simp add: queue_inv_def)
  with get_job_Some[OF k] j have "k = j" by (auto dest: distinct_same_id)
  with k j show "\<exists>j. get_job (ex_job a) s = Some j \<and> series_key j = ex_key a" by blast
  from queue_inv_exclusive[OF reachable_inv[OF assms(1)]] assms(2,3)
  show "\<forall>b \<in> set (q_execs s). ex_phase b = Holding \<longrightarrow> ex_key b = ex_key a \<longrightarrow> b = a"
    unfolding exclusive_def by fastforce
qed

lemma series_translated_one_at_a_time_witness:
  "\<exists>j. get_job 1 (acquire_lock 1 7 demo_waiting) = Some j \<and> series_key j = 7"
proof -
  have "qstep (unattended 2) 0 demo_waiting
      (acquire_lock (ex_job \<lparr>ex_job = 1, ex_key = 7, ex_phase = Waiting\<rparr>) (ex_key \<lparr>ex_job = 1, ex_key = 7, ex_phase = Waiting\<rparr>) demo_waiting)"
    by (rule qstep.acquire) (simp_all add: demo_waiting_value)
  then have "reachable (unattended 2) 0 (acquire_lock 1 7 demo_waiting)"
    using demo_reachable(2)[of 0] by (auto intro: reachable.step)
  from series_translated_one_at_a_time[OF this, of "\<lparr>ex_job = 1, ex_key = 7, ex_phase = Holding\<rparr>"]
  show ?thesis by (simp add: demo_waiting_value acquire_lock_def set_phase_def)
qed

text \<open>Enqueueing is idempotent while a job of the file is active, honours the cap of the automatic triggers, and otherwise adds exactly one queued job, whose id goes to the end of the work queue.\<close>

theorem enqueue_adds_at_most_one:
  assumes "enqueue_job cap p sid trig media s = (s', b)"
  shows "if b then active_for p (q_jobs s) = [] \<and> q_jobs s' = q_jobs s @ [new_job (q_jobs s) p sid trig media]
           \<and> q_work s' = q_work s @ [next_job_id (q_jobs s)]
           \<and> fst (enqueue_job cap' p sid' trig' media' s') = s'
         else s' = s \<and> (active_for p (q_jobs s) \<noteq> []
           \<or> (\<exists>m. cap = Some m \<and> auto_trigger trig \<and> terminal_count p (q_jobs s) \<ge> m))"
  using assms
proof (cases rule: enqueue_cases)
  case no
  with assms show ?thesis by (auto simp: enqueue_job_def Let_def split: if_splits option.splits)
next
  case yes
  then have "active_for p (q_jobs s') \<noteq> []" by (simp add: active_for_def new_job_def active_status_def)
  with yes show ?thesis by (simp add: enqueue_job_def)
qed

lemma enqueue_adds_at_most_one_witness:
  "fst (enqueue_job None demo_file None Manual None demo_queued) = demo_queued"
  using enqueue_adds_at_most_one[of "Some 2" demo_file "Some 7" Poll None empty_queue demo_queued True None None Manual None]
  by (simp add: demo_queued_def enqueue_job_def empty_queue_def Let_def active_for_def terminal_count_def auto_trigger_def new_job_def)



text \<open>Retrying a failed job by hand does not look at the other jobs of its file: after a failed job and a new poll, the retry leaves two active jobs for one file, which enqueueing never does.\<close>

theorem manual_retry_doubles_a_file:
  "\<exists>s s'. reachable (unattended 2) 0 s \<and> length (active_for demo_file (q_jobs s)) = 1
    \<and> retry_job 1 s = Inr s' \<and> length (active_for demo_file (q_jobs s')) = 2"
proof -
  let ?s = "fst (enqueue_job (Some 2) demo_file (Some 7) Poll None demo_failed)"
  have "reachable (unattended 2) 0 ?s"
    by (intro reachable.step[OF demo_reachable(1)] qstep.enqueue) (simp add: unattended_def auto_trigger_def)
  moreover have "q_jobs demo_failed = [\<lparr>job_id = 1, job_source = demo_file, job_series = Some 7,
      job_status = Failed, job_trigger = Poll, job_error = Some (lit ''unhandled exception in worker''), job_attempts = 1,
      job_media = None, job_started = Some 10, job_finished = Some 20\<rparr>]"
    by (simp add: demo_failed_def demo_waiting_value fail_job_def)
  ultimately show ?thesis
    by (intro exI[of _ ?s] exI[of _ "case retry_job 1 ?s of Inr s' \<Rightarrow> s'"])
      (simp add: enqueue_job_def Let_def active_for_def terminal_count_def auto_trigger_def new_job_def next_job_id_def
        active_status_def terminal_status_def retry_job_def get_job_def)
qed

end
