(* ===== verification/File_Guarantees.thy ===== *)
theory File_Guarantees
  imports Translate_File Job_Queue
begin

text \<open>
  What \<open>translate_file\<close> guarantees: the outcomes of a document and their order against the gate,
  the sidecar and the ledger, for every ledger that keeps the protocol, and which outcomes the
  worker retries by itself.
\<close>

section \<open>The outcomes of a document\<close>

definition batch_reason :: "(pystr \<Rightarrow> pystr) \<Rightarrow> pystr \<Rightarrow> bool" where
  "batch_reason rp reason \<longleftrightarrow> (\<exists>e. is_batch_error e \<and> e \<noteq> Exhausted \<and> (\<nexists>k n. e = WrongCount k n) \<and> reason = error_text rp e)"

definition gate_stop :: "'e surroundings \<Rightarrow> pystr \<Rightarrow> nat list \<Rightarrow> bool" where
  "gate_stop su reason failing \<longleftrightarrow>
     (\<exists>f. reason = gate_reason su f \<and> failing = failing_of f \<and> gf_check f \<in> {2, 3, 6, 7, 8, 9, 10, 11, 12})"

lemma failure_of_batch:
  assumes "failure_of (fst (translate_batch llm rp prompt_of retries b)) = Some f"
  shows "(\<exists>e. f = Validation e \<and> is_batch_error e \<and> e \<noteq> Exhausted \<and> (\<nexists>k n. e = WrongCount k n)) \<or> outside f"
proof (cases "fst (translate_batch llm rp prompt_of retries b)")
  case (BatchFailed e)
  then have "translate_batch llm rp prompt_of retries b = (BatchFailed e, snd (translate_batch llm rp prompt_of retries b))"
    by (simp add: prod_eq_iff)
  from correction_loop_fails[OF this[unfolded translate_batch_eq]] obtain reply where
    "read_reply reply (length (batch_cues b)) (batch_ml b) (batch_maps b) = Inl e" by blast
  from read_reply_Inl[OF this] BatchFailed assms show ?thesis by (auto simp: failure_of_def outside_def split: if_splits)
qed (use assms in \<open>auto simp: failure_of_def outside_def\<close>)

lemma translate_pass_failure:
  assumes "honest (su_seen su)"
  shows "case translate_pass fs su bible flat m src of
     AllTexts rs \<Rightarrow> True
   | BatchRaised es \<Rightarrow> es \<noteq> [] \<and> (\<forall>f \<in> set es. outside f)
   | BatchQuarantine reason rest \<Rightarrow> batch_reason (su_repr su) reason \<and> (\<forall>f \<in> set rest. outside f)"
proof -
  let ?bs = "batch_subdoc (fs_batch fs) src"
  let ?outs = "map (\<lambda>(i, b, h). fst (translate_batch (su_batch_llm su i) (su_repr su)
      (su_prompt su h (glossary_of bible) (register_of bible) None) (fs_retries fs) b))
    (enumerate 0 (zip ?bs (per_batch_hints m bible flat ?bs)))"
  have f: "(\<exists>e. f = Validation e \<and> is_batch_error e \<and> e \<noteq> Exhausted \<and> (\<nexists>k n. e = WrongCount k n)) \<or> outside f"
    if "f \<in> set (List.map_filter failure_of ?outs)" for f
    using that failure_of_batch by (fastforce simp: set_map_filter)
  have v: "is_batch_error e \<and> e \<noteq> Exhausted \<and> (\<nexists>k n. e = WrongCount k n)"
    if "Validation e \<in> set (List.map_filter failure_of ?outs)" for e
    using f[OF that] by (auto simp: outside_def)
  have out: "outside f" if "\<not> is_validation f \<and> f \<in> set (List.map_filter failure_of ?outs)" for f
    using f[of f] that by (auto simp: is_validation_def)
  have "translate_pass fs su bible flat m src = gather_batches (su_repr su) (su_seen su) ?outs"
    by (simp add: translate_pass_def Let_def)
  note g = gather_failures[OF assms, of ?outs "su_repr su", folded this]
  show ?thesis
  proof (cases "translate_pass fs su bible flat m src")
    case (BatchQuarantine reason rest)
    with g obtain e where e: "Validation e \<in> set (List.map_filter failure_of ?outs)" "reason = error_text (su_repr su) e"
      and r: "\<forall>f \<in> set rest. \<not> is_validation f \<and> f \<in> set (List.map_filter failure_of ?outs)" by auto
    from v[OF e(1)] e(2) have "batch_reason (su_repr su) reason" unfolding batch_reason_def by blast
    with r out BatchQuarantine show ?thesis by simp
  next
    case (BatchRaised es)
    with g out show ?thesis by simp
  qed simp
qed

text \<open>When every batch is translated, what is left is the loop of the gate on a document with the source's headers.\<close>

lemma translate_doc_loop:
  assumes "translate_pass fs su bible flat m src = AllTexts rs"
  obtains doc where "retexts (doc_lines src) (doc_lines doc)"
    "translate_doc fs su bible flat m src =
      (case fst (gate_loop fs su bible flat m src (fs_repair_max fs) 0 doc) of
         GatePassed out \<Rightarrow> DocTranslated out
       | GateQuarantine f \<Rightarrow> DocQuarantined (gate_reason su f) (failing_of f) []
       | GateRaised e \<Rightarrow> DocRaised [e])"
proof -
  from assemble_doc_ok[OF translate_pass_fit[OF assms]] obtain trn where
    trn: "assemble_doc src rs = Inr trn" "retexts (doc_lines src) (doc_lines trn)" by blast
  from review_pass_ok[of fs su bible flat m src trn] obtain rev where
    rev: "review_pass fs su bible flat m src trn = Inr rev" "retexts (doc_lines trn) (doc_lines rev)" by blast
  have "retexts (doc_lines src) (doc_lines (preserve_source_envelopes (fs_envelopes fs) rev src))"
    by (rule preserve_retexts[OF retexts_trans[OF trn(2) rev(2)]])
  from that[OF this] show ?thesis by (simp add: translate_doc_def assms trn after_assembly_def rev)
qed

lemma document_translated:
  assumes "translate_doc fs su bible flat m src = DocTranslated doc"
  shows "validate_subdoc (fs_gate fs) (allowlist_of bible) doc src = None \<and> retexts (doc_lines src) (doc_lines doc)"
proof -
  from assms obtain rs where "translate_pass fs su bible flat m src = AllTexts rs"
    by (auto simp: translate_doc_def split: batch_phase.splits)
  then obtain d where d: "retexts (doc_lines src) (doc_lines d)"
    "translate_doc fs su bible flat m src =
      (case fst (gate_loop fs su bible flat m src (fs_repair_max fs) 0 d) of
         GatePassed out \<Rightarrow> DocTranslated out
       | GateQuarantine f \<Rightarrow> DocQuarantined (gate_reason su f) (failing_of f) []
       | GateRaised e \<Rightarrow> DocRaised [e])" by (rule translate_doc_loop)
  from gate_loop_result[OF d(1), of fs su bible flat m "fs_repair_max fs" 0] d(2) assms show ?thesis
    by (auto split: gate_phase.splits)
qed

lemma document_not_translated:
  assumes "honest (su_seen su)"
  shows "case translate_doc fs su bible flat m src of
     DocTranslated doc \<Rightarrow> True
   | DocQuarantined reason failing rest \<Rightarrow>
       (batch_reason (su_repr su) reason \<and> failing = [] \<or> gate_stop su reason failing \<and> rest = [])
       \<and> (\<forall>f \<in> set rest. outside f)
   | DocRaised es \<Rightarrow> es \<noteq> [] \<and> (\<forall>f \<in> set es. outside f)"
proof (cases "translate_pass fs su bible flat m src")
  case (AllTexts rs)
  then obtain d where d: "retexts (doc_lines src) (doc_lines d)"
    "translate_doc fs su bible flat m src =
      (case fst (gate_loop fs su bible flat m src (fs_repair_max fs) 0 d) of
         GatePassed out \<Rightarrow> DocTranslated out
       | GateQuarantine f \<Rightarrow> DocQuarantined (gate_reason su f) (failing_of f) []
       | GateRaised e \<Rightarrow> DocRaised [e])" by (rule translate_doc_loop)
  from gate_loop_result[OF d(1), of fs su bible flat m "fs_repair_max fs" 0] gate_loop_raises[OF _ d(1)] d(2)
  show ?thesis by (auto simp: gate_stop_def split: gate_phase.splits)
qed (use translate_pass_failure[OF assms, of fs bible flat m src] in \<open>auto simp: translate_doc_def\<close>)

section \<open>The outcomes of a file\<close>

text \<open>How the read, the Bible passes and the document decide what becomes of the file.\<close>

definition file_doc :: "file_settings \<Rightarrow> 'e surroundings \<Rightarrow> file_job \<Rightarrow> pystr + sub_doc \<Rightarrow> bible_db \<Rightarrow> 'e doc_result \<times> bible_db" where
  "file_doc fs su j rr db = (case rr of
     Inl exc \<Rightarrow> (DocQuarantined (lit ''read/batch failure: '' @ exc) [] [], db)
   | Inr src \<Rightarrow> (let (phase, db') = bible_passes fs su (fj_media j) (fj_stem j) src db in
       (case phase of
          BibleFailed reason \<Rightarrow> DocQuarantined reason [] []
        | BibleRaised es \<Rightarrow> DocRaised es
        | NoBible \<Rightarrow> translate_doc fs su None [] [] src
        | BibleReady b flat m \<Rightarrow> translate_doc fs su (Some b) flat m src, db')))"

lemma run_file_eq:
  "run_file fs su lo j rr we w = (case file_doc fs su j rr (w_bible w) of
     (DocQuarantined reason failing rest, db) \<Rightarrow> quarantine_file lo j reason failing rest (w\<lparr>w_bible := db\<rparr>)
   | (DocRaised es, db) \<Rightarrow> (FileRaised es, w\<lparr>w_bible := db\<rparr>)
   | (DocTranslated doc, db) \<Rightarrow>
       (case we of
          Some e \<Rightarrow> (FileRaised [External e], w\<lparr>w_bible := db\<rparr>)
        | None \<Rightarrow> put_record lo (done_entry j) (FileDone (fj_dest j)) (w\<lparr>w_bible := db, w_dest := Sidecar doc\<rparr>)))"
  by (simp add: run_file_def file_doc_def Let_def split: sum.split prod.split bible_phase.split doc_result.split)

lemma file_doc_translated:
  assumes "file_doc fs su j rr db = (DocTranslated doc, db')"
  shows "\<exists>src bible. rr = Inr src \<and> validate_subdoc (fs_gate fs) (allowlist_of bible) doc src = None
    \<and> retexts (doc_lines src) (doc_lines doc)"
  using assms by (fastforce simp: file_doc_def split: sum.splits prod.splits bible_phase.splits dest: document_translated)


lemma file_doc_quarantined:
  assumes "file_doc fs su j rr db = (DocQuarantined reason failing rest, db')" and "honest (su_seen su)"
  shows "batch_reason (su_repr su) reason \<or> gate_stop su reason failing
    \<or> (\<exists>exc. reason = lit ''read/batch failure: '' @ exc) \<or> (\<exists>exc. reason = lit ''pass1 analysis failure: '' @ exc)"
proof (cases rr)
  case (Inr src)
  obtain phase db2 where b: "bible_passes fs su (fj_media j) (fj_stem j) src db = (phase, db2)" by fastforce
  show ?thesis
  proof (cases phase)
    case NoBible
    with assms(1) Inr b document_not_translated[OF assms(2), of fs None "[]" "[]" src] show ?thesis
      by (auto simp: file_doc_def)
  next
    case (BibleReady bb flat m)
    with assms(1) Inr b document_not_translated[OF assms(2), of fs "Some bb" flat m src] show ?thesis
      by (auto simp: file_doc_def)
  next
    case (BibleFailed r)
    then have "\<exists>exc. r = lit ''pass1 analysis failure: '' @ exc"
      using b by (auto simp: bible_passes_def lift_raise_def Let_def split: option.splits sum.splits prod.splits analysis.splits if_splits)
    with assms(1) Inr b BibleFailed show ?thesis by (simp add: file_doc_def)
  qed (use assms(1) Inr b in \<open>simp add: file_doc_def\<close>)
qed (use assms(1) in \<open>auto simp: file_doc_def\<close>)

text \<open>What a run leaves in the ledger, for every ledger that keeps the protocol.\<close>

definition outcome_recorded ::
  "('s \<Rightarrow> pystr \<Rightarrow> py_error + ledger_entry option) \<Rightarrow> file_job \<Rightarrow> 's world \<Rightarrow> 'e file_result \<Rightarrow> 's world \<Rightarrow> bool" where
  "outcome_recorded check j w r w' \<longleftrightarrow>
     (case r of
        FileSkipped \<Rightarrow> w' = w
      | FileDone d \<Rightarrow> d = fj_dest j \<and> check (w_ledger w') (fj_path j) = Inr (Some (done_entry j))
          \<and> (\<exists>doc. w_dest w' = Sidecar doc)
      | FileQuarantined reason \<Rightarrow> check (w_ledger w') (fj_path j) = Inr (Some (quarantine_entry j))
          \<and> (\<exists>failing. w_artifact w' = Some (reason, failing)) \<and> w_dest w' = w_dest w
      | FileRaised es \<Rightarrow> w_dest w' = w_dest w \<and> (w' = w
          \<or> check (w_ledger w') (fj_path j) \<in> {Inr (Some (in_progress_entry j)), Inr (Some (quarantine_entry j))}))"

lemma entry_sources [simp]:
  "le_source (in_progress_entry j) = fj_path j" "le_source (quarantine_entry j) = fj_path j" "le_source (done_entry j) = fj_path j"
  by (simp_all add: in_progress_entry_def quarantine_entry_def done_entry_def entry_of_def)

context ledger_protocol
begin

lemma run_file_recorded:
  assumes "invar (w_ledger w)" and "check (w_ledger w) (fj_path j) = Inr (Some (in_progress_entry j))"
    and "run_file fs su \<lparr>lo_check = check, lo_by_output = by_output, lo_record = record_entry\<rparr> j rr we w = (r, w')"
    and "w_dest w0 = w_dest w"
  shows "invar (w_ledger w') \<and> (\<forall>p. p \<noteq> fj_path j \<longrightarrow> check (w_ledger w') p = check (w_ledger w) p)
    \<and> outcome_recorded check j w0 r w'"
proof -
  obtain d db where d: "file_doc fs su j rr (w_bible w) = (d, db)" by fastforce
  obtain lq where lq: "record_entry (quarantine_entry j) (w_ledger w) = Inr lq" using record_total[OF assms(1)] by blast
  obtain ld where ld: "record_entry (done_entry j) (w_ledger w) = Inr ld" using record_total[OF assms(1)] by blast
  note after = record_invar[OF assms(1) lq] record_invar[OF assms(1) ld] check_record[OF assms(1) lq] check_record[OF assms(1) ld]
  show ?thesis
  proof (cases d)
    case (DocQuarantined reason failing rest)
    with d lq assms after show ?thesis
      by (auto simp: run_file_eq quarantine_file_def put_record_def outcome_recorded_def split: if_splits)
  next
    case (DocRaised es)
    with d assms show ?thesis by (auto simp: run_file_eq outcome_recorded_def)
  next
    case (DocTranslated doc)
    with d ld assms after show ?thesis
      by (auto simp: run_file_eq put_record_def outcome_recorded_def split: option.splits)
  qed
qed

lemma translate_file_recorded:
  assumes "invar (w_ledger w)"
    and "translate_file fs su \<lparr>lo_check = check, lo_by_output = by_output, lo_record = record_entry\<rparr> j rr we w = (r, w')"
  shows "invar (w_ledger w') \<and> (\<forall>p. p \<noteq> fj_path j \<longrightarrow> check (w_ledger w') p = check (w_ledger w) p)
    \<and> outcome_recorded check j w r w'"
proof -
  let ?lo = "\<lparr>lo_check = check, lo_by_output = by_output, lo_record = record_entry\<rparr>"
  show ?thesis
  proof (cases "preflight ?lo j w = Inr True")
    case False
    with assms show ?thesis
      by (auto simp: translate_file_def outcome_recorded_def split: sum.splits bool.splits)
  next
    case True
    obtain l where l: "record_entry (in_progress_entry j) (w_ledger w) = Inr l" using record_total[OF assms(1)] by blast
    let ?w = "w\<lparr>w_ledger := l\<rparr>"
    have "invar (w_ledger ?w)" using record_invar[OF assms(1) l] by simp
    moreover have "check (w_ledger ?w) (fj_path j) = Inr (Some (in_progress_entry j))" using check_record[OF assms(1) l] by simp
    moreover have "run_file fs su ?lo j rr we ?w = (r, w')" using assms(2) True l by (simp add: translate_file_def)
    ultimately have "invar (w_ledger w') \<and> (\<forall>p. p \<noteq> fj_path j \<longrightarrow> check (w_ledger w') p = check (w_ledger ?w) p)
      \<and> outcome_recorded check j w r w'"
      using run_file_recorded[of ?w j fs su rr we r w' w] by simp
    then show ?thesis using check_record[OF assms(1) l] by simp
  qed
qed

text \<open>A finished file is left alone as long as its content and its sidecar are what they were.\<close>

lemma finished_file_skips:
  assumes "invar (w_ledger w)"
    and "translate_file fs su \<lparr>lo_check = check, lo_by_output = by_output, lo_record = record_entry\<rparr> j rr we w = (FileDone d, w')"
    and "fj_path j' = fj_path j" and "fj_hash j' = fj_hash j"
  shows "translate_file fs' su' \<lparr>lo_check = check, lo_by_output = by_output, lo_record = record_entry\<rparr> j' rr' we' w'
    = (FileSkipped, w')"
proof -
  from translate_file_recorded[OF assms(1,2)] have
    "check (w_ledger w') (fj_path j) = Inr (Some (done_entry j))" "\<exists>doc. w_dest w' = Sidecar doc"
    by (simp_all add: outcome_recorded_def)
  then show ?thesis using assms(3,4)
    by (auto simp: translate_file_def preflight_def done_entry_def entry_of_def)
qed

end


section \<open>Which quarantines are retried\<close>

lemmas reason_texts = is_transient_quarantine_def TRANSIENT_QUARANTINE_PREFIXES_def truthy_def or_empty_def lit_def ascii_eval

lemma transient_reason:
  "is_transient_quarantine (Some (error_text rp e)) \<longleftrightarrow>
     (\<exists>k n. e = Missing k n) \<or> (\<exists>k. e = EmptyLine k) \<or> (\<exists>k n. e = WrongCount k n)"
  by (cases e) (simp_all add: reason_texts)

lemma gate_reason_not_transient: "\<not> is_transient_quarantine (Some (gate_reason su f))"
  by (simp add: gate_reason_def gate_prefix_def reason_texts)

lemma other_reasons_not_transient:
  "\<not> is_transient_quarantine (Some (lit ''read/batch failure: '' @ exc))"
  "\<not> is_transient_quarantine (Some (lit ''pass1 analysis failure: '' @ exc))"
  by (simp_all add: reason_texts)

lemma quarantine_reason:
  assumes "translate_file fs su lo j rr we w = (FileQuarantined reason, w')"
  obtains db failing rest db' where "file_doc fs su j rr db = (DocQuarantined reason failing rest, db')"
proof -
  from assms obtain l where "run_file fs su lo j rr we (w\<lparr>w_ledger := l\<rparr>) = (FileQuarantined reason, w')"
    by (auto simp: translate_file_def split: sum.splits bool.splits)
  with that show ?thesis
    by (auto simp: run_file_eq put_record_def quarantine_file_def split: prod.splits doc_result.splits option.splits sum.splits if_splits)
qed

section \<open>The repair loop\<close>

lemma gate_loop_stops:
  assumes "gate_loop fs su bible flat m src budget k trn = (GateQuarantine f, n)" and "retexts (doc_lines src) (doc_lines trn)"
  shows "\<exists>doc. retexts (doc_lines src) (doc_lines doc) \<and> validate_subdoc (fs_gate fs) (allowlist_of bible) doc src = Some f
    \<and> (\<not> repairable fs f \<or> n = k + budget
       \<or> repair_failing_cues fs su bible flat m (n - 1) (gf_check f) (failing_of f) src doc = RepairMiss)"
  using assms
proof (induction budget arbitrary: k trn)
  case 0
  then show ?case by (auto split: option.splits)
next
  case (Suc budget)
  from Suc.prems(1) have v: "validate_subdoc (fs_gate fs) (allowlist_of bible) trn src \<noteq> None"
    by (auto split: option.splits)
  then obtain g where g: "validate_subdoc (fs_gate fs) (allowlist_of bible) trn src = Some g" by blast
  show ?case
  proof (cases "repairable fs g")
    case False
    with Suc.prems g show ?thesis by auto
  next
    case True
    show ?thesis
    proof (cases "repair_failing_cues fs su bible flat m k (gf_check g) (failing_of g) src trn")
      case (Repaired ls)
      let ?trn = "preserve_source_envelopes (fs_envelopes fs) (trn\<lparr>doc_lines := ls\<rparr>) src"
      have "retexts (doc_lines src) ls" using retexts_trans[OF Suc.prems(2) repair_retexts[OF Repaired]] .
      then have "retexts (doc_lines src) (doc_lines ?trn)" by (intro preserve_retexts) simp
      with Suc.IH[of "Suc k" ?trn] Suc.prems(1) g True Repaired show ?thesis by simp
    qed (use Suc.prems g True in auto)
  qed
qed


section \<open>A run on one cue\<close>

definition sqla_ops :: "file_table ledger_ops" where
  "sqla_ops = \<lparr>lo_check = sqla_check, lo_by_output = sqla_check_by_output, lo_record = sqla_record\<rparr>"

definition json_ops :: "json_ledger ledger_ops" where
  "json_ops = \<lparr>lo_check = json_check, lo_by_output = json_check_by_output, lo_record = json_record\<rparr>"

definition sample_settings :: file_settings where
  "sample_settings = \<lparr>fs_batch = sample_cfg, fs_attr_batch = sample_cfg, fs_review_batch = sample_cfg, fs_retries = 2,
     fs_attribution = True, fs_self_review = True, fs_envelopes = True, fs_gate_repair = True, fs_repair_max = 2,
     fs_gate = no_ratio, fs_pronouns = modern, fs_pass1 = True, fs_pass1_limit = 1200\<rparr>"

definition sample_surroundings :: "pystr \<Rightarrow> unit surroundings" where
  "sample_surroundings reply = \<lparr>su_repr = (\<lambda>t. t), su_json_bytes = (\<lambda>m. 0), su_parse_json = (\<lambda>t. None), su_text_mode = False,
     su_db_lower = ascii_lower, su_chunk_reply = (\<lambda>b ep k c. Inl ()), su_attr_reply = (\<lambda>i. Inl ()), su_arrange = (\<lambda>ps. ps),
     su_batch_llm = (\<lambda>i k m. Inr reply), su_review_llm = (\<lambda>i m. Inl ()), su_repair_llm = (\<lambda>i k m. Inr reply),
     su_prompt = (\<lambda>h g r d a b c. []), su_review_prompt = (\<lambda>m b p s t. []), su_gate_detail = (\<lambda>f. []), su_seen = (\<lambda>es. es)\<rparr>"

definition sample_job :: file_job where
  "sample_job = \<lparr>fj_path = lit ''/m/S.en.srt'', fj_dest = lit ''/m/S.vi.srt'', fj_stem = lit ''S'', fj_hash = lit ''ab'',
     fj_now = lit ''t'', fj_artifact = lit ''/q/S'', fj_media = None\<rparr>"

definition empty_world :: "'s \<Rightarrow> 's world" where
  "empty_world l = \<lparr>w_ledger = l, w_dest = NoFile, w_artifact = None, w_bible = empty_bible False\<rparr>"

lemmas sample_run_simps = sample_settings_def sample_surroundings_def sample_job_def empty_world_def

lemma sample_seen: "honest (su_seen (sample_surroundings reply))"
  by (simp add: honest_def sample_surroundings_def)

text \<open>The model answers with the one cue, which is Vietnamese.\<close>

definition good_reply :: pystr where
  "good_reply = numbered_reply [[7843]]"

definition one_batch :: batch where
  "one_batch = \<lparr>batch_cues = doc_lines (Gate.one_cue [7843]), batch_before = [], batch_after = []\<rparr>"

lemma one_batch: "batch_subdoc sample_cfg (Gate.one_cue [7843]) = [one_batch]"
  by (simp add: batch_eval Gate.one_cue_def one_batch_def)

lemma good_plain: "plain_text [7843]"
  by (rule plain_textI) (simp_all add: sample_chars line_break_def)

lemma good_batch_reply: "batch_reply one_batch good_reply = Inr [[7843]]"
proof -
  have "parse_numbered_response good_reply 1 ml = Inr [[7843]]" for ml
    using parse_numbered[of "[[7843]]" ml] good_plain by (simp add: good_reply_def dec.simps)
  then show ?thesis
    unfolding batch_reply_eq read_reply_def
    by (simp add: one_batch_def Gate.one_cue_def batch_maps_def extract_untagged reinsert_untagged)
qed

lemma good_translation:
  "translate_batch (\<lambda>k m. Inr good_reply) rp prompt_of 2 one_batch = (Texts [[7843]], [[(User, batch_prompt prompt_of one_batch)]])"
  using good_batch_reply unfolding translate_batch_eq batch_reply_eq correction_loop.simps(2) by simp

lemma good_pass:
  "translate_pass sample_settings (sample_surroundings good_reply) None [] [] (Gate.one_cue [7843]) = AllTexts [[[7843]]]"
  by (simp add: translate_pass_def sample_run_simps one_batch per_batch_hints_def good_translation gather_batches_def
      failure_of_def texts_of_def List.map_filter_simps)

definition good_doc :: sub_doc where
  "good_doc = (Gate.one_cue [7843])\<lparr>doc_encoding := UTF8\<rparr>"

lemma good_accepted: "validate_subdoc no_ratio None good_doc (Gate.one_cue [7843]) = None"
  using passing_accepted unfolding gate_None by (simp add: good_doc_def)

lemma good_document:
  "translate_doc sample_settings (sample_surroundings good_reply) None [] [] (Gate.one_cue [7843]) = DocTranslated good_doc"
proof -
  have a: "assemble_doc (Gate.one_cue [7843]) [[[7843]]] = Inr good_doc"
    by (simp add: assemble_doc_def Gate.one_cue_def is_raw_def set_text_def good_doc_def)
  have e: "preserve_source_envelopes True good_doc (Gate.one_cue [7843]) = good_doc"
    by (simp add: preserve_source_envelopes_def good_doc_def Gate.one_cue_def envelope_line_def is_raw_def
        source_envelope_def strip_no_space sample_chars)
  have "gate_loop sample_settings su None [] [] (Gate.one_cue [7843]) 2 0 good_doc = (GatePassed good_doc, 0)" for su :: "unit surroundings"
    by (simp add: numeral_2_eq_2 allowlist_of_def good_accepted, simp add: sample_settings_def allowlist_of_def good_accepted)
  then show ?thesis
    by (simp add: translate_doc_def good_pass a after_assembly_def review_pass_def, simp add: sample_settings_def e)
qed

lemma good_file:
  "file_doc sample_settings (sample_surroundings good_reply) sample_job (Inr (Gate.one_cue [7843])) db = (DocTranslated good_doc, db)"
  by (simp add: file_doc_def bible_passes_def sample_job_def good_document)

lemma good_run:
  "\<exists>w'. translate_file sample_settings (sample_surroundings good_reply) sqla_ops sample_job (Inr (Gate.one_cue [7843])) None (empty_world [])
     = (FileDone (lit ''/m/S.vi.srt''), w')"
  by (simp add: translate_file_def preflight_def sqla_ops_def sqla_check_def sqla_record_def rows_with_source_def scalar_one_or_none_def
      run_file_eq good_file put_record_def empty_world_def) (simp add: sample_job_def)

lemma sqla_empty: "sqla_invar (w_ledger (empty_world []))"
  by (simp add: empty_world_def sqla.invar_empty)

text \<open>A model that answers without numbers is asked three times; the file is quarantined.\<close>

lemma refused_batch: "batch_reply one_batch (lit ''no'') = Inl (Missing 1 1)"
proof -
  have l: "splitlines (lit ''no'') = [lit ''no'']"
    using splitlines_join[of "[lit ''no'']"] by (simp add: lit_def line_break_def)
  have b: "length (batch_cues one_batch) = 1" "batch_ml one_batch = {}"
    by (simp_all add: one_batch_def Gate.one_cue_def batch_ml_def multiline_indices_def extract_untagged)
  show ?thesis unfolding batch_reply_eq read_reply_def parse_numbered_response_def l b
    by (simp add: parse_lines_prose sample_refusal_mark Let_def)
qed

lemma refused_translation:
  "fst (translate_batch (\<lambda>k m. Inr (lit ''no'') :: unit + pystr) rp prompt_of 2 one_batch) = BatchFailed (Missing 1 1)"
  using refused_batch unfolding translate_batch_eq batch_reply_eq
  by (simp add: correction_loop.simps(2) numeral_2_eq_2 is_batch_error_def split: prod.split)

definition refused_reason :: pystr where
  "refused_reason = error_text (\<lambda>t. t) (Missing 1 1)"

lemma refused_document:
  "translate_doc sample_settings (sample_surroundings (lit ''no'')) None [] [] (Gate.one_cue [7843]) = DocQuarantined refused_reason [] []"
  by (simp add: translate_doc_def translate_pass_def sample_run_simps one_batch per_batch_hints_def refused_translation
      gather_batches_def failure_of_def is_batch_error_def is_validation_def failure_text_def refused_reason_def)

lemma refused_file:
  "file_doc sample_settings (sample_surroundings (lit ''no'')) sample_job (Inr (Gate.one_cue [7843])) db
     = (DocQuarantined refused_reason [] [], db)"
  by (simp add: file_doc_def bible_passes_def sample_job_def refused_document)

lemma refused_run:
  "\<exists>w'. translate_file sample_settings (sample_surroundings (lit ''no'')) sqla_ops sample_job (Inr (Gate.one_cue [7843])) None (empty_world [])
     = (FileQuarantined refused_reason, w')"
  by (simp add: translate_file_def preflight_def sqla_ops_def sqla_check_def sqla_record_def rows_with_source_def scalar_one_or_none_def
      run_file_eq refused_file quarantine_file_def put_record_def empty_world_def)

section \<open>Properties\<close>

text \<open>
  C8: Nothing reaches the sidecar without passing the gate: a run either leaves the destination as
  it was, and then does not report success, or the destination is a document that the gate
  accepts against the source, with the index and timecodes of every line and every opaque line of
  the source verbatim.
\<close>

theorem sidecar_passed_gate:
  assumes "translate_file fs su lo j rr we w = (r, w')"
  shows "w_dest w' = w_dest w \<and> (\<forall>d. r \<noteq> FileDone d)
    \<or> (\<exists>src doc bible. rr = Inr src \<and> w_dest w' = Sidecar doc
        \<and> validate_subdoc (fs_gate fs) (allowlist_of bible) doc src = None \<and> retexts (doc_lines src) (doc_lines doc))"
proof (cases "\<exists>l. run_file fs su lo j rr we (w\<lparr>w_ledger := l\<rparr>) = (r, w')")
  case True
  then obtain l d db where "run_file fs su lo j rr we (w\<lparr>w_ledger := l\<rparr>) = (r, w')" "file_doc fs su j rr (w_bible w) = (d, db)"
    by (metis surj_pair)
  then show ?thesis
  proof (cases d)
    case (DocTranslated doc)
    with \<open>file_doc fs su j rr (w_bible w) = (d, db)\<close> have f: "file_doc fs su j rr (w_bible w) = (DocTranslated doc, db)" by simp
    with \<open>run_file fs su lo j rr we (w\<lparr>w_ledger := l\<rparr>) = (r, w')\<close>
    have "w_dest w' = w_dest w \<and> (\<forall>d. r \<noteq> FileDone d) \<or> w_dest w' = Sidecar doc"
      by (auto simp: run_file_eq put_record_def split: option.splits sum.splits)
    with file_doc_translated[OF f] show ?thesis by blast
  qed (auto simp: run_file_eq put_record_def quarantine_file_def split: sum.splits if_splits)
next
  case False
  with assms show ?thesis by (auto simp: translate_file_def split: sum.splits bool.splits)
qed

theorem sidecar_passed_gate_witness:
  "\<exists>w'. translate_file sample_settings (sample_surroundings good_reply) sqla_ops sample_job (Inr (Gate.one_cue [7843])) None (empty_world [])
       = (FileDone (lit ''/m/S.vi.srt''), w')
     \<and> (\<exists>doc bible. w_dest w' = Sidecar doc \<and> validate_subdoc no_ratio (allowlist_of bible) doc (Gate.one_cue [7843]) = None)"
proof -
  from good_run obtain w' where w: "translate_file sample_settings (sample_surroundings good_reply) sqla_ops sample_job
      (Inr (Gate.one_cue [7843])) None (empty_world []) = (FileDone (lit ''/m/S.vi.srt''), w')" by blast
  from sidecar_passed_gate[OF w] w show ?thesis by (auto simp: sample_settings_def)
qed



text \<open>
  A finished file is not translated again: a second run on the same path with the same content
  skips it, whatever the settings and the model, and changes nothing. (The JSON ledger gives the
  same, by the same lemma of the protocol.)
\<close>

theorem finished_file_skipped:
  assumes "sqla_invar (w_ledger w)" and "translate_file fs su sqla_ops j rr we w = (FileDone d, w')"
    and "fj_path j' = fj_path j" and "fj_hash j' = fj_hash j"
  shows "translate_file fs' su' sqla_ops j' rr' we' w' = (FileSkipped, w')"
  using assms(1) assms(2)[unfolded sqla_ops_def] assms(3,4) unfolding sqla_ops_def by (rule sqla.finished_file_skips)

theorem finished_file_skipped_witness:
  "\<exists>w'. translate_file sample_settings (sample_surroundings good_reply) sqla_ops sample_job (Inr (Gate.one_cue [7843])) None w'
     = (FileSkipped, w')"
  using good_run finished_file_skipped[OF sqla_empty _ refl refl] by blast

lemma finished_file_skipped_json:
  assumes "json_invar (w_ledger w)" and "translate_file fs su json_ops j rr we w = (FileDone d, w')"
    and "fj_path j' = fj_path j" and "fj_hash j' = fj_hash j"
  shows "translate_file fs' su' json_ops j' rr' we' w' = (FileSkipped, w')"
  using assms(1) assms(2)[unfolded json_ops_def] assms(3,4) unfolding json_ops_def by (rule json.finished_file_skips)

text \<open>
  C11: Past the reading of the file, the translation of a document fails only for reasons outside
  it. It is quarantined by a reply the parser rejects or by one of the content checks of the gate
  (never by the checks of count, headers and timing), and it raises only what the model's client
  raises, or the \<open>ValueError\<close> of an integer with too many digits: no exhausted iterator, no
  index out of range.
\<close>

theorem document_outcome:
  assumes "honest (su_seen su)"
  shows "case translate_doc fs su bible flat m src of
     DocTranslated doc \<Rightarrow> validate_subdoc (fs_gate fs) (allowlist_of bible) doc src = None
   | DocQuarantined reason failing rest \<Rightarrow>
       (batch_reason (su_repr su) reason \<and> failing = [] \<or> gate_stop su reason failing \<and> rest = [])
       \<and> (\<forall>f \<in> set rest. outside f)
   | DocRaised es \<Rightarrow> es \<noteq> [] \<and> (\<forall>f \<in> set es. outside f)"
  using document_not_translated[OF assms, of fs bible flat m src] document_translated[of fs su bible flat m src]
  by (auto split: doc_result.splits)

theorem document_outcome_witness: "batch_reason (su_repr (sample_surroundings (lit ''no''))) refused_reason
  \<or> gate_stop (sample_surroundings (lit ''no'')) refused_reason []"
  using document_outcome[OF sample_seen[of "lit ''no''"], where fs = sample_settings and bible = None and flat = "[]"
      and m = "[]" and src = "Gate.one_cue [7843]"]
  by (auto simp: refused_document)

text \<open>
  The repair loop ends within its budget, and what it returns is what the gate said last: a
  document that passes, or the failure of a document with the source's headers, which is not
  repairable, or came when the budget was used up, or whose repair was rejected.
\<close>

theorem repair_budget:
  assumes "retexts (doc_lines src) (doc_lines trn)"
    and "gate_loop fs su bible flat m src (fs_repair_max fs) 0 trn = (result, n)"
  shows "n \<le> fs_repair_max fs
    \<and> (\<forall>doc. result = GatePassed doc \<longrightarrow> validate_subdoc (fs_gate fs) (allowlist_of bible) doc src = None)
    \<and> (\<forall>f. result = GateQuarantine f \<longrightarrow>
        (\<exists>doc. retexts (doc_lines src) (doc_lines doc) \<and> validate_subdoc (fs_gate fs) (allowlist_of bible) doc src = Some f
          \<and> (\<not> repairable fs f \<or> n = fs_repair_max fs
             \<or> repair_failing_cues fs su bible flat m (n - 1) (gf_check f) (failing_of f) src doc = RepairMiss)))"
  using gate_loop_result[OF assms(1), of fs su bible flat m "fs_repair_max fs" 0] assms(2)
    gate_loop_stops[OF _ assms(1), of fs su bible flat m "fs_repair_max fs" 0]
  by auto

theorem repair_budget_witness: "(0::nat) \<le> fs_repair_max sample_settings \<and> validate_subdoc no_ratio None good_doc (Gate.one_cue [7843]) = None"
proof -
  have r: "retexts (doc_lines (Gate.one_cue [7843])) (doc_lines good_doc)" by (simp add: good_doc_def)
  have "gate_loop sample_settings (sample_surroundings []) None [] [] (Gate.one_cue [7843]) (fs_repair_max sample_settings) 0 good_doc
      = (GatePassed good_doc, 0)"
    by (simp add: sample_settings_def numeral_2_eq_2 allowlist_of_def good_accepted)
  from repair_budget[OF r this] show ?thesis by (simp add: sample_settings_def allowlist_of_def)
qed

text \<open>
  The worker retries a quarantined file by itself exactly when a reply of the model lacked the
  text of a cue: the reason is a missing or an empty line. No other batch error, no failure of
  the gate, of the analysis or of the reading is retried, and the third prefix the worker looks
  for never occurs.
\<close>

theorem retried_quarantines:
  assumes "honest (su_seen su)" and "translate_file fs su lo j rr we w = (FileQuarantined reason, w')"
  shows "is_transient_quarantine (Some reason) \<longleftrightarrow>
    (\<exists>k n. reason = error_text (su_repr su) (Missing k n)) \<or> (\<exists>k. reason = error_text (su_repr su) (EmptyLine k))"
proof -
  let ?lack = "(\<exists>k n. reason = error_text (su_repr su) (Missing k n)) \<or> (\<exists>k. reason = error_text (su_repr su) (EmptyLine k))"
  have lack: "?lack \<Longrightarrow> is_transient_quarantine (Some reason)"
    by (elim disjE exE; simp only: transient_reason; blast)
  from quarantine_reason[OF assms(2)] obtain db failing rest db' where
    "file_doc fs su j rr db = (DocQuarantined reason failing rest, db')" by blast
  from file_doc_quarantined[OF this assms(1)]
  consider e where "\<nexists>k n. e = WrongCount k n" "reason = error_text (su_repr su) e" | "gate_stop su reason failing"
    | exc where "reason = lit ''read/batch failure: '' @ exc" | exc where "reason = lit ''pass1 analysis failure: '' @ exc"
    unfolding batch_reason_def by blast
  then have "is_transient_quarantine (Some reason) \<Longrightarrow> ?lack"
  proof cases
    case (1 e)
    then show "is_transient_quarantine (Some reason) \<Longrightarrow> ?lack" unfolding 1(2) transient_reason by blast
  qed (auto simp: gate_stop_def gate_reason_not_transient other_reasons_not_transient)
  with lack show ?thesis by blast
qed

theorem retried_quarantines_witness: "is_transient_quarantine (Some refused_reason)"
proof -
  from refused_run obtain w' where w: "translate_file sample_settings (sample_surroundings (lit ''no'')) sqla_ops sample_job
      (Inr (Gate.one_cue [7843])) None (empty_world []) = (FileQuarantined refused_reason, w')" by blast
  have "refused_reason = error_text (su_repr (sample_surroundings (lit ''no''))) (Missing 1 1)"
    by (simp add: refused_reason_def sample_surroundings_def)
  then show ?thesis unfolding retried_quarantines[OF sample_seen w] by blast
qed

end
