(* ===== verification/Bible_Pairs.thy ===== *)
theory Bible_Pairs
  imports Analysis_Laws
begin

text \<open>
  The address pairs of a reachable Bible: one row for each ordered pair of characters of a series,
  although no constraint of the schema says so, and a reconciliation that leaves the pairs with
  terms as they are.
\<close>

section \<open>One row for each pair\<close>

definition pair_row_key :: "pair_row \<Rightarrow> nat \<times> nat \<times> nat" where
  "pair_row_key p = (pr_series p, pr_speaker p, pr_addressee p)"

definition one_row_per_pair :: "bible_db \<Rightarrow> bool" where
  "one_row_per_pair db \<longleftrightarrow> distinct (map pair_row_key (db_pairs db))"

lemma set_pair_key [simp]: "pair_row_key (t_set pair_table f v r) = pair_row_key r"
  by (simp add: pair_table_def pair_row_key_def)

lemma pair_update_key: "pair_update locked sid ep src fs r es = (r', es') \<Longrightarrow> pair_row_key r' = pair_row_key r"
  by (induction locked sid ep src fs r es rule: pair_update.induct) (auto split: if_splits)

lemma put_row_keeps_key:
  assumes "distinct (map (t_id t) rs)" and "q \<in> set rs" and "t_id t r = t_id t q" and "key r = key q"
  shows "map key (put_row t r rs) = map key rs"
proof -
  have "key (if t_id t x = t_id t r then r else x) = key x" if "x \<in> set rs" for x
    using that assms by (auto simp: distinct_map inj_on_def)
  then show ?thesis by (simp add: put_row_def)
qed

lemma one_row_put:
  assumes "one_row_per_pair db" and "ids_distinct db" and "q \<in> set (db_pairs db)" and "pr_id r = pr_id q" and "pair_row_key r = pair_row_key q"
  shows "distinct (map pair_row_key (put_row pair_table r (db_pairs db)))"
proof -
  have "map pair_row_key (put_row pair_table r (db_pairs db)) = map pair_row_key (db_pairs db)"
    by (rule put_row_keeps_key) (use assms in \<open>simp_all add: ids_distinct_def pair_table_def\<close>)
  with assms(1) show ?thesis by (simp add: one_row_per_pair_def)
qed

text \<open>The row an upsert finds, if it finds one.\<close>

lemma upsert_pair_cases:
  assumes "upsert_address_pair sid i j self address since ep src db = Inr (db', r, es)"
  obtains (insert) "(sid, i, j) \<notin> pair_row_key ` set (db_pairs db)" "pair_row_key r = (sid, i, j)" "db_pairs db' = db_pairs db @ [r]"
  | (update) q es' where "q \<in> set (db_pairs db)" "pair_row_key q = (sid, i, j)"
      "pair_update (pr_locked q) sid ep src [(F_SELF, self), (F_ADDRESS, address), (F_FROM, since)] q [] = (r, es')"
      "db_pairs db' = put_row pair_table r (db_pairs db)"
proof (cases "scalar_one_or_none (filter (\<lambda>p. pr_series p = sid \<and> pr_speaker p = i \<and> pr_addressee p = j) (db_pairs db))")
  case (Inr found)
  show thesis
  proof (cases found)
    case None
    with Inr have "filter (\<lambda>p. pr_series p = sid \<and> pr_speaker p = i \<and> pr_addressee p = j) (db_pairs db) = []" by (simp add: scalar_None)
    then have "(sid, i, j) \<notin> pair_row_key ` set (db_pairs db)" by (auto simp: pair_row_key_def filter_empty_conv)
    with Inr None assms insert show thesis
      by (auto simp: upsert_address_pair_def commit_Inr Let_def pair_row_key_def)
  next
    case (Some q)
    with Inr have "q \<in> set (filter (\<lambda>p. pr_series p = sid \<and> pr_speaker p = i \<and> pr_addressee p = j) (db_pairs db))" by (simp add: scalar_Some)
    then have q: "q \<in> set (db_pairs db)" "pair_row_key q = (sid, i, j)" by (simp_all add: pair_row_key_def)
    obtain r1 es1 where u: "pair_update (pr_locked q) sid ep src [(F_SELF, self), (F_ADDRESS, address), (F_FROM, since)] q [] = (r1, es1)"
      by fastforce
    with assms Inr Some have "r = r1" "db_pairs db' = put_row pair_table r1 (db_pairs db)"
      by (auto simp: upsert_address_pair_def commit_Inr Let_def)
    with q u update show thesis by blast
  qed
qed (use assms in \<open>simp add: upsert_address_pair_def Let_def\<close>)

lemma upsert_one_row:
  assumes "upsert_address_pair sid i j self address since ep src db = Inr (db', r, es)" and "ids_distinct db" and "one_row_per_pair db"
  shows "one_row_per_pair db'"
  using assms(1)
proof (cases rule: upsert_pair_cases)
  case insert
  with assms(3) show ?thesis by (auto simp: one_row_per_pair_def)
next
  case (update q es')
  from one_row_put[OF assms(3,2) update(1) pair_update_id[OF update(3)] pair_update_key[OF update(3)]] update(4) show ?thesis
    by (simp add: one_row_per_pair_def)
qed

lemma edit_pair_field_key:
  "edit_pair_field f v lock sid (r, es) = (r', es') \<Longrightarrow> pair_row_key r' = pair_row_key r \<and> pr_id r' = pr_id r"
  by (auto simp: edit_pair_field_def split: option.splits if_splits) (simp add: pair_table_def)

lemma edit_pair_one_row:
  assumes "apply_human_edit_address_pair pid sid self address lock db = Inr (db', r, es)" and "ids_distinct db" and "one_row_per_pair db"
  shows "one_row_per_pair db'"
proof -
  from assms(1) obtain q where q: "row_by_id pair_table pid (db_pairs db) = Some q" and sid: "pr_series q = sid"
    by (auto simp: apply_human_edit_address_pair_def split: if_splits option.splits)
  obtain r0 es0 where f0: "edit_pair_field F_SELF self lock (pr_series q) (q, []) = (r0, es0)" by fastforce
  obtain r1 es1 where f: "edit_pair_field F_ADDRESS address lock (pr_series q) (r0, es0) = (r1, es1)" by fastforce
  let ?r = "r1\<lparr>pr_locked := edit_lock lock F_ADDRESS (edit_lock lock F_SELF (pr_locked r1))\<rparr>"
  from assms(1) q sid f0 f have db': "db_pairs db' = put_row pair_table ?r (db_pairs db)"
    by (auto simp: apply_human_edit_address_pair_def commit_Inr Let_def split: if_splits)
  have "pair_row_key ?r = pair_row_key q" "pr_id ?r = pr_id q"
    using edit_pair_field_key[OF f0] edit_pair_field_key[OF f] by (simp_all add: pair_row_key_def)
  from one_row_put[OF assms(3,2) conjunct1[OF row_by_id_Some[OF q]] this(2,1)] show ?thesis
    by (simp add: one_row_per_pair_def db')
qed

lemma one_row_same: "db_pairs db' = db_pairs db \<Longrightarrow> one_row_per_pair db \<Longrightarrow> one_row_per_pair db'"
  by (simp add: one_row_per_pair_def)

text \<open>No other operation writes to the pairs.\<close>

lemma pairs_untouched:
  "get_or_create_series json_bytes kind inst aid meta tvdb tmdb db = Inr (db', s) \<Longrightarrow> db_pairs db' = db_pairs db"
  "upsert_character db_lower sid name gender age role ep src db = Inr (db', c, es) \<Longrightarrow> db_pairs db' = db_pairs db"
  "upsert_term db_lower sid source rendering category ep src db = Inr (db', t, es) \<Longrightarrow> db_pairs db' = db_pairs db"
  "merge_inferred e i fs ep src db = Inr (db', es) \<Longrightarrow> db_pairs db' = db_pairs db"
  "record_relationship_event sid a b marker description db = Inr (db', x) \<Longrightarrow> db_pairs db' = db_pairs db"
  "set_series_overrides sid langs model db = Inr (db', s) \<Longrightarrow> db_pairs db' = db_pairs db"
  by (auto simp: get_or_create_series_def upsert_character_def upsert_term_def merge_inferred_def record_relationship_event_def
      set_series_overrides_def commit_Inr Let_def split: sum.splits option.splits if_splits entity.splits)

lemma edits_untouched:
  "apply_human_edit_character cid sid field v lock db = Inr (db', c, ev) \<Longrightarrow> db_pairs db' = db_pairs db"
  "apply_human_edit_series sid field v lock db = Inr (db', s, ev) \<Longrightarrow> db_pairs db' = db_pairs db"
  "apply_human_edit_term sid src tid field v lock db = Inr (db', t, ev) \<Longrightarrow> db_pairs db' = db_pairs db"
  by (auto simp: apply_human_edit_character_def apply_human_edit_series_def apply_human_edit_term_def commit_Inr Let_def
      split: sum.splits option.splits if_splits)

lemma bible_op_one_row: "bible_op db_lower human db db' \<Longrightarrow> ids_distinct db \<Longrightarrow> one_row_per_pair db \<Longrightarrow> one_row_per_pair db'"
proof (induction rule: bible_op.induct)
  case (pair sid spk adr self address since ep src db db' p es)
  then show ?case by (rule upsert_one_row)
next
  case (edit_pair pid sid self address lock db db' p es)
  then show ?case by (rule edit_pair_one_row)
next
  case (delete_pair pid sid db db' n)
  then show ?case using delete_pair_keeps by blast
next
  case (delete_term tid sid db db' n)
  then show ?case using delete_term_keeps by blast
qed (erule one_row_same[rotated], erule pairs_untouched edits_untouched)+

lemma reach_one_row: "bible_reach db_lower db \<Longrightarrow> one_row_per_pair db"
proof (induction rule: bible_reach.induct)
  case (init fk)
  show ?case by (simp add: one_row_per_pair_def empty_bible_def)
next
  case (step db human db')
  from bible_op_one_row[OF step.hyps(2) reach_ids[OF step.hyps(1)] step.IH] show ?case .
qed

section \<open>Reconciling keeps the pairs with terms\<close>

lemma pair_update_same:
  "\<forall>(f, v) \<in> set fs. v = None \<or> t_get pair_table f r = v \<Longrightarrow> pair_update locked sid ep src fs r es = (r, es)"
  by (induction locked sid ep src fs r es rule: pair_update.induct) auto

text \<open>An upsert leaves a row it agrees with, and every other row, as it is.\<close>

lemma upsert_keeps_row:
  assumes "upsert_address_pair sid i j self address since ep src db = Inr (db', r, es)" and "ids_distinct db" and "one_row_per_pair db"
    and "p \<in> set (db_pairs db)"
    and "pair_row_key p = (sid, i, j) \<Longrightarrow> self = pr_self p \<and> address = pr_address p \<and> since = None"
  shows "p \<in> set (db_pairs db')"
  using assms(1)
proof (cases rule: upsert_pair_cases)
  case (update q es')
  show ?thesis
  proof (cases "p = q")
    case True
    with assms(5) update(2) have "\<forall>(f, v) \<in> set [(F_SELF, self), (F_ADDRESS, address), (F_FROM, since)]. v = None \<or> t_get pair_table f q = v"
      by (auto simp: pair_table_def)
    from pair_update_same[OF this] update(3) have "r = q" by simp
    with update(4) assms(2,4) True show ?thesis by (simp add: put_same ids_distinct_def)
  next
    case False
    from assms(2,4) update(1) False have "pr_id p \<noteq> pr_id q" by (auto simp: ids_distinct_def distinct_map inj_on_def pair_table_def)
    with pair_update_id[OF update(3)] assms(4) show ?thesis
      unfolding update(4) put_row_def by (auto simp: pair_table_def image_iff intro!: bexI[of _ p])
  qed
qed (use assms(4) in auto)

text \<open>The database a loop leaves, on success and on error.\<close>

fun db_after :: "py_error \<times> bible_db + bible_db \<times> 'm \<Rightarrow> bible_db" where
  "db_after (Inl (e, db)) = db"
| "db_after (Inr (db, m)) = db"

definition wf_bible :: "bible_db \<Rightarrow> bool" where
  "wf_bible db \<longleftrightarrow> ids_distinct db \<and> one_row_per_pair db"

lemma upsert_wf:
  "upsert_address_pair sid i j self address since ep src db = Inr (db', r, es) \<Longrightarrow> wf_bible db \<Longrightarrow> wf_bible db'"
  unfolding wf_bible_def by (elim conjE, intro conjI, erule (1) db_step_ids[OF upsert_address_pair_step], erule (2) upsert_one_row)

text \<open>A decision leaves the terms of a row as they are.\<close>

definition agrees :: "pair_row \<Rightarrow> decision \<Rightarrow> bool" where
  "agrees p d \<longleftrightarrow> (dc_upsert d \<longrightarrow> pr_self p = Some (fst (dc_terms d)) \<and> pr_address p = Some (snd (dc_terms d)) \<and> dc_since d = None)"

lemma resolve_all_after:
  "db_after (resolve_all sid ep dcn (q # qs) db) =
     (if dc_upsert (dcn q)
      then (case upsert_address_pair sid (fst q) (snd q) (Some (fst (dc_terms (dcn q)))) (Some (snd (dc_terms (dcn q))))
                (dc_since (dcn q)) (Some ep) SRC_INFERENCE db of
              Inl e \<Rightarrow> db | Inr (db1, x) \<Rightarrow> db_after (resolve_all sid ep dcn qs db1))
      else db_after (resolve_all sid ep dcn qs db))"
  by (auto simp: Let_def split: sum.split prod.split)

lemma pipeline_run_pair:
  "upsert_address_pair sid i j self address since ep src db = Inr (db1, r, es) \<Longrightarrow> pipeline_run db_lower db1 db2 \<Longrightarrow>
   pipeline_run db_lower db db2"
  by (rule pipeline_run_trans[OF _ pipeline_run_step[OF bible_op.pair]])

lemma resolve_all_runs: "pipeline_run db_lower db (db_after (resolve_all sid ep dcn ps db))"
proof (induction ps arbitrary: db)
  case (Cons q qs)
  show ?case
    unfolding resolve_all_after using Cons.IH
    by (auto split: sum.split intro: pipeline_run.stop pipeline_run_pair)
qed (auto intro: pipeline_run.stop)

lemma resolve_all_keeps:
  assumes "wf_bible db" and "p \<in> set (db_pairs db)" and "pr_series p = sid \<longrightarrow> agrees p (dcn (pr_speaker p, pr_addressee p))"
  shows "p \<in> set (db_pairs (db_after (resolve_all sid ep dcn ps db))) \<and> wf_bible (db_after (resolve_all sid ep dcn ps db))"
  using assms(1,2)
proof (induction ps arbitrary: db)
  case (Cons q qs)
  let ?d = "dcn q"
  let ?up = "upsert_address_pair sid (fst q) (snd q) (Some (fst (dc_terms ?d))) (Some (snd (dc_terms ?d))) (dc_since ?d) (Some ep) SRC_INFERENCE db"
  have wf: "ids_distinct db" "one_row_per_pair db" using Cons.prems(1) by (simp_all add: wf_bible_def)
  have "p \<in> set (db_pairs db1) \<and> wf_bible db1" if u: "?up = Inr (db1, r, es)" and d: "dc_upsert ?d" for db1 r es
    using upsert_keeps_row[OF u wf Cons.prems(2)] assms(3) d upsert_wf[OF u Cons.prems(1)]
    by (auto simp: agrees_def pair_row_key_def)
  with Cons show ?case unfolding resolve_all_after by (auto split: sum.split)
qed simp

definition recip_after :: "nat \<Rightarrow> pystr \<Rightarrow> pronoun_map \<Rightarrow> bible_db \<Rightarrow> bible_db" where
  "recip_after sid ep rs db = (case add_reciprocals sid ep rs db of Inl (e, d) \<Rightarrow> d | Inr d \<Rightarrow> d)"

lemma add_reciprocals_after:
  "recip_after sid ep ((q, ts) # rs) db =
     (case upsert_address_pair sid (fst q) (snd q) (Some (fst ts)) (Some (snd ts)) None (Some ep) SRC_INFERENCE db of
        Inl e \<Rightarrow> db | Inr (db1, x) \<Rightarrow> recip_after sid ep rs db1)"
  by (auto simp: recip_after_def split: sum.split prod.split)

lemma add_reciprocals_runs: "pipeline_run db_lower db (recip_after sid ep rs db)"
proof (induction rs arbitrary: db)
  case (Cons x rs)
  obtain q ts where x: "x = (q, ts)" by (cases x)
  show ?case
    unfolding x add_reciprocals_after using Cons.IH
    by (auto split: sum.split intro: pipeline_run.stop pipeline_run_pair)
qed (simp add: recip_after_def pipeline_run.stop)

lemma add_reciprocals_keeps:
  assumes "wf_bible db" and "p \<in> set (db_pairs db)" and "pr_series p = sid \<longrightarrow> (pr_speaker p, pr_addressee p) \<notin> fst ` set rs"
  shows "p \<in> set (db_pairs (recip_after sid ep rs db))"
  using assms
proof (induction rs arbitrary: db)
  case (Cons x rs)
  obtain q ts where x: "x = (q, ts)" by (cases x)
  let ?up = "upsert_address_pair sid (fst q) (snd q) (Some (fst ts)) (Some (snd ts)) None (Some ep) SRC_INFERENCE db"
  have wf: "ids_distinct db" "one_row_per_pair db" using Cons.prems(1) by (simp_all add: wf_bible_def)
  have "p \<in> set (db_pairs db1) \<and> wf_bible db1" if u: "?up = Inr (db1, r, es)" for db1 r es
    using upsert_keeps_row[OF u wf Cons.prems(2)] Cons.prems(3) upsert_wf[OF u Cons.prems(1)] x
    by (auto simp: pair_row_key_def)
  with Cons.IH Cons.prems(2,3) show ?case unfolding x add_reciprocals_after by (auto split: sum.split)
qed (simp add: recip_after_def)

lemma reciprocals_new: "q \<in> fst ` set (reciprocal_additions m) \<Longrightarrow> q \<notin> fst ` set m"
proof -
  assume "q \<in> fst ` set (reciprocal_additions m)"
  then have "map_of m q = None"
    by (auto simp: reciprocal_additions_def List.map_filter_def split: option.splits if_splits)
  then show ?thesis by (simp add: map_of_eq_None_iff)
qed

text \<open>What reconciling a loaded Bible decides for one of its pairs with terms is what the pair has.\<close>

lemma loaded_pair:
  assumes "load_series_bible sid db = Inr sb" and "one_row_per_pair db" and "p \<in> set (db_pairs db)" and "pr_series p = sid"
  shows "existing_pair (bv_pairs (view_of sb)) (pr_speaker p, pr_addressee p) = Some p"
proof -
  have ps: "bv_pairs (view_of sb) = filter (\<lambda>p. pr_series p = sid) (db_pairs db)"
    using assms(1) by (auto simp: load_series_bible_def view_of_def split: option.splits)
  have "distinct (map (\<lambda>r. (pr_speaker r, pr_addressee r)) (filter (\<lambda>p. pr_series p = sid) (db_pairs db)))"
    using assms(2) by (auto simp: one_row_per_pair_def distinct_map inj_on_def pair_row_key_def)
  then have "distinct (map fst (rev (map (\<lambda>r. ((pr_speaker r, pr_addressee r), r)) (filter (\<lambda>p. pr_series p = sid) (db_pairs db)))))"
    by (simp add: rev_map[symmetric] comp_def)
  with assms(3,4) show ?thesis unfolding existing_pair_def ps by (intro map_of_is_SomeI) (auto simp: image_iff)
qed

lemma since_evolution:
  "dc_since (resolve_pair s register events ep spk adr gender as existing) = None
   \<or> genuine_evolution existing (dc_terms (resolve_pair s register events ep spk adr gender as existing))"
  by (simp add: resolve_pair_def Let_def split: option.split)

lemma settled_agrees:
  assumes "no_suggestions b" and "existing_pair (bv_pairs b) k = Some p" and "has_terms (Some p)"
  shows "agrees p (decide s b ep as k)"
proof -
  have h: "has_terms (existing_pair (bv_pairs b) k)" using assms(2,3) by simp
  have t: "dc_terms (decide s b ep as k) = terms_of (Some p)" using established_decision[OF assms(1) h] assms(2) by simp
  from assms(3) have v: "pr_self p = Some (fst (terms_of (Some p)))" "pr_address p = Some (snd (terms_of (Some p)))"
    by (auto simp: has_terms_def terms_of_def truthy_def split: option.splits)
  then have "\<not> genuine_evolution (Some p) (terms_of (Some p))" by (simp add: genuine_evolution_def)
  with t have "dc_since (decide s b ep as k) = None"
    using since_evolution[of s "bv_register b" "bv_events b" ep "fst k" "snd k" "gender_of (bv_characters b) (snd k)"
        "attributions_of (name_index (bv_characters b)) as k" "Some p"] v assms(2)
    by (simp add: decide_def genuine_evolution_def)
  with t v show ?thesis by (simp add: agrees_def)
qed

lemma reconcile_keeps:
  assumes "load_series_bible sid db = Inr sb" and "wf_bible db" and "rearranges arrange"
    and "p \<in> set (db_pairs db)" and "has_terms (Some p)"
  shows "p \<in> set (db_pairs (db_after (reconcile_attributions arrange s (view_of sb) sid ep as db)))"
proof -
  let ?b = "view_of sb" and ?k = "(pr_speaker p, pr_addressee p)"
  let ?ps = "arrange (all_pairs ?b as)" and ?dcn = "decide s ?b ep as"
  have one: "one_row_per_pair db" using assms(2) by (simp add: wf_bible_def)
  have a: "pr_series p = sid \<longrightarrow> agrees p (?dcn ?k)"
    using loaded_pair[OF assms(1) one assms(4)] settled_agrees[OF view_no_suggestions _ assms(5)] by blast
  note r = resolve_all_keeps[OF assms(2,4), of sid ?dcn ep ?ps, OF a]
  show ?thesis
  proof (cases "resolve_all sid ep ?dcn ?ps db")
    case (Inl x)
    then show ?thesis using r by (cases x) (simp add: reconcile_attributions_def)
  next
    case (Inr x)
    obtain db1 m where x: "x = (db1, m)" by (cases x)
    have d1: "p \<in> set (db_pairs db1)" "wf_bible db1" using r Inr x by simp_all
    have "pr_series p = sid \<longrightarrow> ?k \<notin> fst ` set (reciprocal_additions m)"
    proof
      assume "pr_series p = sid"
      from existing_in_all[OF loaded_pair[OF assms(1) one assms(4) this], of as] have "?k \<in> set (all_pairs ?b as)" .
      moreover have "distinct (all_pairs ?b as)" by (simp add: all_pairs_def)
      ultimately have "?k \<in> set ?ps" using assms(3) by (simp add: rearranges_def)
      with resolve_all_map[OF Inr[unfolded x]] have "?k \<in> fst ` set m" by force
      with reciprocals_new show "?k \<notin> fst ` set (reciprocal_additions m)" by blast
    qed
    from add_reciprocals_keeps[OF d1(2,1) this, of ep] show ?thesis
      by (auto simp: recip_after_def reconcile_attributions_def Inr x Let_def split: sum.splits)
  qed
qed

lemma reconcile_runs: "pipeline_run db_lower db (db_after (reconcile_attributions arrange s b sid ep as db))"
proof (cases "resolve_all sid ep (decide s b ep as) (arrange (all_pairs b as)) db")
  case (Inl x)
  with resolve_all_runs[of db_lower db sid ep "decide s b ep as" "arrange (all_pairs b as)"] show ?thesis
    by (cases x) (simp add: reconcile_attributions_def)
next
  case (Inr x)
  obtain db1 m where x: "x = (db1, m)" by (cases x)
  have "pipeline_run db_lower db db1"
    using resolve_all_runs[of db_lower db sid ep "decide s b ep as" "arrange (all_pairs b as)"] Inr x by simp
  moreover have "db_after (reconcile_attributions arrange s b sid ep as db) =
      recip_after sid ep (reciprocal_additions m) db1"
    by (auto simp: recip_after_def reconcile_attributions_def Inr x Let_def split: sum.split)
  ultimately show ?thesis using pipeline_run_trans[OF add_reciprocals_runs] by metis
qed

lemma distinct_same_key: "distinct (map key xs) \<Longrightarrow> \<forall>x \<in> set xs. key x = k \<Longrightarrow> xs = [] \<or> (\<exists>x. xs = [x])"
  by (cases xs; cases "List.tl xs") auto

section \<open>Properties\<close>



end
