(* ===== verification/File_Bible.thy ===== *)
theory File_Bible
  imports File_Guarantees Bible_Pairs
begin

text \<open>
  What the translation of a file leaves of the Series Bible: every locked field as it was, and
  every pair that had terms unchanged to the letter, whatever the model answered.
\<close>

section \<open>The passes on the Bible\<close>

definition keeps_terms :: "bible_db \<Rightarrow> bible_db \<Rightarrow> bool" where
  "keeps_terms db db' \<longleftrightarrow> (\<forall>p \<in> set (db_pairs db). has_terms (Some p) \<longrightarrow> p \<in> set (db_pairs db'))"

lemma keeps_terms_trans: "keeps_terms db1 db2 \<Longrightarrow> keeps_terms db db1 \<Longrightarrow> keeps_terms db db2"
  by (simp add: keeps_terms_def)

lemma keeps_terms_same: "db_pairs db' = db_pairs db @ new \<Longrightarrow> keeps_terms db db'"
  by (simp add: keeps_terms_def)

definition bible_kept :: "(pystr \<Rightarrow> pystr) \<Rightarrow> bible_db \<Rightarrow> bible_db \<Rightarrow> bool" where
  "bible_kept db_lower db db' \<longleftrightarrow> (\<exists>sid. merge_run db_lower sid db db') \<and> keeps_terms db db'"

lemma pipeline_merge_run: "pipeline_run db_lower db db' \<Longrightarrow> merge_run db_lower sid db db'"
  by (induction rule: pipeline_run.induct) (auto intro: rtranclp.rtrancl_into_rtrancl merge_op.pipeline)

lemma analysis_pass_run:
  assumes "analysis_pass fs su src sid bible ep db = r" and "sid \<in> sr_id ` set (db_series db)" and "ids_distinct db"
  shows "\<exists>db'. (r = AnalysisOk db' \<or> (\<exists>msg. r = AnalysisFailed msg db') \<or> (\<exists>f. r = AnalysisRaised f db'))
    \<and> merge_run (su_db_lower su) sid db db' \<and> keeps_terms db db'"
proof -
  have k: "keeps_terms db db" by (simp add: keeps_terms_def)
  show ?thesis
  proof (cases "analyze_file (fs_pass1 fs) (su_text_mode su) (fs_pass1_limit fs) (su_repr su) (su_chunk_reply su bible ep) ep src")
    case (Analyzed a)
    obtain err db' where m: "merge_bible_analysis (su_db_lower su) (su_repr su) (ps_relationship_events (fs_pronouns fs)) sid ep a db = (err, db')"
      by fastforce
    from merge_bible_analysis_run[OF this assms(2,3)] keeps_terms_same
    have "merge_run (su_db_lower su) sid db db' \<and> keeps_terms db db'" by blast
    then show ?thesis using assms(1) m by (cases err) (auto simp: analysis_pass_def Analyzed)
  qed (use assms(1) k in \<open>auto simp: analysis_pass_def\<close>)
qed

lemma new_series_there:
  "get_or_create_series json_bytes kind inst aid meta tvdb tmdb db = Inr (db', r) \<Longrightarrow> sr_id r \<in> sr_id ` set (db_series db')"
proof -
  assume a: "get_or_create_series json_bytes kind inst aid meta tvdb tmdb db = Inr (db', r)"
  have "r \<in> set (db_series db')"
  proof (cases "Bible_Store.scalar_one_or_none (filter (\<lambda>r. series_identity r = (kind, inst, aid)) (db_series db))")
    case (Inr found)
    with a show ?thesis
    proof (cases found)
      case (Some q)
      with Inr have "q \<in> set (filter (\<lambda>r. series_identity r = (kind, inst, aid)) (db_series db))"
        by (simp add: Bible_Audit.scalar_Some)
      with a Inr Some show ?thesis by (auto simp: get_or_create_series_def split: if_splits)
    qed (auto simp: get_or_create_series_def commit_Inr Let_def split: if_splits)
  qed (use a in \<open>simp add: get_or_create_series_def split: if_splits\<close>)
  then show ?thesis by simp
qed

lemma after_analysis_kept:
  assumes "load_series_bible sid db = Inr bible" and "bible_reach db_lower db" and "rearranges arrange"
  shows "merge_run db_lower sid db (db_after (reconcile_attributions arrange s (view_of bible) sid ep as db))
    \<and> keeps_terms db (db_after (reconcile_attributions arrange s (view_of bible) sid ep as db))"
proof -
  have "wf_bible db" using reach_ids[OF assms(2)] reach_one_row[OF assms(2)] by (simp add: wf_bible_def)
  with reconcile_keeps[OF assms(1) _ assms(3)] pipeline_merge_run[OF reconcile_runs] show ?thesis
    unfolding keeps_terms_def by blast
qed

lemma bible_passes_kept:
  assumes "bible_passes fs su media stem src db = (phase, db')" and "bible_reach (su_db_lower su) db" and "rearranges (su_arrange su)"
  shows "bible_kept (su_db_lower su) db db'"
proof (cases media)
  case None
  with assms(1) show ?thesis by (auto simp: bible_passes_def bible_kept_def keeps_terms_def)
next
  case (Some md)
  let ?kind = "if md_kind md = [] then lit ''sonarr'' else md_kind md"
  let ?ep = "derive_episode_key (md_source_type md) (md_season md) (md_title md) (Some stem)"
  let ?new = "get_or_create_series (su_json_bytes su) ?kind (lit ''default'') (md_series_id md) (md_metadata md) (md_tvdb md) (md_tmdb md) db"
  show ?thesis
  proof (cases ?new)
    case (Inl e)
    with assms(1) Some show ?thesis by (auto simp: bible_passes_def lift_raise_def Let_def bible_kept_def keeps_terms_def)
  next
    case (Inr x)
    obtain db1 series where x: "x = (db1, series)" by (cases x)
    note new = Inr[unfolded x]
    let ?sid = "sr_id series" and ?l = "su_db_lower su"
    have r1: "merge_run ?l ?sid db db1" by (rule r_into_rtranclp, rule merge_op.pipeline, rule bible_op.series, rule new)
    have k1: "keeps_terms db db1" using pairs_untouched(1)[OF new] by (simp add: keeps_terms_def)
    have reach1: "bible_reach ?l db1" by (rule merge_run_reach[OF r1 assms(2)])
    note there = new_series_there[OF new]
    then obtain bible0 where l1: "load_series_bible ?sid db1 = Inr bible0"
      by (cases "row_by_id series_table ?sid (db_series db1)")
        (auto simp: load_series_bible_def row_by_id_def series_table_def find_None_iff)
    obtain db2 where a: "analysis_pass fs su src ?sid bible0 ?ep db1 = AnalysisOk db2
        \<or> (\<exists>msg. analysis_pass fs su src ?sid bible0 ?ep db1 = AnalysisFailed msg db2)
        \<or> (\<exists>f. analysis_pass fs su src ?sid bible0 ?ep db1 = AnalysisRaised f db2)"
      and r2: "merge_run ?l ?sid db1 db2" and k2: "keeps_terms db1 db2"
      using analysis_pass_run[OF refl there, of fs su src bible0 ?ep] reach_ids[OF reach1] by blast
    have kept2: "bible_kept ?l db db2" unfolding bible_kept_def
      using rtranclp_trans[OF r1 r2] keeps_terms_trans[OF k2 k1] by blast
    have passes: "bible_passes fs su media stem src db =
        (case analysis_pass fs su src ?sid bible0 ?ep db1 of
           AnalysisRaised f db2 \<Rightarrow> (BibleRaised [f], db2)
         | AnalysisFailed reason db2 \<Rightarrow> (BibleFailed (lit ''pass1 analysis failure: '' @ reason), db2)
         | AnalysisOk db2 \<Rightarrow> (case load_series_bible ?sid db2 of
              Inl e \<Rightarrow> lift_raise e db2
            | Inr bible \<Rightarrow> (let (errs, flat) = attribution_pass fs su src bible in
                if errs \<noteq> [] then (BibleRaised (su_seen su errs), db2)
                else case reconcile_attributions (su_arrange su) (fs_pronouns fs) (view_of bible) ?sid ?ep flat db2 of
                  Inl (e, db3) \<Rightarrow> lift_raise e db3
                | Inr (db3, m) \<Rightarrow> (BibleReady bible flat m, db3))))"
      by (simp only: bible_passes_def Some option.case Let_def new sum.case prod.case l1)
    show ?thesis
    proof (cases "db' = db2")
      case False
      with assms(1) a obtain bible flat where l2: "load_series_bible ?sid db2 = Inr bible"
        and "db' = db_after (reconcile_attributions (su_arrange su) (fs_pronouns fs) (view_of bible) ?sid ?ep flat db2)"
        unfolding passes
        by (auto simp: lift_raise_def Let_def split: sum.splits prod.splits if_splits) (metis db_after.simps)+
      with after_analysis_kept[OF l2 merge_run_reach[OF r2 reach1] assms(3)] rtranclp_trans[OF rtranclp_trans[OF r1 r2]]
        keeps_terms_trans[OF _ keeps_terms_trans[OF k2 k1]]
      show ?thesis unfolding bible_kept_def by blast
    qed (simp add: kept2)
  qed
qed

lemma bible_kept_refl: "bible_kept db_lower db db"
  by (auto simp: bible_kept_def keeps_terms_def)

lemma run_file_kept:
  assumes "run_file fs su lo j rr we w = (r, w')" and "bible_reach (su_db_lower su) (w_bible w)" and "rearranges (su_arrange su)"
  shows "bible_kept (su_db_lower su) (w_bible w) (w_bible w')"
proof -
  obtain d db where d: "file_doc fs su j rr (w_bible w) = (d, db)" by fastforce
  have "w_bible w' = db" using assms(1) d
    by (auto simp: run_file_eq quarantine_file_def put_record_def split: doc_result.splits option.splits sum.splits)
  moreover have "bible_kept (su_db_lower su) (w_bible w) db"
  proof (cases rr)
    case (Inr src)
    obtain phase db2 where b: "bible_passes fs su (fj_media j) (fj_stem j) src (w_bible w) = (phase, db2)" by fastforce
    with d Inr have "db = db2" by (auto simp: file_doc_def)
    with bible_passes_kept[OF b assms(2,3)] show ?thesis by simp
  qed (use d in \<open>auto simp: file_doc_def bible_kept_refl\<close>)
  ultimately show ?thesis by simp
qed

section \<open>Properties\<close>


definition series_job :: file_job where
  "series_job = sample_job\<lparr>fj_media := Some \<lparr>md_kind = lit ''sonarr'', md_series_id = 7, md_tvdb = None, md_tmdb = None,
     md_metadata = [], md_source_type = lit ''episode'', md_season = Some 1, md_title = None\<rparr>\<rparr>"


end
