(* ===== verification/Media_Paths.thy ===== *)
theory Media_Paths
  imports Py_Regex
begin

text \<open>
  The path handling of \<open>trezarr/paths.py\<close> and the sidecar naming of
  \<open>trezarr/output/write.py\<close>: remote prefixes mapped to local ones, the guard that keeps
  writes inside the media roots, the startup checks, and the name of the Vietnamese sidecar.
  Resolving symbolic links is a parameter; a path is its root and its list of components.
\<close>

section \<open>POSIX paths\<close>

record path =
  path_root :: pystr
  path_parts :: "pystr list"

definition path_of :: "pystr \<Rightarrow> path" where
  "path_of s =
     \<lparr>path_root = (if starts_with [47, 47] s \<and> \<not> starts_with [47, 47, 47] s then [47, 47]
                  else if starts_with [47] s then [47] else []),
      path_parts = filter (\<lambda>c. c \<noteq> [] \<and> c \<noteq> [46]) (split_char 47 s)\<rparr>"

text \<open>\<open>p.relative_to(root)\<close> succeeds.\<close>

definition relative_to :: "path \<Rightarrow> path \<Rightarrow> bool" where
  "relative_to p r \<longleftrightarrow> path_root p = path_root r
     \<and> take (length (path_parts r)) (path_parts p) = path_parts r"

section \<open>Mapping\<close>

record path_mapping =
  pm_remote :: pystr
  pm_local :: pystr

definition remote_of :: "path_mapping \<Rightarrow> pystr" where
  "remote_of m = rstrip_char 47 (pm_remote m)"

definition local_of :: "path_mapping \<Rightarrow> pystr" where
  "local_of m = rstrip_char 47 (pm_local m)"

definition mapping_matches :: "pystr \<Rightarrow> path_mapping \<Rightarrow> bool" where
  "mapping_matches normalized m \<longleftrightarrow>
     normalized = remote_of m \<or> starts_with (remote_of m @ [47]) normalized"

definition apply_path_mapping :: "pystr \<Rightarrow> path_mapping list \<Rightarrow> path" where
  "apply_path_mapping api ms =
     (let normalized = rstrip_char 47 api;
          sorted_mappings = sort_key (\<lambda>m. - int (length (remote_of m))) ms
      in case find (mapping_matches normalized) sorted_mappings of
           None \<Rightarrow> path_of api
         | Some m \<Rightarrow> path_of (local_of m @ drop (length (remote_of m)) normalized))"

section \<open>Media roots\<close>

fun dedupe_roots :: "pystr list \<Rightarrow> path_mapping list \<Rightarrow> path list" where
  "dedupe_roots seen [] = []"
| "dedupe_roots seen (m # ms) =
     (if local_of m \<in> set seen then dedupe_roots seen ms
      else path_of (local_of m) # dedupe_roots (local_of m # seen) ms)"

definition build_media_roots :: "path_mapping list \<Rightarrow> path list" where
  "build_media_roots ms = dedupe_roots [] ms"

definition assert_within_media_roots ::
  "(path \<Rightarrow> path) \<Rightarrow> path \<Rightarrow> path list \<Rightarrow> py_error + unit" where
  "assert_within_media_roots resolve p roots =
     (let p' = resolve p in
      if \<exists>r \<in> set roots. relative_to p' (resolve r) then Inr () else Inl ValueError)"

text \<open>
  The startup checks. A root is described by what the probe asks of it; the result lists the
  roots that make the start fail. Refusing to start is \<open>True\<close>.
\<close>

record root_facts =
  root_exists :: bool
  root_is_dir :: bool
  root_readable :: bool

definition root_bad :: "(path \<Rightarrow> root_facts) \<Rightarrow> path \<Rightarrow> bool" where
  "root_bad facts r \<longleftrightarrow>
     (if \<not> root_exists (facts r) then True
      else if \<not> root_is_dir (facts r) then True
      else \<not> root_readable (facts r))"

definition probe_media_roots :: "(path \<Rightarrow> root_facts) \<Rightarrow> path list \<Rightarrow> path list" where
  "probe_media_roots facts roots = filter (root_bad facts) roots"

definition refuses_start :: "path_mapping list \<Rightarrow> bool \<Rightarrow> bool \<Rightarrow> bool" where
  "refuses_start ms sonarr radarr \<longleftrightarrow> ms = [] \<and> (sonarr \<or> radarr)"

section \<open>The sidecar name\<close>

text \<open>\<open>Path.suffix\<close> and \<open>Path.stem\<close> of a file name: the last dot, unless it is first or last.\<close>

definition last_dot :: "pystr \<Rightarrow> nat option" where
  "last_dot n = (let i = length (takeWhile (\<lambda>c. c \<noteq> 46) (rev n)) in
     if i < length n then Some (length n - 1 - i) else None)"

definition path_suffix :: "pystr \<Rightarrow> pystr" where
  "path_suffix n = (case last_dot n of
     Some i \<Rightarrow> (if 0 < i \<and> i < length n - 1 then drop i n else []) | None \<Rightarrow> [])"

definition path_stem :: "pystr \<Rightarrow> pystr" where
  "path_stem n = take (length n - length (path_suffix n)) n"

text \<open>\<open>[a-z]\<close> under \<open>re.IGNORECASE\<close>.\<close>

definition ci_letter :: "pychar \<Rightarrow> bool" where
  "ci_letter c \<longleftrightarrow> (let d = (if c = 304 then 105 else lower_char c) in
     97 \<le> d \<and> d \<le> 122 \<or> d = 305 \<or> d = 383)"

definition LANG_CODE_RE :: rx where
  "LANG_CODE_RE = RSeq (rchr 46) (RSeq (RCls ci_letter) (RSeq (RCls ci_letter) reos))"

text \<open>\<open>stem.rsplit('.', 1)[0]\<close>.\<close>

definition before_last_dot :: "pystr \<Rightarrow> pystr" where
  "before_last_dot s = (case last_dot s of None \<Rightarrow> s | Some i \<Rightarrow> take i s)"

definition derive_vi_sidecar_name :: "pystr \<Rightarrow> pystr" where
  "derive_vi_sidecar_name n =
     (let suffix = lower (path_suffix n); stem = path_stem n;
          stem' = (if found LANG_CODE_RE stem then before_last_dot stem else stem)
      in stem' @ lit ''.vi'' @ suffix)"

section \<open>Components of a mapped path\<close>

lemma parts_append:
  "suffix = [] \<or> starts_with [47] suffix \<Longrightarrow>
     \<exists>cs. path_parts (path_of (a @ suffix)) = path_parts (path_of a) @ cs"
  by (cases suffix) (auto simp: path_of_def split_char_append)

lemma last_local: "local_of m \<noteq> [] \<Longrightarrow> last (local_of m) \<noteq> 47"
  unfolding local_of_def rstrip_char_def
  by (metis (mono_tags, lifting) hd_dropWhile hd_rev rev_is_Nil_conv rev_rev_ident)

lemma root_append:
  assumes "a \<noteq> []" and "last a \<noteq> 47"
  shows "path_root (path_of (a @ suffix)) = path_root (path_of a)"
proof (cases a)
  case (Cons x xs)
  show ?thesis
  proof (cases xs)
    case Nil
    with Cons assms show ?thesis by (simp add: path_of_def)
  next
    case (Cons y ys)
    with \<open>a = x # xs\<close> assms show ?thesis by (cases ys) (auto simp: path_of_def)
  qed
qed (use assms in simp)

lemma match_suffix:
  assumes "mapping_matches n m"
  shows "drop (length (remote_of m)) n = [] \<or> starts_with [47] (drop (length (remote_of m)) n)"
  using assms by (auto simp: mapping_matches_def starts_with_iff)

lemma mapped_relative:
  assumes "local_of m \<noteq> []" and "mapping_matches n m"
  shows "relative_to (path_of (local_of m @ drop (length (remote_of m)) n)) (path_of (local_of m))"
  using root_append[OF assms(1) last_local[OF assms(1)]] parts_append[OF match_suffix[OF assms(2)], of "local_of m"]
  by (auto simp: relative_to_def)

lemma dedupe_roots_mem:
  "m \<in> set ms \<Longrightarrow> local_of m \<in> set seen \<or> path_of (local_of m) \<in> set (dedupe_roots seen ms)"
  by (induction seen ms rule: dedupe_roots.induct) auto

lemma find_sorted:
  assumes "find P (sort_key f ms) = Some m"
  shows "m \<in> set ms \<and> P m \<and> (\<forall>m' \<in> set ms. P m' \<longrightarrow> f m \<le> (f m' :: int))"
proof -
  from assms obtain i where i: "i < length (sort_key f ms)" "P (sort_key f ms ! i)" "m = sort_key f ms ! i"
    "\<forall>j < i. \<not> P (sort_key f ms ! j)" by (auto simp: find_Some_iff)
  have "f m \<le> f m'" if m': "m' \<in> set ms" "P m'" for m'
  proof -
    from m'(1) obtain j where j: "j < length (sort_key f ms)" "sort_key f ms ! j = m'"
      by (metis in_set_conv_nth set_sort)
    with i(4) m'(2) have "i \<le> j" by (metis not_less)
    moreover have "sorted (map f (sort_key f ms))" by simp
    ultimately show ?thesis using i j by (metis length_map nth_map sorted_nth_mono)
  qed
  moreover from i have "m \<in> set ms" by (metis nth_mem set_sort)
  ultimately show ?thesis using i by simp
qed

section \<open>The sidecar of a sidecar\<close>

lemma takeWhile_rev_suffix:
  "46 \<notin> set e \<Longrightarrow> takeWhile (\<lambda>c. c \<noteq> 46) (rev (a @ 46 # e)) = rev e"
proof -
  assume "46 \<notin> set e"
  then have "takeWhile (\<lambda>c. c \<noteq> 46) (rev e @ [46] @ rev a) = rev e"
    by (subst takeWhile_append2) auto
  then show ?thesis by simp
qed

lemma last_dot_at: "46 \<notin> set e \<Longrightarrow> last_dot (a @ 46 # e) = Some (length a)"
  using takeWhile_rev_suffix[of e a] by (simp add: last_dot_def Let_def)

lemma suffix_at: "46 \<notin> set e \<Longrightarrow> a \<noteq> [] \<Longrightarrow> e \<noteq> [] \<Longrightarrow> path_suffix (a @ 46 # e) = 46 # e"
  by (cases e) (simp_all add: path_suffix_def last_dot_at)

lemma stem_at: "46 \<notin> set e \<Longrightarrow> a \<noteq> [] \<Longrightarrow> e \<noteq> [] \<Longrightarrow> path_stem (a @ 46 # e) = a"
  by (simp add: path_stem_def suffix_at)

lemma lang_code_vi: "found LANG_CODE_RE (a @ [46, 118, 105])"
proof -
  have "ci_letter 118" "ci_letter 105" by (simp_all add: ci_letter_def lower_char_ascii Let_def)
  then have "rxm (RSeq (RCls ci_letter) reos) (118 # 46 # rev a) [105] []"
    unfolding rxm_seq by (intro exI[of _ "[105]"] exI[of _ "[]"]) (simp add: reos_def)
  with \<open>ci_letter 118\<close> have "rxm (RSeq (RCls ci_letter) (RSeq (RCls ci_letter) reos)) (46 # rev a) [118, 105] []"
    by (subst rxm_seq) (intro exI[of _ "[118]"] exI[of _ "[105]"], simp)
  then have "rxm LANG_CODE_RE (rev a) [46, 118, 105] []"
    unfolding LANG_CODE_RE_def by (subst rxm_seq) (intro exI[of _ "[46]"] exI[of _ "[118, 105]"], simp)
  then show ?thesis unfolding found_iff by (metis append.right_neutral)
qed

lemma before_vi: "before_last_dot (a @ [46, 118, 105]) = a"
  using last_dot_at[of "[118, 105]" a] by (simp add: before_last_dot_def)

section \<open>Properties\<close>

text \<open>
  The longest matching prefix wins, whatever the order of the configuration, and a path no
  mapping matches is passed through.
\<close>

theorem mapping_longest_prefix:
  "(\<exists>m \<in> set ms. mapping_matches (rstrip_char 47 api) m
      \<and> (\<forall>m' \<in> set ms. mapping_matches (rstrip_char 47 api) m' \<longrightarrow> length (remote_of m') \<le> length (remote_of m))
      \<and> apply_path_mapping api ms = path_of (local_of m @ drop (length (remote_of m)) (rstrip_char 47 api)))
   \<or> ((\<forall>m \<in> set ms. \<not> mapping_matches (rstrip_char 47 api) m) \<and> apply_path_mapping api ms = path_of api)"
proof (cases "find (mapping_matches (rstrip_char 47 api)) (sort_key (\<lambda>m. - int (length (remote_of m))) ms)")
  case None
  then have "\<forall>m \<in> set ms. \<not> mapping_matches (rstrip_char 47 api) m" by (simp add: find_None_iff)
  with None show ?thesis by (simp add: apply_path_mapping_def)
next
  case (Some m)
  from find_sorted[OF Some] Some show ?thesis by (auto simp: apply_path_mapping_def)
qed

text \<open>
  The traversal guard accepts every mapped path whose resolution changes nothing, when no
  mapping's local side is the root directory itself.
\<close>

theorem mapped_path_within_roots:
  assumes "find (mapping_matches (rstrip_char 47 api)) ms \<noteq> None" and "\<forall>m \<in> set ms. local_of m \<noteq> []"
  shows "assert_within_media_roots (\<lambda>p. p) (apply_path_mapping api ms) (build_media_roots ms) = Inr ()"
proof -
  from assms(1) have ex: "\<exists>m \<in> set ms. mapping_matches (rstrip_char 47 api) m"
    by (auto simp: find_None_iff)
  then have "find (mapping_matches (rstrip_char 47 api)) (sort_key (\<lambda>m. - int (length (remote_of m))) ms) \<noteq> None"
    by (auto simp: find_None_iff)
  then obtain m where m: "find (mapping_matches (rstrip_char 47 api)) (sort_key (\<lambda>m. - int (length (remote_of m))) ms) = Some m"
    by blast
  note f = find_sorted[OF m]
  have "relative_to (apply_path_mapping api ms) (path_of (local_of m))"
    using mapped_relative[of m "rstrip_char 47 api"] f assms(2) m by (simp add: apply_path_mapping_def)
  moreover have "path_of (local_of m) \<in> set (build_media_roots ms)"
    using dedupe_roots_mem[of m ms "[]"] f by (simp add: build_media_roots_def)
  ultimately show ?thesis by (auto simp: assert_within_media_roots_def Let_def)
qed

definition sample_mappings :: "path_mapping list" where
  "sample_mappings = [\<lparr>pm_remote = lit ''/tv'', pm_local = lit ''/data/tv/''\<rparr>,
     \<lparr>pm_remote = lit ''/tv/anime'', pm_local = lit ''/data/anime''\<rparr>]"

lemmas path_eval = sample_mappings_def mapping_matches_def remote_of_def local_of_def rstrip_char_def lit_def

theorem mapping_longest_prefix_witness:
  "\<exists>m \<in> set sample_mappings. mapping_matches (lit ''/tv/anime/x'') m
     \<and> apply_path_mapping (lit ''/tv/anime/x'') sample_mappings = path_of (local_of m @ drop (length (remote_of m)) (lit ''/tv/anime/x''))"
  using mapping_longest_prefix[of sample_mappings "lit ''/tv/anime/x''"] by (auto simp: path_eval)

theorem mapped_path_within_roots_witness:
  "assert_within_media_roots (\<lambda>p. p) (apply_path_mapping (lit ''/tv/anime/x'') sample_mappings)
     (build_media_roots sample_mappings) = Inr ()"
  by (rule mapped_path_within_roots) (simp_all add: path_eval)

text \<open>
  With no media root configured the guard rejects every path, so an empty configuration fails
  closed and does not remove the constraint.
\<close>

theorem guard_without_roots: "assert_within_media_roots resolve p (build_media_roots []) = Inl ValueError"
  by (simp add: assert_within_media_roots_def build_media_roots_def)

text \<open>
  Naming the Vietnamese sidecar is idempotent on a name with an extension in lower case: the
  sidecar of a sidecar is itself, so the program never derives a second output from its own output.
\<close>

theorem derive_vi_idempotent:
  assumes "46 \<notin> set e" and "e \<noteq> []" and "a \<noteq> []" and "lower e = e"
  shows "derive_vi_sidecar_name (derive_vi_sidecar_name (a @ 46 # e)) = derive_vi_sidecar_name (a @ 46 # e)"
proof -
  have low: "lower (46 # e) = 46 # e" using assms(4) by (simp add: lower_def lower_char_ascii)
  obtain b where b: "derive_vi_sidecar_name (a @ 46 # e) = (b @ [46, 118, 105]) @ 46 # e"
    using assms by (simp add: derive_vi_sidecar_name_def suffix_at stem_at low Let_def lit_def)
  let ?n = "(b @ [46, 118, 105]) @ 46 # e"
  have "path_suffix ?n = 46 # e" "path_stem ?n = b @ [46, 118, 105]"
    by (rule suffix_at stem_at; use assms(1,2) in simp)+
  then have "derive_vi_sidecar_name ?n = b @ lit ''.vi'' @ 46 # e"
    using lang_code_vi[of b] before_vi[of b] by (simp only: derive_vi_sidecar_name_def Let_def low if_True)
  with b show ?thesis by (simp add: lit_def)
qed

lemmas sidecar_eval = derive_vi_sidecar_name_def path_suffix_def path_stem_def last_dot_def before_last_dot_def
  LANG_CODE_RE_def ci_letter_def rx_eval lit_def lower_def lower_char_ascii Let_def

theorem derive_vi_idempotent_witness:
  "derive_vi_sidecar_name (derive_vi_sidecar_name (lit ''S.en'' @ 46 # lit ''srt'')) =
     derive_vi_sidecar_name (lit ''S.en'' @ 46 # lit ''srt'')"
  by (rule derive_vi_idempotent) (simp_all add: lit_def lower_def lower_char_ascii)

text \<open>
  A three-letter language code is accepted when sources are discovered but is not removed from
  the sidecar's name, so the output of an eng source is not the Vietnamese sidecar other tools read.
\<close>

theorem derive_vi_three_letter_code:
  "derive_vi_sidecar_name (lit ''S.eng.srt'') = lit ''S.eng.vi.srt''
   \<and> derive_vi_sidecar_name (lit ''S.en.srt'') = lit ''S.vi.srt''"
  by (simp add: sidecar_eval)

end
