(* ===== verification/Ranking.thy ===== *)
theory Ranking
  imports Unicode_Tables "HOL-Library.List_Lexorder" "HOL-Library.Product_Lexorder"
begin

text \<open>
  The choice of a source language, \<open>trezarr/source_selection/rank.py\<close> and
  \<open>trezarr/source_selection/resolve.py\<close>: the tier of a language, the ranking of the available
  ones, the code of a language name, and the settings that hold for one series.
\<close>

section \<open>Ranking\<close>

definition TIER :: "(pystr \<times> nat) list" where
  "TIER = [
    (lit ''zh'', 1), (lit ''cmn'', 1), (lit ''zho'', 1), (lit ''ko'', 1), (lit ''kor'', 1),
    (lit ''ja'', 1), (lit ''jpn'', 1), (lit ''th'', 1), (lit ''tha'', 1), (lit ''id'', 2),
    (lit ''ind'', 2), (lit ''ms'', 2), (lit ''msa'', 2), (lit ''hi'', 2), (lit ''hin'', 2),
    (lit ''ta'', 2), (lit ''tam'', 2), (lit ''ar'', 2), (lit ''ara'', 2), (lit ''tr'', 2),
    (lit ''tur'', 2), (lit ''en'', 3), (lit ''eng'', 3)]"

definition DEFAULT_TIER :: nat where
  "DEFAULT_TIER = 2"

definition ORIG_LANG_NAME_TO_CODE2 :: "(pystr \<times> pystr) list" where
  "ORIG_LANG_NAME_TO_CODE2 = [
    (lit ''english'', lit ''en''), (lit ''korean'', lit ''ko''), (lit ''japanese'', lit ''ja''),
    (lit ''chinese'', lit ''zh''), (lit ''thai'', lit ''th''), (lit ''vietnamese'', lit ''vi''),
    (lit ''cantonese'', lit ''zh''), (lit ''mandarin'', lit ''zh''), (lit ''french'', lit ''fr''),
    (lit ''german'', lit ''de''), (lit ''spanish'', lit ''es''), (lit ''portuguese'', lit ''pt''),
    (lit ''italian'', lit ''it''), (lit ''russian'', lit ''ru''), (lit ''arabic'', lit ''ar''),
    (lit ''hindi'', lit ''hi''), (lit ''indonesian'', lit ''id''), (lit ''malay'', lit ''ms''),
    (lit ''tamil'', lit ''ta''), (lit ''turkish'', lit ''tr''), (lit ''dutch'', lit ''nl''),
    (lit ''polish'', lit ''pl''), (lit ''swedish'', lit ''sv''), (lit ''norwegian'', lit ''no''),
    (lit ''danish'', lit ''da''), (lit ''finnish'', lit ''fi''), (lit ''czech'', lit ''cs''),
    (lit ''hungarian'', lit ''hu''), (lit ''romanian'', lit ''ro''), (lit ''greek'', lit ''el''),
    (lit ''hebrew'', lit ''he''), (lit ''ukrainian'', lit ''uk''), (lit ''catalan'', lit ''ca''),
    (lit ''basque'', lit ''eu''), (lit ''galician'', lit ''gl''), (lit ''bengali'', lit ''bn''),
    (lit ''urdu'', lit ''ur''), (lit ''farsi'', lit ''fa''), (lit ''persian'', lit ''fa''),
    (lit ''burmese'', lit ''my''), (lit ''khmer'', lit ''km''), (lit ''lao'', lit ''lo''),
    (lit ''mongolian'', lit ''mn''), (lit ''tibetan'', lit ''bo''), (lit ''filipino'', lit ''fil''),
    (lit ''tagalog'', lit ''tl'')]"

definition is_native :: "pystr \<Rightarrow> pystr option \<Rightarrow> bool" where
  "is_native lang orig \<longleftrightarrow> truthy orig \<and> lower lang = lower (or_empty orig)"

text \<open>The function \<open>sort_key\<close>; its floats are the naturals 0 to 3.\<close>

definition source_key :: "pystr \<Rightarrow> pystr option \<Rightarrow> nat" where
  "source_key lang orig =
     (if is_native lang orig then 0
      else case map_of TIER (lower lang) of None \<Rightarrow> DEFAULT_TIER | Some t \<Rightarrow> t)"

definition rank_key :: "pystr option \<Rightarrow> pystr \<Rightarrow> nat \<times> pystr" where
  "rank_key orig lang = (source_key lang orig, lang)"

definition rank_sources :: "pystr list \<Rightarrow> pystr option \<Rightarrow> pystr list" where
  "rank_sources available orig = sort_key (rank_key orig) (remdups (map lower available))"

definition normalize_original_language :: "pystr option \<Rightarrow> pystr option" where
  "normalize_original_language name =
     (case name of None \<Rightarrow> None | Some n \<Rightarrow> map_of ORIG_LANG_NAME_TO_CODE2 (lower n))"

section \<open>Effective settings\<close>

record series_overrides =
  source_lang_override :: "pystr list option"
  register_value :: "pystr option"
  model_override :: "pystr option"

record global_settings =
  source_lang_priority :: "pystr list"
  llm_model :: pystr

definition resolve_effective_settings ::
  "series_overrides option \<Rightarrow> global_settings \<Rightarrow> pystr list \<times> pystr option \<times> pystr" where
  "resolve_effective_settings dto g =
     (case dto of
        None \<Rightarrow> (source_lang_priority g, None, llm_model g)
      | Some d \<Rightarrow>
          (case source_lang_override d of None \<Rightarrow> source_lang_priority g | Some ls \<Rightarrow> ls,
           register_value d,
           case model_override d of None \<Rightarrow> llm_model g | Some m \<Rightarrow> m))"

section \<open>Facts\<close>

lemma inj_rank_key: "inj_on (rank_key orig) A"
  by (auto simp: rank_key_def inj_on_def)

lemma set_rank_sources [simp]: "set (rank_sources av orig) = lower ` set av"
  by (simp add: rank_sources_def)

lemma source_key_native: "source_key l orig = 0 \<longleftrightarrow> is_native l orig"
proof -
  have "\<forall>v \<in> set (map snd TIER). v > 0" by (simp add: TIER_def)
  then have "map_of TIER k = Some v \<Longrightarrow> v > 0" for k v
    by (metis in_set_zipE map_of_SomeD snd_conv image_eqI list.set_map)
  then show ?thesis by (auto simp: source_key_def DEFAULT_TIER_def split: option.splits)
qed

lemma sorted_head_least:
  "sorted (map f xs) \<Longrightarrow> x \<in> set xs \<Longrightarrow> f (hd xs) \<le> f x"
  by (cases xs) auto

lemma distinct_rank_sources [simp]: "distinct (rank_sources av orig)"
  by (simp add: rank_sources_def)

lemma sorted_rank_sources: "sorted (map (rank_key orig) (rank_sources av orig))"
  by (simp add: rank_sources_def)

lemma rank_key_le: "rank_key orig a \<le> rank_key orig b \<Longrightarrow> source_key a orig \<le> source_key b orig"
  by (auto simp: rank_key_def)

section \<open>Properties\<close>

text \<open>
  The ranking lists every available language once, in lower case, by increasing key, and within
  one key alphabetically.
\<close>

theorem rank_sources_sorted:
  "set (rank_sources av orig) = lower ` set av \<and> distinct (rank_sources av orig)
   \<and> sorted (map (rank_key orig) (rank_sources av orig))"
  by (simp add: sorted_rank_sources)

text \<open>
  The ranking is deterministic: it depends on which languages are available, not on their
  order, case or number of occurrences.
\<close>

theorem rank_sources_deterministic:
  assumes "lower ` set a = lower ` set b"
  shows "rank_sources a orig = rank_sources b orig"
proof (rule map_sorted_distinct_set_unique)
  show "inj_on (rank_key orig) (set (rank_sources a orig) \<union> set (rank_sources b orig))"
    by (rule inj_rank_key)
qed (use assms in \<open>auto simp: sorted_rank_sources distinct_map inj_rank_key\<close>)

lemmas rank_eval = rank_sources_def rank_key_def source_key_def is_native_def TIER_def DEFAULT_TIER_def
  lower_def lit_def lower_char_ascii

theorem rank_sources_deterministic_witness:
  "rank_sources [lit ''KO'', lit ''en'', lit ''ko''] None = rank_sources [lit ''en'', lit ''ko''] None"
  by (rule rank_sources_deterministic) (auto simp: rank_eval)

text \<open>
  When a source in the content's own language is available under the same code, the first
  choice is such a source, whatever the tiers of the others.
\<close>

theorem native_source_first:
  assumes "l \<in> set av" and "is_native (lower l) orig"
  shows "is_native (hd (rank_sources av orig)) orig"
proof -
  from assms(1) have "lower l \<in> set (rank_sources av orig)" by simp
  from sorted_head_least[OF sorted_rank_sources this, THEN rank_key_le] assms(2)
  show ?thesis by (simp add: source_key_native[symmetric])
qed

theorem native_source_first_witness:
  "is_native (hd (rank_sources [lit ''ko'', lit ''es''] (Some (lit ''es'')))) (Some (lit ''es''))"
  by (rule native_source_first[of "lit ''es''"]) (simp_all add: rank_eval)

text \<open>
  The native source does not win when it is tagged with the three-letter code: with English
  content, a Korean sidecar outranks one tagged eng.
\<close>

theorem native_three_letter_code_loses:
  "rank_sources [lit ''eng'', lit ''ko''] (Some (lit ''en'')) = [lit ''ko'', lit ''eng'']"
  by (simp add: rank_eval)

text \<open>
  A series setting wins over the global one exactly when it is present, and without a series
  the global settings hold and no register is set.
\<close>

theorem effective_settings:
  "resolve_effective_settings dto g =
     (case Option.bind dto source_lang_override of None \<Rightarrow> source_lang_priority g | Some ls \<Rightarrow> ls,
      Option.bind dto register_value,
      case Option.bind dto model_override of None \<Rightarrow> llm_model g | Some m \<Rightarrow> m)"
  by (cases dto) (simp_all add: resolve_effective_settings_def)

end
