(* ===== verification/Discovery.thy ===== *)
theory Discovery
  imports Ledger Media_Paths Ranking
begin

text \<open>
  Finding what to translate: the eligibility decision of \<open>trezarr/discover/gap.py\<close>, the
  search for source sidecars, the scan over the media items and the choice of a source language
  of \<open>trezarr/discover/scan.py\<close>. Files and directory listings are given; paths are resolved.
  The ledger enters by the operations the code calls, and the digest is a parameter.
\<close>

section \<open>Eligibility\<close>

record sub_path =
  sp_dir :: pystr
  sp_name :: pystr

definition path_str :: "sub_path \<Rightarrow> pystr" where
  "path_str p = sp_dir p @ [47] @ sp_name p"

definition derive_vi_sidecar_path :: "sub_path \<Rightarrow> sub_path" where
  "derive_vi_sidecar_path p = p\<lparr>sp_name := derive_vi_sidecar_name (sp_name p)\<rparr>"

text \<open>Reading a file gives its bytes, or the text of the \<open>OSError\<close>.\<close>

record files =
  fs_exists :: "pystr \<Rightarrow> bool"
  fs_read :: "pystr \<Rightarrow> pystr + nat list"

definition no_source_reason :: "pystr \<Rightarrow> pystr" where
  "no_source_reason p = lit ''no source subtitle at '' @ p"

definition foreign_reason :: "pystr \<Rightarrow> pystr" where
  "foreign_reason v = lit ''foreign vi sidecar at '' @ v @ lit '' '' @ [8212] @ lit '' not ours, skipping''"

definition richer_reason :: pystr where
  "richer_reason = lit ''richer source available '' @ [8212] @ lit '' re-translating''"

definition unreadable_reason :: "pystr \<Rightarrow> pystr" where
  "unreadable_reason e = lit ''source subtitle unreadable: '' @ e"

definition done_reason :: pystr where
  "done_reason = lit ''already translated (source unchanged)''"

definition changed_reason :: pystr where
  "changed_reason = lit ''source subtitle changed '' @ [8212] @ lit '' re-translating''"

definition retry_reason :: pystr where
  "retry_reason = lit ''retrying previously quarantined item''"

definition resume_reason :: pystr where
  "resume_reason = lit ''resuming in-progress item (possibly crashed run)''"

definition new_reason :: pystr where
  "new_reason = lit ''new item''"

definition is_eligible ::
  "(pystr \<Rightarrow> py_error + ledger_entry option) \<Rightarrow> (pystr \<Rightarrow> py_error + ledger_entry option)
     \<Rightarrow> (nat list \<Rightarrow> pystr) \<Rightarrow> files \<Rightarrow> sub_path \<Rightarrow> py_error + bool \<times> pystr" where
  "is_eligible check check_by_output content_hash fs p =
     (if \<not> fs_exists fs (path_str p) then Inr (False, no_source_reason (path_str p))
      else let vi = path_str (derive_vi_sidecar_path p) in
        case check (path_str p) of
          Inl err \<Rightarrow> Inl err
        | Inr None \<Rightarrow>
            (if fs_exists fs vi then
               (case check_by_output vi of
                  Inl err \<Rightarrow> Inl err
                | Inr (Some prior) \<Rightarrow> Inr (True, richer_reason)
                | Inr None \<Rightarrow> Inr (False, foreign_reason vi))
             else Inr (True, new_reason))
        | Inr (Some e) \<Rightarrow>
            (if le_status e = Done \<and> fs_exists fs vi then
               (case fs_read fs (path_str p) of
                  Inl exc \<Rightarrow> Inr (False, unreadable_reason exc)
                | Inr bytes \<Rightarrow> (if le_hash e = content_hash bytes then Inr (False, done_reason)
                                else Inr (True, changed_reason)))
             else if le_status e = Quarantined then Inr (True, retry_reason)
             else if le_status e = InProgress then Inr (True, resume_reason)
             else Inr (True, new_reason)))"

section \<open>Source sidecars\<close>

definition SOURCE_SUFFIXES :: "pystr list" where
  "SOURCE_SUFFIXES = [lit ''srt'', lit ''ass'', lit ''ssa'', lit ''vtt'']"

definition any_char :: "pychar \<Rightarrow> bool" where
  "any_char c \<longleftrightarrow> c \<noteq> 10"

fun suffix_alternatives :: "pystr list \<Rightarrow> rx" where
  "suffix_alternatives [] = REps"
| "suffix_alternatives [s] = ristr s"
| "suffix_alternatives (s # t # ss) = RAlt (ristr s) (suffix_alternatives (t # ss))"

definition LANG_SIDECAR_RE :: rx where
  "LANG_SIDECAR_RE = RSeq rbos
     (RSeq (RGrp 1 (RSeq (RCls any_char) (RLazy (RCls any_char)))) (RSeq (rchr 46)
     (RSeq (RGrp 2 (RSeq (RCls ci_letter) (RSeq (RCls ci_letter) (ropt (RCls ci_letter)))))
     (RSeq (rchr 46) (RSeq (suffix_alternatives SOURCE_SUFFIXES) reos)))))"

text \<open>The glob \<open>{stem}.*.{suffix}\<close> over the names of the directory.\<close>

definition glob_matches :: "pystr \<Rightarrow> pystr \<Rightarrow> pystr \<Rightarrow> bool" where
  "glob_matches stem suffix n \<longleftrightarrow>
     starts_with (stem @ [46]) n \<and> ends_with (46 # suffix) (drop (length stem + 1) n)"

definition glob_source_sidecars :: "pystr list \<Rightarrow> pystr \<Rightarrow> pystr list" where
  "glob_source_sidecars names stem =
     sort (concat (map (\<lambda>suffix. filter (glob_matches stem suffix) names) SOURCE_SUFFIXES))"

text \<open>The language of a sidecar of this stem.\<close>

definition sidecar_lang :: "pystr \<Rightarrow> pystr \<Rightarrow> pystr option" where
  "sidecar_lang stem n = (case re_match LANG_SIDECAR_RE n of
     None \<Rightarrow> None
   | Some (m, g) \<Rightarrow> (if Py_Regex.group g 1 = stem then Some (lower (Py_Regex.group g 2)) else None))"

text \<open>A media item: its directory, stem, the listing of the directory, or \<open>None\<close> on an error.\<close>

record media_item =
  mi_dir :: pystr
  mi_stem :: pystr
  mi_listing :: "pystr list option"
  mi_original_language :: "pystr option"

fun first_priority :: "pystr list \<Rightarrow> (pystr \<times> pystr) list \<Rightarrow> (pystr \<times> pystr) option" where
  "first_priority [] cands = None"
| "first_priority (lang # langs) cands =
     (case find (\<lambda>(l, n). l = lower lang) cands of
        Some (l, n) \<Rightarrow> Some (n, l)
      | None \<Rightarrow> first_priority langs cands)"

definition sidecar_candidates :: "pystr list \<Rightarrow> pystr \<Rightarrow> (pystr \<times> pystr) list" where
  "sidecar_candidates names stem =
     concat (map (\<lambda>n. case sidecar_lang stem n of None \<Rightarrow> [] | Some l \<Rightarrow> [(l, n)])
       (glob_source_sidecars names stem))"

definition find_source_sub :: "media_item \<Rightarrow> pystr list \<Rightarrow> (sub_path \<times> pystr) option" where
  "find_source_sub m priority = (case mi_listing m of
     None \<Rightarrow> None
   | Some names \<Rightarrow>
       map_option (\<lambda>(n, l). (\<lparr>sp_dir = mi_dir m, sp_name = n\<rparr>, l))
         (first_priority priority (sidecar_candidates names (mi_stem m))))"

section \<open>The scan\<close>

record eligible_item =
  ei_media :: media_item
  ei_path :: sub_path
  ei_reason :: pystr
  ei_lang :: pystr
  ei_upgraded :: bool

record scan_stats =
  st_scanned :: nat
  st_no_source :: nat
  st_foreign_vi :: nat
  st_already_done :: nat
  st_error :: nat
  st_source_upgraded :: nat

definition no_stats :: scan_stats where
  "no_stats = \<lparr>st_scanned = 0, st_no_source = 0, st_foreign_vi = 0, st_already_done = 0, st_error = 0,
     st_source_upgraded = 0\<rparr>"

text \<open>The classification of a skip by the text of its reason.\<close>

definition count_skip :: "pystr \<Rightarrow> scan_stats \<Rightarrow> scan_stats" where
  "count_skip reason st =
     (let r = lower reason in
      if contains (lit ''foreign'') r then st\<lparr>st_foreign_vi := st_foreign_vi st + 1\<rparr>
      else if contains (lit ''already translated'') r then st\<lparr>st_already_done := st_already_done st + 1\<rparr>
      else if contains (lit ''richer source'') r then st\<lparr>st_source_upgraded := st_source_upgraded st + 1\<rparr>
      else if contains (lit ''no source'') r then st\<lparr>st_no_source := st_no_source st + 1\<rparr>
      else if contains (lit ''unreadable'') r then st\<lparr>st_error := st_error st + 1\<rparr>
      else st)"

definition is_upgrade :: "pystr \<Rightarrow> bool" where
  "is_upgrade reason \<longleftrightarrow> contains (lit ''richer source'') (lower reason)"

fun scan_for_eligible_items ::
  "(sub_path \<Rightarrow> py_error + bool \<times> pystr) \<Rightarrow> pystr list \<Rightarrow> media_item list
     \<Rightarrow> eligible_item list \<Rightarrow> scan_stats \<Rightarrow> py_error + eligible_item list \<times> scan_stats" where
  "scan_for_eligible_items elig prio [] acc st = Inr (acc, st)"
| "scan_for_eligible_items elig prio (m # ms) acc st0 =
     (let st = st0\<lparr>st_scanned := st_scanned st0 + 1\<rparr> in
      case find_source_sub m prio of
        None \<Rightarrow> scan_for_eligible_items elig prio ms acc (st\<lparr>st_no_source := st_no_source st + 1\<rparr>)
      | Some (p, lang) \<Rightarrow>
          (case elig p of
             Inl err \<Rightarrow> Inl err
           | Inr (ok, reason) \<Rightarrow>
               (if \<not> ok then scan_for_eligible_items elig prio ms acc (count_skip reason st)
                else scan_for_eligible_items elig prio ms
                  (acc @ [\<lparr>ei_media = m, ei_path = p, ei_reason = reason, ei_lang = lang, ei_upgraded = is_upgrade reason\<rparr>])
                  (if is_upgrade reason then st\<lparr>st_source_upgraded := st_source_upgraded st + 1\<rparr> else st))))"

section \<open>Choosing the source language\<close>

text \<open>
  The languages on offer. An inventory entry is the pair of its path and its code, and counts
  when both are non-empty and \<open>accessible\<close> holds of its path: it can be mapped, lies inside the
  media roots where there are any, and exists.
\<close>

definition inventory_langs :: "(pystr \<Rightarrow> bool) \<Rightarrow> (pystr \<times> pystr) list option \<Rightarrow> bool \<Rightarrow> pystr list" where
  "inventory_langs accessible inventory use_inventory =
     (case inventory of
        None \<Rightarrow> []
      | Some es \<Rightarrow> (if use_inventory
          then map (\<lambda>(raw, code). lower code) (filter (\<lambda>(raw, code). raw \<noteq> [] \<and> code \<noteq> [] \<and> accessible raw) es)
          else []))"

definition filesystem_langs :: "media_item \<Rightarrow> pystr list" where
  "filesystem_langs m = (case mi_listing m of
     None \<Rightarrow> [] | Some names \<Rightarrow> map fst (sidecar_candidates names (mi_stem m)))"

definition accessible_entry :: "(path \<Rightarrow> path) \<Rightarrow> (path \<Rightarrow> bool) \<Rightarrow> path_mapping list \<Rightarrow> pystr \<Rightarrow> bool" where
  "accessible_entry resolve exists mappings raw =
     (let p = apply_path_mapping raw mappings; roots = build_media_roots mappings
      in (roots \<noteq> [] \<longrightarrow> assert_within_media_roots resolve p roots = Inr ()) \<and> exists p)"

definition select_source_for_item ::
  "(pystr \<Rightarrow> bool) \<Rightarrow> media_item \<Rightarrow> pystr list \<Rightarrow> bool \<Rightarrow> (pystr \<times> pystr) list option
     \<Rightarrow> pystr list option \<Rightarrow> pystr option" where
  "select_source_for_item accessible m global_priority use_inventory inventory series_override =
     (let available = inventory_langs accessible inventory use_inventory @ filesystem_langs m in
      if available = [] then None
      else let original = normalize_original_language (mi_original_language m) in
        case find (\<lambda>l. lower l \<in> set available) (case series_override of None \<Rightarrow> [] | Some ls \<Rightarrow> ls) of
          Some l \<Rightarrow> Some (lower l)
        | None \<Rightarrow>
            (case rank_sources available original of
               l # _ \<Rightarrow> Some l
             | [] \<Rightarrow> (case find (\<lambda>l. lower l \<in> set available) global_priority of
                       Some l \<Rightarrow> Some (lower l) | None \<Rightarrow> Some (hd available))))"

section \<open>Eligibility against any ledger\<close>

lemmas eligible_reasons = no_source_reason_def foreign_reason_def richer_reason_def unreadable_reason_def
  done_reason_def changed_reason_def retry_reason_def resume_reason_def new_reason_def

context ledger_protocol
begin

lemma eligible_foreign:
  assumes "invar s" and "fs_exists fs (path_str p)" and "fs_exists fs (path_str (derive_vi_sidecar_path p))"
    and "check s (path_str p) = Inr None"
    and "\<And>q e. check s q = Inr (Some e) \<Longrightarrow> le_output e \<noteq> Some (path_str (derive_vi_sidecar_path p))"
  shows "is_eligible (check s) (by_output s) h fs p =
    Inr (False, foreign_reason (path_str (derive_vi_sidecar_path p)))"
  using assms by_output_absent[OF assms(1,5)] by (simp add: is_eligible_def Let_def)

lemma eligible_done:
  assumes "invar s" and "record_entry e s = Inr s'" and "le_source e = path_str p" and "le_status e = Done"
    and "fs_exists fs (path_str p)" and "fs_exists fs (path_str (derive_vi_sidecar_path p))"
    and "fs_read fs (path_str p) = Inr bytes"
  shows "is_eligible (check s') (by_output s') h fs p =
    (if le_hash e = h bytes then Inr (False, done_reason) else Inr (True, changed_reason))"
  using assms check_record[OF assms(1,2), of "path_str p"] by (simp add: is_eligible_def Let_def)

lemma eligible_quarantined:
  assumes "invar s" and "record_entry e s = Inr s'" and "le_source e = path_str p" and "le_status e = Quarantined"
    and "fs_exists fs (path_str p)"
  shows "is_eligible (check s') (by_output s') h fs p = Inr (True, retry_reason)"
  using assms check_record[OF assms(1,2), of "path_str p"] by (simp add: is_eligible_def Let_def)

end

section \<open>Scan counters\<close>

definition skipped :: "scan_stats \<Rightarrow> nat" where
  "skipped st = st_no_source st + st_foreign_vi st + st_already_done st + st_error st + st_source_upgraded st"

lemma lower_append [simp]: "lower (a @ b) = lower a @ lower b"
  by (simp add: lower_def)

lemma contains_mid: "contains p (a @ p @ b)"
  by (auto simp: contains_iff)

lemma lower_ascii: "\<forall>c \<in> set s. c < 128 \<and> \<not> (65 \<le> c \<and> c \<le> 90) \<Longrightarrow> lower s = s"
  by (induction s) (auto simp: lower_def lower_char_ascii)

lemma skip_reasons:
  assumes "is_eligible chk out h fs p = Inr (False, r)"
  shows "contains (lit ''foreign'') (lower r) \<or> contains (lit ''already translated'') (lower r)
    \<or> contains (lit ''no source'') (lower r) \<or> contains (lit ''unreadable'') (lower r)"
proof -
  have low: "lower (lit s) = lit s" if "\<forall>c \<in> set (lit s). c < 128 \<and> \<not> (65 \<le> c \<and> c \<le> 90)" for s
    using that by (rule lower_ascii)
  from assms consider "r = no_source_reason (path_str p)" | v where "r = foreign_reason v"
    | x where "r = unreadable_reason x" | "r = done_reason"
    by (auto simp: is_eligible_def Let_def split: if_splits sum.splits option.splits)
  then show ?thesis
  proof cases
    case 1
    have "lower r = [] @ lit ''no source'' @ lit '' subtitle at '' @ lower (path_str p)"
      unfolding 1 no_source_reason_def lower_append by (subst low) (simp_all add: lit_def)
    then show ?thesis using contains_mid[of "lit ''no source''" "[]"] by metis
  next
    case 2
    have "lower r = [] @ lit ''foreign'' @ lit '' vi sidecar at '' @ lower (v @ lit '' '' @ [8212] @ lit '' not ours, skipping'')"
      unfolding 2 foreign_reason_def lower_append by (subst low) (simp_all add: lit_def)
    then show ?thesis using contains_mid[of "lit ''foreign''" "[]"] by metis
  next
    case 3
    have "lower r = lit ''source subtitle '' @ lit ''unreadable'' @ lit '': '' @ lower x"
      unfolding 3 unreadable_reason_def lower_append by (subst low) (simp_all add: lit_def)
    then show ?thesis using contains_mid[of "lit ''unreadable''" "lit ''source subtitle ''"] by metis
  next
    case 4
    have "lower r = [] @ lit ''already translated'' @ lit '' (source unchanged)''"
      unfolding 4 done_reason_def by (subst low) (simp_all add: lit_def)
    then show ?thesis using contains_mid[of "lit ''already translated''" "[]"] by metis
  qed
qed

lemma count_skip_scanned [simp]: "st_scanned (count_skip r st) = st_scanned st"
  by (simp add: count_skip_def Let_def)

lemma count_skip_one:
  assumes "is_eligible chk out h fs p = Inr (False, r)"
  shows "skipped (count_skip r st) = skipped st + 1"
  using skip_reasons[OF assms] by (auto simp: count_skip_def skipped_def Let_def)

lemma scan_tally:
  assumes "scan_for_eligible_items (is_eligible chk out h fs) prio ms acc st = Inr (items, st')"
    and "skipped st + length acc = st_scanned st + length (filter ei_upgraded acc)"
  shows "st_scanned st' = st_scanned st + length ms
    \<and> skipped st' + length items = st_scanned st' + length (filter ei_upgraded items)"
  using assms
proof (induction ms arbitrary: acc st)
  case (Cons m ms)
  show ?case
  proof (cases "find_source_sub m prio")
    case None
    with Cons show ?thesis by (simp add: Let_def skipped_def)
  next
    case (Some pl)
    obtain p l where pl: "pl = (p, l)" by fastforce
    show ?thesis
    proof (cases "is_eligible chk out h fs p")
      case (Inl err)
      with Cons.prems Some pl show ?thesis by (simp add: Let_def)
    next
      case (Inr okr)
      obtain ok r where okr: "okr = (ok, r)" by fastforce
      show ?thesis
      proof (cases ok)
        case True
        with Cons.prems Some pl Inr okr show ?thesis
          by (auto simp: Let_def skipped_def dest!: Cons.IH split: if_splits)
      next
        case False
        with Inr okr have "is_eligible chk out h fs p = Inr (False, r)" by simp
        note one = count_skip_one[OF this, of "st\<lparr>st_scanned := st_scanned st + 1\<rparr>"]
        from Cons.prems Some pl Inr okr False
        have "scan_for_eligible_items (is_eligible chk out h fs) prio ms acc
            (count_skip r (st\<lparr>st_scanned := st_scanned st + 1\<rparr>)) = Inr (items, st')"
          by (simp add: Let_def)
        from Cons.IH[OF this] one Cons.prems(2) show ?thesis by (simp add: skipped_def)
      qed
    qed
  qed
qed simp

section \<open>The best sidecar\<close>

lemma sorted_candidates: "sorted (map snd (sidecar_candidates names stem))"
proof -
  have "sorted ns \<Longrightarrow> sorted (map snd (concat (map (\<lambda>n. case f n of None \<Rightarrow> [] | Some l \<Rightarrow> [(l, n)]) ns)))"
    for f :: "pystr \<Rightarrow> pystr option" and ns :: "pystr list"
    by (induction ns) (auto split: option.splits)
  then show ?thesis by (simp add: sidecar_candidates_def glob_source_sidecars_def)
qed

lemma find_first_least:
  assumes "sorted (map snd xs)" and "find (\<lambda>(l, n). l = k) xs = Some (k', n)" and "(k, n') \<in> set xs"
  shows "k' = k \<and> n \<le> (n' :: 'a :: linorder)"
  using assms by (induction xs) (auto split: if_splits)

lemma first_priority_Some:
  assumes "first_priority prio xs = Some (n, l)" and "sorted (map snd xs)"
  shows "(l, n) \<in> set xs \<and> (\<forall>n'. (l, n') \<in> set xs \<longrightarrow> n \<le> n')
    \<and> (\<exists>before after lang. prio = before @ lang # after \<and> lower lang = l
         \<and> (\<forall>b \<in> set before. \<forall>n'. (lower b, n') \<notin> set xs))"
  using assms
proof (induction prio xs rule: first_priority.induct)
  case (2 lang langs xs)
  show ?case
  proof (cases "find (\<lambda>(l, n). l = lower lang) xs")
    case None
    with 2 obtain before after la where
      ih: "(l, n) \<in> set xs" "\<forall>n'. (l, n') \<in> set xs \<longrightarrow> n \<le> n'" "langs = before @ la # after" "lower la = l"
        "\<forall>b \<in> set before. \<forall>n'. (lower b, n') \<notin> set xs" by auto
    moreover from None have "\<forall>n'. (lower lang, n') \<notin> set xs" by (auto simp: find_None_iff)
    ultimately have "lang # langs = (lang # before) @ la # after \<and> lower la = l
        \<and> (\<forall>b \<in> set (lang # before). \<forall>n'. (lower b, n') \<notin> set xs)" by simp
    with ih(1,2) show ?thesis by blast
  next
    case (Some q)
    obtain l' n1 where q: "q = (l', n1)" by fastforce
    with Some "2.prems" have "n1 = n" "l' = l" by auto
    with find_SomeD[OF Some] q have m: "(l, n) \<in> set xs" "l = lower lang" by auto
    moreover from find_first_least[OF "2.prems"(2) Some[unfolded q]] \<open>n1 = n\<close> m(2)
    have "\<forall>n'. (l, n') \<in> set xs \<longrightarrow> n \<le> n'" by auto
    moreover have "lang # langs = [] @ lang # langs \<and> lower lang = l
        \<and> (\<forall>b \<in> set ([] :: pystr list). \<forall>n'. (lower b, n') \<notin> set xs)" using m(2) by simp
    ultimately show ?thesis by blast
  qed
qed simp

section \<open>Properties\<close>

text \<open>
  A Vietnamese sidecar that is not the program's own is never translated over when the source
  is new: if neither the source nor the sidecar occurs in the history of records, the item is
  skipped as foreign.
\<close>

theorem foreign_sidecar_kept:
  assumes "record_all sqla_record es [] = Inr t" and "latest es (path_str p) = None"
    and "\<forall>e \<in> set es. le_output e \<noteq> Some (path_str (derive_vi_sidecar_path p))"
    and "fs_exists fs (path_str p)" and "fs_exists fs (path_str (derive_vi_sidecar_path p))"
  shows "is_eligible (sqla_check t) (sqla_check_by_output t) h fs p =
    Inr (False, foreign_reason (path_str (derive_vi_sidecar_path p)))"
proof (rule sqla.eligible_foreign)
  show "sqla_invar t" using sqla.record_all_total[OF sqla.invar_empty, of es] assms(1) by simp
  show "sqla_check t (path_str p) = Inr None" using sqla.check_history[OF assms(1)] assms(2) by simp
  show "le_output e \<noteq> Some (path_str (derive_vi_sidecar_path p))" if "sqla_check t q = Inr (Some e)" for q e
    using that sqla.check_history[OF assms(1), of q] assms(3) by (auto simp: latest_def dest!: find_SomeD)
qed (use assms in auto)

definition sample_path :: sub_path where
  "sample_path = \<lparr>sp_dir = lit ''/m'', sp_name = lit ''S.en.srt''\<rparr>"

definition sample_files :: files where
  "sample_files = \<lparr>fs_exists = (\<lambda>p. True), fs_read = (\<lambda>p. Inr [1, 2])\<rparr>"

theorem foreign_sidecar_kept_witness:
  "is_eligible (sqla_check []) (sqla_check_by_output []) (\<lambda>b. []) sample_files sample_path =
    Inr (False, foreign_reason (path_str (derive_vi_sidecar_path sample_path)))"
  by (rule foreign_sidecar_kept[of "[]"]) (simp_all add: latest_def sample_files_def)

text \<open>
  After a translation is recorded as done with the digest of its source, the item is skipped
  while the source is unchanged and the sidecar is there, and it is translated again as soon as the
  source changes; with either ledger.
\<close>

theorem done_until_source_changes:
  assumes "le_source e = path_str p" and "le_status e = Done" and "fs_exists fs (path_str p)"
    and "fs_exists fs (path_str (derive_vi_sidecar_path p))" and "fs_read fs (path_str p) = Inr bytes"
    and "record_all sqla_record es [] = Inr t" and "sqla_record e t = Inr t'"
    and "record_all json_record es [] = Inr j" and "json_record e j = Inr j'"
  shows "let r = (if le_hash e = h bytes then Inr (False, done_reason) else Inr (True, changed_reason)) in
    is_eligible (sqla_check t') (sqla_check_by_output t') h fs p = r
    \<and> is_eligible (json_check j') (json_check_by_output j') h fs p = r"
proof -
  have "sqla_invar t" "json_invar j"
    using sqla.record_all_total[OF sqla.invar_empty, of es] json.record_all_total[OF json.invar_empty, of es] assms
    by simp_all
  from sqla.eligible_done[OF this(1) assms(7,1,2,3,4,5), of h] json.eligible_done[OF this(2) assms(9,1,2,3,4,5), of h]
  show ?thesis by (simp add: Let_def)
qed

lemma sample_recorded:
  "sqla_record e [] = Inr [\<lparr>row_id = 1, row_entry = e\<rparr>]" "json_record e [] = Inr [(le_source e, e)]"
  by (simp_all add: sqla_record_def rows_with_source_def scalar_one_or_none_def next_row_id_def json_record_def)

theorem done_until_source_changes_witness:
  "is_eligible (sqla_check [\<lparr>row_id = 1, row_entry = sample_entry (path_str sample_path) Done [7]\<rparr>])
     (sqla_check_by_output [\<lparr>row_id = 1, row_entry = sample_entry (path_str sample_path) Done [7]\<rparr>])
     (\<lambda>b. [7]) sample_files sample_path = Inr (False, done_reason)"
  using done_until_source_changes[of "sample_entry (path_str sample_path) Done [7]" sample_path sample_files "[1, 2]"
      "[]" "[]" _ "[]" _ "\<lambda>b. [7]", OF _ _ _ _ _ _ sample_recorded(1) _ sample_recorded(2)]
  by (simp add: sample_entry_def sample_files_def Let_def)

text \<open>
  A third source for one sidecar makes the eligibility check raise with the database ledger:
  once two sources have been translated to the same sidecar, the lookup by output finds two rows.
\<close>

theorem third_source_raises:
  assumes "le_source a \<noteq> le_source b" and "le_source a \<noteq> path_str p" and "le_source b \<noteq> path_str p"
    and "le_output a = Some (path_str (derive_vi_sidecar_path p))"
    and "le_output b = Some (path_str (derive_vi_sidecar_path p))"
    and "fs_exists fs (path_str p)" and "fs_exists fs (path_str (derive_vi_sidecar_path p))"
  shows "\<exists>t. record_all sqla_record [a, b] [] = Inr t
    \<and> is_eligible (sqla_check t) (sqla_check_by_output t) h fs p = Inl MultipleResultsFound"
  unfolding one_source_row[OF assms(1)]
  using assms by (simp add: is_eligible_def sqla_check_def rows_with_source_def scalar_one_or_none_def
      sqla_check_by_output_def rows_with_output_def Let_def)

lemma sample_str: "path_str sample_path = lit ''/m/S.en.srt''"
  by (simp add: path_str_def sample_path_def lit_def)

lemma sample_derived: "path_str (derive_vi_sidecar_path sample_path) = lit ''/m/S.vi.srt''"
  by (simp add: derive_vi_sidecar_path_def path_str_def sample_path_def sidecar_eval)

theorem third_source_raises_witness:
  "\<exists>t. record_all sqla_record [sample_entry (lit ''/m/S.ko.srt'') Done [], sample_entry (lit ''/m/S.ja.srt'') Done []] [] = Inr t
    \<and> is_eligible (sqla_check t) (sqla_check_by_output t) (\<lambda>b. []) sample_files sample_path = Inl MultipleResultsFound"
  by (rule third_source_raises) (simp_all add: sample_derived sample_str sample_entry_def sample_files_def lit_def)

text \<open>
  Every scanned item is accounted for exactly once: it is eligible, or it is counted under one
  skip reason; the upgrade counter also counts the eligible items that are upgrades.
\<close>

theorem scan_counts:
  assumes "scan_for_eligible_items (is_eligible chk out h fs) prio ms [] no_stats = Inr (items, st)"
  shows "st_scanned st = length ms
    \<and> skipped st + length items = length ms + length (filter ei_upgraded items)"
  using scan_tally[OF assms] by (simp add: skipped_def no_stats_def)

theorem scan_counts_witness:
  "st_scanned (no_stats\<lparr>st_scanned := 1, st_no_source := 1\<rparr>) = 1
    \<and> skipped (no_stats\<lparr>st_scanned := 1, st_no_source := 1\<rparr>) + 0 = 1"
  using scan_counts[of "sqla_check []" "sqla_check_by_output []" "\<lambda>b. []" sample_files "[]"
      "[\<lparr>mi_dir = [], mi_stem = [], mi_listing = None, mi_original_language = None\<rparr>]" "[]"
      "no_stats\<lparr>st_scanned := 1, st_no_source := 1\<rparr>"]
  by (simp add: find_source_sub_def no_stats_def Let_def)

text \<open>
  The source sidecar chosen for an item is the alphabetically first file of the first language
  of the priority list that has one.
\<close>

theorem find_source_sub_best:
  assumes "find_source_sub m prio = Some (p, l)"
  shows "\<exists>names. mi_listing m = Some names \<and> sp_dir p = mi_dir m
    \<and> (l, sp_name p) \<in> set (sidecar_candidates names (mi_stem m))
    \<and> (\<forall>n. (l, n) \<in> set (sidecar_candidates names (mi_stem m)) \<longrightarrow> sp_name p \<le> n)
    \<and> (\<exists>before after lang. prio = before @ lang # after \<and> lower lang = l
        \<and> (\<forall>b \<in> set before. \<forall>n. (lower b, n) \<notin> set (sidecar_candidates names (mi_stem m))))"
proof -
  from assms obtain names n where m: "mi_listing m = Some names"
    and f: "first_priority prio (sidecar_candidates names (mi_stem m)) = Some (n, l)"
    and p: "p = \<lparr>sp_dir = mi_dir m, sp_name = n\<rparr>"
    by (auto simp: find_source_sub_def split: option.splits)
  from first_priority_Some[OF f sorted_candidates] m p show ?thesis by simp
qed

definition sample_item :: "pystr list \<Rightarrow> media_item" where
  "sample_item names = \<lparr>mi_dir = lit ''/m'', mi_stem = lit ''S'', mi_listing = Some names, mi_original_language = None\<rparr>"

lemmas sidecar_re_eval = LANG_SIDECAR_RE_def SOURCE_SUFFIXES_def any_char_def ci_letter_def ci_eq_def sre_lower_def
  rx_eval lit_def lower_def ascii_eval Let_def

lemma sample_candidates:
  "sidecar_candidates [lit ''S.vi.srt'', lit ''S.en.srt''] (lit ''S'') = [(lit ''en'', lit ''S.en.srt''), (lit ''vi'', lit ''S.vi.srt'')]"
proof -
  have "glob_source_sidecars [lit ''S.vi.srt'', lit ''S.en.srt''] (lit ''S'') = [lit ''S.en.srt'', lit ''S.vi.srt'']"
    by (simp add: glob_source_sidecars_def SOURCE_SUFFIXES_def glob_matches_def ends_with_def lit_def)
  moreover have "sidecar_lang (lit ''S'') (lit ''S.en.srt'') = Some (lit ''en'')"
    "sidecar_lang (lit ''S'') (lit ''S.vi.srt'') = Some (lit ''vi'')"
    by (simp_all add: sidecar_lang_def sidecar_re_eval)
  ultimately show ?thesis by (simp add: sidecar_candidates_def)
qed

lemma lower_en: "lower (lit ''en'') = lit ''en''"
  by (simp add: lower_def lit_def lower_char_ascii)

theorem find_source_sub_best_witness:
  "\<exists>names. mi_listing (sample_item [lit ''S.vi.srt'', lit ''S.en.srt'']) = Some names
    \<and> (lit ''en'', lit ''S.en.srt'') \<in> set (sidecar_candidates names (lit ''S''))"
  using find_source_sub_best[of "sample_item [lit ''S.vi.srt'', lit ''S.en.srt'']" "[lit ''en'']" sample_path "lit ''en''"]
  by (simp add: find_source_sub_def sample_item_def sample_candidates sample_path_def lower_en)

text \<open>
  The choice of a source can fall on the program's own output: with an English source, its
  Vietnamese sidecar next to it and an unknown original language, the language chosen is
  Vietnamese, because an unlisted language ranks above English.
\<close>

theorem own_output_selected:
  "select_source_for_item accessible (sample_item [lit ''S.vi.srt'', lit ''S.en.srt'']) [lit ''en''] True None None
     = Some (lit ''vi'')"
proof -
  have "filesystem_langs (sample_item [lit ''S.vi.srt'', lit ''S.en.srt'']) = [lit ''en'', lit ''vi'']"
    by (simp add: filesystem_langs_def sample_item_def sample_candidates)
  moreover have "rank_sources [lit ''en'', lit ''vi''] None = [lit ''vi'', lit ''en'']" by (simp add: rank_eval)
  ultimately show ?thesis
    by (simp add: select_source_for_item_def inventory_langs_def normalize_original_language_def sample_item_def)
qed

text \<open>
  The skip counters depend on the text of the path: a missing source in a directory whose name
  contains the word foreign is counted as a foreign sidecar.
\<close>

theorem missing_source_counted_foreign:
  "count_skip (no_source_reason (lit ''/m/Foreign/S.en.srt'')) no_stats = no_stats\<lparr>st_foreign_vi := 1\<rparr>"
  by (simp add: count_skip_def no_source_reason_def no_stats_def contains_def lower_def lit_def lower_char_ascii)

end
