(* ===== verification/Run_Pipeline.thy ===== *)
theory Run_Pipeline
  imports File_Guarantees Discovery
begin

text \<open>
  One run of the command line over everything there is to translate, \<open>process_one_item\<close> and
  \<open>_run_pipeline_steps\<close> of \<open>trezarr/cli.py\<close>: the choice of the source, the translation of the
  file, the guard on the written path, the permissions, and the loop over the eligible items with
  its counters and its exit code. The state holds the ledger, the file at every destination,
  the quarantine artifacts and the Bible; what the services and the file system answer is a
  record of arguments.
\<close>

section \<open>The state of a run\<close>

record 's station =
  sn_ledger :: 's
  sn_files :: "pystr \<Rightarrow> dest_file"
  sn_artifacts :: "pystr \<Rightarrow> (pystr \<times> nat list) option"
  sn_bible :: bible_db

text \<open>The translation of a file sees its own destination and artifact.\<close>

definition at_file :: "file_job \<Rightarrow> 's station \<Rightarrow> 's world" where
  "at_file j s = \<lparr>w_ledger = sn_ledger s, w_dest = sn_files s (fj_dest j), w_artifact = sn_artifacts s (fj_artifact j),
     w_bible = sn_bible s\<rparr>"

definition put_file :: "file_job \<Rightarrow> 's world \<Rightarrow> 's station \<Rightarrow> 's station" where
  "put_file j w s = \<lparr>sn_ledger = w_ledger w, sn_files = (sn_files s)(fj_dest j := w_dest w),
     sn_artifacts = (sn_artifacts s)(fj_artifact j := w_artifact w), sn_bible = w_bible w\<rparr>"

record run_settings =
  rs_global :: global_settings
  rs_file :: file_settings
  rs_bazarr_enabled :: bool
  rs_use_inventory :: bool
  rs_sonarr_enabled :: bool
  rs_radarr_enabled :: bool
  rs_media_roots :: "path list"

text \<open>What is read from outside: the bytes and the subtitle at a path, the rows of the series, Bazarr's
  inventory, the model, which depends on its name and on the file, and the errors of writing.\<close>

record 'e host =
  ho_bytes :: "pystr \<Rightarrow> 'e + nat list"
  ho_hash :: "nat list \<Rightarrow> pystr"
  ho_subtitle :: "pystr \<Rightarrow> pystr + sub_doc"
  ho_now :: pystr
  ho_artifact :: "pystr \<Rightarrow> pystr"
  ho_write_error :: "pystr \<Rightarrow> 'e option"
  ho_chmod_error :: "pystr \<Rightarrow> pystr option"
  ho_session :: bool
  ho_info :: "media_item \<Rightarrow> media_info"
  ho_overrides :: "pystr \<Rightarrow> int \<Rightarrow> series_overrides option"
  ho_inventory :: "int \<Rightarrow> (pystr \<times> pystr) list option"
  ho_accessible :: "pystr \<Rightarrow> bool"
  ho_resolve :: "path \<Rightarrow> path"
  ho_guard_text :: "pystr \<Rightarrow> pystr"
  ho_around :: "pystr \<Rightarrow> pystr \<Rightarrow> 'e surroundings"

section \<open>One item\<close>

definition item_overrides :: "'e host \<Rightarrow> media_item \<Rightarrow> series_overrides option" where
  "item_overrides h m = (let md = ho_info h m in
     if ho_session h \<and> md_kind md \<noteq> [] then ho_overrides h (md_kind md) (md_series_id md) else None)"

definition item_inventory :: "run_settings \<Rightarrow> 'e host \<Rightarrow> media_item \<Rightarrow> (pystr \<times> pystr) list option" where
  "item_inventory rs h m = (let md = ho_info h m in
     if rs_bazarr_enabled rs \<and> rs_use_inventory rs \<and> md_kind md = lit ''sonarr'' \<and> md_series_id md \<noteq> 0
     then ho_inventory h (md_series_id md) else None)"

definition chosen_source :: "run_settings \<Rightarrow> 'e host \<Rightarrow> eligible_item \<Rightarrow> sub_path" where
  "chosen_source rs h ei =
     (let m = ei_media ei; g = rs_global rs;
          priority = fst (resolve_effective_settings (item_overrides h m) g);
          override = (if priority \<noteq> source_lang_priority g then Some priority else None)
      in case select_source_for_item (ho_accessible h) m (source_lang_priority g) (rs_use_inventory rs)
             (item_inventory rs h m) override of
           None \<Rightarrow> ei_path ei
         | Some best \<Rightarrow> (case find_source_sub m [best] of None \<Rightarrow> ei_path ei | Some (p, l) \<Rightarrow> p))"

definition effective_model :: "run_settings \<Rightarrow> 'e host \<Rightarrow> media_item \<Rightarrow> pystr" where
  "effective_model rs h m = snd (snd (resolve_effective_settings (item_overrides h m) (rs_global rs)))"

definition job_of :: "'e host \<Rightarrow> media_item \<Rightarrow> sub_path \<Rightarrow> nat list \<Rightarrow> file_job" where
  "job_of h m p bytes =
     \<lparr>fj_path = path_str p, fj_dest = path_str (derive_vi_sidecar_path p), fj_stem = path_stem (sp_name p),
      fj_hash = ho_hash h bytes, fj_now = ho_now h, fj_artifact = ho_artifact h (path_str p),
      fj_media = (if ho_session h then Some (ho_info h m) else None)\<rparr>"

text \<open>\<open>translate_file\<close> on a path: its bytes are read first.\<close>

definition translate_path ::
  "run_settings \<Rightarrow> 'e host \<Rightarrow> 's ledger_ops \<Rightarrow> media_item \<Rightarrow> sub_path \<Rightarrow> 's station \<Rightarrow> 'e file_result \<times> 's station" where
  "translate_path rs h lo m p s =
     (case ho_bytes h (path_str p) of
        Inl e \<Rightarrow> (FileRaised [External e], s)
      | Inr bytes \<Rightarrow>
          (let j = job_of h m p bytes;
               (r, w) = translate_file (rs_file rs) (ho_around h (effective_model rs h m) (path_str p)) lo j
                 (ho_subtitle h (path_str p)) (ho_write_error h (fj_dest j)) (at_file j s)
           in (r, put_file j w s)))"

text \<open>The guard and the permissions, after the file has been written.\<close>

definition item_outcome :: "run_settings \<Rightarrow> 'e host \<Rightarrow> 'e file_result \<Rightarrow> 'e failure list + item_result" where
  "item_outcome rs h r = (case r of
     FileRaised es \<Rightarrow> Inl es
   | FileSkipped \<Rightarrow> Inr \<lparr>ir_status = ItemSkipped, ir_reason = None, ir_error = None\<rparr>
   | FileQuarantined reason \<Rightarrow> Inr \<lparr>ir_status = ItemQuarantined, ir_reason = Some reason, ir_error = None\<rparr>
   | FileDone out \<Rightarrow>
       (if rs_media_roots rs \<noteq> []
           \<and> assert_within_media_roots (ho_resolve h) (path_of out) (rs_media_roots rs) = Inl ValueError
        then Inr \<lparr>ir_status = ItemError, ir_reason = None, ir_error = Some (ho_guard_text h out)\<rparr>
        else case ho_chmod_error h out of
          None \<Rightarrow> Inr \<lparr>ir_status = ItemDone, ir_reason = None, ir_error = None\<rparr>
        | Some exc \<Rightarrow> Inr \<lparr>ir_status = ItemQuarantined, ir_reason = Some exc, ir_error = Some exc\<rparr>))"

definition process_one_item ::
  "run_settings \<Rightarrow> 'e host \<Rightarrow> 's ledger_ops \<Rightarrow> eligible_item \<Rightarrow> 's station \<Rightarrow> ('e failure list + item_result) \<times> 's station" where
  "process_one_item rs h lo ei s =
     (let (r, s') = translate_path rs h lo (ei_media ei) (chosen_source rs h ei) s in (item_outcome rs h r, s'))"

section \<open>The run\<close>

record run_counts =
  rc_done :: nat
  rc_skipped :: nat
  rc_quarantined :: nat
  rc_failed :: nat

definition no_counts :: run_counts where
  "no_counts = \<lparr>rc_done = 0, rc_skipped = 0, rc_quarantined = 0, rc_failed = 0\<rparr>"

definition count_item :: "'e failure list + item_result \<Rightarrow> run_counts \<Rightarrow> run_counts" where
  "count_item r c = (case r of
     Inl es \<Rightarrow> c\<lparr>rc_failed := rc_failed c + 1\<rparr>
   | Inr res \<Rightarrow> (case ir_status res of
       ItemDone \<Rightarrow> c\<lparr>rc_done := rc_done c + 1\<rparr>
     | ItemSkipped \<Rightarrow> c\<lparr>rc_skipped := rc_skipped c + 1\<rparr>
     | ItemQuarantined \<Rightarrow> c\<lparr>rc_quarantined := rc_quarantined c + 1\<rparr>
     | ItemError \<Rightarrow> c\<lparr>rc_failed := rc_failed c + 1\<rparr>))"

fun process_all ::
  "run_settings \<Rightarrow> 'e host \<Rightarrow> 's ledger_ops \<Rightarrow> eligible_item list \<Rightarrow> run_counts \<Rightarrow> 's station \<Rightarrow> run_counts \<times> 's station" where
  "process_all rs h lo [] c s = (c, s)"
| "process_all rs h lo (ei # eis) c s =
     (let (r, s') = process_one_item rs h lo ei s in process_all rs h lo eis (count_item r c) s')"

text \<open>Discovery gives the items of a service or the text of its error; a service that is off gives
  no items. The scan sees the files as they are when the run starts.\<close>

definition items_of :: "pystr + media_item list \<Rightarrow> media_item list" where
  "items_of d = (case d of Inl e \<Rightarrow> [] | Inr ms \<Rightarrow> ms)"

definition errors_of :: "pystr \<Rightarrow> pystr + media_item list \<Rightarrow> pystr list" where
  "errors_of service d = (case d of Inl e \<Rightarrow> [service @ lit '': '' @ e] | Inr ms \<Rightarrow> [])"

definition all_arr_failed :: "run_settings \<Rightarrow> pystr list \<Rightarrow> bool" where
  "all_arr_failed rs failures \<longleftrightarrow>
     (let enabled = (if rs_sonarr_enabled rs then 1 else 0) + (if rs_radarr_enabled rs then 1 else 0)
      in enabled > (0::nat) \<and> length failures = enabled)"

record run_report =
  rr_discovered :: nat
  rr_eligible :: "eligible_item list"
  rr_scan :: scan_stats
  rr_scan_skipped :: nat
  rr_counts :: run_counts
  rr_failures :: "pystr list"
  rr_exit :: nat

definition run_pipeline_steps ::
  "run_settings \<Rightarrow> 'e host \<Rightarrow> 's ledger_ops \<Rightarrow> files \<Rightarrow> pystr + media_item list \<Rightarrow> pystr + media_item list \<Rightarrow> 's station
     \<Rightarrow> py_error + run_report \<times> 's station" where
  "run_pipeline_steps rs h lo fs sonarr radarr s =
     (let items = items_of sonarr @ items_of radarr; failures = errors_of (lit ''sonarr'') sonarr @ errors_of (lit ''radarr'') radarr in
      case scan_for_eligible_items
          (is_eligible (lo_check lo (sn_ledger s)) (lo_by_output lo (sn_ledger s)) (ho_hash h) fs)
          (source_lang_priority (rs_global rs)) items [] no_stats of
        Inl e \<Rightarrow> Inl e
      | Inr (eligible, stats) \<Rightarrow>
          (let (c, s') = process_all rs h lo eligible no_counts s
           in Inr (\<lparr>rr_discovered = length items, rr_eligible = eligible, rr_scan = stats,
                rr_scan_skipped = st_no_source stats + st_foreign_vi stats + st_already_done stats + st_error stats, rr_counts = c,
                rr_failures = failures,
                rr_exit = (if rc_failed c > 0 \<or> rc_quarantined c > 0 \<or> all_arr_failed rs failures then 1 else 0)\<rparr>, s')))"


section \<open>What a translation leaves alone\<close>

lemma put_at [simp]: "put_file j (at_file j s) s = s"
  by (simp add: put_file_def at_file_def)

lemma put_file_simps [simp]:
  "sn_ledger (put_file j w s) = w_ledger w" "sn_files (put_file j w s) d = (if d = fj_dest j then w_dest w else sn_files s d)"
  "sn_bible (put_file j w s) = w_bible w"
  by (simp_all add: put_file_def)

lemma at_file_simps [simp]:
  "w_ledger (at_file j s) = sn_ledger s" "w_dest (at_file j s) = sn_files s (fj_dest j)" "w_bible (at_file j s) = sn_bible s"
  by (simp_all add: at_file_def)

lemma at_put [simp]: "at_file j (put_file j w s) = w"
  by (simp add: put_file_def at_file_def)

lemma job_of_simps [simp]:
  "fj_path (job_of h m p b) = path_str p" "fj_dest (job_of h m p b) = path_str (derive_vi_sidecar_path p)"
  "fj_hash (job_of h m p b) = ho_hash h b"
  by (simp_all add: job_of_def)

text \<open>An item is settled where its translation is skipped and changes nothing.\<close>

definition settled_at :: "run_settings \<Rightarrow> 'e host \<Rightarrow> 's ledger_ops \<Rightarrow> eligible_item \<Rightarrow> 's station \<Rightarrow> bool" where
  "settled_at rs h lo ei s \<longleftrightarrow> translate_path rs h lo (ei_media ei) (chosen_source rs h ei) s = (FileSkipped, s)"

abbreviation item_dest :: "run_settings \<Rightarrow> 'e host \<Rightarrow> eligible_item \<Rightarrow> pystr" where
  "item_dest rs h ei \<equiv> path_str (derive_vi_sidecar_path (chosen_source rs h ei))"

lemma skipped_run: "translate_file fs su lo j rr we w = (FileSkipped, w') \<longleftrightarrow> preflight lo j w = Inr False \<and> w' = w"
  by (auto simp: translate_file_def run_file_eq put_record_def quarantine_file_def
      split: sum.splits bool.splits prod.splits doc_result.splits option.splits if_splits)

lemma not_wanted: "preflight lo j w = Inr False \<Longrightarrow> translate_file fs su lo j rr we w = (FileSkipped, w)"
  by (simp add: skipped_run)

lemma settled_iff: "settled_at rs h lo ei s \<longleftrightarrow>
  (\<exists>b. ho_bytes h (path_str (chosen_source rs h ei)) = Inr b
     \<and> preflight lo (job_of h (ei_media ei) (chosen_source rs h ei) b)
         (at_file (job_of h (ei_media ei) (chosen_source rs h ei) b) s) = Inr False)"
  (is "_ \<longleftrightarrow> (\<exists>b. ?bytes = Inr b \<and> ?pre b)")
proof (cases ?bytes)
  case (Inr b)
  let ?j = "job_of h (ei_media ei) (chosen_source rs h ei) b"
  obtain r w where w: "translate_file (rs_file rs) (ho_around h (effective_model rs h (ei_media ei)) (path_str (chosen_source rs h ei)))
      lo ?j (ho_subtitle h (path_str (chosen_source rs h ei))) (ho_write_error h (fj_dest ?j)) (at_file ?j s) = (r, w)" by fastforce
  then have "settled_at rs h lo ei s \<longleftrightarrow> r = FileSkipped \<and> put_file ?j w s = s"
    using Inr by (simp add: settled_at_def translate_path_def Let_def)
  also have "\<dots> \<longleftrightarrow> ?pre b"
  proof
    assume "r = FileSkipped \<and> put_file ?j w s = s"
    with w have "translate_file (rs_file rs) (ho_around h (effective_model rs h (ei_media ei)) (path_str (chosen_source rs h ei)))
        lo ?j (ho_subtitle h (path_str (chosen_source rs h ei))) (ho_write_error h (fj_dest ?j)) (at_file ?j s) = (FileSkipped, w)" by simp
    then show "?pre b" unfolding skipped_run by (rule conjunct1)
  next
    assume "?pre b"
    with w have "(r, w) = (FileSkipped, at_file ?j s)" by (simp add: not_wanted)
    then show "r = FileSkipped \<and> put_file ?j w s = s" by simp
  qed
  finally show ?thesis using Inr by simp
qed (simp add: settled_at_def translate_path_def)

lemma settled_item: "settled_at rs h lo ei s \<Longrightarrow>
  process_one_item rs h lo ei s = (Inr \<lparr>ir_status = ItemSkipped, ir_reason = None, ir_error = None\<rparr>, s)"
  by (simp add: settled_at_def process_one_item_def item_outcome_def)

lemma settled_all:
  assumes "\<forall>ei \<in> set eis. settled_at rs h lo ei s"
  shows "process_all rs h lo eis c s = (c\<lparr>rc_skipped := rc_skipped c + length eis\<rparr>, s)"
  using assms by (induction eis arbitrary: c) (simp_all add: settled_item count_item_def)

text \<open>The counters.\<close>

definition total :: "run_counts \<Rightarrow> nat" where
  "total c = rc_done c + rc_skipped c + rc_quarantined c + rc_failed c"

definition troubles :: "run_counts \<Rightarrow> nat" where
  "troubles c = rc_quarantined c + rc_failed c"

lemma count_item_total: "total (count_item r c) = total c + 1"
  by (simp add: total_def count_item_def split: sum.split item_status.split)

lemma count_item_troubles: "troubles (count_item r c) = (case r of
    Inr res \<Rightarrow> (if ir_status res \<in> {ItemDone, ItemSkipped} then troubles c else troubles c + 1) | Inl es \<Rightarrow> troubles c + 1)"
  by (simp add: troubles_def count_item_def split: sum.split item_status.split)

lemma process_all_counts:
  "process_all rs h lo eis c s = (c', s') \<Longrightarrow> total c' = total c + length eis \<and> troubles c \<le> troubles c'"
proof (induction eis arbitrary: c s)
  case (Cons ei eis)
  obtain r s1 where r: "process_one_item rs h lo ei s = (r, s1)" by fastforce
  with Cons.prems have "process_all rs h lo eis (count_item r c) s1 = (c', s')" by simp
  from Cons.IH[OF this] count_item_total[of r c] count_item_troubles[of r c] show ?case
    by (auto split: sum.splits if_splits)
qed simp

lemma clean_outcome:
  assumes "process_one_item rs h lo ei s = (r, s')" and "troubles (count_item r c) = troubles c"
  shows "\<exists>fr. translate_path rs h lo (ei_media ei) (chosen_source rs h ei) s = (fr, s') \<and> (fr = FileSkipped \<or> (\<exists>d. fr = FileDone d))"
  using assms unfolding count_item_troubles
  by (auto simp: process_one_item_def item_outcome_def split: prod.splits file_result.splits if_splits sum.splits option.splits)

context ledger_protocol
begin

abbreviation (input) ops :: "'s ledger_ops" where
  "ops \<equiv> \<lparr>lo_check = check, lo_by_output = by_output, lo_record = record_entry\<rparr>"

lemma translated_frame:
  assumes "invar (sn_ledger s)" and "translate_path rs h ops m p s = (r, s')"
  shows "invar (sn_ledger s')"
    and "q \<noteq> path_str p \<Longrightarrow> check (sn_ledger s') q = check (sn_ledger s) q"
    and "d \<noteq> path_str (derive_vi_sidecar_path p) \<Longrightarrow> sn_files s' d = sn_files s d"
    and "check (sn_ledger s') (path_str p) = Inr (Some e) \<Longrightarrow>
      check (sn_ledger s) (path_str p) = Inr (Some e) \<or> le_output e \<in> {None, Some (path_str (derive_vi_sidecar_path p))}"
proof -
  have "invar (sn_ledger s') \<and> (q \<noteq> path_str p \<longrightarrow> check (sn_ledger s') q = check (sn_ledger s) q)
    \<and> (d \<noteq> path_str (derive_vi_sidecar_path p) \<longrightarrow> sn_files s' d = sn_files s d)
    \<and> (check (sn_ledger s') (path_str p) = Inr (Some e) \<longrightarrow> check (sn_ledger s) (path_str p) = Inr (Some e)
        \<or> le_output e \<in> {None, Some (path_str (derive_vi_sidecar_path p))})"
  proof (cases "ho_bytes h (path_str p)")
    case (Inr b)
    let ?j = "job_of h m p b"
    obtain w where w: "translate_file (rs_file rs) (ho_around h (effective_model rs h m) (path_str p)) ops ?j
        (ho_subtitle h (path_str p)) (ho_write_error h (fj_dest ?j)) (at_file ?j s) = (r, w)" and s': "s' = put_file ?j w s"
      using assms(2) Inr by (auto simp: translate_path_def Let_def split: prod.splits)
    have "invar (w_ledger (at_file ?j s))" using assms(1) by simp
    from translate_file_recorded[OF this w] have
      f: "invar (w_ledger w)" "\<forall>p. p \<noteq> fj_path ?j \<longrightarrow> check (w_ledger w) p = check (w_ledger (at_file ?j s)) p"
        "outcome_recorded check ?j (at_file ?j s) r w" by simp_all
    have "check (w_ledger w) (fj_path ?j) = Inr (Some e) \<Longrightarrow> check (sn_ledger s) (path_str p) = Inr (Some e)
        \<or> le_output e \<in> {None, Some (fj_dest ?j)}"
      using f(3) by (cases r) (auto simp: outcome_recorded_def in_progress_entry_def quarantine_entry_def done_entry_def entry_of_def)
    with f(1,2) s' show ?thesis by simp
  qed (use assms in \<open>auto simp: translate_path_def\<close>)
  then show "invar (sn_ledger s')" "q \<noteq> path_str p \<Longrightarrow> check (sn_ledger s') q = check (sn_ledger s) q"
    "d \<noteq> path_str (derive_vi_sidecar_path p) \<Longrightarrow> sn_files s' d = sn_files s d"
    "check (sn_ledger s') (path_str p) = Inr (Some e) \<Longrightarrow>
      check (sn_ledger s) (path_str p) = Inr (Some e) \<or> le_output e \<in> {None, Some (path_str (derive_vi_sidecar_path p))}"
    by blast+
qed

lemma output_elsewhere:
  assumes "invar (sn_ledger s)" and "translate_path rs h ops m p s = (r, s')"
    and "by_output (sn_ledger s) d = Inr None" and "d \<noteq> path_str (derive_vi_sidecar_path p)"
  shows "by_output (sn_ledger s') d = Inr None"
proof (rule by_output_absent[OF translated_frame(1)[OF assms(1,2)]])
  fix x e assume x: "check (sn_ledger s') x = Inr (Some e)"
  show "le_output e \<noteq> Some d"
    using x translated_frame(2)[OF assms(1,2), of x] translated_frame(4)[OF assms(1,2), of e]
      by_output_none[OF assms(1,3), of x e] assms(4) by (cases "x = path_str p") auto
qed

text \<open>Translating one item does not unsettle another that has a sidecar of its own.\<close>

lemma settled_elsewhere:
  assumes "invar (sn_ledger s)" and "settled_at rs h ops ei s" and "translate_path rs h ops m p s = (r, s')"
    and "path_str (derive_vi_sidecar_path p) \<noteq> item_dest rs h ei"
    and "path_str p \<noteq> path_str (chosen_source rs h ei)"
  shows "settled_at rs h ops ei s'"
proof -
  let ?q = "chosen_source rs h ei"
  from assms(2) obtain b where b: "ho_bytes h (path_str ?q) = Inr b"
    "preflight ops (job_of h (ei_media ei) ?q b) (at_file (job_of h (ei_media ei) ?q b) s) = Inr False"
    unfolding settled_iff by blast
  note frame = translated_frame[OF assms(1,3)]
  have dest: "sn_files s' (item_dest rs h ei) = sn_files s (item_dest rs h ei)" using frame(3) assms(4) by simp
  have chk: "check (sn_ledger s') (path_str ?q) = check (sn_ledger s) (path_str ?q)" using frame(2) assms(5) by simp
  have out: "by_output (sn_ledger s') (item_dest rs h ei) = Inr None"
    if "by_output (sn_ledger s) (item_dest rs h ei) = Inr None"
    using output_elsewhere[OF assms(1,3)] that assms(4) by simp
  from b(2) chk dest out show ?thesis unfolding settled_iff
    by (intro exI[of _ b] conjI b(1)) (auto simp: preflight_def split: sum.splits option.splits if_splits)
qed

lemma settles_itself:
  assumes "invar (sn_ledger s)" and "translate_path rs h ops (ei_media ei) (chosen_source rs h ei) s = (r, s')"
    and "r = FileSkipped \<or> (\<exists>d. r = FileDone d)"
  shows "settled_at rs h ops ei s'"
proof -
  let ?q = "chosen_source rs h ei"
  obtain b where b: "ho_bytes h (path_str ?q) = Inr b"
    using assms(2,3) by (auto simp: translate_path_def split: sum.splits)
  let ?j = "job_of h (ei_media ei) ?q b"
  obtain w where w: "translate_file (rs_file rs) (ho_around h (effective_model rs h (ei_media ei)) (path_str ?q)) ops ?j
      (ho_subtitle h (path_str ?q)) (ho_write_error h (fj_dest ?j)) (at_file ?j s) = (r, w)" and s': "s' = put_file ?j w s"
    using assms(2) b by (auto simp: translate_path_def Let_def split: prod.splits)
  have "preflight ops ?j w = Inr False"
  proof (cases "r = FileSkipped")
    case True
    with w skipped_run show ?thesis by metis
  next
    case False
    with assms(3) w obtain d where "translate_file (rs_file rs) (ho_around h (effective_model rs h (ei_media ei)) (path_str ?q)) ops ?j
      (ho_subtitle h (path_str ?q)) (ho_write_error h (fj_dest ?j)) (at_file ?j s) = (FileDone d, w)" by blast
    from finished_file_skips[OF _ this refl refl] assms(1) skipped_run show ?thesis by (metis at_file_simps(1))
  qed
  with b s' show ?thesis unfolding settled_iff by (intro exI[of _ b]) simp
qed

lemma run_settles:
  assumes "invar (sn_ledger s)" and "process_all rs h ops eis c s = (c', s')"
    and "distinct (map (\<lambda>ei. path_str (chosen_source rs h ei)) eis)" and "distinct (map (item_dest rs h) eis)"
  shows "invar (sn_ledger s')"
    and "\<lbrakk>settled_at rs h ops x s; \<forall>ei \<in> set eis. path_str (chosen_source rs h ei) \<noteq> path_str (chosen_source rs h x)
            \<and> item_dest rs h ei \<noteq> item_dest rs h x\<rbrakk> \<Longrightarrow> settled_at rs h ops x s'"
    and "troubles c' = troubles c \<Longrightarrow> \<forall>ei \<in> set eis. settled_at rs h ops ei s'"
proof -
  have "invar (sn_ledger s')
    \<and> (\<forall>x. settled_at rs h ops x s \<and> (\<forall>ei \<in> set eis. path_str (chosen_source rs h ei) \<noteq> path_str (chosen_source rs h x)
            \<and> item_dest rs h ei \<noteq> item_dest rs h x) \<longrightarrow> settled_at rs h ops x s')
    \<and> (troubles c' = troubles c \<longrightarrow> (\<forall>ei \<in> set eis. settled_at rs h ops ei s'))"
    using assms
  proof (induction eis arbitrary: c s)
    case (Cons ei eis)
    obtain r s1 where r: "process_one_item rs h ops ei s = (r, s1)" by fastforce
    with Cons.prems(2) have rest: "process_all rs h ops eis (count_item r c) s1 = (c', s')" by simp
    obtain fr where fr: "translate_path rs h ops (ei_media ei) (chosen_source rs h ei) s = (fr, s1)"
      using r by (auto simp: process_one_item_def split: prod.splits)
    have inv: "invar (sn_ledger s1)" by (rule translated_frame(1)[OF Cons.prems(1) fr])
    have dist: "distinct (map (\<lambda>ei. path_str (chosen_source rs h ei)) eis)" "distinct (map (item_dest rs h) eis)"
      using Cons.prems(3,4) by simp_all
    note IH = Cons.IH[OF inv rest dist]
    have others: "settled_at rs h ops x s'" if "settled_at rs h ops x s" "\<forall>e \<in> set (ei # eis).
        path_str (chosen_source rs h e) \<noteq> path_str (chosen_source rs h x) \<and> item_dest rs h e \<noteq> item_dest rs h x" for x
      using settled_elsewhere[OF Cons.prems(1) that(1) fr] that(2) IH by auto
    have "\<forall>e \<in> set (ei # eis). settled_at rs h ops e s'" if t: "troubles c' = troubles c"
    proof -
      have "troubles (count_item r c) = troubles c"
        using t process_all_counts[OF rest] count_item_troubles[of r c] by (auto split: sum.splits if_splits)
      with clean_outcome[OF r] fr have "fr = FileSkipped \<or> (\<exists>d. fr = FileDone d)" by (metis prod.inject)
      from settles_itself[OF Cons.prems(1) fr this] have "settled_at rs h ops ei s1" .
      moreover have "\<forall>e \<in> set eis. path_str (chosen_source rs h e) \<noteq> path_str (chosen_source rs h ei)
          \<and> item_dest rs h e \<noteq> item_dest rs h ei"
        using Cons.prems(3,4) by (auto simp: image_iff)
      ultimately have "settled_at rs h ops ei s'" using IH by blast
      moreover have "\<forall>e \<in> set eis. settled_at rs h ops e s'"
        using IH t \<open>troubles (count_item r c) = troubles c\<close> by simp
      ultimately show ?thesis by simp
    qed
    with IH others show ?case by blast
  qed simp
  then show "invar (sn_ledger s')"
    "\<lbrakk>settled_at rs h ops x s; \<forall>ei \<in> set eis. path_str (chosen_source rs h ei) \<noteq> path_str (chosen_source rs h x)
            \<and> item_dest rs h ei \<noteq> item_dest rs h x\<rbrakk> \<Longrightarrow> settled_at rs h ops x s'"
    "troubles c' = troubles c \<Longrightarrow> \<forall>ei \<in> set eis. settled_at rs h ops ei s'"
    by blast+
qed

end

section \<open>What a run writes\<close>

lemma path_writes:
  assumes "translate_path rs h lo m p s = (r, s')" and "sn_files s' d \<noteq> sn_files s d"
  shows "d = path_str (derive_vi_sidecar_path p) \<and> (\<exists>doc src bible. sn_files s' d = Sidecar doc
    \<and> ho_subtitle h (path_str p) = Inr src \<and> validate_subdoc (fs_gate (rs_file rs)) (allowlist_of bible) doc src = None
    \<and> retexts (doc_lines src) (doc_lines doc))"
proof (cases "ho_bytes h (path_str p)")
  case (Inr b)
  let ?j = "job_of h m p b" and ?su = "ho_around h (effective_model rs h m) (path_str p)"
  obtain w where w: "translate_file (rs_file rs) ?su lo ?j (ho_subtitle h (path_str p)) (ho_write_error h (fj_dest ?j)) (at_file ?j s) = (r, w)"
    and s': "s' = put_file ?j w s"
    using assms(1) Inr by (auto simp: translate_path_def Let_def split: prod.splits)
  from s' assms(2) have d: "d = fj_dest ?j" "w_dest w \<noteq> w_dest (at_file ?j s)" by (auto split: if_splits)
  show ?thesis
  proof (cases "\<exists>l. run_file (rs_file rs) ?su lo ?j (ho_subtitle h (path_str p)) (ho_write_error h (fj_dest ?j)) ((at_file ?j s)\<lparr>w_ledger := l\<rparr>) = (r, w)")
    case True
    then obtain l dr db where run: "run_file (rs_file rs) ?su lo ?j (ho_subtitle h (path_str p)) (ho_write_error h (fj_dest ?j)) ((at_file ?j s)\<lparr>w_ledger := l\<rparr>) = (r, w)"
      and f: "file_doc (rs_file rs) ?su ?j (ho_subtitle h (path_str p)) (sn_bible s) = (dr, db)"
      by (metis surj_pair)
    from run f d(2) obtain doc where dr: "dr = DocTranslated doc" and "w_dest w = Sidecar doc"
      by (cases dr) (auto simp: run_file_eq put_record_def quarantine_file_def split: option.splits sum.splits if_splits)
    with file_doc_translated[OF f[unfolded dr]] d(1) s' show ?thesis by auto
  qed (use w d(2) in \<open>auto simp: translate_file_def split: sum.splits bool.splits\<close>)
qed (use assms in \<open>simp add: translate_path_def\<close>)

definition own_translation :: "run_settings \<Rightarrow> 'e host \<Rightarrow> eligible_item list \<Rightarrow> pystr \<Rightarrow> dest_file \<Rightarrow> bool" where
  "own_translation rs h eis d f \<longleftrightarrow> (\<exists>ei \<in> set eis. d = item_dest rs h ei \<and> (\<exists>doc src bible. f = Sidecar doc
    \<and> ho_subtitle h (path_str (chosen_source rs h ei)) = Inr src
    \<and> validate_subdoc (fs_gate (rs_file rs)) (allowlist_of bible) doc src = None
    \<and> retexts (doc_lines src) (doc_lines doc)))"

lemma run_writes:
  assumes "process_all rs h lo eis c s = (c', s')"
  shows "sn_files s' d = sn_files s d \<or> own_translation rs h eis d (sn_files s' d)"
  using assms
proof (induction eis arbitrary: c s)
  case (Cons ei eis)
  obtain r s1 where r: "process_one_item rs h lo ei s = (r, s1)" by fastforce
  with Cons.prems have rest: "process_all rs h lo eis (count_item r c) s1 = (c', s')" by simp
  obtain fr where fr: "translate_path rs h lo (ei_media ei) (chosen_source rs h ei) s = (fr, s1)"
    using r by (auto simp: process_one_item_def split: prod.splits)
  from Cons.IH[OF rest] show ?case
  proof
    assume same: "sn_files s' d = sn_files s1 d"
    show ?thesis
    proof (cases "sn_files s1 d = sn_files s d")
      case False
      from path_writes[OF fr this] same show ?thesis unfolding own_translation_def by auto
    qed (use same in simp)
  qed (auto simp: own_translation_def)
qed simp

context ledger_protocol
begin

text \<open>A sidecar of somebody else stands as long as neither it nor the sources that would give it are in the ledger.\<close>

definition foreign_at :: "run_settings \<Rightarrow> 'e host \<Rightarrow> eligible_item list \<Rightarrow> pystr \<Rightarrow> 's station \<Rightarrow> bool" where
  "foreign_at rs h eis d s \<longleftrightarrow> invar (sn_ledger s) \<and> sn_files s d = ForeignFile \<and> by_output (sn_ledger s) d = Inr None
     \<and> (\<forall>ei \<in> set eis. item_dest rs h ei = d \<longrightarrow> check (sn_ledger s) (path_str (chosen_source rs h ei)) = Inr None)"

lemma foreign_stays:
  assumes "foreign_at rs h eis d s" and "process_all rs h ops eis c s = (c', s')"
    and "distinct (map (\<lambda>ei. path_str (chosen_source rs h ei)) eis)"
  shows "sn_files s' d = ForeignFile"
  using assms
proof (induction eis arbitrary: c s)
  case (Cons ei eis)
  let ?q = "chosen_source rs h ei"
  obtain r s1 where r: "process_one_item rs h ops ei s = (r, s1)" by fastforce
  with Cons.prems have rest: "process_all rs h ops eis (count_item r c) s1 = (c', s')" by simp
  obtain fr where fr: "translate_path rs h ops (ei_media ei) ?q s = (fr, s1)"
    using r by (auto simp: process_one_item_def split: prod.splits)
  from Cons.prems(1) have at: "invar (sn_ledger s)" "sn_files s d = ForeignFile" "by_output (sn_ledger s) d = Inr None"
    "\<forall>x \<in> set (ei # eis). item_dest rs h x = d \<longrightarrow> check (sn_ledger s) (path_str (chosen_source rs h x)) = Inr None"
    unfolding foreign_at_def by blast+
  have "foreign_at rs h eis d s1"
  proof (cases "item_dest rs h ei = d")
    case True
    have "s1 = s"
    proof (cases "ho_bytes h (path_str ?q)")
      case (Inr b)
      have "settled_at rs h ops ei s" unfolding settled_iff
        using True at Inr by (intro exI[of _ b]) (simp add: preflight_def)
      with fr show ?thesis by (simp add: settled_at_def)
    qed (use fr in \<open>simp add: translate_path_def\<close>)
    with at show ?thesis by (simp add: foreign_at_def)
  next
    case False
    have "check (sn_ledger s1) (path_str (chosen_source rs h x)) = Inr None" if "x \<in> set eis" "item_dest rs h x = d" for x
      using translated_frame(2)[OF at(1) fr, of "path_str (chosen_source rs h x)"] at(4) that Cons.prems(3) by (auto simp: image_iff)
    with False at translated_frame(1)[OF at(1) fr] translated_frame(3)[OF at(1) fr, of d] output_elsewhere[OF at(1) fr at(3)]
    show ?thesis by (simp add: foreign_at_def)
  qed
  from Cons.IH[OF this rest] Cons.prems(3) show ?case by simp
qed (simp add: foreign_at_def)

end

section \<open>A sample run\<close>

definition sample_host :: "pystr \<Rightarrow> unit host" where
  "sample_host reply = \<lparr>ho_bytes = (\<lambda>p. Inr [7]), ho_hash = (\<lambda>b. b), ho_subtitle = (\<lambda>p. Inr (Gate.one_cue [7843])),
     ho_now = lit ''t'', ho_artifact = (\<lambda>p. p), ho_write_error = (\<lambda>p. None), ho_chmod_error = (\<lambda>p. None), ho_session = False,
     ho_info = (\<lambda>m. \<lparr>md_kind = [], md_series_id = 0, md_tvdb = None, md_tmdb = None, md_metadata = [], md_source_type = [],
       md_season = None, md_title = None\<rparr>),
     ho_overrides = (\<lambda>k i. None), ho_inventory = (\<lambda>i. None), ho_accessible = (\<lambda>p. False), ho_resolve = (\<lambda>p. p),
     ho_guard_text = (\<lambda>p. p), ho_around = (\<lambda>m p. sample_surroundings reply)\<rparr>"

definition sample_run :: run_settings where
  "sample_run = \<lparr>rs_global = \<lparr>source_lang_priority = [lit ''en''], llm_model = lit ''m''\<rparr>, rs_file = sample_settings,
     rs_bazarr_enabled = False, rs_use_inventory = True, rs_sonarr_enabled = True, rs_radarr_enabled = False, rs_media_roots = []\<rparr>"

definition sample_station :: "file_table station" where
  "sample_station = \<lparr>sn_ledger = [], sn_files = (\<lambda>d. NoFile), sn_artifacts = (\<lambda>d. None), sn_bible = empty_bible False\<rparr>"

definition source_only :: files where
  "source_only = \<lparr>fs_exists = (\<lambda>p. p = lit ''/m/S.en.srt''), fs_read = (\<lambda>p. Inr [7])\<rparr>"

lemma only_candidate: "sidecar_candidates [lit ''S.en.srt''] (lit ''S'') = [(lit ''en'', lit ''S.en.srt'')]"
proof -
  have "glob_source_sidecars [lit ''S.en.srt''] (lit ''S'') = [lit ''S.en.srt'']"
    by (simp add: glob_source_sidecars_def SOURCE_SUFFIXES_def glob_matches_def ends_with_def lit_def)
  moreover have "sidecar_lang (lit ''S'') (lit ''S.en.srt'') = Some (lit ''en'')"
    by (simp add: sidecar_lang_def sidecar_re_eval)
  ultimately show ?thesis by (simp add: sidecar_candidates_def)
qed

lemma sample_scan_source: "find_source_sub (sample_item [lit ''S.en.srt'']) [lit ''en''] = Some (sample_path, lit ''en'')"
  by (simp add: find_source_sub_def sample_item_def only_candidate lower_en sample_path_def)

definition sample_eligible :: eligible_item where
  "sample_eligible = \<lparr>ei_media = sample_item [lit ''S.en.srt''], ei_path = sample_path, ei_reason = new_reason, ei_lang = lit ''en'',
     ei_upgraded = False\<rparr>"

lemma sample_chosen: "chosen_source sample_run (sample_host reply) sample_eligible = sample_path"
proof -
  have "filesystem_langs (sample_item [lit ''S.en.srt'']) = [lit ''en'']"
    by (simp add: filesystem_langs_def sample_item_def only_candidate)
  moreover have "rank_sources [lit ''en''] None = [lit ''en'']" by (simp add: rank_eval)
  ultimately have "select_source_for_item (\<lambda>p. False) (sample_item [lit ''S.en.srt'']) [lit ''en''] True None None = Some (lit ''en'')"
    by (simp add: select_source_for_item_def inventory_langs_def normalize_original_language_def sample_item_def)
  then show ?thesis
    by (simp add: chosen_source_def sample_run_def sample_host_def sample_eligible_def item_overrides_def item_inventory_def
        resolve_effective_settings_def sample_scan_source)
qed

lemma good_any_file:
  "fj_media j = None \<Longrightarrow> file_doc sample_settings (sample_surroundings good_reply) j (Inr (Gate.one_cue [7843])) db = (DocTranslated good_doc, db)"
  by (simp add: file_doc_def bible_passes_def good_document)

definition ran_after :: "file_job \<Rightarrow> file_table station" where
  "ran_after j = put_file j \<lparr>w_ledger = [\<lparr>row_id = 1, row_entry = done_entry j\<rparr>], w_dest = Sidecar good_doc, w_artifact = None,
     w_bible = empty_bible False\<rparr> sample_station"

definition ran_station :: "file_table station" where
  "ran_station = ran_after (job_of (sample_host good_reply) (sample_item [lit ''S.en.srt'']) sample_path [7])"

lemma good_path_run:
  assumes "ho_bytes h (path_str p) = Inr b" and "b \<noteq> []" and "\<not> ho_session h" and "ho_subtitle h (path_str p) = Inr (Gate.one_cue [7843])"
    and "ho_write_error h (path_str (derive_vi_sidecar_path p)) = None" and "ho_around h = (\<lambda>m p. sample_surroundings good_reply)"
  shows "translate_path sample_run h sqla_ops m p sample_station
    = (FileDone (path_str (derive_vi_sidecar_path p)), ran_after (job_of h m p b))"
proof -
  let ?j = "job_of h m p b"
  have media: "fj_media ?j = None" using assms(3) by (simp add: job_of_def)
  have "translate_file sample_settings (sample_surroundings good_reply) sqla_ops ?j (Inr (Gate.one_cue [7843])) None (at_file ?j sample_station)
    = (FileDone (fj_dest ?j), \<lparr>w_ledger = [\<lparr>row_id = 1, row_entry = done_entry ?j\<rparr>], w_dest = Sidecar good_doc, w_artifact = None,
          w_bible = empty_bible False\<rparr>)"
    by (simp add: translate_file_def preflight_def sqla_ops_def sqla_check_def sqla_record_def rows_with_source_def
        Ledger.scalar_one_or_none_def run_file_eq good_any_file[OF media] put_record_def at_file_def sample_station_def next_row_id_def)
  then show ?thesis using assms by (simp add: translate_path_def sample_run_def ran_after_def Let_def)
qed

lemma sample_item_run:
  "process_one_item sample_run (sample_host good_reply) sqla_ops sample_eligible sample_station
     = (Inr \<lparr>ir_status = ItemDone, ir_reason = None, ir_error = None\<rparr>, ran_station)"
proof -
  have "translate_path sample_run (sample_host good_reply) sqla_ops (ei_media sample_eligible) sample_path sample_station
      = (FileDone (path_str (derive_vi_sidecar_path sample_path)), ran_station)"
    unfolding ran_station_def by (subst good_path_run[where b = "[7]"]) (simp_all add: sample_host_def sample_eligible_def)
  then show ?thesis
    by (simp add: process_one_item_def sample_chosen, simp add: item_outcome_def sample_run_def sample_host_def)
qed

definition sample_report :: run_report where
  "sample_report = \<lparr>rr_discovered = 1, rr_eligible = [sample_eligible], rr_scan = no_stats\<lparr>st_scanned := 1\<rparr>, rr_scan_skipped = 0,
     rr_counts = no_counts\<lparr>rc_done := 1\<rparr>, rr_failures = [], rr_exit = 0\<rparr>"

lemma sample_pipeline:
  "run_pipeline_steps sample_run (sample_host good_reply) sqla_ops source_only (Inr [sample_item [lit ''S.en.srt'']]) (Inr []) sample_station
     = Inr (sample_report, ran_station)"
proof -
  have e: "is_eligible (sqla_check []) (sqla_check_by_output []) (ho_hash (sample_host good_reply)) source_only sample_path = Inr (True, new_reason)"
    by (simp add: is_eligible_def source_only_def sample_str sample_derived Let_def sqla_check_def rows_with_source_def
        Ledger.scalar_one_or_none_def) (simp add: lit_def)
  have u: "\<not> is_upgrade new_reason"
    by (simp add: is_upgrade_def new_reason_def contains_def lower_def lit_def lower_char_ascii)
  have l: "lo_check sqla_ops (sn_ledger sample_station) = sqla_check []" "lo_by_output sqla_ops (sn_ledger sample_station) = sqla_check_by_output []"
    "source_lang_priority (rs_global sample_run) = [lit ''en'']"
    by (simp_all add: sqla_ops_def sample_station_def sample_run_def)
  have "scan_for_eligible_items (is_eligible (sqla_check []) (sqla_check_by_output []) (ho_hash (sample_host good_reply)) source_only)
      [lit ''en''] [sample_item [lit ''S.en.srt'']] [] no_stats = Inr ([sample_eligible], no_stats\<lparr>st_scanned := 1\<rparr>)"
    by (simp add: sample_scan_source e u Let_def sample_eligible_def no_stats_def)
  then show ?thesis
    unfolding run_pipeline_steps_def l
    by (simp add: items_of_def errors_of_def sample_item_run count_item_def sample_report_def no_counts_def no_stats_def all_arr_failed_def Let_def)
qed

text \<open>Later the sidecar is there, and the source has changed.\<close>

definition later_eligible :: eligible_item where
  "later_eligible = \<lparr>ei_media = sample_item [lit ''S.vi.srt'', lit ''S.en.srt''], ei_path = sample_path, ei_reason = changed_reason,
     ei_lang = lit ''en'', ei_upgraded = False\<rparr>"

definition both_there :: files where
  "both_there = \<lparr>fs_exists = (\<lambda>p. True), fs_read = (\<lambda>p. Inr [8])\<rparr>"

definition own_path :: sub_path where
  "own_path = \<lparr>sp_dir = lit ''/m'', sp_name = lit ''S.vi.srt''\<rparr>"

lemma lower_vi: "lower (lit ''vi'') = lit ''vi''"
  by (simp add: lower_def lit_def lower_char_ascii)

section \<open>Properties\<close>

text \<open>
  C3: A run of the command line writes nothing but checked translations. Every file it changes is the
  sidecar of an eligible item and holds a document the gate accepts against the subtitle the
  item was translated from, with its headers; a Vietnamese sidecar of somebody else stays as it
  is where the ledger knows neither it nor the sources it belongs to. The counters account for
  every eligible item, whatever fails.
\<close>

theorem run_writes_translations:
  assumes "sqla_invar (sn_ledger s)" and "run_pipeline_steps rs h sqla_ops fs sonarr radarr s = Inr (rep, s')"
    and "distinct (map (\<lambda>ei. path_str (chosen_source rs h ei)) (rr_eligible rep))"
  shows "(sn_files s' d = sn_files s d \<or> own_translation rs h (rr_eligible rep) d (sn_files s' d))
    \<and> (sn_files s d = ForeignFile \<and> sqla_check_by_output (sn_ledger s) d = Inr None
        \<and> (\<forall>ei \<in> set (rr_eligible rep). item_dest rs h ei = d \<longrightarrow> sqla_check (sn_ledger s) (path_str (chosen_source rs h ei)) = Inr None)
      \<longrightarrow> sn_files s' d = ForeignFile)
    \<and> total (rr_counts rep) = length (rr_eligible rep)"
proof (intro conjI)
  from assms(2) have run: "process_all rs h sqla_ops (rr_eligible rep) no_counts s = (rr_counts rep, s')"
    by (auto simp: run_pipeline_steps_def Let_def split: sum.splits prod.splits)
  from run_writes[OF run] show "sn_files s' d = sn_files s d \<or> own_translation rs h (rr_eligible rep) d (sn_files s' d)" .
  from process_all_counts[OF run] show "total (rr_counts rep) = length (rr_eligible rep)"
    by (simp add: total_def no_counts_def)
  from sqla.foreign_stays[OF _ run[unfolded sqla_ops_def] assms(3)] assms(1)
  show "sn_files s d = ForeignFile \<and> sqla_check_by_output (sn_ledger s) d = Inr None
        \<and> (\<forall>ei \<in> set (rr_eligible rep). item_dest rs h ei = d \<longrightarrow> sqla_check (sn_ledger s) (path_str (chosen_source rs h ei)) = Inr None)
      \<longrightarrow> sn_files s' d = ForeignFile"
    unfolding sqla.foreign_at_def by blast
qed

theorem run_writes_translations_witness:
  "own_translation sample_run (sample_host good_reply) [sample_eligible] (lit ''/m/S.vi.srt'') (Sidecar good_doc)
    \<and> total (rr_counts sample_report) = 1"
proof -
  have e: "rr_eligible sample_report = [sample_eligible]" by (simp add: sample_report_def)
  have d: "distinct (map (\<lambda>ei. path_str (chosen_source sample_run (sample_host good_reply) ei)) (rr_eligible sample_report))"
    by (simp add: e)
  have s: "sqla_invar (sn_ledger sample_station)" by (simp add: sample_station_def sqla.invar_empty)
  have f: "sn_files ran_station (lit ''/m/S.vi.srt'') = Sidecar good_doc" "sn_files sample_station (lit ''/m/S.vi.srt'') = NoFile"
    by (simp_all add: ran_station_def ran_after_def sample_derived sample_station_def Let_def)
  from run_writes_translations[OF s sample_pipeline d, of "lit ''/m/S.vi.srt''"] f e show ?thesis by simp
qed



text \<open>
  A source that changes after its translation is not translated again. The scan finds the item
  eligible because the English file has changed; by then the Vietnamese sidecar is among the
  languages on offer, and where the original language is unknown it is chosen as the source. The
  run translates its own output into itself, and the changed file is left as it is.
\<close>

theorem changed_source_translates_own_output:
  "is_eligible (sqla_check (sn_ledger ran_station)) (sqla_check_by_output (sn_ledger ran_station)) (\<lambda>b. b) both_there sample_path
     = Inr (True, changed_reason)
   \<and> chosen_source sample_run (sample_host reply) later_eligible = own_path
   \<and> item_dest sample_run (sample_host reply) later_eligible = path_str own_path
   \<and> preflight sqla_ops (job_of (sample_host reply) (ei_media later_eligible) own_path [8])
       (at_file (job_of (sample_host reply) (ei_media later_eligible) own_path [8]) ran_station) = Inr True"
proof -
  let ?j = "job_of (sample_host good_reply) (sample_item [lit ''S.en.srt'']) sample_path [7]"
  have l: "sn_ledger ran_station = [\<lparr>row_id = 1, row_entry = done_entry ?j\<rparr>]"
    "sn_files ran_station (lit ''/m/S.vi.srt'') = Sidecar good_doc"
    by (simp_all add: ran_station_def ran_after_def sample_derived Let_def)
  have e: "le_source (done_entry ?j) = lit ''/m/S.en.srt''" "le_output (done_entry ?j) = Some (lit ''/m/S.vi.srt'')"
    "le_status (done_entry ?j) = Done" "le_hash (done_entry ?j) = [7]"
    by (simp_all add: done_entry_def entry_of_def sample_str sample_derived sample_host_def job_of_def)
  have own: "path_str own_path = lit ''/m/S.vi.srt''" "path_str (derive_vi_sidecar_path own_path) = lit ''/m/S.vi.srt''"
    by (simp add: path_str_def own_path_def lit_def)
      (simp add: derive_vi_sidecar_path_def path_str_def own_path_def sidecar_eval)
  have ne: "lit ''/m/S.vi.srt'' \<noteq> lit ''/m/S.en.srt''" by (simp add: lit_def)
  have a: "is_eligible (sqla_check (sn_ledger ran_station)) (sqla_check_by_output (sn_ledger ran_station)) (\<lambda>b. b) both_there sample_path
     = Inr (True, changed_reason)"
    by (simp add: is_eligible_def l e both_there_def sample_str sample_derived Let_def sqla_check_def rows_with_source_def
        Ledger.scalar_one_or_none_def)
  have "select_source_for_item (\<lambda>p. False) (sample_item [lit ''S.vi.srt'', lit ''S.en.srt'']) [lit ''en''] True None None = Some (lit ''vi'')"
    by (rule own_output_selected)
  moreover have "find_source_sub (sample_item [lit ''S.vi.srt'', lit ''S.en.srt'']) [lit ''vi''] = Some (own_path, lit ''vi'')"
    by (simp add: find_source_sub_def sample_item_def sample_candidates lower_vi own_path_def) (simp add: lit_def)
  ultimately have b: "chosen_source sample_run (sample_host reply) later_eligible = own_path"
    by (simp add: chosen_source_def sample_run_def sample_host_def later_eligible_def item_overrides_def item_inventory_def
        resolve_effective_settings_def)
  have c: "preflight sqla_ops (job_of (sample_host reply) (ei_media later_eligible) own_path [8])
       (at_file (job_of (sample_host reply) (ei_media later_eligible) own_path [8]) ran_station) = Inr True"
    using ne ne[symmetric] by (simp add: preflight_def sqla_ops_def own sample_str l e sqla_check_def sqla_check_by_output_def rows_with_source_def
        rows_with_output_def Ledger.scalar_one_or_none_def)
  from a b c own show ?thesis by simp
qed

text \<open>
  A failure after the file has been written, of the guard or of the permissions, is reported once: the
  ledger says done, and the next run skips the item with exit code 0.
\<close>

theorem late_failure_reported_once:
  assumes "sqla_invar (sn_ledger s)" and "process_one_item rs h sqla_ops ei s = (Inr r, s')" and "ir_error r \<noteq> None"
  shows "process_one_item rs h sqla_ops ei s' = (Inr \<lparr>ir_status = ItemSkipped, ir_reason = None, ir_error = None\<rparr>, s')"
proof -
  from assms(2,3) obtain d where "translate_path rs h sqla_ops (ei_media ei) (chosen_source rs h ei) s = (FileDone d, s')"
    by (auto simp: process_one_item_def item_outcome_def split: prod.splits file_result.splits if_splits option.splits)
  from settled_item[OF sqla.settles_itself[OF assms(1) this[unfolded sqla_ops_def], folded sqla_ops_def]]
  show ?thesis by blast
qed

end
