(* ===== verification/Json.thy ===== *)
theory Json
  imports Complex_Main Prelude "HOL-Library.AList"
begin

text \<open>
  The values a JSON or YAML document is read as, with what the handlers ask of them: the lookup of
  a key and Python's truth of a value. A dictionary is the list of its entries, each key once; a
  finite float is a rational number.
\<close>

datatype float_value = Finite rat | NotANumber | Infinite

datatype json =
    JNull
  | JBool bool
  | JInt int
  | JFloat float_value
  | JStr pystr
  | JList "json list"
  | JDict "(pystr \<times> json) list"

type_synonym json_dict = "(pystr \<times> json) list"

definition get_key :: "pystr \<Rightarrow> json_dict \<Rightarrow> json option" where
  "get_key k d = map_of d k"

definition get_or :: "json \<Rightarrow> pystr \<Rightarrow> json_dict \<Rightarrow> json" where
  "get_or v k d = (case get_key k d of None \<Rightarrow> v | Some w \<Rightarrow> w)"

text \<open>\<open>bool(v)\<close>.\<close>

definition holds :: "json \<Rightarrow> bool" where
  "holds v = (case v of
     JNull \<Rightarrow> False
   | JBool b \<Rightarrow> b
   | JInt i \<Rightarrow> i \<noteq> 0
   | JFloat f \<Rightarrow> f \<noteq> Finite 0
   | JStr s \<Rightarrow> s \<noteq> []
   | JList vs \<Rightarrow> vs \<noteq> []
   | JDict d \<Rightarrow> d \<noteq> [])"

text \<open>\<open>d[k] = v\<close>: the entry keeps its place, a new one comes last.\<close>

definition set_key :: "pystr \<Rightarrow> json \<Rightarrow> json_dict \<Rightarrow> json_dict" where
  "set_key k v d = AList.update k v d"

lemma get_set_key: "get_key k (set_key k' v d) = (if k = k' then Some v else get_key k d)"
  by (simp add: get_key_def set_key_def update_conv')

lemma holds_simps [simp]:
  "\<not> holds JNull" "holds (JBool b) = b" "holds (JInt i) = (i \<noteq> 0)" "holds (JStr s) = (s \<noteq> [])"
  "holds (JList vs) = (vs \<noteq> [])" "holds (JDict d) = (d \<noteq> [])"
  by (simp_all add: holds_def)

end
