(* ===== verification/Scheduling.thy ===== *)
theory Scheduling
  imports Discovery Job_Queue Json
begin

text \<open>
  Where the jobs come from: the poll of \<open>trezarr/web/scheduler.py\<close>, which scans what the services
  list and enqueues what is eligible, and the webhook of \<open>trezarr/web/routes/webhook.py\<close>, which
  reads an event and starts such a poll for one series. The answers of the services, the
  eligibility of a path and the body of the request are arguments.
\<close>

section \<open>The poll\<close>

record poll_settings =
  po_auto :: bool
  po_webhooks :: bool
  po_sonarr :: bool
  po_radarr :: bool
  po_priority :: "pystr list"
  po_max_attempts :: nat

text \<open>What the queue keeps of a media item: the id of its series and its attributes.\<close>

record item_facts =
  if_series :: "media_item \<Rightarrow> nat option"
  if_attributes :: "media_item \<Rightarrow> snapshot"

definition wanted :: "int option \<Rightarrow> nat option \<Rightarrow> bool" where
  "wanted hint series \<longleftrightarrow> (case hint of None \<Rightarrow> True | Some h \<Rightarrow> map_option int series = Some h)"

fun enqueue_all :: "item_facts \<Rightarrow> nat \<Rightarrow> int option \<Rightarrow> eligible_item list \<Rightarrow> qstate \<Rightarrow> nat \<Rightarrow> qstate \<times> nat" where
  "enqueue_all facts cap hint [] q n = (q, n)"
| "enqueue_all facts cap hint (ei # eis) q n =
     (let series = if_series facts (ei_media ei) in
      if \<not> wanted hint series then enqueue_all facts cap hint eis q n
      else let (q', queued) = enqueue_job (Some cap) (path_str (ei_path ei)) series Poll (Some (if_attributes facts (ei_media ei))) q
           in enqueue_all facts cap hint eis q' (if queued then n + 1 else n))"

definition discovered :: "bool \<Rightarrow> pystr + media_item list \<Rightarrow> media_item list" where
  "discovered enabled answer = (if enabled then (case answer of Inl e \<Rightarrow> [] | Inr ms \<Rightarrow> ms) else [])"

definition poll_and_enqueue ::
  "poll_settings option \<Rightarrow> item_facts \<Rightarrow> (sub_path \<Rightarrow> py_error + bool \<times> pystr) option \<Rightarrow> pystr + media_item list
     \<Rightarrow> pystr + media_item list \<Rightarrow> int option \<Rightarrow> qstate \<Rightarrow> py_error + qstate \<times> nat" where
  "poll_and_enqueue settings facts eligibility sonarr radarr hint q =
     (case settings of
        None \<Rightarrow> Inr (q, 0)
      | Some po \<Rightarrow>
          (if \<not> po_auto po then Inr (q, 0)
           else let items = discovered (po_sonarr po) sonarr @ discovered (po_radarr po) radarr in
             if items = [] then Inr (q, 0)
             else case eligibility of
               None \<Rightarrow> Inr (q, 0)
             | Some elig \<Rightarrow>
                 (case scan_for_eligible_items elig (po_priority po) items [] no_stats of
                    Inl e \<Rightarrow> Inl e
                  | Inr (eligible, stats) \<Rightarrow> Inr (enqueue_all facts (po_max_attempts po) hint eligible q 0))))"

section \<open>The webhook\<close>

text \<open>\<open>int(s)\<close> of a string: blanks around it, a sign, digits with single underscores between them,
  at most 4300 of them.\<close>

definition int_digits :: "pystr \<Rightarrow> nat option" where
  "int_digits s = (let parts = split_char 95 s; ds = concat parts in
     if (\<forall>p \<in> set parts. p \<noteq> [] \<and> (\<forall>c \<in> set p. is_digit c)) \<and> length ds \<le> 4300 then Some (int_of_digits ds) else None)"

definition int_of_str :: "pystr \<Rightarrow> int option" where
  "int_of_str s = (case strip s of
     [] \<Rightarrow> None
   | c # r \<Rightarrow> (if c = 45 then map_option (\<lambda>n. - int n) (int_digits r)
       else if c = 43 then map_option int (int_digits r)
       else map_option int (int_digits (c # r))))"

text \<open>\<open>int(v)\<close> where a \<open>TypeError\<close> or \<open>ValueError\<close> gives no hint; an infinite float raises
  \<open>OverflowError\<close>, which is not caught.\<close>

datatype hint = Hint "int option" | Overflow

definition int_hint :: "json \<Rightarrow> hint" where
  "int_hint v = (case v of
     JNull \<Rightarrow> Hint None
   | JBool b \<Rightarrow> Hint (Some (if b then 1 else 0))
   | JInt i \<Rightarrow> Hint (Some i)
   | JFloat f \<Rightarrow> (case f of Finite x \<Rightarrow> Hint (Some (if x \<ge> 0 then floor x else ceiling x)) | NotANumber \<Rightarrow> Hint None | Infinite \<Rightarrow> Overflow)
   | JStr s \<Rightarrow> Hint (int_of_str s)
   | JList vs \<Rightarrow> Hint None
   | JDict kvs \<Rightarrow> Hint None)"

text \<open>The id in the block of a body under a key, where there is one that is not null.\<close>

definition block_id :: "pystr \<Rightarrow> (pystr \<times> json) list \<Rightarrow> json option" where
  "block_id k d = (case get_key k d of
     Some (JDict b) \<Rightarrow> (case get_key (lit ''id'') b of None \<Rightarrow> None | Some v \<Rightarrow> (if v = JNull then None else Some v))
   | _ \<Rightarrow> None)"

definition series_hint :: "json \<Rightarrow> hint" where
  "series_hint body = (case body of
     JDict d \<Rightarrow>
       (case block_id (lit ''series'') d of
          Some v \<Rightarrow> int_hint v
        | None \<Rightarrow> (case block_id (lit ''movie'') d of Some v \<Rightarrow> int_hint v | None \<Rightarrow> Hint None))
   | _ \<Rightarrow> Hint None)"

definition event_type :: "json \<Rightarrow> json" where
  "event_type body = (case body of
     JDict d \<Rightarrow> (case get_key (lit ''eventType'') d of Some v \<Rightarrow> v | None \<Rightarrow> JStr (lit ''unknown''))
   | _ \<Rightarrow> JStr (lit ''unknown''))"

datatype webhook_reply = Disabled | Accepted json "int option" | ServerError

text \<open>A body that cannot be parsed counts as the empty one.\<close>

definition receive_webhook :: "poll_settings option \<Rightarrow> json option \<Rightarrow> webhook_reply" where
  "receive_webhook settings raw =
     (if (case settings of Some po \<Rightarrow> \<not> po_webhooks po | None \<Rightarrow> False) then Disabled
      else let body = (case raw of Some b \<Rightarrow> b | None \<Rightarrow> JDict []) in
        (case series_hint body of Hint h \<Rightarrow> Accepted (event_type body) h | Overflow \<Rightarrow> ServerError))"

text \<open>The background task of an accepted request.\<close>

definition webhook_poll ::
  "poll_settings option \<Rightarrow> item_facts \<Rightarrow> (sub_path \<Rightarrow> py_error + bool \<times> pystr) option \<Rightarrow> pystr + media_item list
     \<Rightarrow> pystr + media_item list \<Rightarrow> json option \<Rightarrow> qstate \<Rightarrow> py_error + qstate \<times> nat" where
  "webhook_poll settings facts eligibility sonarr radarr raw q =
     (case receive_webhook settings raw of
        Accepted ev hint \<Rightarrow> poll_and_enqueue settings facts eligibility sonarr radarr hint q
      | _ \<Rightarrow> Inr (q, 0))"

section \<open>What a sweep enqueues\<close>

text \<open>A path is closed to the automatic triggers: a job is active, or the cap is used up.\<close>

definition closed :: "nat \<Rightarrow> pystr \<Rightarrow> qstate \<Rightarrow> bool" where
  "closed cap p q \<longleftrightarrow> active_for p (q_jobs q) \<noteq> [] \<or> terminal_count p (q_jobs q) \<ge> cap"

lemma closed_enqueue: "closed cap p q \<Longrightarrow> enqueue_job (Some cap) p sid Poll media q = (q, False)"
  by (auto simp: closed_def enqueue_job_def auto_trigger_def)

lemma closed_after: "closed cap p (fst (enqueue_job (Some cap) p sid Poll media q))"
proof -
  obtain q' b where e: "enqueue_job (Some cap) p sid Poll media q = (q', b)" by fastforce
  from e have "closed cap p q'"
  proof (cases rule: enqueue_cases)
    case no
    with e show ?thesis by (auto simp: closed_def enqueue_job_def auto_trigger_def Let_def split: if_splits option.splits)
  next
    case yes
    then show ?thesis by (simp add: closed_def active_for_def new_job_def active_status_def)
  qed
  with e show ?thesis by simp
qed

lemma closed_append: "closed cap p q \<Longrightarrow> q_jobs q' = q_jobs q @ js \<Longrightarrow> closed cap p q'"
  by (auto simp: closed_def active_for_def terminal_count_def)

lemma enqueue_appends: "\<exists>js. q_jobs (fst (enqueue_job cap p sid trig media q)) = q_jobs q @ js \<and>
    (\<forall>j \<in> set js. job_source j = p \<and> job_status j = Queued \<and> job_trigger j = trig \<and> job_series j = sid)
    \<and> length js = (if snd (enqueue_job cap p sid trig media q) then 1 else 0)"
proof -
  obtain q' b where e: "enqueue_job cap p sid trig media q = (q', b)" by fastforce
  from e show ?thesis
    by (cases rule: enqueue_cases) (use e in \<open>auto simp: new_job_def\<close>)
qed

lemma sweep_appends:
  "enqueue_all facts cap hint eis q n = (q', n') \<Longrightarrow> \<exists>js. q_jobs q' = q_jobs q @ js \<and> n' = n + length js \<and>
    (\<forall>j \<in> set js. job_status j = Queued \<and> job_trigger j = Poll \<and>
       (\<exists>ei \<in> set eis. job_source j = path_str (ei_path ei) \<and> job_series j = if_series facts (ei_media ei)
          \<and> wanted hint (if_series facts (ei_media ei))))"
proof (induction eis arbitrary: q n)
  case (Cons ei eis)
  let ?sid = "if_series facts (ei_media ei)"
  show ?case
  proof (cases "wanted hint ?sid")
    case True
    obtain q1 b where e: "enqueue_job (Some cap) (path_str (ei_path ei)) ?sid Poll (Some (if_attributes facts (ei_media ei))) q = (q1, b)"
      by fastforce
    with Cons.prems True have rest: "enqueue_all facts cap hint eis q1 (if b then n + 1 else n) = (q', n')" by simp
    from Cons.IH[OF rest] obtain js where js: "q_jobs q' = q_jobs q1 @ js" "n' = (if b then n + 1 else n) + length js"
      "\<forall>j \<in> set js. job_status j = Queued \<and> job_trigger j = Poll \<and>
       (\<exists>ei \<in> set eis. job_source j = path_str (ei_path ei) \<and> job_series j = if_series facts (ei_media ei)
          \<and> wanted hint (if_series facts (ei_media ei)))" by blast
    from enqueue_appends[of "Some cap" "path_str (ei_path ei)" ?sid Poll "Some (if_attributes facts (ei_media ei))" q] e
    obtain ks where ks: "q_jobs q1 = q_jobs q @ ks" "length ks = (if b then 1 else 0)"
      "\<forall>j \<in> set ks. job_source j = path_str (ei_path ei) \<and> job_status j = Queued \<and> job_trigger j = Poll \<and> job_series j = ?sid"
      by auto
    have "\<forall>j \<in> set (ks @ js). job_status j = Queued \<and> job_trigger j = Poll \<and>
       (\<exists>x \<in> set (ei # eis). job_source j = path_str (ei_path x) \<and> job_series j = if_series facts (ei_media x)
          \<and> wanted hint (if_series facts (ei_media x)))"
      using js(3) ks(3) True by auto
    with js(1,2) ks(1,2) show ?thesis by (intro exI[of _ "ks @ js"]) auto
  next
    case False
    with Cons.prems Cons.IH[of q n] show ?thesis by auto
  qed
qed simp

lemma sweep_closes:
  "enqueue_all facts cap hint eis q n = (q', n') \<Longrightarrow>
     \<forall>ei \<in> set eis. wanted hint (if_series facts (ei_media ei)) \<longrightarrow> closed cap (path_str (ei_path ei)) q'"
proof (induction eis arbitrary: q n)
  case (Cons ei eis)
  let ?sid = "if_series facts (ei_media ei)"
  show ?case
  proof (cases "wanted hint ?sid")
    case True
    obtain q1 b where e: "enqueue_job (Some cap) (path_str (ei_path ei)) ?sid Poll (Some (if_attributes facts (ei_media ei))) q = (q1, b)"
      by fastforce
    with Cons.prems True have rest: "enqueue_all facts cap hint eis q1 (if b then n + 1 else n) = (q', n')" by simp
    have "closed cap (path_str (ei_path ei)) q1"
      using closed_after[of cap "path_str (ei_path ei)" ?sid "Some (if_attributes facts (ei_media ei))" q] e by simp
    with sweep_appends[OF rest] have "closed cap (path_str (ei_path ei)) q'" using closed_append by blast
    with Cons.IH[OF rest] show ?thesis by simp
  next
    case False
    with Cons.prems Cons.IH[of q n] show ?thesis by auto
  qed
qed simp

lemma sweep_nothing:
  "\<forall>ei \<in> set eis. wanted hint (if_series facts (ei_media ei)) \<longrightarrow> closed cap (path_str (ei_path ei)) q \<Longrightarrow>
     enqueue_all facts cap hint eis q n = (q, n)"
  by (induction eis) (auto simp: closed_enqueue Let_def)

lemma sweep_reachable:
  "reachable ok r q \<Longrightarrow> ok (Some cap) Poll \<Longrightarrow> enqueue_all facts cap hint eis q n = (q', n') \<Longrightarrow> reachable ok r q'"
proof (induction eis arbitrary: q n)
  case (Cons ei eis)
  let ?sid = "if_series facts (ei_media ei)" and ?p = "path_str (ei_path ei)" and ?a = "Some (if_attributes facts (ei_media ei))"
  show ?case
  proof (cases "wanted hint ?sid")
    case True
    obtain q1 b where e: "enqueue_job (Some cap) ?p ?sid Poll ?a q = (q1, b)" by fastforce
    have "reachable ok r (fst (enqueue_job (Some cap) ?p ?sid Poll ?a q))"
      by (rule reachable.step[OF Cons.prems(1) qstep.enqueue[of ok "Some cap" Poll, OF Cons.prems(2)]])
    with e have "reachable ok r q1" by simp
    from Cons.IH[OF this Cons.prems(2)] Cons.prems(3) True e show ?thesis by auto
  next
    case False
    with Cons.prems Cons.IH[of q n] show ?thesis by auto
  qed
qed simp

lemma poll_cases:
  assumes "poll_and_enqueue settings facts eligibility sonarr radarr hint q = Inr (q', n)"
  obtains (idle) "\<And>hint q. poll_and_enqueue settings facts eligibility sonarr radarr hint q = Inr (q, 0)" "q' = q" "n = 0"
  | (sweep) po elig items eligible stats where "settings = Some po" "po_auto po" "eligibility = Some elig"
      "items = discovered (po_sonarr po) sonarr @ discovered (po_radarr po) radarr"
      "scan_for_eligible_items elig (po_priority po) items [] no_stats = Inr (eligible, stats)"
      "\<And>hint q. poll_and_enqueue settings facts eligibility sonarr radarr hint q
         = Inr (enqueue_all facts (po_max_attempts po) hint eligible q 0)"
      "enqueue_all facts (po_max_attempts po) hint eligible q 0 = (q', n)"
proof (cases "\<exists>po elig. settings = Some po \<and> po_auto po \<and> eligibility = Some elig
    \<and> discovered (po_sonarr po) sonarr @ discovered (po_radarr po) radarr \<noteq> []")
  case False
  then have i: "\<And>hint q. poll_and_enqueue settings facts eligibility sonarr radarr hint q = Inr (q, 0)"
    by (auto simp: poll_and_enqueue_def Let_def split: option.split)
  with assms idle show ?thesis by simp
next
  case True
  then obtain po elig where p: "settings = Some po" "po_auto po" "eligibility = Some elig"
    "discovered (po_sonarr po) sonarr @ discovered (po_radarr po) radarr \<noteq> []" by blast
  let ?items = "discovered (po_sonarr po) sonarr @ discovered (po_radarr po) radarr"
  from assms p obtain eligible stats where s: "scan_for_eligible_items elig (po_priority po) ?items [] no_stats = Inr (eligible, stats)"
    by (auto simp: poll_and_enqueue_def Let_def simp del: append_is_Nil_conv split: sum.splits)
  have all: "poll_and_enqueue settings facts eligibility sonarr radarr hint q
      = Inr (enqueue_all facts (po_max_attempts po) hint eligible q 0)" for hint q
    using p s by (simp add: poll_and_enqueue_def Let_def del: append_is_Nil_conv)
  show ?thesis by (rule sweep[OF p(1-3) refl s all]) (use assms all in simp)
qed

lemma scan_sound:
  assumes "scan_for_eligible_items elig prio ms acc st = Inr (els, st')" and "ei \<in> set els"
  shows "ei \<in> set acc \<or> (ei_media ei \<in> set ms \<and> find_source_sub (ei_media ei) prio = Some (ei_path ei, ei_lang ei)
    \<and> elig (ei_path ei) = Inr (True, ei_reason ei))"
  using assms
proof (induction ms arbitrary: acc st)
  case (Cons m ms)
  show ?case
  proof (cases "find_source_sub m prio")
    case None
    with Cons.prems Cons.IH show ?thesis by (fastforce simp: Let_def)
  next
    case (Some pl)
    obtain p lang where pl: "pl = (p, lang)" by fastforce
    from Cons.prems(1) Some pl obtain ok reason where e: "elig p = Inr (ok, reason)"
      by (auto simp: Let_def split: sum.splits)
    show ?thesis
    proof (cases ok)
      case False
      with Cons.prems(1) Some pl e have "scan_for_eligible_items elig prio ms acc (count_skip reason (st\<lparr>st_scanned := st_scanned st + 1\<rparr>)) = Inr (els, st')"
        by (simp add: Let_def)
      from Cons.IH[OF this Cons.prems(2)] show ?thesis by auto
    next
      case True
      let ?new = "\<lparr>ei_media = m, ei_path = p, ei_reason = reason, ei_lang = lang, ei_upgraded = is_upgrade reason\<rparr>"
      from Cons.prems(1) Some pl e True obtain st2 where
        "scan_for_eligible_items elig prio ms (acc @ [?new]) st2 = Inr (els, st')" by (simp add: Let_def)
      from Cons.IH[OF this Cons.prems(2)] Some pl e True show ?thesis by auto
    qed
  qed
qed simp

section \<open>A sample sweep\<close>

definition sample_poll :: poll_settings where
  "sample_poll = \<lparr>po_auto = True, po_webhooks = True, po_sonarr = True, po_radarr = True, po_priority = [lit ''en''], po_max_attempts = 2\<rparr>"

definition sample_facts :: item_facts where
  "sample_facts = \<lparr>if_series = (\<lambda>m. Some 5), if_attributes = (\<lambda>m. [])\<rparr>"

definition all_eligible :: "sub_path \<Rightarrow> py_error + bool \<times> pystr" where
  "all_eligible p = Inr (True, new_reason)"

definition polled :: qstate where
  "polled = \<lparr>q_jobs = [new_job [] (path_str sample_path) (Some 5) Poll (Some [])], q_work = [1], q_execs = [], q_retries = []\<rparr>"

lemma sample_sweep:
  "poll_and_enqueue (Some sample_poll) sample_facts (Some all_eligible) (Inr [sample_item [lit ''S.vi.srt'', lit ''S.en.srt'']]) (Inl [])
     None empty_queue = Inr (polled, 1)"
proof -
  have f: "find_source_sub (sample_item [lit ''S.vi.srt'', lit ''S.en.srt'']) [lit ''en''] = Some (sample_path, lit ''en'')"
    by (simp add: find_source_sub_def sample_item_def sample_candidates lower_en sample_path_def)
  obtain st where "scan_for_eligible_items all_eligible [lit ''en''] [sample_item [lit ''S.vi.srt'', lit ''S.en.srt'']] [] no_stats
      = Inr ([\<lparr>ei_media = sample_item [lit ''S.vi.srt'', lit ''S.en.srt''], ei_path = sample_path, ei_reason = new_reason,
          ei_lang = lit ''en'', ei_upgraded = is_upgrade new_reason\<rparr>], st)"
    by (simp add: f all_eligible_def Let_def)
  then show ?thesis
    by (simp add: poll_and_enqueue_def discovered_def sample_poll_def sample_facts_def wanted_def enqueue_job_def active_for_def
        terminal_count_def auto_trigger_def empty_queue_def polled_def new_job_def next_job_id_def)
qed

section \<open>Properties\<close>

text \<open>
  C5: A poll enqueues only what is there and eligible. From a reachable queue it leads to a reachable
  queue, so the invariants of the worker hold; it only appends queued jobs, and each is for
  the source of an item that an enabled service lists, that the eligibility check accepts, and
  that belongs to the series of the hint where there is one. Nothing else of a webhook reaches
  the queue.
\<close>

theorem poll_enqueues_eligible:
  assumes "reachable ok retry_max q" and "ok (Some (po_max_attempts po)) Poll"
    and "poll_and_enqueue (Some po) facts (Some elig) sonarr radarr hint q = Inr (q', n)"
  shows "reachable ok retry_max q' \<and> (\<exists>js. q_jobs q' = q_jobs q @ js \<and> length js = n \<and>
    (\<forall>j \<in> set js. job_status j = Queued \<and> job_trigger j = Poll \<and>
      (\<exists>m p lang reason. m \<in> set (discovered (po_sonarr po) sonarr @ discovered (po_radarr po) radarr)
         \<and> find_source_sub m (po_priority po) = Some (p, lang) \<and> elig p = Inr (True, reason)
         \<and> job_source j = path_str p \<and> job_series j = if_series facts m \<and> wanted hint (if_series facts m))))"
  using assms(3)
proof (cases rule: poll_cases)
  case idle
  with assms(1) show ?thesis by simp
next
  case (sweep po' elig' items eligible stats)
  from sweep(1,3) have same: "po' = po" "elig' = elig" by simp_all
  from sweep_reachable[OF assms(1) _ sweep(7)] assms(2) same have r: "reachable ok retry_max q'" by simp
  from sweep_appends[OF sweep(7)] obtain js where js: "q_jobs q' = q_jobs q @ js" "n = length js"
    "\<forall>j \<in> set js. job_status j = Queued \<and> job_trigger j = Poll \<and>
       (\<exists>ei \<in> set eligible. job_source j = path_str (ei_path ei) \<and> job_series j = if_series facts (ei_media ei)
          \<and> wanted hint (if_series facts (ei_media ei)))" by auto
  have "\<forall>j \<in> set js. job_status j = Queued \<and> job_trigger j = Poll \<and>
      (\<exists>m p lang reason. m \<in> set (discovered (po_sonarr po) sonarr @ discovered (po_radarr po) radarr)
         \<and> find_source_sub m (po_priority po) = Some (p, lang) \<and> elig p = Inr (True, reason)
         \<and> job_source j = path_str p \<and> job_series j = if_series facts m \<and> wanted hint (if_series facts m))"
  proof
    fix j assume "j \<in> set js"
    with js(3) obtain ei where ei: "ei \<in> set eligible" "job_status j = Queued" "job_trigger j = Poll"
      "job_source j = path_str (ei_path ei)" "job_series j = if_series facts (ei_media ei)" "wanted hint (if_series facts (ei_media ei))" by blast
    from scan_sound[OF sweep(5) ei(1)] same sweep(4) have
      "ei_media ei \<in> set (discovered (po_sonarr po) sonarr @ discovered (po_radarr po) radarr)"
      "find_source_sub (ei_media ei) (po_priority po) = Some (ei_path ei, ei_lang ei)" "elig (ei_path ei) = Inr (True, ei_reason ei)" by auto
    with ei show "job_status j = Queued \<and> job_trigger j = Poll \<and>
      (\<exists>m p lang reason. m \<in> set (discovered (po_sonarr po) sonarr @ discovered (po_radarr po) radarr)
         \<and> find_source_sub m (po_priority po) = Some (p, lang) \<and> elig p = Inr (True, reason)
         \<and> job_source j = path_str p \<and> job_series j = if_series facts m \<and> wanted hint (if_series facts m))" by blast
  qed
  with r js(1,2) show ?thesis by blast
qed

theorem poll_enqueues_eligible_witness: "reachable (\<lambda>cap t. t = Poll) 2 polled"
  using poll_enqueues_eligible[OF reachable.init _ sample_sweep, of "\<lambda>cap t. t = Poll" 2] by simp

text \<open>
  Events repeat without effect. After a poll over all series, no webhook adds a job as long as the
  services and the files answer the same, whatever its body says, and neither does another poll:
  every eligible source has an active job or has used up its attempts.
\<close>

theorem webhook_after_poll:
  assumes "poll_and_enqueue settings facts eligibility sonarr radarr None q = Inr (q', n)"
  shows "webhook_poll settings facts eligibility sonarr radarr raw q' = Inr (q', 0)
    \<and> poll_and_enqueue settings facts eligibility sonarr radarr None q' = Inr (q', 0)"
proof -
  have "poll_and_enqueue settings facts eligibility sonarr radarr hint q' = Inr (q', 0)" for hint
    using assms
  proof (cases rule: poll_cases)
    case (sweep po elig items eligible stats)
    from sweep_closes[OF sweep(7)] have "\<forall>ei \<in> set eligible. closed (po_max_attempts po) (path_str (ei_path ei)) q'"
      by (simp add: wanted_def)
    then have "enqueue_all facts (po_max_attempts po) hint eligible q' 0 = (q', 0)" by (intro sweep_nothing) simp
    with sweep(6) show ?thesis by simp
  qed
  then show ?thesis by (simp add: webhook_poll_def split: webhook_reply.split)
qed

theorem webhook_after_poll_witness:
  "webhook_poll (Some sample_poll) sample_facts (Some all_eligible) (Inr [sample_item [lit ''S.vi.srt'', lit ''S.en.srt'']]) (Inl [])
     (Some (JDict [(lit ''series'', JDict [(lit ''id'', JInt 5)])])) polled = Inr (polled, 0)"
  using webhook_after_poll[OF sample_sweep] by blast

text \<open>The id of a film is compared with the ids of series: the event of film 5 starts a poll of series 5.\<close>

lemma film_hint_matches_series:
  "receive_webhook (Some sample_poll) (Some (JDict [(lit ''movie'', JDict [(lit ''id'', JInt 5)])])) = Accepted (JStr (lit ''unknown'')) (Some 5)
   \<and> wanted (Some 5) (if_series sample_facts (sample_item []))"
  by (simp add: receive_webhook_def sample_poll_def series_hint_def block_id_def get_key_def int_hint_def event_type_def wanted_def
      sample_facts_def lit_def)

text \<open>An infinite number, which the JSON parser of Python accepts, makes the handler fail.\<close>

lemma infinite_id_fails:
  "receive_webhook (Some sample_poll) (Some (JDict [(lit ''series'', JDict [(lit ''id'', JFloat Infinite)])])) = ServerError"
  by (simp add: receive_webhook_def sample_poll_def series_hint_def block_id_def get_key_def int_hint_def lit_def)

end
