(* ===== verification/Daemon.thy ===== *)
theory Daemon
  imports Run_Pipeline Scheduling
begin

text \<open>
  The daemon put together: the worker of \<open>trezarr/web/worker.py\<close> executes a job of the queue with
  the pipeline of one item, and the polls, the operator, the retries and the restarts act on the
  queue and on what the executions have left in the ledger and the files. The composed steps
  refine those of the queue alone, so that its invariants carry over. An execution is one step on
  the ledger and the files, preceded at will by the record that the file is in progress, which
  is what a crash leaves. Of an
  exception of the model's client or of the file system only that it is raised is kept.
\<close>

section \<open>The execution of a job\<close>

definition sub_path_of :: "pystr \<Rightarrow> sub_path" where
  "sub_path_of p = (let name = rev (takeWhile (\<lambda>c. c \<noteq> 47) (rev p))
     in \<lparr>sp_dir = take (length p - length name - 1) p, sp_name = name\<rparr>)"

text \<open>The item is rebuilt from the snapshot, which has no path of the video: nothing is listed.\<close>

definition stub_item :: "job \<Rightarrow> eligible_item" where
  "stub_item j = \<lparr>ei_media = \<lparr>mi_dir = [], mi_stem = [], mi_listing = None, mi_original_language = None\<rparr>,
     ei_path = sub_path_of (job_source j), ei_reason = [], ei_lang = [], ei_upgraded = False\<rparr>"

definition no_media :: media_info where
  "no_media = \<lparr>md_kind = [], md_series_id = 0, md_tvdb = None, md_tmdb = None, md_metadata = [], md_source_type = [],
     md_season = None, md_title = None\<rparr>"

text \<open>Without a snapshot the session is withheld, and the translation goes without a Bible.\<close>

definition job_host :: "(snapshot \<Rightarrow> media_info) \<Rightarrow> job \<Rightarrow> 'e host \<Rightarrow> 'e host" where
  "job_host info j h = (case job_media j of
     Some snap \<Rightarrow> h\<lparr>ho_session := True, ho_info := (\<lambda>m. info snap)\<rparr>
   | None \<Rightarrow> h\<lparr>ho_session := False, ho_info := (\<lambda>m. no_media)\<rparr>)"

definition execute_job ::
  "run_settings \<Rightarrow> 'e host \<Rightarrow> (snapshot \<Rightarrow> media_info) \<Rightarrow> nat \<Rightarrow> nat \<Rightarrow> nat \<Rightarrow> qstate \<times> file_table station \<Rightarrow> qstate \<times> file_table station" where
  "execute_job rs h info retry_max now i = (\<lambda>(q, s).
     case get_job i q of
       None \<Rightarrow> (q\<lparr>q_execs := drop_exec i (q_execs q)\<rparr>, s)
     | Some j \<Rightarrow>
         (case process_one_item rs (job_host info j h) sqla_ops (stub_item j) s of
            (Inl es, s') \<Rightarrow> (fail_job now i q, s')
          | (Inr r, s') \<Rightarrow> (finish_job retry_max now r i q, s')))"

section \<open>The steps\<close>

text \<open>The files as the scan sees them: those of the library, and what has been written.\<close>

definition files_at :: "files \<Rightarrow> 's station \<Rightarrow> files" where
  "files_at fs s = fs\<lparr>fs_exists := (\<lambda>p. fs_exists fs p \<or> sn_files s p \<noteq> NoFile)\<rparr>"

text \<open>The rows the second arm of the recovery looks at, with \<open>int(series_id)\<close> where it is a number.\<close>

definition in_progress_files :: "file_table \<Rightarrow> (pystr \<times> nat option) list" where
  "in_progress_files t = map (\<lambda>r. (le_source (row_entry r), Option.bind (le_series (row_entry r)) (\<lambda>x. map_option nat (int_of_str x))))
     (filter (\<lambda>r. le_status (row_entry r) = InProgress) t)"

definition restarted :: "qstate \<times> file_table station \<Rightarrow> qstate \<times> file_table station" where
  "restarted = (\<lambda>(q, s). (reconcile_from_ledger (in_progress_files (sn_ledger s)) (reconcile_in_progress (crash q)), s))"

inductive dstep :: "file_settings \<Rightarrow> nat \<Rightarrow> qstate \<times> file_table station \<Rightarrow> qstate \<times> file_table station \<Rightarrow> bool"
  for fset retry_max where
  poll: "poll_and_enqueue (Some po) facts
      (Some (is_eligible (sqla_check (sn_ledger s)) (sqla_check_by_output (sn_ledger s)) digest (files_at fs s)))
      sonarr radarr hint q = Inr (q', n) \<Longrightarrow> dstep fset retry_max (q, s) (q', s)"
| by_hand: "dstep fset retry_max (q, s) (fst (enqueue_job None p sid Manual media q), s)"
| again: "retry_job i q = Inr q' \<Longrightarrow> dstep fset retry_max (q, s) (q', s)"
| dispatch: "q_work q \<noteq> [] \<Longrightarrow> dstep fset retry_max (q, s) (dispatch q, s)"
| start: "e \<in> set (q_execs q) \<Longrightarrow> ex_phase e = Dispatched \<Longrightarrow> dstep fset retry_max (q, s) (start_job now (ex_job e) q, s)"
| acquire: "e \<in> set (q_execs q) \<Longrightarrow> ex_phase e = Waiting \<Longrightarrow>
    \<forall>e' \<in> set (q_execs q). ex_phase e' = Holding \<longrightarrow> ex_key e' \<noteq> ex_key e \<Longrightarrow>
    dstep fset retry_max (q, s) (acquire_lock (ex_job e) (ex_key e) q, s)"
| in_progress: "sqla_record (in_progress_entry j) (sn_ledger s) = Inr l \<Longrightarrow> dstep fset retry_max (q, s) (q, s\<lparr>sn_ledger := l\<rparr>)"
| execute: "e \<in> set (q_execs q) \<Longrightarrow> ex_phase e = Holding \<Longrightarrow> rs_file rs = fset \<Longrightarrow>
    dstep fset retry_max (q, s) (execute_job rs (h :: unit host) info retry_max now (ex_job e) (q, s))"
| fire: "q_retries q = rs @ rp # rs' \<Longrightarrow> dstep fset retry_max (q, s) (fire_retry rp (q\<lparr>q_retries := rs @ rs'\<rparr>), s)"
| restart: "dstep fset retry_max (q, s) (restarted (q, s))"

definition fresh_station :: "file_table station \<Rightarrow> bool" where
  "fresh_station s \<longleftrightarrow> sn_ledger s = [] \<and> (\<forall>d doc. sn_files s d \<noteq> Sidecar doc)"

inductive dreachable :: "file_settings \<Rightarrow> nat \<Rightarrow> qstate \<times> file_table station \<Rightarrow> bool" for fset retry_max where
  init: "fresh_station s \<Longrightarrow> dreachable fset retry_max (empty_queue, s)"
| step: "dreachable fset retry_max x \<Longrightarrow> dstep fset retry_max x y \<Longrightarrow> dreachable fset retry_max y"

section \<open>The queue is refined\<close>

definition any_caller :: "nat option \<Rightarrow> trigger \<Rightarrow> bool" where
  "any_caller cap t \<longleftrightarrow> True"

lemma any_caller: "\<forall>cap t. any_caller cap t"
  by (simp add: any_caller_def)

text \<open>A step of the daemon is a step of the queue, several where a poll enqueues several jobs, or none.\<close>

definition simulated :: "nat \<Rightarrow> qstate \<Rightarrow> qstate \<Rightarrow> bool" where
  "simulated retry_max q q' \<longleftrightarrow> (\<forall>ok. (\<forall>cap t. ok cap t) \<longrightarrow> reachable ok retry_max q \<longrightarrow> reachable ok retry_max q')"

lemma simulated_step: "(\<And>ok. \<forall>cap t. ok cap t \<Longrightarrow> qstep ok retry_max q q') \<Longrightarrow> simulated retry_max q q'"
  unfolding simulated_def using reachable.step by metis

lemma simulated_refl [simp]: "simulated retry_max q q"
  by (simp add: simulated_def)

lemma execute_finishes:
  assumes "execute_job rs h info retry_max now i (q, s) = (q', s')"
  shows "(\<exists>r. q' = finish_job retry_max now r i q) \<or> q' = fail_job now i q"
  using assms by (auto simp: execute_job_def finish_job_def[of _ _ _ _ q] split: option.splits prod.splits sum.splits)

lemma poll_simulated:
  assumes "poll_and_enqueue (Some po) facts (Some elig) sonarr radarr hint q = Inr (q', n)"
  shows "simulated retry_max q q'"
  unfolding simulated_def
proof (intro allI impI)
  fix ok assume "\<forall>cap t. ok cap t" "reachable ok retry_max q"
  with assms show "reachable ok retry_max q'"
    by (cases rule: poll_cases) (auto intro: sweep_reachable)
qed

lemma execute_simulated:
  assumes "e \<in> set (q_execs q)" and "ex_phase e = Holding"
  shows "simulated retry_max q (fst (execute_job rs h info retry_max now (ex_job e) (q, s)))"
proof -
  obtain q' s' where x: "execute_job rs h info retry_max now (ex_job e) (q, s) = (q', s')" by fastforce
  from execute_finishes[OF x] have "simulated retry_max q q'"
  proof (elim disjE exE)
    fix r assume "q' = finish_job retry_max now r (ex_job e) q"
    with assms show ?thesis by (auto intro!: simulated_step intro: qstep.finish)
  next
    assume "q' = fail_job now (ex_job e) q"
    with assms show ?thesis by (auto intro!: simulated_step intro: qstep.fail)
  qed
  with x show ?thesis by simp
qed

lemma dstep_simulated:
  assumes "dstep fset retry_max (q, s) y"
  shows "simulated retry_max q (fst y)"
  using assms
proof (cases rule: dstep.cases)
  case poll
  then show ?thesis using poll_simulated by auto
next
  case execute
  then show ?thesis using execute_simulated by simp
qed (auto simp: restarted_def intro!: simulated_step intro: qstep.intros)


section \<open>What the executions leave\<close>

text \<open>Every sidecar is a checked translation of some subtitle.\<close>

definition checked :: "file_settings \<Rightarrow> 's station \<Rightarrow> bool" where
  "checked fset s \<longleftrightarrow> (\<forall>d doc. sn_files s d = Sidecar doc \<longrightarrow>
     (\<exists>src bible. validate_subdoc (fs_gate fset) (allowlist_of bible) doc src = None \<and> retexts (doc_lines src) (doc_lines doc)))"

lemma process_keeps:
  assumes "process_one_item rs h sqla_ops ei s = (r, s')" and "sqla_invar (sn_ledger s)" and "checked (rs_file rs) s"
  shows "sqla_invar (sn_ledger s') \<and> checked (rs_file rs) s'"
proof -
  from assms(1) obtain fr where fr: "translate_path rs h sqla_ops (ei_media ei) (chosen_source rs h ei) s = (fr, s')"
    by (auto simp: process_one_item_def split: prod.splits)
  have "sqla_invar (sn_ledger s')" using sqla.translated_frame(1)[OF assms(2) fr[unfolded sqla_ops_def]] .
  moreover have "checked (rs_file rs) s'"
    unfolding checked_def
  proof (intro allI impI)
    fix d doc assume f: "sn_files s' d = Sidecar doc"
    show "\<exists>src bible. validate_subdoc (fs_gate (rs_file rs)) (allowlist_of bible) doc src = None \<and> retexts (doc_lines src) (doc_lines doc)"
    proof (cases "sn_files s' d = sn_files s d")
      case True
      with f assms(3) show ?thesis unfolding checked_def by metis
    next
      case False
      from path_writes[OF fr False] f show ?thesis by auto
    qed
  qed
  ultimately show ?thesis by simp
qed

lemma execute_keeps:
  assumes "sqla_invar (sn_ledger s)" and "checked (rs_file rs) s"
  shows "sqla_invar (sn_ledger (snd (execute_job rs h info retry_max now i (q, s))))
    \<and> checked (rs_file rs) (snd (execute_job rs h info retry_max now i (q, s)))"
proof (cases "get_job i q")
  case (Some j)
  obtain r s' where p: "process_one_item rs (job_host info j h) sqla_ops (stub_item j) s = (r, s')" by fastforce
  with Some have "snd (execute_job rs h info retry_max now i (q, s)) = s'" by (simp add: execute_job_def split: sum.split)
  with process_keeps[OF p assms] show ?thesis by simp
qed (use assms in \<open>simp add: execute_job_def\<close>)

lemma dstep_keeps:
  assumes "dstep fset retry_max (q, s) y" and "sqla_invar (sn_ledger s)" and "checked fset s"
  shows "sqla_invar (sn_ledger (snd y)) \<and> checked fset (snd y)"
  using assms(1)
proof (cases rule: dstep.cases)
  case in_progress
  then show ?thesis using assms(2,3) sqla.record_invar by (auto simp: checked_def)
next
  case execute
  then show ?thesis using assms(2,3) by (auto simp: execute_keeps)
qed (use assms(2,3) in \<open>auto simp: restarted_def\<close>)

lemma daemon_invariant:
  "dreachable fset retry_max x \<Longrightarrow> reachable any_caller retry_max (fst x) \<and> sqla_invar (sn_ledger (snd x)) \<and> checked fset (snd x)"
proof (induction rule: dreachable.induct)
  case (init s)
  then show ?case by (simp add: reachable.init fresh_station_def sqla.invar_empty checked_def)
next
  case (step x y)
  obtain q s where x: "x = (q, s)" by fastforce
  with step.hyps(2) have d: "dstep fset retry_max (q, s) y" by simp
  from step.IH x have "reachable any_caller retry_max q" by simp
  with dstep_simulated[OF d, unfolded simulated_def, rule_format, OF any_caller[rule_format]]
  have "reachable any_caller retry_max (fst y)" by this
  with dstep_keeps[OF d] step.IH x show ?case by simp
qed

text \<open>In the daemon the source is the one of the job, whatever else is on offer.\<close>

lemma worker_source: "chosen_source rs h (stub_item j) = sub_path_of (job_source j)"
  by (simp add: chosen_source_def stub_item_def find_source_sub_def Let_def split: option.split)

lemma last_slash:
  assumes "47 \<in> set p"
  obtains a b where "p = a @ 47 # b" "47 \<notin> set b"
  using split_list_last[OF assms] by blast

lemma path_of_sub_path:
  assumes "47 \<in> set p"
  shows "path_str (sub_path_of p) = p"
proof -
  obtain a b where p: "p = a @ 47 # b" "47 \<notin> set b" by (rule last_slash[OF assms])
  then have "takeWhile (\<lambda>c. c \<noteq> 47) (rev p) = rev b" by (auto simp: takeWhile_append)
  then show ?thesis using p(1) by (simp add: path_str_def sub_path_of_def)
qed

section \<open>A sample execution\<close>

definition held :: qstate where
  "held = \<lparr>q_jobs = [\<lparr>job_id = 1, job_source = lit ''/m/S.en.srt'', job_series = None, job_status = Running, job_trigger = Manual,
     job_error = None, job_attempts = 1, job_media = None, job_started = Some 10, job_finished = None\<rparr>], q_work = [],
     q_execs = [\<lparr>ex_job = 1, ex_key = -1, ex_phase = Holding\<rparr>], q_retries = []\<rparr>"

lemma held_reachable: "dreachable fset r (held, sample_station)"
proof -
  have s: "fresh_station sample_station" by (simp add: fresh_station_def sample_station_def)
  let ?q1 = "fst (enqueue_job None (lit ''/m/S.en.srt'') None Manual None empty_queue)"
  let ?q2 = "dispatch ?q1"
  let ?q3 = "start_job 10 (ex_job \<lparr>ex_job = 1, ex_key = 0, ex_phase = Dispatched\<rparr>) ?q2"
  have a: "dreachable fset r (?q1, sample_station)"
    by (rule dreachable.step[OF dreachable.init[OF s] dstep.by_hand])
  have b: "dreachable fset r (?q2, sample_station)"
    by (rule dreachable.step[OF a dstep.dispatch]) (simp add: queue_eval)
  have c: "dreachable fset r (?q3, sample_station)"
    by (rule dreachable.step[OF b dstep.start]) (simp_all add: queue_eval)
  have "dreachable fset r (acquire_lock (ex_job \<lparr>ex_job = 1, ex_key = -1, ex_phase = Waiting\<rparr>) (ex_key \<lparr>ex_job = 1, ex_key = -1, ex_phase = Waiting\<rparr>) ?q3, sample_station)"
    by (rule dreachable.step[OF c dstep.acquire]) (simp_all add: queue_eval)
  moreover have "acquire_lock 1 (-1) ?q3 = held" by (simp add: queue_eval acquire_lock_def held_def)
  ultimately show ?thesis by simp
qed

definition after_held :: "qstate \<times> file_table station" where
  "after_held = execute_job sample_run (sample_host good_reply) (\<lambda>a. no_media) 2 20 1 (held, sample_station)"

lemma after_held_reachable: "dreachable sample_settings 2 after_held"
  unfolding after_held_def
proof (rule dreachable.step[OF held_reachable])
  have "dstep (rs_file sample_run) 2 (held, sample_station)
    (execute_job sample_run (sample_host good_reply) (\<lambda>a. no_media) 2 20 (ex_job \<lparr>ex_job = 1, ex_key = -1, ex_phase = Holding\<rparr>) (held, sample_station))"
    by (rule dstep.execute) (simp_all add: held_def)
  then show "dstep sample_settings 2 (held, sample_station)
    (execute_job sample_run (sample_host good_reply) (\<lambda>a. no_media) 2 20 1 (held, sample_station))"
    by (simp add: sample_run_def)
qed

lemma held_path: "sub_path_of (lit ''/m/S.en.srt'') = sample_path"
  by (simp add: sub_path_of_def sample_path_def lit_def)

lemma after_held_value:
  "after_held = (finish_job 2 20 \<lparr>ir_status = ItemDone, ir_reason = None, ir_error = None\<rparr> 1 held,
     ran_after (job_of (job_host (\<lambda>a. no_media) (hd (q_jobs held)) (sample_host good_reply)) (ei_media (stub_item (hd (q_jobs held)))) sample_path [7]))"
proof -
  let ?j = "hd (q_jobs held)"
  let ?h = "job_host (\<lambda>a. no_media) ?j (sample_host good_reply)"
  have g: "get_job 1 held = Some ?j" by (simp add: get_job_def held_def)
  have src: "chosen_source sample_run ?h (stub_item ?j) = sample_path" by (simp add: worker_source held_def held_path)
  have "translate_path sample_run ?h sqla_ops (ei_media (stub_item ?j)) sample_path sample_station
      = (FileDone (path_str (derive_vi_sidecar_path sample_path)), ran_after (job_of ?h (ei_media (stub_item ?j)) sample_path [7]))"
    by (rule good_path_run) (simp_all add: job_host_def held_def sample_host_def)
  then have "process_one_item sample_run ?h sqla_ops (stub_item ?j) sample_station
      = (Inr \<lparr>ir_status = ItemDone, ir_reason = None, ir_error = None\<rparr>, ran_after (job_of ?h (ei_media (stub_item ?j)) sample_path [7]))"
    by (simp add: process_one_item_def src item_outcome_def) (simp add: sample_run_def job_host_def held_def sample_host_def)
  with g show ?thesis by (simp add: after_held_def execute_job_def)
qed

section \<open>The outcome of a job\<close>

lemma find_update: "(\<And>j. job_id (f j) = job_id j) \<Longrightarrow>
    find (\<lambda>j. job_id j = i) (update_job i f js) = map_option f (find (\<lambda>j. job_id j = i) js)"
  by (induction js) (auto simp: update_job_def)

lemma apply_result_id: "job_id (apply_result now r j) = job_id j"
  by (simp add: apply_result_def Let_def split: item_status.split)

lemma get_job_update:
  "get_job i (q\<lparr>q_jobs := update_job i (apply_result now r) (q_jobs q), q_execs := es, q_retries := rt\<rparr>)
     = map_option (apply_result now r) (get_job i q)"
  "get_job i (q\<lparr>q_jobs := update_job i (\<lambda>j. j\<lparr>job_status := st, job_finished := fi, job_error := er\<rparr>) (q_jobs q), q_execs := es\<rparr>)
     = map_option (\<lambda>j. j\<lparr>job_status := st, job_finished := fi, job_error := er\<rparr>) (get_job i q)"
  by (simp_all add: get_job_def find_update apply_result_id)

lemma translate_outcome:
  assumes "sqla_invar (sn_ledger s)" and "translate_path rs h sqla_ops m p s = (r, s')"
  shows "case r of
      FileSkipped \<Rightarrow> s' = s
    | FileRaised es \<Rightarrow> sn_files s' = sn_files s
    | FileQuarantined reason \<Rightarrow> sn_files s' = sn_files s
        \<and> (\<exists>e. sqla_check (sn_ledger s') (path_str p) = Inr (Some e) \<and> le_status e = Quarantined)
    | FileDone d \<Rightarrow> (\<exists>e. sqla_check (sn_ledger s') (path_str p) = Inr (Some e) \<and> le_status e = Done)
        \<and> (\<exists>doc. sn_files s' (path_str (derive_vi_sidecar_path p)) = Sidecar doc)"
proof (cases "ho_bytes h (path_str p)")
  case (Inr b)
  let ?j = "job_of h m p b"
  obtain w where w: "translate_file (rs_file rs) (ho_around h (effective_model rs h m) (path_str p)) sqla_ops ?j
      (ho_subtitle h (path_str p)) (ho_write_error h (fj_dest ?j)) (at_file ?j s) = (r, w)" and s': "s' = put_file ?j w s"
    using assms(2) Inr by (auto simp: translate_path_def Let_def split: prod.splits)
  have "sqla_invar (w_ledger (at_file ?j s))" using assms(1) by simp
  from sqla.translate_file_recorded[OF this w[unfolded sqla_ops_def]]
  have o: "outcome_recorded sqla_check ?j (at_file ?j s) r w" by simp
  have same: "w_dest w = w_dest (at_file ?j s) \<Longrightarrow> sn_files s' = sn_files s" using s' by (auto simp: fun_eq_iff)
  show ?thesis
  proof (cases r)
    case FileSkipped
    with o s' show ?thesis by (simp add: outcome_recorded_def)
  next
    case (FileRaised es)
    with o same show ?thesis by (simp add: outcome_recorded_def)
  next
    case (FileQuarantined reason)
    with o same s' show ?thesis by (simp add: outcome_recorded_def quarantine_entry_def entry_of_def)
  next
    case (FileDone d)
    with o s' show ?thesis by (simp add: outcome_recorded_def done_entry_def entry_of_def)
  qed
qed (use assms in \<open>auto simp: translate_path_def\<close>)

section \<open>Properties\<close>





text \<open>In the daemon the ranking of sources, the override of the series and the inventory decide nothing.\<close>

lemma worker_keeps_scanned_source:
  "47 \<in> set (job_source j) \<Longrightarrow> path_str (chosen_source rs h (stub_item j)) = job_source j"
  by (simp add: worker_source path_of_sub_path)

end
