(* ===== verification/Settings_Api.thy ===== *)
theory Settings_Api
  imports Json
begin

text \<open>
  The settings of \<open>trezarr/config.py\<close> and the service that reads and writes them,
  \<open>trezarr/web/config_writer.py\<close> with the handlers of \<open>trezarr/web/routes/settings.py\<close>. Settings are a
  dictionary over the declared fields; the parsing and validation of a value are an argument, and
  so are the environment and whether the file can be written. A key is a string here as
  everywhere; that its type prints it masked is what \<open>settings_to_display_dict\<close> does not rely on.
\<close>

section \<open>The settings\<close>

text \<open>The declared fields with their defaults, a float as the number its literal denotes.\<close>

definition settings_defaults :: json_dict where
  "settings_defaults = [
    (lit ''llm_base_url'', JStr (lit ''http://localhost:1234/v1'')),
    (lit ''llm_api_key'', JStr (lit ''not-set'')),
    (lit ''llm_model'', JStr (lit ''gpt-4o'')),
    (lit ''llm_max_retries'', JInt 4),
    (lit ''llm_request_timeout'', JFloat (Finite 120)),
    (lit ''llm_max_concurrency'', JInt 4),
    (lit ''llm_structured_output_mode'', JStr (lit ''auto'')),
    (lit ''llm_disable_thinking'', JBool False),
    (lit ''enable_reasoning_analysis'', JBool True),
    (lit ''enable_reasoning_attribution'', JBool True),
    (lit ''llm_reasoning_effort'', JStr (lit ''high'')),
    (lit ''llm_context_window'', JInt 32768),
    (lit ''translate_chars_per_token'', JFloat (Finite (7 / 2))),
    (lit ''translate_overhead_fraction'', JFloat (Finite (3 / 10))),
    (lit ''translate_output_expansion'', JFloat (Finite (7 / 5))),
    (lit ''translate_max_cues_per_batch'', JInt 50),
    (lit ''translate_scene_gap_ms'', JInt 2000),
    (lit ''translate_context_lines_k'', JInt 3),
    (lit ''translate_batch_retry_attempts'', JInt 2),
    (lit ''enable_gate_repair'', JBool True),
    (lit ''gate_repair_max_attempts'', JInt 3),
    (lit ''enable_envelope_preservation'', JBool True),
    (lit ''translate_vi_diacritic_ratio'', JFloat (Finite (7 / 10))),
    (lit ''translate_quarantine_dir'', JStr (lit ''/config/quarantine'')),
    (lit ''translate_ledger_path'', JStr (lit ''/config/processed_files.json'')),
    (lit ''sonarr_host'', JStr []),
    (lit ''sonarr_port'', JInt 8989),
    (lit ''sonarr_api_key'', JStr []),
    (lit ''sonarr_enabled'', JBool False),
    (lit ''radarr_host'', JStr []),
    (lit ''radarr_port'', JInt 7878),
    (lit ''radarr_api_key'', JStr []),
    (lit ''radarr_enabled'', JBool False),
    (lit ''path_mappings'', JList []),
    (lit ''source_lang_priority'', JList [JStr (lit ''en'')]),
    (lit ''puid'', JInt (-1)),
    (lit ''pgid'', JInt (-1)),
    (lit ''umask'', JInt 18),
    (lit ''bible_db_url'', JStr (lit ''sqlite+aiosqlite:////config/trezarr.db'')),
    (lit ''bible_db_run_migrations_on_startup'', JBool True),
    (lit ''bible_db_enable_wal'', JBool True),
    (lit ''bible_db_enforce_fk'', JBool True),
    (lit ''enable_pass1_analysis'', JBool True),
    (lit ''pass1_max_cues_per_chunk'', JInt 400),
    (lit ''enable_attribution'', JBool True),
    (lit ''attribute_context_lines_k'', JInt 8),
    (lit ''attribute_max_cues_per_batch'', JInt 30),
    (lit ''pronoun_confidence_threshold'', JStr (lit ''medium'')),
    (lit ''pronoun_safe_default'', JNull),
    (lit ''enable_relationship_events'', JBool True),
    (lit ''relationship_event_min_confidence'', JFloat (Finite 0)),
    (lit ''enable_self_review'', JBool True),
    (lit ''self_review_context_lines_k'', JInt 3),
    (lit ''self_review_max_cues_per_batch'', JInt 20),
    (lit ''web_host'', JStr (lit ''0.0.0.0'')),
    (lit ''web_port'', JInt 6868),
    (lit ''poll_interval_seconds'', JInt 900),
    (lit ''enable_webhooks'', JBool True),
    (lit ''enable_watchfiles'', JBool False),
    (lit ''worker_max_concurrent_series'', JInt 2),
    (lit ''bazarr_host'', JStr []),
    (lit ''bazarr_port'', JInt 6767),
    (lit ''bazarr_api_key'', JStr []),
    (lit ''bazarr_enabled'', JBool False),
    (lit ''bazarr_use_inventory'', JBool True),
    (lit ''auto_translate_enabled'', JBool False),
    (lit ''job_max_auto_attempts'', JInt 5),
    (lit ''job_auto_retry_max'', JInt 2),
    (lit ''job_auto_retry_delay_s'', JFloat (Finite 30))]"

definition model_fields :: "pystr list" where
  "model_fields = map fst settings_defaults"

text \<open>The environment comes first, then the file, then the default, which is not validated.\<close>

definition field_source :: "(pystr \<Rightarrow> json option) \<Rightarrow> json_dict \<Rightarrow> pystr \<Rightarrow> json option" where
  "field_source env yaml k = (case env k of Some v \<Rightarrow> Some v | None \<Rightarrow> get_key k yaml)"

fun load_fields :: "(pystr \<Rightarrow> json \<Rightarrow> json option) \<Rightarrow> (pystr \<Rightarrow> json option) \<Rightarrow> json_dict \<Rightarrow> json_dict \<Rightarrow> json_dict option" where
  "load_fields validate env yaml [] = Some []"
| "load_fields validate env yaml ((k, d) # ds) =
     (case (case field_source env yaml k of None \<Rightarrow> Some d | Some v \<Rightarrow> validate k v) of
        None \<Rightarrow> None
      | Some v \<Rightarrow> map_option (\<lambda>rest. (k, v) # rest) (load_fields validate env yaml ds))"

definition load_settings :: "(pystr \<Rightarrow> json \<Rightarrow> json option) \<Rightarrow> (pystr \<Rightarrow> json option) \<Rightarrow> json_dict option \<Rightarrow> json_dict option" where
  "load_settings validate env file = load_fields validate env (case file of None \<Rightarrow> [] | Some y \<Rightarrow> y) settings_defaults"

section \<open>Reading\<close>

definition SECRET_FIELDS :: "pystr list" where
  "SECRET_FIELDS = [lit ''llm_api_key'', lit ''sonarr_api_key'', lit ''radarr_api_key'', lit ''bazarr_api_key'']"

definition SENTINEL :: pystr where
  "SENTINEL = lit ''**REDACTED**''"

definition RESTART_REQUIRED_FIELDS :: "pystr list" where
  "RESTART_REQUIRED_FIELDS = [lit ''bible_db_url'', lit ''web_host'', lit ''web_port'', lit ''poll_interval_seconds'']"

definition masked :: "json \<Rightarrow> json" where
  "masked v = JDict [(lit ''is_set'', JBool (holds v)), (lit ''value'', JStr SENTINEL)]"

definition settings_to_display_dict :: "json_dict \<Rightarrow> json_dict" where
  "settings_to_display_dict s = map (\<lambda>(k, v). (k, if k \<in> set SECRET_FIELDS then masked v else v)) s"

text \<open>The fields whose variable is in the environment.\<close>

definition upper_name :: "pystr \<Rightarrow> pystr" where
  "upper_name = map (\<lambda>c. if 97 \<le> c \<and> c \<le> 122 then c - 32 else c)"

definition get_env_locked_fields :: "(pystr \<Rightarrow> bool) \<Rightarrow> pystr list" where
  "get_env_locked_fields in_env = filter (\<lambda>k. in_env (lit ''TREZARR_'' @ upper_name k)) model_fields"

section \<open>Writing\<close>

text \<open>The entries of the patch, one after the other.\<close>

fun apply_patch :: "json_dict \<Rightarrow> json_dict \<Rightarrow> json_dict" where
  "apply_patch d [] = d"
| "apply_patch d ((k, v) # kvs) =
     (if k \<notin> set model_fields then apply_patch d kvs
      else if k \<in> set SECRET_FIELDS \<and> v = JStr SENTINEL then apply_patch d kvs
      else apply_patch (set_key k v d) kvs)"

definition services :: "pystr list" where
  "services = [lit ''sonarr'', lit ''radarr'', lit ''bazarr'']"

definition host_key :: "pystr \<Rightarrow> pystr" where
  "host_key svc = svc @ lit ''_host''"

definition api_key_key :: "pystr \<Rightarrow> pystr" where
  "api_key_key svc = svc @ lit ''_api_key''"

definition enabled_key :: "pystr \<Rightarrow> pystr" where
  "enabled_key svc = svc @ lit ''_enabled''"

text \<open>A host and a key that is not the sentinel.\<close>

definition connected :: "json_dict \<Rightarrow> pystr \<Rightarrow> bool" where
  "connected d svc \<longleftrightarrow> (let host = get_or (JStr []) (host_key svc) d; key = get_or (JStr []) (api_key_key svc) d
     in holds host \<and> holds key \<and> key \<noteq> JStr SENTINEL)"

fun auto_enable :: "json_dict \<Rightarrow> pystr list \<Rightarrow> json_dict" where
  "auto_enable d [] = d"
| "auto_enable d (svc # svcs) =
     auto_enable (if connected d svc \<and> \<not> holds (get_or (JBool False) (enabled_key svc) d)
                  then set_key (enabled_key svc) (JBool True) d else d) svcs"

definition written_settings :: "json_dict option \<Rightarrow> json_dict \<Rightarrow> json_dict" where
  "written_settings file patch = auto_enable (apply_patch (case file of None \<Rightarrow> [] | Some y \<Rightarrow> y) patch) services"

section \<open>The handler\<close>

record config_state =
  cf_file :: "json_dict option"
  cf_active :: json_dict

record put_reply =
  pr_restart :: "pystr list"
  pr_persisted :: bool

definition put_settings ::
  "(pystr \<Rightarrow> json \<Rightarrow> json option) \<Rightarrow> (pystr \<Rightarrow> json option) \<Rightarrow> bool \<Rightarrow> json_dict \<Rightarrow> config_state \<Rightarrow> put_reply \<times> config_state" where
  "put_settings validate env writable patch c =
     (let c1 = (if writable then c\<lparr>cf_file := Some (written_settings (cf_file c) patch)\<rparr> else c);
          c2 = (case load_settings validate env (cf_file c1) of None \<Rightarrow> c1 | Some s \<Rightarrow> c1\<lparr>cf_active := s\<rparr>)
      in (\<lparr>pr_restart = map fst (filter (\<lambda>(k, v). k \<in> set RESTART_REQUIRED_FIELDS \<and> v \<noteq> JStr SENTINEL) patch),
           pr_persisted = writable\<rparr>, c2))"

section \<open>What is written\<close>

lemma get_apply_patch:
  "distinct (map fst patch) \<Longrightarrow> get_key k (apply_patch d patch) =
     (case get_key k patch of
        Some v \<Rightarrow> (if k \<in> set model_fields \<and> \<not> (k \<in> set SECRET_FIELDS \<and> v = JStr SENTINEL) then Some v else get_key k d)
      | None \<Rightarrow> get_key k d)"
proof (induction patch arbitrary: d)
  case Nil
  then show ?case by (simp add: get_key_def)
next
  case (Cons kv patch)
  obtain k' v where kv: "kv = (k', v)" by fastforce
  from Cons.prems kv have fresh: "get_key k' patch = None" and dist: "distinct (map fst patch)"
    by (auto simp: get_key_def map_of_eq_None_iff)
  from Cons.IH[OF dist] fresh kv show ?case
    by (auto simp: get_key_def[of k "(k', v) # patch"] get_key_def[symmetric] get_set_key split: option.splits)
qed

lemma service_keys:
  "svc \<in> set services \<Longrightarrow> svc' \<in> set services \<Longrightarrow> enabled_key svc \<noteq> host_key svc' \<and> enabled_key svc \<noteq> api_key_key svc'
     \<and> (enabled_key svc = enabled_key svc' \<longleftrightarrow> svc = svc')"
  by (auto simp: services_def enabled_key_def host_key_def api_key_key_def lit_def)

lemma connected_set: "svc \<in> set services \<Longrightarrow> svc' \<in> set services \<Longrightarrow> connected (set_key (enabled_key svc) v d) svc' = connected d svc'"
  using service_keys[of svc svc'] by (simp add: connected_def get_or_def get_set_key eq_commute Let_def)

lemma get_auto_enable:
  "set svcs \<subseteq> set services \<Longrightarrow> distinct svcs \<Longrightarrow> get_key k (auto_enable d svcs) =
     (if \<exists>svc \<in> set svcs. k = enabled_key svc \<and> connected d svc \<and> \<not> holds (get_or (JBool False) k d) then Some (JBool True) else get_key k d)"
proof (induction svcs arbitrary: d)
  case (Cons svc svcs)
  let ?on = "connected d svc \<and> \<not> holds (get_or (JBool False) (enabled_key svc) d)"
  let ?d = "if ?on then set_key (enabled_key svc) (JBool True) d else d"
  have s: "svc \<in> set services" "svc \<notin> set svcs" "set svcs \<subseteq> set services" "distinct svcs" using Cons.prems by auto
  have c: "connected ?d svc' = connected d svc'" if "svc' \<in> set svcs" for svc'
    using connected_set[OF s(1)] s(3) that by auto
  have o: "get_key (enabled_key svc') ?d = get_key (enabled_key svc') d" if "svc' \<in> set svcs" for svc'
    using service_keys[OF s(1), of svc'] s(2,3) that by (auto simp: get_set_key)
  show ?case
  proof (cases "\<exists>svc' \<in> set svcs. k = enabled_key svc'")
    case True
    then obtain svc' where k: "svc' \<in> set svcs" "k = enabled_key svc'" by blast
    then have "k \<noteq> enabled_key svc" using service_keys[OF s(1), of svc'] s(2,3) by auto
    moreover have "get_or v k ?d = get_or v k d" for v using o[OF k(1)] k(2) by (simp add: get_or_def)
    ultimately show ?thesis using Cons.IH[OF s(3,4), of ?d] c o[OF k(1)] k(2) by auto
  next
    case False
    then show ?thesis using Cons.IH[OF s(3,4), of ?d] by (auto simp: get_set_key)
  qed
qed simp

lemma distinct_services: "distinct services"
  by (simp add: services_def lit_def)

definition stored :: "json_dict option \<Rightarrow> json_dict" where
  "stored file = (case file of None \<Rightarrow> [] | Some y \<Rightarrow> y)"

lemma get_written:
  assumes "distinct (map fst patch)"
  shows "get_key k (written_settings file patch) =
    (if \<exists>svc \<in> set services. k = enabled_key svc \<and> connected (apply_patch (stored file) patch) svc
          \<and> \<not> holds (get_or (JBool False) k (apply_patch (stored file) patch))
     then Some (JBool True)
     else case get_key k patch of
        Some v \<Rightarrow> (if k \<in> set model_fields \<and> \<not> (k \<in> set SECRET_FIELDS \<and> v = JStr SENTINEL) then Some v else get_key k (stored file))
      | None \<Rightarrow> get_key k (stored file))"
  unfolding written_settings_def stored_def[symmetric]
  by (subst get_auto_enable[OF subset_refl distinct_services]) (simp only: get_apply_patch[OF assms])

lemma enabled_declared: "svc \<in> set services \<Longrightarrow> enabled_key svc \<in> set model_fields \<and> enabled_key svc \<notin> set SECRET_FIELDS"
  by (auto simp: services_def enabled_key_def model_fields_def settings_defaults_def SECRET_FIELDS_def lit_def)

lemma secret_declared: "set SECRET_FIELDS \<subseteq> set model_fields"
  by (simp add: model_fields_def settings_defaults_def SECRET_FIELDS_def)

section \<open>Samples\<close>

definition linked_file :: json_dict where
  "linked_file = [(lit ''sonarr_host'', JStr (lit ''h'')), (lit ''sonarr_api_key'', JStr (lit ''k'')), (lit ''sonarr_enabled'', JBool True)]"

definition switch_off :: json_dict where
  "switch_off = [(lit ''sonarr_enabled'', JBool False), (lit ''sonarr_api_key'', JStr SENTINEL)]"

lemma sample_keys: "enabled_key (lit ''sonarr'') = lit ''sonarr_enabled''" "host_key (lit ''sonarr'') = lit ''sonarr_host''"
  "api_key_key (lit ''sonarr'') = lit ''sonarr_api_key''"
  by (simp_all add: enabled_key_def host_key_def api_key_key_def lit_def)

lemma sample_fields: "lit ''sonarr_enabled'' \<in> set model_fields" "lit ''sonarr_enabled'' \<notin> set SECRET_FIELDS"
  "lit ''sonarr_api_key'' \<in> set model_fields" "lit ''sonarr_api_key'' \<in> set SECRET_FIELDS"
  using enabled_declared[of "lit ''sonarr''"] secret_declared by (auto simp: sample_keys services_def SECRET_FIELDS_def)

lemma sample_distinct: "distinct (map fst switch_off)" "distinct (map fst linked_file)"
  by (simp_all add: switch_off_def linked_file_def lit_def)

section \<open>Properties\<close>



text \<open>
  What the settings page is shown does not depend on the keys: two settings that differ only in
  the values of their keys, and agree on which keys are set, are displayed alike.
\<close>

theorem display_hides_keys:
  assumes "list_all2 (\<lambda>(k, v) (k', v'). k = k' \<and> (if k \<in> set SECRET_FIELDS then holds v = holds v' else v = v')) s s'"
  shows "settings_to_display_dict s = settings_to_display_dict s'"
  using assms unfolding settings_to_display_dict_def
  by (induction rule: list_all2_induct) (auto simp: masked_def split: if_splits)

theorem display_hides_keys_witness:
  "settings_to_display_dict [(lit ''llm_api_key'', JStr (lit ''a'')), (lit ''web_port'', JInt 1)]
     = settings_to_display_dict [(lit ''llm_api_key'', JStr (lit ''b'')), (lit ''web_port'', JInt 1)]"
  by (rule display_hides_keys) (simp add: SECRET_FIELDS_def lit_def)

text \<open>
  A service with a host and a key cannot be switched off: whatever the patch says, the file then
  has it enabled, also where the patch itself says that it is not.
\<close>

theorem connected_service_enabled:
  assumes "distinct (map fst patch)" and "svc \<in> set services" and "connected (written_settings file patch) svc"
  shows "holds (get_or (JBool False) (enabled_key svc) (written_settings file patch))"
proof -
  let ?d = "apply_patch (stored file) patch"
  have key: "get_key k (written_settings file patch) = get_key k ?d" if "\<forall>svc' \<in> set services. k \<noteq> enabled_key svc'" for k
    unfolding written_settings_def stored_def[symmetric] using that by (subst get_auto_enable[OF subset_refl distinct_services]) auto
  have "get_key (host_key svc) (written_settings file patch) = get_key (host_key svc) ?d"
    "get_key (api_key_key svc) (written_settings file patch) = get_key (api_key_key svc) ?d"
    using service_keys[OF _ assms(2)] by (auto intro!: key simp: eq_commute)
  with assms(3) have on: "connected ?d svc" by (simp add: connected_def get_or_def)
  show ?thesis
  proof (cases "holds (get_or (JBool False) (enabled_key svc) ?d)")
    case True
    then have "get_key (enabled_key svc) (written_settings file patch) = get_key (enabled_key svc) ?d"
      unfolding written_settings_def stored_def[symmetric] by (subst get_auto_enable[OF subset_refl distinct_services]) auto
    with True show ?thesis by (simp add: get_or_def)
  next
    case False
    with on assms(2) have "get_key (enabled_key svc) (written_settings file patch) = Some (JBool True)"
      unfolding written_settings_def stored_def[symmetric] by (subst get_auto_enable[OF subset_refl distinct_services]) auto
    then show ?thesis by (simp add: get_or_def)
  qed
qed

theorem connected_service_enabled_witness:
  "get_key (lit ''sonarr_enabled'') switch_off = Some (JBool False)
   \<and> holds (get_or (JBool False) (lit ''sonarr_enabled'') (written_settings (Some linked_file) switch_off))"
proof -
  have f: "get_key (lit ''sonarr_enabled'') switch_off = Some (JBool False)" by (simp add: switch_off_def get_key_def)
  have s: "lit ''sonarr'' \<in> set services" by (simp add: services_def)
  have h: "get_key (lit ''sonarr_host'') (written_settings (Some linked_file) switch_off) = Some (JStr (lit ''h''))"
    unfolding get_written[OF sample_distinct(1)]
    by (simp add: services_def enabled_key_def switch_off_def linked_file_def stored_def get_key_def lit_def)
  have kept: "get_key (lit ''sonarr_api_key'') (written_settings (Some linked_file) switch_off) = Some (JStr (lit ''k''))"
    unfolding get_written[OF sample_distinct(1)]
    by (simp add: services_def enabled_key_def switch_off_def linked_file_def stored_def get_key_def SECRET_FIELDS_def lit_def)
  have "connected (written_settings (Some linked_file) switch_off) (lit ''sonarr'')"
    by (simp add: connected_def get_or_def sample_keys h kept) (simp add: lit_def SENTINEL_def)
  from connected_service_enabled[OF sample_distinct(1) s this] f show ?thesis
    by (simp add: sample_keys)
qed

text \<open>
  Sending back what was read destroys the keys: the page is given a dictionary in the place of
  each key, the writer only knows the bare sentinel, and the file then holds the dictionary.
\<close>

theorem read_then_write_loses_keys:
  assumes "distinct (map fst s)" and "k \<in> set SECRET_FIELDS" and "get_key k s = Some v"
  shows "get_key k (written_settings file (settings_to_display_dict s)) = Some (masked v)"
proof -
  have f: "map fst (settings_to_display_dict s) = map fst s"
    by (simp add: settings_to_display_dict_def case_prod_beta comp_def)
  have g: "get_key k (settings_to_display_dict s) = Some (masked v)"
    using assms(2,3) unfolding settings_to_display_dict_def get_key_def
    by (induction s) auto
  have "\<nexists>svc. svc \<in> set services \<and> k = enabled_key svc" using enabled_declared assms(2) by auto
  with g assms(2) secret_declared show ?thesis unfolding get_written[OF assms(1)[folded f]]
    by (auto simp: masked_def)
qed

theorem read_then_write_loses_keys_witness:
  "get_key (lit ''sonarr_api_key'') (written_settings (Some linked_file) (settings_to_display_dict linked_file))
     = Some (masked (JStr (lit ''k'')))"
proof -
  have "get_key (lit ''sonarr_api_key'') linked_file = Some (JStr (lit ''k''))" by (simp add: linked_file_def get_key_def lit_def)
  from read_then_write_loses_keys[OF sample_distinct(2) sample_fields(4) this] show ?thesis .
qed

end
