(* ===== verification/Llm_Tiers.thy ===== *)
theory Llm_Tiers
  imports Prelude
begin

text \<open>
  The model client of \<open>trezarr/llm/client.py\<close>: the three ways of asking for a structured answer and
  the order in which a call degrades from one to the next, with the metrics of
  \<open>trezarr/llm/metrics.py\<close>. The endpoint behind the SDK is an argument; durations and the limit on
  concurrent calls are left out.
\<close>

section \<open>Requests and answers\<close>

datatype output_mode = Auto | JsonSchema | JsonObject | PlainText

datatype format = NoFormat | Schema | JsonFormat

datatype thinking_args = NoThinkingArgs | ThinkingDisabled | ThinkingEnabled pystr

record request =
  rq_parse :: bool
  rq_model :: pystr
  rq_format :: format
  rq_thinking :: thinking_args

text \<open>The error classes of the SDK that the client tells apart.\<close>

datatype sdk_error = BadRequest | Unprocessable | OtherApiError | NotApiError

record 'p message =
  ms_refusal :: "pystr option"
  ms_parsed :: "'p option"
  ms_content :: "pystr option"

record 'p answer =
  an_usage :: "(nat option \<times> nat option) option"
  an_choices :: "'p message list"

type_synonym 'p endpoint = "request \<Rightarrow> sdk_error + 'p answer"

datatype 'p llm_result =
    Parsed 'p
  | Content pystr
  | Refused pystr
  | EmptyContent nat
  | NoChoice
  | SdkFailure sdk_error
  | NoMessages

section \<open>Metrics\<close>

record collector =
  co_calls :: nat
  co_prompt :: nat
  co_completion :: nat

definition record_call :: "'p answer \<Rightarrow> collector \<Rightarrow> collector" where
  "record_call a c = (let count = (\<lambda>x. case x of None \<Rightarrow> 0 | Some n \<Rightarrow> n) in
     c\<lparr>co_calls := co_calls c + 1,
       co_prompt := co_prompt c + (case an_usage a of None \<Rightarrow> 0 | Some (p, q) \<Rightarrow> count p),
       co_completion := co_completion c + (case an_usage a of None \<Rightarrow> 0 | Some (p, q) \<Rightarrow> count q)\<rparr>)"

section \<open>The tiers\<close>

record client =
  cl_mode :: output_mode
  cl_model :: pystr
  cl_disable_thinking :: bool
  cl_effort :: pystr

definition call_thinking :: "client \<Rightarrow> bool option \<Rightarrow> thinking_args" where
  "call_thinking cl thinking = (case thinking of
     None \<Rightarrow> (if cl_disable_thinking cl then ThinkingDisabled else NoThinkingArgs)
   | Some False \<Rightarrow> ThinkingDisabled
   | Some True \<Rightarrow> ThinkingEnabled (cl_effort cl))"

definition effective_model_name :: "client \<Rightarrow> pystr option \<Rightarrow> pystr" where
  "effective_model_name cl model = (case model of Some m \<Rightarrow> (if m = [] then cl_model cl else m) | None \<Rightarrow> cl_model cl)"

text \<open>What an answer of a tier is taken for; the first tier looks for a refusal and a parsed object.\<close>

definition tier1_result :: "bool \<Rightarrow> 'p answer \<Rightarrow> 'p llm_result" where
  "tier1_result structured a = (case an_choices a of
     [] \<Rightarrow> NoChoice
   | m # ms \<Rightarrow>
       (if truthy (ms_refusal m) then Refused (or_empty (ms_refusal m))
        else case (if structured then ms_parsed m else None) of
          Some p \<Rightarrow> Parsed p
        | None \<Rightarrow> (case ms_content m of None \<Rightarrow> EmptyContent 1 | Some t \<Rightarrow> Content t)))"

definition text_result :: "nat \<Rightarrow> 'p answer \<Rightarrow> 'p llm_result" where
  "text_result tier a = (case an_choices a of
     [] \<Rightarrow> NoChoice
   | m # ms \<Rightarrow> (case ms_content m of None \<Rightarrow> EmptyContent tier | Some t \<Rightarrow> Content t))"

definition downgrades1 :: "output_mode \<Rightarrow> sdk_error \<Rightarrow> bool" where
  "downgrades1 mode e \<longleftrightarrow> e \<noteq> NotApiError \<and> mode \<noteq> JsonSchema"

definition downgrades2 :: "output_mode \<Rightarrow> sdk_error \<Rightarrow> bool" where
  "downgrades2 mode e \<longleftrightarrow> (e = BadRequest \<or> e = Unprocessable) \<and> mode \<noteq> JsonObject"

text \<open>The result, the requests sent, and the metrics.\<close>

definition tier3 :: "client \<Rightarrow> 'p endpoint \<Rightarrow> pystr \<Rightarrow> thinking_args \<Rightarrow> collector \<Rightarrow> 'p llm_result \<times> request list \<times> collector" where
  "tier3 cl ep model args c =
     (let rq = \<lparr>rq_parse = False, rq_model = model, rq_format = NoFormat, rq_thinking = args\<rparr> in
      case ep rq of
        Inl e \<Rightarrow> (SdkFailure e, [rq], c)
      | Inr a \<Rightarrow> (text_result 3 a, [rq], record_call a c))"

definition tier2 :: "client \<Rightarrow> 'p endpoint \<Rightarrow> bool \<Rightarrow> pystr \<Rightarrow> thinking_args \<Rightarrow> collector \<Rightarrow> 'p llm_result \<times> request list \<times> collector" where
  "tier2 cl ep structured model args c =
     (if cl_mode cl \<in> {Auto, JsonObject} \<and> structured
      then let rq = \<lparr>rq_parse = False, rq_model = model, rq_format = JsonFormat, rq_thinking = args\<rparr> in
        (case ep rq of
           Inr a \<Rightarrow> (text_result 2 a, [rq], record_call a c)
         | Inl e \<Rightarrow> (if downgrades2 (cl_mode cl) e
             then let (r, rqs, c') = tier3 cl ep model args c in (r, rq # rqs, c')
             else (SdkFailure e, [rq], c)))
      else tier3 cl ep model args c)"

definition call_with_fallback ::
  "client \<Rightarrow> 'p endpoint \<Rightarrow> bool \<Rightarrow> pystr option \<Rightarrow> bool option \<Rightarrow> collector \<Rightarrow> 'p llm_result \<times> request list \<times> collector" where
  "call_with_fallback cl ep structured model_override thinking c =
     (let model = effective_model_name cl model_override; args = call_thinking cl thinking in
      if cl_mode cl \<in> {Auto, JsonSchema}
      then let rq = \<lparr>rq_parse = True, rq_model = model, rq_format = (if structured then Schema else NoFormat), rq_thinking = args\<rparr> in
        (case ep rq of
           Inr a \<Rightarrow> (tier1_result structured a, [rq], record_call a c)
         | Inl e \<Rightarrow> (if downgrades1 (cl_mode cl) e
             then let (r, rqs, c') = tier2 cl ep structured model args c in (r, rq # rqs, c')
             else (SdkFailure e, [rq], c)))
      else tier2 cl ep structured model args c)"

definition llm_call ::
  "client \<Rightarrow> 'p endpoint \<Rightarrow> nat \<Rightarrow> bool \<Rightarrow> pystr option \<Rightarrow> bool option \<Rightarrow> collector \<Rightarrow> 'p llm_result \<times> request list \<times> collector" where
  "llm_call cl ep messages structured model thinking c =
     (if messages = 0 then (NoMessages, [], c) else call_with_fallback cl ep structured model thinking c)"

section \<open>The order of degradation\<close>

text \<open>The formats a mode may go through, in order.\<close>

definition plan :: "output_mode \<Rightarrow> bool \<Rightarrow> (bool \<times> format) list" where
  "plan mode structured = (case mode of
     Auto \<Rightarrow> (if structured then [(True, Schema), (False, JsonFormat), (False, NoFormat)] else [(True, NoFormat), (False, NoFormat)])
   | JsonSchema \<Rightarrow> [(True, if structured then Schema else NoFormat)]
   | JsonObject \<Rightarrow> [(False, if structured then JsonFormat else NoFormat)]
   | PlainText \<Rightarrow> [(False, NoFormat)])"

definition kind_of :: "request \<Rightarrow> bool \<times> format" where
  "kind_of rq = (rq_parse rq, rq_format rq)"

text \<open>An error of the first tier passes to the next for any class of the SDK, one of the second only
  where the endpoint rejects the request.\<close>

definition passed_on :: "'p endpoint \<Rightarrow> request \<Rightarrow> bool" where
  "passed_on ep rq \<longleftrightarrow> (\<exists>e. ep rq = Inl e \<and> e \<noteq> NotApiError \<and> (rq_parse rq \<or> e = BadRequest \<or> e = Unprocessable))"

definition result_of :: "'p endpoint \<Rightarrow> bool \<Rightarrow> request \<Rightarrow> 'p llm_result" where
  "result_of ep structured rq = (case ep rq of
     Inl e \<Rightarrow> SdkFailure e
   | Inr a \<Rightarrow> (if rq_parse rq then tier1_result structured a else text_result (if rq_format rq = JsonFormat then 2 else 3) a))"

definition ordered ::
  "'p endpoint \<Rightarrow> bool \<Rightarrow> pystr \<Rightarrow> thinking_args \<Rightarrow> (bool \<times> format) list \<Rightarrow> 'p llm_result \<Rightarrow> request list \<Rightarrow> bool" where
  "ordered ep structured model args ks r rqs \<longleftrightarrow>
     rqs \<noteq> [] \<and> map kind_of rqs = take (length rqs) ks
     \<and> (\<forall>x \<in> set rqs. rq_model x = model \<and> rq_thinking x = args)
     \<and> (\<forall>x \<in> set (butlast rqs). passed_on ep x)
     \<and> (passed_on ep (last rqs) \<longrightarrow> length rqs = length ks)
     \<and> r = result_of ep structured (last rqs)"

definition counted :: "'p endpoint \<Rightarrow> request list \<Rightarrow> nat" where
  "counted ep rqs = (case ep (last rqs) of Inl e \<Rightarrow> 0 | Inr a \<Rightarrow> 1)"

lemma ordered_last:
  "\<lbrakk>kind_of rq = k; rq_model rq = model; rq_thinking rq = args; passed_on ep rq \<Longrightarrow> ks = []; r = result_of ep structured rq\<rbrakk>
     \<Longrightarrow> ordered ep structured model args (k # ks) r [rq]"
  by (auto simp: ordered_def)

lemma ordered_step:
  "\<lbrakk>kind_of rq = k; rq_model rq = model; rq_thinking rq = args; passed_on ep rq; ordered ep structured model args ks r rqs\<rbrakk>
     \<Longrightarrow> ordered ep structured model args (k # ks) r (rq # rqs)"
  by (auto simp: ordered_def)

definition plan2 :: "output_mode \<Rightarrow> bool \<Rightarrow> (bool \<times> format) list" where
  "plan2 mode structured =
     (if mode \<in> {Auto, JsonObject} \<and> structured then (False, JsonFormat) # (if mode = Auto then [(False, NoFormat)] else [])
      else [(False, NoFormat)])"

lemma record_call_calls [simp]: "co_calls (record_call a c) = co_calls c + 1"
  by (simp add: record_call_def Let_def)

lemma tier3_ordered:
  "tier3 cl ep model args c = (r, rqs, c') \<Longrightarrow>
     ordered ep structured model args [(False, NoFormat)] r rqs \<and> co_calls c' = co_calls c + counted ep rqs"
  by (auto simp: tier3_def Let_def counted_def kind_of_def result_of_def intro!: ordered_last split: sum.splits)

lemma tier2_ordered:
  assumes "tier2 cl ep structured model args c = (r, rqs, c')"
  shows "ordered ep structured model args (plan2 (cl_mode cl) structured) r rqs \<and> co_calls c' = co_calls c + counted ep rqs"
proof (cases "cl_mode cl \<in> {Auto, JsonObject} \<and> structured")
  case False
  with assms have t: "tier3 cl ep model args c = (r, rqs, c')" by (auto simp: tier2_def)
  from tier3_ordered[OF t, of structured] False show ?thesis by (auto simp: plan2_def)
next
  case True
  let ?rq = "\<lparr>rq_parse = False, rq_model = model, rq_format = JsonFormat, rq_thinking = args\<rparr>"
  have p: "plan2 (cl_mode cl) structured = (False, JsonFormat) # (if cl_mode cl = Auto then [(False, NoFormat)] else [])"
    using True by (simp add: plan2_def)
  show ?thesis
  proof (cases "ep ?rq")
    case (Inr a)
    with True assms have "rqs = [?rq]" "r = text_result 2 a" "c' = record_call a c" by (auto simp: tier2_def)
    with Inr show ?thesis unfolding p by (auto intro!: ordered_last simp: kind_of_def passed_on_def result_of_def counted_def)
  next
    case (Inl e)
    show ?thesis
    proof (cases "downgrades2 (cl_mode cl) e")
      case d: True
      obtain rqs' where t: "tier3 cl ep model args c = (r, rqs', c')" "rqs = ?rq # rqs'"
        using assms True Inl d by (auto simp: tier2_def Let_def split: prod.splits)
      with tier3_ordered[OF t(1)] d True Inl show ?thesis unfolding p
        by (auto intro!: ordered_step simp: kind_of_def passed_on_def downgrades2_def counted_def ordered_def)
    next
      case False
      with assms True Inl have "rqs = [?rq]" "r = SdkFailure e" "c' = c" by (auto simp: tier2_def)
      with Inl False True show ?thesis unfolding p
        by (auto intro!: ordered_last simp: kind_of_def passed_on_def result_of_def counted_def downgrades2_def)
    qed
  qed
qed

definition sample_client :: "output_mode \<Rightarrow> client" where
  "sample_client mode = \<lparr>cl_mode = mode, cl_model = lit ''m'', cl_disable_thinking = True, cl_effort = lit ''high''\<rparr>"

definition no_collector :: collector where
  "no_collector = \<lparr>co_calls = 0, co_prompt = 0, co_completion = 0\<rparr>"

definition plain_endpoint :: "unit endpoint" where
  "plain_endpoint rq = (if rq_format rq = NoFormat
     then Inr \<lparr>an_usage = Some (Some 5, None), an_choices = [\<lparr>ms_refusal = None, ms_parsed = None, ms_content = Some (lit ''ok'')\<rparr>]\<rparr>
     else Inl BadRequest)"

section \<open>Properties\<close>



text \<open>
  A request the first tier cannot get through, because the connection fails or the quota is used up, is
  sent again in the next format, which the module documents it is not: the second tier tells
  these errors from a rejection, the first does not.
\<close>

lemma connection_error_degrades:
  "\<exists>rqs. call_with_fallback (sample_client Auto) (\<lambda>rq. if rq_parse rq then Inl OtherApiError else plain_endpoint rq) False None None no_collector
     = (Content (lit ''ok'') :: unit llm_result, rqs, no_collector\<lparr>co_calls := 1, co_prompt := 5\<rparr>) \<and> length rqs = 2"
  by (simp add: call_with_fallback_def tier2_def tier3_def plain_endpoint_def sample_client_def downgrades1_def Let_def
      text_result_def record_call_def no_collector_def)

end
