(* ===== verification/Arr_Services.thy ===== *)
theory Arr_Services
  imports Json Media_Paths
begin

text \<open>
  What the services report: the discovery of episodes and films in \<open>trezarr/arr/sonarr.py\<close> and
  \<open>trezarr/arr/radarr.py\<close> and the subtitle inventory of \<open>trezarr/arr/bazarr.py\<close>. The HTTP clients are
  arguments that answer with parsed JSON or fail; an exception of Python on a payload of another
  shape is an error value of its own, because only the failures of the client are caught.
\<close>

section \<open>Payloads\<close>

text \<open>A failure of the client, with what it reports, an answer that is not JSON, or an exception of
  Python.\<close>

datatype 'e arr_failure = ClientFailed 'e | NotJson | Crashed py_error

type_synonym ('e, 'a) answer = "'e arr_failure + 'a"

definition and_then :: "('e, 'a) answer \<Rightarrow> ('a \<Rightarrow> ('e, 'b) answer) \<Rightarrow> ('e, 'b) answer" where
  "and_then x f = (case x of Inl e \<Rightarrow> Inl e | Inr a \<Rightarrow> f a)"

definition from_client :: "'e + 'a \<Rightarrow> ('e, 'a) answer" where
  "from_client x = (case x of Inl e \<Rightarrow> Inl (ClientFailed e) | Inr a \<Rightarrow> Inr a)"

text \<open>\<open>v.get\<close> needs a dictionary, \<open>v[k]\<close> the key as well.\<close>

definition entries :: "json \<Rightarrow> ('e, json_dict) answer" where
  "entries v = (case v of JDict d \<Rightarrow> Inr d | _ \<Rightarrow> Inl (Crashed AttributeError))"

definition item_at :: "pystr \<Rightarrow> json_dict \<Rightarrow> ('e, json) answer" where
  "item_at k d = (case get_key k d of Some v \<Rightarrow> Inr v | None \<Rightarrow> Inl (Crashed KeyError))"

text \<open>The elements a loop runs over; a dictionary gives its keys, a string its characters.\<close>

definition elements :: "json \<Rightarrow> ('e, json list) answer" where
  "elements v = (case v of
     JList vs \<Rightarrow> Inr vs
   | JDict d \<Rightarrow> Inr (map (\<lambda>(k, v). JStr k) d)
   | JStr s \<Rightarrow> Inr (map (\<lambda>c. JStr [c]) s)
   | _ \<Rightarrow> Inl (Crashed TypeError))"

text \<open>The mapping of a path calls a method of strings.\<close>

definition mapped :: "json \<Rightarrow> path_mapping list \<Rightarrow> ('e, path) answer" where
  "mapped v ms = (case v of JStr s \<Rightarrow> Inr (apply_path_mapping s ms) | _ \<Rightarrow> Inl (Crashed AttributeError))"

fun collect :: "('a \<Rightarrow> ('e, 'b list) answer) \<Rightarrow> 'a list \<Rightarrow> ('e, 'b list) answer" where
  "collect f [] = Inr []"
| "collect f (x # xs) = and_then (f x) (\<lambda>ys. and_then (collect f xs) (\<lambda>zs. Inr (ys @ zs)))"

section \<open>Discovery\<close>

datatype source_type = Episode | Movie

text \<open>An item; what is copied from the payload as it is stays a value.\<close>

record arr_item =
  ai_path :: path
  ai_title :: json
  ai_source_type :: source_type
  ai_series_id :: json
  ai_season :: json
  ai_tvdb :: json
  ai_tmdb :: json
  ai_genres :: json
  ai_overview :: json
  ai_year :: json
  ai_network :: json
  ai_runtime :: json
  ai_original_language :: json

definition monitored :: "json_dict \<Rightarrow> bool" where
  "monitored d = holds (get_or (JBool False) (lit ''monitored'') d)"

text \<open>\<open>d.get("originalLanguage", {}).get("name")\<close>.\<close>

definition original_language_of :: "json_dict \<Rightarrow> ('e, json) answer" where
  "original_language_of d = and_then (entries (get_or (JDict []) (lit ''originalLanguage'') d)) (\<lambda>l. Inr (get_or JNull (lit ''name'') l))"

definition as_single :: "json \<Rightarrow> json" where
  "as_single v = (case v of JDict d \<Rightarrow> JList [v] | _ \<Rightarrow> v)"

definition sonarr_item :: "path_mapping list \<Rightarrow> json_dict \<Rightarrow> json \<Rightarrow> ('e, arr_item list) answer" where
  "sonarr_item ms series ep = and_then (entries ep) (\<lambda>file.
     let raw = get_or JNull (lit ''path'') file in
     if raw = JNull then Inr []
     else and_then (mapped raw ms) (\<lambda>p.
       and_then (item_at (lit ''title'') series) (\<lambda>title.
       and_then (item_at (lit ''id'') series) (\<lambda>i.
       and_then (original_language_of series) (\<lambda>lang.
         Inr [\<lparr>ai_path = p, ai_title = title, ai_source_type = Episode, ai_series_id = i,
           ai_season = get_or JNull (lit ''seasonNumber'') file, ai_tvdb = get_or JNull (lit ''tvdbId'') series, ai_tmdb = JNull,
           ai_genres = get_or JNull (lit ''genres'') series, ai_overview = get_or JNull (lit ''overview'') series,
           ai_year = get_or JNull (lit ''year'') series, ai_network = get_or JNull (lit ''network'') series,
           ai_runtime = get_or JNull (lit ''runtime'') series, ai_original_language = lang\<rparr>])))))"

definition sonarr_series :: "path_mapping list \<Rightarrow> (json \<Rightarrow> 'e + json) \<Rightarrow> json \<Rightarrow> ('e, arr_item list) answer" where
  "sonarr_series ms files_of series = and_then (entries series) (\<lambda>d.
     if \<not> monitored d then Inr []
     else and_then (item_at (lit ''id'') d) (\<lambda>i.
       and_then (from_client (files_of i)) (\<lambda>files.
       and_then (elements (as_single files)) (collect (sonarr_item ms d)))))"

definition discover_sonarr_items ::
  "bool \<Rightarrow> path_mapping list \<Rightarrow> 'e + json \<Rightarrow> (json \<Rightarrow> 'e + json) \<Rightarrow> ('e, arr_item list) answer" where
  "discover_sonarr_items enabled ms series files_of =
     (if \<not> enabled then Inr []
      else and_then (from_client series) (\<lambda>v. and_then (elements v) (collect (sonarr_series ms files_of))))"

definition radarr_item :: "path_mapping list \<Rightarrow> json_dict \<Rightarrow> json \<Rightarrow> ('e, arr_item list) answer" where
  "radarr_item ms movie v = and_then (entries v) (\<lambda>file.
     let raw = get_or JNull (lit ''path'') file in
     if raw = JNull then Inr []
     else and_then (mapped raw ms) (\<lambda>p.
       and_then (item_at (lit ''title'') movie) (\<lambda>title.
       and_then (item_at (lit ''id'') movie) (\<lambda>i.
       and_then (original_language_of movie) (\<lambda>lang.
         Inr [\<lparr>ai_path = p, ai_title = title, ai_source_type = Movie, ai_series_id = i, ai_season = JNull,
           ai_tvdb = get_or JNull (lit ''tvdbId'') movie, ai_tmdb = get_or JNull (lit ''tmdbId'') movie,
           ai_genres = get_or JNull (lit ''genres'') movie, ai_overview = get_or JNull (lit ''overview'') movie,
           ai_year = get_or JNull (lit ''year'') movie, ai_network = JNull,
           ai_runtime = get_or JNull (lit ''runtime'') movie, ai_original_language = lang\<rparr>])))))"

text \<open>The file of a film: the one embedded, or the first the client gives.\<close>

definition fetched_file :: "json \<Rightarrow> json" where
  "fetched_file v = (case v of
     JList [] \<Rightarrow> JNull
   | JList (f # fs) \<Rightarrow> f
   | JDict d \<Rightarrow> v
   | _ \<Rightarrow> JNull)"

text \<open>\<open>movieFileId != 0\<close>: false for the numbers that equal zero, \<open>False\<close> included.\<close>

definition equals_zero :: "json \<Rightarrow> bool" where
  "equals_zero v \<longleftrightarrow> v = JInt 0 \<or> v = JBool False \<or> v = JFloat (Finite 0)"

definition radarr_movie :: "path_mapping list \<Rightarrow> (json \<Rightarrow> 'e + json) \<Rightarrow> json \<Rightarrow> ('e, arr_item list) answer" where
  "radarr_movie ms file_of movie = and_then (entries movie) (\<lambda>d.
     let inline = get_or JNull (lit ''movieFile'') d in
     if \<not> monitored d then Inr []
     else if equals_zero (get_or (JInt 0) (lit ''movieFileId'') d) \<and> inline = JNull then Inr []
     else and_then (if inline \<noteq> JNull then Inr inline
         else and_then (item_at (lit ''id'') d) (\<lambda>i. and_then (from_client (file_of i)) (\<lambda>v. Inr (fetched_file v))))
       (\<lambda>file. if file = JNull then Inr [] else radarr_item ms d file))"

definition discover_radarr_items ::
  "bool \<Rightarrow> path_mapping list \<Rightarrow> 'e + json \<Rightarrow> (json \<Rightarrow> 'e + json) \<Rightarrow> ('e, arr_item list) answer" where
  "discover_radarr_items enabled ms movies file_of =
     (if \<not> enabled then Inr []
      else and_then (from_client movies) (\<lambda>v. and_then (elements (as_single v)) (collect (radarr_movie ms file_of))))"

section \<open>The inventory of Bazarr\<close>

record subtitle_entry =
  se_code2 :: json
  se_code3 :: json
  se_path :: json
  se_forced :: bool
  se_hi :: bool

text \<open>\<open>str\<close> of a path.\<close>

definition path_string :: "path \<Rightarrow> pystr" where
  "path_string p = (if path_root p = [] \<and> path_parts p = [] then [46] else path_root p @ join_with [47] (path_parts p))"

text \<open>The path of an entry is mapped where there are mappings.\<close>

definition parse_subtitle_entry :: "path_mapping list \<Rightarrow> json \<Rightarrow> ('e, subtitle_entry) answer" where
  "parse_subtitle_entry ms sub = and_then (entries sub) (\<lambda>d.
     let raw = get_or (JStr []) (lit ''path'') d in
     and_then (if ms \<noteq> [] \<and> holds raw then and_then (mapped raw ms) (\<lambda>p. Inr (JStr (path_string p))) else Inr raw) (\<lambda>p.
       Inr \<lparr>se_code2 = get_or (JStr []) (lit ''code2'') d, se_code3 = get_or (JStr []) (lit ''code3'') d, se_path = p,
         se_forced = holds (get_or (JBool False) (lit ''forced'') d), se_hi = holds (get_or (JBool False) (lit ''hi'') d)\<rparr>))"

text \<open>The list under \<open>data\<close>. A response is \<open>None\<close> where its body is not JSON.\<close>

definition data_of :: "json \<Rightarrow> ('e, json) answer" where
  "data_of body = and_then (entries body) (\<lambda>d. Inr (get_or (JList []) (lit ''data'') d))"

definition subtitles_of :: "path_mapping list \<Rightarrow> json \<Rightarrow> ('e, subtitle_entry list) answer" where
  "subtitles_of ms ep = and_then (entries ep) (\<lambda>d.
     and_then (elements (get_or (JList []) (lit ''subtitles'') d))
       (collect (\<lambda>sub. and_then (parse_subtitle_entry ms sub) (\<lambda>e. Inr [e]))))"

definition parsed :: "'e arr_failure \<Rightarrow> 'e + json option \<Rightarrow> ('e, json) answer" where
  "parsed failure response = and_then (from_client response) (\<lambda>b. case b of None \<Rightarrow> Inl failure | Some v \<Rightarrow> Inr v)"

text \<open>The flat lists of \<open>fetch_episodes\<close> and \<open>fetch_movies\<close>, which do not catch the error of the parser.\<close>

definition fetch_entries :: "path_mapping list \<Rightarrow> 'e + json option \<Rightarrow> ('e, subtitle_entry list) answer" where
  "fetch_entries ms response = and_then (parsed (Crashed ValueError) response) (\<lambda>b. and_then (data_of b) (\<lambda>data.
     and_then (elements data) (collect (subtitles_of ms))))"

text \<open>The two forms of the query; the number counts the requests sent.\<close>

datatype query_form = Bracketed | Plain

definition fetch_inventory_data :: "(query_form \<Rightarrow> 'e + json option) \<Rightarrow> ('e, json) answer \<times> nat" where
  "fetch_inventory_data endpoint =
     (case and_then (parsed NotJson (endpoint Bracketed)) data_of of
        Inl e \<Rightarrow> (Inl e, 1)
      | Inr data \<Rightarrow> (if holds data then (Inr data, 1) else (and_then (parsed NotJson (endpoint Plain)) data_of, 2)))"

record inventory_item =
  ii_arr_id :: json
  ii_path :: json
  ii_subtitles :: "subtitle_entry list"

definition or_value :: "json \<Rightarrow> json \<Rightarrow> json" where
  "or_value a b = (if holds a then a else b)"

definition parse_inventory_item :: "path_mapping list \<Rightarrow> json \<Rightarrow> ('e, inventory_item) answer" where
  "parse_inventory_item ms item = and_then (entries item) (\<lambda>d.
     and_then (subtitles_of ms item) (\<lambda>subs.
       Inr \<lparr>ii_arr_id = or_value (or_value (get_or JNull (lit ''sonarrEpisodeId'') d) (get_or JNull (lit ''radarrId'') d)) (JInt 0),
         ii_path = get_or (JStr []) (lit ''path'') d, ii_subtitles = subs\<rparr>))"

definition fetch_inventory :: "path_mapping list \<Rightarrow> (query_form \<Rightarrow> 'e + json option) \<Rightarrow> ('e, inventory_item list) answer" where
  "fetch_inventory ms endpoint = and_then (fst (fetch_inventory_data endpoint)) (\<lambda>data.
     and_then (elements data) (collect (\<lambda>v. and_then (parse_inventory_item ms v) (\<lambda>i. Inr [i]))))"

section \<open>What is discovered\<close>

lemma and_then_Inr: "and_then x f = Inr b \<longleftrightarrow> (\<exists>a. x = Inr a \<and> f a = Inr b)"
  by (simp add: and_then_def split: sum.split)

lemma collect_mem:
  "collect f xs = Inr ys \<Longrightarrow> y \<in> set ys \<Longrightarrow> \<exists>x \<in> set xs. \<exists>zs. f x = Inr zs \<and> y \<in> set zs"
  by (induction xs arbitrary: ys) (auto simp: and_then_Inr)

lemma mapped_Inr: "mapped v ms = Inr p \<longleftrightarrow> (\<exists>s. v = JStr s \<and> p = apply_path_mapping s ms)"
  by (auto simp: mapped_def split: json.split)

lemma entries_Inr: "entries v = Inr d \<longleftrightarrow> v = JDict d"
  by (auto simp: entries_def split: json.split)

definition reported_file :: "path_mapping list \<Rightarrow> json_dict \<Rightarrow> source_type \<Rightarrow> arr_item \<Rightarrow> bool" where
  "reported_file ms d kind it \<longleftrightarrow> monitored d \<and> get_key (lit ''id'') d = Some (ai_series_id it) \<and> ai_source_type it = kind
     \<and> (\<exists>raw fl. get_key (lit ''path'') fl = Some (JStr raw) \<and> ai_path it = apply_path_mapping raw ms)"

lemma item_at_Inr: "item_at k d = Inr v \<longleftrightarrow> get_key k d = Some v"
  by (simp add: item_at_def split: option.split)

lemma get_path: "get_or JNull k d = JStr s \<longleftrightarrow> get_key k d = Some (JStr s)"
  by (auto simp: get_or_def split: option.split)

lemma sonarr_reports:
  fixes files_of :: "json \<Rightarrow> 'e + json"
  assumes "sonarr_series ms files_of series = Inr items" and "it \<in> set items"
  shows "\<exists>d. series = JDict d \<and> reported_file ms d Episode it"
proof -
  from assms(1) obtain d where d: "series = JDict d" by (auto simp: sonarr_series_def and_then_Inr entries_Inr)
  with assms obtain fs where "monitored d" "collect (sonarr_item ms d) fs = (Inr items :: ('e, arr_item list) answer)"
    by (auto simp: sonarr_series_def and_then_Inr entries_Inr item_at_Inr split: if_splits)
  from collect_mem[OF this(2) assms(2)] obtain ep zs where z: "sonarr_item ms d ep = (Inr zs :: ('e, arr_item list) answer)" "it \<in> set zs" by blast
  then have "reported_file ms d Episode it"
    using \<open>monitored d\<close> by (auto simp: sonarr_item_def Let_def and_then_Inr entries_Inr mapped_Inr item_at_Inr get_path reported_file_def split: if_splits)
  with d show ?thesis by blast
qed

lemma radarr_reports:
  fixes file_of :: "json \<Rightarrow> 'e + json"
  assumes "radarr_movie ms file_of movie = Inr items" and "it \<in> set items"
  shows "\<exists>d. movie = JDict d \<and> reported_file ms d Movie it"
proof -
  from assms(1) obtain d where d: "movie = JDict d" by (auto simp: radarr_movie_def and_then_Inr entries_Inr)
  with assms obtain fl where "monitored d" "radarr_item ms d fl = (Inr items :: ('e, arr_item list) answer)"
    by (auto simp: radarr_movie_def and_then_Inr entries_Inr Let_def split: if_splits)
  then have "reported_file ms d Movie it"
    using assms(2) by (auto simp: radarr_item_def Let_def and_then_Inr entries_Inr mapped_Inr item_at_Inr get_path reported_file_def split: if_splits)
  with d show ?thesis by blast
qed

definition good_series :: json_dict where
  "good_series = [(lit ''monitored'', JBool True), (lit ''id'', JInt 5), (lit ''title'', JStr (lit ''S''))]"

definition null_language_series :: json_dict where
  "null_language_series = good_series @ [(lit ''originalLanguage'', JNull)]"

definition one_file :: "json \<Rightarrow> unit + json" where
  "one_file i = Inr (JList [JDict [(lit ''path'', JStr (lit ''/tv/anime/x''))]])"

lemma good_series_item:
  "\<exists>it. discover_sonarr_items True sample_mappings (Inr (JList [JDict good_series])) one_file = Inr [it]"
  by (simp add: discover_sonarr_items_def from_client_def and_then_def elements_def sonarr_series_def entries_def monitored_def
      good_series_def get_or_def get_key_def item_at_def one_file_def as_single_def sonarr_item_def mapped_def original_language_of_def
      Let_def lit_def)

section \<open>Properties\<close>

definition nested_mapping :: "path_mapping list" where
  "nested_mapping = [\<lparr>pm_remote = lit ''/data'', pm_local = lit ''/data/tv''\<rparr>]"

text \<open>
  Discovery reports only files of monitored series and films, under the path mapping. Every item
  of a discovery that succeeds belongs to a monitored entry of the payload and carries its id,
  and its path is the mapping of a path that the service gave.
\<close>

theorem discovered_items_mapped:
  assumes "discover_sonarr_items sonarr ms series files_of = Inr episodes"
    and "discover_radarr_items radarr ms movies file_of = Inr films"
  shows "(\<forall>it \<in> set episodes. \<exists>d. reported_file ms d Episode it) \<and> (\<forall>it \<in> set films. \<exists>d. reported_file ms d Movie it)"
proof (intro conjI ballI)
  fix it assume it: "it \<in> set episodes"
  with assms(1) obtain xs where "collect (sonarr_series ms files_of) xs = Inr episodes"
    by (auto simp: discover_sonarr_items_def and_then_Inr split: if_splits)
  from collect_mem[OF this it] sonarr_reports show "\<exists>d. reported_file ms d Episode it" by blast
next
  fix it assume it: "it \<in> set films"
  with assms(2) obtain xs where "collect (radarr_movie ms file_of) xs = Inr films"
    by (auto simp: discover_radarr_items_def and_then_Inr split: if_splits)
  from collect_mem[OF this it] radarr_reports show "\<exists>d. reported_file ms d Movie it" by blast
qed

theorem discovered_items_mapped_witness:
  "\<exists>it d. discover_sonarr_items True sample_mappings (Inr (JList [JDict good_series])) one_file = Inr [it]
     \<and> reported_file sample_mappings d Episode it"
proof -
  obtain it where it: "discover_sonarr_items True sample_mappings (Inr (JList [JDict good_series])) one_file = Inr [it]"
    using good_series_item by blast
  have "discover_radarr_items False sample_mappings (Inr JNull :: unit + json) one_file = Inr []" by (simp add: discover_radarr_items_def)
  from discovered_items_mapped[OF it this] it show ?thesis by auto
qed

text \<open>
  One series without an original language stops the discovery of all. Where the payload of one
  monitored series has a null in that place, an exception other than the service's leaves the
  function, which its callers do not catch, and the items of the other series are lost.
\<close>

theorem null_language_stops_discovery:
  "discover_sonarr_items True sample_mappings (Inr (JList [JDict good_series, JDict null_language_series])) one_file
     = Inl (Crashed AttributeError)"
  by (simp add: discover_sonarr_items_def from_client_def and_then_def elements_def sonarr_series_def entries_def monitored_def
      null_language_series_def good_series_def get_or_def get_key_def item_at_def one_file_def as_single_def sonarr_item_def
      mapped_def original_language_of_def Let_def lit_def)

text \<open>
  A path of the inventory is mapped twice: the client maps it, and the choice of the source maps
  what the client gives once more. With a mapping from a directory into one below it, the second
  mapping points to a path that is not there.
\<close>

theorem inventory_path_mapped_twice:
  "\<exists>e. parse_subtitle_entry nested_mapping (JDict [(lit ''path'', JStr (lit ''/data/x.srt'')), (lit ''code2'', JStr (lit ''ko''))])
         = (Inr e :: (unit, subtitle_entry) answer)
     \<and> se_path e = JStr (lit ''/data/tv/x.srt'')
     \<and> apply_path_mapping (lit ''/data/tv/x.srt'') nested_mapping = path_of (lit ''/data/tv/tv/x.srt'')"
  by (simp add: parse_subtitle_entry_def entries_def and_then_def get_or_def get_key_def mapped_def nested_mapping_def
      apply_path_mapping_def path_eval path_string_def path_of_def Let_def)

text \<open>
  The inventory is asked for at most twice, the second time in the plain form and only when the
  first answer holds no data; with data in the first answer that is the result.
\<close>

theorem inventory_requests:
  "snd (fetch_inventory_data endpoint) \<in> {1, 2}
   \<and> (snd (fetch_inventory_data endpoint) = 2 \<longleftrightarrow>
        (\<exists>d. and_then (parsed NotJson (endpoint Bracketed)) data_of = Inr d \<and> \<not> holds d))
   \<and> (snd (fetch_inventory_data endpoint) = 2 \<or>
        fst (fetch_inventory_data endpoint) = and_then (parsed NotJson (endpoint Bracketed)) data_of)"
  by (auto simp: fetch_inventory_data_def split: sum.split)

end
