(* ===== verification/Encoding.thy ===== *)
theory Encoding
  imports Sub_Dispatch Gate "HOL-Library.Word"
begin

text \<open>
  From bytes to text and back: the detection of \<open>trezarr/subtitles/encoding.py\<close>, the decoding with
  replacement that the readers do with its answer, and the encoding that the writers do. UTF-8 and
  UTF-16 are written out, byte by byte as Python's codecs read them; the statistical guess of the
  third tier and the codecs it may name are arguments.
\<close>

type_synonym bytes = "8 word list"

definition byte :: "nat \<Rightarrow> 8 word" where
  "byte n = word_of_nat n"

lemma unat_byte [simp]: "n < 256 \<Longrightarrow> unat (byte n) = n"
  by (simp add: byte_def unat_of_nat)

lemma byte_unat [simp]: "byte (unat b) = b"
  by (simp add: byte_def)

lemma unat_lt: "unat (b :: 8 word) < 256"
  using unsigned_less[of b] by simp

section \<open>Reading units\<close>

text \<open>
  A decoder takes one unit off the front: a character, or \<open>None\<close> for bytes that are none, with the
  bytes that remain. The handler \<open>replace\<close> gives U+FFFD for each bad unit, \<open>strict\<close> fails.
\<close>

type_synonym decoder = "bytes \<Rightarrow> pychar option \<times> bytes"

function decode_units :: "decoder \<Rightarrow> bytes \<Rightarrow> pychar option list" where
  "decode_units u [] = []"
| "decode_units u (b # r) = (case u (b # r) of (c, r') \<Rightarrow> c # (if length r' \<le> length r then decode_units u r' else []))"
  by pat_completeness auto
termination by (relation "measure (\<lambda>(u, bs). length bs)") auto

declare decode_units.simps(2) [simp del]

definition decode_strict :: "decoder \<Rightarrow> bytes \<Rightarrow> pystr option" where
  "decode_strict u bs = (let cs = decode_units u bs in if None \<in> set cs then None else Some (map the cs))"

definition decode_replace :: "decoder \<Rightarrow> bytes \<Rightarrow> pystr" where
  "decode_replace u bs = map (\<lambda>c. case c of None \<Rightarrow> 65533 | Some x \<Rightarrow> x) (decode_units u bs)"

fun encode_all :: "(pychar \<Rightarrow> bytes option) \<Rightarrow> pystr \<Rightarrow> bytes option" where
  "encode_all enc [] = Some []"
| "encode_all enc (c # s) = (case enc c of
     None \<Rightarrow> None
   | Some bs \<Rightarrow> map_option ((@) bs) (encode_all enc s))"

text \<open>What a decoder and an encoder promise: each gives back what the other made.\<close>

locale char_codec =
  fixes u :: decoder and enc :: "pychar \<Rightarrow> bytes option"
  assumes unit_enc: "enc c = Some bs \<Longrightarrow> u (bs @ r) = (Some c, r)"
    and enc_unit: "u (b # r) = (Some c, r') \<Longrightarrow> \<exists>bs. enc c = Some bs \<and> b # r = bs @ r'"
    and enc_nonempty: "enc c = Some bs \<Longrightarrow> bs \<noteq> []"
    and replacement: "enc 65533 \<noteq> None"
begin

lemma decode_encoded: "enc c = Some bs \<Longrightarrow> decode_units u (bs @ r) = Some c # decode_units u r"
  using unit_enc[of c bs r] enc_nonempty[of c bs] by (cases bs) (auto simp: decode_units.simps(2))

lemma units_encode: "encode_all enc s = Some bs \<Longrightarrow> decode_units u bs = map Some s"
  by (induction s arbitrary: bs) (auto simp: decode_encoded split: option.splits)

lemma encode_units: "None \<notin> set (decode_units u bs) \<Longrightarrow> encode_all enc (map the (decode_units u bs)) = Some bs"
proof (induction bs rule: length_induct)
  case (1 bs)
  show ?case
  proof (cases bs)
    case (Cons b r)
    obtain c r' where u: "u (b # r) = (c, r')" by fastforce
    with 1(2) Cons obtain x where x: "c = Some x" by (cases c) (auto simp: decode_units.simps(2))
    with enc_unit u obtain xs where xs: "enc x = Some xs" "b # r = xs @ r'" by blast
    have d: "decode_units u bs = Some x # decode_units u r'" using decode_encoded[OF xs(1), of r'] xs(2) Cons by simp
    have "length r' < length bs" using xs Cons enc_nonempty[of x xs] by (cases xs) auto
    with 1(1) 1(2) d xs Cons show ?thesis by simp
  qed simp
qed

lemma strict_encode: "encode_all enc s = Some bs \<Longrightarrow> decode_strict u bs = Some s"
  by (auto simp: decode_strict_def units_encode comp_def)

lemma encode_strict: "decode_strict u bs = Some s \<Longrightarrow> encode_all enc s = Some bs"
  by (auto simp: decode_strict_def Let_def encode_units split: if_splits)

lemma replace_strict: "decode_strict u bs = Some s \<Longrightarrow> decode_replace u bs = s"
  by (auto simp: decode_strict_def decode_replace_def Let_def split: if_splits option.split intro!: map_cong)

lemma units_encodable: "Some c \<in> set (decode_units u bs) \<Longrightarrow> enc c \<noteq> None"
proof (induction bs rule: length_induct)
  case (1 bs)
  show ?case
  proof (cases bs)
    case (Cons b r)
    obtain c' r' where u: "u (b # r) = (c', r')" by fastforce
    with 1(2) Cons consider "c' = Some c" | "length r' \<le> length r" "Some c \<in> set (decode_units u r')"
      by (auto simp: decode_units.simps(2) split: if_splits)
    then show ?thesis
    proof cases
      case 1
      with enc_unit u show ?thesis by blast
    next
      case 2
      from 1(1)[rule_format, of r'] 2 Cons show ?thesis by simp
    qed
  qed (use 1 in simp)
qed

lemma encode_all_total: "encode_all enc s \<noteq> None \<longleftrightarrow> (\<forall>c \<in> set s. enc c \<noteq> None)"
  by (induction s) (auto split: option.split)

text \<open>What was read can be written, and is the same bytes exactly when nothing was replaced.\<close>

lemma replace_encodable: "encode_all enc (decode_replace u bs) \<noteq> None"
  unfolding encode_all_total using units_encodable replacement by (auto simp: decode_replace_def split: option.splits)

lemma replace_exact: "encode_all enc (decode_replace u bs) = Some bs \<longleftrightarrow> decode_strict u bs \<noteq> None"
proof
  assume "encode_all enc (decode_replace u bs) = Some bs"
  from strict_encode[OF this] show "decode_strict u bs \<noteq> None" by simp
next
  assume "decode_strict u bs \<noteq> None"
  then obtain s where s: "decode_strict u bs = Some s" by blast
  show "encode_all enc (decode_replace u bs) = Some bs" unfolding replace_strict[OF s] by (rule encode_strict[OF s])
qed

end

section \<open>UTF-8\<close>

definition cont :: "8 word \<Rightarrow> bool" where
  "cont b \<longleftrightarrow> 128 \<le> unat b \<and> unat b < 192"

text \<open>The second byte of three and of four is bounded further: no overlong forms, no surrogates, nothing beyond the last plane.\<close>

definition second3 :: "nat \<Rightarrow> 8 word \<Rightarrow> bool" where
  "second3 n b \<longleftrightarrow> cont b \<and> (n = 224 \<longrightarrow> 160 \<le> unat b) \<and> (n = 237 \<longrightarrow> unat b < 160)"

definition second4 :: "nat \<Rightarrow> 8 word \<Rightarrow> bool" where
  "second4 n b \<longleftrightarrow> cont b \<and> (n = 240 \<longrightarrow> 144 \<le> unat b) \<and> (n = 244 \<longrightarrow> unat b < 144)"

definition low6 :: "8 word \<Rightarrow> nat" where
  "low6 b = unat b - 128"

definition utf8_two :: "nat \<Rightarrow> decoder" where
  "utf8_two n r = (case r of
     b1 # r1 \<Rightarrow> (if cont b1 then (Some ((n - 192) * 64 + low6 b1), r1) else (None, r))
   | [] \<Rightarrow> (None, []))"

definition utf8_three :: "nat \<Rightarrow> decoder" where
  "utf8_three n r = (case r of
     [] \<Rightarrow> (None, [])
   | b1 # r1 \<Rightarrow>
      (if \<not> second3 n b1 then (None, r)
       else case r1 of
         [] \<Rightarrow> (None, [])
       | b2 # r2 \<Rightarrow> (if cont b2 then (Some (((n - 224) * 64 + low6 b1) * 64 + low6 b2), r2) else (None, r1))))"

definition utf8_four :: "nat \<Rightarrow> decoder" where
  "utf8_four n r = (case r of
     [] \<Rightarrow> (None, [])
   | b1 # r1 \<Rightarrow>
      (if \<not> second4 n b1 then (None, r)
       else case r1 of
         [] \<Rightarrow> (None, [])
       | b2 # r2 \<Rightarrow>
          (if \<not> cont b2 then (None, r1)
           else case r2 of
             [] \<Rightarrow> (None, [])
           | b3 # r3 \<Rightarrow>
              (if cont b3 then (Some ((((n - 240) * 64 + low6 b1) * 64 + low6 b2) * 64 + low6 b3), r3) else (None, r2)))))"

fun utf8_unit :: decoder where
  "utf8_unit [] = (None, [])"
| "utf8_unit (b # r) =
     (let n = unat b in
      if n < 128 then (Some n, r)
      else if n < 194 then (None, r)
      else if n < 224 then utf8_two n r
      else if n < 240 then utf8_three n r
      else if n < 245 then utf8_four n r
      else (None, r))"

definition surrogate :: "pychar \<Rightarrow> bool" where
  "surrogate c \<longleftrightarrow> 55296 \<le> c \<and> c \<le> 57343"

definition utf8_char :: "pychar \<Rightarrow> bytes option" where
  "utf8_char c =
     (if c < 128 then Some [byte c]
      else if c < 2048 then Some [byte (192 + c div 64), byte (128 + c mod 64)]
      else if surrogate c then None
      else if c < 65536 then Some [byte (224 + c div 64 div 64), byte (128 + c div 64 mod 64), byte (128 + c mod 64)]
      else if c < 1114112 then Some [byte (240 + c div 64 div 64 div 64), byte (128 + c div 64 div 64 mod 64),
             byte (128 + c div 64 mod 64), byte (128 + c mod 64)]
      else None)"

lemma cont_byte [simp]: "x < 64 \<Longrightarrow> cont (byte (128 + x))" "x < 64 \<Longrightarrow> low6 (byte (128 + x)) = x"
  by (simp_all add: cont_def low6_def)

lemma byte_low6: "cont b \<Longrightarrow> byte (128 + low6 b) = b" "cont b \<Longrightarrow> low6 b < 64"
  unfolding cont_def low6_def by (simp, linarith)

lemma three_digits:
  obtains x y z where "c = (x * 64 + y) * 64 + z" "y < 64" "z < 64" "c div 64 div 64 = x" "c div 64 mod 64 = y" "c mod (64 :: nat) = z"
proof
  show "c = (c div 64 div 64 * 64 + c div 64 mod 64) * 64 + c mod 64" by (simp only: div_mult_mod_eq)
qed simp_all

lemma digits64: "x < 64 \<Longrightarrow> (y * 64 + x) div 64 = y" "x < 64 \<Longrightarrow> (y * 64 + x) mod 64 = (x :: nat)"
  by simp_all

lemma utf8_unit_char: "utf8_char c = Some bs \<Longrightarrow> utf8_unit (bs @ r) = (Some c, r)"
proof -
  assume e: "utf8_char c = Some bs"
  consider "c < 128" | "128 \<le> c" "c < 2048" | "2048 \<le> c" "c < 65536" "\<not> surrogate c" | "65536 \<le> c" "c < 1114112"
    using e by (force simp: utf8_char_def split: if_splits)
  then show ?thesis
  proof cases
    case 2
    then have "c div 64 < 32" "2 \<le> c div 64" by auto
    with 2 e show ?thesis by (auto simp: utf8_char_def utf8_two_def Let_def)
  next
    case 3
    obtain x y z where d: "c = (x * 64 + y) * 64 + z" "y < 64" "z < 64" and c: "c div 64 div 64 = x" "c div 64 mod 64 = y" "c mod 64 = z"
      by (rule three_digits)
    have "x * 4096 \<le> c" using d(1) by simp
    with 3(2) have x: "x < 16" by simp
    have s: "second3 (224 + x) (byte (128 + y))"
      using 3 d x by (auto simp: second3_def surrogate_def)
    from e 3 have "bs = [byte (224 + x), byte (128 + y), byte (128 + z)]" by (simp add: utf8_char_def c)
    with x s d show ?thesis by (simp add: utf8_three_def)
  next
    case 4
    obtain w z where d: "c = w * 64 + z" "z < 64" and c: "c div 64 = w" "c mod 64 = z"
      using div_mult_mod_eq[of c 64] by (metis mod_less_divisor zero_less_numeral)
    obtain x y v where d': "w = (x * 64 + y) * 64 + v" "y < 64" "v < 64" and c': "w div 64 div 64 = x" "w div 64 mod 64 = y" "w mod 64 = v"
      by (rule three_digits)
    have "x * 262144 \<le> c" using d(1) d'(1) by simp
    with 4(2) have x: "x < 5" by simp
    have s: "second4 (240 + x) (byte (128 + y))"
      using 4 d d' x by (auto simp: second4_def)
    from e 4 have "bs = [byte (240 + x), byte (128 + y), byte (128 + v), byte (128 + z)]"
      by (simp add: utf8_char_def surrogate_def c c')
    with x s d d' show ?thesis by (simp add: utf8_four_def)
  qed (use e in \<open>auto simp: utf8_char_def Let_def\<close>)
qed

lemma utf8_char_unit: "utf8_unit (b # r) = (Some c, r') \<Longrightarrow> \<exists>bs. utf8_char c = Some bs \<and> b # r = bs @ r'"
proof -
  assume u: "utf8_unit (b # r) = (Some c, r')"
  let ?n = "unat b"
  consider "?n < 128" | "194 \<le> ?n" "?n < 224" | "224 \<le> ?n" "?n < 240" | "240 \<le> ?n" "?n < 245"
    using u by (force simp: Let_def split: if_splits)
  then show ?thesis
  proof cases
    case 1
    with u have "c = ?n" "r' = r" by (simp_all add: Let_def)
    with 1 show ?thesis by (simp add: utf8_char_def)
  next
    case 2
    with u obtain b1 where r: "r = b1 # r'" "cont b1" "c = (?n - 192) * 64 + low6 b1"
      by (auto simp: utf8_two_def Let_def split: list.splits if_splits)
    note l = byte_low6[OF r(2)]
    have c: "c div 64 = ?n - 192" "c mod 64 = low6 b1" using r(3) l(2) by simp_all
    have "128 \<le> c" "c < 2048" using 2 r(3) l(2) by simp_all
    with c l 2 r(1) show ?thesis by (simp add: utf8_char_def)
  next
    case 3
    with u obtain b1 b2 where r: "r = b1 # b2 # r'" "second3 ?n b1" "cont b2" "c = ((?n - 224) * 64 + low6 b1) * 64 + low6 b2"
      by (auto simp: utf8_three_def Let_def split: list.splits if_splits)
    then have c1: "cont b1" by (simp add: second3_def)
    note l = byte_low6[OF c1] byte_low6[OF r(3)]
    have d: "c div 64 = (?n - 224) * 64 + low6 b1" "c mod 64 = low6 b2" unfolding r(4) by (rule digits64[OF l(4)])+
    have c: "c div 64 div 64 = ?n - 224" "c div 64 mod 64 = low6 b1" unfolding d(1) by (rule digits64[OF l(2)])+
    have y: "?n = 224 \<Longrightarrow> 32 \<le> low6 b1" "?n = 237 \<Longrightarrow> low6 b1 < 32"
      using r(2) c1 by (auto simp: second3_def cont_def low6_def)
    have "2048 \<le> c" "c < 65536" using 3 r(4) l(2,4) y(1) by (cases "?n = 224"; simp)+
    moreover have "\<not> surrogate c"
    proof -
      consider "?n < 237" | "?n = 237" | "238 \<le> ?n" by linarith
      then show ?thesis
        by cases (use 3 r(4) l(2,4) y(2) in \<open>auto simp: surrogate_def\<close>)
    qed
    ultimately show ?thesis using c d(2) l 3 r(1) by (simp add: utf8_char_def)
  next
    case 4
    with u obtain b1 b2 b3 where r: "r = b1 # b2 # b3 # r'" "second4 ?n b1" "cont b2" "cont b3"
      "c = (((?n - 240) * 64 + low6 b1) * 64 + low6 b2) * 64 + low6 b3"
      by (auto simp: utf8_four_def Let_def split: list.splits if_splits)
    then have c1: "cont b1" by (simp add: second4_def)
    note l = byte_low6[OF c1] byte_low6[OF r(3)] byte_low6[OF r(4)]
    have d: "c div 64 = ((?n - 240) * 64 + low6 b1) * 64 + low6 b2" "c mod 64 = low6 b3" unfolding r(5) by (rule digits64[OF l(6)])+
    have e: "c div 64 div 64 = (?n - 240) * 64 + low6 b1" "c div 64 mod 64 = low6 b2" unfolding d(1) by (rule digits64[OF l(4)])+
    have c: "c div 64 div 64 div 64 = ?n - 240" "c div 64 div 64 mod 64 = low6 b1" unfolding e(1) by (rule digits64[OF l(2)])+
    have y: "?n = 240 \<Longrightarrow> 16 \<le> low6 b1" "?n = 244 \<Longrightarrow> low6 b1 < 16"
      using r(2) c1 by (auto simp: second4_def cont_def low6_def)
    have "65536 \<le> c" using 4 r(5) l(2,4,6) y(1) by (cases "?n = 240"; simp)
    moreover have "c < 1114112" using 4 r(5) l(2,4,6) y(2) by (cases "?n = 244"; simp)
    ultimately show ?thesis using c d(2) e(2) l 4 r(1) by (simp add: utf8_char_def surrogate_def)
  qed
qed

lemma utf8_char_nonempty: "utf8_char c = Some bs \<Longrightarrow> bs \<noteq> []"
  by (auto simp: utf8_char_def split: if_splits)

interpretation utf8: char_codec utf8_unit utf8_char
proof
  fix c bs r assume "utf8_char c = Some bs"
  then show "utf8_unit (bs @ r) = (Some c, r)" by (rule utf8_unit_char)
next
  fix b r c r' assume "utf8_unit (b # r) = (Some c, r')"
  then show "\<exists>bs. utf8_char c = Some bs \<and> b # r = bs @ r'" by (rule utf8_char_unit)
next
  fix c bs assume "utf8_char c = Some bs"
  then show "bs \<noteq> []" by (rule utf8_char_nonempty)
next
  show "utf8_char 65533 \<noteq> None" by (simp add: utf8_char_def surrogate_def)
qed

section \<open>UTF-16\<close>

text \<open>A code unit of two bytes, the low one first or the high one.\<close>

definition code_unit :: "bool \<Rightarrow> 8 word \<Rightarrow> 8 word \<Rightarrow> nat" where
  "code_unit little a b = (if little then unat a + 256 * unat b else 256 * unat a + unat b)"

definition unit_bytes :: "bool \<Rightarrow> nat \<Rightarrow> bytes" where
  "unit_bytes little n = (if little then [byte (n mod 256), byte (n div 256)] else [byte (n div 256), byte (n mod 256)])"

text \<open>
  A lone low surrogate is bad, and so is a high one that no low one follows; a high one at the end,
  and a single last byte, take all that is left with them.
\<close>

fun utf16_unit :: "bool \<Rightarrow> decoder" where
  "utf16_unit little (a # b # r) =
     (let n = code_unit little a b in
      if \<not> surrogate n then (Some n, r)
      else if 56320 \<le> n then (None, r)
      else case r of
        a' # b' # r' \<Rightarrow>
          (let m = code_unit little a' b' in
           if 56320 \<le> m \<and> m \<le> 57343 then (Some (65536 + (n - 55296) * 1024 + (m - 56320)), r') else (None, r))
      | _ \<Rightarrow> (None, []))"
| "utf16_unit little _ = (None, [])"

definition utf16_char :: "bool \<Rightarrow> pychar \<Rightarrow> bytes option" where
  "utf16_char little c =
     (if surrogate c then None
      else if c < 65536 then Some (unit_bytes little c)
      else if c < 1114112 then Some (unit_bytes little (55296 + (c - 65536) div 1024) @ unit_bytes little (56320 + (c - 65536) mod 1024))
      else None)"

lemma code_unit_bytes: "n < 65536 \<Longrightarrow> \<exists>a b. unit_bytes little n = [a, b] \<and> code_unit little a b = n"
  by (auto simp: unit_bytes_def code_unit_def)

lemma unit_bytes_code: "unit_bytes little (code_unit little a b) = [a, b]"
  using unat_lt[of a] unat_lt[of b] by (simp add: unit_bytes_def code_unit_def)

lemma code_unit_lt: "code_unit little a b < 65536"
  using unat_lt[of a] unat_lt[of b] by (simp add: code_unit_def)

lemma utf16_unit_char: "utf16_char little c = Some bs \<Longrightarrow> utf16_unit little (bs @ r) = (Some c, r)"
proof -
  assume e: "utf16_char little c = Some bs"
  show ?thesis
  proof (cases "c < 65536")
    case True
    obtain a b where "unit_bytes little c = [a, b]" "code_unit little a b = c" using code_unit_bytes[OF True, of little] by blast
    moreover have "bs = unit_bytes little c" "\<not> surrogate c" using e True by (auto simp: utf16_char_def split: if_splits)
    ultimately have "bs = [a, b]" "code_unit little a b = c" "\<not> surrogate c" by simp_all
    then show ?thesis by (simp add: Let_def)
  next
    case False
    let ?h = "55296 + (c - 65536) div 1024" and ?l = "56320 + (c - 65536) mod 1024"
    from False e have c: "c < 1114112" "bs = unit_bytes little ?h @ unit_bytes little ?l"
      by (auto simp: utf16_char_def split: if_splits)
    then have h: "?h < 56320" by (simp add: less_mult_imp_div_less)
    have "(c - 65536) mod 1024 < 1024" by simp
    then have "?l \<le> 57343" by linarith
    obtain a b where ab: "unit_bytes little ?h = [a, b]" "code_unit little a b = ?h" using code_unit_bytes[of ?h little] h by auto
    obtain a' b' where ab': "unit_bytes little ?l = [a', b']" "code_unit little a' b' = ?l"
      using code_unit_bytes[of ?l little] \<open>?l \<le> 57343\<close> by auto
    with ab ab' c h False \<open>?l \<le> 57343\<close> show ?thesis by (simp add: surrogate_def Let_def)
  qed
qed

lemma utf16_char_unit: "utf16_unit little (b # r) = (Some c, r') \<Longrightarrow> \<exists>bs. utf16_char little c = Some bs \<and> b # r = bs @ r'"
proof (cases r)
  case (Cons b1 r1)
  assume u: "utf16_unit little (b # r) = (Some c, r')"
  let ?n = "code_unit little b b1"
  show ?thesis
  proof (cases "surrogate ?n")
    case False
    with u Cons code_unit_lt[of little b b1] show ?thesis by (auto simp: Let_def utf16_char_def unit_bytes_code)
  next
    case True
    with u Cons obtain a' b' where r: "r1 = a' # b' # r'" "?n < 56320" "56320 \<le> code_unit little a' b'" "code_unit little a' b' \<le> 57343"
      and c: "c = 65536 + (?n - 55296) * 1024 + (code_unit little a' b' - 56320)"
      by (auto simp: Let_def split: list.splits if_splits)
    let ?d = "code_unit little a' b' - 56320"
    have d: "?d < 1024" using r(3,4) by simp
    have n: "55296 \<le> ?n" using True by (simp add: surrogate_def)
    have "c - 65536 = (?n - 55296) * 1024 + ?d" using c by simp
    then have "(c - 65536) div 1024 = ?n - 55296" "(c - 65536) mod 1024 = ?d" using d by simp_all
    moreover have "65536 \<le> c" "c < 1114112" using c d r(2) n by simp_all
    ultimately show ?thesis using Cons r n by (simp add: utf16_char_def surrogate_def unit_bytes_code)
  qed
qed simp

interpretation utf16: char_codec "utf16_unit little" "utf16_char little" for little
proof
  fix c bs r assume "utf16_char little c = Some bs"
  then show "utf16_unit little (bs @ r) = (Some c, r)" by (rule utf16_unit_char)
next
  fix b r c r' assume "utf16_unit little (b # r) = (Some c, r')"
  then show "\<exists>bs. utf16_char little c = Some bs \<and> b # r = bs @ r'" by (rule utf16_char_unit)
next
  fix c bs assume "utf16_char little c = Some bs"
  then show "bs \<noteq> []" by (auto simp: utf16_char_def unit_bytes_def split: if_splits)
next
  show "utf16_char little 65533 \<noteq> None" by (simp add: utf16_char_def surrogate_def)
qed

section \<open>Detection\<close>

definition UTF8_BOM :: bytes where "UTF8_BOM = [byte 239, byte 187, byte 191]"
definition UTF16_LE_BOM :: bytes where "UTF16_LE_BOM = [byte 255, byte 254]"
definition UTF16_BE_BOM :: bytes where "UTF16_BE_BOM = [byte 254, byte 255]"

definition UTF8_NAME :: pystr where "UTF8_NAME = lit ''utf-8''"
definition UTF8_SIG_NAME :: pystr where "UTF8_SIG_NAME = lit ''utf-8-sig''"
definition UTF16_LE_NAME :: pystr where "UTF16_LE_NAME = lit ''utf-16-le''"
definition UTF16_BE_NAME :: pystr where "UTF16_BE_NAME = lit ''utf-16-be''"

definition CJK_CODECS :: "pystr list" where
  "CJK_CODECS = [lit ''big5'', lit ''gb2312'', lit ''gb18030'', lit ''euc-kr'', lit ''euc-jp'', lit ''shift-jis'', lit ''shift_jis'']"

definition detect_encoding :: "(bytes \<Rightarrow> pystr option) \<Rightarrow> bytes \<Rightarrow> pystr" where
  "detect_encoding guess data =
     (if take 3 data = UTF8_BOM then UTF8_SIG_NAME
      else if take 2 data = UTF16_LE_BOM then UTF16_LE_NAME
      else if take 2 data = UTF16_BE_BOM then UTF16_BE_NAME
      else if decode_strict utf8_unit data \<noteq> None then UTF8_NAME
      else case guess data of
        None \<Rightarrow> UTF8_NAME
      | Some detected \<Rightarrow> (if lower detected \<in> set CJK_CODECS then UTF8_NAME else detected))"

lemma names_distinct [simp]:
  "UTF8_NAME \<noteq> UTF8_SIG_NAME" "UTF8_NAME \<noteq> UTF16_LE_NAME" "UTF8_NAME \<noteq> UTF16_BE_NAME" "UTF8_SIG_NAME \<noteq> UTF8_NAME"
  "UTF8_SIG_NAME \<noteq> UTF16_LE_NAME" "UTF8_SIG_NAME \<noteq> UTF16_BE_NAME" "UTF16_LE_NAME \<noteq> UTF8_NAME" "UTF16_LE_NAME \<noteq> UTF8_SIG_NAME"
  "UTF16_LE_NAME \<noteq> UTF16_BE_NAME" "UTF16_BE_NAME \<noteq> UTF8_NAME" "UTF16_BE_NAME \<noteq> UTF8_SIG_NAME" "UTF16_BE_NAME \<noteq> UTF16_LE_NAME"
  by (simp_all add: UTF8_NAME_def UTF8_SIG_NAME_def UTF16_LE_NAME_def UTF16_BE_NAME_def lit_def)

section \<open>Files\<close>

text \<open>\<open>data.decode(encoding, errors="replace")\<close> and \<open>text.encode(encoding)\<close>, \<open>None\<close> for its error.\<close>

record codec_of =
  co_decode :: "bytes \<Rightarrow> pystr"
  co_encode :: "pystr \<Rightarrow> bytes option"

definition codec_named :: "(pystr \<Rightarrow> codec_of) \<Rightarrow> pystr \<Rightarrow> codec_of" where
  "codec_named other name =
     (if name = UTF8_NAME then \<lparr>co_decode = decode_replace utf8_unit, co_encode = encode_all utf8_char\<rparr>
      else if name = UTF8_SIG_NAME then
        \<lparr>co_decode = (\<lambda>d. decode_replace utf8_unit (if take 3 d = UTF8_BOM then drop 3 d else d)),
         co_encode = (\<lambda>t. map_option ((@) UTF8_BOM) (encode_all utf8_char t))\<rparr>
      else if name = UTF16_LE_NAME then \<lparr>co_decode = decode_replace (utf16_unit True), co_encode = encode_all (utf16_char True)\<rparr>
      else if name = UTF16_BE_NAME then \<lparr>co_decode = decode_replace (utf16_unit False), co_encode = encode_all (utf16_char False)\<rparr>
      else other name)"

definition read_subtitle_file ::
  "(bytes \<Rightarrow> pystr option) \<Rightarrow> (pystr \<Rightarrow> codec_of) \<Rightarrow> pystr \<Rightarrow> bytes \<Rightarrow> py_error + sub_doc" where
  "read_subtitle_file guess other suffix data =
     (let encoding = detect_encoding guess data
      in read_subtitle suffix encoding (co_decode (codec_named other encoding) data))"

text \<open>An \<open>UnicodeEncodeError\<close> is a \<open>ValueError\<close>.\<close>

definition write_subtitle_file :: "(pystr \<Rightarrow> codec_of) \<Rightarrow> pystr \<Rightarrow> sub_doc \<Rightarrow> py_error + bytes" where
  "write_subtitle_file other suffix d = (case write_subtitle suffix d of
     Inl e \<Rightarrow> Inl e
   | Inr t \<Rightarrow> (case co_encode (codec_named other (doc_encoding d)) t of None \<Rightarrow> Inl ValueError | Some bs \<Rightarrow> Inr bs))"

text \<open>The files whose bytes are what the byte order mark or, without one, UTF-8 says.\<close>

definition well_coded :: "bytes \<Rightarrow> bool" where
  "well_coded data \<longleftrightarrow>
     (if take 3 data = UTF8_BOM then decode_strict utf8_unit (drop 3 data) \<noteq> None
      else if take 2 data = UTF16_LE_BOM then decode_strict (utf16_unit True) data \<noteq> None
      else if take 2 data = UTF16_BE_BOM then decode_strict (utf16_unit False) data \<noteq> None
      else decode_strict utf8_unit data \<noteq> None)"

lemma decode_encode_file:
  assumes "well_coded data"
  shows "co_encode (codec_named other (detect_encoding guess data)) (co_decode (codec_named other (detect_encoding guess data)) data) = Some data"
proof -
  consider "take 3 data = UTF8_BOM" | "take 3 data \<noteq> UTF8_BOM" "take 2 data = UTF16_LE_BOM"
    | "take 3 data \<noteq> UTF8_BOM" "take 2 data \<noteq> UTF16_LE_BOM" "take 2 data = UTF16_BE_BOM"
    | "take 3 data \<noteq> UTF8_BOM" "take 2 data \<noteq> UTF16_LE_BOM" "take 2 data \<noteq> UTF16_BE_BOM" by blast
  then show ?thesis
  proof cases
    case 1
    then have "data = UTF8_BOM @ drop 3 data" by (metis append_take_drop_id)
    with 1 assms utf8.replace_exact[of "drop 3 data"] show ?thesis
      by (simp add: well_coded_def detect_encoding_def codec_named_def)
  next
    case 2
    with assms utf16.replace_exact[of True data] show ?thesis by (simp add: well_coded_def detect_encoding_def codec_named_def)
  next
    case 3
    with assms utf16.replace_exact[of False data] show ?thesis by (simp add: well_coded_def detect_encoding_def codec_named_def)
  next
    case 4
    with assms utf8.replace_exact[of data] show ?thesis by (simp add: well_coded_def detect_encoding_def codec_named_def)
  qed
qed

lemma read_srt_encoding: "doc_encoding (read_srt enc t) = enc"
  by (simp add: read_srt_def split: prod.split)

lemma read_vtt_encoding: "doc_encoding (read_vtt enc t) = enc"
  by (simp add: read_vtt_def Let_def split: list.split prod.split)

lemma read_ass_encoding: "read_ass enc t = Inr d \<Longrightarrow> doc_encoding d = enc"
  by (auto simp: read_ass_def ass_sub_doc_def Let_def split: list.splits sum.splits prod.splits)

lemma read_subtitle_encoding: "read_subtitle suffix enc t = Inr d \<Longrightarrow> doc_encoding d = enc"
  by (auto simp: read_subtitle_def Let_def read_srt_encoding read_vtt_encoding read_ass_encoding split: if_splits)

section \<open>The byte order mark of UTF-16\<close>

text \<open>Decoded, it is the character U+FEFF, which is neither a digit nor a space.\<close>

lemma mark_not_digit: "\<not> is_digit 65279" "\<not> is_space 65279" "\<not> line_break 65279"
  by (simp_all add: is_digit_def digit_ranges_def is_space_def space_ranges_def line_break_def)

lemma strip_mark: "\<exists>ys. strip (65279 # xs) = 65279 # ys"
  by (auto simp: strip_def lstrip_def rstrip_def mark_not_digit dropWhile_append intro: exI[of _ "rev (dropWhile is_space (rev xs))"])

lemma no_index: "re_match INDEX_RE (65279 # xs) = None"
  by (simp add: INDEX_RE_def re_match_def first_match_def rx_defs rdigit_def mark_not_digit)

lemma marked_block_opaque: "parse_block (65279 # b) = raw_line (65279 # b)"
proof (cases "splitlines (65279 # b)")
  case (Cons l ls)
  from splitlines_head[OF Cons] obtain e rest where "65279 # b = l @ e @ rest" "eol_before e rest" by blast
  then have "\<exists>xs. l = 65279 # xs" using mark_not_digit(3) by (cases l) (auto simp: eol_before_def)
  then obtain ys where "strip l = 65279 # ys" using strip_mark by blast
  with Cons no_index show ?thesis by (auto simp: parse_block_def Let_def split: option.split)
qed (simp add: parse_block_def)

lemma utf16_mark:
  "take 2 data = UTF16_LE_BOM \<Longrightarrow> \<exists>s. decode_replace (utf16_unit True) data = 65279 # s"
  "take 2 data = UTF16_BE_BOM \<Longrightarrow> \<exists>s. decode_replace (utf16_unit False) data = 65279 # s"
  by (cases data; cases "tl data";
      simp add: UTF16_LE_BOM_def UTF16_BE_BOM_def decode_replace_def decode_units.simps(2) code_unit_def surrogate_def Let_def)+

text \<open>A codec that the guess may name.\<close>

definition latin1 :: codec_of where
  "latin1 = \<lparr>co_decode = map unat, co_encode = (\<lambda>t. if \<forall>c \<in> set t. c < 256 then Some (map byte t) else None)\<rparr>"

lemma sample_srt_bytes:
  "\<exists>data. encode_all utf8_char sample_srt = Some data \<and> well_coded data \<and> decode_strict utf8_unit data = Some sample_srt
     \<and> detect_encoding (\<lambda>d. None) data = UTF8_NAME"
proof -
  have "\<forall>c \<in> set sample_srt. utf8_char c \<noteq> None" by (simp add: sample_srt_def lit_def utf8_char_def)
  then obtain data where e: "encode_all utf8_char sample_srt = Some data" using utf8.encode_all_total[of sample_srt] by blast
  then have d: "decode_strict utf8_unit data = Some sample_srt" by (rule utf8.strict_encode)
  have "\<exists>bs. data = byte 49 # bs" using e by (auto simp: sample_srt_def lit_def utf8_char_def split: option.splits)
  then obtain bs where bs: "data = byte 49 # bs" by blast
  have "byte 49 \<noteq> byte 239" "byte 49 \<noteq> byte 255" "byte 49 \<noteq> byte 254"
    by (auto dest!: arg_cong[where f = unat])
  with bs d have "well_coded data \<and> detect_encoding (\<lambda>d. None) data = UTF8_NAME"
    by (simp add: well_coded_def detect_encoding_def UTF8_BOM_def UTF16_LE_BOM_def UTF16_BE_BOM_def)
  with e d show ?thesis by blast
qed

section \<open>Properties\<close>

text \<open>
  C25: A file is reproduced byte for byte. A subtitle file in UTF-8, with or without a byte order
  mark, or in UTF-16 with one, whose text its codec reproduces, is written back as the bytes it was
  read from.
\<close>

theorem file_roundtrip:
  assumes "read_subtitle_file guess other suffix data = Inr d" and "well_coded data"
    and "reproducible suffix (co_decode (codec_named other (detect_encoding guess data)) data)"
  shows "write_subtitle_file other suffix d = Inr data"
proof -
  let ?c = "codec_named other (detect_encoding guess data)"
  from assms(1) have r: "read_subtitle suffix (detect_encoding guess data) (co_decode ?c data) = Inr d"
    by (simp add: read_subtitle_file_def Let_def)
  from dispatch.roundtrip[OF r assms(3)] read_subtitle_encoding[OF r] decode_encode_file[OF assms(2), of other guess]
  show ?thesis by (simp add: write_subtitle_file_def)
qed

theorem file_roundtrip_witness:
  "\<exists>data d. encode_all utf8_char sample_srt = Some data
     \<and> read_subtitle_file (\<lambda>d. None) (\<lambda>e. latin1) (lit ''.SRT'') data = Inr d
     \<and> write_subtitle_file (\<lambda>e. latin1) (lit ''.SRT'') d = Inr data"
proof -
  obtain data where e: "encode_all utf8_char sample_srt = Some data" and w: "well_coded data"
    and s: "decode_strict utf8_unit data = Some sample_srt" and n: "detect_encoding (\<lambda>d. None) data = UTF8_NAME"
    using sample_srt_bytes by blast
  have t: "co_decode (codec_named other (detect_encoding (\<lambda>d. None) data)) data = sample_srt" for other
    using utf8.replace_strict[OF s] by (simp add: n codec_named_def)
  have r: "read_subtitle_file (\<lambda>d. None) (\<lambda>e. latin1) (lit ''.SRT'') data = Inr (read_srt UTF8_NAME sample_srt)"
    by (simp add: read_subtitle_file_def Let_def t[unfolded n] n read_subtitle_def sample_suffix)
  have "reproducible (lit ''.SRT'') sample_srt" by (simp add: reproducible_def sample_suffix sample_srt_canonical)
  with e r file_roundtrip[OF r w] t show ?thesis by auto
qed

text \<open>
  A file that is neither is damaged by the reading where the guess is a CJK codec. The text then
  holds replacement characters, and what is written back has other bytes, although the guess
  may have been right.
\<close>

theorem guarded_file_damaged:
  assumes "take 3 data \<noteq> UTF8_BOM" and "take 2 data \<notin> {UTF16_LE_BOM, UTF16_BE_BOM}" and "decode_strict utf8_unit data = None"
    and "guess data = Some codec" and "lower codec \<in> set CJK_CODECS"
  shows "detect_encoding guess data = UTF8_NAME
    \<and> 65533 \<in> set (co_decode (codec_named other UTF8_NAME) data)
    \<and> (\<exists>out. co_encode (codec_named other UTF8_NAME) (co_decode (codec_named other UTF8_NAME) data) = Some out \<and> out \<noteq> data)"
proof -
  have "None \<in> set (decode_units utf8_unit data)" using assms(3) by (auto simp: decode_strict_def Let_def split: if_splits)
  then have "65533 \<in> set (decode_replace utf8_unit data)" by (force simp: decode_replace_def)
  moreover have "\<exists>out. encode_all utf8_char (decode_replace utf8_unit data) = Some out \<and> out \<noteq> data"
    using utf8.replace_encodable[of data] utf8.replace_exact[of data] assms(3) by auto
  ultimately show ?thesis using assms by (simp add: detect_encoding_def codec_named_def)
qed

theorem guarded_file_damaged_witness:
  "65533 \<in> set (co_decode (codec_named (\<lambda>e. latin1) UTF8_NAME) [byte 196, byte 65])"
proof -
  have d: "decode_strict utf8_unit [byte 196, byte 65] = None"
    by (simp add: decode_strict_def decode_units.simps(2) utf8_two_def cont_def Let_def)
  have n: "byte 196 \<noteq> byte 239" "byte 196 \<noteq> byte 255" "byte 196 \<noteq> byte 254" by (auto dest!: arg_cong[where f = unat])
  have l: "lower (lit ''gb18030'') \<in> set CJK_CODECS" by (simp add: CJK_CODECS_def lower_def lit_def ascii_eval)
  from guarded_file_damaged[where data = "[byte 196, byte 65]" and guess = "\<lambda>d. Some (lit ''gb18030'')", OF _ _ d _ l] n
  show ?thesis by (simp add: UTF8_BOM_def UTF16_LE_BOM_def UTF16_BE_BOM_def)
qed

text \<open>
  In a UTF-16 file the text begins with the byte order mark, and an SRT block that begins with
  it is taken for a malformed one, which is copied and not translated.
\<close>

theorem utf16_first_block_opaque:
  assumes "take 2 data = UTF16_LE_BOM \<or> take 2 data = UTF16_BE_BOM" and "take 3 data \<noteq> UTF8_BOM"
  shows "\<exists>s. co_decode (codec_named other (detect_encoding guess data)) data = 65279 # s
    \<and> (\<forall>b. sl_raw (parse_block (65279 # b)) = Some (65279 # b))"
  using assms utf16_mark[of data] marked_block_opaque
  by (auto simp: detect_encoding_def codec_named_def raw_line_def UTF16_LE_BOM_def UTF16_BE_BOM_def)

theorem utf16_first_block_opaque_witness:
  "\<exists>s. co_decode (codec_named (\<lambda>e. latin1) (detect_encoding (\<lambda>d. None) [byte 255, byte 254])) [byte 255, byte 254] = 65279 # s"
  using utf16_first_block_opaque[of "[byte 255, byte 254]"] by (auto simp: UTF16_LE_BOM_def UTF8_BOM_def)

text \<open>
  A translation that passes the gate can be written: the text of each of its cues has a UTF-8
  form, and reading that form gives the text back.
\<close>

theorem accepted_text_encodable:
  assumes "validate_subdoc cfg names trn src = None" and "sl \<in> set (doc_lines trn)" and "\<forall>c \<in> set (sl_text sl). c < 1114112"
  shows "\<exists>bs. encode_all utf8_char (sl_text sl) = Some bs \<and> decode_strict utf8_unit bs = Some (sl_text sl)"
proof -
  from assms(1,2) have "utf8_encodable (sl_text sl)"
    by (auto simp: gate_None cue_acceptable_def in_set_conv_nth)
  with assms(3) have "\<forall>c \<in> set (sl_text sl). utf8_char c \<noteq> None"
    by (auto simp: utf8_encodable_def utf8_char_def surrogate_def)
  then obtain bs where "encode_all utf8_char (sl_text sl) = Some bs" using utf8.encode_all_total by blast
  with utf8.strict_encode show ?thesis by blast
qed

theorem accepted_text_encodable_witness:
  "\<exists>bs. encode_all utf8_char [7843] = Some bs \<and> decode_strict utf8_unit bs = Some [7843]"
  using accepted_text_encodable[OF passing_accepted, of "doc_lines (one_cue [7843]) ! 0"] by (simp add: one_cue_def)

end
