(* ===== verification/Bible_Api.thy ===== *)
theory Bible_Api
  imports Bible_Guarantees Py_Regex "HOL-Library.Multiset"
begin

text \<open>
  The routes of the Bible editor, \<open>trezarr/web/routes/bible.py\<close>: what each request asks of the
  store, which status it answers and what it leaves in the database. A body is given by the texts
  it holds, a missing or null one as \<open>None\<close>; values of other types, which reach the driver of the
  database, and bodies that are no dictionary are left out. A transaction is one step, so the lock
  of a series, which some of the handlers hold around theirs, does not show.
\<close>

section \<open>Requests and replies\<close>

datatype shown = ShownSeries series_row | ShownCharacter character_row | ShownTerm term_row | ShownPair pair_row | ShownId nat

text \<open>An answer, an error status that the handler chooses, or an exception that it lets pass.\<close>

datatype 'a reply = Success 'a | HttpError nat | Unhandled py_error

text \<open>Where the handler turns a \<open>ValueError\<close> of the store into status 404, and where it does not.\<close>

definition respond :: "bool \<Rightarrow> py_error + bible_db \<times> 'a \<Rightarrow> bible_db \<Rightarrow> 'a reply \<times> bible_db" where
  "respond catches r db = (case r of
     Inr (db', x) \<Rightarrow> (Success x, db')
   | Inl e \<Rightarrow> (if catches \<and> e = ValueError then HttpError 404 else Unhandled e, db))"

text \<open>Without a database a handler answers with a status of its own.\<close>

definition with_db :: "nat \<Rightarrow> (bible_db \<Rightarrow> 'a reply \<times> bible_db) \<Rightarrow> bible_db option \<Rightarrow> 'a reply \<times> bible_db option" where
  "with_db status h db = (case db of
     None \<Rightarrow> (HttpError status, None)
   | Some d \<Rightarrow> (case h d of (r, d') \<Rightarrow> (r, Some d')))"

definition row_only :: "('r \<Rightarrow> 's) \<Rightarrow> py_error + bible_db \<times> 'r \<times> 'e \<Rightarrow> py_error + bible_db \<times> 's" where
  "row_only f x = (case x of Inl e \<Rightarrow> Inl e | Inr (db, r, es) \<Rightarrow> Inr (db, f r))"

definition row_of :: "('r \<Rightarrow> 's) \<Rightarrow> py_error + bible_db \<times> 'r \<Rightarrow> py_error + bible_db \<times> 's" where
  "row_of f x = (case x of Inl e \<Rightarrow> Inl e | Inr (db, r) \<Rightarrow> Inr (db, f r))"

section \<open>Edits\<close>

definition editable :: "entity \<Rightarrow> pystr option \<Rightarrow> bool" where
  "editable e field = (case field of None \<Rightarrow> False | Some f \<Rightarrow> f \<in> set (MERGEABLE_FIELDS e))"

definition patch_character ::
  "nat \<Rightarrow> nat \<Rightarrow> pystr option \<Rightarrow> pystr option \<Rightarrow> bool \<Rightarrow> bible_db option \<Rightarrow> shown reply \<times> bible_db option" where
  "patch_character sid cid field v lock db =
     (if \<not> editable ECharacter field then (HttpError 422, db)
      else with_db 503 (\<lambda>d. respond True
        (row_only ShownCharacter (apply_human_edit_character cid sid (the field) v lock d)) d) db)"

definition patch_term ::
  "nat \<Rightarrow> nat \<Rightarrow> pystr option \<Rightarrow> pystr option \<Rightarrow> bool \<Rightarrow> bible_db option \<Rightarrow> shown reply \<times> bible_db option" where
  "patch_term sid tid field v lock db =
     (if \<not> editable ETerm field then (HttpError 422, db)
      else with_db 503 (\<lambda>d. respond True
        (row_only ShownTerm (apply_human_edit_term sid None (Some tid) (the field) v lock d)) d) db)"

definition patch_address_map ::
  "nat \<Rightarrow> nat \<Rightarrow> pystr option \<Rightarrow> pystr option \<Rightarrow> bool \<Rightarrow> bible_db option \<Rightarrow> shown reply \<times> bible_db option" where
  "patch_address_map sid pid self address lock db =
     (if lock \<and> (blank self \<or> blank address) then (HttpError 422, db)
      else with_db 503 (\<lambda>d. respond True
        (row_only ShownPair (apply_human_edit_address_pair pid sid self address lock d)) d) db)"

definition patch_series_register ::
  "nat \<Rightarrow> pystr option \<Rightarrow> bool \<Rightarrow> bible_db option \<Rightarrow> shown reply \<times> bible_db option" where
  "patch_series_register sid v lock db =
     (if v = None then (HttpError 422, db)
      else with_db 503 (\<lambda>d. respond True
        (row_only ShownSeries (apply_human_edit_series sid F_REGISTER v lock d)) d) db)"

definition lang_letter :: "pychar \<Rightarrow> bool" where
  "lang_letter c \<longleftrightarrow> 97 \<le> c \<and> c \<le> 122"

definition LANG_CODE_PATTERN :: rx where
  "LANG_CODE_PATTERN = RSeq rbos (RSeq (RCls lang_letter) (RSeq (RCls lang_letter) reos))"

definition invalid_code :: "pystr \<Rightarrow> bool" where
  "invalid_code c \<longleftrightarrow> re_match LANG_CODE_PATTERN c = None"

definition patch_series_overrides ::
  "nat \<Rightarrow> pystr list option \<Rightarrow> pystr option \<Rightarrow> bible_db option \<Rightarrow> shown reply \<times> bible_db option" where
  "patch_series_overrides sid langs model db =
     with_db 503 (\<lambda>d.
       if (case langs of None \<Rightarrow> False | Some cs \<Rightarrow> filter invalid_code cs \<noteq> []) then (HttpError 422, d)
       else respond True (row_of ShownSeries (set_series_overrides sid langs model d)) d) db"

section \<open>Additions and deletes\<close>

text \<open>A key that is read with brackets raises \<open>KeyError\<close> where it is missing.\<close>

definition post_character ::
  "(pystr \<Rightarrow> pystr) \<Rightarrow> nat \<Rightarrow> pystr option \<Rightarrow> pystr option \<Rightarrow> pystr option \<Rightarrow> pystr option \<Rightarrow> pystr option \<Rightarrow>
   bible_db option \<Rightarrow> shown reply \<times> bible_db option" where
  "post_character db_lower sid name gender age role src db =
     with_db 503 (\<lambda>d. case name of
         None \<Rightarrow> (Unhandled KeyError, d)
       | Some n \<Rightarrow> respond False (row_only ShownCharacter
           (upsert_character db_lower sid n gender age role None (case src of None \<Rightarrow> lit ''import'' | Some s \<Rightarrow> s) d)) d) db"

definition add_term ::
  "(pystr \<Rightarrow> pystr) \<Rightarrow> nat \<Rightarrow> pystr option \<Rightarrow> pystr option \<Rightarrow> pystr option \<Rightarrow> pystr option \<Rightarrow> pystr option \<Rightarrow>
   bible_db option \<Rightarrow> shown reply \<times> bible_db option" where
  "add_term db_lower sid source rendering category ep src db =
     with_db 503 (\<lambda>d. case source of
         None \<Rightarrow> (Unhandled KeyError, d)
       | Some t \<Rightarrow> respond False (row_only ShownTerm
           (upsert_term db_lower sid t (Some (or_empty rendering)) category ep (case src of None \<Rightarrow> lit ''import'' | Some s \<Rightarrow> s) d)) d) db"

text \<open>The ids are given with the error that \<open>int(body[...])\<close> raises.\<close>

definition add_address_pair ::
  "nat \<Rightarrow> py_error + nat \<Rightarrow> py_error + nat \<Rightarrow> pystr option \<Rightarrow> pystr option \<Rightarrow> pystr option \<Rightarrow> pystr option \<Rightarrow> pystr option \<Rightarrow>
   bible_db option \<Rightarrow> shown reply \<times> bible_db option" where
  "add_address_pair sid speaker addressee self address since ep src db =
     with_db 503 (\<lambda>d. case speaker of
         Inl e \<Rightarrow> (Unhandled e, d)
       | Inr a \<Rightarrow> (case addressee of
           Inl e \<Rightarrow> (Unhandled e, d)
         | Inr b \<Rightarrow> respond False (row_only ShownPair
             (upsert_address_pair sid a b self address since ep (case src of None \<Rightarrow> lit ''import'' | Some s \<Rightarrow> s) d)) d)) db"

definition delete_address_map :: "nat \<Rightarrow> nat \<Rightarrow> bible_db option \<Rightarrow> shown reply \<times> bible_db option" where
  "delete_address_map sid pid db = with_db 404 (\<lambda>d. respond True (row_of ShownId (delete_address_pair pid sid d)) d) db"

definition delete_term_route :: "nat \<Rightarrow> nat \<Rightarrow> bible_db option \<Rightarrow> shown reply \<times> bible_db option" where
  "delete_term_route sid tid db = with_db 404 (\<lambda>d. respond True (row_of ShownId (delete_term tid sid d)) d) db"

section \<open>Reading\<close>

definition get_series_list :: "bible_db option \<Rightarrow> series_row list" where
  "get_series_list db = (case db of None \<Rightarrow> [] | Some d \<Rightarrow> load_all_series d)"

definition get_series_bible :: "nat \<Rightarrow> bible_db option \<Rightarrow> series_bible reply" where
  "get_series_bible sid db = (case db of
     None \<Rightarrow> HttpError 404
   | Some d \<Rightarrow> (case load_series_bible sid d of Inl e \<Rightarrow> HttpError 404 | Inr b \<Rightarrow> Success b))"

text \<open>The order by a clock of one second is an argument.\<close>

definition load_field_history ::
  "(bible_event list \<Rightarrow> bible_event list) \<Rightarrow> nat \<Rightarrow> nat \<Rightarrow> entity \<Rightarrow> nat \<Rightarrow> pystr option \<Rightarrow> bible_db \<Rightarrow> bible_event list" where
  "load_field_history newest_first limit sid e i field db =
     take limit (newest_first (filter (\<lambda>ev. ev_series ev = sid \<and> ev_entity ev = e \<and> ev_id ev = i
       \<and> (case field of None \<Rightarrow> True | Some f \<Rightarrow> ev_field ev = f)) (db_events db)))"

definition entity_named :: "pystr \<Rightarrow> entity option" where
  "entity_named s =
     (if s = lit ''character'' then Some ECharacter
      else if s = lit ''term_dictionary'' then Some ETerm
      else if s = lit ''series'' then Some ESeries
      else if s = lit ''address_map'' then Some EPair else None)"

definition get_field_history ::
  "(bible_event list \<Rightarrow> bible_event list) \<Rightarrow> nat \<Rightarrow> pystr \<Rightarrow> nat \<Rightarrow> pystr option \<Rightarrow> bible_db option \<Rightarrow> bible_event list reply" where
  "get_field_history newest_first sid kind i field db = (case entity_named kind of
     None \<Rightarrow> HttpError 422
   | Some e \<Rightarrow> Success (case db of None \<Rightarrow> [] | Some d \<Rightarrow> load_field_history newest_first 100 sid e i field d))"

section \<open>The service\<close>

datatype bible_request =
    PatchCharacter nat nat "pystr option" "pystr option" bool
  | PatchTerm nat nat "pystr option" "pystr option" bool
  | PatchPair nat nat "pystr option" "pystr option" bool
  | PatchRegister nat "pystr option" bool
  | PatchOverrides nat "pystr list option" "pystr option"
  | PostCharacter nat "pystr option" "pystr option" "pystr option" "pystr option" "pystr option"
  | PostTerm nat "pystr option" "pystr option" "pystr option" "pystr option" "pystr option"
  | PostPair nat "py_error + nat" "py_error + nat" "pystr option" "pystr option" "pystr option" "pystr option" "pystr option"
  | DeletePair nat nat
  | DeleteTerm nat nat

fun handle :: "(pystr \<Rightarrow> pystr) \<Rightarrow> bible_request \<Rightarrow> bible_db option \<Rightarrow> shown reply \<times> bible_db option" where
  "handle db_lower (PatchCharacter sid cid f v l) = patch_character sid cid f v l"
| "handle db_lower (PatchTerm sid tid f v l) = patch_term sid tid f v l"
| "handle db_lower (PatchPair sid pid s a l) = patch_address_map sid pid s a l"
| "handle db_lower (PatchRegister sid v l) = patch_series_register sid v l"
| "handle db_lower (PatchOverrides sid ls m) = patch_series_overrides sid ls m"
| "handle db_lower (PostCharacter sid n g a r s) = post_character db_lower sid n g a r s"
| "handle db_lower (PostTerm sid t v c ep s) = add_term db_lower sid t v c ep s"
| "handle db_lower (PostPair sid a b x y z ep s) = add_address_pair sid a b x y z ep s"
| "handle db_lower (DeletePair sid pid) = delete_address_map sid pid"
| "handle db_lower (DeleteTerm sid tid) = delete_term_route sid tid"

text \<open>The requests by which a person edits, and those that add like an inference.\<close>

fun edits :: "bible_request \<Rightarrow> bool" where
  "edits (PostCharacter sid n g a r s) = False"
| "edits (PostTerm sid t v c ep s) = False"
| "edits (PostPair sid a b x y z ep s) = False"
| "edits (DeletePair sid pid) = False"
| "edits (DeleteTerm sid tid) = False"
| "edits _ = True"

fun handle_all :: "(pystr \<Rightarrow> pystr) \<Rightarrow> bible_request list \<Rightarrow> bible_db option \<Rightarrow> bible_db option" where
  "handle_all db_lower [] db = db"
| "handle_all db_lower (r # rs) db = handle_all db_lower rs (snd (handle db_lower r db))"

section \<open>A request is at most one step of the store\<close>

text \<open>What a reply goes with: an answer with one step of the store, an error with no change.\<close>

definition agrees :: "(pystr \<Rightarrow> pystr) \<Rightarrow> bool \<Rightarrow> bible_db \<Rightarrow> 'a reply \<times> bible_db \<Rightarrow> bool" where
  "agrees db_lower human db out \<longleftrightarrow> (case out of
     (Success x, db') \<Rightarrow> bible_op db_lower human db db'
   | (_, db') \<Rightarrow> db' = db)"

lemma agrees_simps [simp]:
  "agrees db_lower human db (Success x, db') \<longleftrightarrow> bible_op db_lower human db db'"
  "agrees db_lower human db (HttpError n, db') \<longleftrightarrow> db' = db"
  "agrees db_lower human db (Unhandled e, db') \<longleftrightarrow> db' = db"
  by (simp_all add: agrees_def)

lemma respond_row_only:
  "(\<And>db' r es. x = Inr (db', r, es) \<Longrightarrow> bible_op db_lower human db db') \<Longrightarrow>
     agrees db_lower human db (respond catches (row_only f x) db)"
  by (auto simp: respond_def row_only_def split: sum.splits prod.splits)

lemma respond_row_of:
  "(\<And>db' r. x = Inr (db', r) \<Longrightarrow> bible_op db_lower human db db') \<Longrightarrow>
     agrees db_lower human db (respond catches (row_of f x) db)"
  by (auto simp: respond_def row_of_def split: sum.splits prod.splits)

text \<open>The same over a database that may be absent.\<close>

definition settled :: "(pystr \<Rightarrow> pystr) \<Rightarrow> bool \<Rightarrow> bible_db option \<Rightarrow> 'a reply \<times> bible_db option \<Rightarrow> bool" where
  "settled db_lower human db out \<longleftrightarrow> (case db of
     None \<Rightarrow> snd out = None \<and> (\<exists>n. fst out = HttpError n)
   | Some d \<Rightarrow> (\<exists>d'. snd out = Some d' \<and> agrees db_lower human d (fst out, d')))"

lemma settled_same: "settled db_lower human db (HttpError n, db)"
  by (auto simp: settled_def split: option.split)

lemma settled_with_db:
  "(\<And>d. db = Some d \<Longrightarrow> agrees db_lower human d (h d)) \<Longrightarrow> settled db_lower human db (with_db n h db)"
  by (auto simp: settled_def with_db_def split: option.split prod.split)

lemma handle_settled: "settled db_lower (edits req \<or> (\<exists>a b. req = DeletePair a b \<or> req = DeleteTerm a b)) db (handle db_lower req db)"
proof (cases req)
  case (PatchCharacter sid cid f v l)
  then show ?thesis
    by (auto simp: patch_character_def intro!: settled_same settled_with_db respond_row_only bible_op.edit_character)
next
  case (PatchTerm sid tid f v l)
  then show ?thesis
    by (auto simp: patch_term_def intro!: settled_same settled_with_db respond_row_only bible_op.edit_term)
next
  case (PatchPair sid pid s a l)
  then show ?thesis
    by (auto simp: patch_address_map_def intro!: settled_same settled_with_db respond_row_only bible_op.edit_pair)
next
  case (PatchRegister sid v l)
  then show ?thesis
    by (auto simp: patch_series_register_def intro!: settled_same settled_with_db respond_row_only) (rule bible_op.edit_series)
next
  case (PatchOverrides sid ls m)
  then show ?thesis
    by (auto simp: patch_series_overrides_def intro!: settled_with_db respond_row_of bible_op.overrides)
next
  case (PostCharacter sid n g a r s)
  then show ?thesis
    by (auto simp: post_character_def intro!: settled_with_db respond_row_only bible_op.character split: option.split)
next
  case (PostTerm sid t v c ep s)
  then show ?thesis
    by (auto simp: add_term_def intro!: settled_with_db respond_row_only bible_op.term_entry split: option.split)
next
  case (PostPair sid a b x y z ep s)
  then show ?thesis
    by (auto simp: add_address_pair_def intro!: settled_with_db respond_row_only bible_op.pair split: sum.split)
next
  case (DeletePair sid pid)
  then show ?thesis
    by (auto simp: delete_address_map_def intro!: settled_with_db respond_row_of bible_op.delete_pair)
next
  case (DeleteTerm sid tid)
  then show ?thesis
    by (auto simp: delete_term_route_def intro!: settled_with_db respond_row_of bible_op.delete_term)
qed

section \<open>Statuses\<close>

text \<open>The row a request names, if it is there and belongs to the series of the request.\<close>

definition owned :: "'r table \<Rightarrow> nat \<Rightarrow> nat \<Rightarrow> 'r list \<Rightarrow> bool" where
  "owned t sid i rs \<longleftrightarrow> (case row_by_id t i rs of None \<Rightarrow> False | Some r \<Rightarrow> t_series t r = sid)"

fun names_own_row :: "bible_request \<Rightarrow> bible_db \<Rightarrow> bool" where
  "names_own_row (PatchCharacter sid cid f v l) db = owned character_table sid cid (db_characters db)"
| "names_own_row (PatchTerm sid tid f v l) db = owned term_table sid tid (db_terms db)"
| "names_own_row (PatchPair sid pid s a l) db = owned pair_table sid pid (db_pairs db)"
| "names_own_row (PatchRegister sid v l) db = (row_by_id series_table sid (db_series db) \<noteq> None)"
| "names_own_row (PatchOverrides sid ls m) db = (row_by_id series_table sid (db_series db) \<noteq> None)"
| "names_own_row (DeletePair sid pid) db = owned pair_table sid pid (db_pairs db)"
| "names_own_row (DeleteTerm sid tid) db = owned term_table sid tid (db_terms db)"
| "names_own_row _ db = True"

text \<open>What a handler rejects before it looks at the database.\<close>

fun well_formed :: "bible_request \<Rightarrow> bool" where
  "well_formed (PatchCharacter sid cid f v l) = editable ECharacter f"
| "well_formed (PatchTerm sid tid f v l) = editable ETerm f"
| "well_formed (PatchPair sid pid s a l) = (\<not> (l \<and> (blank s \<or> blank a)))"
| "well_formed (PatchRegister sid v l) = (v \<noteq> None)"
| "well_formed (PatchOverrides sid ls m) = (case ls of None \<Rightarrow> True | Some cs \<Rightarrow> \<forall>c \<in> set cs. \<not> invalid_code c)"
| "well_formed _ = True"

lemma commit_not_ValueError: "commit db x \<noteq> Inl ValueError"
  by (simp add: commit_def)

lemmas handler_defs = patch_character_def patch_term_def patch_address_map_def patch_series_register_def patch_series_overrides_def
  delete_address_map_def delete_term_route_def with_db_def respond_def row_only_def row_of_def


section \<open>Proofs of the statuses\<close>

lemma edit_character_owned:
  assumes "field \<in> set (MERGEABLE_FIELDS ECharacter)"
  shows "apply_human_edit_character cid sid field v lock db = Inl ValueError \<longleftrightarrow> \<not> owned character_table sid cid (db_characters db)"
  using assms by (auto simp: apply_human_edit_character_def owned_def commit_not_ValueError Let_def character_table_def[THEN arg_cong[where f = t_series]]
      split: option.split)

lemma edit_term_owned:
  assumes "field \<in> set (MERGEABLE_FIELDS ETerm)"
  shows "apply_human_edit_term sid None (Some tid) field v lock db = Inl ValueError \<longleftrightarrow> \<not> owned term_table sid tid (db_terms db)"
  using assms by (auto simp: apply_human_edit_term_def locate_term_def owned_def commit_not_ValueError Let_def term_table_def[THEN arg_cong[where f = t_series]]
      split: option.split)

lemma edit_pair_owned:
  assumes "\<not> (lock \<and> (blank self \<or> blank address))"
  shows "apply_human_edit_address_pair pid sid self address lock db = Inl ValueError \<longleftrightarrow> \<not> owned pair_table sid pid (db_pairs db)"
  using assms by (auto simp: apply_human_edit_address_pair_def owned_def commit_not_ValueError Let_def pair_table_def[THEN arg_cong[where f = t_series]]
      split: option.split prod.split)

lemma edit_series_there:
  "apply_human_edit_series sid F_REGISTER v lock db = Inl ValueError \<longleftrightarrow> row_by_id series_table sid (db_series db) = None"
  by (auto simp: apply_human_edit_series_def commit_not_ValueError Let_def split: option.split)

lemma overrides_there:
  "set_series_overrides sid ls m db = Inl ValueError \<longleftrightarrow> row_by_id series_table sid (db_series db) = None"
  by (auto simp: set_series_overrides_def commit_not_ValueError Let_def split: option.split)

lemma delete_pair_owned:
  "delete_address_pair pid sid db = Inl ValueError \<longleftrightarrow> \<not> owned pair_table sid pid (db_pairs db)"
  by (auto simp: delete_address_pair_def owned_def commit_not_ValueError pair_table_def[THEN arg_cong[where f = t_series]] split: option.split)

lemma delete_term_owned:
  "delete_term tid sid db = Inl ValueError \<longleftrightarrow> \<not> owned term_table sid tid (db_terms db)"
  by (auto simp: delete_term_def owned_def commit_not_ValueError term_table_def[THEN arg_cong[where f = t_series]] split: option.split)

lemma status:
  "fst (respond True (row_only f x) db) = HttpError n \<longleftrightarrow> n = 404 \<and> x = Inl ValueError"
  "fst (respond True (row_of g y) db) = HttpError n \<longleftrightarrow> n = 404 \<and> y = Inl ValueError"
  "fst (respond False (row_only f x) db) \<noteq> HttpError n"
  by (auto simp: respond_def row_only_def row_of_def split: sum.splits prod.splits)

lemma fst_with_db: "fst (with_db n h (Some d)) = fst (h d)"
  by (simp add: with_db_def split: prod.split)

lemma code_match: "\<not> invalid_code c \<longleftrightarrow> (\<exists>a b. lang_letter a \<and> lang_letter b \<and> (c = [a, b] \<or> c = [a, b, 10]))"
proof -
  have "\<not> invalid_code c \<longleftrightarrow> (case c of a # b # r \<Rightarrow> lang_letter a \<and> lang_letter b \<and> (r = [] \<or> r = [10]) | _ \<Rightarrow> False)"
    by (auto simp: invalid_code_def LANG_CODE_PATTERN_def rx_eval split: list.splits)
  then show ?thesis by (auto split: list.splits)
qed

lemma handled_status:
  "fst (handle db_lower req (Some db)) = HttpError n \<longleftrightarrow>
     (n = 422 \<and> \<not> well_formed req \<or> n = 404 \<and> well_formed req \<and> \<not> names_own_row req db)"
proof (cases req)
  case (PatchCharacter sid cid f v l)
  then show ?thesis
    by (auto simp: patch_character_def fst_with_db status editable_def edit_character_owned split: option.splits
        simp del: MERGEABLE_FIELDS.simps)
next
  case (PatchTerm sid tid f v l)
  then show ?thesis
    by (auto simp: patch_term_def fst_with_db status editable_def edit_term_owned split: option.splits
        simp del: MERGEABLE_FIELDS.simps)
next
  case (PatchPair sid pid s a l)
  then show ?thesis by (auto simp: patch_address_map_def fst_with_db status edit_pair_owned)
next
  case (PatchRegister sid v l)
  then show ?thesis by (auto simp: patch_series_register_def fst_with_db status edit_series_there)
next
  case (PatchOverrides sid ls m)
  then show ?thesis
    by (auto simp: patch_series_overrides_def fst_with_db status overrides_there filter_empty_conv split: option.splits)
qed (auto simp: post_character_def add_term_def add_address_pair_def delete_address_map_def delete_term_route_def fst_with_db status
      delete_pair_owned delete_term_owned split: option.splits sum.splits)

section \<open>Properties\<close>



text \<open>
  C18: A request cannot touch a row of another series, and the statuses say so. Of the requests that
  name a row, one that is malformed is answered 422; of the others exactly those are
  answered 404 whose row is missing or belongs to another series; and with any
  status the database is unchanged.
\<close>

theorem foreign_rows_refused:
  "handle db_lower req (Some db) = (HttpError n, out) \<longleftrightarrow>
     out = Some db \<and> (n = 422 \<and> \<not> well_formed req \<or> n = 404 \<and> well_formed req \<and> \<not> names_own_row req db)"
proof -
  have "snd (handle db_lower req (Some db)) = Some db" if "fst (handle db_lower req (Some db)) = HttpError n"
    using handle_settled[of db_lower req "Some db"] that by (auto simp: settled_def)
  with handled_status[of db_lower req db n] show ?thesis by (cases "handle db_lower req (Some db)") auto
qed

text \<open>
  The language codes accepted for a series are two letters from a to z, and also two such
  letters with a line feed after them, which the pattern of the route lets through.
\<close>

theorem override_codes:
  "fst (patch_series_overrides sid (Some cs) model (Some db)) = HttpError 422 \<longleftrightarrow>
     \<not> (\<forall>c \<in> set cs. \<exists>a b. lang_letter a \<and> lang_letter b \<and> (c = [a, b] \<or> c = [a, b, 10]))"
  unfolding code_match[symmetric] by (auto simp: patch_series_overrides_def fst_with_db status filter_empty_conv)

text \<open>
  The history of an entity holds at most a hundred events, each an event of that entity in that
  series and, where a field is named, of that field; and with fewer than a hundred of them,
  all of them.
\<close>

theorem history_of_entity:
  assumes "\<And>es. mset (newest_first es) = mset es"
  shows "(\<forall>ev \<in> set (load_field_history newest_first limit sid e i field db).
            ev \<in> set (db_events db) \<and> ev_series ev = sid \<and> ev_entity ev = e \<and> ev_id ev = i \<and> (field = None \<or> field = Some (ev_field ev)))
    \<and> length (load_field_history newest_first limit sid e i field db) \<le> limit
    \<and> (length (load_field_history newest_first limit sid e i field db) < limit \<longrightarrow>
         mset (load_field_history newest_first limit sid e i field db) =
         {#ev \<in># mset (db_events db). ev_series ev = sid \<and> ev_entity ev = e \<and> ev_id ev = i \<and> (field = None \<or> field = Some (ev_field ev))#})"
proof -
  let ?p = "\<lambda>ev. ev_series ev = sid \<and> ev_entity ev = e \<and> ev_id ev = i \<and> (case field of None \<Rightarrow> True | Some f \<Rightarrow> ev_field ev = f)"
  let ?q = "\<lambda>ev. ev_series ev = sid \<and> ev_entity ev = e \<and> ev_id ev = i \<and> (field = None \<or> field = Some (ev_field ev))"
  have pq: "?p = ?q" by (cases field) auto
  have s: "set (newest_first es) = set es" for es using assms[of es] by (metis set_mset_mset)
  have h: "load_field_history newest_first limit sid e i field db = take limit (newest_first (filter ?q (db_events db)))"
    by (simp add: load_field_history_def pq)
  show ?thesis unfolding h
    using s[of "filter ?q (db_events db)"] assms[of "filter ?q (db_events db)"]
    by (auto simp: take_all_iff mset_filter dest!: in_set_takeD)
qed

theorem history_of_entity_witness:
  "length (load_field_history rev 100 1 ETerm 1 None bible_with_lock) \<le> 100"
  using history_of_entity[of rev 100 1 ETerm 1 None bible_with_lock] by simp

end
