(* ===== verification/Web_Views.thy ===== *)
theory Web_Views
  imports Job_Queue Discovery Attribution Arr_Services "HOL-Library.Multiset"
begin

text \<open>
  What the pages of the web interface read and start: the queue and the history of
  \<open>trezarr/web/routes/queue.py\<close>, and of \<open>trezarr/web/routes/library.py\<close> the translation started by hand
  and the list of the episodes of a series. The answers of the services, the file system and the
  order by a clock are arguments; a body is given by the values it holds.
\<close>

section \<open>Queue and history\<close>

fun rdigits_upto :: "nat \<Rightarrow> rx" where
  "rdigits_upto 0 = REps"
| "rdigits_upto (Suc n) = RSeq rdig (if n = 0 then REps else ropt (rdigits_upto n))"

definition EPISODE_RE :: rx where
  "EPISODE_RE = RSeq (RCls (\<lambda>c. c = 83 \<or> c = 115)) (RSeq (RGrp 1 (rdigits_upto 4))
     (RSeq (RCls (\<lambda>c. c = 69 \<or> c = 101)) (RGrp 2 (rdigits_upto 4))))"

definition extract_episode_key :: "pystr \<Rightarrow> pystr" where
  "extract_episode_key p = (case re_search EPISODE_RE p of
     Some (a, m, z, g) \<Rightarrow> episode_label (pad2 (int_of_digits (Py_Regex.group g 1))) (pad2 (int_of_digits (Py_Regex.group g 2)))
   | None \<Rightarrow> [])"

record queue_row =
  qr_id :: nat
  qr_source :: pystr
  qr_series :: "nat option"
  qr_status :: job_status
  qr_started :: "nat option"
  qr_episode :: pystr

definition queue_row_of :: "job \<Rightarrow> queue_row" where
  "queue_row_of j = \<lparr>qr_id = job_id j, qr_source = job_source j, qr_series = job_series j, qr_status = job_status j,
     qr_started = job_started j, qr_episode = extract_episode_key (job_source j)\<rparr>"

definition get_queue :: "(job list \<Rightarrow> job list) \<Rightarrow> qstate option \<Rightarrow> queue_row list" where
  "get_queue by_enqueued db = (case db of
     None \<Rightarrow> []
   | Some q \<Rightarrow> map queue_row_of (by_enqueued (filter (\<lambda>j. job_status j \<in> {Queued, Running}) (q_jobs q))))"

record history_row =
  hr_id :: nat
  hr_source :: pystr
  hr_series :: "nat option"
  hr_status :: job_status
  hr_error :: "pystr option"
  hr_trigger :: trigger
  hr_finished :: "nat option"
  hr_episode :: pystr

definition history_row_of :: "job \<Rightarrow> history_row" where
  "history_row_of j = \<lparr>hr_id = job_id j, hr_source = job_source j, hr_series = job_series j, hr_status = job_status j,
     hr_error = (if truthy (job_error j) then Some (take 500 (or_empty (job_error j))) else None),
     hr_trigger = job_trigger j, hr_finished = job_finished j, hr_episode = extract_episode_key (job_source j)\<rparr>"

definition get_jobs :: "(job list \<Rightarrow> job list) \<Rightarrow> qstate option \<Rightarrow> history_row list" where
  "get_jobs by_finished db = (case db of
     None \<Rightarrow> []
   | Some q \<Rightarrow> map history_row_of
       (take 200 (by_finished (filter (\<lambda>j. job_status j \<in> {JobDone, Failed, JobQuarantined}) (q_jobs q)))))"

section \<open>Translation by hand\<close>

text \<open>What the handler asks of its surroundings; the attributes of a series are its title, its tvdb id and its metadata.\<close>

record translate_host =
  th_exists :: "pystr \<Rightarrow> bool"
  th_resolve :: "path \<Rightarrow> path"
  th_roots :: "path list"
  th_sonarr :: bool
  th_series :: "nat \<Rightarrow> snapshot option"

datatype translate_reply = SourceRequired | SourceNotFound pystr | OutsideRoots pystr | Enqueued bool pystr

definition manual_item :: "translate_host \<Rightarrow> pystr \<Rightarrow> nat option \<Rightarrow> snapshot" where
  "manual_item h kind series =
     [(lit ''arr_kind'', if kind = lit ''movie'' then lit ''radarr'' else lit ''sonarr''),
      (lit ''source_type'', if kind = lit ''movie'' then lit ''movie'' else lit ''episode'')]
     @ (case series of None \<Rightarrow> [] | Some n \<Rightarrow> [(lit ''series_id'', dec n)])
     @ (case series of None \<Rightarrow> [] | Some n \<Rightarrow>
         (if kind \<noteq> lit ''movie'' \<and> th_sonarr h then (case th_series h n of None \<Rightarrow> [] | Some attrs \<Rightarrow> attrs) else []))"

definition post_translate ::
  "translate_host \<Rightarrow> pystr option \<Rightarrow> pystr option \<Rightarrow> nat option \<Rightarrow> qstate \<Rightarrow> translate_reply \<times> qstate" where
  "post_translate h source kind series q =
     (if \<not> truthy source then (SourceRequired, q)
      else let p = or_empty source in
        if \<not> th_exists h p then (SourceNotFound p, q)
        else if th_roots h \<noteq> [] \<and> assert_within_media_roots (th_resolve h) (th_resolve h (path_of p)) (th_roots h) \<noteq> Inr ()
          then (OutsideRoots p, q)
        else let k = (if truthy kind then or_empty kind else lit ''series'') in
          (case enqueue_job None p series Manual (Some (manual_item h k series)) q of
             (q', enqueued) \<Rightarrow> (Enqueued enqueued p, q')))"

section \<open>Audio languages\<close>

definition name_parts :: "pystr \<Rightarrow> pystr list" where
  "name_parts s = filter (\<lambda>p. p \<noteq> []) (map strip (split_char 47 s))"

definition language_code :: "pystr \<Rightarrow> pystr" where
  "language_code name = (case map_of ORIG_LANG_NAME_TO_CODE2 (lower name) of Some c \<Rightarrow> c | None \<Rightarrow> lower name)"

fun first_seen :: "pystr list \<Rightarrow> pystr list \<Rightarrow> pystr list" where
  "first_seen seen [] = []"
| "first_seen seen (n # ns) =
     (let c = language_code n in if c \<in> set seen then first_seen seen ns else c # first_seen (c # seen) ns)"

definition string_parts :: "json \<Rightarrow> pystr list" where
  "string_parts v = (case v of JStr s \<Rightarrow> name_parts s | _ \<Rightarrow> [])"

definition normalize_audio_languages :: "json \<Rightarrow> ('e, pystr list) answer" where
  "normalize_audio_languages raw =
     (if \<not> holds raw then Inr []
      else case raw of
        JStr s \<Rightarrow> Inr (first_seen [] (name_parts s))
      | _ \<Rightarrow> and_then (elements raw) (\<lambda>vs. Inr (first_seen [] (concat (map string_parts vs)))))"

section \<open>The episodes of a series\<close>

text \<open>A list or a dictionary is no key of a dictionary. The last entry of a key counts.\<close>

definition hashed :: "json \<Rightarrow> ('e, json) answer" where
  "hashed v = (case v of JList vs \<Rightarrow> Inl (Crashed TypeError) | JDict d \<Rightarrow> Inl (Crashed TypeError) | _ \<Rightarrow> Inr v)"

definition last_at :: "(json \<times> 'a) list \<Rightarrow> json \<Rightarrow> 'a option" where
  "last_at kvs k = map_of (rev kvs) k"

text \<open>\<open>f"{n:02d}"\<close> takes an integer.\<close>

definition whole_number :: "json \<Rightarrow> ('e, int) answer" where
  "whole_number v = (case v of
     JInt i \<Rightarrow> Inr i
   | JBool b \<Rightarrow> Inr (if b then 1 else 0)
   | JFloat f \<Rightarrow> Inl (Crashed ValueError)
   | JStr s \<Rightarrow> Inl (Crashed ValueError)
   | _ \<Rightarrow> Inl (Crashed TypeError))"

definition pad_int :: "int \<Rightarrow> pystr" where
  "pad_int i = (if i < 0 then 45 # dec (nat (- i)) else pad2 (nat i))"

record badge =
  bd_code2 :: json
  bd_code3 :: json
  bd_hi :: bool
  bd_forced :: bool

definition badge_of :: "subtitle_entry \<Rightarrow> badge" where
  "badge_of e = \<lparr>bd_code2 = se_code2 e, bd_code3 = se_code3 e, bd_hi = se_hi e, bd_forced = se_forced e\<rparr>"

datatype episode_status = Nothing | HasSource | Translated

record episode_row =
  er_id :: json
  er_file_id :: json
  er_season :: int
  er_number :: int
  er_key :: pystr
  er_title :: json
  er_monitored :: json
  er_has_file :: bool
  er_path :: "path option"
  er_source :: "(sub_path \<times> pystr) option"
  er_status :: episode_status
  er_audio :: "pystr list"
  er_subtitles :: "badge list"

text \<open>The file system: whether a path is there, and the listing beside a media file.\<close>

record media_view =
  mv_exists :: "path \<Rightarrow> bool"
  mv_item :: "path \<Rightarrow> media_item"

text \<open>\<open>p.parent / (p.stem + ext)\<close> for each of three endings.\<close>

definition with_ending :: "path \<Rightarrow> pystr \<Rightarrow> path" where
  "with_ending p ending = p\<lparr>path_parts := butlast (path_parts p)
     @ [path_stem (if path_parts p = [] then [] else last (path_parts p)) @ ending]\<rparr>"

definition VI_ENDINGS :: "pystr list" where
  "VI_ENDINGS = [lit ''.vi.srt'', lit ''.vi.ass'', lit ''.vi.vtt'']"

definition vi_found :: "media_view \<Rightarrow> path \<Rightarrow> bool" where
  "vi_found fs p \<longleftrightarrow> (\<exists>ending \<in> set VI_ENDINGS. mv_exists fs (with_ending p ending))"

definition file_status :: "media_view \<Rightarrow> pystr list \<Rightarrow> path option \<Rightarrow> (sub_path \<times> pystr) option \<times> episode_status" where
  "file_status fs priority p = (case p of
     None \<Rightarrow> (None, Nothing)
   | Some q \<Rightarrow>
       (if \<not> mv_exists fs q then (None, Nothing)
        else case find_source_sub (mv_item fs q) priority of
          None \<Rightarrow> (None, Nothing)
        | Some s \<Rightarrow> (Some s, if vi_found fs q then Translated else HasSource)))"

text \<open>The table from the id of an episode file to its record.\<close>

definition file_entry :: "json \<Rightarrow> ('e, (json \<times> json_dict) list) answer" where
  "file_entry v = and_then (entries v) (\<lambda>d.
     let i = get_or JNull (lit ''id'') d in
     if holds i then and_then (hashed i) (\<lambda>k. Inr [(k, d)]) else Inr [])"

definition inventory_entry :: "inventory_item \<Rightarrow> ('e, (json \<times> badge list) list) answer" where
  "inventory_entry item = and_then (hashed (ii_arr_id item)) (\<lambda>k. Inr [(k, map badge_of (ii_subtitles item))])"

definition or_entries :: "json \<Rightarrow> ('e, json_dict) answer" where
  "or_entries v = (if holds v then entries v else Inr [])"

definition episode_row_of ::
  "path_mapping list \<Rightarrow> media_view \<Rightarrow> pystr list \<Rightarrow> (json \<times> json_dict) list \<Rightarrow> (json \<times> badge list) list \<Rightarrow> json
     \<Rightarrow> ('e, episode_row list) answer" where
  "episode_row_of ms fs priority files inventory v = and_then (entries v) (\<lambda>ep.
     let i = get_or JNull (lit ''id'') ep; fi = get_or JNull (lit ''episodeFileId'') ep in
     and_then (if holds fi then and_then (hashed fi) (\<lambda>k. Inr (last_at files k)) else Inr None) (\<lambda>file.
     let fd = (case file of None \<Rightarrow> [] | Some d \<Rightarrow> d); raw = get_or (JStr []) (lit ''path'') fd in
     and_then (if holds raw then and_then (mapped raw ms) (\<lambda>p. Inr (Some p)) else Inr None) (\<lambda>p.
     and_then (or_entries (get_or JNull (lit ''mediaInfo'') fd)) (\<lambda>mi.
     and_then (normalize_audio_languages (or_value (get_or JNull (lit ''audioLanguages'') mi) (JList []))) (\<lambda>audio.
     and_then (whole_number (get_or (JInt 0) (lit ''seasonNumber'') ep)) (\<lambda>sn.
     and_then (whole_number (get_or (JInt 0) (lit ''episodeNumber'') ep)) (\<lambda>en.
     and_then (if i = JNull then Inr [] else and_then (hashed i) (\<lambda>k. Inr (case last_at inventory k of None \<Rightarrow> [] | Some b \<Rightarrow> b))) (\<lambda>subs.
       case file_status fs priority p of (src, st) \<Rightarrow>
         Inr [\<lparr>er_id = i, er_file_id = fi, er_season = sn, er_number = en, er_key = episode_label (pad_int sn) (pad_int en),
           er_title = get_or (JStr []) (lit ''title'') ep, er_monitored = get_or (JBool False) (lit ''monitored'') ep,
           er_has_file = holds (get_or (JBool False) (lit ''hasFile'') ep), er_path = p, er_source = src, er_status = st,
           er_audio = audio, er_subtitles = subs\<rparr>]))))))))"

text \<open>\<open>seasons[n].append(row)\<close> on a dictionary that makes a missing entry.\<close>

fun append_at :: "int \<Rightarrow> 'r \<Rightarrow> (int \<times> 'r list) list \<Rightarrow> (int \<times> 'r list) list" where
  "append_at k r [] = [(k, [r])]"
| "append_at k r ((k', rs) # d) = (if k = k' then (k', rs @ [r]) # d else (k', rs) # append_at k r d)"

fun group_seasons :: "episode_row list \<Rightarrow> (int \<times> episode_row list) list \<Rightarrow> (int \<times> episode_row list) list" where
  "group_seasons [] d = d"
| "group_seasons (r # rs) d = group_seasons rs (append_at (er_season r) r d)"

definition sorted_seasons :: "(int \<times> episode_row list) list \<Rightarrow> (int \<times> episode_row list) list" where
  "sorted_seasons d = map (\<lambda>k. (k, the (map_of d k))) (sort (map fst d))"

datatype 'e episodes_reply =
    SonarrDisabled
  | SonarrFailed "'e arr_failure"
  | Listing json bool "(int \<times> episode_row list) list" "'e arr_failure option"
  | Raised py_error

text \<open>The title of the series, of whatever shape the answer is.\<close>

definition series_title :: "json \<Rightarrow> json" where
  "series_title v = (let w = (case v of JList [] \<Rightarrow> JDict [] | JList (s # ss) \<Rightarrow> s | _ \<Rightarrow> v) in
     case w of JDict d \<Rightarrow> get_or JNull (lit ''title'') d | _ \<Rightarrow> JNull)"

text \<open>Of the inventory only the error of its client is caught; the loop after it catches nothing, and
  has no client whose error it could meet.\<close>

definition list_episodes ::
  "path_mapping list \<Rightarrow> media_view \<Rightarrow> pystr list \<Rightarrow> json \<Rightarrow> json list \<Rightarrow> (json \<times> json_dict) list
     \<Rightarrow> bool \<Rightarrow> (json \<times> badge list) list \<Rightarrow> 'e arr_failure option \<Rightarrow> 'e episodes_reply" where
  "list_episodes ms fs priority title eps files available inventory failure =
     (case (collect (episode_row_of ms fs priority files inventory) eps :: ('e, episode_row list) answer) of
        Inl (Crashed e) \<Rightarrow> Raised e
      | Inl other \<Rightarrow> Raised RuntimeError
      | Inr rows \<Rightarrow> Listing title available (sorted_seasons (group_seasons rows [])) failure)"

definition get_series_episodes ::
  "bool \<Rightarrow> bool \<Rightarrow> path_mapping list \<Rightarrow> media_view \<Rightarrow> pystr list \<Rightarrow> 'e + json \<times> json \<times> json
     \<Rightarrow> (query_form \<Rightarrow> 'e + json option) \<Rightarrow> 'e episodes_reply" where
  "get_series_episodes sonarr bazarr ms fs priority fetched endpoint =
     (if \<not> sonarr then SonarrDisabled
      else case and_then (from_client fetched) (\<lambda>(eps, fls, series).
             and_then (elements (as_single fls)) (\<lambda>fl. and_then (collect file_entry fl) (\<lambda>files. Inr (as_single eps, files, series_title series)))) of
        Inl e \<Rightarrow> SonarrFailed e
      | Inr (eps, files, title) \<Rightarrow>
          (let list = (\<lambda>available inventory failure. case (elements eps :: ('e, json list) answer) of
               Inl e \<Rightarrow> Raised TypeError
             | Inr vs \<Rightarrow> list_episodes ms fs priority title vs files available inventory failure)
           in if \<not> bazarr then list False [] None
              else case and_then (fetch_inventory ms endpoint) (collect inventory_entry) of
                Inl (Crashed e) \<Rightarrow> Raised e
              | Inl e \<Rightarrow> list False [] (Some e)
              | Inr inventory \<Rightarrow> list True inventory None))"

section \<open>The library\<close>

record library_row =
  lr_id :: json
  lr_title :: json
  lr_year :: json
  lr_monitored :: json
  lr_poster :: json
  lr_source_found :: bool
  lr_translated :: nat
  lr_total :: json

text \<open>\<open>images[0].get("remoteUrl")\<close> where there are images.\<close>

definition poster_of :: "json_dict \<Rightarrow> ('e, json) answer" where
  "poster_of d = (let images = get_or JNull (lit ''images'') d in
     if \<not> holds images then Inr JNull
     else case images of
       JList (v # vs) \<Rightarrow> and_then (entries v) (\<lambda>i. Inr (get_or JNull (lit ''remoteUrl'') i))
     | JStr s \<Rightarrow> Inl (Crashed AttributeError)
     | JDict i \<Rightarrow> Inl (Crashed KeyError)
     | _ \<Rightarrow> Inl (Crashed TypeError))"

definition file_count :: "json_dict \<Rightarrow> ('e, json) answer" where
  "file_count d = and_then (entries (get_or (JDict []) (lit ''statistics'') d)) (\<lambda>st. Inr (get_or (JInt 0) (lit ''episodeFileCount'') st))"

text \<open>A series, and under its id the number of its files.\<close>

definition library_series :: "json \<Rightarrow> ('e, (library_row \<times> (json \<times> json) list) list) answer" where
  "library_series s = and_then (entries s) (\<lambda>d. and_then (poster_of d) (\<lambda>poster.
     let i = get_or JNull (lit ''id'') d in
     and_then (if i = JNull then Inr [] else and_then (file_count d) (\<lambda>n. and_then (hashed i) (\<lambda>k. Inr [(k, n)]))) (\<lambda>stat.
       Inr [(\<lparr>lr_id = i, lr_title = get_or (JStr []) (lit ''title'') d, lr_year = get_or JNull (lit ''year'') d,
              lr_monitored = get_or (JBool False) (lit ''monitored'') d, lr_poster = poster, lr_source_found = False,
              lr_translated = 0, lr_total = JInt 0\<rparr>, stat)])))"

definition library_movie :: "path_mapping list \<Rightarrow> media_view \<Rightarrow> pystr list \<Rightarrow> json \<Rightarrow> ('e, library_row list) answer" where
  "library_movie ms fs priority m = and_then (entries m) (\<lambda>d. and_then (or_entries (get_or JNull (lit ''movieFile'') d)) (\<lambda>fd.
     let raw = or_value (get_or (JStr []) (lit ''path'') fd) (JStr []) in
     and_then (if holds raw then and_then (mapped raw ms) (\<lambda>p. Inr (find_source_sub (mv_item fs p) priority \<noteq> None, vi_found fs p))
               else Inr (False, False)) (\<lambda>(source, vi).
     and_then (poster_of d) (\<lambda>poster.
       Inr [\<lparr>lr_id = get_or JNull (lit ''id'') d, lr_title = get_or (JStr []) (lit ''title'') d, lr_year = get_or JNull (lit ''year'') d,
         lr_monitored = get_or (JBool False) (lit ''monitored'') d, lr_poster = poster, lr_source_found = source,
         lr_translated = (if vi then 1 else 0), lr_total = JInt (if holds (get_or (JBool False) (lit ''hasFile'') d) then 1 else 0)\<rparr>]))))"

text \<open>The counts of a series, looked up by \<open>str\<close> of its id, which is an argument.\<close>

definition counted_row :: "(json \<Rightarrow> pystr) \<Rightarrow> (pystr \<Rightarrow> nat option) \<Rightarrow> (json \<times> json) list \<Rightarrow> library_row \<Rightarrow> library_row" where
  "counted_row str_of counts stats r =
     (if lr_id r = JNull then r
      else r\<lparr>lr_translated := (case counts (str_of (lr_id r)) of None \<Rightarrow> 0 | Some n \<Rightarrow> n),
             lr_total := (case last_at stats (lr_id r) of None \<Rightarrow> JInt 0 | Some n \<Rightarrow> n)\<rparr>)"

datatype library_source = FromSonarr | FromRadarr

record 'e library =
  lb_series :: "library_row list"
  lb_movies :: "library_row list"
  lb_errors :: "(library_source \<times> 'e arr_failure) list"

definition sonarr_rows :: "bool \<Rightarrow> 'e + json \<Rightarrow> ('e, (library_row \<times> (json \<times> json) list) list) answer" where
  "sonarr_rows sonarr series =
     (if sonarr then and_then (from_client series) (\<lambda>v. and_then (elements (as_single v)) (collect library_series)) else Inr [])"

definition radarr_rows :: "bool \<Rightarrow> path_mapping list \<Rightarrow> media_view \<Rightarrow> pystr list \<Rightarrow> 'e + json \<Rightarrow> ('e, library_row list) answer" where
  "radarr_rows radarr ms fs priority movies =
     (if radarr then and_then (from_client movies) (\<lambda>v. and_then (elements (as_single v)) (collect (library_movie ms fs priority))) else Inr [])"

text \<open>A service that fails gives no rows and an error.\<close>

definition rows_of :: "('e, 'r list) answer \<Rightarrow> 'r list" where
  "rows_of x = (case x of Inl e \<Rightarrow> [] | Inr rs \<Rightarrow> rs)"

definition error_of :: "library_source \<Rightarrow> ('e, 'r list) answer \<Rightarrow> (library_source \<times> 'e arr_failure) list" where
  "error_of src x = (case x of Inl e \<Rightarrow> [(src, e)] | Inr rs \<Rightarrow> [])"

text \<open>The counts are read from the ledger when there are series, and a failure of that is not caught.\<close>

definition tallied ::
  "(json \<Rightarrow> pystr) \<Rightarrow> (json list \<Rightarrow> py_error + (pystr \<Rightarrow> nat option)) option \<Rightarrow> (library_row \<times> (json \<times> json) list) list
     \<Rightarrow> py_error + library_row list" where
  "tallied str_of tally listed =
     (let rows = map fst listed; stats = concat (map snd listed) in
      case (if rows = [] then Inr (\<lambda>s. None)
            else case tally of None \<Rightarrow> Inr (\<lambda>s. None) | Some t \<Rightarrow> t (filter (\<lambda>i. i \<noteq> JNull) (map lr_id rows))) of
        Inl e \<Rightarrow> Inl e
      | Inr counts \<Rightarrow> Inr (map (counted_row str_of counts stats) rows))"

definition get_library ::
  "bool \<Rightarrow> bool \<Rightarrow> path_mapping list \<Rightarrow> media_view \<Rightarrow> pystr list \<Rightarrow> (json \<Rightarrow> pystr)
     \<Rightarrow> (json list \<Rightarrow> py_error + (pystr \<Rightarrow> nat option)) option \<Rightarrow> 'e + json \<Rightarrow> 'e + json \<Rightarrow> py_error + 'e library" where
  "get_library sonarr radarr ms fs priority str_of tally series movies =
     (let shows = sonarr_rows sonarr series; films = radarr_rows radarr ms fs priority movies in
      case tallied str_of tally (rows_of shows) of
        Inl e \<Rightarrow> Inl e
      | Inr rows \<Rightarrow> Inr \<lparr>lb_series = rows, lb_movies = rows_of films, lb_errors = error_of FromSonarr shows @ error_of FromRadarr films\<rparr>)"

section \<open>Facts\<close>

lemma append_at_lookup:
  "map_of (append_at k r d) k' = (if k' = k then Some ((case map_of d k of None \<Rightarrow> [] | Some rs \<Rightarrow> rs) @ [r]) else map_of d k')"
  by (induction d) auto

lemma append_at_fst: "map fst (append_at k r d) = (if k \<in> fst ` set d then map fst d else map fst d @ [k])"
  by (induction k r d rule: append_at.induct) auto

lemma append_at_keys: "set (map fst (append_at k r d)) = insert k (set (map fst d))"
  unfolding append_at_fst by auto

lemma append_at_distinct: "distinct (map fst d) \<Longrightarrow> distinct (map fst (append_at k r d))"
  unfolding append_at_fst by auto

lemma group_lookup:
  "map_of (group_seasons rs d) k =
     (let new = filter (\<lambda>r. er_season r = k) rs in
      if new = [] then map_of d k else Some ((case map_of d k of None \<Rightarrow> [] | Some old \<Rightarrow> old) @ new))"
  by (induction rs arbitrary: d) (auto simp: append_at_lookup Let_def split: option.splits)

lemma group_keys: "set (map fst (group_seasons rs d)) = set (map er_season rs) \<union> set (map fst d)"
  by (induction rs arbitrary: d) (simp_all add: append_at_keys del: set_map list.set(2), auto)

lemma group_distinct: "distinct (map fst d) \<Longrightarrow> distinct (map fst (group_seasons rs d))"
  by (induction rs arbitrary: d) (simp_all add: append_at_distinct)

lemma page_ids:
  assumes "\<And>js. mset (order js) = mset js"
  shows "mset (map qr_id (get_queue order (Some q))) = mset (map job_id (filter (\<lambda>j. active_status (job_status j)) (q_jobs q)))"
proof -
  let ?f = "filter (\<lambda>j. active_status (job_status j)) (q_jobs q)"
  have f: "filter (\<lambda>j. job_status j \<in> {Queued, Running}) (q_jobs q) = ?f"
    by (rule filter_cong[OF refl]) (simp add: active_status_def)
  have "map qr_id (get_queue order (Some q)) = map job_id (order ?f)"
    unfolding get_queue_def option.case f by (simp add: queue_row_of_def)
  then show ?thesis by (simp only: mset_map assms)
qed

lemma history_ids:
  assumes "\<And>js. mset (order js) = mset js" and "length (filter (\<lambda>j. \<not> active_status (job_status j)) (q_jobs q)) \<le> 200"
  shows "mset (map hr_id (get_jobs order (Some q))) = mset (map job_id (filter (\<lambda>j. \<not> active_status (job_status j)) (q_jobs q)))"
proof -
  let ?f = "filter (\<lambda>j. \<not> active_status (job_status j)) (q_jobs q)"
  have p: "job_status j \<in> {JobDone, Failed, JobQuarantined} \<longleftrightarrow> \<not> active_status (job_status j)" for j :: job
    by (cases "job_status j") (auto simp: active_status_def)
  have f: "filter (\<lambda>j. job_status j \<in> {JobDone, Failed, JobQuarantined}) (q_jobs q) = ?f"
    by (rule filter_cong[OF refl]) (rule p)
  have "length (order ?f) = length ?f" using assms(1)[of ?f] by (metis size_mset)
  then have "map hr_id (get_jobs order (Some q)) = map job_id (order ?f)"
    using assms(2) unfolding get_jobs_def option.case f by (simp add: history_row_of_def)
  then show ?thesis by (simp only: mset_map assms(1))
qed

lemma collect_members: "collect f xs = Inr ys \<Longrightarrow> y \<in> set ys \<Longrightarrow> \<exists>x zs. f x = Inr zs \<and> y \<in> set zs"
  using collect_mem[of f xs ys y] by blast

section \<open>Properties\<close>



text \<open>
  Translation by hand is guarded. The queue stays one that the worker can reach; it
  changes only by one job for the named source, of the trigger \<open>manual\<close>, when that source exists, lies
  within the media roots, if there are any, and has no active job; and the answer says so.
\<close>

theorem manual_translation_guarded:
  assumes "reachable ok retry_max q" and "ok None Manual" and "post_translate h source kind series q = (reply, q')"
  shows "reachable ok retry_max q' \<and> ((\<exists>p. reply = Enqueued True p) \<longleftrightarrow> q' \<noteq> q)
    \<and> (q' \<noteq> q \<longrightarrow> (\<exists>p item. source = Some p \<and> th_exists h p
         \<and> (th_roots h = [] \<or> assert_within_media_roots (th_resolve h) (th_resolve h (path_of p)) (th_roots h) = Inr ())
         \<and> active_for p (q_jobs q) = [] \<and> q_jobs q' = q_jobs q @ [new_job (q_jobs q) p series Manual (Some item)]))"
proof (cases "\<exists>b p. reply = Enqueued b p")
  case True
  then obtain b p where b: "reply = Enqueued b p" by blast
  with assms(3) obtain k where p: "source = Some p" "th_exists h p"
      "th_roots h = [] \<or> assert_within_media_roots (th_resolve h) (th_resolve h (path_of p)) (th_roots h) = Inr ()"
    and e: "enqueue_job None p series Manual (Some (manual_item h k series)) q = (q', b)"
    by (cases source) (auto simp: post_translate_def Let_def truthy_simps split: if_splits prod.splits)
  have r: "reachable ok retry_max q'"
    using reachable.step[OF assms(1) qstep.enqueue[of ok None Manual retry_max q p series "Some (manual_item h k series)", OF assms(2)]] e by simp
  show ?thesis
  proof (cases b)
    case True
    with enqueue_adds_at_most_one[OF e] have a: "active_for p (q_jobs q) = []"
      "q_jobs q' = q_jobs q @ [new_job (q_jobs q) p series Manual (Some (manual_item h k series))]" by auto
    then have "q' \<noteq> q" by auto
    with r a b p True show ?thesis by auto
  next
    case False
    with enqueue_adds_at_most_one[OF e] r b show ?thesis by auto
  qed
next
  case False
  with assms(3) have "q' = q" by (auto simp: post_translate_def Let_def split: if_splits prod.splits)
  with False assms(1) show ?thesis by auto
qed

definition manual_host :: translate_host where
  "manual_host = \<lparr>th_exists = (\<lambda>p. True), th_resolve = (\<lambda>p. p), th_roots = [path_of (lit ''/d'')], th_sonarr = False, th_series = (\<lambda>n. None)\<rparr>"

definition posted :: "pystr \<Rightarrow> qstate \<Rightarrow> qstate" where
  "posted p q = snd (post_translate manual_host (Some p) None (Some 5) q)"

lemma sample_post:
  assumes "active_for p (q_jobs q) = []" and "relative_to (path_of p) (path_of (lit ''/d''))" and "p \<noteq> []"
  shows "\<exists>q' item. post_translate manual_host (Some p) None (Some 5) q = (Enqueued True p, q')
    \<and> q_jobs q' = q_jobs q @ [new_job (q_jobs q) p (Some 5) Manual item]"
proof -
  let ?item = "Some (manual_item manual_host (lit ''series'') (Some 5))"
  obtain q' b where e: "enqueue_job None p (Some 5) Manual ?item q = (q', b)" by fastforce
  note one = enqueue_adds_at_most_one[OF e]
  have b: "b = True" using one assms(1) by (cases b) auto
  with one have "q_jobs q' = q_jobs q @ [new_job (q_jobs q) p (Some 5) Manual ?item]" by simp
  with e b assms(2,3) show ?thesis
    by (auto simp: post_translate_def manual_host_def assert_within_media_roots_def)
qed

theorem manual_translation_guarded_witness:
  "\<exists>q'. post_translate manual_host (Some (lit ''/d/x.srt'')) None (Some 5) empty_queue = (Enqueued True (lit ''/d/x.srt''), q')
     \<and> reachable (\<lambda>cap trig. True) 2 q' \<and> q' \<noteq> empty_queue"
proof -
  have "relative_to (path_of (lit ''/d/x.srt'')) (path_of (lit ''/d''))" by (simp add: relative_to_def path_of_def lit_def)
  from sample_post[OF _ this, of empty_queue] obtain q' where
    q: "post_translate manual_host (Some (lit ''/d/x.srt'')) None (Some 5) empty_queue = (Enqueued True (lit ''/d/x.srt''), q')"
    by (auto simp: empty_queue_def active_for_def lit_def)
  from manual_translation_guarded[OF reachable.init _ q, of "\<lambda>cap trig. True" 2] q show ?thesis by auto
qed

text \<open>
  The source is compared as it is spelled: two spellings of one path are queued as two active
  jobs, so that one file is translated twice.
\<close>

theorem two_spellings_queued:
  "path_of (lit ''/d//x.srt'') = path_of (lit ''/d/x.srt'')
   \<and> (\<exists>q1 q2. post_translate manual_host (Some (lit ''/d/x.srt'')) None (Some 5) empty_queue = (Enqueued True (lit ''/d/x.srt''), q1)
     \<and> post_translate manual_host (Some (lit ''/d//x.srt'')) None (Some 5) q1 = (Enqueued True (lit ''/d//x.srt''), q2)
     \<and> active_for (lit ''/d/x.srt'') (q_jobs q2) \<noteq> [] \<and> active_for (lit ''/d//x.srt'') (q_jobs q2) \<noteq> [])"
proof -
  have same: "path_of (lit ''/d//x.srt'') = path_of (lit ''/d/x.srt'')" by (simp add: path_of_def lit_def)
  have r: "relative_to (path_of (lit ''/d/x.srt'')) (path_of (lit ''/d''))" by (simp add: relative_to_def path_of_def lit_def)
  obtain q1 item where q1: "post_translate manual_host (Some (lit ''/d/x.srt'')) None (Some 5) empty_queue = (Enqueued True (lit ''/d/x.srt''), q1)"
    and j1: "q_jobs q1 = [new_job [] (lit ''/d/x.srt'') (Some 5) Manual item]"
    using sample_post[OF _ r, of empty_queue] by (auto simp: empty_queue_def active_for_def lit_def)
  then have "active_for (lit ''/d//x.srt'') (q_jobs q1) = []" by (simp add: active_for_def new_job_def lit_def)
  from sample_post[OF this r[folded same]] obtain q2 item' where
    q2: "post_translate manual_host (Some (lit ''/d//x.srt'')) None (Some 5) q1 = (Enqueued True (lit ''/d//x.srt''), q2)"
    and j2: "q_jobs q2 = q_jobs q1 @ [new_job (q_jobs q1) (lit ''/d//x.srt'') (Some 5) Manual item']"
    by (auto simp: lit_def)
  have "active_for (lit ''/d/x.srt'') (q_jobs q2) \<noteq> []" "active_for (lit ''/d//x.srt'') (q_jobs q2) \<noteq> []"
    by (simp_all add: j2 j1 active_for_def new_job_def active_status_def)
  with q1 q2 same show ?thesis by blast
qed

text \<open>
  The seasons of the list are in ascending order, each once, and each holds its episodes in the
  order in which Sonarr gave them.
\<close>

theorem season_grouping:
  "sorted_seasons (group_seasons rows []) =
     map (\<lambda>k. (k, filter (\<lambda>r. er_season r = k) rows)) (sort (remdups (map er_season rows)))"
proof -
  have "sort (map fst (group_seasons rows [])) = sort (remdups (map er_season rows))"
    using group_keys[of rows "[]"] group_distinct[of "[]" rows]
    by (intro sorted_distinct_set_unique) (simp_all del: set_map add: set_map[symmetric])
  moreover have "the (map_of (group_seasons rows []) k) = filter (\<lambda>r. er_season r = k) rows" if "k \<in> er_season ` set rows" for k
    using that by (auto simp: group_lookup Let_def filter_empty_conv)
  ultimately show ?thesis by (auto simp: sorted_seasons_def)
qed

fun noting :: "'e arr_failure \<Rightarrow> 'e episodes_reply \<Rightarrow> 'e episodes_reply" where
  "noting e (Listing title available seasons failure) = Listing title available seasons (Some e)"
| "noting e r = r"

lemma list_episodes_noting:
  "list_episodes ms fs priority title eps files False inventory (Some e) = noting e (list_episodes ms fs priority title eps files False inventory None)"
  by (auto simp: list_episodes_def split: sum.split arr_failure.split)

text \<open>
  A failure of the inventory client costs only the badges: the list is the one without the
  inventory, with the failure noted beside it. A payload of another shape is no such failure:
  its exception leaves the handler.
\<close>

theorem inventory_failure_soft:
  assumes "get_series_episodes True False ms fs priority fetched endpoint = plain" and "\<And>e. plain \<noteq> SonarrFailed e"
    and "and_then (fetch_inventory ms endpoint) (collect inventory_entry) = Inl failure"
  shows "get_series_episodes True True ms fs priority fetched endpoint =
    (case failure of Crashed e \<Rightarrow> Raised e | _ \<Rightarrow> noting failure plain)"
proof -
  let ?first = "and_then (from_client fetched) (\<lambda>(eps, fls, series).
    and_then (elements (as_single fls)) (\<lambda>fl. and_then (collect file_entry fl) (\<lambda>files. Inr (as_single eps, files, series_title series))))"
  from assms(1,2) obtain eps files title where f: "?first = Inr (eps, files, title)"
    by (cases ?first) (auto simp: get_series_episodes_def)
  show ?thesis
  proof (cases failure)
    case (Crashed e)
    with assms(3) f show ?thesis by (simp add: get_series_episodes_def)
  qed (use assms(1,3) f in \<open>auto simp: get_series_episodes_def list_episodes_noting split: sum.split\<close>)
qed

definition empty_view :: media_view where
  "empty_view = \<lparr>mv_exists = (\<lambda>p. False), mv_item = (\<lambda>p. \<lparr>mi_dir = [], mi_stem = [], mi_listing = None, mi_original_language = None\<rparr>)\<rparr>"

theorem inventory_failure_soft_witness:
  "get_series_episodes True True [] empty_view [] (Inr (JList [], JList [], JNull) :: unit + json \<times> json \<times> json) (\<lambda>q. Inl ())
     = Listing JNull False [] (Some (ClientFailed ()))"
proof -
  have p: "get_series_episodes True False [] empty_view [] (Inr (JList [], JList [], JNull) :: unit + json \<times> json \<times> json) (\<lambda>q. Inl ()) = Listing JNull False [] None"
    by (simp add: get_series_episodes_def and_then_def from_client_def elements_def as_single_def series_title_def list_episodes_def sorted_seasons_def Let_def)
  have i: "and_then (fetch_inventory [] (\<lambda>q. Inl ())) (collect inventory_entry) = Inl (ClientFailed ())"
    by (simp add: fetch_inventory_def fetch_inventory_data_def and_then_def parsed_def from_client_def)
  from inventory_failure_soft[OF p _ i] show ?thesis by simp
qed

definition ledger_tally :: "file_table \<Rightarrow> json list \<Rightarrow> py_error + (pystr \<Rightarrow> nat option)" where
  "ledger_tally t ids = Inr (translated_counts_for_series t (map (\<lambda>i. case i of JInt n \<Rightarrow> nat n | _ \<Rightarrow> 0) ids))"

lemma tally_lookup:
  assumes "dec n \<in> set (map dec ids)"
  shows "(case translated_counts_for_series t ids (dec n) of None \<Rightarrow> 0 | Some k \<Rightarrow> k)
    = length (filter (\<lambda>x. le_series (row_entry x) = Some (dec n) \<and> le_status (row_entry x) = Done) t)"
  using assms by (simp only: translated_counts_for_series_def Let_def) (simp del: set_map)

lemma counted_id [simp]: "lr_id (counted_row str_of counts stats r) = lr_id r"
  by (simp add: counted_row_def)

text \<open>
  The count beside a series is that of the ledger: the number of its entries that are done.
\<close>

theorem library_counts:
  assumes "get_library sonarr radarr ms fs priority str_of (Some (ledger_tally t)) series movies = Inr lb"
    and "r \<in> set (lb_series lb)" and "lr_id r = JInt (int n)" and "str_of (JInt (int n)) = dec n"
  shows "lr_translated r = length (filter (\<lambda>x. le_series (row_entry x) = Some (dec n) \<and> le_status (row_entry x) = Done) t)"
proof -
  let ?nat = "\<lambda>i. case i of JInt n \<Rightarrow> nat n | _ \<Rightarrow> 0"
  from assms(1) obtain listed where "tallied str_of (Some (ledger_tally t)) listed = Inr (lb_series lb)"
    by (auto simp: get_library_def Let_def split: sum.splits)
  then have "lb_series lb = map (counted_row str_of
      (translated_counts_for_series t (map ?nat (filter (\<lambda>i. i \<noteq> JNull) (map lr_id (map fst listed))))) (concat (map snd listed))) (map fst listed)"
    by (auto simp: tallied_def ledger_tally_def Let_def split: if_splits)
  with assms(2) obtain r0 where r0: "r0 \<in> set (map fst listed)" "r = counted_row str_of
      (translated_counts_for_series t (map ?nat (filter (\<lambda>i. i \<noteq> JNull) (map lr_id (map fst listed))))) (concat (map snd listed)) r0"
    by (auto simp only: set_map)
  then have i: "lr_id r0 = JInt (int n)" using assms(3) by simp
  have "lr_id r0 \<in> set (map lr_id (map fst listed))" unfolding set_map by (rule imageI) (use r0(1) in \<open>simp only: set_map\<close>)
  then have "JInt (int n) \<in> set (filter (\<lambda>i. i \<noteq> JNull) (map lr_id (map fst listed)))" unfolding i set_filter by simp
  then have "?nat (JInt (int n)) \<in> set (map ?nat (filter (\<lambda>i. i \<noteq> JNull) (map lr_id (map fst listed))))"
    unfolding set_map by (rule imageI)
  then have "dec n \<in> dec ` set (map ?nat (filter (\<lambda>i. i \<noteq> JNull) (map lr_id (map fst listed))))" by simp
  then have d: "dec n \<in> set (map dec (map ?nat (filter (\<lambda>i. i \<noteq> JNull) (map lr_id (map fst listed)))))" unfolding set_map .
  show ?thesis unfolding r0(2) by (simp only: counted_row_def i assms(4) json.simps if_False tally_lookup[OF d]) simp
qed

definition one_series :: json where
  "one_series = JList [JDict [(lit ''id'', JInt (int 7))]]"

definition show_id :: "json \<Rightarrow> pystr" where
  "show_id v = (case v of JInt i \<Rightarrow> dec (nat i) | _ \<Rightarrow> [])"

definition done_row :: file_row where
  "done_row = \<lparr>row_id = 1, row_entry = \<lparr>le_source = lit ''/d/x.en.srt'', le_output = Some (lit ''/d/x.vi.srt''),
     le_status = Done, le_hash = [], le_series = Some (dec 7), le_lang = None, le_episode = None,
     le_translated_at = None, le_quarantine = None\<rparr>\<rparr>"

lemma one_series_listed:
  "sonarr_rows True (Inr one_series) = Inr [(\<lparr>lr_id = JInt 7, lr_title = JStr [], lr_year = JNull, lr_monitored = JBool False,
      lr_poster = JNull, lr_source_found = False, lr_translated = 0, lr_total = JInt 0\<rparr>, [(JInt 7, JInt 0)])]"
  by (simp add: sonarr_rows_def one_series_def from_client_def and_then_def as_single_def elements_def collect_def library_series_def
      entries_def get_or_def get_key_def holds_def poster_of_def file_count_def hashed_def lit_def Let_def)

theorem library_counts_witness:
  "\<exists>lb r. get_library True False [] empty_view [] show_id (Some (ledger_tally [done_row])) (Inr one_series) (Inl () :: unit + json) = Inr lb
     \<and> r \<in> set (lb_series lb) \<and> lr_id r = JInt 7 \<and> lr_translated r = 1"
proof -
  obtain lb r where lb: "get_library True False [] empty_view [] show_id (Some (ledger_tally [done_row])) (Inr one_series) (Inl () :: unit + json) = Inr lb"
    and r: "r \<in> set (lb_series lb)" "lr_id r = JInt 7"
    by (simp add: get_library_def one_series_listed rows_of_def tallied_def ledger_tally_def counted_row_def Let_def)
  with library_counts[OF lb r(1), of 7] have "lr_translated r = 1"
    by (simp add: done_row_def show_id_def)
  with lb r show ?thesis by blast
qed

end
