(* ===== verification/Persistence.thy ===== *)
theory Persistence
  imports Encoding Ledger Json Media_Paths
begin

text \<open>
  How files are replaced: the sidecar (\<open>trezarr/output/write.py\<close>) and the JSON ledger
  (\<open>trezarr/output/ledger.py\<close>) are written beside their place and renamed, and the old ledger is
  taken over into the database at the start (\<open>migrate_json_ledger_if_needed\<close> of
  \<open>trezarr/db/migration_runner.py\<close>). A writer is the list of what it does to a directory; what is
  left after a crash is what a beginning of that list leaves. Errors of the operating system are given
  by the surroundings; \<open>BindError\<close> is that of a value the database driver does not take.
\<close>

section \<open>A directory\<close>

type_synonym 'c directory = "pystr \<rightharpoonup> 'c"

datatype 'c fs_op = Store pystr 'c | Replace pystr pystr | Unlink pystr

text \<open>A file is unlinked where it exists.\<close>

fun apply_op :: "'c fs_op \<Rightarrow> 'c directory \<Rightarrow> 'c directory" where
  "apply_op (Store n c) fs = fs(n \<mapsto> c)"
| "apply_op (Replace a b) fs = (case fs a of None \<Rightarrow> fs | Some c \<Rightarrow> (fs(a := None))(b \<mapsto> c))"
| "apply_op (Unlink n) fs = fs(n := None)"

fun run_ops :: "'c fs_op list \<Rightarrow> 'c directory \<Rightarrow> 'c directory" where
  "run_ops [] fs = fs"
| "run_ops (x # xs) fs = run_ops xs (apply_op x fs)"

fun touches :: "pystr \<Rightarrow> 'c fs_op \<Rightarrow> bool" where
  "touches t (Store n c) \<longleftrightarrow> n = t"
| "touches t (Replace a b) \<longleftrightarrow> a = t \<or> b = t"
| "touches t (Unlink n) \<longleftrightarrow> n = t"

datatype io_error = OsError | BindError | Raised py_error

text \<open>
  What happens to a temporary file: the name it gets without its suffix, or none when it cannot be
  made; what it holds on the way; whether all is written; whether the rename succeeds.
\<close>

record write_env =
  we_slot :: "pystr option"
  we_partial :: "bytes list"
  we_full :: bool
  we_replace :: bool

definition TMP_SUFFIX :: pystr where
  "TMP_SUFFIX = lit ''.tmp''"

text \<open>
  A writer that stages its content: it does not touch its target, or all of the content goes to
  another file that is then put in the place of the target.
\<close>

definition staged :: "'c fs_op list \<Rightarrow> pystr \<Rightarrow> 'c option \<Rightarrow> bool" where
  "staged ops target content \<longleftrightarrow> (case content of
     None \<Rightarrow> (\<forall>x \<in> set ops. \<not> touches target x)
   | Some c \<Rightarrow> (\<exists>pre post tmp. ops = pre @ Store tmp c # Replace tmp target # post
       \<and> (\<forall>x \<in> set pre \<union> set post. \<not> touches target x) \<and> tmp \<noteq> target))"

locale staged_writer =
  fixes ops :: "'i \<Rightarrow> 'c fs_op list" and target :: "'i \<Rightarrow> pystr" and content :: "'i \<Rightarrow> 'c option" and fresh :: "'i \<Rightarrow> bool"
  assumes staging: "fresh i \<Longrightarrow> staged (ops i) (target i) (content i)"

lemma run_ops_append: "run_ops (xs @ ys) fs = run_ops ys (run_ops xs fs)"
  by (induction xs arbitrary: fs) auto

lemma untouched: "(\<forall>x \<in> set xs. \<not> touches t x) \<Longrightarrow> run_ops xs fs t = fs t"
proof (induction xs arbitrary: fs)
  case (Cons x xs)
  then have "apply_op x fs t = fs t" by (cases x) (auto split: option.split)
  with Cons show ?case by simp
qed simp

lemma untouched_take: "(\<forall>x \<in> set xs. \<not> touches t x) \<Longrightarrow> run_ops (take k xs) fs t = fs t"
  by (rule untouched) (auto dest: in_set_takeD)

lemma staged_crash:
  assumes "staged ops target content"
  shows "run_ops (take k ops) fs target = fs target \<or> content \<noteq> None \<and> run_ops (take k ops) fs target = content"
proof (cases content)
  case None
  with assms show ?thesis by (simp add: staged_def untouched_take)
next
  case (Some c)
  with assms obtain pre post tmp where o: "ops = pre @ Store tmp c # Replace tmp target # post"
    "\<forall>x \<in> set pre. \<not> touches target x" "\<forall>x \<in> set post. \<not> touches target x" "tmp \<noteq> target"
    by (auto simp: staged_def)
  have late: "run_ops (take n (Store tmp c # Replace tmp target # post)) fs' target \<in> {fs' target, Some c}" for n fs'
    using o(3,4) by (cases n; cases "n - 1") (auto simp: untouched_take)
  have "run_ops (take k pre) fs target = fs target" using o(2) by (rule untouched_take)
  with late[of "k - length pre" "run_ops (take k pre) fs"] Some show ?thesis by (auto simp: o(1) run_ops_append)
qed

context staged_writer
begin

lemma written: "fresh i \<Longrightarrow> run_ops (ops i) fs (target i) = (case content i of None \<Rightarrow> fs (target i) | Some c \<Rightarrow> Some c)"
  using staging[of i] by (auto simp: staged_def run_ops_append untouched split: option.splits)

text \<open>After a crash at any point the target is what it was or what it was to become.\<close>

lemma crash: "fresh i \<Longrightarrow> run_ops (take k (ops i)) fs (target i) = fs (target i)
    \<or> content i \<noteq> None \<and> run_ops (take k (ops i)) fs (target i) = content i"
  by (rule staged_crash) (rule staging)

end

section \<open>The sidecar\<close>

definition with_suffix :: "pystr \<Rightarrow> pystr \<Rightarrow> pystr" where
  "with_suffix name suffix = path_stem name @ suffix"

definition doc_out :: "sub_doc \<Rightarrow> sub_doc" where
  "doc_out d = d\<lparr>doc_encoding := UTF8_NAME\<rparr>"

text \<open>Names are those of the directory of the media file. At the end both temporary files are removed.\<close>

definition write_vi_sidecar ::
  "(pystr \<Rightarrow> codec_of) \<Rightarrow> write_env \<Rightarrow> sub_doc \<Rightarrow> pystr \<Rightarrow> bytes fs_op list \<times> (io_error + pystr)" where
  "write_vi_sidecar other env d media =
     (let dest = derive_vi_sidecar_name media in
      case we_slot env of
        None \<Rightarrow> ([], Inl OsError)
      | Some t \<Rightarrow>
          (let slot = t @ TMP_SUFFIX; routed = with_suffix slot (path_suffix dest);
               cleanup = [Unlink slot, Unlink routed]; partly = map (Store routed) (we_partial env) in
           case write_subtitle_file other (path_suffix routed) (doc_out d) of
             Inl e \<Rightarrow> (Store slot [] # cleanup, Inl (Raised e))
           | Inr bs \<Rightarrow>
               (if \<not> we_full env then (Store slot [] # partly @ cleanup, Inl OsError)
                else if \<not> we_replace env then (Store slot [] # partly @ Store routed bs # cleanup, Inl OsError)
                else (Store slot [] # partly @ Store routed bs # Replace routed dest # [Unlink slot], Inr dest))))"

text \<open>What the rights of the file become: \<open>chown\<close> may fail, \<open>chmod\<close> may not.\<close>

definition file_mode :: "int \<Rightarrow> int" where
  "file_mode umask = semiring_bit_operations_class.and 438 (ring_bit_operations_class.not umask)"

datatype chown_result = Owned | NotPermitted | ChownError
datatype perm_call = Chown pystr int int | Chmod pystr int

definition apply_permissions :: "chown_result \<Rightarrow> bool \<Rightarrow> pystr \<Rightarrow> int \<Rightarrow> int \<Rightarrow> int \<Rightarrow> perm_call list \<times> bool" where
  "apply_permissions chown chmod_ok path puid pgid umask =
     (let after_chown = (case chown of Owned \<Rightarrow> [Chown path puid pgid] | NotPermitted \<Rightarrow> [] | ChownError \<Rightarrow> []) in
      if chmod_ok then (after_chown @ [Chmod path (file_mode umask)], True) else (after_chown, False))"

section \<open>The JSON ledger\<close>

text \<open>A loaded entry holds whatever values the file gives it: the data class checks no types.\<close>

record json_entry =
  je_source :: json
  je_output :: json
  je_status :: json
  je_hash :: json
  je_series :: json
  je_lang :: json
  je_episode :: json
  je_translated_at :: json
  je_quarantine :: json

text \<open>\<open>LedgerEntry(**...)\<close> of the known keys: the first four are required, the others \<open>None\<close>.\<close>

definition make_entry :: "json_dict \<Rightarrow> json_entry option" where
  "make_entry d = (case (get_key (lit ''source_path'') d, get_key (lit ''output_path'') d, get_key (lit ''status'') d, get_key (lit ''content_hash'') d) of
     (Some p, Some q, Some st, Some h) \<Rightarrow> Some \<lparr>je_source = p, je_output = q, je_status = st, je_hash = h,
       je_series = get_or JNull (lit ''series_id'') d, je_lang = get_or JNull (lit ''source_lang'') d,
       je_episode = get_or JNull (lit ''episode_key'') d, je_translated_at = get_or JNull (lit ''translated_at'') d,
       je_quarantine = get_or JNull (lit ''quarantine_path'') d\<rparr>
   | _ \<Rightarrow> None)"

definition asdict :: "json_entry \<Rightarrow> json_dict" where
  "asdict e = [(lit ''source_path'', je_source e), (lit ''output_path'', je_output e), (lit ''status'', je_status e),
     (lit ''content_hash'', je_hash e), (lit ''series_id'', je_series e), (lit ''source_lang'', je_lang e),
     (lit ''episode_key'', je_episode e), (lit ''translated_at'', je_translated_at e), (lit ''quarantine_path'', je_quarantine e)]"

type_synonym stored_ledger = "(pystr \<times> json_entry) list"

text \<open>An entry that is no object, or that lacks a required key, is skipped.\<close>

definition read_entry :: "json \<Rightarrow> json_entry option" where
  "read_entry v = (case v of JDict d \<Rightarrow> make_entry d | _ \<Rightarrow> None)"

fun load_entries :: "json_dict \<Rightarrow> stored_ledger" where
  "load_entries [] = []"
| "load_entries ((k, v) # d) = (case read_entry v of None \<Rightarrow> load_entries d | Some e \<Rightarrow> (k, e) # load_entries d)"

text \<open>
  The parser and the printer of JSON are arguments. Text that is no UTF-8 raises a
  \<open>UnicodeDecodeError\<close>, which is a \<open>ValueError\<close> and not what is caught.
\<close>

definition load_ledger :: "(pystr \<Rightarrow> json option) \<Rightarrow> bytes option \<Rightarrow> py_error + stored_ledger" where
  "load_ledger parse file = (case file of
     None \<Rightarrow> Inr []
   | Some bs \<Rightarrow> (case decode_strict utf8_unit bs of
       None \<Rightarrow> Inl ValueError
     | Some t \<Rightarrow> (case parse t of
         Some (JDict d) \<Rightarrow> Inr (load_entries d)
       | _ \<Rightarrow> Inr [])))"

definition ledger_json :: "stored_ledger \<Rightarrow> json" where
  "ledger_json l = JDict (map (\<lambda>(k, e). (k, JDict (asdict e))) l)"

definition ledger_bytes :: "(json \<Rightarrow> pystr) \<Rightarrow> stored_ledger \<Rightarrow> bytes option" where
  "ledger_bytes dump l = encode_all utf8_char (dump (ledger_json l))"

definition write_ledger :: "(json \<Rightarrow> pystr) \<Rightarrow> write_env \<Rightarrow> pystr \<Rightarrow> stored_ledger \<Rightarrow> bytes fs_op list \<times> (io_error + unit)" where
  "write_ledger dump env path l = (case we_slot env of
     None \<Rightarrow> ([], Inl OsError)
   | Some t \<Rightarrow>
       (let tmp = t @ TMP_SUFFIX; partly = Store tmp [] # map (Store tmp) (we_partial env) in
        case ledger_bytes dump l of
          None \<Rightarrow> (partly @ [Unlink tmp], Inl (Raised ValueError))
        | Some bs \<Rightarrow>
            (if \<not> we_full env then (partly @ [Unlink tmp], Inl OsError)
             else if \<not> we_replace env then (partly @ [Store tmp bs, Unlink tmp], Inl OsError)
             else (partly @ [Store tmp bs, Replace tmp path], Inr ()))))"

text \<open>\<open>Ledger.record\<close>: the entry in memory, then the whole ledger to the file.\<close>

definition text_or_null :: "pystr option \<Rightarrow> json" where
  "text_or_null s = (case s of None \<Rightarrow> JNull | Some t \<Rightarrow> JStr t)"

definition status_name :: "entry_status \<Rightarrow> pystr" where
  "status_name st = (case st of Done \<Rightarrow> lit ''done'' | Quarantined \<Rightarrow> lit ''quarantined'' | InProgress \<Rightarrow> lit ''in_progress'')"

definition entry_json :: "ledger_entry \<Rightarrow> json_entry" where
  "entry_json e = \<lparr>je_source = JStr (le_source e), je_output = text_or_null (le_output e), je_status = JStr (status_name (le_status e)),
     je_hash = JStr (le_hash e), je_series = text_or_null (le_series e), je_lang = text_or_null (le_lang e),
     je_episode = text_or_null (le_episode e), je_translated_at = text_or_null (le_translated_at e),
     je_quarantine = text_or_null (le_quarantine e)\<rparr>"

definition ledger_record ::
  "(json \<Rightarrow> pystr) \<Rightarrow> write_env \<Rightarrow> pystr \<Rightarrow> ledger_entry \<Rightarrow> stored_ledger \<Rightarrow> stored_ledger \<times> bytes fs_op list \<times> (io_error + unit)" where
  "ledger_record dump env path e l =
     (let l' = AList.update (le_source e) (entry_json e) l in (l', write_ledger dump env path l'))"

section \<open>The old ledger is taken over\<close>

definition VALID_STATUSES :: "pystr list" where
  "VALID_STATUSES = [lit ''done'', lit ''quarantined'', lit ''in_progress'']"

text \<open>\<open>status not in VALID_STATUSES\<close> hashes the status.\<close>

definition valid_status :: "json \<Rightarrow> py_error + bool" where
  "valid_status v = (case v of
     JStr s \<Rightarrow> Inr (s \<in> set VALID_STATUSES)
   | JList vs \<Rightarrow> Inl TypeError
   | JDict d \<Rightarrow> Inl TypeError
   | _ \<Rightarrow> Inr False)"

fun pick_entries :: "json_dict \<Rightarrow> py_error + json_entry list" where
  "pick_entries [] = Inr []"
| "pick_entries ((k, v) # d) = (case read_entry v of
     None \<Rightarrow> pick_entries d
   | Some e \<Rightarrow> (case valid_status (je_status e) of
       Inl err \<Rightarrow> Inl err
     | Inr ok \<Rightarrow> (case pick_entries d of Inl err \<Rightarrow> Inl err | Inr es \<Rightarrow> Inr (if ok then e # es else es))))"

text \<open>What a text column makes of a value; of a number by the rules of the database, an argument.\<close>

definition column :: "(json \<Rightarrow> pystr) \<Rightarrow> json \<Rightarrow> io_error + pystr option" where
  "column text_of v = (case v of
     JNull \<Rightarrow> Inr None
   | JStr s \<Rightarrow> (if encode_all utf8_char s = None then Inl (Raised ValueError) else Inr (Some s))
   | JList vs \<Rightarrow> Inl BindError
   | JDict d \<Rightarrow> Inl BindError
   | _ \<Rightarrow> Inr (Some (text_of v)))"

definition and_next :: "'e + 'a \<Rightarrow> ('a \<Rightarrow> 'e + 'b) \<Rightarrow> 'e + 'b" where
  "and_next x f = (case x of Inl e \<Rightarrow> Inl e | Inr a \<Rightarrow> f a)"

definition status_named :: "json \<Rightarrow> entry_status" where
  "status_named v = (if v = JStr (lit ''done'') then Done else if v = JStr (lit ''quarantined'') then Quarantined else InProgress)"

text \<open>A row that has no source or no hash violates the schema.\<close>

definition new_row :: "(json \<Rightarrow> pystr) \<Rightarrow> json_entry \<Rightarrow> pystr option \<Rightarrow> file_table \<Rightarrow> io_error + file_table" where
  "new_row text_of e source t =
     and_next (column text_of (je_output e)) (\<lambda>output.
     and_next (column text_of (je_hash e)) (\<lambda>hash.
     and_next (column text_of (je_series e)) (\<lambda>series.
     and_next (column text_of (je_lang e)) (\<lambda>lang.
     and_next (column text_of (je_episode e)) (\<lambda>episode.
     and_next (column text_of (je_translated_at e)) (\<lambda>when_done.
     and_next (column text_of (je_quarantine e)) (\<lambda>quarantine.
       case (source, hash) of
         (Some s, Some h) \<Rightarrow> Inr (t @ [\<lparr>row_id = next_row_id t, row_entry = \<lparr>le_source = s, le_output = output,
           le_status = status_named (je_status e), le_hash = h, le_series = series, le_lang = lang, le_episode = episode,
           le_translated_at = when_done, le_quarantine = quarantine\<rparr>\<rparr>])
       | _ \<Rightarrow> Inl (Raised IntegrityError))))))))"

text \<open>A source that has a row keeps it. The row is inserted before the next query looks.\<close>

definition insert_entry :: "(json \<Rightarrow> pystr) \<Rightarrow> json_entry \<Rightarrow> file_table \<Rightarrow> io_error + file_table" where
  "insert_entry text_of e t = and_next (column text_of (je_source e)) (\<lambda>source.
     case source of
       None \<Rightarrow> new_row text_of e None t
     | Some s \<Rightarrow> (case scalar_one_or_none (rows_with_source t s) of
         Inl err \<Rightarrow> Inl (Raised err)
       | Inr (Some r) \<Rightarrow> Inr t
       | Inr None \<Rightarrow> new_row text_of e (Some s) t))"

fun insert_entries :: "(json \<Rightarrow> pystr) \<Rightarrow> json_entry list \<Rightarrow> file_table \<Rightarrow> io_error + file_table" where
  "insert_entries text_of [] t = Inr t"
| "insert_entries text_of (e # es) t = and_next (insert_entry text_of e t) (insert_entries text_of es)"

record mig_world =
  mw_files :: "bytes directory"
  mw_table :: file_table

datatype mig_op = OnFiles "bytes fs_op" | Commit file_table

fun apply_mig :: "mig_op \<Rightarrow> mig_world \<Rightarrow> mig_world" where
  "apply_mig (OnFiles x) w = w\<lparr>mw_files := apply_op x (mw_files w)\<rparr>"
| "apply_mig (Commit t) w = w\<lparr>mw_table := t\<rparr>"

fun run_mig :: "mig_op list \<Rightarrow> mig_world \<Rightarrow> mig_world" where
  "run_mig [] w = w"
| "run_mig (x # xs) w = run_mig xs (apply_mig x w)"

definition beside :: "pystr \<Rightarrow> string \<Rightarrow> pystr" where
  "beside path ending = with_suffix path (path_suffix path @ lit ending)"

definition migrated_bak :: "pystr \<Rightarrow> pystr" where "migrated_bak path = beside path ''.migrated.bak''"
definition corrupt_bak :: "pystr \<Rightarrow> pystr" where "corrupt_bak path = beside path ''.corrupt.bak''"
definition rename_blocked :: "pystr \<Rightarrow> pystr" where "rename_blocked path = beside path ''.rename_blocked''"

text \<open>What the system allows: reading the file, renaming it, writing the note that a rename failed.\<close>

record mig_env =
  me_read :: bool
  me_rename :: bool
  me_note :: "bytes option"

definition set_aside :: "mig_env \<Rightarrow> pystr \<Rightarrow> pystr \<Rightarrow> mig_op list \<times> io_error option" where
  "set_aside env path target = (if me_rename env then ([OnFiles (Replace path target)], None) else ([], Some OsError))"

text \<open>The rows are committed before the file is renamed.\<close>

definition migrate_json_ledger ::
  "(pystr \<Rightarrow> json option) \<Rightarrow> (json \<Rightarrow> pystr) \<Rightarrow> pystr \<Rightarrow> mig_env \<Rightarrow> mig_world \<Rightarrow> mig_op list \<times> io_error option" where
  "migrate_json_ledger parse text_of path env w =
     (if mw_files w (migrated_bak path) \<noteq> None \<or> mw_files w (corrupt_bak path) \<noteq> None \<or> mw_files w (rename_blocked path) \<noteq> None
      then ([], None)
      else case mw_files w path of
        None \<Rightarrow> ([], None)
      | Some bs \<Rightarrow>
          (if \<not> me_read env then set_aside env path (corrupt_bak path)
           else case decode_strict utf8_unit bs of
             None \<Rightarrow> ([], Some (Raised ValueError))
           | Some t \<Rightarrow> (case parse t of
               Some (JDict d) \<Rightarrow> (case pick_entries d of
                 Inl e \<Rightarrow> ([], Some (Raised e))
               | Inr es \<Rightarrow>
                   (if es = [] then set_aside env path (migrated_bak path)
                    else case insert_entries text_of es (mw_table w) of
                      Inl e \<Rightarrow> ([], Some e)
                    | Inr tab \<Rightarrow> (Commit tab # (if me_rename env then [OnFiles (Replace path (migrated_bak path))]
                        else case me_note env of None \<Rightarrow> [] | Some n \<Rightarrow> [OnFiles (Store (rename_blocked path) n)]), None)))
             | _ \<Rightarrow> set_aside env path (corrupt_bak path))))"

text \<open>
  The starts of the program, each of which may crash at any point of the migration, and between them
  the records of the program.
\<close>

inductive started :: "(pystr \<Rightarrow> json option) \<Rightarrow> (json \<Rightarrow> pystr) \<Rightarrow> pystr \<Rightarrow> mig_world \<Rightarrow> mig_world \<Rightarrow> bool"
  for parse text_of path w0 where
  first: "started parse text_of path w0 w0"
| attempt: "started parse text_of path w0 w \<Longrightarrow> migrate_json_ledger parse text_of path env w = (ops, err) \<Longrightarrow>
    started parse text_of path w0 (run_mig (take k ops) w)"
| recorded: "started parse text_of path w0 w \<Longrightarrow> sqla_record e (mw_table w) = Inr t \<Longrightarrow>
    started parse text_of path w0 (w\<lparr>mw_table := t\<rparr>)"

section \<open>Facts of the writers\<close>

definition slot_name :: "write_env \<Rightarrow> pystr" where
  "slot_name env = (case we_slot env of None \<Rightarrow> [] | Some t \<Rightarrow> t) @ TMP_SUFFIX"

definition sidecar_fresh :: "write_env \<Rightarrow> pystr \<Rightarrow> bool" where
  "sidecar_fresh env media \<longleftrightarrow> (let dest = derive_vi_sidecar_name media in
     dest \<noteq> slot_name env \<and> dest \<noteq> with_suffix (slot_name env) (path_suffix dest))"

definition sidecar_content :: "(pystr \<Rightarrow> codec_of) \<Rightarrow> write_env \<Rightarrow> sub_doc \<Rightarrow> pystr \<Rightarrow> bytes option" where
  "sidecar_content other env d media =
     (if we_slot env = None \<or> \<not> we_full env \<or> \<not> we_replace env then None
      else case write_subtitle_file other (path_suffix (with_suffix (slot_name env) (path_suffix (derive_vi_sidecar_name media)))) (doc_out d) of
        Inl e \<Rightarrow> None | Inr bs \<Rightarrow> Some bs)"

definition ledger_content :: "(json \<Rightarrow> pystr) \<Rightarrow> write_env \<Rightarrow> stored_ledger \<Rightarrow> bytes option" where
  "ledger_content dump env l =
     (if we_slot env = None \<or> \<not> we_full env \<or> \<not> we_replace env then None else ledger_bytes dump l)"

definition ledger_fresh :: "write_env \<Rightarrow> pystr \<Rightarrow> bool" where
  "ledger_fresh env path \<longleftrightarrow> path \<noteq> slot_name env"

lemma sidecar_staged:
  assumes f: "sidecar_fresh env media"
  shows "staged (fst (write_vi_sidecar other env d media)) (derive_vi_sidecar_name media) (sidecar_content other env d media)"
proof (cases "sidecar_content other env d media")
  case None
  with f show ?thesis
    by (auto simp: staged_def write_vi_sidecar_def sidecar_content_def sidecar_fresh_def slot_name_def Let_def
        split: option.splits sum.splits if_splits)
next
  case (Some c)
  let ?r = "with_suffix (slot_name env) (path_suffix (derive_vi_sidecar_name media))"
  from Some obtain t where t: "we_slot env = Some t" "we_full env" "we_replace env"
    and w: "write_subtitle_file other (path_suffix ?r) (doc_out d) = Inr c"
    by (auto simp: sidecar_content_def split: if_splits sum.splits)
  then have "fst (write_vi_sidecar other env d media) = (Store (slot_name env) [] # map (Store ?r) (we_partial env))
      @ Store ?r c # Replace ?r (derive_vi_sidecar_name media) # [Unlink (slot_name env)]"
    by (simp add: write_vi_sidecar_def slot_name_def Let_def)
  moreover have "\<forall>x \<in> set (Store (slot_name env) [] # map (Store ?r) (we_partial env)) \<union> set [Unlink (slot_name env)].
      \<not> touches (derive_vi_sidecar_name media) x" "?r \<noteq> derive_vi_sidecar_name media"
    using f by (auto simp: sidecar_fresh_def Let_def)
  ultimately show ?thesis unfolding Some staged_def option.case by blast
qed

lemma ledger_staged:
  assumes f: "ledger_fresh env path"
  shows "staged (fst (write_ledger dump env path l)) path (ledger_content dump env l)"
proof (cases "ledger_content dump env l")
  case None
  with f show ?thesis
    by (auto simp: staged_def write_ledger_def ledger_content_def ledger_fresh_def slot_name_def Let_def
        split: option.splits if_splits)
next
  case (Some c)
  then obtain t where t: "we_slot env = Some t" "we_full env" "we_replace env" "ledger_bytes dump l = Some c"
    by (auto simp: ledger_content_def split: if_splits)
  then have "fst (write_ledger dump env path l) = (Store (slot_name env) [] # map (Store (slot_name env)) (we_partial env))
      @ Store (slot_name env) c # Replace (slot_name env) path # []"
    by (simp add: write_ledger_def slot_name_def Let_def)
  moreover have "\<forall>x \<in> set (Store (slot_name env) [] # map (Store (slot_name env)) (we_partial env)) \<union> set [].
      \<not> touches path x" "slot_name env \<noteq> path"
    using f by (auto simp: ledger_fresh_def)
  ultimately show ?thesis unfolding Some staged_def option.case by blast
qed

interpretation sidecar: staged_writer "\<lambda>(other, env, d, media). fst (write_vi_sidecar other env d media)"
  "\<lambda>(other, env, d, media). derive_vi_sidecar_name media" "\<lambda>(other, env, d, media). sidecar_content other env d media"
  "\<lambda>(other, env, d, media). sidecar_fresh env media"
  by unfold_locales (auto intro: sidecar_staged)

interpretation ledger_file: staged_writer "\<lambda>(dump, env, path, l). fst (write_ledger dump env path l)"
  "\<lambda>(dump, env, path, l). path" "\<lambda>(dump, env, path, l). ledger_content dump env l" "\<lambda>(dump, env, path, l). ledger_fresh env path"
  by unfold_locales (auto intro: ledger_staged)

section \<open>Facts of the migration\<close>

lemma and_next_Inr [simp]: "and_next x f = Inr y \<longleftrightarrow> (\<exists>a. x = Inr a \<and> f a = Inr y)"
  by (cases x) (simp_all add: and_next_def)

lemma stem_suffix [simp]: "path_stem n @ path_suffix n = n"
  by (auto simp: path_stem_def path_suffix_def split: option.splits)

lemma beside_append: "beside path ending = path @ lit ending"
  by (simp add: beside_def with_suffix_def append.assoc[symmetric] del: append_assoc)

lemma beside_distinct [simp]:
  "path \<noteq> migrated_bak path" "path \<noteq> corrupt_bak path" "path \<noteq> rename_blocked path"
  "migrated_bak path \<noteq> corrupt_bak path" "migrated_bak path \<noteq> rename_blocked path" "corrupt_bak path \<noteq> rename_blocked path"
  "migrated_bak path \<noteq> path" "corrupt_bak path \<noteq> path" "rename_blocked path \<noteq> path"
  "corrupt_bak path \<noteq> migrated_bak path" "rename_blocked path \<noteq> migrated_bak path" "rename_blocked path \<noteq> corrupt_bak path"
  by (simp_all add: migrated_bak_def corrupt_bak_def rename_blocked_def beside_append lit_def)

definition has_source :: "(json \<Rightarrow> pystr) \<Rightarrow> json_entry \<Rightarrow> file_table \<Rightarrow> bool" where
  "has_source text_of e t \<longleftrightarrow> (\<exists>r \<in> set t. column text_of (je_source e) = Inr (Some (le_source (row_entry r))))"

lemma new_row_Inr:
  assumes "new_row text_of e source t = Inr t'"
  shows "(\<exists>entry. source = Some (le_source entry) \<and> t' = t @ [\<lparr>row_id = next_row_id t, row_entry = entry\<rparr>]) \<and> je_hash e \<noteq> JNull"
proof (cases source)
  case (Some s)
  with assms show ?thesis by (auto simp: new_row_def split: option.splits) (simp add: column_def)
qed (use assms in \<open>auto simp: new_row_def\<close>)

lemma no_row: "scalar_one_or_none (rows_with_source t s) = Inr None \<Longrightarrow> r \<in> set t \<Longrightarrow> le_source (row_entry r) \<noteq> s"
  by (auto simp: scalar_one_or_none_def rows_with_source_def filter_empty_conv split: list.splits)

lemma one_row: "scalar_one_or_none (rows_with_source t s) = Inr (Some r) \<Longrightarrow> r \<in> set t \<and> le_source (row_entry r) = s"
  by (auto simp: scalar_one_or_none_def rows_with_source_def split: list.splits dest: filtered_single)

lemma append_fresh_row:
  assumes "sqla_invar t" and "\<forall>r \<in> set t. le_source (row_entry r) \<noteq> le_source entry"
  shows "sqla_invar (t @ [\<lparr>row_id = next_row_id t, row_entry = entry\<rparr>])"
  using assms fresh_row_id[of _ t] by (fastforce simp: sqla_invar_def)

lemma insert_entry_cases:
  assumes "insert_entry text_of e t = Inr t'"
  obtains (known) "t' = t" "has_source text_of e t"
    | (new) entry where "t' = t @ [\<lparr>row_id = next_row_id t, row_entry = entry\<rparr>]" "je_hash e \<noteq> JNull"
        "column text_of (je_source e) = Inr (Some (le_source entry))" "\<forall>r \<in> set t. le_source (row_entry r) \<noteq> le_source entry"
proof -
  from assms obtain source where c: "column text_of (je_source e) = Inr source"
    and i: "(case source of None \<Rightarrow> new_row text_of e None t
      | Some s \<Rightarrow> (case scalar_one_or_none (rows_with_source t s) of
         Inl err \<Rightarrow> Inl (Raised err) | Inr (Some r) \<Rightarrow> Inr t | Inr None \<Rightarrow> new_row text_of e (Some s) t)) = Inr t'"
    by (auto simp: insert_entry_def)
  show ?thesis
  proof (cases source)
    case None
    with i show ?thesis by (auto dest: new_row_Inr)
  next
    case (Some s)
    show ?thesis
    proof (cases "scalar_one_or_none (rows_with_source t s)")
      case (Inr r)
      show ?thesis
      proof (cases r)
        case None
        with i Some Inr have n: "new_row text_of e (Some s) t = Inr t'" by simp
        then obtain entry where "s = le_source entry" "t' = t @ [\<lparr>row_id = next_row_id t, row_entry = entry\<rparr>]" "je_hash e \<noteq> JNull"
          by (auto dest: new_row_Inr)
        with new c Some Inr None show ?thesis using no_row[of t s] by blast
      qed (use known i c Some Inr one_row[of t s] in \<open>auto simp: has_source_def\<close>)
    qed (use i Some in auto)
  qed
qed

lemma insert_entry_Inr:
  assumes "insert_entry text_of e t = Inr t'"
  shows "has_source text_of e t' \<and> (\<exists>new. t' = t @ new) \<and> (sqla_invar t \<longrightarrow> sqla_invar t')"
  using assms
proof (cases rule: insert_entry_cases)
  case (new entry)
  then show ?thesis using append_fresh_row[of t entry] by (auto simp: has_source_def)
qed auto

lemma has_source_append: "has_source text_of e t \<Longrightarrow> has_source text_of e (t @ new)"
  by (auto simp: has_source_def)

lemma insert_entries_Inr:
  assumes "insert_entries text_of es t = Inr t'"
  shows "(\<forall>e \<in> set es. has_source text_of e t') \<and> (\<exists>new. t' = t @ new) \<and> (sqla_invar t \<longrightarrow> sqla_invar t')"
  using assms
proof (induction es arbitrary: t)
  case (Cons e es)
  then obtain t1 where t1: "insert_entry text_of e t = Inr t1" "insert_entries text_of es t1 = Inr t'" by auto
  from insert_entry_Inr[OF t1(1)] Cons.IH[OF t1(2)] show ?case by (auto intro: has_source_append)
qed simp

lemma recorded_source:
  assumes "sqla_invar t" and "sqla_record e t = Inr t'" and "r \<in> set t"
  shows "\<exists>r' \<in> set t'. le_source (row_entry r') = le_source (row_entry r)"
  using assms(1,2)
proof (cases rule: sqla_record_cases)
  case (update xs r0 ys)
  with assms(3) show ?thesis by (cases "r = r0") auto
qed (use assms(3) in auto)

text \<open>What holds at every moment of the life of the old ledger.\<close>

definition taken_over :: "(json \<Rightarrow> pystr) \<Rightarrow> pystr \<Rightarrow> bytes \<Rightarrow> json_entry list \<Rightarrow> mig_world \<Rightarrow> mig_world \<Rightarrow> bool" where
  "taken_over text_of path bs es w0 w \<longleftrightarrow>
     sqla_invar (mw_table w)
     \<and> (\<forall>r \<in> set (mw_table w0). \<exists>r' \<in> set (mw_table w). le_source (row_entry r') = le_source (row_entry r))
     \<and> (mw_files w path = Some bs \<and> mw_files w (migrated_bak path) = None \<and> mw_files w (corrupt_bak path) = None
          \<and> (mw_files w (rename_blocked path) = None \<or> (\<forall>e \<in> set es. has_source text_of e (mw_table w)))
        \<or> mw_files w path = None \<and> mw_files w (migrated_bak path) = Some bs \<and> mw_files w (corrupt_bak path) = None
          \<and> (\<forall>e \<in> set es. has_source text_of e (mw_table w))
        \<or> mw_files w path = None \<and> mw_files w (corrupt_bak path) = Some bs \<and> mw_files w (migrated_bak path) = None
          \<and> mw_files w (rename_blocked path) = None)"

lemma run_mig_append: "run_mig (xs @ ys) w = run_mig ys (run_mig xs w)"
  by (induction xs arbitrary: w) auto

lemma take_one: "take k [x] = (if k = 0 then [] else [x])"
  by (cases k) auto

lemma take_two: "take k [x, y] = (if k = 0 then [] else if k = 1 then [x] else [x, y])"
  by (cases k; cases "k - 1") auto

text \<open>What a start can do, by what it finds.\<close>

lemma migrate_cases:
  assumes m: "migrate_json_ledger parse text_of path env w = (ops, err)"
    and f: "mw_files w path = Some bs" "decode_strict utf8_unit bs = Some t" "parse t = Some (JDict d)" "pick_entries d = Inr es"
  obtains (nothing) "ops = []"
    | (corrupt) "ops = [OnFiles (Replace path (corrupt_bak path))]" "mw_files w (rename_blocked path) = None" "mw_files w (migrated_bak path) = None"
    | (no_entries) "ops = [OnFiles (Replace path (migrated_bak path))]" "es = []" "mw_files w (corrupt_bak path) = None"
    | (committed) tab rest where "ops = Commit tab # rest" "insert_entries text_of es (mw_table w) = Inr tab"
        "rest = [] \<or> rest = [OnFiles (Replace path (migrated_bak path))] \<or> (\<exists>n. rest = [OnFiles (Store (rename_blocked path) n)])"
        "mw_files w (corrupt_bak path) = None" "mw_files w (migrated_bak path) = None"
  using m f
  by (auto simp: migrate_json_ledger_def set_aside_def split: if_splits option.splits sum.splits)

lemma taken_over_table:
  assumes "taken_over text_of path bs es w0 w" and "sqla_invar t"
    and "\<And>r. r \<in> set (mw_table w) \<Longrightarrow> \<exists>r' \<in> set t. le_source (row_entry r') = le_source (row_entry r)"
  shows "taken_over text_of path bs es w0 (w\<lparr>mw_table := t\<rparr>)"
proof -
  have h: "has_source text_of e t" if "has_source text_of e (mw_table w)" for e
    using that assms(3) unfolding has_source_def by (metis (no_types))
  have "\<forall>r \<in> set (mw_table w0). \<exists>r' \<in> set t. le_source (row_entry r') = le_source (row_entry r)"
    using assms(1,3) by (fastforce simp: taken_over_def)
  with assms(1,2) h show ?thesis by (simp add: taken_over_def) blast
qed

lemma taken_over_rest:
  assumes "taken_over text_of path bs es w0 w" and "mw_files w path = Some bs" and "\<forall>e \<in> set es. has_source text_of e (mw_table w)"
    and "rest = [] \<or> rest = [OnFiles (Replace path (migrated_bak path))] \<or> (\<exists>n. rest = [OnFiles (Store (rename_blocked path) n)])"
  shows "taken_over text_of path bs es w0 (run_mig (take k rest) w)"
  using assms(4)
proof (elim disjE exE)
  assume "rest = [OnFiles (Replace path (migrated_bak path))]"
  with assms(1-3) show ?thesis by (simp add: take_one taken_over_def)
next
  fix n
  assume "rest = [OnFiles (Store (rename_blocked path) n)]"
  with assms(1-3) show ?thesis by (simp add: take_one taken_over_def)
qed (use assms(1) in simp)

lemma taken_over_attempt:
  assumes i: "taken_over text_of path bs es w0 w" and m: "migrate_json_ledger parse text_of path env w = (ops, err)"
    and f: "decode_strict utf8_unit bs = Some t" "parse t = Some (JDict d)" "pick_entries d = Inr es"
  shows "taken_over text_of path bs es w0 (run_mig (take k ops) w)"
proof (cases "mw_files w path")
  case None
  with m have "ops = []" by (auto simp: migrate_json_ledger_def split: if_splits)
  with i show ?thesis by simp
next
  case (Some bs')
  with i have bs: "mw_files w path = Some bs" by (auto simp: taken_over_def)
  from m bs f show ?thesis
  proof (cases rule: migrate_cases)
    case nothing
    with i show ?thesis by simp
  next
    case corrupt
    with i bs show ?thesis by (auto simp: take_one taken_over_def)
  next
    case no_entries
    with i bs show ?thesis by (auto simp: take_one taken_over_def)
  next
    case (committed tab rest)
    note t = insert_entries_Inr[OF committed(2)]
    have tab: "taken_over text_of path bs es w0 (w\<lparr>mw_table := tab\<rparr>)"
      using i t by (intro taken_over_table) (auto simp: taken_over_def)
    show ?thesis
    proof (cases k)
      case (Suc j)
      have "mw_files (w\<lparr>mw_table := tab\<rparr>) path = Some bs" "\<forall>e \<in> set es. has_source text_of e (mw_table (w\<lparr>mw_table := tab\<rparr>))"
        using bs t by auto
      from taken_over_rest[OF tab this committed(3), of j] show ?thesis using Suc committed(1) by simp
    qed (use i in simp)
  qed
qed

lemma started_taken_over:
  assumes "started parse text_of path w0 w" and "mw_files w0 path = Some bs" and "decode_strict utf8_unit bs = Some t"
    and "parse t = Some (JDict d)" and "pick_entries d = Inr es" and "sqla_invar (mw_table w0)"
    and "mw_files w0 (migrated_bak path) = None" and "mw_files w0 (corrupt_bak path) = None" and "mw_files w0 (rename_blocked path) = None"
  shows "taken_over text_of path bs es w0 w"
  using assms(1)
proof induction
  case first
  with assms show ?case by (auto simp: taken_over_def)
next
  case (attempt w env ops err k)
  from taken_over_attempt[OF attempt.IH attempt.hyps(2) assms(3-5)] show ?case .
next
  case (recorded w e tab)
  then have i: "sqla_invar (mw_table w)" by (simp add: taken_over_def)
  from taken_over_table[OF recorded.IH sqla_record_invar[OF i recorded.hyps(2)]] recorded_source[OF i recorded.hyps(2)]
  show ?case by simp
qed

section \<open>Properties\<close>

text \<open>
  C13: The old ledger is taken over without loss. Whatever starts crash at whatever point of the
  migration, and whatever the program records between them: the file is never lost, the ledger
  keeps one row for each source and every source it had, and once the file is set aside as migrated, or
  noted as one that cannot be renamed, every valid entry of it has a row.
\<close>

theorem migration_loses_nothing:
  assumes "started parse text_of path w0 w" and "mw_files w0 path = Some bs" and "decode_strict utf8_unit bs = Some t"
    and "parse t = Some (JDict d)" and "pick_entries d = Inr es" and "sqla_invar (mw_table w0)"
    and "mw_files w0 (migrated_bak path) = None" and "mw_files w0 (corrupt_bak path) = None" and "mw_files w0 (rename_blocked path) = None"
  shows "(\<exists>n \<in> {path, migrated_bak path, corrupt_bak path}. mw_files w n = Some bs)
    \<and> sqla_invar (mw_table w)
    \<and> (\<forall>r \<in> set (mw_table w0). \<exists>r' \<in> set (mw_table w). le_source (row_entry r') = le_source (row_entry r))
    \<and> (mw_files w (migrated_bak path) \<noteq> None \<or> mw_files w (rename_blocked path) \<noteq> None \<longrightarrow>
        (\<forall>e \<in> set es. \<exists>r \<in> set (mw_table w). column text_of (je_source e) = Inr (Some (le_source (row_entry r)))))"
  using started_taken_over[OF assms] by (auto simp: taken_over_def has_source_def)

definition demo_path :: pystr where "demo_path = lit ''/c/ledger.json''"

definition demo_dict :: json_dict where
  "demo_dict = [(lit ''/d/x.srt'', JDict [(lit ''source_path'', JStr (lit ''/d/x.srt'')), (lit ''output_path'', JNull),
     (lit ''status'', JStr (lit ''quarantined'')), (lit ''content_hash'', JStr (lit ''0a''))])]"

definition demo_entry :: json_entry where
  "demo_entry = \<lparr>je_source = JStr (lit ''/d/x.srt''), je_output = JNull, je_status = JStr (lit ''quarantined''), je_hash = JStr (lit ''0a''),
     je_series = JNull, je_lang = JNull, je_episode = JNull, je_translated_at = JNull, je_quarantine = JNull\<rparr>"

definition demo_world :: mig_world where
  "demo_world = \<lparr>mw_files = [demo_path \<mapsto> []], mw_table = []\<rparr>"

lemma demo_pick: "pick_entries demo_dict = Inr [demo_entry]"
  by (simp add: demo_dict_def demo_entry_def read_entry_def make_entry_def get_key_def get_or_def valid_status_def VALID_STATUSES_def lit_def)

lemma demo_insert: "\<exists>row. insert_entries text_of [demo_entry] [] = Inr [row]"
  by (simp add: insert_entry_def new_row_def and_next_def column_def demo_entry_def rows_with_source_def scalar_one_or_none_def lit_def utf8_char_def surrogate_def)

lemma demo_fresh: "mw_files demo_world demo_path = Some []" "mw_files demo_world (migrated_bak demo_path) = None"
  "mw_files demo_world (corrupt_bak demo_path) = None" "mw_files demo_world (rename_blocked demo_path) = None" "sqla_invar (mw_table demo_world)"
  by (simp_all add: demo_world_def sqla_invar_def)

theorem migration_loses_nothing_witness:
  "\<exists>w. started (\<lambda>t. Some (JDict demo_dict)) (\<lambda>v. []) demo_path demo_world w \<and> mw_files w (migrated_bak demo_path) = Some []
     \<and> (\<exists>r \<in> set (mw_table w). le_source (row_entry r) = lit ''/d/x.srt'')"
proof -
  let ?parse = "\<lambda>t :: pystr. Some (JDict demo_dict)"
  let ?env = "\<lparr>me_read = True, me_rename = True, me_note = None\<rparr>"
  have d: "decode_strict utf8_unit [] = Some []" by (simp add: decode_strict_def)
  obtain row where row: "insert_entries (\<lambda>v. []) [demo_entry] [] = Inr [row]" using demo_insert by blast
  have m: "migrate_json_ledger ?parse (\<lambda>v. []) demo_path ?env demo_world
      = ([Commit [row], OnFiles (Replace demo_path (migrated_bak demo_path))], None)"
    using row by (simp add: migrate_json_ledger_def demo_fresh d demo_pick and_next_def del: insert_entries.simps) (simp add: demo_world_def and_next_def)
  let ?w = "run_mig (take 2 [Commit [row], OnFiles (Replace demo_path (migrated_bak demo_path))]) demo_world"
  have s: "started ?parse (\<lambda>v. []) demo_path demo_world ?w"
    by (rule started.attempt[OF started.first m])
  have f: "mw_files ?w (migrated_bak demo_path) = Some []" by (simp add: take_two demo_fresh)
  from migration_loses_nothing[OF s demo_fresh(1) d refl demo_pick demo_fresh(5,2,3,4)] f
  have "\<exists>r \<in> set (mw_table ?w). column (\<lambda>v. []) (je_source demo_entry) = Inr (Some (le_source (row_entry r)))" by simp
  then have "\<exists>r \<in> set (mw_table ?w). le_source (row_entry r) = lit ''/d/x.srt''"
    by (auto simp: demo_entry_def column_def split: if_splits)
  with s f show ?thesis by blast
qed

lemma stores: "run_ops (map (Store n) cs) fs = (if cs = [] then fs else fs(n \<mapsto> last cs))"
  by (induction cs arbitrary: fs) auto

lemma cleaned:
  assumes "fs slot = None" and "fs r = None"
  shows "run_ops (Store slot [] # map (Store r) cs @ [Unlink slot, Unlink r]) fs = fs"
  using assms by (auto simp: run_ops_append stores fun_eq_iff)

lemma replaced:
  assumes "fs slot = None" and "fs r = None" and "r \<noteq> dest" and "slot \<noteq> dest"
  shows "run_ops (Store slot [] # map (Store r) cs @ Store r c # Replace r dest # [Unlink slot]) fs = fs(dest \<mapsto> c)"
  using assms by (auto simp: run_ops_append stores fun_eq_iff)

lemma sidecar_outcome:
  assumes "write_vi_sidecar other env d media = (ops, result)" and "sidecar_fresh env media"
    and "fs (slot_name env) = None" and "fs (with_suffix (slot_name env) (path_suffix (derive_vi_sidecar_name media))) = None"
  shows "run_ops ops fs = (case result of Inl e \<Rightarrow> fs | Inr p \<Rightarrow> fs(p := sidecar_content other env d media))
    \<and> (case result of Inl e \<Rightarrow> sidecar_content other env d media = None
       | Inr p \<Rightarrow> p = derive_vi_sidecar_name media \<and> sidecar_content other env d media \<noteq> None)"
proof -
  let ?r = "with_suffix (slot_name env) (path_suffix (derive_vi_sidecar_name media))"
  consider "ops = []" "\<exists>e. result = Inl e" "sidecar_content other env d media = None"
    | cs where "ops = Store (slot_name env) [] # map (Store ?r) cs @ [Unlink (slot_name env), Unlink ?r]" "\<exists>e. result = Inl e"
        "sidecar_content other env d media = None"
    | cs c where "ops = Store (slot_name env) [] # map (Store ?r) cs @ Store ?r c # Replace ?r (derive_vi_sidecar_name media) # [Unlink (slot_name env)]"
        "result = Inr (derive_vi_sidecar_name media)" "sidecar_content other env d media = Some c"
  proof (cases "we_slot env")
    case (Some t)
    show ?thesis
    proof (cases "write_subtitle_file other (path_suffix ?r) (doc_out d)")
      case (Inl e)
      with Some assms(1) that(2)[of "[]"] show ?thesis by (auto simp: write_vi_sidecar_def sidecar_content_def slot_name_def Let_def)
    next
      case (Inr bs)
      with Some assms(1) that(2)[of "we_partial env"] that(2)[of "we_partial env @ [bs]"] that(3)[of "we_partial env" bs] show ?thesis
        by (auto simp: write_vi_sidecar_def sidecar_content_def slot_name_def Let_def split: if_splits)
    qed
  qed (use assms(1) that(1) in \<open>auto simp: write_vi_sidecar_def sidecar_content_def Let_def\<close>)
  then show ?thesis
  proof cases
    case (2 cs)
    from cleaned[of fs _ _ cs, OF assms(3,4)] 2 show ?thesis by auto
  next
    case (3 cs c)
    have "?r \<noteq> derive_vi_sidecar_name media" "slot_name env \<noteq> derive_vi_sidecar_name media"
      using assms(2) by (auto simp: sidecar_fresh_def Let_def)
    from replaced[of fs _ _ _ cs c, OF assms(3,4) this] 3 show ?thesis by simp
  qed auto
qed

lemma load_written:
  assumes "ledger_bytes dump l = Some bs" and "parse (dump (ledger_json l)) = Some (ledger_json l)"
  shows "load_ledger parse (Some bs) = Inr l"
proof -
  have "make_entry (asdict e) = Some e" for e
    by (cases e) (simp add: make_entry_def asdict_def get_key_def get_or_def lit_def)
  then have "load_entries (map (\<lambda>(k, e). (k, JDict (asdict e))) xs) = xs" for xs
    by (induction xs) (auto simp: read_entry_def)
  with assms(2) utf8.strict_encode[OF assms(1)[unfolded ledger_bytes_def]] show ?thesis
    by (simp add: load_ledger_def) (simp add: ledger_json_def)
qed

text \<open>
  C14: The sidecar is replaced at once. After a crash at any point the sidecar is what it was before
  or the whole translation; a write that fails leaves the directory as it was, one that succeeds
  changes the sidecar only.
\<close>

theorem sidecar_replaced_at_once:
  assumes "write_vi_sidecar other env d media = (ops, result)" and "sidecar_fresh env media"
    and "fs (slot_name env) = None" and "fs (with_suffix (slot_name env) (path_suffix (derive_vi_sidecar_name media))) = None"
  shows "run_ops (take k ops) fs (derive_vi_sidecar_name media) \<in> {fs (derive_vi_sidecar_name media), sidecar_content other env d media}
    \<and> run_ops ops fs = (case result of Inl e \<Rightarrow> fs | Inr p \<Rightarrow> fs(p := sidecar_content other env d media))
    \<and> (result = Inr (derive_vi_sidecar_name media) \<longleftrightarrow> sidecar_content other env d media \<noteq> None)"
  using sidecar_outcome[of other env d media ops result fs, OF assms]
    sidecar.crash[of "(other, env, d, media)" k fs] assms(1,2)
  by (auto split: sum.splits)

text \<open>
  The JSON ledger survives a crash. What is loaded after a crash at any point of a record is the
  ledger before it or the ledger with it, and after a record that succeeds the ledger with it.
\<close>

theorem ledger_survives_crash:
  assumes "ledger_record dump env path e l = (l', ops, result)" and "load_ledger parse (fs path) = Inr l"
    and "parse (dump (ledger_json l')) = Some (ledger_json l')" and "path \<noteq> slot_name env"
  shows "load_ledger parse (run_ops (take k ops) fs path) \<in> {Inr l, Inr l'}
    \<and> (result = Inr () \<longrightarrow> load_ledger parse (run_ops ops fs path) = Inr l')"
proof -
  from assms(1) have l: "write_ledger dump env path l' = (ops, result)" by (auto simp: ledger_record_def Let_def)
  have f: "ledger_fresh env path" using assms(4) by (simp add: ledger_fresh_def)
  have "load_ledger parse (ledger_content dump env l') = Inr l'" if "ledger_content dump env l' \<noteq> None"
    using that load_written[where parse = parse and dump = dump and l = l', OF _ assms(3)] by (auto simp: ledger_content_def split: if_splits)
  moreover have "ledger_content dump env l' \<noteq> None" if "result = Inr ()"
    using l that by (auto simp: write_ledger_def ledger_content_def Let_def split: option.splits if_splits)
  ultimately show ?thesis
    using ledger_file.crash[of "(dump, env, path, l')" k fs] ledger_file.written[of "(dump, env, path, l')" fs] f l assms(2)
    by (auto split: option.splits)
qed

definition good_env :: write_env where
  "good_env = \<lparr>we_slot = Some (lit ''t''), we_partial = [[]], we_full = True, we_replace = True\<rparr>"

lemma demo_sidecar:
  "derive_vi_sidecar_name (lit ''S.en.srt'') = lit ''S.vi.srt''" "slot_name good_env = lit ''t.tmp''"
  "with_suffix (slot_name good_env) (path_suffix (lit ''S.vi.srt'')) = lit ''t.srt''"
  by (simp_all add: sidecar_eval slot_name_def good_env_def TMP_SUFFIX_def with_suffix_def lit_def path_stem_def path_suffix_def last_dot_def Let_def)

lemma demo_sidecar_fresh: "sidecar_fresh good_env (lit ''S.en.srt'')"
  unfolding sidecar_fresh_def Let_def demo_sidecar(1) demo_sidecar(3) unfolding demo_sidecar(2) by (simp add: lit_def)

theorem sidecar_replaced_at_once_witness:
  "fst (write_vi_sidecar (\<lambda>n. latin1) good_env (one_cue [97]) (lit ''S.en.srt'')) \<noteq> []
   \<and> run_ops (take 3 (fst (write_vi_sidecar (\<lambda>n. latin1) good_env (one_cue [97]) (lit ''S.en.srt'')))) Map.empty (lit ''S.vi.srt'')
     \<in> {None, sidecar_content (\<lambda>n. latin1) good_env (one_cue [97]) (lit ''S.en.srt'')}"
  using sidecar_replaced_at_once[where other = "\<lambda>n. latin1" and d = "one_cue [97]" and fs = Map.empty and k = 3,
    OF prod.collapse[symmetric] demo_sidecar_fresh]
  by (simp add: demo_sidecar) (simp add: write_vi_sidecar_def good_env_def Let_def split: sum.split)

theorem ledger_survives_crash_witness:
  "\<exists>l'. load_ledger (\<lambda>t. Some (ledger_json l')) (run_ops (fst (write_ledger (\<lambda>v. []) good_env demo_path l')) Map.empty demo_path) = Inr l'
     \<and> l' \<noteq> []"
proof -
  let ?e = "\<lparr>le_source = [97], le_output = None, le_status = Done, le_hash = [], le_series = None, le_lang = None, le_episode = None,
    le_translated_at = None, le_quarantine = None\<rparr>"
  let ?l = "[([97], entry_json ?e)]"
  have r: "ledger_record (\<lambda>v. []) good_env demo_path ?e [] = (?l, fst (write_ledger (\<lambda>v. []) good_env demo_path ?l), Inr ())"
    by (simp add: ledger_record_def write_ledger_def good_env_def ledger_bytes_def Let_def)
  have "demo_path \<noteq> slot_name good_env" by (simp add: demo_path_def slot_name_def good_env_def TMP_SUFFIX_def lit_def)
  from ledger_survives_crash[OF r _ _ this, of "\<lambda>t. Some (ledger_json ?l)" Map.empty] show ?thesis
    by (intro exI[of _ ?l]) (simp add: load_ledger_def)
qed

lemma inserted_rows:
  assumes "insert_entry text_of e t = Inr t'" and "r \<in> set t'" and "r \<notin> set t"
  shows "column text_of (je_source e) = Inr (Some (le_source (row_entry r))) \<and> je_hash e \<noteq> JNull"
  using assms(1) by (cases rule: insert_entry_cases) (use assms(2,3) in auto)

lemma null_hash_fails:
  assumes "insert_entries text_of es t = Inr t'" and "e \<in> set es" and "je_hash e = JNull"
  shows "has_source text_of e t \<or> (\<exists>e' \<in> set es. column text_of (je_source e') = column text_of (je_source e) \<and> je_hash e' \<noteq> JNull)"
  using assms(1,2)
proof (induction es arbitrary: t)
  case (Cons x es)
  then obtain t1 where t1: "insert_entry text_of x t = Inr t1" "insert_entries text_of es t1 = Inr t'" by auto
  have rows: "has_source text_of e t \<or> column text_of (je_source x) = column text_of (je_source e) \<and> je_hash x \<noteq> JNull"
    if "has_source text_of e t1"
    using that inserted_rows[OF t1(1)] by (fastforce simp: has_source_def)
  show ?case
  proof (cases "e = x")
    case True
    with rows assms(3) insert_entry_Inr[OF t1(1)] show ?thesis by auto
  next
    case False
    with Cons.prems(2) Cons.IH[OF t1(2)] rows show ?thesis by auto
  qed
qed simp

text \<open>
  One entry can keep out all the others. An entry whose hash is null, and whose source the ledger
  does not know, makes every start fail without a change, so that no entry of the file is ever
  taken over.
\<close>

theorem one_entry_blocks_migration:
  assumes "mw_files w path = Some bs" and "decode_strict utf8_unit bs = Some t" and "parse t = Some (JDict d)" and "pick_entries d = Inr es"
    and "mw_files w (migrated_bak path) = None" and "mw_files w (corrupt_bak path) = None" and "mw_files w (rename_blocked path) = None"
    and "e \<in> set es" and "je_hash e = JNull" and "\<not> has_source text_of e (mw_table w)"
    and "\<And>e'. e' \<in> set es \<Longrightarrow> column text_of (je_source e') = column text_of (je_source e) \<Longrightarrow> e' = e"
    and "me_read env"
  shows "\<exists>err. migrate_json_ledger parse text_of path env w = ([], Some err)"
proof -
  have "insert_entries text_of es (mw_table w) \<noteq> Inr t'" for t'
    using null_hash_fails[of text_of es "mw_table w" t' e] assms(8-11) by fastforce
  then obtain err where "insert_entries text_of es (mw_table w) = Inl err" by (cases "insert_entries text_of es (mw_table w)") auto
  with assms show ?thesis by (auto simp: migrate_json_ledger_def)
qed

section \<open>The ledger taken over is the old one\<close>

definition stored_form :: "json_ledger \<Rightarrow> stored_ledger" where
  "stored_form l = map (\<lambda>(k, e). (k, entry_json e)) l"

definition entry_texts :: "ledger_entry \<Rightarrow> pystr list" where
  "entry_texts e = le_source e # le_hash e # concat (map (\<lambda>x. case x of None \<Rightarrow> [] | Some s \<Rightarrow> [s])
     [le_output e, le_series e, le_lang e, le_episode e, le_translated_at e, le_quarantine e])"

definition storable :: "ledger_entry \<Rightarrow> bool" where
  "storable e \<longleftrightarrow> (\<forall>s \<in> set (entry_texts e). encode_all utf8_char s \<noteq> None)"

lemma column_text: "(\<And>s. x = Some s \<Longrightarrow> encode_all utf8_char s \<noteq> None) \<Longrightarrow> column text_of (text_or_null x) = Inr x"
  by (cases x) (auto simp: text_or_null_def column_def)

lemma column_string: "encode_all utf8_char s \<noteq> None \<Longrightarrow> column text_of (JStr s) = Inr (Some s)"
  by (simp add: column_def)

lemma status_named_name [simp]: "status_named (JStr (status_name st)) = st"
  by (cases st) (simp_all add: status_named_def status_name_def lit_def)

lemma new_row_typed:
  assumes "storable e"
  shows "new_row text_of (entry_json e) (Some (le_source e)) t = Inr (t @ [\<lparr>row_id = next_row_id t, row_entry = e\<rparr>])"
proof -
  have "column text_of (text_or_null x) = Inr x"
    if "x \<in> {le_output e, le_series e, le_lang e, le_episode e, le_translated_at e, le_quarantine e}" for x
    using that assms by (intro column_text) (auto simp: storable_def entry_texts_def)
  moreover have "column text_of (JStr (le_hash e)) = Inr (Some (le_hash e))"
    using assms by (intro column_string) (simp add: storable_def entry_texts_def)
  ultimately show ?thesis by (simp add: new_row_def entry_json_def and_next_def)
qed

lemma insert_typed:
  assumes "storable e" and "\<forall>r \<in> set t. le_source (row_entry r) \<noteq> le_source e"
  shows "insert_entry text_of (entry_json e) t = Inr (t @ [\<lparr>row_id = next_row_id t, row_entry = e\<rparr>])"
proof -
  have "column text_of (je_source (entry_json e)) = Inr (Some (le_source e))"
    using assms(1) by (simp add: entry_json_def column_string storable_def entry_texts_def)
  moreover have "scalar_one_or_none (rows_with_source t (le_source e)) = Inr None"
    using assms(2) by (simp add: scalar_one_or_none_def rows_with_source_def filter_empty_conv split: list.split)
  ultimately show ?thesis using new_row_typed[OF assms(1)] by (simp add: insert_entry_def and_next_def)
qed

lemma insert_all_typed:
  assumes "\<forall>e \<in> set es. storable e" and "distinct (map le_source es)"
    and "\<forall>e \<in> set es. \<forall>r \<in> set t. le_source (row_entry r) \<noteq> le_source e" and "sqla_invar t"
  shows "\<exists>rows. insert_entries text_of (map entry_json es) t = Inr (t @ rows) \<and> map row_entry rows = es \<and> sqla_invar (t @ rows)"
  using assms
proof (induction es arbitrary: t)
  case (Cons e es)
  let ?r = "\<lparr>row_id = next_row_id t, row_entry = e\<rparr>"
  have i: "insert_entry text_of (entry_json e) t = Inr (t @ [?r])" using Cons.prems by (intro insert_typed) auto
  have "sqla_invar (t @ [?r])" using Cons.prems(3,4) append_fresh_row[of t e] by simp
  with Cons.prems Cons.IH[of "t @ [?r]"] obtain rows where
    "insert_entries text_of (map entry_json es) (t @ [?r]) = Inr ((t @ [?r]) @ rows)" "map row_entry rows = es" "sqla_invar ((t @ [?r]) @ rows)"
    by fastforce
  with i show ?case by (intro exI[of _ "?r # rows"]) (simp add: and_next_def)
qed simp

lemma pick_typed: "pick_entries (map (\<lambda>(k, e). (k, JDict (asdict e))) (stored_form l)) = Inr (map (\<lambda>(k, e). entry_json e) l)"
proof (induction l)
  case (Cons x l)
  obtain k e where x: "x = (k, e)" by fastforce
  have "make_entry (asdict (entry_json e)) = Some (entry_json e)"
    by (simp add: make_entry_def asdict_def get_key_def get_or_def lit_def)
  moreover have "valid_status (je_status (entry_json e)) = Inr True"
    by (cases "le_status e") (simp_all add: entry_json_def valid_status_def status_name_def VALID_STATUSES_def)
  ultimately show ?case using Cons x by (simp add: stored_form_def read_entry_def)
qed (simp add: stored_form_def)

lemma find_rows: "map row_entry rows = map snd l \<Longrightarrow> (\<forall>(k, e) \<in> set l. le_source e = k) \<Longrightarrow>
    map_option row_entry (find (\<lambda>r. le_source (row_entry r) = p) rows) = map_of l p"
  by (induction l arbitrary: rows) (auto simp: map_eq_Cons_conv)

lemma migrated_ledger:
  assumes "json_invar l" and "\<forall>(k, e) \<in> set l. storable e" and "l \<noteq> []"
    and "mw_files w path = ledger_bytes dump (stored_form l)" and "mw_files w path \<noteq> None"
    and "parse (dump (ledger_json (stored_form l))) = Some (ledger_json (stored_form l))"
    and "mw_files w (migrated_bak path) = None" and "mw_files w (corrupt_bak path) = None" and "mw_files w (rename_blocked path) = None"
    and "mw_table w = []" and "me_read env" and "migrate_json_ledger parse text_of path env w = (ops, err)"
  shows "err = None \<and> (\<forall>p. sqla_check (mw_table (run_mig ops w)) p = json_check l p)"
proof -
  from assms(4,5) obtain bs where bs: "mw_files w path = Some bs" "ledger_bytes dump (stored_form l) = Some bs" by auto
  have d: "decode_strict utf8_unit bs = Some (dump (ledger_json (stored_form l)))"
    using utf8.strict_encode[OF bs(2)[unfolded ledger_bytes_def]] .
  have sources: "map le_source (map snd l) = map fst l"
    using assms(1) by (auto simp: json_invar_def)
  have "\<forall>e \<in> set (map snd l). storable e" using assms(2) by auto
  moreover have "distinct (map le_source (map snd l))" unfolding sources using assms(1) by (simp add: json_invar_def)
  ultimately have "\<forall>e \<in> set (map snd l). storable e" "distinct (map le_source (map snd l))" by blast+
  from insert_all_typed[OF this, of "[]" text_of] obtain rows where
    rows: "insert_entries text_of (map entry_json (map snd l)) [] = Inr rows" "map row_entry rows = map snd l" "sqla_invar rows"
    by (auto simp: sqla_invar_def)
  have es: "map (\<lambda>(k, e). entry_json e) l = map entry_json (map snd l)" by auto
  have "ops = Commit rows # (if me_rename env then [OnFiles (Replace path (migrated_bak path))]
      else case me_note env of None \<Rightarrow> [] | Some n \<Rightarrow> [OnFiles (Store (rename_blocked path) n)]) \<and> err = None"
    using assms(3,6-12) bs(1) d pick_typed[of l] rows(1)
    by (auto simp: migrate_json_ledger_def ledger_json_def es)
  moreover have "mw_table (run_mig xs v) = mw_table v" if "\<forall>x \<in> set xs. \<exists>y. x = OnFiles y" for xs v
    using that by (induction xs arbitrary: v) auto
  ultimately have "err = None \<and> mw_table (run_mig ops w) = rows" by (auto split: option.splits)
  moreover have "sqla_check rows p = json_check l p" for p
    using find_rows[OF rows(2), of p] assms(1) rows(3) by (simp add: sqla_check_find json_check_def json_invar_def)
  ultimately show ?thesis by simp
qed

lemma migrated_ledger_check:
  assumes "json_invar l" and "\<forall>(k, e) \<in> set l. storable e" and "l \<noteq> []"
    and "mw_files w path = ledger_bytes dump (stored_form l)" and "mw_files w path \<noteq> None"
    and "parse (dump (ledger_json (stored_form l))) = Some (ledger_json (stored_form l))"
    and "mw_files w (migrated_bak path) = None" and "mw_files w (corrupt_bak path) = None" and "mw_files w (rename_blocked path) = None"
    and "mw_table w = []" and "me_read env"
  shows "sqla_check (mw_table (run_mig (fst (migrate_json_ledger parse text_of path env w)) w)) p = json_check l p"
  using migrated_ledger[where parse = parse and dump = dump and text_of = text_of, OF assms prod.collapse[symmetric]] by blast

text \<open>
  The ledger that the first start takes over answers as the old one. A ledger that the program
  has written, moved into an empty database, gives for every source the entry it gave before.
\<close>

theorem migrated_ledger_agrees:
  assumes "json_invar l" and "\<forall>(k, e) \<in> set l. storable e" and "l \<noteq> []"
    and "mw_files w path = ledger_bytes dump (stored_form l)" and "mw_files w path \<noteq> None"
    and "parse (dump (ledger_json (stored_form l))) = Some (ledger_json (stored_form l))"
    and "mw_files w (migrated_bak path) = None" and "mw_files w (corrupt_bak path) = None" and "mw_files w (rename_blocked path) = None"
    and "mw_table w = []" and "me_read env" and "migrate_json_ledger parse text_of path env w = (ops, err)"
  shows "err = None \<and> (\<forall>p. sqla_check (mw_table (run_mig ops w)) p = json_check l p)"
  using migrated_ledger[where parse = parse and dump = dump, OF assms] .

definition kept_entry :: ledger_entry where
  "kept_entry = \<lparr>le_source = [97], le_output = Some [98], le_status = Done, le_hash = [48], le_series = None, le_lang = None, le_episode = None,
     le_translated_at = None, le_quarantine = None\<rparr>"

theorem migrated_ledger_agrees_witness:
  "sqla_check (mw_table (run_mig (fst (migrate_json_ledger (\<lambda>t. Some (ledger_json (stored_form [([97], kept_entry)]))) (\<lambda>v. []) demo_path
      \<lparr>me_read = True, me_rename = False, me_note = None\<rparr> demo_world)) demo_world)) [97] = Inr (Some kept_entry)"
proof -
  have i: "json_invar [([97], kept_entry)]" by (simp add: json_invar_def kept_entry_def)
  have s: "\<forall>(k, e) \<in> set [([97], kept_entry)]. storable e"
    by (simp add: storable_def entry_texts_def kept_entry_def utf8_char_def surrogate_def)
  have f: "mw_files demo_world demo_path = ledger_bytes (\<lambda>v. []) (stored_form [([97], kept_entry)])"
    by (simp add: demo_fresh ledger_bytes_def)
  have t: "mw_table demo_world = []" by (simp add: demo_world_def)
  from migrated_ledger_agrees[OF i s _ f _ _ demo_fresh(2-4) t _ prod.collapse[symmetric], of "\<lambda>t. Some (ledger_json (stored_form [([97], kept_entry)]))"]
  show ?thesis by (simp add: demo_fresh json_check_def)
qed

end
