(* ===== verification/Startup.thy ===== *)
theory Startup
  imports Persistence Run_Pipeline
begin

text \<open>
  The start of a run: the migration of the schema on one connection (\<open>run_migrations_to_head\<close> of
  \<open>trezarr/db/migration_runner.py\<close>) and \<open>_run_once\<close> of \<open>trezarr/cli.py\<close>, which checks the media roots, opens the
  database, takes over the old ledger and runs the pipeline. What the migration scripts do and which
  steps fail are arguments.
\<close>

section \<open>The schema\<close>

text \<open>The check of foreign keys on a connection, which a pragma changes only outside a transaction.\<close>

record connection =
  cn_fk :: bool
  cn_open :: bool

definition set_fk :: "bool \<Rightarrow> connection \<Rightarrow> connection" where
  "set_fk v c = (if cn_open c then c else c\<lparr>cn_fk := v\<rparr>)"

text \<open>
  What happens on the way: whether the pragma can be read and switched off, what the scripts raise and
  whether they leave a transaction open, whether the rollback and the last pragma succeed.
\<close>

record 'e upgrade_env =
  ue_read :: "'e option"
  ue_off :: "'e option"
  ue_upgrade :: "'e option"
  ue_left_open :: bool
  ue_rollback :: bool
  ue_restore :: "'e option"

text \<open>\<open>_do_upgrade\<close>: the value read before is remembered, the scripts run with the check off.\<close>

definition do_upgrade :: "'e upgrade_env \<Rightarrow> connection \<Rightarrow> 'e option \<times> bool option \<times> connection" where
  "do_upgrade env c = (case ue_read env of
     Some e \<Rightarrow> (Some e, None, c)
   | None \<Rightarrow> (case ue_off env of
       Some e \<Rightarrow> (Some e, Some (cn_fk c), c)
     | None \<Rightarrow> (ue_upgrade env, Some (cn_fk c), (set_fk False c)\<lparr>cn_open := ue_left_open env\<rparr>)))"

definition restore_foreign_keys :: "'e upgrade_env \<Rightarrow> bool \<Rightarrow> connection \<Rightarrow> 'e option \<times> connection" where
  "restore_foreign_keys env prior c =
     (let c' = (if ue_rollback env then c\<lparr>cn_open := False\<rparr> else c) in
      case ue_restore env of Some e \<Rightarrow> (Some e, c') | None \<Rightarrow> (None, set_fk prior c'))"

text \<open>Without a value read before, the check is switched on.\<close>

definition run_migrations :: "'e upgrade_env \<Rightarrow> connection \<Rightarrow> 'e option \<times> connection" where
  "run_migrations env c = (case do_upgrade env c of
     (failure, prior, c1) \<Rightarrow> (case restore_foreign_keys env (case prior of None \<Rightarrow> True | Some p \<Rightarrow> p) c1 of
       (e, c2) \<Rightarrow> (if e = None then failure else e, c2)))"

section \<open>One run\<close>

datatype run_end = ExitCode nat | SystemExit | Escaped py_error

text \<open>Which of the steps before the pipeline succeed.\<close>

record start_env =
  so_roots :: bool
  so_engine :: bool
  so_schema :: bool

definition finished ::
  "bytes directory \<Rightarrow> file_table station \<Rightarrow> py_error + run_report \<times> file_table station \<Rightarrow> run_end \<times> bytes directory \<times> file_table station \<times> bool" where
  "finished fs s result = (case result of
     Inl e \<Rightarrow> (Escaped e, fs, s, True)
   | Inr (rep, s') \<Rightarrow> (ExitCode (rr_exit rep), fs, s', True))"

text \<open>
  The pipeline is applied to the station with the ledger that the migration of the old one leaves,
  whether or not that raised. The last component is whether the engine has been disposed of.
\<close>

definition run_once ::
  "start_env \<Rightarrow> (pystr \<Rightarrow> json option) \<Rightarrow> (json \<Rightarrow> pystr) \<Rightarrow> pystr \<Rightarrow> mig_env
     \<Rightarrow> (file_table station \<Rightarrow> py_error + run_report \<times> file_table station)
     \<Rightarrow> bytes directory \<Rightarrow> file_table station \<Rightarrow> run_end \<times> bytes directory \<times> file_table station \<times> bool" where
  "run_once start parse text_of path env pipeline fs s =
     (if \<not> so_roots start then (SystemExit, fs, s, False)
      else if \<not> so_engine start then (ExitCode 1, fs, s, False)
      else if \<not> so_schema start then (ExitCode 1, fs, s, True)
      else let w = \<lparr>mw_files = fs, mw_table = sn_ledger s\<rparr>;
               w' = run_mig (fst (migrate_json_ledger parse text_of path env w)) w;
               s1 = s\<lparr>sn_ledger := mw_table w'\<rparr>
           in finished (mw_files w') s1 (pipeline s1))"

section \<open>Properties\<close>

text \<open>
  The check of foreign keys is as it was on the connection that goes back to the pool, whether
  or not the scripts fail and whatever transaction they leave open, when the old value could be read, the
  rollback succeeds and the pragma can be set.
\<close>

theorem foreign_keys_restored:
  assumes "run_migrations env c = (e, c')" and "\<not> cn_open c" and "ue_read env = None" and "ue_rollback env" and "ue_restore env = None"
  shows "cn_fk c' = cn_fk c \<and> \<not> cn_open c'"
  using assms by (auto simp: run_migrations_def do_upgrade_def restore_foreign_keys_def set_fk_def Let_def split: option.splits)

text \<open>
  C6: The first run goes by the old ledger. A file that the ledger written before says is
  done, with the digest its source has now and with its sidecar there, is not eligible in the
  ledger that the pipeline of the first run sees.
\<close>

theorem first_run_skips_done:
  assumes "json_invar l" and "\<forall>(k, x) \<in> set l. storable x" and "map_of l (path_str p) = Some x"
    and "le_status x = Done" and "le_hash x = h content"
    and "fs_exists files (path_str p)" and "fs_exists files (path_str (derive_vi_sidecar_path p))" and "fs_read files (path_str p) = Inr content"
    and "fs path = ledger_bytes dump (stored_form l)" and "fs path \<noteq> None"
    and "parse (dump (ledger_json (stored_form l))) = Some (ledger_json (stored_form l))"
    and "fs (migrated_bak path) = None" and "fs (corrupt_bak path) = None" and "fs (rename_blocked path) = None"
    and "sn_ledger s = []" and "me_read env" and "start = \<lparr>so_roots = True, so_engine = True, so_schema = True\<rparr>"
  shows "\<exists>t. is_eligible (sqla_check t) (sqla_check_by_output t) h files p = Inr (False, done_reason)
    \<and> (\<exists>fs'. \<forall>pipeline. run_once start parse text_of path env pipeline fs s = finished fs' (s\<lparr>sn_ledger := t\<rparr>) (pipeline (s\<lparr>sn_ledger := t\<rparr>)))"
proof -
  let ?w = "\<lparr>mw_files = fs, mw_table = []\<rparr>"
  let ?t = "mw_table (run_mig (fst (migrate_json_ledger parse text_of path env ?w)) ?w)"
  have "l \<noteq> []" using assms(3) by auto
  then have "sqla_check ?t (path_str p) = json_check l (path_str p)"
    using migrated_ledger_check[where parse = parse and dump = dump and w = ?w and env = env and path = path, OF assms(1,2)] assms by simp
  then have "sqla_check ?t (path_str p) = Inr (Some x)" using assms(3) by (simp add: json_check_def)
  then have "is_eligible (sqla_check ?t) (sqla_check_by_output ?t) h files p = Inr (False, done_reason)"
    using assms(4-8) by (simp add: is_eligible_def Let_def)
  moreover have "run_once start parse text_of path env pipeline fs s = finished
      (mw_files (run_mig (fst (migrate_json_ledger parse text_of path env ?w)) ?w)) (s\<lparr>sn_ledger := ?t\<rparr>) (pipeline (s\<lparr>sn_ledger := ?t\<rparr>))" for pipeline
    using assms(15,17) by (simp add: run_once_def Let_def)
  ultimately show ?thesis by blast
qed

theorem foreign_keys_restored_witness:
  "cn_fk (snd (run_migrations \<lparr>ue_read = None, ue_off = None, ue_upgrade = Some (1 :: nat), ue_left_open = True, ue_rollback = True, ue_restore = None\<rparr>
     \<lparr>cn_fk = False, cn_open = False\<rparr>)) = False"
  using foreign_keys_restored[OF prod.collapse[symmetric], of "\<lparr>cn_fk = False, cn_open = False\<rparr>"
      "\<lparr>ue_read = None, ue_off = None, ue_upgrade = Some (1 :: nat), ue_left_open = True, ue_rollback = True, ue_restore = None\<rparr>"] by simp

theorem first_run_skips_done_witness:
  "\<exists>t. is_eligible (sqla_check t) (sqla_check_by_output t) (\<lambda>b. [7]) sample_files sample_path = Inr (False, done_reason)"
proof -
  let ?l = "[(path_str sample_path, sample_entry (path_str sample_path) Done [7])]"
  have i: "json_invar ?l" by (simp add: json_invar_def sample_entry_def)
  have s: "\<forall>(k, x) \<in> set ?l. storable x"
    by (simp add: storable_def entry_texts_def sample_entry_def sample_str utf8_char_def surrogate_def lit_def)
  have f: "[demo_path \<mapsto> []] demo_path = ledger_bytes (\<lambda>v. []) (stored_form ?l)" by (simp add: ledger_bytes_def)
  from first_run_skips_done[where h = "\<lambda>b. [7]" and files = sample_files and p = sample_path and x = "sample_entry (path_str sample_path) Done [7]"
      and content = "[1, 2]" and dump = "\<lambda>v. []" and parse = "\<lambda>t. Some (ledger_json (stored_form ?l))" and text_of = "\<lambda>v. []"
      and fs = "[demo_path \<mapsto> []]" and path = demo_path and env = "\<lparr>me_read = True, me_rename = True, me_note = None\<rparr>"
      and s = "\<lparr>sn_ledger = [], sn_files = sn_files s0, sn_artifacts = sn_artifacts s0, sn_bible = sn_bible s0\<rparr>" for s0 :: "file_table station",
      OF i s _ _ _ _ _ _ f]
  show ?thesis by (auto simp: sample_entry_def sample_files_def)
qed

end
