(* ===== verification/Application.thy ===== *)
theory Application
  imports Settings_Api Media_Paths
begin

text \<open>
  The web application around the parts: its start and shutdown, the fallback to the page of the
  user interface and the choice of the database file (\<open>trezarr/web/app.py\<close>), and the tests of a
  connection (\<open>trezarr/web/routes/test_connection.py\<close>, with the host names of \<open>trezarr/arr/__init__.py\<close>).
  Which step of a start fails, what the clients answer and what the URL parser finds are arguments.
\<close>

section \<open>Start and shutdown\<close>

datatype startup_step =
    ApplyMigrations | OpenSessions | RequeueJobs | RequeueLedger | MakeClient | MakeScheduler | RegisterPoll | StartScheduler | StartWorker

definition STARTUP :: "startup_step list" where
  "STARTUP = [ApplyMigrations, OpenSessions, RequeueJobs, RequeueLedger, MakeClient, MakeScheduler, RegisterPoll, StartScheduler, StartWorker]"

fun perform :: "(startup_step \<Rightarrow> 'e option) \<Rightarrow> startup_step list \<Rightarrow> startup_step list \<times> 'e option" where
  "perform fails [] = ([], None)"
| "perform fails (s # ss) = (case fails s of
     Some e \<Rightarrow> ([], Some e)
   | None \<Rightarrow> (case perform fails ss of (performed, e) \<Rightarrow> (s # performed, e)))"

text \<open>
  What happens: whether the engine can be built, which steps fail, an exception while serving, the one
  with which the worker ended if it was not cancelled, the number of jobs under way, what the
  shutdown of the scheduler raises, started or not, and what disposing of the engine raises.
\<close>

record 'e life_env =
  li_build :: "'e option"
  li_fails :: "startup_step \<Rightarrow> 'e option"
  li_serving :: "'e option"
  li_worker :: "'e option"
  li_jobs :: nat
  li_shutdown :: "bool \<Rightarrow> 'e option"
  li_dispose :: "'e option"

datatype life_event = BuildEngine | Step startup_step | Serve | CancelWorker | CancelJobs nat | StopScheduler | DisposeEngine

text \<open>The \<open>finally\<close> block: an exception of one of its parts skips the parts after it.\<close>

definition dispose_part :: "'e life_env \<Rightarrow> life_event list \<times> 'e option" where
  "dispose_part env = (case li_dispose env of Some e \<Rightarrow> ([], Some e) | None \<Rightarrow> ([DisposeEngine], None))"

definition scheduler_part :: "'e life_env \<Rightarrow> startup_step list \<Rightarrow> life_event list \<times> 'e option" where
  "scheduler_part env performed =
     (if MakeScheduler \<in> set performed
      then (case li_shutdown env (StartScheduler \<in> set performed) of
          Some e \<Rightarrow> ([], Some e)
        | None \<Rightarrow> (case dispose_part env of (evs, e) \<Rightarrow> (StopScheduler # evs, e)))
      else dispose_part env)"

definition shutdown :: "'e life_env \<Rightarrow> startup_step list \<Rightarrow> life_event list \<times> 'e option" where
  "shutdown env performed =
     (let worker = (if StartWorker \<in> set performed then [CancelWorker] else []) in
      case (if StartWorker \<in> set performed then li_worker env else None) of
        Some e \<Rightarrow> (worker, Some e)
      | None \<Rightarrow> (case scheduler_part env performed of (evs, e) \<Rightarrow>
          (worker @ (if li_jobs env > 0 then [CancelJobs (li_jobs env)] else []) @ evs, e)))"

definition lifespan :: "'e life_env \<Rightarrow> life_event list \<times> 'e option" where
  "lifespan env = (case li_build env of
     Some e \<Rightarrow> ([], Some e)
   | None \<Rightarrow> (case perform (li_fails env) STARTUP of (performed, failure) \<Rightarrow>
       (let serving = (if failure = None then [Serve] else []);
            raised = (if failure = None then li_serving env else failure) in
        case shutdown env performed of (evs, e) \<Rightarrow>
          (BuildEngine # map Step performed @ serving @ evs, if e = None then raised else e))))"

section \<open>The page of the user interface\<close>

datatype static_reply = StaticFile | IndexPage | NotFound | OtherStatus nat

definition last_segment :: "pystr \<Rightarrow> pystr" where
  "last_segment p = last (split_char 47 (rev (dropWhile (\<lambda>c. c = 47) (rev p))))"

definition under :: "string \<Rightarrow> pystr \<Rightarrow> bool" where
  "under name p \<longleftrightarrow> starts_with (lit name @ lit ''/'') p \<or> p = lit name"

definition get_response :: "(pystr \<Rightarrow> static_reply) \<Rightarrow> bool \<Rightarrow> pystr \<Rightarrow> static_reply" where
  "get_response static index_exists p =
     (if static p \<noteq> NotFound then static p
      else if 46 \<in> set (last_segment p) \<or> under ''api'' p \<or> under ''webhook'' p then NotFound
      else if \<not> index_exists then NotFound
      else IndexPage)"

section \<open>The database file\<close>

definition SQLITE_PREFIX :: pystr where
  "SQLITE_PREFIX = lit ''sqlite+aiosqlite:///''"

text \<open>\<open>s.split(p, 1)[-1]\<close>.\<close>

definition after_first :: "pystr \<Rightarrow> pystr \<Rightarrow> pystr" where
  "after_first p s = (case find_sub p s of None \<Rightarrow> s | Some i \<Rightarrow> drop (i + length p) s)"

definition path_parent :: "path \<Rightarrow> path" where
  "path_parent p = p\<lparr>path_parts := butlast (path_parts p)\<rparr>"

text \<open>The temporary directory is an argument.\<close>

definition resolve_db_url :: "(path \<Rightarrow> bool) \<Rightarrow> pystr \<Rightarrow> pystr \<Rightarrow> pystr" where
  "resolve_db_url exists tmp_dir url =
     (if contains SQLITE_PREFIX url \<and> \<not> contains (lit '':memory:'') url \<and> \<not> exists (path_parent (path_of (after_first SQLITE_PREFIX url)))
      then SQLITE_PREFIX @ tmp_dir @ lit ''/trezarr.db'' else url)"

text \<open>The settings after that: with another file all but two are those of the environment.\<close>

definition resolved_settings :: "json_dict \<Rightarrow> json_dict \<Rightarrow> pystr \<Rightarrow> pystr \<Rightarrow> json_dict" where
  "resolved_settings defaults settings url resolved =
     (if resolved \<noteq> url
      then set_key (lit ''llm_api_key'') (get_or JNull (lit ''llm_api_key'') settings) (set_key (lit ''bible_db_url'') (JStr resolved) defaults)
      else settings)"

section \<open>Host names\<close>

text \<open>The parser gives the host name, if there is one, and the location.\<close>

definition normalize_arr_host :: "(pystr \<Rightarrow> 'e + pystr option \<times> pystr) \<Rightarrow> pystr \<Rightarrow> 'e + pystr" where
  "normalize_arr_host urlparse host =
     (if contains (lit ''://'') host
      then (case urlparse host of
          Inl e \<Rightarrow> Inl e
        | Inr (name, netloc) \<Rightarrow>
            Inr (if truthy name then or_empty name
                 else hd (split_char 58 (last (split_char 64 netloc)))))
      else Inr (hd (split_char 58 host)))"

section \<open>Tests of a connection\<close>

definition resolve_api_key :: "pystr option \<Rightarrow> pystr \<Rightarrow> pystr" where
  "resolve_api_key saved_key provided =
     (if provided \<noteq> [] \<and> provided \<noteq> SENTINEL then provided
      else case saved_key of None \<Rightarrow> provided | Some s \<Rightarrow> s)"

datatype 'e test_reply = Connected json | NotConnected pystr | TestRaised 'e

text \<open>An exception has the name of its type and a text.\<close>

record exn =
  ex_type :: pystr
  ex_text :: pystr

definition error_msg :: "exn \<Rightarrow> pystr" where
  "error_msg e = ex_type e @ lit '': '' @ take 200 (ex_text e)"

text \<open>The host is normalised again to tell of the failure, which raises when the first time did.\<close>

definition report :: "(pystr \<Rightarrow> exn + pystr option \<times> pystr) \<Rightarrow> pystr \<Rightarrow> exn \<Rightarrow> exn test_reply" where
  "report urlparse host e = (case normalize_arr_host urlparse host of
     Inl e' \<Rightarrow> TestRaised e'
   | Inr display \<Rightarrow> NotConnected (error_msg e))"

definition version_of :: "json \<Rightarrow> json" where
  "version_of status = (case status of JDict d \<Rightarrow> get_or JNull (lit ''version'') d | _ \<Rightarrow> JNull)"

definition test_arr ::
  "(pystr \<Rightarrow> exn + pystr option \<times> pystr) \<Rightarrow> (pystr \<Rightarrow> nat \<Rightarrow> pystr \<Rightarrow> exn + json) \<Rightarrow> pystr option \<Rightarrow> pystr \<Rightarrow> nat \<Rightarrow> pystr
     \<Rightarrow> exn test_reply" where
  "test_arr urlparse get_status saved_key host port key = (case normalize_arr_host urlparse host of
     Inl e \<Rightarrow> report urlparse host e
   | Inr h \<Rightarrow> (case get_status h port (resolve_api_key saved_key key) of
       Inl e \<Rightarrow> report urlparse host e
     | Inr status \<Rightarrow> Connected (version_of status)))"

text \<open>The two handlers differ in the client and in the setting that holds the key.\<close>

definition test_sonarr ::
  "(pystr \<Rightarrow> exn + pystr option \<times> pystr) \<Rightarrow> (pystr \<Rightarrow> nat \<Rightarrow> pystr \<Rightarrow> exn + json) \<Rightarrow> pystr option \<Rightarrow> pystr \<Rightarrow> nat \<Rightarrow> pystr
     \<Rightarrow> exn test_reply" where
  "test_sonarr urlparse sonarr_status sonarr_key = test_arr urlparse sonarr_status sonarr_key"

definition test_radarr ::
  "(pystr \<Rightarrow> exn + pystr option \<times> pystr) \<Rightarrow> (pystr \<Rightarrow> nat \<Rightarrow> pystr \<Rightarrow> exn + json) \<Rightarrow> pystr option \<Rightarrow> pystr \<Rightarrow> nat \<Rightarrow> pystr
     \<Rightarrow> exn test_reply" where
  "test_radarr urlparse radarr_status radarr_key = test_arr urlparse radarr_status radarr_key"

definition test_bazarr ::
  "(pystr \<Rightarrow> exn + pystr option \<times> pystr) \<Rightarrow> (pystr \<Rightarrow> pystr \<Rightarrow> exn + nat) \<Rightarrow> bool option \<Rightarrow> pystr option \<Rightarrow> pystr \<Rightarrow> nat \<Rightarrow> pystr
     \<Rightarrow> exn test_reply" where
  "test_bazarr urlparse http_get enabled saved_key host port key =
     (if enabled = Some False then NotConnected (lit ''Bazarr not enabled'')
      else case normalize_arr_host urlparse host of
        Inl e \<Rightarrow> report urlparse host e
      | Inr h \<Rightarrow> (case http_get (lit ''http://'' @ h @ lit '':'' @ dec port @ lit ''/api/system/status'') (resolve_api_key saved_key key) of
          Inl e \<Rightarrow> report urlparse host e
        | Inr code \<Rightarrow> (if code = 200 then Connected JNull else NotConnected (lit ''HTTP '' @ dec code))))"

definition test_llm :: "(pystr \<Rightarrow> pystr \<Rightarrow> pystr \<Rightarrow> exn option) \<Rightarrow> pystr option \<Rightarrow> pystr \<Rightarrow> pystr \<Rightarrow> pystr \<Rightarrow> exn test_reply" where
  "test_llm ping saved_key base_url model key = (case ping base_url (resolve_api_key saved_key key) model of
     None \<Rightarrow> Connected JNull
   | Some e \<Rightarrow> NotConnected (error_msg e))"

section \<open>Facts\<close>

definition reached :: "'e life_env \<Rightarrow> startup_step \<Rightarrow> bool" where
  "reached env s \<longleftrightarrow> li_build env = None \<and> s \<in> set (fst (perform (li_fails env) STARTUP))"

lemma perform_prefix: "perform fails ss = (performed, e) \<Longrightarrow> \<exists>rest. ss = performed @ rest \<and> (e = None \<longleftrightarrow> rest = [])"
  by (induction ss arbitrary: performed) (auto split: option.splits prod.splits, metis)

section \<open>Properties\<close>

text \<open>
  The engine is released on every way out, but for two: it stays when the worker had ended with an
  exception of its own, and when the scheduler cannot be shut down, which is so when it was made
  and not started. The application serves only after every step of the start, and the engine goes last.
\<close>

theorem engine_released:
  assumes "lifespan env = (events, outcome)" and "li_dispose env = None"
  shows "(DisposeEngine \<in> set events \<longleftrightarrow> BuildEngine \<in> set events
      \<and> \<not> (reached env StartWorker \<and> li_worker env \<noteq> None)
      \<and> \<not> (reached env MakeScheduler \<and> li_shutdown env (reached env StartScheduler) \<noteq> None))
    \<and> (DisposeEngine \<in> set events \<longrightarrow> last events = DisposeEngine)
    \<and> (Serve \<in> set events \<longrightarrow> (\<exists>rest. events = BuildEngine # map Step STARTUP @ Serve # rest))"
proof (cases "li_build env")
  case None
  obtain performed failure where p: "perform (li_fails env) STARTUP = (performed, failure)" by fastforce
  have r: "reached env s \<longleftrightarrow> s \<in> set performed" for s by (simp add: reached_def None p)
  have full: "failure = None \<Longrightarrow> performed = STARTUP" using perform_prefix[OF p] by auto
  obtain evs e where d: "shutdown env performed = (evs, e)" by fastforce
  from assms(1) have ev: "events = BuildEngine # map Step performed @ (if failure = None then [Serve] else []) @ evs"
    by (simp add: lifespan_def None p d Let_def)
  have sd: "(DisposeEngine \<in> set evs \<longleftrightarrow> \<not> (StartWorker \<in> set performed \<and> li_worker env \<noteq> None)
      \<and> \<not> (MakeScheduler \<in> set performed \<and> li_shutdown env (StartScheduler \<in> set performed) \<noteq> None))
    \<and> (DisposeEngine \<in> set evs \<longrightarrow> last evs = DisposeEngine) \<and> Serve \<notin> set evs"
    using d assms(2)
    by (auto simp: shutdown_def scheduler_part_def dispose_part_def Let_def split: if_splits option.splits, metis)
  then have "DisposeEngine \<in> set evs \<longrightarrow> last events = DisposeEngine" by (auto simp: ev)
  with sd full show ?thesis unfolding r by (auto simp: ev split: if_splits)
next
  case (Some e)
  with assms(1) show ?thesis by (simp add: lifespan_def)
qed

definition dead_worker :: "nat life_env" where
  "dead_worker = \<lparr>li_build = None, li_fails = (\<lambda>s. None), li_serving = None, li_worker = Some 1, li_jobs = 2, li_shutdown = (\<lambda>b. None), li_dispose = None\<rparr>"

theorem engine_released_witness:
  "DisposeEngine \<notin> set (fst (lifespan dead_worker)) \<and> Serve \<in> set (fst (lifespan dead_worker))"
proof -
  obtain events outcome where l: "lifespan dead_worker = (events, outcome)" by fastforce
  have r: "reached dead_worker StartWorker" "li_worker dead_worker \<noteq> None" by (simp_all add: reached_def dead_worker_def STARTUP_def)
  have "Serve \<in> set events" using l by (auto simp: lifespan_def dead_worker_def shutdown_def STARTUP_def)
  with engine_released[OF l] r l show ?thesis by (simp add: dead_worker_def)
qed

text \<open>
  The test of a connection takes the stored key to any host. With a blank or a masked key the
  test is the one with the stored key, whichever host the request names, so the key is sent there.
\<close>

theorem stored_key_sent_anywhere:
  assumes "key = [] \<or> key = SENTINEL" and "secret \<noteq> [] \<and> secret \<noteq> SENTINEL"
  shows "test_arr urlparse get_status (Some secret) host port key = test_arr urlparse get_status other host port secret"
proof -
  have k: "resolve_api_key (Some secret) key = resolve_api_key other secret" using assms by (auto simp: resolve_api_key_def)
  show ?thesis unfolding test_arr_def k ..
qed

theorem stored_key_sent_anywhere_witness:
  "test_arr (\<lambda>u. Inr (None, [])) (\<lambda>h p k. if k = lit ''key'' then Inr JNull else Inl \<lparr>ex_type = [], ex_text = k\<rparr>)
     (Some (lit ''key'')) (lit ''elsewhere.example'') 80 SENTINEL = Connected JNull"
proof -
  have "lit ''key'' \<noteq> [] \<and> lit ''key'' \<noteq> SENTINEL" by (simp add: lit_def SENTINEL_def)
  from stored_key_sent_anywhere[OF disjI2[OF refl] this, of "\<lambda>u. Inr (None, [])" _ "lit ''elsewhere.example''" 80 None] show ?thesis
    by (simp add: test_arr_def normalize_arr_host_def contains_def resolve_api_key_def version_of_def lit_def SENTINEL_def)
qed

text \<open>
  A database file in a directory that is missing costs the settings: all but the two that are
  carried over are those of the environment.
\<close>

theorem fallback_drops_settings:
  assumes "resolve_db_url exists tmp url \<noteq> url" and "k \<noteq> lit ''llm_api_key''" and "k \<noteq> lit ''bible_db_url''"
  shows "get_key k (resolved_settings defaults settings url (resolve_db_url exists tmp url)) = get_key k defaults"
  using assms by (simp add: resolved_settings_def get_set_key)

end
