(* ===== verification/Prompts.thy ===== *)
theory Prompts
  imports Translate_File
begin

text \<open>
  The prompt builders of \<open>trezarr/translate/engine.py\<close>: \<open>build_translate_prompt\<close> with the
  directives of the gate repair, and \<open>build_review_prompt\<close>. The texts are the source's; a
  character outside printable ASCII, or a quote, is its code. \<open>with_prompts\<close> puts the builders
  in the place of the prompt arguments of \<open>translate_doc\<close>.
\<close>

section \<open>The translation prompt\<close>

definition BR_TOKEN :: pystr where
  "BR_TOKEN = lit ''<<BR>>''"

text \<open>\<open>text.strip().replace(chr(10), "<<BR>>")\<close>\<close>

definition br_marked :: "pystr \<Rightarrow> pystr" where
  "br_marked t = replace_all [10] BR_TOKEN (strip t)"

definition prompt_head :: "pystr \<Rightarrow> pystr list" where
  "prompt_head source_lang =
    [lit ''Translate the following '' @ source_lang @ lit '' subtitle lines to Vietnamese.'',
     lit ''RULES:'',
     lit ''1. Output ONLY the numbered lines [1], [2], ... [N] in order.'',
     lit ''2. Keep <<T0>>, <<T1>>, ... tokens EXACTLY as-is (formatting placeholders '' @ [8212]
     @ lit '' never translate or modify them).'',
     lit ''3. Do NOT translate or output the [context] lines.'']"

definition BREAK_RULE :: pystr where
  "BREAK_RULE =
     lit ''Each line may contain <<BR>> markers that stand for line breaks inside a single ''
     @ lit ''subtitle cue. Keep every <<BR>> EXACTLY where it is '' @ [8212]
     @ lit '' never delete, add, translate, reorder, or split a line on them. Output the SAME ''
     @ lit ''number of <<BR>> markers you received.''"

definition GLOSSARY_RULE :: pystr where
  "GLOSSARY_RULE =
     lit ''For any name or term in [GLOSSARY], use the EXACT Vietnamese rendering on the right ''
     @ [8212]
     @ lit '' identical in every line. For any romanized/pinyin proper name NOT in [GLOSSARY], ''
     @ lit ''render it with its Sino-Vietnamese (H'' @ [225] @ lit ''n-Vi'' @ [7879]
     @ lit ''t) reading (e.g. pinyin '' @ [39] @ lit ''Feng Tianji'' @ [39] @ lit '' '' @ [8594]
     @ lit '' '' @ [39] @ lit ''Phong Thi'' @ [234] @ lit ''n C'' @ [7921] @ lit ''c'' @ [39]
     @ lit '', '' @ [39] @ lit ''Han'' @ [39] @ lit '' '' @ [8594] @ lit '' '' @ [39] @ lit ''H''
     @ [224] @ lit ''n'' @ [39]
     @ lit ''), and render a kinship/honorific used as a form of address with its Vietnamese ''
     @ lit ''equivalent ('' @ [39] @ lit ''Brother'' @ [39] @ lit '' '' @ [8594] @ lit '' '' @ [39]
     @ lit ''huynh'' @ [39] @ lit '', '' @ [39] @ lit ''Elder'' @ [39] @ lit '' '' @ [8594] @ lit '' ''
     @ [39] @ lit ''tr'' @ [432, 7903] @ lit ''ng l'' @ [227] @ lit ''o'' @ [39] @ lit '', '' @ [39]
     @ lit ''Senior'' @ [39] @ lit '' '' @ [8594] @ lit '' '' @ [39] @ lit ''ti'' @ [7873] @ lit ''n b''
     @ [7889] @ lit ''i'' @ [39]
     @ lit ''), NOT as a literal name. Never invent alternate transliterations, use Japanese ''
     @ lit ''romaji, leave pinyin, or leave source-language script.''"

definition BRACKET_RULE :: pystr where
  "BRACKET_RULE =
     lit ''If the source cue contains parentheses '' @ [34] @ lit ''( )'' @ [34]
     @ lit '' or square brackets '' @ [34] @ lit ''[ ]'' @ [34]
     @ lit '', TRANSLATE the text inside them and PRESERVE the surrounding '' @ [34] @ lit ''('' @ [34]
     @ lit '' '' @ [34] @ lit '')'' @ [34] @ lit '' / '' @ [34] @ lit ''['' @ [34] @ lit '' '' @ [34]
     @ lit '']'' @ [34] @ lit '' envelope in the output '' @ [8212]
     @ lit '' do NOT strip the delimiters. Do NOT add new glosses, translator notes, or explanatory ''
     @ lit ''parentheticals that are NOT already present in the source cue. EXCEPTION: a leading ''
     @ lit ''note in the form '' @ [34] @ lit ''(speaker says: '' @ [8230] @ lit ''; addresses as: ''
     @ [8230] @ lit '')'' @ [34] @ lit '' is a PRIVATE pronoun instruction, NOT subtitle text ''
     @ [8212] @ lit '' use it only to choose pronouns, then NEVER translate, echo, or keep it or its ''
     @ lit ''parentheses in your output.''"

definition REGISTER_RULE :: pystr where
  "REGISTER_RULE =
     lit ''Match the series register/tone given in [REGISTER]. If the register is classical / ''
     @ lit ''historical / wuxia / xianxia / cultivation (c'' @ [7893] @ lit '' trang / ti'' @ [234]
     @ lit ''n hi'' @ [7879] @ lit ''p / ki'' @ [7871] @ lit ''m hi'' @ [7879]
     @ lit ''p), use classical Sino-Vietnamese (H'' @ [225] @ lit ''n-Vi'' @ [7879]
     @ lit ''t) vocabulary and classical pronouns (e.g. self: ta / t'' @ [7841] @ lit ''i h'' @ [7841]
     @ lit '' / l'' @ [227] @ lit ''o phu; address: ng'' @ [432, 417] @ lit ''i / c'' @ [225]
     @ lit ''c h'' @ [7841] @ lit '' / ch'' @ [432] @ lit '' v'' @ [7883] @ lit '' / huynh / mu''
     @ [7897] @ lit ''i / ti'' @ [7873] @ lit ''n b'' @ [7889] @ lit ''i / tr'' @ [432, 7903]
     @ lit ''ng l'' @ [227] @ lit ''o) '' @ [8212]
     @ lit '' do NOT flatten the dialogue into plain modern speech (t'' @ [244] @ lit ''i / b'' @ [7841]
     @ lit ''n / anh / em) when the register is classical. Render any romanized/pinyin proper name ''
     @ lit ''with its Sino-Vietnamese (H'' @ [225] @ lit ''n-Vi'' @ [7879]
     @ lit ''t) reading and never leave pinyin or source-language script (this holds even when no ''
     @ lit ''[GLOSSARY] is given).''"

definition PLURAL_RULE :: pystr where
  "PLURAL_RULE =
     lit ''When a single line addresses MORE THAN ONE person, use a non-gendered plural address ''
     @ [8212] @ lit '' classical: '' @ [39] @ lit ''ch'' @ [432] @ lit '' v'' @ [7883, 39] @ lit '' / ''
     @ [39] @ lit ''c'' @ [225] @ lit ''c v'' @ [7883, 39] @ lit '' / '' @ [39] @ lit ''c'' @ [225]
     @ lit ''c ng'' @ [432, 417] @ lit ''i'' @ [39] @ lit ''; modern: '' @ [39] @ lit ''c'' @ [225]
     @ lit ''c b'' @ [7841] @ lit ''n'' @ [39] @ lit '' / '' @ [39] @ lit ''m'' @ [7885] @ lit ''i ng''
     @ [432, 7901] @ lit ''i'' @ [39] @ lit ''. NEVER use a gendered plural ('' @ [39] @ lit ''c''
     @ [225] @ lit ''c c'' @ [244, 39] @ lit '' / '' @ [39] @ lit ''c'' @ [225] @ lit ''c c'' @ [7853]
     @ lit ''u'' @ [39] @ lit '' / '' @ [39] @ lit ''c'' @ [225] @ lit ''c anh'' @ [39] @ lit '' / ''
     @ [39] @ lit ''c'' @ [225] @ lit ''c ch'' @ [7883, 39]
     @ lit '') for a mixed-gender group, and if any addressee is male never use a female-gendered ''
     @ lit ''term.''"

definition pronoun_examples :: "pystr option \<Rightarrow> pystr" where
  "pronoun_examples register =
     (if is_classical_register register
      then lit ''c'' @ [225] @ lit ''c h'' @ [7841] @ lit '' (respectful, non-gendered) '' @ [8212]
           @ lit '' never a proper name''
      else lit ''b'' @ [7841] @ lit ''n, or anh/ch'' @ [7883] @ lit '' by gender '' @ [8212]
           @ lit '' never '' @ [39] @ lit ''em'' @ [39] @ lit '' and never a proper name'')"

definition unhinted_rule :: "pystr option \<Rightarrow> pystr" where
  "unhinted_rule register =
     lit ''For any line WITHOUT a (speaker says / addresses as) hint: render English '' @ [39]
     @ lit ''you/your/yourself'' @ [39]
     @ lit '' as a safe, non-presumptuous 2nd-person Vietnamese pronoun '' @ [8212]
     @ lit '' NEVER substitute a character name. Use ''
     @ pronoun_examples register @ lit ''.''"

text \<open>One rule: the counter goes up with every rule that is there.\<close>

definition rule_step :: "bool \<Rightarrow> pystr \<Rightarrow> nat \<times> pystr list \<Rightarrow> nat \<times> pystr list" where
  "rule_step fires t st = (if fires then (fst st + 1, snd st @ [dec (fst st) @ lit ''. '' @ t]) else st)"

definition translate_rules :: "pystr \<Rightarrow> pystr list \<Rightarrow> pystr option \<Rightarrow> pystr option \<Rightarrow> pystr list" where
  "translate_rules source_lang glossary register directive =
     snd (rule_step (truthy directive) (lit ''[CORRECTION REQUIRED] '' @ or_empty directive)
       (rule_step True (unhinted_rule register)
       (rule_step True PLURAL_RULE
       (rule_step (truthy register) REGISTER_RULE
       (rule_step True BRACKET_RULE
       (rule_step (glossary \<noteq> []) GLOSSARY_RULE
       (rule_step True BREAK_RULE (4, prompt_head source_lang))))))))"

definition register_note :: "pystr option \<Rightarrow> pystr list" where
  "register_note register =
     (if truthy register then
       [lit ''[REGISTER - match this tone in every line]'',
        lit ''- Series register/tone: '' @ or_empty register
        @ lit ''. Match it. A classical / historical / wuxia / xianxia / cultivation register ''
          @ lit ''requires classical Sino-Vietnamese vocabulary and pronouns (e.g. ta / ng''
          @ [432, 417] @ lit ''i / t'' @ [7841] @ lit ''i h'' @ [7841] @ lit '' / c'' @ [225]
          @ lit ''c h'' @ [7841] @ lit ''), never flat modern speech.'',
        []]
      else [])"

definition glossary_block :: "pystr list \<Rightarrow> pystr list" where
  "glossary_block glossary =
     (if glossary = [] then []
      else [lit ''[GLOSSARY - canonical renderings, use EXACTLY]''] @ map (\<lambda>g. lit ''- '' @ g) glossary @ [[]])"

definition context_lines :: "pystr list \<Rightarrow> pystr list" where
  "context_lines ctx =
     [lit ''[CONTEXT - read only, do not output]''] @ map (\<lambda>t. lit ''[context] '' @ strip t) ctx"

text \<open>One line to translate; \<open>hints\<close> are keyed by the number of the line in the batch.\<close>

definition prompt_line :: "hints option \<Rightarrow> nat \<Rightarrow> pystr \<Rightarrow> pystr" where
  "prompt_line hints i t =
     (case (case hints of None \<Rightarrow> None | Some hs \<Rightarrow> map_of hs i) of
        Some (self_t, addr_t) \<Rightarrow>
          lit ''['' @ dec i @ lit ''] (speaker says: '' @ self_t @ lit ''; addresses as: '' @ addr_t @ lit '') '' @ br_marked t
      | None \<Rightarrow> lit ''['' @ dec i @ lit ''] '' @ br_marked t)"

definition prompt_lines :: "hints option \<Rightarrow> pystr list \<Rightarrow> pystr list" where
  "prompt_lines hints ts = map (\<lambda>(i, t). prompt_line hints i t) (enumerate 1 ts)"

definition or_nil :: "'a list option \<Rightarrow> 'a list" where
  "or_nil xs = (case xs of None \<Rightarrow> [] | Some ys \<Rightarrow> ys)"

definition build_translate_prompt ::
  "pystr list \<Rightarrow> pystr list \<Rightarrow> pystr list \<Rightarrow> pystr \<Rightarrow> hints option \<Rightarrow> pystr list option \<Rightarrow> pystr option \<Rightarrow> pystr option \<Rightarrow> pystr" where
  "build_translate_prompt batch_texts before after source_lang hints glossary register directive =
     join_with [10] (translate_rules source_lang (or_nil glossary) register directive @ [[]]
       @ register_note register @ glossary_block (or_nil glossary)
       @ (if before = [] then [] else context_lines before @ [[]])
       @ [lit ''[LINES TO TRANSLATE]''] @ prompt_lines hints batch_texts
       @ (if after = [] then [] else [[]] @ context_lines after))"

text \<open>The directives of the gate repair.\<close>

definition REPAIR_DIRECTIVE :: "nat \<Rightarrow> pystr" where
  "REPAIR_DIRECTIVE check =
     (if check = 3 then
        lit ''One or more lines lacked Vietnamese diacritics (possible source-language ''
        @ lit ''passthrough). Translate EVERY line in full Vietnamese with proper diacritics.''
      else if check = 9 then
        lit ''One or more lines contained CJK/Hangul/Kana script (source leak). Translate ALL ''
        @ lit ''script characters into Vietnamese '' @ [8212]
        @ lit '' output NO CJK, Hangul, or Kana codepoints.''
      else if check = 10 then
        lit ''One or more lines appear to be source-language passthrough (no Vietnamese ''
        @ lit ''diacritics, all tokens matching source). Translate fully into Vietnamese.''
      else if check = 11 then
        lit ''A prior attempt left an English honorific+name untranslated (e.g. '' @ [39]
        @ lit ''Miss Mei'' @ [39] @ lit '', '' @ [39] @ lit ''Mr. Han'' @ [39]
        @ lit ''). Render EVERY name in its Vietnamese H'' @ [225] @ lit ''n-Vi'' @ [7879]
        @ lit ''t form and EVERY honorific/title as a non-directed kinship/address word (c'' @ [244]
        @ lit '' / c'' @ [244] @ lit '' n'' @ [432, 417] @ lit ''ng / ti'' @ [7873] @ lit ''n b''
        @ [7889] @ lit ''i / tr'' @ [432, 7903] @ lit ''ng l'' @ [227] @ lit ''o / c'' @ [225]
        @ lit ''c h'' @ [7841] @ lit '' / '' @ [8230]
        @ lit ''). NEVER output an English honorific like '' @ [39] @ lit ''Miss/Mr/Elder + Name''
        @ [39] @ lit ''.''
      else if check = 12 then
        lit ''A prior attempt added an English-gloss parenthetical (e.g. '' @ [39] @ lit ''(Miss Mei''
        @ [92, 39] @ lit ''s brother)'' @ [39]
        @ lit ''). NEVER add parentheticals not in the source. Remove any English-gloss ''
        @ lit ''parenthetical from the output.''
      else [])"

section \<open>The review prompt\<close>

text \<open>An f-string prints an absent value as \<open>None\<close>.\<close>

definition printed :: "pystr option \<Rightarrow> pystr" where
  "printed v = (case v of None \<Rightarrow> lit ''None'' | Some t \<Rightarrow> t)"

definition review_head :: "pystr list" where
  "review_head =
    [lit ''[INSTRUCTIONS]'',
     lit ''You are a Vietnamese subtitle reviewer. Check each numbered line for Series Bible ''
     @ lit ''violations ONLY.'',
     [],
     lit ''Series Bible for this batch:'']"

definition review_register :: "series_bible \<Rightarrow> pystr" where
  "review_register bible =
     (let register = strip (or_empty (sr_register (sb_series bible))) in
      if register \<noteq> [] \<and> lower register \<noteq> lit ''neutral''
      then lit ''  - Register/tone: '' @ register
      else lit ''  - Register/tone: match the source tone; do NOT flatten a ''
           @ lit ''classical/historical/wuxia/xianxia/cultivation register into plain modern speech.'')"

definition review_pair :: "pronoun_map \<Rightarrow> char_pair option \<Rightarrow> pystr list" where
  "review_pair m dominant =
     (case (case dominant of None \<Rightarrow> None | Some p \<Rightarrow> map_of m p) of
        None \<Rightarrow> []
      | Some (self_t, addr_t) \<Rightarrow>
          [lit ''  - Pronoun pair (speaker'' @ [8594] @ lit ''addressee): speaker says '' @ [34] @ self_t
           @ [34] @ lit '', addresses as '' @ [34] @ addr_t @ [34]])"

definition relevant_terms :: "pystr list \<Rightarrow> term_row list \<Rightarrow> term_row list" where
  "relevant_terms source_texts ts =
     filter (\<lambda>t. contains (lower (tr_source t)) (lower (join_with [32] source_texts))) ts"

definition review_terms :: "pystr list \<Rightarrow> term_row list \<Rightarrow> pystr list" where
  "review_terms source_texts ts =
     map (\<lambda>t. lit ''  - Term: '' @ tr_source t @ ARROW @ printed (tr_rendering t)) (take 10 (relevant_terms source_texts ts))"

definition review_names :: "character_row list \<Rightarrow> pystr list" where
  "review_names cs =
     map (\<lambda>n. lit ''  - Name (render identically everywhere): '' @ n)
       (filter (\<lambda>n. n \<noteq> []) (map (\<lambda>c. strip (cr_name c)) (take 15 cs)))"

definition review_rules :: "pystr list" where
  "review_rules =
    [[],
     lit ''RULES:'',
     lit ''1. Output ONLY numbered lines [1], [2], ... [N] in order.'',
     lit ''2. Keep <<T0>>, <<T1>>, ... tokens EXACTLY as-is.'',
     lit ''3. Keep every <<BR>> marker EXACTLY where it is '' @ [8212]
     @ lit '' it stands for a line break inside the subtitle cue; never delete, add, translate, ''
     @ lit ''reorder, or split on them.'',
     lit ''4. Return each line VERBATIM unless it has a SPECIFIC Bible violation:'',
     lit ''   - Wrong pronoun: uses different first-person or second-person term than the Bible ''
     @ lit ''pair above.'',
     lit ''   - Wrong term: a proper noun/title/place from the Bible is not rendered as specified ''
     @ lit ''above.'',
     lit ''   - Wrong register: significantly more formal or informal than the series register.'',
     lit ''   - Wrong plural address (B4): a line addressing MORE THAN ONE person uses a gendered ''
     @ lit ''plural ('' @ [39] @ lit ''c'' @ [225] @ lit ''c c'' @ [244, 39] @ lit '' / '' @ [39]
     @ lit ''c'' @ [225] @ lit ''c c'' @ [7853] @ lit ''u'' @ [39] @ lit '' / '' @ [39] @ lit ''c''
     @ [225] @ lit ''c anh'' @ [39] @ lit '' / '' @ [39] @ lit ''c'' @ [225] @ lit ''c ch'' @ [7883, 39]
     @ lit '') for a mixed-gender group '' @ [8212] @ lit '' replace with a non-gendered plural (''
     @ [39] @ lit ''ch'' @ [432] @ lit '' v'' @ [7883, 39] @ lit '' / '' @ [39] @ lit ''c'' @ [225]
     @ lit ''c v'' @ [7883, 39] @ lit '' / '' @ [39] @ lit ''c'' @ [225] @ lit ''c ng'' @ [432, 417]
     @ lit ''i'' @ [39] @ lit '' for classical; '' @ [39] @ lit ''c'' @ [225] @ lit ''c b'' @ [7841]
     @ lit ''n'' @ [39] @ lit '' / '' @ [39] @ lit ''m'' @ [7885] @ lit ''i ng'' @ [432, 7901]
     @ lit ''i'' @ [39]
     @ lit '' for modern); if any addressee is male, never use a female-gendered term.'',
     lit ''5. Do NOT rephrase, '' @ [39] @ lit ''improve'' @ [39]
     @ lit '', or paraphrase lines that already comply.'',
     [],
     lit ''[LINES TO REVIEW]'']"

definition review_line :: "nat \<Rightarrow> pystr \<Rightarrow> pystr \<Rightarrow> pystr" where
  "review_line i src vi = lit ''['' @ dec i @ lit ''] (source: '' @ br_marked src @ lit '') '' @ br_marked vi"

definition review_lines :: "pystr list \<Rightarrow> pystr list \<Rightarrow> pystr list" where
  "review_lines srcs vis = map (\<lambda>(i, s, v). review_line i s v) (enumerate 1 (zip srcs vis))"

definition build_review_prompt ::
  "pystr list \<Rightarrow> pystr list \<Rightarrow> pronoun_map \<Rightarrow> series_bible \<Rightarrow> char_pair option \<Rightarrow> pystr" where
  "build_review_prompt source_texts translated_texts m bible dominant =
     join_with [10] (review_head @ [review_register bible] @ review_pair m dominant
       @ review_terms source_texts (sb_terms bible) @ review_names (sb_characters bible)
       @ review_rules @ review_lines source_texts translated_texts)"

section \<open>The builders in the place of the arguments\<close>

definition with_prompts :: "'e surroundings \<Rightarrow> 'e surroundings" where
  "with_prompts su = su\<lparr>
     su_prompt := \<lambda>h g r d ts before after.
       build_translate_prompt ts before after (lit ''English'') h g r (map_option REPAIR_DIRECTIVE d),
     su_review_prompt := \<lambda>m b dom srcs vis. build_review_prompt srcs vis m b dom\<rparr>"

end
