(* ===== verification/Prompt_Laws.thy ===== *)
theory Prompt_Laws
  imports Prompts
begin

text \<open>
  What the prompts promise: the rules are numbered without a gap, a model that echoes the
  numbered lines gives the texts back (line breaks, hints and review notes included), and where
  the prompts fall short of that.
\<close>

section \<open>Line breaks as tokens\<close>

definition encode_breaks :: "pystr \<Rightarrow> pystr" where
  "encode_breaks t = concat (map (\<lambda>c. if c = 10 then BR_TOKEN else [c]) t)"

lemma encode_simps [simp]:
  "encode_breaks [] = []"
  "encode_breaks (c # t) = (if c = 10 then BR_TOKEN else [c]) @ encode_breaks t"
  "encode_breaks (s @ t) = encode_breaks s @ encode_breaks t"
  by (simp_all add: encode_breaks_def)

lemma encode_plain: "10 \<notin> set t \<Longrightarrow> encode_breaks t = t"
  by (induction t) auto

lemma replace_all_char: "replace_all [d] r s = concat (map (\<lambda>c. if c = d then r else [c]) s)"
proof (induction s)
  case (Cons c s)
  then show ?case by (subst replace_all.simps) auto
qed (subst replace_all.simps, simp)

lemma br_marked_eq: "br_marked t = encode_breaks (strip t)"
  by (simp add: br_marked_def encode_breaks_def replace_all_char)

lemma br_token_chars: "c \<in> set BR_TOKEN \<longleftrightarrow> c \<in> {60, 66, 82, 62}"
  by (auto simp: BR_TOKEN_def lit_def)

lemma encode_chars: "c \<in> set (encode_breaks t) \<Longrightarrow> c \<in> {60, 66, 82, 62} \<or> (c \<in> set t \<and> c \<noteq> 10)"
  by (induction t) (auto simp: br_token_chars split: if_splits)

lemma encode_no_break: "10 \<notin> set (encode_breaks t)"
  using encode_chars by fastforce

text \<open>A word of the token pattern.\<close>

lemma rxm_br: "rxm BR_RE l w t \<longleftrightarrow>
    (\<exists>x y. w = [60, 60] @ x @ [66, 82] @ y @ [62, 62] \<and> (\<forall>c \<in> set x \<union> set y. is_space c))"
proof
  assume "rxm BR_RE l w t"
  then obtain x y where "w = [60, 60] @ x @ [66, 82] @ y @ [62, 62]" "\<forall>c \<in> set x. is_space c" "\<forall>c \<in> set y. is_space c"
    unfolding BR_RE_def rxm_seq rspaces_def rxm_rstr rxm_star_cls lit_def by auto
  then show "\<exists>x y. w = [60, 60] @ x @ [66, 82] @ y @ [62, 62] \<and> (\<forall>c \<in> set x \<union> set y. is_space c)" by blast
next
  assume "\<exists>x y. w = [60, 60] @ x @ [66, 82] @ y @ [62, 62] \<and> (\<forall>c \<in> set x \<union> set y. is_space c)"
  then obtain x y where w: "w = [60, 60] @ x @ [66, 82] @ y @ [62, 62]" "\<forall>c \<in> set x. is_space c" "\<forall>c \<in> set y. is_space c"
    by blast
  show "rxm BR_RE l w t"
    unfolding w(1) BR_RE_def rspaces_def
    by (intro rxm.seq) (use w(2,3) in \<open>simp_all add: lit_def\<close>)
qed

text \<open>What the tokens stand for comes back: no token can be read across a character of the text.\<close>

lemma encode_read: "encode_breaks t = u @ v \<Longrightarrow> 60 \<notin> set u \<Longrightarrow> \<exists>t'. t = u @ t' \<and> encode_breaks t' = v"
proof (induction u arbitrary: t)
  case (Cons c u)
  then obtain d t' where t: "t = d # t'" by (cases t) auto
  with Cons.prems have d: "d = c" "encode_breaks t' = u @ v" by (auto simp: BR_TOKEN_def lit_def split: if_splits)
  from Cons.IH[OF d(2)] Cons.prems(2) t d(1) show ?case by auto
qed simp

lemma no_token_starts:
  assumes "c \<noteq> 10" and "\<nexists>w b. c # t = w @ b \<and> rxm BR_RE [] w b"
  shows "first_match BR_RE l (c # encode_breaks t) = None"
proof (rule ccontr)
  assume "first_match BR_RE l (c # encode_breaks t) \<noteq> None"
  then obtain w b where w: "c # encode_breaks t = w @ b" "rxm BR_RE l w b" by (auto simp: first_match_None)
  then obtain x y where x: "w = [60, 60] @ x @ [66, 82] @ y @ [62, 62]" "\<forall>c \<in> set x \<union> set y. is_space c"
    by (auto simp: rxm_br)
  with w(1) have e: "c = 60" "encode_breaks t = 60 # (x @ [66, 82] @ y @ [62, 62]) @ b" by auto
  have s: "60 \<notin> set (x @ [66, 82] @ y @ [62, 62])" 
  proof -
    have "\<not> is_space 60" by (simp add: ascii_eval)
    with x(2) show ?thesis by auto
  qed
  obtain d t1 where t: "t = d # t1" using e(2) by (cases t) auto
  have "d \<noteq> 10"
  proof
    assume "d = 10"
    with e(2) t have "60 # 66 # 82 # 62 # 62 # encode_breaks t1 = (x @ [66, 82] @ y @ [62, 62]) @ b"
      by (simp add: BR_TOKEN_def lit_def)
    moreover have "hd ((x @ [66, 82] @ y @ [62, 62]) @ b) \<noteq> 60" using s by (cases x) auto
    ultimately show False by (metis list.sel(1))
  qed
  with e(2) t have d: "d = 60" "encode_breaks t1 = (x @ [66, 82] @ y @ [62, 62]) @ b" by auto
  from encode_read[OF d(2) s] obtain t2 where "t1 = (x @ [66, 82] @ y @ [62, 62]) @ t2" by blast
  with t d(1) e(1) x have "c # t = w @ t2" by simp
  moreover have "rxm BR_RE [] w t2" using x by (auto simp: rxm_br)
  ultimately show False using assms(2) by blast
qed


definition put_back :: "pystr \<Rightarrow> (pystr \<times> pystr \<times> caps) list \<times> pystr \<Rightarrow> pystr" where
  "put_back by p = concat (map (\<lambda>(gap, m, g). gap @ by) (fst p)) @ snd p"

lemma re_sub_put_back: "re_sub r by s = put_back by (pieces_from r [] [] s)"
  by (simp add: re_sub_def put_back_def re_pieces_def)

lemma hd_match_rstr: "hd_match (rstr w) l (w @ s) g (rev w @ l, s, g)"
proof (induction w arbitrary: l)
  case (Cons c w)
  have "hd_match (RSeq (rchr c) (rstr w)) l (c # (w @ s)) g (rev w @ c # l, s, g)"
    by (rule hd_match_seq[OF hd_match_chr Cons])
  then show ?case by (simp add: rstr_def)
qed (simp add: rstr_def hd_match_def)

lemma hd_match_first: "hd_match r l s [] x \<Longrightarrow> first_match r l s = Some x"
  by (auto simp: hd_match_def first_match_def)

lemma hd_match_no_spaces: "s = [] \<or> \<not> is_space (hd s) \<Longrightarrow> hd_match rspaces l s g (l, s, g)"
  using hd_match_star_cls[of "[]" is_space s l g] by (simp add: rspaces_def)

lemma token_match: "first_match BR_RE l (BR_TOKEN @ s) = Some (rev BR_TOKEN @ l, s, [])"
proof -
  have a: "hd_match (rstr (lit ''<<'')) l ([60, 60] @ [66, 82] @ [62, 62] @ s) [] ([60, 60] @ l, [66, 82] @ [62, 62] @ s, [])"
    using hd_match_rstr[of "[60, 60]" l "[66, 82] @ [62, 62] @ s" "[]"] by (simp add: lit_def)
  have b: "hd_match rspaces ([60, 60] @ l) ([66, 82] @ [62, 62] @ s) [] ([60, 60] @ l, [66, 82] @ [62, 62] @ s, [])"
    by (rule hd_match_no_spaces) (simp add: ascii_eval)
  have c: "hd_match (rstr (lit ''BR'')) ([60, 60] @ l) ([66, 82] @ [62, 62] @ s) [] ([82, 66, 60, 60] @ l, [62, 62] @ s, [])"
    using hd_match_rstr[of "[66, 82]" "[60, 60] @ l" "[62, 62] @ s" "[]"] by (simp add: lit_def)
  have d: "hd_match rspaces ([82, 66, 60, 60] @ l) ([62, 62] @ s) [] ([82, 66, 60, 60] @ l, [62, 62] @ s, [])"
    by (rule hd_match_no_spaces) (simp add: ascii_eval)
  have e: "hd_match (rstr (lit ''>>'')) ([82, 66, 60, 60] @ l) ([62, 62] @ s) [] ([62, 62, 82, 66, 60, 60] @ l, s, [])"
    using hd_match_rstr[of "[62, 62]" "[82, 66, 60, 60] @ l" s "[]"] by (simp add: lit_def)
  have "hd_match BR_RE l (BR_TOKEN @ s) [] (rev BR_TOKEN @ l, s, [])"
    unfolding BR_RE_def using a b c d e by (auto intro!: hd_match_seq simp: BR_TOKEN_def lit_def)
  then show ?thesis by (rule hd_match_first)
qed

lemma decode_from:
  assumes "\<And>a w b. t = a @ w @ b \<Longrightarrow> \<not> rxm BR_RE [] w b"
  shows "put_back [10] (pieces_from BR_RE l gap (encode_breaks t)) = rev gap @ t"
  using assms
proof (induction t arbitrary: l gap)
  case (Cons c t)
  have t: "\<not> rxm BR_RE [] w b" if "t = a @ w @ b" for a w b using Cons.prems[of "c # a" w b] that by simp
  show ?case
  proof (cases "c = 10")
    case True
    have "pieces_from BR_RE l gap (BR_TOKEN @ encode_breaks t) =
        ((rev gap, BR_TOKEN, []) # fst (pieces_from BR_RE (rev BR_TOKEN @ l) [] (encode_breaks t)),
         snd (pieces_from BR_RE (rev BR_TOKEN @ l) [] (encode_breaks t)))"
      by (subst pieces_from_hit[OF token_match]) (simp_all add: BR_TOKEN_def lit_def)
    with True Cons.IH[OF t, where l = "rev BR_TOKEN @ l" and gap = "[]"] show ?thesis by (simp add: put_back_def)
  next
    case False
    have "\<nexists>w b. c # t = w @ b \<and> rxm BR_RE [] w b" using Cons.prems[of "[]"] by auto
    from no_token_starts[OF False this] False Cons.IH[OF t, where l = "c # l" and gap = "c # gap"]
    show ?thesis by (simp add: pieces_from_skip)
  qed
qed (simp add: put_back_def)

lemma found_br: "found BR_RE t \<longleftrightarrow> (\<exists>a w b. t = a @ w @ b \<and> rxm BR_RE [] w b)"
  by (simp add: found_iff rxm_br)

lemma breaks_restored: "\<not> found BR_RE t \<Longrightarrow> restore_breaks (encode_breaks t) = t"
proof -
  assume t: "\<not> found BR_RE t"
  have "\<not> found (RSeq BR_RE (RSeq rblanks (rchr 10))) (encode_breaks t)"
    "\<not> found (RSeq (rchr 10) (RSeq rblanks BR_RE)) (encode_breaks t)"
    using encode_no_break[of t] by (auto simp: found_iff rxm_seq dest!: arg_cong[where f = set])
  then have "restore_breaks (encode_breaks t) = re_sub BR_RE [10] (encode_breaks t)"
    by (simp add: restore_breaks_def re_sub_none)
  also have "\<dots> = t"
    unfolding re_sub_put_back using decode_from[of t "[]" "[]"] t found_br by auto
  finally show ?thesis .
qed

text \<open>A token lies on one side of any character that is in none.\<close>

lemma found_br_split:
  assumes "found BR_RE (s @ [c] @ t)" and "c \<notin> {60, 62, 66, 82}" and "\<not> is_space c"
  shows "found BR_RE s \<or> found BR_RE t"
proof -
  from assms(1) obtain a w b where w: "s @ [c] @ t = a @ w @ b" "rxm BR_RE [] w b" by (auto simp: found_br)
  then have c: "c \<notin> set w" using assms(2,3) by (auto simp: rxm_br)
  have r: "rxm BR_RE [] w b'" for b' using w(2) by (simp add: rxm_br)
  from w(1) consider u where "s = a @ u" "u @ [c] @ t = w @ b" | u where "a = s @ u" "[c] @ t = u @ w @ b" "u \<noteq> []"
    by (auto simp: append_eq_append_conv2) (metis append_Nil append_Nil2)+
  then show ?thesis
  proof cases
    case 1
    with c obtain v where "u = w @ v" by (auto simp: append_eq_append_conv2 Cons_eq_append_conv)
    with 1 r show ?thesis by (auto simp: found_br)
  next
    case 2
    then obtain u' where "u = c # u'" by (cases u) auto
    with 2 have "t = u' @ w @ b" by simp
    with r have "found BR_RE t" unfolding found_br by blast
    then show ?thesis ..
  qed
qed


lemma found_br_prefix: "found BR_RE (p @ u) \<Longrightarrow> 60 \<notin> set p \<Longrightarrow> found BR_RE u"
proof -
  assume p: "60 \<notin> set p"
  assume "found BR_RE (p @ u)"
  then obtain a w b where w: "p @ u = a @ w @ b" "rxm BR_RE [] w b" by (auto simp: found_br)
  then obtain v where v: "w = 60 # v" by (auto simp: rxm_br)
  from w(1) v p obtain a' where "u = a' @ w @ b"
    by (auto simp: append_eq_append_conv2 append_eq_Cons_conv)
  with w(2) show "found BR_RE u" by (auto simp: found_br)
qed

section \<open>Echoed hints\<close>

definition hint_note :: "pystr \<Rightarrow> pystr \<Rightarrow> pystr" where
  "hint_note x y = lit ''(speaker says: '' @ x @ lit ''; addresses as: '' @ y @ lit '') ''"

lemma hd_match_ristr: "\<forall>c \<in> set w. ci_eq c c \<Longrightarrow> hd_match (ristr w) l (w @ s) g (rev w @ l, s, g)"
proof (induction w arbitrary: l)
  case (Cons c w)
  have "hd_match (RCls (ci_eq c)) l (c # (w @ s)) g (c # l, w @ s, g)"
    using Cons.prems by (simp add: hd_match_def)
  from hd_match_seq[OF this Cons.IH] Cons.prems
  have "hd_match (RSeq (RCls (ci_eq c)) (ristr w)) l (c # (w @ s)) g (rev w @ c # l, s, g)" by simp
  then show ?case by (simp add: ristr_def)
qed (simp add: ristr_def hd_match_def)

lemma hd_match_bos: "hd_match rbos [] s g ([], s, g)"
  by (simp add: hd_match_def rbos_def)

lemma hd_match_spaces: "\<forall>c \<in> set w. is_space c \<Longrightarrow> s = [] \<or> \<not> is_space (hd s) \<Longrightarrow>
    hd_match rspaces l (w @ s) g (rev w @ l, s, g)"
  using hd_match_star_cls[of w is_space s l g] by (simp add: rspaces_def)

lemma hd_match_spaces1: "w \<noteq> [] \<Longrightarrow> \<forall>c \<in> set w. is_space c \<Longrightarrow> s = [] \<or> \<not> is_space (hd s) \<Longrightarrow>
    hd_match rspaces1 l (w @ s) g (rev w @ l, s, g)"
  using hd_match_plus_cls[of w is_space s l g] by (simp add: rspaces1_def)

lemma ci_eq_ascii: "97 \<le> c \<Longrightarrow> c < 123 \<Longrightarrow> ci_eq c c"
  by (simp add: ci_eq_def sre_lower_def lower_char_ascii Let_def)

text \<open>A pattern anchored at the start matches nowhere else.\<close>

lemma anchored_rest: "l \<noteq> [] \<Longrightarrow> pieces_from (RSeq rbos r) l gap s = ([], rev gap @ s)"
  by (rule pieces_from_none) (auto simp: rxm_seq rbos_def)

lemma hint_match:
  assumes "41 \<notin> set b" and "u = [] \<or> \<not> is_space (hd u)"
  shows "first_match LEAKED_HINT_RE [] (lit ''(speaker says:'' @ b @ [41, 32] @ u) =
    Some ([32, 41] @ rev b @ rev (lit ''(speaker says:''), u, [])"
proof -
  let ?w1 = "[115, 112, 101, 97, 107, 101, 114] :: pystr" and ?w2 = "[115, 97, 121, 115] :: pystr"
  let ?s3 = "58 # b @ [41] @ [32] @ u"
  let ?l1 = "rev ?w1 @ [40]" let ?l2 = "rev ?w2 @ 32 # ?l1"
  have sp: "is_space 32" "\<not> is_space 40" "\<not> is_space 115" "\<not> is_space 58" by (simp_all add: ascii_eval)
  have a: "hd_match rspaces [] (40 # ?w1 @ [32] @ ?w2 @ ?s3) [] ([], 40 # ?w1 @ [32] @ ?w2 @ ?s3, [])"
    by (rule hd_match_no_spaces) (simp add: sp)
  have c: "hd_match rspaces [40] (?w1 @ [32] @ ?w2 @ ?s3) [] ([40], ?w1 @ [32] @ ?w2 @ ?s3, [])"
    by (rule hd_match_no_spaces) (simp add: sp)
  have d: "hd_match (ristr (lit ''speaker'')) [40] (?w1 @ [32] @ ?w2 @ ?s3) [] (?l1, [32] @ ?w2 @ ?s3, [])"
    using hd_match_ristr[of ?w1 "[40]" "[32] @ ?w2 @ ?s3" "[]"] by (simp add: lit_def ci_eq_ascii)
  have e: "hd_match rspaces1 ?l1 ([32] @ ?w2 @ ?s3) [] (32 # ?l1, ?w2 @ ?s3, [])"
    using hd_match_spaces1[of "[32]" "?w2 @ ?s3" ?l1 "[]"] by (simp add: sp)
  have f: "hd_match (ristr (lit ''says'')) (32 # ?l1) (?w2 @ ?s3) [] (?l2, ?s3, [])"
    using hd_match_ristr[of ?w2 "32 # ?l1" ?s3 "[]"] by (simp add: lit_def ci_eq_ascii)
  have g: "hd_match rspaces ?l2 ?s3 [] (?l2, ?s3, [])"
    by (rule hd_match_no_spaces) (simp add: sp)
  have h: "hd_match (RStar (RCls (\<lambda>c. c \<noteq> 41))) (58 # ?l2) (b @ [41] @ [32] @ u) [] (rev b @ 58 # ?l2, [41] @ [32] @ u, [])"
    by (rule hd_match_star_cls) (use assms(1) in auto)
  have i: "hd_match rspaces (41 # rev b @ 58 # ?l2) ([32] @ u) [] ([32] @ 41 # rev b @ 58 # ?l2, u, [])"
    using hd_match_spaces[of "[32]" u "41 # rev b @ 58 # ?l2" "[]"] assms(2) sp by simp
  have "hd_match LEAKED_HINT_RE [] (40 # ?w1 @ [32] @ ?w2 @ ?s3) [] ([32] @ 41 # rev b @ 58 # ?l2, u, [])"
    unfolding LEAKED_HINT_RE_def
    by (rule hd_match_seq[OF hd_match_bos hd_match_seq[OF a hd_match_seq[OF hd_match_chr hd_match_seq[OF c
         hd_match_seq[OF d hd_match_seq[OF e hd_match_seq[OF f hd_match_seq[OF g hd_match_seq[OF hd_match_chr
         hd_match_seq[OF h]]]]]]]]]])
       (use hd_match_seq[OF hd_match_chr i] in simp)
  from hd_match_first[OF this] show ?thesis by (simp add: lit_def)
qed

lemma hint_stripped:
  assumes "41 \<notin> set x \<union> set y" and "u = [] \<or> \<not> is_space (hd u)"
  shows "re_sub LEAKED_HINT_RE [] (hint_note x y @ u) = u"
proof -
  let ?b = "32 # x @ lit ''; addresses as: '' @ y"
  have n: "hint_note x y @ u = lit ''(speaker says:'' @ ?b @ [41, 32] @ u"
    by (simp add: hint_note_def lit_def)
  have "41 \<notin> set ?b" using assms(1) by (auto simp: lit_def)
  note m = hint_match[OF this assms(2)]
  have "pieces_from LEAKED_HINT_RE ([32, 41] @ rev ?b @ rev (lit ''(speaker says:'')) [] u = ([], u)"
    unfolding LEAKED_HINT_RE_def by (subst anchored_rest) simp_all
  with pieces_from_hit[OF m, of "[]"] show ?thesis
    unfolding re_sub_put_back n by (simp add: put_back_def)
qed


section \<open>Echoed lines\<close>

text \<open>A text whose lines break only at line feeds and that no clean-up of the reply changes.\<close>

definition echo_safe :: "pystr \<Rightarrow> bool" where
  "echo_safe t \<longleftrightarrow> (let u = strip t in
     u \<noteq> [] \<and> (\<forall>c \<in> set u. line_break c \<longrightarrow> c = 10) \<and> \<not> found BR_RE u
     \<and> \<not> found LEAKED_HINT_RE u \<and> \<not> found LEAKED_VN_HINT_RE u \<and> \<not> found LEAKED_DIRECTIVE_RE u)"

text \<open>A term of address that fits on the line, without the characters of the note around it.\<close>

definition plain_term :: "pystr \<Rightarrow> bool" where
  "plain_term x \<longleftrightarrow> (\<forall>c \<in> set x. \<not> line_break c \<and> c \<noteq> 41 \<and> c \<noteq> 60)"

definition plain_hints :: "hints option \<Rightarrow> bool" where
  "plain_hints hints \<longleftrightarrow> (\<forall>(i, x, y) \<in> set (or_nil hints). plain_term x \<and> plain_term y)"

definition hint_prefix :: "hints option \<Rightarrow> nat \<Rightarrow> pystr" where
  "hint_prefix hints i = (case map_of (or_nil hints) i of Some (x, y) \<Rightarrow> hint_note x y | None \<Rightarrow> [])"

lemma prompt_line_eq: "prompt_line hints i t = numbered_line i (hint_prefix hints i @ br_marked t)"
  by (cases hints) (auto simp: prompt_line_def hint_prefix_def hint_note_def numbered_line_def or_nil_def lit_def split: option.splits)

lemma dropWhile_ends: "dropWhile p xs = [] \<or> (\<not> p (hd (dropWhile p xs)) \<and> last (dropWhile p xs) = last xs)"
  by (induction xs) auto

lemma strip_hd: "strip t \<noteq> [] \<Longrightarrow> \<not> is_space (hd (strip t))"
proof -
  assume ne: "strip t \<noteq> []"
  let ?r = "dropWhile is_space (rev (lstrip t))"
  have r: "strip t = rev ?r" by (simp add: strip_def rstrip_def)
  with ne have "?r \<noteq> []" by auto
  then have "last ?r = last (rev (lstrip t))" and "lstrip t \<noteq> []"
    using dropWhile_ends[of is_space "rev (lstrip t)"] by auto
  then have "hd (strip t) = hd (lstrip t)" using \<open>?r \<noteq> []\<close> by (simp add: r hd_rev last_rev)
  with dropWhile_ends[of is_space t] \<open>lstrip t \<noteq> []\<close> show ?thesis by (auto simp: lstrip_def)
qed

lemma strip_last: "strip t \<noteq> [] \<Longrightarrow> \<not> is_space (last (strip t))"
  using dropWhile_ends[of is_space "rev (lstrip t)"] by (auto simp: strip_def rstrip_def last_rev)

lemma encode_hd: "t \<noteq> [] \<Longrightarrow> hd t \<noteq> 10 \<Longrightarrow> hd (encode_breaks t) = hd t"
  by (cases t) auto

lemma encode_last: "t \<noteq> [] \<Longrightarrow> last t \<noteq> 10 \<Longrightarrow> encode_breaks t \<noteq> [] \<and> last (encode_breaks t) = last t"
  by (cases t rule: rev_cases) auto

lemma encode_line:
  assumes "t \<noteq> []" and "\<not> is_space (hd t)" and "\<not> is_space (last t)" and "\<forall>c \<in> set t. line_break c \<longrightarrow> c = 10"
  shows "line_text (encode_breaks t)"
proof -
  have s: "is_space 10" by (simp add: ascii_eval)
  with assms have "hd t \<noteq> 10" "last t \<noteq> 10" by auto
  with assms(1) have e: "hd (encode_breaks t) = hd t" "encode_breaks t \<noteq> []" "last (encode_breaks t) = last t"
    by (simp_all add: encode_hd encode_last)
  have "\<not> line_break c" if "c \<in> set (encode_breaks t)" for c
  proof -
    have "\<not> line_break 60" "\<not> line_break 66" "\<not> line_break 82" "\<not> line_break 62" by (simp_all add: line_break_def)
    with encode_chars[OF that] assms(4) show ?thesis by blast
  qed
  with e assms(2,3) show ?thesis by (simp add: line_text_def)
qed

lemma hint_note_chars:
  assumes "c \<in> set (hint_note x y)" and "plain_term x" and "plain_term y"
  shows "\<not> line_break c \<and> c \<noteq> 60"
proof -
  have "\<forall>c \<in> set (lit ''(speaker says: '') \<union> set (lit ''; addresses as: '') \<union> set (lit '') ''). \<not> line_break c \<and> c \<noteq> 60"
    by (simp add: lit_def line_break_def)
  with assms show ?thesis unfolding hint_note_def plain_term_def by (simp only: set_append Un_iff) blast
qed

lemma echoed_line:
  assumes "echo_safe t" and "p = [] \<or> (\<exists>x y. p = hint_note x y \<and> plain_term x \<and> plain_term y)"
  shows "line_text (p @ br_marked t)" and "finish_text (p @ br_marked t) = strip t"
proof -
  let ?u = "strip t"
  have u: "?u \<noteq> []" "\<not> is_space (hd ?u)" "\<not> is_space (last ?u)" "\<forall>c \<in> set ?u. line_break c \<longrightarrow> c = 10"
    using assms(1) strip_hd strip_last by (auto simp: echo_safe_def Let_def)
  have p: "\<not> line_break c \<and> c \<noteq> 60" if "c \<in> set p" for c
    using assms(2) that hint_note_chars by fastforce
  then have "10 \<notin> set p" by (auto simp: line_break_def)
  then have e: "p @ br_marked t = encode_breaks (p @ ?u)" by (simp add: br_marked_eq encode_plain)
  have h: "\<not> is_space (hd (p @ ?u))" using assms(2) u(2) by (auto simp: hint_note_def lit_def ascii_eval)
  show "line_text (p @ br_marked t)"
    unfolding e using u h p by (intro encode_line) (auto simp: last_append)
  have "\<not> found BR_RE (p @ ?u)" using found_br_prefix[of p ?u] p assms(1) by (auto simp: echo_safe_def Let_def)
  then have r: "restore_breaks (p @ br_marked t) = p @ ?u" unfolding e by (rule breaks_restored)
  have "re_sub LEAKED_HINT_RE [] (p @ ?u) = ?u"
  proof (cases "p = []")
    case True
    with assms(1) show ?thesis by (simp add: re_sub_none echo_safe_def Let_def)
  next
    case False
    with assms(2) obtain x y where "p = hint_note x y" "plain_term x" "plain_term y" by blast
    with hint_stripped[of x y ?u] u(2) show ?thesis by (auto simp: plain_term_def)
  qed
  with assms(1) show "finish_text (p @ br_marked t) = ?u"
    by (simp add: finish_text_def strip_echoes_def r re_sub_none echo_safe_def Let_def)
qed

definition line_texts :: "hints option \<Rightarrow> nat \<Rightarrow> pystr list \<Rightarrow> pystr list" where
  "line_texts hints k ts = map (\<lambda>(i, t). hint_prefix hints i @ br_marked t) (enumerate k ts)"

lemma prompt_lines_from:
  "map (\<lambda>(i, t). prompt_line hints i t) (enumerate k ts) = map (\<lambda>(i, t). numbered_line i t) (enumerate k (line_texts hints k ts))"
  by (induction ts arbitrary: k) (simp_all add: line_texts_def prompt_line_eq)

lemma prompt_lines_reply: "join_with [10] (prompt_lines hints ts) = numbered_reply (line_texts hints 1 ts)"
  by (simp add: prompt_lines_def numbered_reply_def prompt_lines_from)

lemma hint_prefix_plain:
  assumes "plain_hints hints"
  shows "hint_prefix hints i = [] \<or> (\<exists>x y. hint_prefix hints i = hint_note x y \<and> plain_term x \<and> plain_term y)"
proof (cases "map_of (or_nil hints) i")
  case (Some v)
  from map_of_SomeD[OF this] assms show ?thesis by (cases v) (auto simp: plain_hints_def hint_prefix_def Some)
qed (simp add: hint_prefix_def)

lemma line_texts_read:
  "plain_hints hints \<Longrightarrow> \<forall>t \<in> set ts. echo_safe t \<Longrightarrow> map finish_text (line_texts hints k ts) = map strip ts"
  by (induction ts arbitrary: k) (simp_all add: line_texts_def echoed_line(2) hint_prefix_plain)

lemma line_texts_lines:
  assumes "plain_hints hints" and "\<forall>t \<in> set ts. echo_safe t" and "x \<in> set (line_texts hints k ts)"
  shows "line_text x \<and> strip (finish_text x) \<noteq> []"
proof -
  from assms(3) obtain i t where x: "x = hint_prefix hints i @ br_marked t" "t \<in> set ts"
    by (auto simp: line_texts_def in_set_enumerate_eq)
  with assms(2) have t: "echo_safe t" by blast
  with echoed_line[OF t hint_prefix_plain[OF assms(1)]] x(1) show ?thesis
    by (simp add: strip_strip echo_safe_def Let_def)
qed

lemma echo_parsed:
  assumes "plain_hints hints" and "\<forall>t \<in> set ts. echo_safe t" and "ts \<noteq> []" and "length (dec (length ts)) \<le> 4300"
  shows "parse_numbered_response (join_with [10] (prompt_lines hints ts)) (length ts) ml = Inr (map strip ts)"
proof -
  let ?us = "line_texts hints 1 ts"
  have n: "length ?us = length ts" by (simp add: line_texts_def)
  with assms(3) have ne: "?us \<noteq> []" by (metis length_0_conv)
  have "\<forall>x \<in> set ?us. line_text x \<and> strip (finish_text x) \<noteq> []" using line_texts_lines[OF assms(1,2)] by blast
  from parse_numbered_lines[OF this, of ml] n ne assms(4) line_texts_read[OF assms(1,2)]
  show ?thesis by (simp add: prompt_lines_reply)
qed


section \<open>Echoed reviews\<close>

definition source_note :: "pystr \<Rightarrow> pystr" where
  "source_note src = lit ''(source: '' @ strip src @ lit '') ''"

text \<open>A pair of texts whose review line reads back as that line.\<close>

definition review_safe :: "pystr \<Rightarrow> pystr \<Rightarrow> bool" where
  "review_safe src vi \<longleftrightarrow> strip vi \<noteq> []
     \<and> (\<forall>c \<in> set (strip src) \<union> set (strip vi). line_break c \<longrightarrow> c = 10)
     \<and> \<not> found BR_RE (strip src) \<and> \<not> found BR_RE (strip vi) \<and> \<not> found LEAKED_VN_HINT_RE (source_note src @ strip vi)"

definition review_text :: "pystr \<Rightarrow> pystr \<Rightarrow> pystr" where
  "review_text src vi = encode_breaks (source_note src @ strip vi)"

lemma review_line_eq: "review_line i src vi = numbered_line i (review_text src vi)"
  by (simp add: review_line_def numbered_line_def review_text_def source_note_def br_marked_eq encode_plain lit_def)

lemma review_lines_from:
  "map (\<lambda>(i, s, v). review_line i s v) (enumerate k (zip srcs vis))
     = map (\<lambda>(i, t). numbered_line i t) (enumerate k (map2 review_text srcs vis))"
  by (induction srcs vis arbitrary: k rule: list_induct2') (simp_all add: review_line_eq)

lemma review_lines_reply: "join_with [10] (review_lines srcs vis) = numbered_reply (map2 review_text srcs vis)"
  by (simp add: review_lines_def numbered_reply_def review_lines_from)

lemma review_no_token:
  assumes "review_safe src vi"
  shows "\<not> found BR_RE (source_note src @ strip vi)"
proof
  let ?h = "lit ''(source: ''"
  assume f: "found BR_RE (source_note src @ strip vi)"
  have "source_note src @ strip vi = (?h @ strip src) @ [41] @ 32 # strip vi" by (simp add: source_note_def lit_def)
  with f have "found BR_RE (?h @ strip src) \<or> found BR_RE (32 # strip vi)"
    using found_br_split[of "?h @ strip src" 41 "32 # strip vi"] by (simp add: ascii_eval)
  then have "found BR_RE (strip src) \<or> found BR_RE (strip vi)"
    using found_br_prefix[of ?h "strip src"] found_br_prefix[of "[32]" "strip vi"] by (auto simp: lit_def)
  with assms show False by (simp add: review_safe_def)
qed

lemma rxm_ristr: "rxm (ristr p) l w t \<longleftrightarrow> list_all2 ci_eq p w"
proof (induction p arbitrary: l w)
  case (Cons c p)
  have e: "ristr (c # p) = RSeq (RCls (ci_eq c)) (ristr p)" by (simp add: ristr_def)
  have "rxm (ristr (c # p)) l w t \<longleftrightarrow> (\<exists>d v. w = [d] @ v \<and> ci_eq c d \<and> rxm (ristr p) (rev [d] @ l) v t)"
    unfolding e rxm_seq rxm_cls by blast
  then show ?case by (auto simp: Cons.IH list_all2_Cons1)
qed (simp add: ristr_def)

lemma source_note_scaffold: "found REVIEW_SCAFFOLD_RE (source_note src @ t)"
proof -
  have "rxm REVIEW_SCAFFOLD_RE (rev []) ([40] @ [] @ lit ''source'' @ [] @ [58]) (32 # strip src @ lit '') '' @ t)"
    unfolding REVIEW_SCAFFOLD_RE_def
    by (intro rxm.seq) (simp_all add: rspaces_def rxm_ristr lit_def ci_eq_ascii)
  moreover have "source_note src @ t = [] @ ([40] @ [] @ lit ''source'' @ [] @ [58]) @ (32 # strip src @ lit '') '' @ t)"
    by (simp add: source_note_def lit_def)
  ultimately show ?thesis unfolding found_iff by blast
qed

lemma source_note_kept:
  "\<not> found LEAKED_HINT_RE (source_note src @ t)" "\<not> found LEAKED_DIRECTIVE_RE (source_note src @ t)"
proof -
  have "\<not> is_space 40" by (simp add: ascii_eval)
  then show "\<not> found LEAKED_DIRECTIVE_RE (source_note src @ t)"
    by (auto simp: found_iff LEAKED_DIRECTIVE_RE_def rxm_seq rbos_def rspaces_def source_note_def lit_def Cons_eq_append_conv)
  show "\<not> found LEAKED_HINT_RE (source_note src @ t)"
  proof
    assume "found LEAKED_HINT_RE (source_note src @ t)"
    then obtain x y z v b where e: "source_note src @ t = x @ [40] @ y @ z @ v @ b" and s: "\<forall>c \<in> set x. is_space c"
      "\<forall>c \<in> set y. is_space c" and z: "list_all2 ci_eq (lit ''speaker'') z"
      unfolding found_iff LEAKED_HINT_RE_def rxm_seq rspaces_def rbos_def rxm_chr rxm_star_cls rxm_asrt rxm_ristr
      by clarsimp
    from e s \<open>\<not> is_space 40\<close> have x: "x = []" by (cases x) (auto simp: source_note_def lit_def)
    have "\<not> is_space 115" by (simp add: ascii_eval)
    with e s x have y: "y = []" by (cases y) (auto simp: source_note_def lit_def)
    from z obtain p q r where "z = p # q # r" "ci_eq 112 q" by (auto simp: lit_def list_all2_Cons1)
    with e x y have "ci_eq 112 111" by (auto simp: source_note_def lit_def)
    then show False by (simp add: ci_eq_def sre_lower_def lower_char_ascii Let_def)
  qed
qed


lemma review_text_read:
  assumes "review_safe src vi"
  shows "line_text (review_text src vi)" and "finish_text (review_text src vi) = source_note src @ strip vi"
proof -
  let ?u = "source_note src @ strip vi"
  from assms have v: "strip vi \<noteq> []" "\<forall>c \<in> set (strip src) \<union> set (strip vi). line_break c \<longrightarrow> c = 10"
    by (simp_all add: review_safe_def)
  have "\<forall>c \<in> set (lit ''(source: '') \<union> set (lit '') ''). \<not> line_break c" by (simp add: lit_def line_break_def)
  with v(2) have "\<forall>c \<in> set ?u. line_break c \<longrightarrow> c = 10" unfolding source_note_def set_append by blast
  moreover have "\<not> is_space (hd ?u)" by (simp add: source_note_def lit_def ascii_eval)
  ultimately show "line_text (review_text src vi)"
    unfolding review_text_def using v(1) strip_last[OF v(1)] by (intro encode_line) simp_all
  have "restore_breaks (review_text src vi) = ?u"
    unfolding review_text_def by (rule breaks_restored[OF review_no_token[OF assms]])
  with assms show "finish_text (review_text src vi) = ?u"
    by (simp add: finish_text_def strip_echoes_def re_sub_none source_note_kept review_safe_def)
qed

lemma review_texts_rejected:
  "list_all2 review_safe srcs vis \<Longrightarrow> map2 reject_scaffolded_correction (map finish_text (map2 review_text srcs vis)) vis = vis"
  by (induction rule: list_all2_induct)
    (simp_all add: review_text_read(2) reject_scaffolded_correction_def source_note_scaffold)

lemma review_parsed:
  assumes "list_all2 review_safe srcs vis" and "vis \<noteq> []" and "length (dec (length vis)) \<le> 4300"
  shows "parse_numbered_response (join_with [10] (review_lines srcs vis)) (length vis) ml
    = Inr (map finish_text (map2 review_text srcs vis))"
proof -
  let ?us = "map2 review_text srcs vis"
  have n: "length ?us = length vis" using list_all2_lengthD[OF assms(1)] by simp
  with assms(2) have ne: "?us \<noteq> []" by (metis length_0_conv)
  have "line_text x \<and> strip (finish_text x) \<noteq> []" if "x \<in> set ?us" for x
  proof -
    from that obtain i where i: "i < length vis" "x = review_text (srcs ! i) (vis ! i)"
      using n by (auto simp: set_zip)
    with list_all2_nthD2[OF assms(1) i(1)] have "review_safe (srcs ! i) (vis ! i)" by simp
    from review_text_read[OF this] i(2) show ?thesis
      by (auto simp: strip_eq_Nil source_note_def lit_def ascii_eval)
  qed
  with parse_numbered_lines[of ?us ml] ne n assms(3) show ?thesis by (simp add: review_lines_reply)
qed

section \<open>Batches\<close>

definition cue_clean :: "sub_line \<Rightarrow> pystr" where
  "cue_clean c = fst (extract_sentinels (sl_text c))"

definition echo_of :: "hints option \<Rightarrow> batch \<Rightarrow> pystr" where
  "echo_of hints b = join_with [10] (prompt_lines hints (map cue_clean (batch_cues b)))"

lemma cues_restored:
  "\<forall>c \<in> set cs. \<not> found SENTINEL_RE (sl_text c) \<Longrightarrow>
     restore_all i (map cue_clean cs) (map (\<lambda>c. snd (extract_sentinels (sl_text c))) cs) = Inr (map sl_text cs)"
proof (induction cs arbitrary: i)
  case (Cons c cs)
  then have "reinsert_sentinels (cue_clean c) (snd (extract_sentinels (sl_text c))) = (sl_text c, True)"
    using tags_restored[of "sl_text c"] by (simp add: cue_clean_def case_prod_unfold Let_def)
  with Cons show ?case by simp
qed simp

section \<open>The rules\<close>

definition rules_so_far :: "nat \<times> pystr list \<Rightarrow> bool" where
  "rules_so_far st \<longleftrightarrow> length (snd st) = fst st + 1
     \<and> (\<forall>i < fst st - 1. starts_with (dec (Suc i) @ lit ''. '') (snd st ! (i + 2)))"

lemma starts_with_self: "starts_with p (p @ s)"
  by (simp add: starts_with_iff)

lemma rules_step: "rules_so_far st \<Longrightarrow> 1 \<le> fst st \<Longrightarrow> rules_so_far (rule_step fires t st)"
  using starts_with_self[of "dec (fst st) @ lit ''. ''" t]
  by (auto simp: rules_so_far_def rule_step_def nth_append less_Suc_eq_le) (metis le_antisym not_less_eq_eq less_eq_Suc_le)+

lemma rule_step_fst: "fst (rule_step fires t st) = fst st + (if fires then 1 else 0)"
  by (simp add: rule_step_def)


lemma rules_head: "rules_so_far (4, prompt_head lang)"
proof -
  have d: "dec 1 = [49]" "dec 2 = [50]" "dec 3 = [51]" by (simp_all add: dec.simps)
  have "starts_with (dec (Suc i) @ lit ''. '') (prompt_head lang ! (i + 2))" if "i < 3" for i
  proof -
    from that consider "i = 0" | "i = 1" | "i = 2" by linarith
    then show ?thesis
      by cases (simp_all add: d[simplified] prompt_head_def lit_def numeral_2_eq_2[symmetric] numeral_3_eq_3[symmetric])
  qed
  then show ?thesis by (simp add: rules_so_far_def prompt_head_def)
qed

section \<open>Lines of the prompt\<close>

lemma join_append: "xs \<noteq> [] \<Longrightarrow> ys \<noteq> [] \<Longrightarrow> join_with d (xs @ ys) = join_with d xs @ d @ join_with d ys"
  by (induction d xs rule: join_with.induct) (auto simp: join_with_Cons_Cons)

lemma join_with_infix:
  assumes "xs \<noteq> []" and "ys \<noteq> []"
  shows "\<exists>pre post. join_with d (xs @ ys @ zs) = pre @ join_with d ys @ post"
proof (cases "zs = []")
  case True
  with assms join_append[OF assms, of d] show ?thesis by (metis append_Nil2 append_assoc)
next
  case False
  with assms have "join_with d (xs @ ys @ zs) = (join_with d xs @ d) @ join_with d ys @ (d @ join_with d zs)"
    by (simp add: join_append)
  then show ?thesis by blast
qed

lemma translate_prompt_split:
  "\<exists>pre post. build_translate_prompt ts before after lang hints glossary register directive
     = join_with [10] (pre @ prompt_lines hints ts @ post) \<and> pre \<noteq> []
     \<and> (before \<noteq> [] \<longrightarrow> set (context_lines before) \<subseteq> set pre) \<and> (after \<noteq> [] \<longrightarrow> set (context_lines after) \<subseteq> set post)"
proof (intro exI conjI)
  let ?pre = "translate_rules lang (or_nil glossary) register directive @ [[]] @ register_note register
    @ glossary_block (or_nil glossary) @ (if before = [] then [] else context_lines before @ [[]]) @ [lit ''[LINES TO TRANSLATE]'']"
  let ?post = "if after = [] then [] else [[]] @ context_lines after"
  show "build_translate_prompt ts before after lang hints glossary register directive = join_with [10] (?pre @ prompt_lines hints ts @ ?post)"
    by (simp add: build_translate_prompt_def)
qed auto

section \<open>Properties\<close>

text \<open>
  The rules of the translation prompt are numbered 1, 2, 3, ... without a gap, whichever of
  the optional rules (glossary, register, correction) are there; they follow the task and the
  heading.
\<close>

theorem rules_numbered:
  "(let rules = translate_rules lang glossary register directive in
     length rules = 9 + (if glossary = [] then 0 else 1) + (if truthy register then 1 else 0) + (if truthy directive then 1 else 0)
     \<and> list_all (\<lambda>i. starts_with (dec (Suc i) @ lit ''. '') (rules ! (i + 2))) [0..<length rules - 2])"
proof -
  let ?st = "rule_step (truthy directive) (lit ''[CORRECTION REQUIRED] '' @ or_empty directive)
       (rule_step True (unhinted_rule register) (rule_step True PLURAL_RULE (rule_step (truthy register) REGISTER_RULE
       (rule_step True BRACKET_RULE (rule_step (glossary \<noteq> []) GLOSSARY_RULE (rule_step True BREAK_RULE (4, prompt_head lang)))))))"
  have "rules_so_far ?st" by (intro rules_step rules_head) (simp_all add: rule_step_fst)
  moreover have "fst ?st = 8 + (if glossary = [] then 0 else 1) + (if truthy register then 1 else 0) + (if truthy directive then 1 else 0)"
    by (simp add: rule_step_fst)
  moreover have "translate_rules lang glossary register directive = snd ?st" by (simp add: translate_rules_def)
  ultimately show ?thesis by (simp add: rules_so_far_def Let_def list_all_iff)
qed

text \<open>
  The translation prompt and the reply parser agree: the numbered lines of the prompt, sent
  back as they are, parse to the texts that were to be translated. The line breaks of a cue come
  back from their tokens, and the hint at the start of a line is cut off, for texts that break
  only at line feeds and do not themselves look like a token or an instruction.
\<close>

theorem prompt_echo_read:
  assumes "plain_hints hints" and "list_all echo_safe ts" and "ts \<noteq> []" and "length (dec (length ts)) \<le> 4300"
  shows "\<exists>pre post. build_translate_prompt ts before after lang hints glossary register directive
       = pre @ join_with [10] (prompt_lines hints ts) @ post
     \<and> parse_numbered_response (join_with [10] (prompt_lines hints ts)) (length ts) ml = Inr (map strip ts)"
proof -
  obtain p q where "build_translate_prompt ts before after lang hints glossary register directive
      = join_with [10] (p @ prompt_lines hints ts @ q)" "p \<noteq> []" using translate_prompt_split by blast
  moreover have "prompt_lines hints ts \<noteq> []" using assms(3) by (cases ts) (auto simp: prompt_lines_def)
  moreover have "\<forall>t \<in> set ts. echo_safe t" using assms(2) by (simp add: list_all_iff)
  ultimately show ?thesis using join_with_infix[of p "prompt_lines hints ts" "[10]" q] echo_parsed[OF assms(1) _ assms(3,4)] by simp
qed

text \<open>Two lines and a hint.\<close>

definition two_line_cue :: pystr where
  "two_line_cue = lit ''ab'' @ [10] @ lit ''cd ''"

definition sample_hints :: "hints option" where
  "sample_hints = Some [(1, lit ''ta'', lit ''huynh'')]"

lemma echo_safeI:
  assumes "strip t \<noteq> []" and "\<forall>c \<in> set (strip t). (line_break c \<longrightarrow> c = 10) \<and> c \<notin> {40, 60, 91}"
  shows "echo_safe t"
proof -
  let ?u = "strip t"
  have n: "60 \<notin> set ?u" "40 \<notin> set ?u" "91 \<notin> set ?u" using assms(2) by blast+
  from n(1) have "\<not> found BR_RE ?u" by (auto simp: found_iff BR_RE_def rxm_seq lit_def)
  moreover from n(2) have "\<not> found LEAKED_HINT_RE ?u" by (auto simp: found_iff LEAKED_HINT_RE_def rxm_seq)
  moreover from n(3) have "\<not> found LEAKED_DIRECTIVE_RE ?u" by (auto simp: found_iff LEAKED_DIRECTIVE_RE_def rxm_seq)
  moreover from n(2,3) have "\<not> found LEAKED_VN_HINT_RE ?u"
    by (auto simp: found_iff LEAKED_VN_HINT_RE_def vn_hint_in_def rxm_seq)
  ultimately show ?thesis using assms by (auto simp: echo_safe_def Let_def)
qed

text \<open>The Vietnamese label has an x in it.\<close>

lemma no_label: "\<forall>c \<in> set t. \<not> ci_eq 120 c \<Longrightarrow> \<not> found LEAKED_VN_HINT_RE t"
  by (auto simp: found_iff LEAKED_VN_HINT_RE_def vn_hint_in_def rxm_seq rxm_ristr list_all2_Cons1)

lemma two_line_strip: "strip two_line_cue = lit ''ab'' @ [10] @ lit ''cd''"
  by (simp add: two_line_cue_def strip_def lstrip_def rstrip_def lit_def ascii_eval)

lemma two_line_safe: "echo_safe two_line_cue"
  by (rule echo_safeI) (simp_all add: two_line_strip lit_def line_break_def)

theorem prompt_echo_read_witness:
  "parse_numbered_response (join_with [10] (prompt_lines sample_hints [two_line_cue, two_line_cue])) 2 None
     = Inr [lit ''ab'' @ [10] @ lit ''cd'', lit ''ab'' @ [10] @ lit ''cd'']"
proof -
  have h: "plain_hints sample_hints"
    by (simp add: plain_hints_def sample_hints_def or_nil_def plain_term_def lit_def line_break_def)
  have l: "list_all echo_safe [two_line_cue, two_line_cue]" by (simp add: two_line_safe)
  from prompt_echo_read[OF h l, of "[]" "[]" "[]" None None None None] show ?thesis
    by (simp add: two_line_strip numeral_2_eq_2 dec.simps)
qed

text \<open>
  C26: The whole circle of one batch: tags taken out, the prompt of \<open>build_translate_prompt\<close>, its
  numbered lines echoed, the reply parsed, the hints cut off and the tags put back gives every
  cue of the batch as it was, in one call.
\<close>

theorem echoed_batch_kept:
  assumes "batch_cues b \<noteq> []" and "length (dec (length (batch_cues b))) \<le> 4300" and "plain_hints hints"
    and "list_all (\<lambda>c. \<not> found SENTINEL_RE (sl_text c) \<and> echo_safe (cue_clean c) \<and> strip (cue_clean c) = cue_clean c) (batch_cues b)"
  shows "let prompt_of = su_prompt (with_prompts su) hints glossary register check in
     (\<exists>pre post. batch_prompt prompt_of b = pre @ echo_of hints b @ post)
     \<and> translate_batch (\<lambda>k ms. Inr (echo_of hints b) :: 'e + pystr) rp prompt_of retries b
         = (Texts (map sl_text (batch_cues b)), [[(User, batch_prompt prompt_of b)]])"
proof -
  let ?p = "su_prompt (with_prompts su) hints glossary register check" and ?e = "echo_of hints b"
  let ?cs = "batch_cues b"
  have safe: "\<forall>t \<in> set (map cue_clean ?cs). echo_safe t" using assms(4) by (simp add: list_all_iff)
  have kept: "map strip (map cue_clean ?cs) = map cue_clean ?cs" using assms(4) by (simp add: list_all_iff)
  have ne: "map cue_clean ?cs \<noteq> []" using assms(1) by simp
  have parsed: "parse_numbered_response ?e (length ?cs) ml = Inr (map cue_clean ?cs)" for ml
    using echo_parsed[OF assms(3) safe ne, of ml] assms(2) kept unfolding echo_of_def by simp
  have "read_reply ?e (length ?cs) (batch_ml b) (batch_maps b) = Inr (map sl_text ?cs)"
    using assms(4) by (simp add: read_reply_def parsed batch_maps_def cues_restored list_all_iff)
  then have "translate_batch (\<lambda>k ms. Inr ?e :: 'e + pystr) rp ?p retries b
      = (Texts (map sl_text ?cs), [[(User, batch_prompt ?p b)]])"
    unfolding translate_batch_eq correction_loop.simps(2) by simp
  moreover have "\<exists>pre post. batch_prompt ?p b = pre @ ?e @ post"
  proof -
    have c: "prompt_lines hints (map cue_clean ?cs) \<noteq> []" using assms(1) by (cases ?cs) (auto simp: prompt_lines_def)
    have bp: "batch_prompt ?p b = build_translate_prompt (map cue_clean ?cs) (map sl_text (batch_before b))
        (map sl_text (batch_after b)) (lit ''English'') hints glossary register (map_option REPAIR_DIRECTIVE check)"
      by (simp add: batch_prompt_def with_prompts_def cue_clean_def[abs_def])
    obtain p q where "build_translate_prompt (map cue_clean ?cs) (map sl_text (batch_before b)) (map sl_text (batch_after b))
        (lit ''English'') hints glossary register (map_option REPAIR_DIRECTIVE check)
        = join_with [10] (p @ prompt_lines hints (map cue_clean ?cs) @ q)" "p \<noteq> []"
      using translate_prompt_split by blast
    with join_with_infix[OF this(2) c, of "[10]" q] show ?thesis
      by (simp add: bp echo_of_def)
  qed
  ultimately show ?thesis by (simp add: Let_def)
qed

theorem echoed_batch_kept_witness:
  "\<forall>su :: unit surroundings. fst (translate_batch (\<lambda>k ms. Inr (echo_of sample_hints sample_batch) :: unit + pystr)
     (\<lambda>t. t) (su_prompt (with_prompts su) sample_hints None None None) 2 sample_batch) = Texts [lit ''abc'', lit ''abc'']"
proof -
  have h: "plain_hints sample_hints"
    by (simp add: plain_hints_def sample_hints_def or_nil_def plain_term_def lit_def line_break_def)
  have c: "cue_clean (sample_cue n) = lit ''abc''" "\<not> found SENTINEL_RE (sl_text (sample_cue n))" for n
    by (simp_all add: cue_clean_def sample_cue_def extract_untagged lit_def) (auto simp: found_iff SENTINEL_RE_def rxm_seq lit_def)
  have s: "strip (lit ''abc'') = lit ''abc''" by (rule strip_no_space) (simp_all add: lit_def ascii_eval)
  then have "echo_safe (lit ''abc'')" by (intro echo_safeI) (simp_all add: lit_def line_break_def)
  with c s have l: "list_all (\<lambda>c. \<not> found SENTINEL_RE (sl_text c) \<and> echo_safe (cue_clean c) \<and> strip (cue_clean c) = cue_clean c)
      (batch_cues sample_batch)" by (simp add: sample_batch_def)
  have n: "batch_cues sample_batch \<noteq> []" "length (dec (length (batch_cues sample_batch))) \<le> 4300"
    by (simp_all add: sample_batch_def dec.simps)
  have t: "map sl_text (batch_cues sample_batch) = [lit ''abc'', lit ''abc'']" by (simp add: sample_batch_def sample_cue_def)
  show ?thesis
  proof
    fix su :: "unit surroundings"
    from echoed_batch_kept[OF n h l, where 'e = unit and su = su and glossary = None and register = None and check = None
        and rp = "\<lambda>t. t" and retries = 2]
    show "fst (translate_batch (\<lambda>k ms. Inr (echo_of sample_hints sample_batch) :: unit + pystr) (\<lambda>t. t)
        (su_prompt (with_prompts su) sample_hints None None None) 2 sample_batch) = Texts [lit ''abc'', lit ''abc'']"
      by (simp add: Let_def t)
  qed
qed



text \<open>
  A context cue of several lines is marked as context in its first line only: the lines after it
  stand in the prompt as they are, so a second line that looks like a numbered line reads as one.
\<close>

theorem context_line_unmarked:
  assumes "t \<in> set before" and "strip t = a @ [10] @ b" and "10 \<notin> set b"
  shows "b \<in> set (split_char 10 (build_translate_prompt ts before after lang hints glossary register directive))"
proof -
  obtain p q where p: "build_translate_prompt ts before after lang hints glossary register directive
      = join_with [10] (p @ prompt_lines hints ts @ q)" "p \<noteq> []" "before \<noteq> [] \<longrightarrow> set (context_lines before) \<subseteq> set p"
    using translate_prompt_split by blast
  have "lit ''[context] '' @ strip t \<in> set p" using p(3) assms(1) by (auto simp: context_lines_def)
  moreover have "b \<in> set (split_char 10 (lit ''[context] '' @ strip t))"
    using split_char_append[of 10 "lit ''[context] '' @ a" b] split_char_line[OF assms(3)] assms(2) by simp
  ultimately show ?thesis using p(1,2) by (auto simp: split_joined)
qed


theorem context_line_unmarked_witness:
  "lit ''[1] cd'' \<in> set (split_char 10 (build_translate_prompt [lit ''x''] [lit ''ab'' @ [10] @ lit ''[1] cd''] [] (lit ''English'')
     None None None None))"
proof (rule context_line_unmarked[where a = "lit ''ab''"])
  show "strip (lit ''ab'' @ [10] @ lit ''[1] cd'') = lit ''ab'' @ [10] @ lit ''[1] cd''"
    by (rule strip_no_space) (simp_all add: lit_def ascii_eval)
qed (simp_all add: lit_def)

text \<open>A separator other than CR ends a line.\<close>

lemma splitlines_keep_sep:
  assumes "line_break c" and "c \<noteq> 13"
  shows "\<forall>d \<in> set x. \<not> line_break d \<Longrightarrow> splitlines_keep (x @ c # s) = (x @ [c]) # splitlines_keep s"
proof (induction x)
  case Nil
  with assms show ?case by (cases s) auto
next
  case (Cons d x)
  obtain e y where e: "x @ c # s = e # y" by (cases x) auto
  have "d \<noteq> 13" using Cons.prems by (auto simp: line_break_def)
  with Cons e show ?case by simp
qed

lemma chop_eol_sep: "line_break c \<Longrightarrow> c \<noteq> 10 \<Longrightarrow> chop_eol (x @ [c]) = x"
  by (auto simp: chop_eol_def ends_with_iff)

text \<open>
  The echo of a cue of one line is cut at a line separator other than a line feed: the parser splits
  the reply there, and what follows belongs to no number.
\<close>

theorem separator_cuts_echo:
  assumes "plain_text a" and "plain_text b" and "mark_of b = None" and "line_break c" and "c \<noteq> 13" and "c \<noteq> 10"
  shows "parse_numbered_response (join_with [10] (prompt_lines None [a @ [c] @ b])) 1 (Some (multiline_indices [a @ [c] @ b])) = Inr [a]"
proof -
  let ?t = "a @ [c] @ b"
  have a: "line_text a" and b: "line_text b" using assms(1,2) by (simp_all add: plain_line)
  then have n: "\<forall>d \<in> set a. \<not> line_break d" "\<forall>d \<in> set b. \<not> line_break d" "a \<noteq> []" "b \<noteq> []"
    "\<not> is_space (hd a)" "\<not> is_space (last b)" by (simp_all add: line_text_def)
  have "line_break 10" by (simp add: line_break_def)
  with n(1,2) assms(6) have ten: "10 \<notin> set ?t" by auto
  have "strip ?t = ?t" using n by (intro strip_no_space) simp_all
  with ten have "join_with [10] (prompt_lines None [?t]) = numbered_line 1 a @ c # b"
    by (simp add: prompt_lines_def prompt_line_def numbered_line_def br_marked_eq encode_plain lit_def)
  moreover have "\<forall>d \<in> set (numbered_line 1 a). \<not> line_break d"
    using n(1) by (auto simp: numbered_line_def dec.simps line_break_def)
  ultimately have "splitlines (join_with [10] (prompt_lines None [?t])) = [numbered_line 1 a, b]"
    using n(2,4) by (simp add: splitlines_def splitlines_keep_sep[OF assms(4,5)] splitlines_keep_last chop_eol_sep[OF assms(4,6)] chop_eol_last)
  moreover have "multiline_indices [?t] = {}" using ten by (simp add: multiline_indices_def)
  moreover have "parse_lines (Some {}) [numbered_line 1 a, b] [] None = Inr [(1, a)]"
  proof -
    have "length (dec 1) \<le> 4300" by (simp add: dec.simps)
    with numbered_line_mark[OF a, of 1] show ?thesis by (simp add: parse_lines_mark parse_lines_prose[OF assms(3)])
  qed
  moreover have "finish_text a = a" "strip a \<noteq> []"
    using finish_plain[OF assms(1)] a by (auto simp: line_text_def strip_no_space)
  ultimately show ?thesis by (simp add: parse_numbered_response_def Let_def)
qed

theorem separator_cuts_echo_witness:
  "parse_numbered_response (join_with [10] (prompt_lines None [lit ''ab'' @ [8232] @ lit ''no''])) 1
     (Some (multiline_indices [lit ''ab'' @ [8232] @ lit ''no''])) = Inr [lit ''ab'']"
proof (rule separator_cuts_echo)
  show "plain_text (lit ''ab'')" "plain_text (lit ''no'')"
    by (rule plain_textI; simp add: lit_def ascii_eval line_break_def)+
qed (simp_all add: sample_refusal_mark line_break_def)

end
