(* ===== verification/Analysis_Prompts.thy ===== *)
theory Analysis_Prompts
  imports Prompt_Laws
begin

text \<open>
  The prompts of the two passes that read the source: \<open>build_attribution_prompt\<close> of
  \<open>trezarr/translate/attribute.py\<close> and \<open>_build_analysis_prompt\<close> of \<open>trezarr/bible/analyze.py\<close>.
  Both show the cues as numbered lines and join the lines of a cue with a mark, so that no text of
  the file starts a line of the prompt.
\<close>

section \<open>Definitions\<close>

text \<open>The mark between the lines of a cue.\<close>

definition LINE_MARK :: pystr where
  "LINE_MARK = [32, 9166, 32]"

definition collapsed :: "pystr \<Rightarrow> pystr" where
  "collapsed t = replace_all [10] LINE_MARK (strip t)"

definition shown_line :: "nat \<Rightarrow> pystr \<Rightarrow> pystr" where
  "shown_line i t = lit ''['' @ dec i @ lit ''] '' @ collapsed t"

definition shown_lines :: "pystr list \<Rightarrow> pystr list" where
  "shown_lines ts = map (\<lambda>(i, t). shown_line i t) (enumerate 1 ts)"

definition attribution_task :: "pystr option \<Rightarrow> pystr" where
  "attribution_task register =
     lit ''You are a subtitle analyst working on a Vietnamese-dubbed series''
     @ (if truthy register then lit '' (register/tone: '' @ or_empty register @ lit '')'' else [])
     @ lit ''. For each numbered subtitle line, identify who is speaking and who they are ''
       @ lit ''addressing. Use the character names exactly as listed below.''"

definition character_line :: "character_row \<Rightarrow> pystr" where
  "character_line c = lit ''  - '' @ cr_name c
     @ (if truthy (cr_gender c) then lit '' ('' @ or_empty (cr_gender c) @ lit '')'' else [])"

definition roster :: "character_row list \<Rightarrow> pystr list" where
  "roster cs = (if cs = [] then [lit ''KNOWN CHARACTERS: (none registered yet)'']
     else [lit ''KNOWN CHARACTERS:''] @ map character_line cs)"

text \<open>A block of context, of which nothing remains when there is no line to show.\<close>

definition read_only_block :: "pystr \<Rightarrow> pystr list \<Rightarrow> pystr list" where
  "read_only_block heading ts = (if ts = [] then [] else [heading] @ map (\<lambda>t. lit ''  '' @ collapsed t) ts @ [[]])"

definition last_k :: "nat \<Rightarrow> 'a list \<Rightarrow> 'a list" where
  "last_k k xs = drop (length xs - k) xs"

definition ATTRIBUTION_FORMAT :: pystr where
  "ATTRIBUTION_FORMAT =
     lit ''For each numbered line output a JSON object in this format:'' @ [10] @ lit ''  {'' @ [34]
     @ lit ''line_index'' @ [34] @ lit '': N, '' @ [34] @ lit ''speaker'' @ [34] @ lit '': '' @ [34]
     @ lit ''<name or null>'' @ [34] @ lit '', '' @ [34] @ lit ''addressee'' @ [34] @ lit '': '' @ [34]
     @ lit ''<name or null>'' @ [34] @ lit '', '' @ [34] @ lit ''confidence'' @ [34] @ lit '': '' @ [34]
     @ lit ''<high|medium|low>'' @ [34] @ lit ''}'' @ [10] @ lit ''Use null (not the string '' @ [34]
     @ lit ''unknown'' @ [34]
     @ lit '') when you cannot determine speaker or addressee. Only use names from the KNOWN ''
     @ lit ''CHARACTERS list. Wrap the full response as: {'' @ [34] @ lit ''attributions'' @ [34]
     @ lit '': [<list of line attribution objects>]}''"

definition build_attribution_prompt :: "batch \<Rightarrow> series_bible \<Rightarrow> nat \<Rightarrow> pystr" where
  "build_attribution_prompt b bible k =
     join_with [10] ([attribution_task (sr_register (sb_series bible)), []]
       @ roster (sb_characters bible) @ [[]]
       @ read_only_block (lit ''[CONTEXT - read only, lines before]'') (map sl_text (last_k k (batch_before b)))
       @ [lit ''[LINES TO ATTRIBUTE]''] @ shown_lines (map sl_text (batch_cues b)) @ [[]]
       @ read_only_block (lit ''[CONTEXT - read only, lines after]'') (map sl_text (take k (batch_after b)))
       @ [ATTRIBUTION_FORMAT])"

text \<open>
  What discovery knows of the series; the keys of the dictionary whose value is \<open>None\<close> are
  absent.
\<close>

record series_facts =
  sf_title :: "pystr option"
  sf_genres :: "pystr list option"
  sf_overview :: "pystr option"
  sf_year :: "int option"
  sf_network :: "pystr option"

definition int_text :: "int \<Rightarrow> pystr" where
  "int_text i = (if i < 0 then [45] @ dec (nat (- i)) else dec (nat i))"

definition known_character :: "character_row \<Rightarrow> pystr" where
  "known_character c = lit ''  - '' @ cr_name c
     @ (if truthy (cr_gender c) then lit '' ('' @ or_empty (cr_gender c) @ lit '')'' else [])
     @ (if truthy (cr_role c) then [32, 8212, 32] @ or_empty (cr_role c) else [])"

definition known_characters :: "character_row list \<Rightarrow> pystr" where
  "known_characters cs = (if cs = [] then lit ''Known characters: none yet''
     else lit ''Known characters:'' @ [10] @ join_with [10] (map known_character cs))"

text \<open>\<open>{v!r}\<close>, with \<open>repr\<close> of a string as an argument.\<close>

definition repr_of :: "(pystr \<Rightarrow> pystr) \<Rightarrow> pystr option \<Rightarrow> pystr" where
  "repr_of rp v = (case v of None \<Rightarrow> lit ''None'' | Some t \<Rightarrow> rp t)"

definition locked_pairs :: "pair_row list \<Rightarrow> pair_row list" where
  "locked_pairs ps = filter (\<lambda>p. lit ''self_term'' \<in> set (pr_locked p) \<or> lit ''address_term'' \<in> set (pr_locked p)) ps"

definition pair_line :: "(pystr \<Rightarrow> pystr) \<Rightarrow> pair_row \<Rightarrow> pystr" where
  "pair_line rp p = lit ''  - speaker_id='' @ dec (pr_speaker p) @ ARROW @ lit ''addressee_id='' @ dec (pr_addressee p)
     @ lit '': self_term='' @ repr_of rp (pr_self p) @ lit '', address_term='' @ repr_of rp (pr_address p) @ lit '' [LOCKED]''"

definition known_bible :: "(pystr \<Rightarrow> pystr) \<Rightarrow> series_bible \<Rightarrow> pystr list" where
  "known_bible rp bible =
     (let register = sr_register (sb_series bible); ps = locked_pairs (sb_pairs bible) in
      [lit ''[EXISTING BIBLE CONTEXT]'']
      @ (if truthy register then [lit ''Register/tone: '' @ or_empty register] else [])
      @ [known_characters (sb_characters bible)]
      @ (if ps = [] then [] else [lit ''Locked address pairs:'' @ [10] @ join_with [10] (map (pair_line rp) ps)]))"

definition fact_lines :: "series_facts \<Rightarrow> pystr list" where
  "fact_lines f =
     (let genres = or_nil (sf_genres f) in
      [[10] @ lit ''[SERIES METADATA]'',
       lit ''Title: '' @ (case sf_title f of None \<Rightarrow> lit ''Unknown'' | Some t \<Rightarrow> t)]
      @ (if genres = [] then [] else [lit ''Genres: '' @ join_with (lit '', '') genres])
      @ (case sf_year f of None \<Rightarrow> [] | Some y \<Rightarrow> (if y = 0 then [] else [lit ''Year: '' @ int_text y]))
      @ (if truthy (sf_network f) then [lit ''Network: '' @ or_empty (sf_network f)] else [])
      @ (if truthy (sf_overview f) then [lit ''Overview: '' @ take 500 (or_empty (sf_overview f))] else []))"

definition analysis_instructions :: "pystr \<Rightarrow> pystr" where
  "analysis_instructions episode_key =
     [10] @ lit ''[INSTRUCTIONS]'' @ [10]
     @ lit ''Analyze the dialogue sample above. Even if no prior Bible context is given, infer a ''
     @ lit ''COMPLETE first-pass Bible and return a JSON object with:'' @ [10]
     @ lit ''  - register: overall tone/register of the series. Be specific about genre register ''
     @ lit ''when applicable (e.g. '' @ [39] @ lit ''xianxia'' @ [39] @ lit '', '' @ [39]
     @ lit ''wuxia'' @ [39] @ lit '', '' @ [39] @ lit ''cultivation'' @ [39] @ lit '', '' @ [39]
     @ lit ''historical'' @ [39] @ lit '', '' @ [39] @ lit ''classical'' @ [39] @ lit '', '' @ [39]
     @ lit ''c'' @ [7893] @ lit '' trang'' @ [39] @ lit '', '' @ [39] @ lit ''ti'' @ [234]
     @ lit ''n hi'' @ [7879] @ lit ''p'' @ [39] @ lit '', '' @ [39] @ lit ''ki'' @ [7871] @ lit ''m hi''
     @ [7879] @ lit ''p'' @ [39] @ lit ''), otherwise '' @ [39] @ lit ''formal'' @ [39] @ lit '' / ''
     @ [39] @ lit ''casual'' @ [39] @ lit '' / '' @ [39] @ lit ''romantic'' @ [39]
     @ lit ''. A classical/historical/cultivation register signals the translator and pronoun ''
     @ lit ''engine to use classical Sino-Vietnamese vocabulary and pronouns, so do not under-label ''
     @ lit ''it as merely '' @ [39] @ lit ''casual'' @ [39] @ lit ''.'' @ [10]
     @ lit ''  - characters: list of character objects with original_latin_name, gender (if ''
     @ lit ''determinable), rough_age (if determinable), role (if determinable), ''
     @ lit ''original_script_name (the original-script form of the name if non-Latin, e.g. ''
     @ [39, 27185, 39]
     @ lit '' for a Chinese character named Sakura; omit for Latin-named characters), ''
     @ lit ''vietnamese_rendering (REQUIRED: the Sino-Vietnamese / H'' @ [225] @ lit ''n-Vi'' @ [7879]
     @ lit ''t reading of the name, NOT a phonetic transliteration and NOT the raw romanized/pinyin ''
     @ lit ''form '' @ [8212] @ lit '' e.g. '' @ [39] @ lit ''Han'' @ [39] @ lit '' '' @ [8594]
     @ lit '' '' @ [39] @ lit ''H'' @ [224] @ lit ''n'' @ [39] @ lit '', '' @ [39] @ lit ''Feng Tianji''
     @ [39] @ lit '' '' @ [8594] @ lit '' '' @ [39] @ lit ''Phong Thi'' @ [234] @ lit ''n C'' @ [7921]
     @ lit ''c'' @ [39] @ lit '', '' @ [39] @ lit ''Elder Zhou'' @ [39] @ lit '' '' @ [8594] @ lit '' ''
     @ [39] @ lit ''Ch'' @ [226] @ lit ''u tr'' @ [432, 7903] @ lit ''ng l'' @ [227] @ lit ''o'' @ [39]
     @ lit '', '' @ [39] @ lit ''Miss Mei'' @ [39] @ lit '' '' @ [8594] @ lit '' '' @ [39]
     @ lit ''Mai c'' @ [244] @ lit '' n'' @ [432, 417] @ lit ''ng'' @ [39]
     @ lit ''). A kinship word or rank used as a form of address ('' @ [39] @ lit ''Brother'' @ [39]
     @ lit '', '' @ [39] @ lit ''Elder'' @ [39] @ lit '', '' @ [39] @ lit ''Senior'' @ [39] @ lit '', ''
     @ [39] @ lit ''Young Master'' @ [39] @ lit '') maps to a Vietnamese kinship/honorific ('' @ [39]
     @ lit ''huynh'' @ [39] @ lit '' / '' @ [39] @ lit ''huynh tr'' @ [432, 7903] @ lit ''ng'' @ [39]
     @ lit '' / '' @ [39] @ lit ''tr'' @ [432, 7903] @ lit ''ng l'' @ [227] @ lit ''o'' @ [39]
     @ lit '' / '' @ [39] @ lit ''ti'' @ [7873] @ lit ''n b'' @ [7889] @ lit ''i'' @ [39] @ lit '' / ''
     @ [39] @ lit ''thi'' @ [7871] @ lit ''u gia'' @ [39]
     @ lit ''), never a literal transliterated name. [linguist: confirm H'' @ [225] @ lit ''n-Vi''
     @ [7879] @ lit ''t examples]'' @ [10]
     @ lit ''  - terms: list of proper nouns, titles, places, jargon with source_term and ''
     @ lit ''vietnamese_rendering'' @ [10]
     @ lit ''  - address_map: list of directed pronoun pairs with speaker_name, addressee_name, ''
     @ lit ''self_term (how speaker refers to themselves), address_term (how speaker addresses the ''
     @ lit ''other), confidence (0.0-1.0). Emit a dyad for EVERY pair of characters who speak to ''
     @ lit ''each other in the sample, even on a fresh Bible, so downstream passes have an anchor. ''
     @ lit ''Use the EXACT name string from the characters list (either original_latin_name or ''
     @ lit ''original_script_name). Do NOT reference a character with a name form that was not ''
     @ lit ''listed in the characters list.'' @ [10]
     @ lit ''  - relationship_events: list of relationship transitions detected in this episode'' @ [10]
     @ lit ''    (ONLY emit when a relationship has CHANGED relative to the existing Bible context ''
     @ lit ''above).'' @ [10]
     @ lit ''    Each entry: character_a_name, character_b_name (use the EXACT name string from the ''
     @ lit ''characters list), episode_marker (use '' @ [34]
     @ episode_key
     @ [34] @ lit ''),'' @ [10] @ lit ''    description (narrative description, e.g. '' @ [39]
       @ lit ''They become lovers in this episode'' @ [39] @ lit ''),'' @ [10]
       @ lit ''    suggested_self_term (optional: new Vietnamese self-reference term for A'' @ [8594]
       @ lit ''B),'' @ [10]
       @ lit ''    suggested_address_term (optional: new Vietnamese address term for A'' @ [8594]
       @ lit ''B).'' @ [10]
       @ lit ''    IMPORTANT: Do NOT emit entries for stable, unchanged relationships.'' @ [10]
       @ lit ''Focus on Vietnamese pronoun accuracy. The most important output is the address_map ''
       @ [8212] @ lit '' identify which Vietnamese pronoun pairs (anh/em, ch'' @ [7883] @ lit ''/em, ''
       @ [244] @ lit ''ng/b'' @ [224] @ lit '', ta/ng'' @ [432, 417]
       @ lit ''i, etc.) are appropriate for each speaker'' @ [8594]
       @ lit ''addressee relationship. When the register is classical/historical/cultivation, ''
       @ lit ''prefer the classical pronoun set (ta / t'' @ [7841] @ lit ''i h'' @ [7841]
       @ lit '' / huynh / mu'' @ [7897] @ lit ''i / ng'' @ [432, 417] @ lit ''i / c'' @ [225]
       @ lit ''c h'' @ [7841] @ lit '' / ti'' @ [7873] @ lit ''n b'' @ [7889] @ lit ''i / tr''
       @ [432, 7903] @ lit ''ng l'' @ [227]
       @ lit ''o) over the flat modern set. Never assign a female-gendered address term to a male ''
       @ lit ''addressee (or vice versa).''"

definition build_analysis_prompt ::
  "(pystr \<Rightarrow> pystr) \<Rightarrow> pystr list \<Rightarrow> series_bible \<Rightarrow> series_facts \<Rightarrow> pystr \<Rightarrow> pystr" where
  "build_analysis_prompt rp texts bible facts episode_key =
     join_with [10] (known_bible rp bible @ fact_lines facts
       @ [[10] @ lit ''[DIALOGUE SAMPLE]''] @ shown_lines texts @ [analysis_instructions episode_key])"

section \<open>No text starts a line\<close>

lemma collapsed_line: "10 \<notin> set (collapsed t)"
  by (auto simp: collapsed_def replace_all_char LINE_MARK_def)

lemma split_collapsed:
  "10 \<notin> set p \<Longrightarrow> split_char 10 (p @ collapsed t) = [p @ collapsed t]"
  using collapsed_line[of t] by (intro split_char_line) simp

lemma split_shown_line: "split_char 10 (shown_line i t) = [shown_line i t]"
proof -
  have "10 \<notin> set (lit ''['' @ dec i @ lit ''] '')"
    using dec_digits[of i] by (auto simp: lit_def ascii_digit_def)
  from split_collapsed[OF this, of t] show ?thesis by (simp add: shown_line_def)
qed

lemma split_lines: "\<forall>x \<in> set xs. split_char 10 x = [x] \<Longrightarrow> concat (map (split_char 10) xs) = xs"
  by (induction xs) auto

lemma split_shown_lines: "concat (map (split_char 10) (shown_lines ts)) = shown_lines ts"
  by (rule split_lines) (auto simp: shown_lines_def split_shown_line)

lemma split_read_only: "10 \<notin> set h \<Longrightarrow> concat (map (split_char 10) (read_only_block h ts)) = read_only_block h ts"
  by (rule split_lines) (auto simp: read_only_block_def split_char_line collapsed_line lit_def)

section \<open>Properties\<close>

text \<open>
  C28: In the attribution prompt every cue and every context line is one line of the prompt,
  whatever line feeds its text has: the lines of the prompt are those of the task, the roster, the
  headings and the format, and in their places exactly one for each text. A cue cannot put a
  heading of its own at the start of a line.
\<close>

theorem attribution_texts_one_line:
  "split_char 10 (build_attribution_prompt b bible k) =
     split_char 10 (attribution_task (sr_register (sb_series bible))) @ [[]]
     @ concat (map (split_char 10) (roster (sb_characters bible))) @ [[]]
     @ read_only_block (lit ''[CONTEXT - read only, lines before]'') (map sl_text (last_k k (batch_before b)))
     @ [lit ''[LINES TO ATTRIBUTE]''] @ shown_lines (map sl_text (batch_cues b)) @ [[]]
     @ read_only_block (lit ''[CONTEXT - read only, lines after]'') (map sl_text (take k (batch_after b)))
     @ split_char 10 ATTRIBUTION_FORMAT"
proof -
  have h: "10 \<notin> set (lit ''[CONTEXT - read only, lines before]'')" "10 \<notin> set (lit ''[CONTEXT - read only, lines after]'')"
    "10 \<notin> set (lit ''[LINES TO ATTRIBUTE]'')" by (simp_all add: lit_def)
  show ?thesis
    unfolding build_attribution_prompt_def
    by (subst split_joined) (simp_all add: split_shown_lines split_read_only h split_char_line)
qed

text \<open>
  The same holds for the sample of the analysis prompt: one line for each text.
\<close>

theorem sample_texts_one_line:
  "\<exists>pre. split_char 10 (build_analysis_prompt rp ts bible facts ep) =
     pre @ [lit ''[DIALOGUE SAMPLE]''] @ shown_lines ts @ split_char 10 (analysis_instructions ep)
     \<and> pre = concat (map (split_char 10) (known_bible rp bible @ fact_lines facts)) @ [[]]"
proof -
  have "split_char 10 ([10] @ lit ''[DIALOGUE SAMPLE]'') = [[], lit ''[DIALOGUE SAMPLE]'']"
    by (simp add: split_char_line lit_def)
  then show ?thesis
    unfolding build_analysis_prompt_def
    by (subst split_joined) (simp_all add: split_shown_lines)
qed

text \<open>
  The texts that are not cues are not collapsed: an overview of the series with a line feed in its
  first 500 characters starts a line of the analysis prompt.
\<close>

theorem overview_starts_line:
  assumes "sf_overview facts = Some (a @ [10] @ b)" and "10 \<notin> set b" and "length a + length b < 500"
  shows "b \<in> set (split_char 10 (build_analysis_prompt rp ts bible facts ep))"
proof -
  let ?o = "lit ''Overview: '' @ a @ [10] @ b"
  have "?o \<in> set (fact_lines facts)" using assms(1,3) by (simp add: fact_lines_def truthy_def or_empty_def Let_def)
  moreover have "b \<in> set (split_char 10 ?o)"
    using split_char_append[of 10 "lit ''Overview: '' @ a" b] split_char_line[OF assms(2)] by simp
  ultimately show ?thesis
    unfolding build_analysis_prompt_def by (subst split_joined) auto
qed

theorem overview_starts_line_witness:
  "lit ''[INSTRUCTIONS]'' \<in> set (split_char 10 (build_analysis_prompt (\<lambda>t. t) [] new_bible
     \<lparr>sf_title = None, sf_genres = None, sf_overview = Some (lit ''x'' @ [10] @ lit ''[INSTRUCTIONS]''), sf_year = None, sf_network = None\<rparr> []))"
  by (rule overview_starts_line[where a = "lit ''x''"]) (simp_all add: lit_def)

end
