(* ===== verification/Job_Logs.thy ===== *)
theory Job_Logs
  imports Job_Queue
begin

text \<open>
  The log of a job (\<open>_JobLogBuffer\<close>, \<open>_JobLogHandler\<close> and the frame of \<open>_execute_job\<close> in
  \<open>trezarr/web/worker.py\<close>, \<open>get_job_logs\<close> of \<open>trezarr/web/routes/queue.py\<close>). Every execution attaches a handler with
  a buffer of its own to the root logger, and a message is said in the context of a job or of none. Steps
  of several executions interleave.
\<close>

section \<open>Handlers and messages\<close>

type_synonym log_record = "pystr \<times> pystr"

record log_row =
  lr_job :: nat
  lr_level :: pystr
  lr_message :: pystr

text \<open>The handlers of the root logger, named by their execution, with their buffers; the table of logs.\<close>

record job_logging =
  jl_handlers :: "(nat \<times> log_record list) list"
  jl_rows :: "log_row list"

text \<open>
  The start and the end of an execution, with its job and whether the rows can be written, and a message:
  the job in whose context it is said, its level, the name of the logger and its text (with the
  traceback, where there is one), which is absent when it cannot be formatted.
\<close>

datatype log_event =
    Attach nat
  | Say "nat option" pystr pystr "pystr option"
  | Detach nat nat bool

definition formatted :: "pystr \<Rightarrow> pystr \<Rightarrow> pystr" where
  "formatted name t = name @ lit '': '' @ t"

text \<open>\<open>emit\<close> asks whether there is a job at all.\<close>

definition emit :: "nat option \<Rightarrow> pystr \<Rightarrow> pystr \<Rightarrow> pystr option \<Rightarrow> log_record list \<Rightarrow> log_record list" where
  "emit ctx level name t buf =
     (if ctx = None then buf else case t of None \<Rightarrow> buf | Some u \<Rightarrow> buf @ [(level, formatted name u)])"

definition flush_logs :: "nat \<Rightarrow> bool \<Rightarrow> log_record list \<Rightarrow> log_row list \<Rightarrow> log_row list" where
  "flush_logs job ok records rows =
     (if records = [] \<or> \<not> ok then rows
      else rows @ map (\<lambda>(l, m). \<lparr>lr_job = job, lr_level = l, lr_message = m\<rparr>) records)"

definition buffer_of :: "nat \<Rightarrow> job_logging \<Rightarrow> log_record list" where
  "buffer_of e s = (case map_of (jl_handlers s) e of None \<Rightarrow> [] | Some buf \<Rightarrow> buf)"

text \<open>At the end the handler is removed, then its buffer is drained and written.\<close>

fun log_step :: "log_event \<Rightarrow> job_logging \<Rightarrow> job_logging" where
  "log_step (Attach e) s = s\<lparr>jl_handlers := jl_handlers s @ [(e, [])]\<rparr>"
| "log_step (Say ctx level name t) s = s\<lparr>jl_handlers := map (\<lambda>(e, buf). (e, emit ctx level name t buf)) (jl_handlers s)\<rparr>"
| "log_step (Detach e job ok) s =
     s\<lparr>jl_handlers := filter (\<lambda>(d, buf). d \<noteq> e) (jl_handlers s),
       jl_rows := flush_logs job ok (buffer_of e s) (jl_rows s)\<rparr>"

fun log_steps :: "log_event list \<Rightarrow> job_logging \<Rightarrow> job_logging" where
  "log_steps [] s = s"
| "log_steps (x # xs) s = log_steps xs (log_step x s)"

text \<open>\<open>get_job_logs\<close>: the times of the rows are those of one transaction, so their order is an argument.\<close>

definition get_job_logs :: "bool \<Rightarrow> (log_row list \<Rightarrow> log_row list) \<Rightarrow> nat \<Rightarrow> job list \<Rightarrow> log_row list \<Rightarrow> nat + log_row list" where
  "get_job_logs session arrange job jobs rows =
     (if \<not> session \<or> (\<forall>j \<in> set jobs. job_id j \<noteq> job) then Inl 404
      else Inr (take 1000 (arrange (filter (\<lambda>r. lr_job r = job) rows))))"

section \<open>What a buffer hears\<close>

fun heard :: "log_event list \<Rightarrow> log_record list" where
  "heard [] = []"
| "heard (Say ctx level name t # xs) = emit ctx level name t [] @ heard xs"
| "heard (x # xs) = heard xs"

fun said_by :: "nat \<Rightarrow> log_event list \<Rightarrow> log_record list" where
  "said_by j [] = []"
| "said_by j (Say ctx level name t # xs) = (if ctx = Some j then emit ctx level name t [] else []) @ said_by j xs"
| "said_by j (x # xs) = said_by j xs"

fun of_execution :: "nat \<Rightarrow> log_event \<Rightarrow> bool" where
  "of_execution e (Attach d) \<longleftrightarrow> d = e"
| "of_execution e (Say ctx level name t) \<longleftrightarrow> False"
| "of_execution e (Detach d job ok) \<longleftrightarrow> d = e"

text \<open>No job but this one speaks.\<close>

fun quiet_but :: "nat \<Rightarrow> log_event \<Rightarrow> bool" where
  "quiet_but j (Say ctx level name t) \<longleftrightarrow> ctx = None \<or> ctx = Some j"
| "quiet_but j (Attach e) \<longleftrightarrow> True"
| "quiet_but j (Detach e i ok) \<longleftrightarrow> True"

lemma log_steps_append: "log_steps (xs @ ys) s = log_steps ys (log_steps xs s)"
  by (induction xs arbitrary: s) auto

lemma emit_append: "emit ctx level name t buf = buf @ emit ctx level name t []"
  by (simp add: emit_def split: option.split)

lemma buffer_say:
  "map_of (jl_handlers s) e \<noteq> None \<Longrightarrow>
     buffer_of e (log_step (Say ctx level name t) s) = emit ctx level name t (buffer_of e s)
     \<and> map_of (jl_handlers (log_step (Say ctx level name t) s)) e \<noteq> None"
  by (auto simp: buffer_of_def map_of_map)

lemma buffer_other:
  assumes "\<not> of_execution e x" and "map_of (jl_handlers s) e \<noteq> None" and "\<nexists>ctx level name t. x = Say ctx level name t"
  shows "buffer_of e (log_step x s) = buffer_of e s \<and> map_of (jl_handlers (log_step x s)) e \<noteq> None"
proof (cases x)
  case (Detach d job ok)
  with assms(1) have "map_of (filter (\<lambda>(c, buf). c \<noteq> d) hs) e = map_of hs e" for hs :: "(nat \<times> log_record list) list"
    by (induction hs) auto
  with assms(2) Detach show ?thesis by (simp add: buffer_of_def)
qed (use assms in \<open>auto simp: buffer_of_def map_add_def split: option.splits\<close>)

lemma buffer_during:
  assumes "\<forall>x \<in> set xs. \<not> of_execution e x" and "map_of (jl_handlers s) e \<noteq> None"
  shows "buffer_of e (log_steps xs s) = buffer_of e s @ heard xs"
  using assms
proof (induction xs arbitrary: s)
  case (Cons x xs)
  show ?case
  proof (cases "\<exists>ctx level name t. x = Say ctx level name t")
    case True
    then obtain ctx level name t where x: "x = Say ctx level name t" by blast
    note b = buffer_say[OF Cons.prems(2), of ctx level name t]
    from Cons.IH[of "log_step x s"] Cons.prems(1) b x emit_append[of ctx level name t "buffer_of e s"]
    show ?thesis by simp
  next
    case False
    then have h: "heard (x # xs) = heard xs" by (cases x) auto
    have "\<not> of_execution e x" using Cons.prems(1) by simp
    from buffer_other[OF this Cons.prems(2) False] Cons.IH[of "log_step x s"] Cons.prems(1) show ?thesis
      unfolding h by simp
  qed
qed simp

lemma heard_alone: "\<forall>x \<in> set xs. quiet_but j x \<Longrightarrow> heard xs = said_by j xs"
proof (induction xs)
  case (Cons x xs)
  then show ?case by (cases x) (auto simp: emit_def)
qed simp

section \<open>Properties\<close>


text \<open>Two jobs run at once: the log of the first one has the message of the second.\<close>

definition two_jobs :: "log_event list" where
  "two_jobs = [Say (Some 1) (lit ''INFO'') (lit ''a'') (Some (lit ''one'')), Attach 2,
     Say (Some 2) (lit ''INFO'') (lit ''a'') (Some (lit ''two''))]"


end
