(* ===== verification/Quarantine_File.thy ===== *)
theory Quarantine_File
  imports Persistence
begin

text \<open>
  The artifact of a quarantined file (\<open>_write_quarantine\<close> of \<open>trezarr/translate/engine.py\<close>): a JSON
  object in the quarantine directory, written beside its place and renamed, a third instance of
  \<open>staged_writer\<close>. Names are those of that directory.
\<close>

section \<open>The writer\<close>

definition artifact_name :: "pystr \<Rightarrow> pystr" where
  "artifact_name source_name = path_stem source_name @ lit ''.json''"

definition artifact_json :: "pystr \<Rightarrow> int list \<Rightarrow> pystr \<Rightarrow> pystr \<Rightarrow> json" where
  "artifact_json reason failing timestamp source_path =
     JDict [(lit ''reason'', JStr reason), (lit ''failing_cue_indices'', JList (map JInt failing)),
            (lit ''timestamp'', JStr timestamp), (lit ''source_path'', JStr source_path)]"

text \<open>The directory may not be creatable; the temporary file is unlinked unless it was renamed.\<close>

definition write_quarantine ::
  "(json \<Rightarrow> pystr) \<Rightarrow> bool \<Rightarrow> write_env \<Rightarrow> pystr \<Rightarrow> json \<Rightarrow> bytes fs_op list \<times> (io_error + pystr)" where
  "write_quarantine dump made env source_name artifact =
     (let target = artifact_name source_name in
      if \<not> made then ([], Inl OsError)
      else case we_slot env of
        None \<Rightarrow> ([], Inl OsError)
      | Some t \<Rightarrow>
          (let tmp = t @ TMP_SUFFIX; partly = Store tmp [] # map (Store tmp) (we_partial env) in
           case encode_all utf8_char (dump artifact) of
             None \<Rightarrow> (partly @ [Unlink tmp], Inl (Raised ValueError))
           | Some bs \<Rightarrow>
               (if \<not> we_full env then (partly @ [Unlink tmp], Inl OsError)
                else if \<not> we_replace env then (partly @ [Store tmp bs, Unlink tmp], Inl OsError)
                else (partly @ [Store tmp bs, Replace tmp target], Inr target))))"

definition artifact_content :: "(json \<Rightarrow> pystr) \<Rightarrow> bool \<Rightarrow> write_env \<Rightarrow> json \<Rightarrow> bytes option" where
  "artifact_content dump made env artifact =
     (if \<not> made \<or> we_slot env = None \<or> \<not> we_full env \<or> \<not> we_replace env then None
      else encode_all utf8_char (dump artifact))"

definition artifact_fresh :: "write_env \<Rightarrow> pystr \<Rightarrow> bool" where
  "artifact_fresh env source_name \<longleftrightarrow> artifact_name source_name \<noteq> slot_name env"

lemma artifact_staged:
  assumes f: "artifact_fresh env n"
  shows "staged (fst (write_quarantine dump made env n a)) (artifact_name n) (artifact_content dump made env a)"
proof (cases "artifact_content dump made env a")
  case None
  with f show ?thesis
    by (auto simp: staged_def write_quarantine_def artifact_content_def artifact_fresh_def slot_name_def Let_def
        split: option.splits if_splits)
next
  case (Some c)
  then obtain t where t: "made" "we_slot env = Some t" "we_full env" "we_replace env" "encode_all utf8_char (dump a) = Some c"
    by (auto simp: artifact_content_def split: if_splits)
  then have "fst (write_quarantine dump made env n a) = (Store (slot_name env) [] # map (Store (slot_name env)) (we_partial env))
      @ Store (slot_name env) c # Replace (slot_name env) (artifact_name n) # []"
    by (simp add: write_quarantine_def slot_name_def Let_def)
  moreover have "\<forall>x \<in> set (Store (slot_name env) [] # map (Store (slot_name env)) (we_partial env)) \<union> set [].
      \<not> touches (artifact_name n) x" "slot_name env \<noteq> artifact_name n"
    using f by (auto simp: artifact_fresh_def)
  ultimately show ?thesis unfolding Some staged_def option.case by blast
qed

interpretation artifact: staged_writer "\<lambda>(dump, made, env, n, a). fst (write_quarantine dump made env n a)"
  "\<lambda>(dump, made, env, n, a). artifact_name n" "\<lambda>(dump, made, env, n, a). artifact_content dump made env a"
  "\<lambda>(dump, made, env, n, a). artifact_fresh env n"
  by unfold_locales (auto intro: artifact_staged)

lemma artifact_reported:
  "snd (write_quarantine dump made env n a) = Inr p \<Longrightarrow> p = artifact_name n \<and> (\<exists>bs. artifact_content dump made env a = Some bs
     \<and> encode_all utf8_char (dump a) = Some bs)"
  by (auto simp: write_quarantine_def artifact_content_def Let_def split: option.splits if_splits)

section \<open>Properties\<close>

text \<open>
  The artifact is replaced at once: after a crash at any point the file holds what it held or
  the whole new artifact; when a path is returned the new artifact is there.
\<close>

theorem artifact_replaced_at_once:
  assumes "artifact_fresh env n"
  shows "(let (ops, result) = write_quarantine dump made env n a in
     (\<forall>k. run_ops (take k ops) fs (artifact_name n) \<in> {fs (artifact_name n), artifact_content dump made env a})
     \<and> (\<forall>p. result = Inr p \<longrightarrow> p = artifact_name n \<and> run_ops ops fs p = encode_all utf8_char (dump a)))"
proof -
  let ?i = "(dump, made, env, n, a)"
  have c: "run_ops (take k (fst (write_quarantine dump made env n a))) fs (artifact_name n)
      \<in> {fs (artifact_name n), artifact_content dump made env a}" for k
    using artifact.crash[of ?i k fs] assms by auto
  have "p = artifact_name n \<and> run_ops (fst (write_quarantine dump made env n a)) fs p = encode_all utf8_char (dump a)"
    if "snd (write_quarantine dump made env n a) = Inr p" for p
    using artifact_reported[OF that] artifact.written[of ?i fs] assms by auto
  with c show ?thesis by (simp add: case_prod_unfold Let_def)
qed

text \<open>A crash after the new text has been staged.\<close>

lemma demo_artifact: "artifact_name (lit ''S.en.srt'') = lit ''S.en.json''" "artifact_name (lit ''S.en.ass'') = lit ''S.en.json''"
  by (simp_all add: artifact_name_def path_stem_def path_suffix_def last_dot_def Let_def lit_def)

lemma demo_artifact_fresh: "artifact_fresh good_env (lit ''S.en.srt'')" "artifact_fresh good_env (lit ''S.en.ass'')"
  unfolding artifact_fresh_def demo_artifact demo_sidecar(2) by (simp_all add: lit_def)

theorem artifact_replaced_at_once_witness:
  "run_ops (take 2 (fst (write_quarantine (\<lambda>v. [97]) True good_env (lit ''S.en.srt'') (artifact_json [] [1] [] [])))) Map.empty (lit ''S.en.json'')
     \<in> {None, artifact_content (\<lambda>v. [97]) True good_env (artifact_json [] [1] [] [])}"
  using artifact_replaced_at_once[OF demo_artifact_fresh(1), of "\<lambda>v. [97]" True "artifact_json [] [1] [] []" Map.empty]
  by (auto simp: demo_artifact case_prod_unfold Let_def)

text \<open>
  Two quarantined files whose names differ only in the suffix, or only in their directory, share
  one artifact: the second one replaces the first.
\<close>

theorem same_stem_one_artifact:
  assumes "path_stem m = path_stem n" and "artifact_fresh env' n"
    and "write_quarantine dump made env m a = (ops, Inr p)" and "write_quarantine dump made' env' n b = (ops', Inr q)"
  shows "p = q \<and> run_ops (ops @ ops') fs p = encode_all utf8_char (dump b)"
proof -
  have "p = artifact_name m" using artifact_reported[of dump made env m a p] assms(3) by simp
  moreover have q: "q = artifact_name n" "artifact_content dump made' env' b = encode_all utf8_char (dump b)" "artifact_content dump made' env' b \<noteq> None"
    using artifact_reported[of dump made' env' n b q] assms(4) by auto
  moreover have "run_ops ops' fs' (artifact_name n) = artifact_content dump made' env' b" for fs'
    using artifact.written[of "(dump, made', env', n, b)" fs'] assms(2,4) q(3) by auto
  ultimately show ?thesis using assms(1) by (simp add: artifact_name_def run_ops_append)
qed

theorem same_stem_one_artifact_witness:
  "run_ops (fst (write_quarantine (\<lambda>v. [97]) True good_env (lit ''S.en.srt'') (artifact_json [] [1] [] []))
      @ fst (write_quarantine (\<lambda>v. [97]) True good_env (lit ''S.en.ass'') (artifact_json [] [2] [] []))) Map.empty (lit ''S.en.json'') = Some [97]"
proof -
  have e: "utf8_char 97 = Some [97]" by (simp add: utf8_char_def surrogate_def byte_def)
  have p: "path_stem (lit ''S.en.srt'') = path_stem (lit ''S.en.ass'')"
    by (simp add: path_stem_def path_suffix_def last_dot_def Let_def lit_def)
  have w: "write_quarantine (\<lambda>v. [97]) True good_env n a = (fst (write_quarantine (\<lambda>v. [97]) True good_env n a), Inr (artifact_name n))" for n a
    by (simp add: write_quarantine_def good_env_def e Let_def)
  from same_stem_one_artifact[OF p demo_artifact_fresh(2) w w, of "artifact_json [] [1] [] []" "artifact_json [] [2] [] []" Map.empty] e show ?thesis
    by (simp add: demo_artifact)
qed

end
