(* ===== verification/Spec2Isabelle.thy ===== *)
theory Spec2Isabelle
  imports Sub_Dispatch File_Bible Daemon Settings_Api Llm_Tiers Arr_Services Encoding Bible_Api Web_Views Startup Application Analysis_Prompts Job_Logs Quarantine_File
begin

text \<open>
  Verification of trezarr, a server that finds the subtitles of films and series without a
  Vietnamese sidecar, translates them with a language model and keeps, for each series, a Bible of
  names, terms and forms of address that makes the translation consistent.

  \<^bold>\<open>The program and the theories.\<close> Paths are relative to \<open>src/trezarr\<close>.

  \<^item> Reading and writing subtitles (\<open>subtitles/\<close>): \<open>Sub_Model\<close> holds the document and cue records
  and the interface \<open>subtitle_codec\<close> (what is read is written back on a set of texts), \<open>Srt_Codec\<close>,
  \<open>Ass_Codec\<close> and \<open>Vtt_Codec\<close> the three codecs, each an interpretation of it, \<open>Sub_Dispatch\<close> the
  choice by suffix, \<open>Encoding\<close> the detection of the encoding and the files of bytes
  (\<open>subtitles/encoding.py\<close>), with UTF-8 and UTF-16 written out. \<open>Timecode\<close> is \<open>translate/_timecode.py\<close>. Texts are lists of code points
  (\<open>pystr\<close>); \<open>Unicode_Tables\<close> has the classes of Python's string methods and \<open>Py_Regex\<close> a matcher
  for the regular expressions of the code, with the backtracking order of \<open>re\<close>.
  \<^item> Translating one file (\<open>translate/engine.py\<close>): \<open>Batching\<close> cuts the cues into batches
  (\<open>translate/batching.py\<close>), \<open>Sentinel\<close> hides inline tags (\<open>translate/sentinel.py\<close>),
  \<open>Numbered_Response\<close> parses the numbered reply of the model and asks again when it is wrong,
  \<open>Prompts\<close> holds the prompts of the translation and the review, with their texts,
  \<open>Splice\<close> assembles the document from the replies, applies the review and restores brackets,
  \<open>Gate\<close> is the check before writing (\<open>translate/validate.py\<close>), \<open>Translate_File\<close> the whole run:
  ledger checks, Bible passes, batches, review, gate with repair loop, sidecar, ledger.
  \<^item> The Series Bible (\<open>bible/\<close>): \<open>Bible_Model\<close> the tables and the merge policy, \<open>Bible_Store\<close> the
  operations of the pipeline, \<open>Bible_Edits\<close> those of the editor, \<open>Bible_Audit\<close> one abstract step
  that all of them refine, \<open>Bible_Laws\<close> the reachable databases, \<open>Analysis\<close> the first pass
  (\<open>bible/analyze.py\<close>), \<open>Attribution\<close> the second (\<open>translate/attribute.py\<close> and the names of
  \<open>engine.py\<close>), \<open>Analysis_Prompts\<close> the prompts of both, \<open>Reconcile\<close> the choice of pronouns (\<open>translate/reconcile.py\<close>).
  \<^item> What is to be translated: \<open>Ranking\<close> (\<open>source_selection/\<close>), \<open>Media_Paths\<close> (\<open>paths.py\<close>),
  \<open>Ledger\<close> (\<open>output/\<close>: the interface \<open>ledger_protocol\<close>, interpreted on the JSON and the database
  ledger), \<open>Discovery\<close> (\<open>discover/\<close>), \<open>Job_Queue\<close> (\<open>web/worker.py\<close>, \<open>jobs/\<close>, \<open>web/routes/jobs.py\<close>).
  \<^item> Runs: \<open>Run_Pipeline\<close> is the command line run over all eligible items (\<open>cli.py\<close>), \<open>Scheduling\<close>
  the poll of the daemon and the webhook (\<open>web/scheduler.py\<close>, \<open>web/routes/webhook.py\<close>), \<open>Daemon\<close> the
  composition of queue, polls, executions and restarts, with the execution of a job (\<open>web/worker.py\<close>).
  \<^item> Around it: \<open>Json\<close> holds parsed JSON and dictionaries, \<open>Settings_Api\<close> the settings, their display
  and their writer (\<open>config.py\<close>, \<open>web/config_writer.py\<close>, \<open>web/routes/settings.py\<close>), \<open>Llm_Tiers\<close> the ways
  of asking the model for a structured answer (\<open>llm/\<close>), \<open>Arr_Services\<close> what Sonarr, Radarr and Bazarr
  report (\<open>arr/\<close>), \<open>Bible_Api\<close> the routes of the Bible editor (\<open>web/routes/bible.py\<close>), \<open>Web_Views\<close> the
  queue, the library and translation by hand (\<open>web/routes/queue.py\<close>, \<open>web/routes/library.py\<close>), \<open>Job_Logs\<close> the log of a job (\<open>web/worker.py\<close>).
  \<^item> Files and the start: \<open>Persistence\<close> models writers as lists of effects, after any of which they may
  crash: the sidecar, the JSON ledger, and the one-shot transfer of that ledger into the database
  (\<open>output/write.py\<close>, \<open>output/ledger.py\<close>, \<open>db/migration_runner.py\<close>), with the interface \<open>staged_writer\<close>
  interpreted on the first two and on the quarantine artifact (\<open>Quarantine_File\<close>). \<open>Startup\<close> is \<open>_run_once\<close> of \<open>cli.py\<close> and the migration of the schema,
  \<open>Application\<close> the start and shutdown of the server, its static files, and the tests of a
  connection (\<open>web/app.py\<close>, \<open>web/routes/test_connection.py\<close>).

  \<^bold>\<open>State.\<close> A database is a record of its tables, a table the list of its rows in the order of
  insertion; an operation of the store is one transaction, a function from the database to an
  exception or the new database. The world of a run (\<open>Translate_File\<close>) is the ledger, the
  destination file, the quarantine artifact and the Bible. The queue is a record of jobs, queued ids
  and executions under way, its steps the relation \<open>qstep\<close>. The station of a run (\<open>Run_Pipeline\<close>) is the
  ledger with the files of all items and the Bible; the daemon (\<open>dstep\<close>) is a queue and a station.
  Exceptions are values of sum types.

  \<^bold>\<open>What the lemmas show.\<close> \<open>Gate\<close>: when a document passes, exactly. \<open>File_Guarantees\<close>: what reaches
  the sidecar has passed, the ledger tells the outcome, a document fails only for reasons outside
  it, the repair loop ends, which quarantines are retried. \<open>File_Bible\<close>, \<open>Analysis_Laws\<close> and
  \<open>Bible_Pairs\<close>: no run damages what a person locked or a pair established. \<open>Bible_Guarantees\<close>: the
  audit log replays to the tables, locks survive. \<open>Numbered_Response\<close>: which replies are accepted
  and that they are what the model wrote. The codecs: the texts that are reproduced. \<open>Job_Queue\<close>:
  every active job is scheduled exactly once and a series is translated by one job at a time.
  \<open>Ledger\<close>: both ledgers agree. \<open>Batching\<close>, \<open>Sentinel\<close>, \<open>Splice\<close>, \<open>Ranking\<close>, \<open>Media_Paths\<close>,
  \<open>Discovery\<close>: partition and bounds of the batches, round trip of the tags, the assembled lines,
  order of the sources, containment of paths, the counters of a scan. \<open>Run_Pipeline\<close>: a run writes
  only checked translations and, when clean, leaves nothing to do. \<open>Scheduling\<close>: what a poll adds to
  the queue, and that a webhook after it adds nothing. \<open>Daemon\<close>: every reachable state is safe and
  the status of a job tells its outcome. \<open>Settings_Api\<close>: what a patch changes and what is shown.
  \<open>Llm_Tiers\<close>: the order of degradation. \<open>Arr_Services\<close>: what is discovered, and what stops it.
  \<open>Encoding\<close>: which files are reproduced byte for byte. \<open>Bible_Api\<close>: no request leaves the states of
  the store, and which status it answers. \<open>Web_Views\<close>: the pages show the queue as it is, and a
  translation by hand adds at most one job.
  \<open>Prompt_Laws\<close>: prompt and parser agree, so that an echo of the prompt gives the cues back; the same
  holds of the review; where they do not agree. \<open>Analysis_Prompts\<close>: each cue is one line of the prompt.
  \<open>Job_Logs\<close>: what the log of a job gets.
  \<open>Persistence\<close>: a crash leaves the old file or the whole new one, and no entry of the old ledger is
  lost. \<open>Startup\<close>: the first run goes by the old ledger. \<open>Application\<close>: when the engine is released.

  \<^bold>\<open>Bounds and fuel.\<close> The regular expression matcher recurses on the expression and the rest of
  the text and needs no fuel; the loops of the program are structural or have a measure. The
  repair loop and the correction loop are bounded by the settings, as in the code.

  \<^bold>\<open>Arguments of the model.\<close> What the model answers, \<open>repr\<close> of a text, the prompts in
  \<open>Translate_File\<close> (\<open>with_prompts\<close> puts the modelled builders there), the
  JSON parser, the lower-casing of the database, the order in which Python walks a set, which
  failures of a task group are seen before the others are cancelled, and the read and write errors
  of the file system are arguments of the definitions; hypotheses on them are stated where used
  (\<open>honest\<close>, \<open>rearranges\<close>).

  \<^bold>\<open>Not modelled.\<close> The statistical guess of an encoding and the codecs other than UTF-8 and UTF-16,
  which are arguments; in the other theories texts are decoded and an encoding is a name. The word-final form of a capital sigma in \<open>lower\<close>. The floating point token
  estimate of a batch, which is an argument; the thresholds of the gate are fractions. The details
  after the prefix of a gate message. Confidence numbers and timestamps of the Bible. Resolving of
  paths by the file system. Logging and metrics. In the runs a write of a
  file is one step; how it is made of smaller ones is in \<open>Persistence\<close>. The HTTP clients and the SDK of the model, the
  parsing of URLs, the argument parser, the scripts of the migrations, the script for a single file and the registration of the routes are
  input and output around the parts above. In the daemon an execution is
  one step on the ledger and the files, two executions do not interleave below that, and an
  exception from outside appears only as having happened. An item without a session factory is a file without media information (\<open>fj_media\<close>).
\<close>

end
